(* ===== verification/Prelude.thy ===== *)
theory Prelude
  imports Complex_Main "HOL-Library.Code_Target_Nat" "HOL-Library.Char_ord" "HOL-Library.List_Lexorder" "HOL-Library.Multiset"
begin

text \<open>
  What every component of the development shares.

  \<^item> The Python values the data platform moves around: a parsed CSV field is
    \<open>str | bool | None\<close> (\<open>cell\<close>), and the heterogeneous values of a diagnostic
    \<open>context\<close>, of a finding's \<open>threshold\<close>/\<open>observed\<close> dictionary and of an
    interpolated message are \<open>pyval\<close>.  A Python \<open>str\<close> is a list of characters;
    a character of the model is a code point below 256.
  \<^item> Fallible operations return a sum: \<open>Inl\<close> the exception that was raised, \<open>Inr\<close>
    the value that was returned.
  \<^item> The string operations of the language the code calls (\<open>str.join\<close>,
    \<open>str.strip\<close>, \<open>str.replace\<close>, \<open>startswith\<close>, \<open>endswith\<close>).
  \<^item> The list lemmas the components share, collected in \<open>loop_simps\<close> where they
    are about the row loops.
\<close>

named_theorems frame_simps "what an operation leaves unchanged"
named_theorems loop_simps "facts about the row loops of the streaming stages"

section \<open>Python values\<close>

datatype cell = CNone | CBool bool | CStr string

datatype pyval =
    VNone
  | VBool bool
  | VInt int
  | VFloat rat
  | VStr string
  | VList "pyval list"

text \<open>
  A message is an f-string: its template with the interpolated values beside it, before
  they are rendered to text.
\<close>

datatype message = Msg string "pyval list"

fun cell_val :: "cell \<Rightarrow> pyval" where
  "cell_val CNone = VNone"
| "cell_val (CBool b) = VBool b"
| "cell_val (CStr s) = VStr s"

definition py_str_bool :: "bool \<Rightarrow> string" where
  "py_str_bool b = (if b then ''True'' else ''False'')"

text \<open>\<open>"" if field is None else str(field)\<close>, the rendering every stage uses for a field.\<close>

fun field_text :: "cell \<Rightarrow> string" where
  "field_text CNone = ''''"
| "field_text (CBool b) = py_str_bool b"
| "field_text (CStr s) = s"

section \<open>Python strings\<close>

fun join :: "string \<Rightarrow> string list \<Rightarrow> string" where
  "join sep [] = ''''"
| "join sep [x] = x"
| "join sep (x # y # zs) = x @ sep @ join sep (y # zs)"

fun starts_with :: "string \<Rightarrow> string \<Rightarrow> bool" where
  "starts_with xs [] = True"
| "starts_with [] (p # ps) = False"
| "starts_with (x # xs) (p # ps) = (x = p \<and> starts_with xs ps)"

definition ends_with :: "string \<Rightarrow> string \<Rightarrow> bool" where
  "ends_with xs suffix = starts_with (rev xs) (rev suffix)"

text \<open>The white space of \<open>str.strip\<close> among the code points below 256.\<close>

definition is_space :: "char \<Rightarrow> bool" where
  "is_space c = (let n = (of_char c :: nat) in
     (9 \<le> n \<and> n \<le> 13) \<or> (28 \<le> n \<and> n \<le> 32) \<or> n = 133 \<or> n = 160)"

definition lstrip :: "string \<Rightarrow> string" where
  "lstrip s = dropWhile is_space s"

definition rstrip :: "string \<Rightarrow> string" where
  "rstrip s = rev (dropWhile is_space (rev s))"

definition strip :: "string \<Rightarrow> string" where
  "strip s = rstrip (lstrip s)"

text \<open>
  \<open>s.replace(old, new)\<close>: left to right, non-overlapping.  An empty \<open>old\<close> matches
  before every character and at the end, as in Python.
\<close>

function replace_nonempty :: "string \<Rightarrow> string \<Rightarrow> string \<Rightarrow> string" where
  "replace_nonempty old new s =
     (case s of
        [] \<Rightarrow> []
      | c # cs \<Rightarrow>
          (if old \<noteq> [] \<and> starts_with s old
           then new @ replace_nonempty old new (drop (length old) s)
           else c # replace_nonempty old new cs))"
  by pat_completeness auto
termination
  by (relation "measure (\<lambda>(old, new, s). length s)") auto

declare replace_nonempty.simps [simp del]

definition replace_all :: "string \<Rightarrow> string \<Rightarrow> string \<Rightarrow> string" where
  "replace_all old new s =
     (if old = [] then new @ concat (map (\<lambda>c. c # new) s)
      else replace_nonempty old new s)"

lemma starts_with_iff: "starts_with xs p \<longleftrightarrow> (\<exists>ys. xs = p @ ys)"
  by (induction xs p rule: starts_with.induct) auto

lemma starts_with_take: "starts_with xs p \<longleftrightarrow> take (length p) xs = p"
  by (induction xs p rule: starts_with.induct) auto

lemma starts_with_append [simp]: "starts_with (p @ ys) p"
  by (auto simp: starts_with_iff)

lemma ends_with_iff: "ends_with xs p \<longleftrightarrow> (\<exists>ys. xs = ys @ p)"
proof
  assume "ends_with xs p"
  then obtain zs where "rev xs = rev p @ zs"
    by (auto simp: ends_with_def starts_with_iff)
  then have "xs = rev zs @ p" by (metis rev_append rev_rev_ident)
  then show "\<exists>ys. xs = ys @ p" by blast
next
  assume "\<exists>ys. xs = ys @ p"
  then show "ends_with xs p" by (auto simp: ends_with_def)
qed

lemma replace_nonempty_Nil [simp]: "replace_nonempty old new [] = []"
  by (simp add: replace_nonempty.simps)

lemma replace_single_absent: "c \<notin> set s \<Longrightarrow> replace_nonempty [c] new s = s"
proof (induction s)
  case Nil
  then show ?case by simp
next
  case (Cons x xs)
  then have "x \<noteq> c" by auto
  with Cons show ?case by (simp add: replace_nonempty.simps [of "[c]" new "x # xs"])
qed

lemma replace_all_absent: "c \<notin> set s \<Longrightarrow> replace_all [c] new s = s"
  by (simp add: replace_all_def replace_single_absent)

lemma replace_single: "replace_nonempty [c] new s = concat (map (\<lambda>x. if x = c then new else [x]) s)"
proof (induction s)
  case Nil
  then show ?case by simp
next
  case (Cons x xs)
  then show ?case by (auto simp: replace_nonempty.simps [of "[c]" new "x # xs"])
qed

lemma replace_all_single:
  "replace_all [c] new s = concat (map (\<lambda>x. if x = c then new else [x]) s)"
  by (simp add: replace_all_def replace_single)

lemma strip_no_space: "\<forall>c \<in> set s. \<not> is_space c \<Longrightarrow> strip s = s"
proof -
  assume no: "\<forall>c \<in> set s. \<not> is_space c"
  then have "lstrip s = s" by (cases s) (auto simp: lstrip_def)
  moreover from no have "rstrip s = s" by (cases s rule: rev_cases) (auto simp: rstrip_def)
  ultimately show "strip s = s" by (simp add: strip_def)
qed

lemma join_snoc: "xs \<noteq> [] \<Longrightarrow> join sep (xs @ [y]) = join sep xs @ sep @ y"
proof (induction sep xs rule: join.induct)
  case (3 sep x z zs)
  then show ?case by simp
qed auto

lemma int_sum_list: "int (sum_list (map f xs)) = (\<Sum>x\<leftarrow>xs. int (f x))"
  by (induction xs) auto

text \<open>Joining with a one-character separator that no part contains is injective.\<close>

lemma sep_split:
  assumes "p \<notin> set x" and "p \<notin> set y" and "x @ p # s = y @ p # t"
  shows "x = y \<and> s = t"
  using assms
proof (induction x arbitrary: y)
  case Nil
  then show ?case by (cases y) auto
next
  case (Cons c x)
  then show ?case by (cases y) auto
qed

lemma join_injective:
  assumes "length xs = length ys" and "\<forall>x \<in> set xs. p \<notin> set x" and "\<forall>y \<in> set ys. p \<notin> set y"
    and "join [p] xs = join [p] ys"
  shows "xs = ys"
  using assms
proof (induction xs ys rule: list_induct2)
  case Nil
  then show ?case by simp
next
  case (Cons x xs y ys)
  show ?case
  proof (cases xs)
    case Nil
    with Cons show ?thesis by simp
  next
    case (Cons x' xs')
    with \<open>length xs = length ys\<close> obtain y' ys' where "ys = y' # ys'" by (cases ys) auto
    with Cons.prems \<open>xs = x' # xs'\<close> have "x @ p # join [p] xs = y @ p # join [p] ys" by simp
    from sep_split [OF _ _ this] Cons.prems have "x = y" "join [p] xs = join [p] ys" by auto
    with Cons.IH Cons.prems show ?thesis by simp
  qed
qed

section \<open>Results\<close>

text \<open>Run a fallible function over a list, in order, stopping at the first exception.\<close>

fun traverse :: "('a \<Rightarrow> 'e + 'b) \<Rightarrow> 'a list \<Rightarrow> 'e + 'b list" where
  "traverse f [] = Inr []"
| "traverse f (x # xs) =
     (case f x of
        Inl e \<Rightarrow> Inl e
      | Inr y \<Rightarrow> (case traverse f xs of Inl e \<Rightarrow> Inl e | Inr ys \<Rightarrow> Inr (y # ys)))"

lemma traverse_length: "traverse f xs = Inr ys \<Longrightarrow> length ys = length xs"
  by (induction xs arbitrary: ys) (auto split: sum.splits)

lemma traverse_nth:
  "traverse f xs = Inr ys \<Longrightarrow> i < length xs \<Longrightarrow> f (xs ! i) = Inr (ys ! i)"
proof (induction xs arbitrary: ys i)
  case Nil
  then show ?case by simp
next
  case (Cons x xs)
  then show ?case by (cases i) (auto split: sum.splits)
qed

lemma traverse_Inl: "traverse f xs = Inl e \<Longrightarrow> \<exists>x \<in> set xs. f x = Inl e"
  by (induction xs) (auto split: sum.splits)

lemma traverse_mem: "traverse f xs = Inr ys \<Longrightarrow> y \<in> set ys \<Longrightarrow> \<exists>x \<in> set xs. f x = Inr y"
  by (induction xs arbitrary: ys) (auto split: sum.splits)

lemma traverse_Inr_iff: "(\<exists>ys. traverse f xs = Inr ys) \<longleftrightarrow> (\<forall>x \<in> set xs. \<exists>y. f x = Inr y)"
proof (induction xs)
  case Nil
  then show ?case by simp
next
  case (Cons x xs)
  then show ?case by (cases "f x"; cases "traverse f xs") auto
qed

text \<open>\<open>xs[i]\<close> for a non-negative \<open>i\<close>: \<open>None\<close> is an \<open>IndexError\<close>.\<close>

definition py_index :: "'a list \<Rightarrow> nat \<Rightarrow> 'a option" where
  "py_index xs i = (if i < length xs then Some (xs ! i) else None)"

lemma py_index_Some [simp]: "i < length xs \<Longrightarrow> py_index xs i = Some (xs ! i)"
  by (simp add: py_index_def)

lemma py_index_out [simp]: "\<not> i < length xs \<Longrightarrow> py_index xs i = None"
  by (simp add: py_index_def)

lemma py_index_None_iff [simp]: "py_index xs i = None \<longleftrightarrow> length xs \<le> i"
  by (simp add: py_index_def)

text \<open>\<open>xs.index(x)\<close>: the first position, \<open>None\<close> where Python raises \<open>ValueError\<close>.\<close>

fun index_of :: "'a \<Rightarrow> 'a list \<Rightarrow> nat option" where
  "index_of x [] = None"
| "index_of x (y # ys) = (if x = y then Some 0 else map_option Suc (index_of x ys))"

lemma index_of_Some: "index_of x xs = Some i \<Longrightarrow> i < length xs \<and> xs ! i = x"
  by (induction xs arbitrary: i) (auto split: if_splits)

lemma index_of_None_iff: "index_of x xs = None \<longleftrightarrow> x \<notin> set xs"
  by (induction xs) auto

lemma index_of_mem: "x \<in> set xs \<Longrightarrow> \<exists>i. index_of x xs = Some i"
  by (cases "index_of x xs") (auto simp: index_of_None_iff)

lemma map_of_rev_distinct: "distinct (map fst xs) \<Longrightarrow> map_of (rev xs) = map_of xs"
  by (metis distinct_rev map_of_inject_set rev_map set_rev)

section \<open>First occurrences\<close>

definition first_positions :: "('a \<Rightarrow> 'b) \<Rightarrow> 'b set \<Rightarrow> 'a list \<Rightarrow> nat set" where
  "first_positions f S xs = {i. f (xs ! i) \<notin> S \<union> f ` set (take i xs)}"

lemma nths_first_Cons:
  "nths (x # xs) (first_positions f S (x # xs)) =
     (if f x \<in> S then nths xs (first_positions f S xs)
      else x # nths xs (first_positions f (insert (f x) S) xs))"
  by (auto simp: nths_Cons first_positions_def intro!: arg_cong [where f = "nths xs"])

lemma nths_first_image: "f ` set (nths xs (first_positions f S xs)) = f ` set xs - S"
proof (induction xs arbitrary: S)
  case Nil
  then show ?case by simp
next
  case (Cons x xs)
  then show ?case by (auto simp: nths_first_Cons)
qed

lemma nths_first_distinct: "distinct (map f (nths xs (first_positions f S xs)))"
proof (induction xs arbitrary: S)
  case Nil
  then show ?case by simp
next
  case (Cons x xs)
  have "f x \<notin> f ` set (nths xs (first_positions f (insert (f x) S) xs))"
    by (simp add: nths_first_image)
  then show ?case using Cons by (simp add: nths_first_Cons)
qed

end
