(* ===== verification/Records.thy ===== *)
theory Records
  imports Prelude
begin

text \<open>
  The records the pipeline passes around (\<open>models/record.py\<close>, \<open>models/report.py\<close>), the
  error hierarchy (\<open>errors.py\<close>), and the loop every row-level stage runs.

  A \<open>RecordChunk\<close>, \<open>RejectedRecord\<close> and \<open>ValidationResult\<close> are frozen dataclasses, so
  \<open>chunk.replace(rows=...)\<close> is a record update.  An exception is a value: its class and
  the \<open>context\<close> dictionary (the human-readable text is not modelled).
\<close>

section \<open>The error hierarchy\<close>

datatype err_class =
    DataPlatformError
  | ConfigurationError
  | StorageError
  | SecretResolutionError
  | SourceError
  | FileInspectionError
  | FilenameParsingError
  | EncodingDetectionError
  | CsvDialectDetectionError
  | CsvParsingError
  | SchemaError
  | SchemaValidationError
  | IncompatibleSchemaError
  | QualityThresholdExceeded
  | PublicationError
  | PyValueError | PyKeyError | PyIndexError | PyTypeError | PyOverflowError | PyRuntimeError
  | PyAssertionError | PyAttributeError | DatabaseError
  | CsvError | ReError | PyUnicodeDecodeError | PyLookupError | PyOSError | VaultError
  | ManifestError | GeneratorError | DigestFormatError
  | YamlError | InvalidOperation | DecimalOverflow | PyUnicodeEncodeError | PyZeroDivisionError

fun base_class :: "err_class \<Rightarrow> err_class option" where
  "base_class ConfigurationError = Some DataPlatformError"
| "base_class StorageError = Some DataPlatformError"
| "base_class SecretResolutionError = Some DataPlatformError"
| "base_class SourceError = Some DataPlatformError"
| "base_class FileInspectionError = Some SourceError"
| "base_class FilenameParsingError = Some SourceError"
| "base_class EncodingDetectionError = Some SourceError"
| "base_class CsvDialectDetectionError = Some SourceError"
| "base_class CsvParsingError = Some SourceError"
| "base_class SchemaError = Some DataPlatformError"
| "base_class SchemaValidationError = Some SchemaError"
| "base_class IncompatibleSchemaError = Some SchemaError"
| "base_class QualityThresholdExceeded = Some DataPlatformError"
| "base_class PublicationError = Some DataPlatformError"
| "base_class PyUnicodeDecodeError = Some PyValueError"
| "base_class PyUnicodeEncodeError = Some PyValueError"
| "base_class ManifestError = Some PyValueError"
| "base_class DigestFormatError = Some PyValueError"
| "base_class GeneratorError = Some PyRuntimeError"
| "base_class PyKeyError = Some PyLookupError"
| "base_class PyIndexError = Some PyLookupError"
| "base_class _ = None"

fun is_subclass :: "err_class \<Rightarrow> err_class \<Rightarrow> bool" where
  "is_subclass c d = (c = d \<or> (case base_class c of
     None \<Rightarrow> False
   | Some b \<Rightarrow> b = d \<or> (case base_class b of None \<Rightarrow> False | Some b' \<Rightarrow> b' = d)))"

datatype exn = Exn err_class "(string \<times> pyval) list"

fun exn_class :: "exn \<Rightarrow> err_class" where
  "exn_class (Exn c ctx) = c"

fun exn_context :: "exn \<Rightarrow> (string \<times> pyval) list" where
  "exn_context (Exn c ctx) = ctx"

definition reserved_context_keys :: "string list" where
  "reserved_context_keys = [''error_type'', ''error_message'']"

text \<open>\<open>DataPlatformError.__init__\<close>: a reserved context key turns the error into a \<open>ValueError\<close>.\<close>

definition dp_error :: "err_class \<Rightarrow> (string \<times> pyval) list \<Rightarrow> exn" where
  "dp_error c ctx =
     (if list_ex (\<lambda>(k, v). k \<in> set reserved_context_keys) ctx
      then Exn PyValueError [] else Exn c ctx)"

lemma dp_error_no_reserved:
  "\<forall>(k, v) \<in> set (exn_context (dp_error c ctx)). k \<notin> set reserved_context_keys"
  by (auto simp: dp_error_def list_ex_iff)

section \<open>Chunks, rejected records, findings\<close>

type_synonym row = "cell list"

record chunk =
  rc_rows :: "row list"
  rc_first_ordinal :: int
  rc_expected_field_count :: nat

record rejected_record =
  rj_source_row_number :: int
  rj_error_type :: string
  rj_error_message :: message
  rj_raw_line :: string
  rj_error_column :: "string option"
  rj_business_key :: "string option"

record validation_result =
  vr_rule_id :: string
  vr_outcome :: string
  vr_message :: message
  vr_rule_type :: string
  vr_severity :: string
  vr_evaluated_count :: int
  vr_failed_count :: int
  vr_threshold :: "(string \<times> pyval) list"
  vr_observed :: "(string \<times> pyval) list"

record stage_result =
  sr_chunk :: chunk
  sr_rejected :: "rejected_record list"
  sr_findings :: "validation_result list"

abbreviation chunk_len :: "chunk \<Rightarrow> int" where
  "chunk_len c \<equiv> int (length (rc_rows c))"

definition stage_result_of :: "chunk \<Rightarrow> row list \<times> rejected_record list \<Rightarrow> stage_result" where
  "stage_result_of c out =
     \<lparr>sr_chunk = c\<lparr>rc_rows := fst out\<rparr>, sr_rejected = snd out, sr_findings = []\<rparr>"

definition placeholder_chunk :: chunk where
  "placeholder_chunk = \<lparr>rc_rows = [], rc_first_ordinal = 0, rc_expected_field_count = 0\<rparr>"

section \<open>The row loop\<close>

text \<open>
  \<open>for i, row in enumerate(chunk.rows)\<close>: the body decides each row, given its number
  \<open>chunk.first_ordinal + i\<close>: it raises (\<open>Inl\<close>), appends to \<open>rejected\<close>
  (\<open>Inr (Inl x)\<close>) or appends to \<open>kept\<close> (\<open>Inr (Inr row)\<close>).
\<close>

type_synonym row_body = "int \<Rightarrow> row \<Rightarrow> exn + (rejected_record + row)"

fun row_loop :: "row_body \<Rightarrow> int \<Rightarrow> row list \<Rightarrow> exn + (row list \<times> rejected_record list)" where
  "row_loop f n [] = Inr ([], [])"
| "row_loop f n (r # rs) =
     (case f n r of
        Inl e \<Rightarrow> Inl e
      | Inr out \<Rightarrow>
          (case row_loop f (n + 1) rs of
             Inl e \<Rightarrow> Inl e
           | Inr (kept, rejected) \<Rightarrow>
               (case out of
                  Inl x \<Rightarrow> Inr (kept, x # rejected)
                | Inr r' \<Rightarrow> Inr (r' # kept, rejected))))"

definition loop_stage :: "row_body \<Rightarrow> chunk \<Rightarrow> exn + stage_result" where
  "loop_stage f c =
     (case row_loop f (rc_first_ordinal c) (rc_rows c) of
        Inl e \<Rightarrow> Inl e
      | Inr out \<Rightarrow> Inr (stage_result_of c out))"

lemma row_loop_length:
  "row_loop f n rs = Inr (kept, rejected) \<Longrightarrow> length kept + length rejected = length rs"
  by (induction rs arbitrary: n kept rejected) (auto split: sum.splits prod.splits)

text \<open>A body numbers the rows it rejects with the number it was given.\<close>

definition numbers_rows :: "row_body \<Rightarrow> bool" where
  "numbers_rows f \<longleftrightarrow> (\<forall>n r x. f n r = Inr (Inl x) \<longrightarrow> rj_source_row_number x = n)"

lemma numbers_rowsI [intro]:
  "(\<And>n r x. f n r = Inr (Inl x) \<Longrightarrow> rj_source_row_number x = n) \<Longrightarrow> numbers_rows f"
  by (simp add: numbers_rows_def)

lemma row_loop_range:
  assumes "numbers_rows f" and "row_loop f n rs = Inr (kept, rejected)" and "x \<in> set rejected"
  shows "n \<le> rj_source_row_number x \<and> rj_source_row_number x < n + int (length rs)"
  using assms
proof (induction rs arbitrary: n kept rejected)
  case Nil
  then show ?case by simp
next
  case (Cons r rs)
  then show ?case
    by (fastforce simp: numbers_rows_def split: sum.splits prod.splits)
qed

lemma row_loop_increasing:
  assumes "numbers_rows f" and "row_loop f n rs = Inr (kept, rejected)"
  shows "sorted_wrt (<) (map rj_source_row_number rejected)"
  using assms(2)
proof (induction rs arbitrary: n kept rejected)
  case Nil
  then show ?case by simp
next
  case (Cons r rs)
  then obtain out kept' rejected' where body: "f n r = Inr out"
    and rest: "row_loop f (n + 1) rs = Inr (kept', rejected')"
    by (auto split: sum.splits prod.splits)
  from Cons.IH [OF rest] have ih: "sorted_wrt (<) (map rj_source_row_number rejected')" .
  show ?case
  proof (cases out)
    case (Inl x)
    with body assms(1) have "rj_source_row_number x = n" by (simp add: numbers_rows_def)
    moreover have "\<forall>y \<in> set rejected'. n < rj_source_row_number y"
      using row_loop_range [OF assms(1) rest] by fastforce
    ultimately show ?thesis using Cons.prems body rest Inl ih by auto
  next
    case (Inr r')
    then show ?thesis using Cons.prems body rest ih by auto
  qed
qed

lemma row_loop_total: "(\<And>n r. r \<in> set rs \<Longrightarrow> \<exists>out. f n r = Inr out) \<Longrightarrow> \<exists>out. row_loop f n rs = Inr out"
proof (induction rs arbitrary: n)
  case Nil
  then show ?case by simp
next
  case (Cons r rs)
  obtain o1 where o1: "f n r = Inr o1" using Cons.prems [of r n] by auto
  have "\<And>n r. r \<in> set rs \<Longrightarrow> \<exists>out. f n r = Inr out" using Cons.prems by simp
  from Cons.IH [OF this] obtain o2 where o2: "row_loop f (n + 1) rs = Inr o2" by blast
  with o1 show ?case by (cases o1; cases o2) auto
qed

lemma row_loop_raises: "row_loop f n rs = Inl e \<Longrightarrow> \<exists>m r. r \<in> set rs \<and> f m r = Inl e"
  by (induction rs arbitrary: n) (fastforce split: sum.splits prod.splits)+

lemma row_loop_kept:
  "row_loop f n rs = Inr (kept, rejected) \<Longrightarrow> r' \<in> set kept \<Longrightarrow> \<exists>m r. r \<in> set rs \<and> f m r = Inr (Inr r')"
proof (induction rs arbitrary: n kept rejected)
  case Nil
  then show ?case by simp
next
  case (Cons r rs)
  then show ?case by (fastforce split: sum.splits prod.splits)
qed

text \<open>
  A row loop is safe on rows of at least \<open>w\<close> fields when its body neither indexes out of range
  nor shortens a row there.
\<close>

definition safe_body :: "nat \<Rightarrow> row_body \<Rightarrow> bool" where
  "safe_body w f \<longleftrightarrow> (\<forall>n r. w \<le> length r \<longrightarrow>
     (\<forall>e. f n r = Inl e \<longrightarrow> exn_class e \<noteq> PyIndexError) \<and>
     (\<forall>r'. f n r = Inr (Inr r') \<longrightarrow> w \<le> length r'))"

definition wide_rows :: "nat \<Rightarrow> chunk \<Rightarrow> bool" where
  "wide_rows w c \<longleftrightarrow> (\<forall>r \<in> set (rc_rows c). w \<le> length r)"

definition safe_outcome :: "nat \<Rightarrow> exn + stage_result \<Rightarrow> bool" where
  "safe_outcome w out \<longleftrightarrow>
     (case out of Inl e \<Rightarrow> exn_class e \<noteq> PyIndexError | Inr r \<Rightarrow> wide_rows w (sr_chunk r))"

lemma loop_stage_safe:
  assumes "safe_body w f" and "wide_rows w c"
  shows "safe_outcome w (loop_stage f c)"
proof (cases "row_loop f (rc_first_ordinal c) (rc_rows c)")
  case (Inl e)
  from row_loop_raises [OF this] assms show ?thesis
    using Inl by (auto simp: loop_stage_def safe_outcome_def safe_body_def wide_rows_def)
next
  case (Inr out)
  obtain kept rejected where out: "out = (kept, rejected)" by fastforce
  have "w \<le> length r'" if "r' \<in> set kept" for r'
    using row_loop_kept [OF Inr [unfolded out] that] assms
    by (auto simp: safe_body_def wide_rows_def)
  then show ?thesis using Inr out
    by (simp add: loop_stage_def safe_outcome_def wide_rows_def stage_result_of_def)
qed

text \<open>A stage that never raises rewrites the rows it keeps and reports the others by position.\<close>

lemma row_loop_map_filter:
  assumes "\<And>n r. r \<in> set rs \<Longrightarrow>
    f n r = Inr (case h r of None \<Rightarrow> Inl (g n r) | Some r' \<Rightarrow> Inr r')"
  shows "row_loop f n rs =
    Inr (map (\<lambda>r. the (h r)) (filter (\<lambda>r. h r \<noteq> None) rs),
         map (\<lambda>(i, r). g (n + int i) r) (filter (\<lambda>(i, r). h r = None) (enumerate 0 rs)))"
  using assms
proof (induction rs arbitrary: n)
  case Nil
  then show ?case by simp
next
  case (Cons r rs)
  have shift: "map (\<lambda>(i, r). g (n + 1 + int i) r) (filter (\<lambda>(i, r). h r = None) (enumerate 0 rs)) =
    map (\<lambda>(i, r). g (n + int i) r) (filter (\<lambda>(i, r). h r = None) (enumerate (Suc 0) rs))"
    by (simp add: enumerate_Suc_eq filter_map o_def split_def ac_simps)
  have "row_loop f (n + 1) rs =
    Inr (map (\<lambda>r. the (h r)) (filter (\<lambda>r. h r \<noteq> None) rs),
         map (\<lambda>(i, r). g (n + 1 + int i) r) (filter (\<lambda>(i, r). h r = None) (enumerate 0 rs)))"
    by (rule Cons.IH) (use Cons.prems in auto)
  then show ?case using Cons.prems [of r n] by (cases "h r") (simp_all add: shift)
qed

text \<open>A stage that only tests rows is a filter that keeps the rows as they are.\<close>

lemma row_loop_filter:
  assumes "\<And>n r. r \<in> set rs \<Longrightarrow> f n r = Inr (if P r then Inr r else Inl (g n r))"
  shows "row_loop f n rs =
    Inr (filter P rs,
         map (\<lambda>(i, r). g (n + int i) r) (filter (\<lambda>(i, r). \<not> P r) (enumerate 0 rs)))"
proof -
  have "row_loop f n rs =
    Inr (map (\<lambda>r. the (if P r then Some r else None)) (filter (\<lambda>r. (if P r then Some r else None) \<noteq> None) rs),
         map (\<lambda>(i, r). g (n + int i) r)
           (filter (\<lambda>(i, r). (if P r then Some r else None) = None) (enumerate 0 rs)))"
    by (rule row_loop_map_filter) (simp add: assms)
  also have "map (\<lambda>r. the (if P r then Some r else None))
      (filter (\<lambda>r. (if P r then Some r else None) \<noteq> None) rs) = filter P rs"
    by (induction rs) auto
  also have "filter (\<lambda>(i, r). (if P r then Some r else None) = None) (enumerate 0 rs) =
      filter (\<lambda>(i, r). \<not> P r) (enumerate 0 rs)"
    by (rule filter_cong) auto
  finally show ?thesis .
qed

text \<open>A stage that only rewrites rows rejects nothing.\<close>

lemma row_loop_map:
  assumes "\<And>n r. r \<in> set rs \<Longrightarrow> f n r = Inr (Inr (g r))"
  shows "row_loop f n rs = Inr (map g rs, [])"
  using row_loop_map_filter [where rs = rs and f = f and h = "\<lambda>r. Some (g r)" and n = n] assms
  by simp

lemma loop_stage_Inr:
  "loop_stage f c = Inr r \<longleftrightarrow>
    (\<exists>kept rejected. row_loop f (rc_first_ordinal c) (rc_rows c) = Inr (kept, rejected) \<and>
       r = stage_result_of c (kept, rejected))"
  by (auto simp: loop_stage_def split: sum.splits)

lemma stage_result_of_simps [simp, frame_simps]:
  "rc_rows (sr_chunk (stage_result_of c (kept, rejected))) = kept"
  "rc_first_ordinal (sr_chunk (stage_result_of c out)) = rc_first_ordinal c"
  "rc_expected_field_count (sr_chunk (stage_result_of c out)) = rc_expected_field_count c"
  "sr_rejected (stage_result_of c (kept, rejected)) = rejected"
  "sr_findings (stage_result_of c out) = []"
  by (simp_all add: stage_result_of_def)

section \<open>The contract of a streaming stage\<close>

text \<open>
  \<open>StreamingStage.apply\<close> (\<open>pipeline/protocol.py\<close>): a stage may keep, rewrite or reject
  rows, but every row it was given is either in the chunk it returns or in
  \<open>rejected\<close>; the chunk keeps its position in the file and its expected width; the
  stage names the rows it rejects by numbers of the chunk.
\<close>

locale streaming_stage =
  fixes apply_stage :: "'st \<Rightarrow> chunk \<Rightarrow> exn + stage_result"
  assumes conserve: "apply_stage s c = Inr r \<Longrightarrow>
      length (rc_rows (sr_chunk r)) + length (sr_rejected r) = length (rc_rows c)"
    and frame: "apply_stage s c = Inr r \<Longrightarrow>
      rc_first_ordinal (sr_chunk r) = rc_first_ordinal c \<and>
      rc_expected_field_count (sr_chunk r) = rc_expected_field_count c"
    and range: "apply_stage s c = Inr r \<Longrightarrow> x \<in> set (sr_rejected r) \<Longrightarrow>
      rc_first_ordinal c \<le> rj_source_row_number x \<and>
      rj_source_row_number x < rc_first_ordinal c + chunk_len c"

text \<open>Every stage that is a row loop whose body numbers its rejected rows meets it.\<close>

lemma loop_stage_conserve:
  "loop_stage f c = Inr r \<Longrightarrow>
     length (rc_rows (sr_chunk r)) + length (sr_rejected r) = length (rc_rows c)"
  by (auto simp: loop_stage_Inr dest: row_loop_length)

lemma loop_stage_frame:
  "loop_stage f c = Inr r \<Longrightarrow>
     rc_first_ordinal (sr_chunk r) = rc_first_ordinal c \<and>
     rc_expected_field_count (sr_chunk r) = rc_expected_field_count c"
  by (auto simp: loop_stage_Inr)

lemma loop_stage_range:
  "numbers_rows f \<Longrightarrow> loop_stage f c = Inr r \<Longrightarrow> x \<in> set (sr_rejected r) \<Longrightarrow>
     rc_first_ordinal c \<le> rj_source_row_number x \<and>
     rj_source_row_number x < rc_first_ordinal c + chunk_len c"
  by (auto simp: loop_stage_Inr dest: row_loop_range)

lemma loop_stage_contract:
  assumes "\<And>s c. apply_stage s c = loop_stage (body s c) c"
    and "\<And>s c. numbers_rows (body s c)"
  shows "streaming_stage apply_stage"
  by (unfold_locales; unfold assms(1))
    (blast dest: loop_stage_conserve loop_stage_frame loop_stage_range [OF assms(2)])+

end
