(* ===== verification/Calls.thy ===== *)
theory Calls
  imports Records
begin

text \<open>
  Programs whose calls commit one by one: each call sees and changes the state, and an exception
  stops the program where it is, with everything before it kept.
\<close>

type_synonym ('s, 'a) prog = "'s \<Rightarrow> (exn + 'a) \<times> 's"

definition pr_return :: "'a \<Rightarrow> ('s, 'a) prog" where
  "pr_return x = (\<lambda>s. (Inr x, s))"

definition pr_raise :: "exn \<Rightarrow> ('s, 'a) prog" where
  "pr_raise e = (\<lambda>s. (Inl e, s))"

definition pr_bind :: "('s, 'a) prog \<Rightarrow> ('a \<Rightarrow> ('s, 'b) prog) \<Rightarrow> ('s, 'b) prog" where
  "pr_bind m f = (\<lambda>s. case m s of (Inl e, s') \<Rightarrow> (Inl e, s') | (Inr x, s') \<Rightarrow> f x s')"

text \<open>A value that does not depend on the state, a query, and a call that changes the state or raises.\<close>

definition pr_lift :: "exn + 'a \<Rightarrow> ('s, 'a) prog" where
  "pr_lift r = (\<lambda>s. (r, s))"

definition pr_query :: "('s \<Rightarrow> 'a) \<Rightarrow> ('s, 'a) prog" where
  "pr_query q = (\<lambda>s. (Inr (q s), s))"

definition pr_call :: "('s \<Rightarrow> exn + 's \<times> 'a) \<Rightarrow> ('s, 'a) prog" where
  "pr_call f = (\<lambda>s. case f s of Inl e \<Rightarrow> (Inl e, s) | Inr (s', x) \<Rightarrow> (Inr x, s'))"

text \<open>\<open>try: ... except ... as exc: raise ... from exc\<close>: an exception is raised as another one.\<close>

definition pr_rescue :: "(exn \<Rightarrow> exn) \<Rightarrow> ('s, 'a) prog \<Rightarrow> ('s, 'a) prog" where
  "pr_rescue h m = (\<lambda>s. case m s of (Inl e, s') \<Rightarrow> (Inl (h e), s') | (Inr x, s') \<Rightarrow> (Inr x, s'))"

text \<open>\<open>for x in xs\<close>, collecting what the body returns.\<close>

fun pr_for :: "'a list \<Rightarrow> ('a \<Rightarrow> ('s, 'b) prog) \<Rightarrow> ('s, 'b list) prog" where
  "pr_for [] f = pr_return []"
| "pr_for (x # xs) f = pr_bind (f x) (\<lambda>y. pr_bind (pr_for xs f) (\<lambda>ys. pr_return (y # ys)))"

named_theorems pr_defs "the combinators of a program"

declare pr_return_def [pr_defs] pr_raise_def [pr_defs] pr_bind_def [pr_defs] pr_lift_def [pr_defs]
  pr_query_def [pr_defs] pr_call_def [pr_defs]

lemma pr_bind_Inr:
  "pr_bind m f s = (Inr y, s'') \<longleftrightarrow> (\<exists>x s'. m s = (Inr x, s') \<and> f x s' = (Inr y, s''))"
  by (auto simp: pr_bind_def split: prod.splits sum.splits)

lemma pr_return_Inr [simp]: "pr_return x s = (Inr y, s') \<longleftrightarrow> y = x \<and> s' = s"
  by (auto simp: pr_return_def)

lemma pr_lift_Inr [simp]: "pr_lift r s = (Inr y, s') \<longleftrightarrow> r = Inr y \<and> s' = s"
  by (auto simp: pr_lift_def)

lemma pr_query_Inr [simp]: "pr_query q s = (Inr y, s') \<longleftrightarrow> y = q s \<and> s' = s"
  by (auto simp: pr_query_def)

lemma pr_call_Inr [simp]: "pr_call f s = (Inr y, s') \<longleftrightarrow> f s = Inr (s', y)"
  by (auto simp: pr_call_def split: sum.splits)

lemma pr_raise_Inr [simp]: "pr_raise e s \<noteq> (Inr y, s')"
  by (simp add: pr_raise_def)

lemma pr_rescue_Inr [simp]: "pr_rescue h m s = (Inr y, s') \<longleftrightarrow> m s = (Inr y, s')"
  by (auto simp: pr_rescue_def split: prod.splits sum.splits)

text \<open>A relation between the states before and after that every call keeps, kept by the program.\<close>

definition pr_keeps :: "('s \<Rightarrow> 's \<Rightarrow> bool) \<Rightarrow> ('s, 'a) prog \<Rightarrow> bool" where
  "pr_keeps R m \<longleftrightarrow> (\<forall>s. R s (snd (m s)))"

lemma pr_keeps_run: "pr_keeps R m \<Longrightarrow> m s = (r, s') \<Longrightarrow> R s s'"
  unfolding pr_keeps_def by (metis snd_conv)

lemma pr_keeps_pure [intro]:
  assumes "\<And>s. R s s"
  shows "pr_keeps R (pr_return x)" and "pr_keeps R (pr_raise e)" and "pr_keeps R (pr_lift r)"
    and "pr_keeps R (pr_query q)"
  using assms by (simp_all add: pr_keeps_def pr_defs)

lemma pr_keeps_call:
  "(\<And>s. R s s) \<Longrightarrow> (\<And>s s' x. f s = Inr (s', x) \<Longrightarrow> R s s') \<Longrightarrow> pr_keeps R (pr_call f)"
  by (auto simp: pr_keeps_def pr_call_def split: sum.splits)

lemma pr_rescue_state: "snd (pr_rescue h m s) = snd (m s)"
  by (simp add: pr_rescue_def split: prod.splits sum.splits)

lemma pr_keeps_rescue: "pr_keeps R m \<Longrightarrow> pr_keeps R (pr_rescue h m)"
  by (simp add: pr_keeps_def pr_rescue_state)

lemma pr_keeps_bind:
  assumes "\<And>a b c. R a b \<Longrightarrow> R b c \<Longrightarrow> R a c" and "pr_keeps R m" and "\<And>x. pr_keeps R (f x)"
  shows "pr_keeps R (pr_bind m f)"
  unfolding pr_keeps_def
proof
  fix s
  have "R s (snd (m s))" using assms(2) by (simp add: pr_keeps_def)
  moreover have "R (snd (m s)) (snd (f x (snd (m s))))" for x using assms(3) by (simp add: pr_keeps_def)
  ultimately show "R s (snd (pr_bind m f s))"
    using assms(1) by (auto simp: pr_bind_def split: prod.splits sum.splits)
qed

lemma pr_keeps_for:
  assumes "\<And>s. R s s" and "\<And>a b c. R a b \<Longrightarrow> R b c \<Longrightarrow> R a c" and "\<And>x. x \<in> set xs \<Longrightarrow> pr_keeps R (f x)"
  shows "pr_keeps R (pr_for xs f)"
  using assms(3)
proof (induction xs)
  case Nil
  then show ?case using assms(1) by auto
next
  case (Cons x xs)
  have "pr_keeps R (pr_bind (pr_for xs f) (\<lambda>ys. pr_return (y # ys)))" for y
    using Cons by (intro pr_keeps_bind [OF assms(2)] pr_keeps_pure(1) assms(1)) auto
  with Cons.prems show ?case by (auto intro: pr_keeps_bind [OF assms(2)])
qed

text \<open>An assertion on the state that the program keeps, however it ends, with what its value then satisfies.\<close>

definition pr_holds :: "('s \<Rightarrow> bool) \<Rightarrow> ('s, 'a) prog \<Rightarrow> ('a \<Rightarrow> bool) \<Rightarrow> bool" where
  "pr_holds P m Q \<longleftrightarrow> (\<forall>s. P s \<longrightarrow> P (snd (m s)) \<and> (\<forall>x. fst (m s) = Inr x \<longrightarrow> Q x))"

lemma pr_holds_run: "pr_holds P m Q \<Longrightarrow> P s \<Longrightarrow> m s = (r, s') \<Longrightarrow> P s' \<and> (\<forall>x. r = Inr x \<longrightarrow> Q x)"
  unfolding pr_holds_def by (metis fst_conv snd_conv)

lemma pr_holds_pure:
  "Q x \<Longrightarrow> pr_holds P (pr_return x) Q"
  "pr_holds P (pr_raise e) Q"
  "(\<And>x. r = Inr x \<Longrightarrow> Q x) \<Longrightarrow> pr_holds P (pr_lift r) Q"
  "(\<And>s. P s \<Longrightarrow> Q (q s)) \<Longrightarrow> pr_holds P (pr_query q) Q"
  by (simp_all add: pr_holds_def pr_defs)

lemma pr_holds_call:
  "(\<And>s s' x. P s \<Longrightarrow> f s = Inr (s', x) \<Longrightarrow> P s' \<and> Q x) \<Longrightarrow> pr_holds P (pr_call f) Q"
  by (auto simp: pr_holds_def pr_call_def split: sum.splits)

lemma pr_holds_rescue: "pr_holds P m Q \<Longrightarrow> pr_holds P (pr_rescue h m) Q"
  by (auto simp: pr_holds_def pr_rescue_def split: prod.splits sum.splits)

lemma pr_holds_bind:
  assumes "pr_holds P m Q" and "\<And>x. Q x \<Longrightarrow> pr_holds P (f x) R"
  shows "pr_holds P (pr_bind m f) R"
  unfolding pr_holds_def
proof (intro allI impI)
  fix s
  assume "P s"
  obtain r s' where m: "m s = (r, s')" by (cases "m s")
  from pr_holds_run [OF assms(1) \<open>P s\<close> m] have "P s'" "\<And>x. r = Inr x \<Longrightarrow> Q x" by auto
  then show "P (snd (pr_bind m f s)) \<and> (\<forall>x. fst (pr_bind m f s) = Inr x \<longrightarrow> R x)"
    using assms(2) m by (cases r) (auto simp: pr_bind_def pr_holds_def)
qed

lemma pr_holds_for:
  assumes "\<And>x. x \<in> set xs \<Longrightarrow> pr_holds P (f x) Q"
  shows "pr_holds P (pr_for xs f) (\<lambda>ys. \<forall>y \<in> set ys. Q y)"
  using assms
proof (induction xs)
  case Nil
  then show ?case by (simp add: pr_holds_pure)
next
  case (Cons x xs)
  then show ?case
    by (auto intro!: pr_holds_bind [of P "f x" Q] pr_holds_bind [of P "pr_for xs f" "\<lambda>ys. \<forall>y \<in> set ys. Q y"] pr_holds_pure)
qed

end
