(* ===== verification/Config.thy ===== *)
theory Config
  imports Records
begin

text \<open>
  The dataset configuration (\<open>config/model.py\<close>): the frozen models as records, with the
  defaults the file declares, and the cross-field checks of \<open>DatasetConfig\<close>.  Field-level
  type checks belong to the validation library; a configuration that reached this point has
  fields of the declared types.
\<close>

section \<open>The models\<close>

record source_config =
  so_type :: string
  so_bucket :: string
  so_path :: string
  so_change_semantics :: string
  so_duplicate_policy :: string
  so_multipart_pattern :: "string option"
  so_batch_complete_marker :: "string option"

record deduplication_config =
  de_strategy :: string
  de_keys :: "string list"
  de_order_by :: "string list"

record load_config =
  lo_strategy :: string
  lo_target :: string

datatype column_type = TString | TInteger | TDecimal | TDate | TTimestamp | TBoolean

datatype scd_type = Type0 | Type1 | Type2

record column_contract =
  cc_name :: string
  cc_type :: column_type
  cc_nullable :: bool
  cc_required :: bool
  cc_business_key :: bool
  cc_format :: "string option"
  cc_fixed_width :: "nat option"
  cc_reject_scientific_notation :: bool
  cc_scd_type :: "scd_type option"

record normalization_config =
  no_decimal_separator :: string
  no_thousands_separator :: "string option"
  no_currency_symbols :: "string list"
  no_percent_as_fraction :: bool
  no_negative_style :: string
  no_null_tokens :: "string list"
  no_null_sentinels :: "(string \<times> string list) list"
  no_boolean_true_tokens :: "string list"
  no_boolean_false_tokens :: "string list"
  no_two_digit_year_pivot :: "int option"
  no_spreadsheet_epoch :: "string option"
  no_timezone :: "string option"
  no_ambiguous_time_policy :: string

definition default_normalization :: normalization_config where
  "default_normalization =
     \<lparr>no_decimal_separator = ''.'', no_thousands_separator = None, no_currency_symbols = [],
      no_percent_as_fraction = True, no_negative_style = ''leading-minus'', no_null_tokens = [''''],
      no_null_sentinels = [], no_boolean_true_tokens = [], no_boolean_false_tokens = [],
      no_two_digit_year_pivot = None, no_spreadsheet_epoch = None, no_timezone = None,
      no_ambiguous_time_policy = ''reject''\<rparr>"

record csv_parsing_config =
  cp_encoding :: "string option"
  cp_delimiter :: "string option"
  cp_quotechar :: string
  cp_max_field_bytes :: nat
  cp_header_row :: "int option"
  cp_skip_footer_rows :: nat
  cp_header_trim :: bool
  cp_header_case_sensitive :: bool

definition default_csv_parsing :: csv_parsing_config where
  "default_csv_parsing =
     \<lparr>cp_encoding = None, cp_delimiter = None, cp_quotechar = [CHR 0x22], cp_max_field_bytes = 1048576,
      cp_header_row = None, cp_skip_footer_rows = 0, cp_header_trim = False,
      cp_header_case_sensitive = True\<rparr>"

record quality_rule_config =
  qr_rule_id :: string
  qr_rule_type :: string
  qr_strategy :: string
  qr_column :: "string option"
  qr_params :: "(string \<times> pyval) list"

record quality_config =
  qc_rules :: "quality_rule_config list"
  qc_rejection_rate_threshold :: "rat option"

datatype delete_semantics = DeleteIgnore | DeleteInvalidate | DeleteNewRecord

record scd_config =
  sd_delete_semantics :: delete_semantics
  sd_mass_delete_threshold :: rat

record dataset_config =
  ds_dataset :: string
  ds_source :: source_config
  ds_deduplication :: "deduplication_config option"
  ds_load :: load_config
  ds_columns :: "column_contract list"
  ds_normalization :: "normalization_config option"
  ds_quality :: "quality_config option"
  ds_scd :: "scd_config option"
  ds_csv :: csv_parsing_config
  ds_on_new_column :: string
  ds_on_missing_or_retyped_column :: string

section \<open>The cross-field checks\<close>

definition delimiter_collides :: "dataset_config \<Rightarrow> bool" where
  "delimiter_collides cfg =
     (case (cp_delimiter (ds_csv cfg), ds_normalization cfg) of
        (Some d, Some n) \<Rightarrow> d = no_decimal_separator n
      | _ \<Rightarrow> False)"

text \<open>The dictionary by name keeps the last column of a repeated name.\<close>

definition column_by_name :: "dataset_config \<Rightarrow> string \<Rightarrow> column_contract option" where
  "column_by_name cfg key = map_of (rev (map (\<lambda>c. (cc_name c, c)) (ds_columns cfg))) key"

definition deduplication_keys_ok :: "dataset_config \<Rightarrow> bool" where
  "deduplication_keys_ok cfg =
     (case ds_deduplication cfg of
        None \<Rightarrow> True
      | Some d \<Rightarrow> list_all (\<lambda>key. case column_by_name cfg key of
                     None \<Rightarrow> False | Some c \<Rightarrow> cc_business_key c) (de_keys d))"

definition business_key_columns :: "dataset_config \<Rightarrow> string list" where
  "business_key_columns cfg = map cc_name (filter cc_business_key (ds_columns cfg))"

text \<open>The three \<open>model_validator\<close>s in declaration order; a failed one raises \<open>ValueError\<close>.\<close>

definition validate_dataset_config :: "dataset_config \<Rightarrow> exn + dataset_config" where
  "validate_dataset_config cfg =
     (if delimiter_collides cfg then Inl (Exn PyValueError [])
      else if \<not> deduplication_keys_ok cfg then Inl (Exn PyValueError [])
      else if 1 < length (business_key_columns cfg) then Inl (Exn PyValueError [])
      else Inr cfg)"

text \<open>\<open>next((c for c in columns if c.business_key), None)\<close>, as every caller resolves it.\<close>

definition first_business_key :: "dataset_config \<Rightarrow> column_contract option" where
  "first_business_key cfg =
     (case filter cc_business_key (ds_columns cfg) of [] \<Rightarrow> None | c # cs \<Rightarrow> Some c)"

lemma first_business_key_unique:
  assumes "validate_dataset_config cfg = Inr cfg'" and "c \<in> set (ds_columns cfg)" and "cc_business_key c"
  shows "first_business_key cfg = Some c"
proof -
  have "length (filter cc_business_key (ds_columns cfg)) \<le> 1"
    using assms(1) by (auto simp: validate_dataset_config_def business_key_columns_def split: if_splits)
  moreover have "c \<in> set (filter cc_business_key (ds_columns cfg))" using assms(2,3) by simp
  ultimately show ?thesis
    by (cases "filter cc_business_key (ds_columns cfg)") (auto simp: first_business_key_def)
qed

text \<open>
  In a configuration that was accepted no caller's \<open>first_business_key\<close> drops a declared key,
  and every deduplication key is that one column.
\<close>

lemma deduplication_key_is_business_key:
  assumes "validate_dataset_config cfg = Inr cfg'" and "ds_deduplication cfg = Some d"
    and "key \<in> set (de_keys d)"
  shows "\<exists>c. first_business_key cfg = Some c \<and> cc_name c = key"
proof -
  from assms have "case column_by_name cfg key of None \<Rightarrow> False | Some c \<Rightarrow> cc_business_key c"
    by (auto simp: validate_dataset_config_def deduplication_keys_ok_def list_all_iff split: if_splits)
  then obtain c where c: "column_by_name cfg key = Some c" "cc_business_key c"
    by (auto split: option.splits)
  then have "cc_name c = key" "c \<in> set (ds_columns cfg)"
    by (auto simp: column_by_name_def dest: map_of_SomeD)
  then show ?thesis using first_business_key_unique [OF assms(1)] c(2) by blast
qed

end
