(* ===== verification/PyNumbers.thy ===== *)
theory PyNumbers
  imports Prelude "HOL-Library.Log_Nat"
begin

text \<open>
  The number conversions of the Python standard library that the platform uses on text:
  \<open>int(text)\<close>, \<open>float(text)\<close>, \<open>decimal.Decimal(text)\<close> and \<open>str(decimal)\<close>, and the
  arithmetic on their results: correctly rounded binary64 division and comparison, and the
  decimal division of \<open>NumericNormalizer\<close>.

  The numeral grammar is shared: an optional sign, digits with an optional point, an
  optional exponent.  The three converters differ in where they accept underscores and in
  the special names (\<open>inf\<close>, \<open>nan\<close>).
\<close>

section \<open>Digits\<close>

definition is_digit :: "char \<Rightarrow> bool" where
  "is_digit c = (let n = (of_char c :: nat) in 48 \<le> n \<and> n \<le> 57)"

definition digit_val :: "char \<Rightarrow> nat" where
  "digit_val c = (of_char c :: nat) - 48"

definition digit_char :: "nat \<Rightarrow> char" where
  "digit_char d = char_of (48 + d)"

definition nat_of_digits :: "string \<Rightarrow> nat" where
  "nat_of_digits ds = foldl (\<lambda>n d. 10 * n + digit_val d) 0 ds"

fun show_nat :: "nat \<Rightarrow> string" where
  "show_nat n = (if n < 10 then [digit_char n] else show_nat (n div 10) @ [digit_char (n mod 10)])"

declare show_nat.simps [simp del]

lemma digit_char_props:
  assumes "d < 10"
  shows "is_digit (digit_char d)" and "digit_val (digit_char d) = d"
  using assms by (simp_all add: is_digit_def digit_val_def digit_char_def)

lemma digit_char_eq_0: "d < 10 \<Longrightarrow> digit_char d = CHR ''0'' \<longleftrightarrow> d = 0"
proof -
  assume d: "d < 10"
  have "digit_char 0 = CHR ''0''" by code_simp
  then show ?thesis using d digit_char_props(2) [of d] digit_char_props(2) [of 0] by auto
qed

lemma nat_of_digits_Nil [simp]: "nat_of_digits [] = 0"
  by (simp add: nat_of_digits_def)

lemma nat_of_digits_snoc [simp]: "nat_of_digits (ds @ [d]) = 10 * nat_of_digits ds + digit_val d"
  by (simp add: nat_of_digits_def)

lemma nat_of_digits_append:
  "nat_of_digits (xs @ ys) = nat_of_digits xs * 10 ^ length ys + nat_of_digits ys"
proof (induction ys rule: rev_induct)
  case Nil
  then show ?case by simp
next
  case (snoc y ys)
  have "nat_of_digits (xs @ ys @ [y]) = 10 * nat_of_digits (xs @ ys) + digit_val y"
    using nat_of_digits_snoc [of "xs @ ys" y] by simp
  then show ?case using snoc by (simp add: algebra_simps)
qed

lemma nat_of_digits_zeros [simp]: "nat_of_digits (replicate k CHR ''0'') = 0"
proof (induction k)
  case (Suc k)
  have "replicate (Suc k) CHR ''0'' = replicate k CHR ''0'' @ [CHR ''0'']"
    by (simp add: replicate_append_same)
  then show ?case using Suc by (simp del: replicate_Suc add: digit_val_def)
qed simp

lemma show_nat_digits: "c \<in> set (show_nat n) \<Longrightarrow> is_digit c"
proof (induction n rule: show_nat.induct)
  case (1 n)
  then show ?case
    by (subst (asm) show_nat.simps) (auto simp: digit_char_props split: if_splits)
qed

lemma show_nat_ne [simp]: "show_nat n \<noteq> []"
  by (subst show_nat.simps) simp

lemma nat_of_show_nat [simp]: "nat_of_digits (show_nat n) = n"
proof (induction n rule: show_nat.induct)
  case (1 n)
  show ?case
  proof (cases "n < 10")
    case True
    then show ?thesis using nat_of_digits_snoc [of "[]"]
      by (subst show_nat.simps) (simp add: digit_char_props)
  next
    case False
    with 1 show ?thesis by (subst show_nat.simps) (simp add: digit_char_props)
  qed
qed

lemma show_nat_bounds: "0 < n \<Longrightarrow> 10 ^ (length (show_nat n) - 1) \<le> n \<and> n < 10 ^ length (show_nat n)"
proof (induction n rule: show_nat.induct)
  case (1 n)
  show ?case
  proof (cases "n < 10")
    case True
    with 1 show ?thesis by (subst (1 2) show_nat.simps) simp
  next
    case False
    then have ih: "10 ^ (length (show_nat (n div 10)) - 1) \<le> n div 10 \<and>
        n div 10 < 10 ^ length (show_nat (n div 10))" using 1 by simp
    have len: "length (show_nat n) = Suc (length (show_nat (n div 10)))"
      using False by (subst show_nat.simps) simp
    obtain k where k: "length (show_nat (n div 10)) = Suc k"
      by (metis length_greater_0_conv show_nat_ne gr0_implies_Suc)
    have "10 * (10 :: nat) ^ k \<le> n" using ih k by simp linarith
    moreover have "n < 10 * 10 ^ Suc k" using ih k by simp linarith
    ultimately show ?thesis using len k by simp
  qed
qed

lemma show_nat_length_mono: "0 < m \<Longrightarrow> m \<le> n \<Longrightarrow> length (show_nat m) \<le> length (show_nat n)"
proof (rule ccontr)
  assume m: "0 < m" "m \<le> n" and "\<not> length (show_nat m) \<le> length (show_nat n)"
  then have "length (show_nat n) \<le> length (show_nat m) - 1" by simp
  then have "(10::nat) ^ length (show_nat n) \<le> 10 ^ (length (show_nat m) - 1)"
    by (simp add: power_increasing)
  moreover have "10 ^ (length (show_nat m) - 1) \<le> m" using show_nat_bounds [of m] m by simp
  moreover have "n < 10 ^ length (show_nat n)" using show_nat_bounds [of n] m by simp
  ultimately show False using m by linarith
qed

section \<open>The numeral grammar\<close>

definition take_sign :: "string \<Rightarrow> bool \<times> string" where
  "take_sign s = (case s of
      [] \<Rightarrow> (False, [])
    | c # cs \<Rightarrow> if c = CHR ''-'' then (True, cs) else if c = CHR ''+'' then (False, cs) else (False, s))"

definition span_digits :: "string \<Rightarrow> string \<times> string" where
  "span_digits s = (takeWhile is_digit s, dropWhile is_digit s)"

text \<open>\<open>(E[-+]?\d+)?\<close> up to the end of the text: the exponent, 0 where there is none.\<close>

definition parse_exponent :: "string \<Rightarrow> int option" where
  "parse_exponent s = (case s of
      [] \<Rightarrow> Some 0
    | c # cs \<Rightarrow>
        if c = CHR ''e'' \<or> c = CHR ''E''
        then (case take_sign cs of (neg, r) \<Rightarrow>
               (case span_digits r of (ds, rest) \<Rightarrow>
                  if ds = [] \<or> rest \<noteq> [] then None
                  else Some (if neg then - int (nat_of_digits ds) else int (nat_of_digits ds))))
        else None)"

definition take_fraction :: "string \<Rightarrow> string \<times> string" where
  "take_fraction s = (case s of
      [] \<Rightarrow> ([], [])
    | c # cs \<Rightarrow> if c = CHR ''.'' then span_digits cs else ([], s))"

text \<open>The unsigned numeral: its coefficient and its exponent, value \<open>c * 10 ^ e\<close>.\<close>

definition parse_unsigned :: "string \<Rightarrow> (nat \<times> int) option" where
  "parse_unsigned s =
     (case span_digits s of (ip, r1) \<Rightarrow>
       (case take_fraction r1 of (fp, r2) \<Rightarrow>
          if ip = [] \<and> fp = [] then None
          else (case parse_exponent r2 of
                  None \<Rightarrow> None
                | Some e \<Rightarrow> Some (nat_of_digits (ip @ fp), e - int (length fp)))))"

definition ascii_lower :: "char \<Rightarrow> char" where
  "ascii_lower c = (let n = (of_char c :: nat) in if 65 \<le> n \<and> n \<le> 90 then char_of (n + 32) else c)"

section \<open>int(text)\<close>

text \<open>
  Underscores must stand between two digits (\<open>int\<close> and \<open>float\<close>); \<open>int\<close> refuses more
  than 4300 digits, the interpreter's default limit.
\<close>

fun remove_underscores :: "char option \<Rightarrow> string \<Rightarrow> string option" where
  "remove_underscores prev [] = (if prev = Some CHR ''_'' then None else Some [])"
| "remove_underscores prev (c # cs) =
     (if c = CHR ''_''
      then (case prev of
              None \<Rightarrow> None
            | Some p \<Rightarrow> if is_digit p then remove_underscores (Some c) cs else None)
      else if prev = Some CHR ''_'' \<and> \<not> is_digit c then None
      else map_option ((#) c) (remove_underscores (Some c) cs))"

definition int_max_str_digits :: nat where
  "int_max_str_digits = 4300"

definition py_int :: "string \<Rightarrow> int option" where
  "py_int text =
     (case take_sign (strip text) of (neg, body) \<Rightarrow>
       (case remove_underscores None body of
          None \<Rightarrow> None
        | Some ds \<Rightarrow>
            if ds = [] \<or> \<not> list_all is_digit ds \<or> int_max_str_digits < length ds then None
            else Some (if neg then - int (nat_of_digits ds) else int (nat_of_digits ds))))"

section \<open>decimal.Decimal\<close>

text \<open>
  A finite decimal is a sign, a coefficient and an exponent: \<open>1.50\<close> and \<open>1.5\<close> are
  different objects with the same value.  A NaN is quiet or signalling and may carry digits.
\<close>

datatype decimal =
    DFin bool nat int
  | DInf bool
  | DNaN bool bool nat

definition max_emax :: int where "max_emax = 999999999999999999"
definition min_etiny :: int where "min_etiny = -1999999999999999997"

text \<open>
  \<open>Decimal(text)\<close> converts exactly or signals \<open>InvalidOperation\<close> (\<open>None\<close>): a numeral
  whose exponent is outside the range of the arithmetic is not converted.
\<close>

definition exponent_in_range :: "nat \<Rightarrow> int \<Rightarrow> bool" where
  "exponent_in_range c e \<longleftrightarrow> min_etiny \<le> e \<and>
     (if c = 0 then e \<le> max_emax else e + int (length (show_nat c)) - 1 \<le> max_emax)"

definition parse_special :: "bool \<Rightarrow> string \<Rightarrow> decimal option" where
  "parse_special neg body =
     (let l = map ascii_lower body in
      if l = ''inf'' \<or> l = ''infinity'' then Some (DInf neg)
      else if starts_with l ''nan'' \<and> list_all is_digit (drop 3 l)
        then Some (DNaN neg False (nat_of_digits (drop 3 l)))
      else if starts_with l ''snan'' \<and> list_all is_digit (drop 4 l)
        then Some (DNaN neg True (nat_of_digits (drop 4 l)))
      else None)"

definition decimal_of_string :: "string \<Rightarrow> decimal option" where
  "decimal_of_string text =
     (case take_sign (filter (\<lambda>c. c \<noteq> CHR ''_'') (strip text)) of (neg, body) \<Rightarrow>
       (case parse_unsigned body of
          Some (c, e) \<Rightarrow> if exponent_in_range c e then Some (DFin neg c e) else None
        | None \<Rightarrow> parse_special neg body))"

definition show_exponent :: "int \<Rightarrow> string" where
  "show_exponent k = (if k < 0 then ''E-'' else ''E+'') @ show_nat (nat \<bar>k\<bar>)"

definition sign_text :: "bool \<Rightarrow> string" where
  "sign_text neg = (if neg then ''-'' else '''')"

text \<open>\<open>str(decimal)\<close>: to-scientific-string of the General Decimal Arithmetic.\<close>

fun string_of_decimal :: "decimal \<Rightarrow> string" where
  "string_of_decimal (DInf neg) = sign_text neg @ ''Infinity''"
| "string_of_decimal (DNaN neg signal payload) =
     sign_text neg @ (if signal then ''sNaN'' else ''NaN'') @
     (if payload = 0 then '''' else show_nat payload)"
| "string_of_decimal (DFin neg c e) =
     (let ds = show_nat c; n = int (length ds); leftdigits = e + n;
          dotplace = (if e \<le> 0 \<and> -6 < leftdigits then leftdigits else 1);
          body = (if dotplace \<le> 0 then ''0.'' @ replicate (nat (- dotplace)) CHR ''0'' @ ds
                  else if n \<le> dotplace then ds @ replicate (nat (dotplace - n)) CHR ''0''
                  else take (nat dotplace) ds @ ''.'' @ drop (nat dotplace) ds)
      in sign_text neg @ body @
         (if leftdigits = dotplace then '''' else show_exponent (leftdigits - dotplace)))"

section \<open>Printing and parsing a decimal\<close>

lemma span_digits_append:
  "list_all is_digit ds \<Longrightarrow> rest = [] \<or> \<not> is_digit (hd rest) \<Longrightarrow>
     span_digits (ds @ rest) = (ds, rest)"
  by (cases rest) (auto simp: span_digits_def list_all_iff takeWhile_append dropWhile_append)

lemma not_digit_simps [simp]:
  "\<not> is_digit CHR ''.''" "\<not> is_digit CHR ''E''" "\<not> is_digit CHR ''+''" "\<not> is_digit CHR ''-''"
  "is_digit CHR ''0''"
  by (simp_all add: is_digit_def)

lemma digit_not_special:
  "is_digit c \<Longrightarrow> c \<noteq> CHR ''-'' \<and> c \<noteq> CHR ''+'' \<and> c \<noteq> CHR ''_'' \<and> c \<noteq> CHR ''.'' \<and> \<not> is_space c"
  by (auto simp: is_digit_def is_space_def Let_def)

lemma list_all_show_nat [simp]: "list_all is_digit (show_nat n)"
  by (auto simp: list_all_iff show_nat_digits)

definition exponent_text :: "int \<Rightarrow> string" where
  "exponent_text k = (if k = 0 then '''' else show_exponent k)"

lemma exponent_text_hd: "exponent_text k = [] \<or> \<not> is_digit (hd (exponent_text k))"
  by (simp add: exponent_text_def show_exponent_def)

lemma parse_exponent_text: "parse_exponent (exponent_text k) = Some k"
proof -
  have "span_digits (show_nat m) = (show_nat m, [])" for m
    using span_digits_append [of "show_nat m" "[]"] by simp
  then show ?thesis
    by (simp add: exponent_text_def parse_exponent_def show_exponent_def take_sign_def)
qed

lemma take_fraction_text:
  "take_fraction (exponent_text k) = ([], exponent_text k)"
  by (simp add: take_fraction_def exponent_text_def show_exponent_def)

lemma parse_unsigned_integral:
  assumes "list_all is_digit ip" and "ip \<noteq> []"
  shows "parse_unsigned (ip @ exponent_text k) = Some (nat_of_digits ip, k)"
  using assms exponent_text_hd [of k]
  by (simp add: parse_unsigned_def span_digits_append take_fraction_text parse_exponent_text)

lemma parse_unsigned_fractional:
  assumes "list_all is_digit ip" and "ip \<noteq> []" and "list_all is_digit fp"
  shows "parse_unsigned (ip @ ''.'' @ fp @ exponent_text k) =
    Some (nat_of_digits (ip @ fp), k - int (length fp))"
  using assms exponent_text_hd [of k]
  by (simp add: parse_unsigned_def span_digits_append take_fraction_def parse_exponent_text)

text \<open>The digits of a finite decimal as \<open>string_of_decimal\<close> lays them out, without the sign.\<close>

definition decimal_body :: "nat \<Rightarrow> int \<Rightarrow> string" where
  "decimal_body c e =
     (let ds = show_nat c; n = int (length ds); leftdigits = e + n;
          dotplace = (if e \<le> 0 \<and> -6 < leftdigits then leftdigits else 1)
      in (if dotplace \<le> 0 then ''0.'' @ replicate (nat (- dotplace)) CHR ''0'' @ ds
          else if n \<le> dotplace then ds @ replicate (nat (dotplace - n)) CHR ''0''
          else take (nat dotplace) ds @ ''.'' @ drop (nat dotplace) ds) @
         exponent_text (leftdigits - dotplace))"

lemma string_of_decimal_body: "string_of_decimal (DFin neg c e) = sign_text neg @ decimal_body c e"
  by (simp add: decimal_body_def exponent_text_def Let_def)

lemma decimal_body_parses: "parse_unsigned (decimal_body c e) = Some (c, e)"
proof -
  define ds where "ds = show_nat c"
  define n where "n = int (length ds)"
  define d where "d = (if e \<le> 0 \<and> -6 < e + n then e + n else 1)"
  have ds: "list_all is_digit ds" "ds \<noteq> []" "nat_of_digits ds = c" by (simp_all add: ds_def)
  have n: "0 < n" using ds(2) by (simp add: n_def)
  have body: "decimal_body c e =
    (if d \<le> 0 then ''0.'' @ replicate (nat (- d)) CHR ''0'' @ ds
     else if n \<le> d then ds @ replicate (nat (d - n)) CHR ''0''
     else take (nat d) ds @ ''.'' @ drop (nat d) ds) @ exponent_text (e + n - d)"
    by (simp add: decimal_body_def Let_def ds_def n_def d_def)
  consider (small) "d \<le> 0" | (int) "0 < d" "n \<le> d" | (point) "0 < d" "d < n" by linarith
  then show ?thesis
  proof cases
    case small
    then have d: "d = e + n" by (auto simp: d_def split: if_splits)
    let ?fp = "replicate (nat (- d)) CHR ''0'' @ ds"
    have "parse_unsigned (''0'' @ ''.'' @ ?fp @ exponent_text (e + n - d)) =
      Some (nat_of_digits (''0'' @ ?fp), e + n - d - int (length ?fp))"
      by (rule parse_unsigned_fractional) (use ds in \<open>auto simp: list_all_iff\<close>)
    moreover have "nat_of_digits (''0'' @ ?fp) = c"
      using ds(3) nat_of_digits_append [of "''0'' @ replicate (nat (- d)) CHR ''0''" ds]
        nat_of_digits_zeros [of "Suc (nat (- d))"] by simp
    moreover have "e + n - d - int (length ?fp) = e" using d small by (simp add: n_def)
    ultimately show ?thesis using small body by simp
  next
    case int
    have dn: "d = n" using int n by (cases "e \<le> 0 \<and> -6 < e + n") (auto simp: d_def)
    have "decimal_body c e = ds @ exponent_text e"
      unfolding body dn using n by simp
    then show ?thesis using parse_unsigned_integral [OF ds(1,2), of e] ds(3) by simp
  next
    case point
    have "parse_unsigned (take (nat d) ds @ ''.'' @ drop (nat d) ds @ exponent_text (e + n - d)) =
      Some (nat_of_digits (take (nat d) ds @ drop (nat d) ds), e + n - d - int (length (drop (nat d) ds)))"
      by (rule parse_unsigned_fractional)
        (use ds point n in \<open>auto simp: list_all_iff dest: in_set_takeD in_set_dropD\<close>)
    moreover have "e + n - d - int (length (drop (nat d) ds)) = e" using point by (simp add: n_def)
    ultimately show ?thesis using point body ds(3) by simp
  qed
qed

lemma decimal_body_chars:
  "c' \<in> set (decimal_body c e) \<Longrightarrow> c' \<noteq> CHR ''_'' \<and> \<not> is_space c'"
proof -
  have "\<not> is_space CHR ''.''" "\<not> is_space CHR ''E''" "\<not> is_space CHR ''+''" "\<not> is_space CHR ''-''"
    by (simp_all add: is_space_def)
  then show "c' \<in> set (decimal_body c e) \<Longrightarrow> c' \<noteq> CHR ''_'' \<and> \<not> is_space c'"
    using digit_not_special show_nat_digits
    by (auto simp: decimal_body_def Let_def exponent_text_def show_exponent_def
        dest!: in_set_takeD in_set_dropD split: if_splits)
qed

lemma decimal_body_hd: "decimal_body c e \<noteq> [] \<and> is_digit (hd (decimal_body c e))"
proof -
  have "0 < k \<Longrightarrow> take k (show_nat c) \<noteq> [] \<and> is_digit (hd (take k (show_nat c)))" for k
    using show_nat_digits [of "hd (show_nat c)" c] by (cases "show_nat c"; cases k) auto
  moreover have "is_digit (hd (show_nat c))"
    using show_nat_digits [of "hd (show_nat c)" c] by (cases "show_nat c") auto
  ultimately show ?thesis by (auto simp: decimal_body_def Let_def)
qed

lemma decimal_roundtrip:
  assumes "exponent_in_range c e"
  shows "decimal_of_string (string_of_decimal (DFin neg c e)) = Some (DFin neg c e)"
proof -
  let ?t = "sign_text neg @ decimal_body c e"
  have chars: "\<forall>x \<in> set ?t. x \<noteq> CHR ''_'' \<and> \<not> is_space x"
    using decimal_body_chars [of _ c e] by (auto simp: sign_text_def is_space_def)
  then have "filter (\<lambda>x. x \<noteq> CHR ''_'') (strip ?t) = ?t"
    by (simp add: strip_no_space filter_id_conv)
  moreover have "take_sign ?t = (neg, decimal_body c e)"
    using decimal_body_hd [of c e] digit_not_special [of "hd (decimal_body c e)"]
    by (cases "decimal_body c e") (auto simp: take_sign_def sign_text_def)
  ultimately show ?thesis
    using assms by (simp add: decimal_of_string_def string_of_decimal_body decimal_body_parses
        del: string_of_decimal.simps)
qed

section \<open>Decimal division by 100\<close>

text \<open>
  The value of a finite decimal, and the division of \<open>NumericNormalizer\<close>'s percent
  branch, in the context \<open>Context(prec=28, traps=[InvalidOperation, DivisionByZero])\<close>
  (half-even rounding, exponents from -999999 to 999999).  \<open>None\<close> is the trapped
  \<open>InvalidOperation\<close> of a signalling NaN.
\<close>

definition pow10 :: "int \<Rightarrow> rat" where
  "pow10 e = (if 0 \<le> e then 10 ^ nat e else 1 / 10 ^ nat (- e))"

fun decimal_value :: "decimal \<Rightarrow> rat option" where
  "decimal_value (DFin neg c e) = Some ((if neg then -1 else 1) * of_nat c * pow10 e)"
| "decimal_value _ = None"

definition ctx_prec :: nat where "ctx_prec = 28"
definition ctx_etiny :: int where "ctx_etiny = -1000026"
definition ctx_etop :: int where "ctx_etop = 999972"
definition ctx_emax :: int where "ctx_emax = 999999"

text \<open>Drop \<open>k\<close> digits of a coefficient, rounding half to even.\<close>

definition round_half_even_digits :: "nat \<Rightarrow> nat \<Rightarrow> nat" where
  "round_half_even_digits c k =
     (let q = c div 10 ^ k; r = c mod 10 ^ k in
      if 2 * r < 10 ^ k then q else if 10 ^ k < 2 * r then q + 1
      else if even q then q else q + 1)"

definition decimal_fix :: "bool \<Rightarrow> nat \<Rightarrow> int \<Rightarrow> decimal" where
  "decimal_fix neg c e =
     (if c = 0 then DFin neg 0 (min (max e ctx_etiny) ctx_emax)
      else
        (let m = int (length (show_nat c)) + e - int ctx_prec in
         if ctx_etop < m then DInf neg
         else
           (let e_min = max m ctx_etiny in
            if e < e_min then
              (let c' = round_half_even_digits c (nat (e_min - e)) in
               if ctx_prec < length (show_nat c')
               then (if ctx_etop < e_min + 1 then DInf neg else DFin neg (c' div 10) (e_min + 1))
               else DFin neg c' e_min)
            else DFin neg c e)))"

fun strip_zeros :: "nat \<Rightarrow> nat \<Rightarrow> int \<Rightarrow> nat \<times> int" where
  "strip_zeros 0 c e = (c, e)"
| "strip_zeros (Suc k) c e = (if c mod 10 = 0 then strip_zeros k (c div 10) (e + 1) else (c, e))"

fun decimal_div100 :: "decimal \<Rightarrow> decimal option" where
  "decimal_div100 (DInf neg) = Some (DInf neg)"
| "decimal_div100 (DNaN neg signal payload) =
     (if signal then None else Some (DNaN neg False (payload mod 10 ^ ctx_prec)))"
| "decimal_div100 (DFin neg c e) =
     (if c = 0 then Some (decimal_fix neg 0 e)
      else
        (let shift = 3 - int (length (show_nat c)) + int ctx_prec + 1;
             e' = e - shift;
             num = (if 0 \<le> shift then c * 10 ^ nat shift else c);
             den = (if 0 \<le> shift then 100 else 100 * 10 ^ nat (- shift));
             q = num div den
         in if num mod den \<noteq> 0
            then Some (decimal_fix neg (if q mod 5 = 0 then q + 1 else q) e')
            else (case strip_zeros (nat (e - e')) q e' of (q', e'') \<Rightarrow> Some (decimal_fix neg q' e''))))"

lemma pow10_add: "pow10 (a + int k) = pow10 a * 10 ^ k"
proof (cases "0 \<le> a")
  case True
  then show ?thesis by (simp add: pow10_def nat_add_distrib power_add)
next
  case False
  show ?thesis
  proof (cases "0 \<le> a + int k")
    case True
    then have "k = nat (a + int k) + nat (- a)" using False by simp
    then have "(10 :: rat) ^ k = 10 ^ nat (a + int k) * 10 ^ nat (- a)"
      by (metis power_add)
    then show ?thesis using True False by (simp add: pow10_def)
  next
    case neg: False
    then have "nat (- a) = nat (- (a + int k)) + k" using False by simp
    then have "(10 :: rat) ^ nat (- a) = 10 ^ nat (- (a + int k)) * 10 ^ k"
      by (metis power_add)
    then show ?thesis using neg False by (simp add: pow10_def)
  qed
qed

lemma pow10_Suc: "pow10 (e + 1) = 10 * pow10 e"
  using pow10_add [of e 1] by simp

lemma strip_zeros_value:
  "strip_zeros k c e = (c', e') \<Longrightarrow>
     of_nat c' * pow10 e' = of_nat c * pow10 e \<and> c' \<le> c \<and> e \<le> e' \<and> e' \<le> e + int k \<and> (0 < c \<longrightarrow> 0 < c')"
proof (induction k c e rule: strip_zeros.induct)
  case (1 c e)
  then show ?case by simp
next
  case (2 k c e)
  show ?case
  proof (cases "c mod 10 = 0")
    case True
    then obtain d where c: "c = 10 * d" by auto
    have "strip_zeros k d (e + 1) = (c', e')" using "2.prems" c by simp
    with "2.IH" True c have "of_nat c' * pow10 e' = of_nat d * pow10 (e + 1) \<and> c' \<le> d \<and> e + 1 \<le> e' \<and>
        e' \<le> e + 1 + int k \<and> (0 < d \<longrightarrow> 0 < c')" by simp
    then show ?thesis using c by (simp add: pow10_Suc)
  next
    case False
    with "2.prems" show ?thesis by simp
  qed
qed

lemma strip_zeros_shift: "strip_zeros (k + j) (c * 10 ^ k) (e - int k) = strip_zeros j c e"
proof (induction k arbitrary: e)
  case (Suc k)
  have "c * 10 ^ Suc k mod 10 = 0" and "c * 10 ^ Suc k div 10 = c * 10 ^ k" by simp_all
  then show ?case using Suc by simp
qed simp

lemma decimal_fix_id:
  assumes "0 < c" and "length (show_nat c) \<le> ctx_prec" and "ctx_etiny \<le> e"
    and "int (length (show_nat c)) + e \<le> 1000000"
  shows "decimal_fix neg c e = DFin neg c e"
proof -
  have "\<not> ctx_etop < int (length (show_nat c)) + e - int ctx_prec"
    and "\<not> e < max (int (length (show_nat c)) + e - int ctx_prec) ctx_etiny"
    using assms by (simp_all add: ctx_etop_def ctx_prec_def)
  then show ?thesis using assms(1) by (simp only: decimal_fix_def Let_def if_False) simp
qed

lemma decimal_div100_exact:
  assumes "length (show_nat c) \<le> ctx_prec" and "-1000024 \<le> e"
    and "int (length (show_nat c)) + e \<le> 1000000"
  shows "\<exists>d. decimal_div100 (DFin neg c e) = Some d \<and>
    decimal_value d = Some ((if neg then -1 else 1) * of_nat c * pow10 e / 100)"
proof (cases "c = 0")
  case True
  then show ?thesis by (simp add: decimal_fix_def)
next
  case False
  define n where "n = length (show_nat c)"
  define k where "k = 30 - n"
  have n: "n \<le> 28" using assms(1) by (simp add: n_def ctx_prec_def)
  then have shift: "3 - int n + int ctx_prec + 1 = int (k + 2)" by (simp add: k_def ctx_prec_def)
  have num: "c * 10 ^ (k + 2) mod 100 = 0" "c * 10 ^ (k + 2) div 100 = c * 10 ^ k"
    by (simp_all add: power_add)
  obtain c' e' where strip: "strip_zeros 2 c (e - 2) = (c', e')" by fastforce
  have "strip_zeros (k + 2) (c * 10 ^ k) (e - 2 - int k) = strip_zeros 2 c (e - 2)"
    by (rule strip_zeros_shift)
  then have "strip_zeros (nat (e - (e - int (k + 2)))) (c * 10 ^ k) (e - int (k + 2)) = (c', e')"
    using strip by (simp add: algebra_simps nat_add_distrib)
  then have div: "decimal_div100 (DFin neg c e) = Some (decimal_fix neg c' e')"
    using False num
    by (simp only: decimal_div100.simps Let_def n_def [symmetric] shift of_nat_0_le_iff nat_int
        if_True if_False not_False_eq_True prod.case simp_thms)
  from strip_zeros_value [OF strip] False
  have val: "of_nat c' * pow10 e' = of_nat c * pow10 (e - 2)" and le: "c' \<le> c" and pos: "0 < c'"
    and e': "e - 2 \<le> e'" "e' \<le> e" by auto
  have len: "length (show_nat c') \<le> n" unfolding n_def using pos le by (rule show_nat_length_mono)
  have "decimal_fix neg c' e' = DFin neg c' e'"
    by (rule decimal_fix_id)
      (use pos len n e' assms in \<open>simp_all add: n_def ctx_prec_def ctx_etiny_def\<close>)
  moreover have "pow10 e = pow10 (e - 2) * 100" using pow10_add [of "e - 2" 2] by simp
  then have "of_nat c' * pow10 e' = of_nat c * pow10 e / 100" using val by simp
  ultimately show ?thesis using div by (simp add: mult.assoc)
qed

section \<open>Decimal text of an integer\<close>

text \<open>\<open>str(i)\<close>, and the \<open>integer::text\<close> of the database.\<close>

definition show_int :: "int \<Rightarrow> string" where
  "show_int i = (if i < 0 then ''-'' @ show_nat (nat (- i)) else show_nat (nat i))"

lemma show_nat_inj: "show_nat m = show_nat n \<Longrightarrow> m = n"
  using nat_of_show_nat by metis

lemma show_int_inj: "show_int i = show_int j \<Longrightarrow> i = j"
proof -
  assume eq: "show_int i = show_int j"
  have no_minus: "show_nat n \<noteq> ''-'' @ s" for n s
  proof
    assume "show_nat n = ''-'' @ s"
    then have "CHR ''-'' \<in> set (show_nat n)" by simp
    then have "is_digit CHR ''-''" by (rule show_nat_digits)
    then show False by (simp add: is_digit_def)
  qed
  show "i = j"
    using eq show_nat_inj [of "nat (- i)" "nat (- j)"] show_nat_inj [of "nat i" "nat j"]
      no_minus [of "nat i"] no_minus [of "nat j"]
    by (auto simp: show_int_def split: if_splits) (metis append_Cons append_Nil)+
qed

end
