(* ===== verification/Uris.thy ===== *)
theory Uris
  imports Calls Config PyNumbers
begin

text \<open>
  References to what lies outside the process: \<open>s3://\<close> addresses (\<open>_parse_s3_uri\<close> in
  \<open>csv_processor/cli.py\<close>), secret references (\<open>secrets/resolver.py\<close>) and the configuration files
  (\<open>config/loader.py\<close>).  Both kinds of reference are split by \<open>urllib.parse.urlsplit\<close>, modelled here
  as the standard library of Python 3.12 defines it; its check of a bracketed or non-ASCII authority is a
  parameter.  The file system, Vault, YAML and the field validation of pydantic are parameters too.
\<close>

section \<open>Splitting a URL\<close>

record split_result =
  us_scheme :: string
  us_netloc :: string
  us_path :: string
  us_query :: string
  us_fragment :: string

definition alpha :: "char \<Rightarrow> bool" where
  "alpha c = (let n = (of_char (ascii_lower c) :: nat) in 97 \<le> n \<and> n \<le> 122)"

definition scheme_char :: "char \<Rightarrow> bool" where
  "scheme_char c \<longleftrightarrow> alpha c \<or> is_digit c \<or> c \<in> {CHR ''+'', CHR ''-'', CHR ''.''}"

text \<open>Leading control characters and spaces go; tabs and line ends go wherever they are.\<close>

definition unsafe_removed :: "string \<Rightarrow> string" where
  "unsafe_removed s = filter (\<lambda>c. c \<notin> {CHR 0x09, CHR 0x0D, CHR 0x0A}) s"

definition cleaned :: "string \<Rightarrow> string" where
  "cleaned url = unsafe_removed (dropWhile (\<lambda>c. (of_char c :: nat) \<le> 32) url)"

definition before :: "char set \<Rightarrow> string \<Rightarrow> string" where
  "before cs s = takeWhile (\<lambda>c. c \<notin> cs) s"

definition behind :: "char set \<Rightarrow> string \<Rightarrow> string" where
  "behind cs s = dropWhile (\<lambda>c. c \<notin> cs) s"

definition split_scheme :: "string \<Rightarrow> string \<times> string" where
  "split_scheme url =
     (let s = before {CHR '':''} url; rest = behind {CHR '':''} url in
      if rest \<noteq> [] \<and> s \<noteq> [] \<and> alpha (hd s) \<and> list_all scheme_char s then (map ascii_lower s, tl rest) else ([], url))"

definition split_netloc :: "string \<Rightarrow> string \<times> string" where
  "split_netloc url =
     (if starts_with url ''//''
      then (before {CHR ''/'', CHR ''?'', CHR ''#''} (drop 2 url), behind {CHR ''/'', CHR ''?'', CHR ''#''} (drop 2 url))
      else ([], url))"

definition netloc_accepted :: "(string \<Rightarrow> bool) \<Rightarrow> string \<Rightarrow> bool" where
  "netloc_accepted netloc_ok netloc \<longleftrightarrow>
     (CHR ''['' \<in> set netloc \<longleftrightarrow> CHR '']'' \<in> set netloc) \<and>
     (CHR ''['' \<notin> set netloc \<and> list_all (\<lambda>c. (of_char c :: nat) < 128) netloc \<or> netloc_ok netloc)"

definition urlsplit :: "(string \<Rightarrow> bool) \<Rightarrow> string \<Rightarrow> exn + split_result" where
  "urlsplit netloc_ok url =
     (let (scheme, rest) = split_scheme (cleaned url);
          (netloc, rest) = split_netloc rest;
          no_fragment = before {CHR ''#''} rest
      in if \<not> netloc_accepted netloc_ok netloc then Inl (Exn PyValueError [])
         else Inr \<lparr>us_scheme = scheme, us_netloc = netloc, us_path = before {CHR ''?''} no_fragment,
                us_query = tl (behind {CHR ''?''} no_fragment), us_fragment = tl (behind {CHR ''#''} rest)\<rparr>)"

definition lstrip_slash :: "string \<Rightarrow> string" where
  "lstrip_slash s = dropWhile (\<lambda>c. c = CHR ''/'') s"

definition parse_s3_uri :: "(string \<Rightarrow> bool) \<Rightarrow> string \<Rightarrow> exn + string \<times> string" where
  "parse_s3_uri netloc_ok uri =
     (case urlsplit netloc_ok uri of
        Inl e \<Rightarrow> Inl e
      | Inr u \<Rightarrow>
          if us_scheme u \<noteq> ''s3'' then Inl (dp_error ConfigurationError [(''uri'', VStr uri)])
          else Inr (us_netloc u, lstrip_slash (us_path u)))"

section \<open>What an address denotes\<close>

text \<open>The characters an authority may have without being changed or checked: among others those of a bucket name.\<close>

definition plain_char :: "char \<Rightarrow> bool" where
  "plain_char c = (let n = (of_char c :: nat) in
     32 < n \<and> n < 128 \<and> c \<notin> {CHR ''/'', CHR ''?'', CHR ''#'', CHR ''['', CHR '']''})"

definition plain :: "string \<Rightarrow> bool" where
  "plain s \<longleftrightarrow> s \<noteq> [] \<and> list_all plain_char s"

lemma before_append: "list_all (\<lambda>c. c \<notin> cs) s \<Longrightarrow> rest = [] \<or> hd rest \<in> cs \<Longrightarrow> before cs (s @ rest) = s"
  by (cases rest) (auto simp: before_def list_all_iff takeWhile_append)

lemma behind_append: "list_all (\<lambda>c. c \<notin> cs) s \<Longrightarrow> rest = [] \<or> hd rest \<in> cs \<Longrightarrow> behind cs (s @ rest) = rest"
  by (cases rest) (auto simp: behind_def list_all_iff dropWhile_append)

lemma unsafe_removed_append [simp]: "unsafe_removed (s @ t) = unsafe_removed s @ unsafe_removed t"
  by (simp add: unsafe_removed_def)

lemma unsafe_removed_printable:
  assumes "list_all (\<lambda>c. 32 < (of_char c :: nat)) s"
  shows "unsafe_removed s = s"
  unfolding unsafe_removed_def filter_id_conv
proof
  fix c
  assume "c \<in> set s"
  with assms have "32 < (of_char c :: nat)" by (simp add: list_all_iff)
  then show "c \<notin> {CHR 0x09, CHR 0x0D, CHR 0x0A}" by auto
qed

lemma plain_printable: "plain_char c \<Longrightarrow> 32 < (of_char c :: nat)"
  by (simp add: plain_char_def Let_def)

lemma unsafe_removed_plain: "list_all plain_char s \<Longrightarrow> unsafe_removed s = s"
  by (rule unsafe_removed_printable) (simp add: list_all_iff plain_printable)

lemma plain_char_not [simp]:
  "\<not> plain_char CHR ''/''" "\<not> plain_char CHR ''?''" "\<not> plain_char CHR ''#''" "\<not> plain_char CHR ''[''" "\<not> plain_char CHR '']''"
  by (simp_all add: plain_char_def)

lemma plain_avoids: "list_all plain_char s \<Longrightarrow> c \<in> {CHR ''/'', CHR ''?'', CHR ''#'', CHR ''['', CHR '']''} \<Longrightarrow> c \<notin> set s"
  by (auto simp: list_all_iff)

text \<open>A reference \<open>scheme://authority\<close> followed by nothing or by a path, a query or a fragment.\<close>

definition lower_scheme :: "string \<Rightarrow> bool" where
  "lower_scheme s \<longleftrightarrow> s \<noteq> [] \<and> alpha (hd s) \<and> list_all (\<lambda>c. scheme_char c \<and> ascii_lower c = c \<and> plain_char c \<and> c \<noteq> CHR '':'') s"

lemma urlsplit_reference:
  assumes "lower_scheme scheme" and "list_all plain_char netloc"
    and "rest = [] \<or> hd rest \<in> {CHR ''/'', CHR ''?'', CHR ''#''}"
  shows "urlsplit netloc_ok (scheme @ ''://'' @ netloc @ rest) =
    (let r = unsafe_removed rest; nf = before {CHR ''#''} r in
     Inr \<lparr>us_scheme = scheme, us_netloc = netloc, us_path = before {CHR ''?''} nf,
        us_query = tl (behind {CHR ''?''} nf), us_fragment = tl (behind {CHR ''#''} r)\<rparr>)"
proof -
  let ?r = "unsafe_removed rest"
  have scheme: "list_all plain_char scheme" "list_all (\<lambda>c. c \<notin> {CHR '':''}) scheme" "list_all scheme_char scheme"
      "map ascii_lower scheme = scheme" "scheme \<noteq> []" "alpha (hd scheme)"
    using assms(1) by (auto simp: lower_scheme_def list_all_iff map_idI)
  have "\<not> (of_char (hd scheme) :: nat) \<le> 32"
    using scheme(1,5) by (cases scheme) (auto simp: plain_char_def Let_def)
  then have "dropWhile (\<lambda>c. (of_char c :: nat) \<le> 32) (scheme @ ''://'' @ netloc @ rest) = scheme @ ''://'' @ netloc @ rest"
    using scheme(5) by (cases scheme) simp_all
  moreover have "unsafe_removed ''://'' = ''://''" by code_simp
  ultimately have clean: "cleaned (scheme @ ''://'' @ netloc @ rest) = scheme @ CHR '':'' # ''//'' @ netloc @ ?r"
    unfolding cleaned_def
    by (simp only: unsafe_removed_append unsafe_removed_plain [OF scheme(1)] unsafe_removed_plain [OF assms(2)]) simp
  have s: "split_scheme (scheme @ CHR '':'' # ''//'' @ netloc @ ?r) = (scheme, ''//'' @ netloc @ ?r)"
    using before_append [OF scheme(2), of "CHR '':'' # ''//'' @ netloc @ ?r"]
      behind_append [OF scheme(2), of "CHR '':'' # ''//'' @ netloc @ ?r"] scheme(3-6)
    by (simp add: split_scheme_def Let_def)
  have r: "?r = [] \<or> hd ?r \<in> {CHR ''/'', CHR ''?'', CHR ''#''}"
    using assms(3) by (cases rest) (auto simp: unsafe_removed_def)
  have avoid: "list_all (\<lambda>c. c \<notin> {CHR ''/'', CHR ''?'', CHR ''#''}) netloc"
    using assms(2) by (auto simp: list_all_iff)
  have n: "split_netloc (''//'' @ netloc @ ?r) = (netloc, ?r)"
    using before_append [OF avoid r] behind_append [OF avoid r] by (simp add: split_netloc_def)
  have "CHR ''['' \<notin> set netloc" and "CHR '']'' \<notin> set netloc" using plain_avoids [OF assms(2)] by simp_all
  moreover have "list_all (\<lambda>c. (of_char c :: nat) < 128) netloc"
    using assms(2) unfolding list_all_iff plain_char_def Let_def by blast
  ultimately have "netloc_accepted netloc_ok netloc" by (simp add: netloc_accepted_def)
  then show ?thesis by (simp only: urlsplit_def clean s n Let_def case_prod_conv) simp
qed

text \<open>The key as an address keeps it: without tabs and line ends, up to the first \<open>#\<close> or \<open>?\<close>, leading slashes dropped.\<close>

definition key_in_address :: "string \<Rightarrow> string" where
  "key_in_address key = lstrip_slash (before {CHR ''?''} (before {CHR ''#''} (unsafe_removed key)))"

lemma parse_s3_address:
  assumes "list_all plain_char bucket"
  shows "parse_s3_uri netloc_ok (''s3://'' @ bucket @ ''/'' @ key) = Inr (bucket, key_in_address key)"
proof -
  have scheme: "lower_scheme ''s3''" by code_simp
  have "urlsplit netloc_ok (''s3'' @ ''://'' @ bucket @ (''/'' @ key)) =
      (let r = unsafe_removed (''/'' @ key); nf = before {CHR ''#''} r in
       Inr \<lparr>us_scheme = ''s3'', us_netloc = bucket, us_path = before {CHR ''?''} nf,
          us_query = tl (behind {CHR ''?''} nf), us_fragment = tl (behind {CHR ''#''} r)\<rparr>)"
    by (rule urlsplit_reference [OF scheme assms]) simp
  then show ?thesis
    by (simp add: parse_s3_uri_def Let_def key_in_address_def unsafe_removed_def before_def lstrip_slash_def)
qed

lemma same_length_takeWhile: "length (takeWhile P xs) = length xs \<Longrightarrow> takeWhile P xs = xs"
  by (metis takeWhile_eq_take take_all order_refl)

lemma same_length_dropWhile: "length (dropWhile P xs) = length xs \<Longrightarrow> dropWhile P xs = xs"
  by (metis append_self_conv2 length_append add_cancel_left_left length_0_conv takeWhile_dropWhile_id)

definition addressable :: "string \<Rightarrow> bool" where
  "addressable key \<longleftrightarrow> list_all (\<lambda>c. c \<notin> {CHR ''#'', CHR ''?'', CHR 0x09, CHR 0x0D, CHR 0x0A}) key \<and>
     (key \<noteq> [] \<longrightarrow> hd key \<noteq> CHR ''/'')"

lemma takeWhile_whole: "takeWhile P xs = xs \<longleftrightarrow> list_all P xs"
  by (simp add: takeWhile_eq_all_conv list_all_iff)

lemma key_in_address_length:
  "length (key_in_address key) \<le> length (before {CHR ''#''} (unsafe_removed key))"
  "length (before {CHR ''#''} (unsafe_removed key)) \<le> length (unsafe_removed key)"
  "length (unsafe_removed key) \<le> length key"
proof -
  have "length (key_in_address key) \<le> length (before {CHR ''?''} (before {CHR ''#''} (unsafe_removed key)))"
    unfolding key_in_address_def lstrip_slash_def by (rule length_dropWhile_le)
  then show "length (key_in_address key) \<le> length (before {CHR ''#''} (unsafe_removed key))"
    unfolding before_def by (rule order_trans) (rule length_takeWhile_le)
  show "length (before {CHR ''#''} (unsafe_removed key)) \<le> length (unsafe_removed key)"
    unfolding before_def by (rule length_takeWhile_le)
  show "length (unsafe_removed key) \<le> length key" by (simp add: unsafe_removed_def)
qed

text \<open>A key that is not kept is shortened.\<close>

lemma key_same_length:
  assumes "length (key_in_address key) = length key"
  shows "unsafe_removed key = key" and "before {CHR ''#''} key = key" and "before {CHR ''?''} key = key" and "lstrip_slash key = key"
proof -
  have "length (unsafe_removed key) = length key" using key_in_address_length [of key] assms by simp
  then show clean: "unsafe_removed key = key"
    unfolding unsafe_removed_def by (metis filter_id_conv length_filter_less less_irrefl)
  have "length (before {CHR ''#''} key) = length key" using key_in_address_length [of key] assms clean by simp
  then show whole: "before {CHR ''#''} key = key" unfolding before_def by (rule same_length_takeWhile)
  have "length (lstrip_slash (before {CHR ''?''} key)) = length key" using assms by (simp add: key_in_address_def clean whole)
  moreover have "length (lstrip_slash (before {CHR ''?''} key)) \<le> length (before {CHR ''?''} key)"
    by (simp add: lstrip_slash_def length_dropWhile_le)
  moreover have "length (before {CHR ''?''} key) \<le> length key" by (simp add: before_def length_takeWhile_le)
  ultimately have l: "length (before {CHR ''?''} key) = length key"
    "length (lstrip_slash (before {CHR ''?''} key)) = length (before {CHR ''?''} key)" by simp_all
  from l(1) show q: "before {CHR ''?''} key = key" unfolding before_def by (rule same_length_takeWhile)
  from l(2) show "lstrip_slash key = key" unfolding q lstrip_slash_def by (rule same_length_dropWhile)
qed

lemma key_kept_iff: "key_in_address key = key \<longleftrightarrow> addressable key"
proof
  assume kept: "key_in_address key = key"
  note same = key_same_length [OF arg_cong [OF kept, of length]]
  have "key \<noteq> [] \<longrightarrow> hd key \<noteq> CHR ''/''"
    using same(4) hd_dropWhile [of "\<lambda>c. c = CHR ''/''" key] by (auto simp: lstrip_slash_def)
  moreover have "list_all (\<lambda>c. c \<notin> {CHR ''#''}) key" "list_all (\<lambda>c. c \<notin> {CHR ''?''}) key"
    using same(2,3) unfolding before_def takeWhile_whole by (simp_all add: list_all_iff)
  moreover have "list_all (\<lambda>c. c \<notin> {CHR 0x09, CHR 0x0D, CHR 0x0A}) key"
    using same(1) by (simp add: unsafe_removed_def filter_id_conv list_all_iff)
  ultimately show "addressable key" by (auto simp: addressable_def list_all_iff)
next
  assume ok: "addressable key"
  have "unsafe_removed key = key" using ok by (auto simp: addressable_def unsafe_removed_def list_all_iff filter_id_conv)
  moreover have "before {CHR ''#''} key = key" "before {CHR ''?''} key = key"
    using ok unfolding before_def takeWhile_whole by (auto simp: addressable_def list_all_iff)
  moreover have "lstrip_slash key = key" using ok by (cases key) (auto simp: addressable_def lstrip_slash_def)
  ultimately show "key_in_address key = key" by (simp add: key_in_address_def)
qed

lemma key_shortened: "\<not> addressable key \<Longrightarrow> length (key_in_address key) < length key"
proof (rule ccontr)
  assume no: "\<not> addressable key" and "\<not> length (key_in_address key) < length key"
  with key_in_address_length [of key] have "length (key_in_address key) = length key" by simp
  from key_same_length [OF this] have "key_in_address key = key" by (simp add: key_in_address_def)
  with no key_kept_iff show False by simp
qed

text \<open>
  An object whose key has a number sign is registered under an address that names another object: the
  one whose key ends before it.
\<close>

lemma number_sign_cuts_key:
  "parse_s3_uri netloc_ok (''s3://raw/'' @ ''orders/2024#1.csv'') = Inr (''raw'', ''orders/2024'')"
proof -
  have "parse_s3_uri netloc_ok (''s3://'' @ ''raw'' @ ''/'' @ ''orders/2024#1.csv'') = Inr (''raw'', key_in_address ''orders/2024#1.csv'')"
    by (rule parse_s3_address) code_simp
  moreover have "key_in_address ''orders/2024#1.csv'' = ''orders/2024''" by code_simp
  ultimately show ?thesis by simp
qed

end
