(* ===== verification/Pods.thy ===== *)
theory Pods
  imports Uris
begin

text \<open>
  The process of a pod: its secrets (\<open>secrets/resolver.py\<close>), the connections it builds from them
  (\<open>_build_common\<close> in \<open>csv_processor/cli.py\<close>) and its configuration (\<open>config/loader.py\<close>).  The
  environment, the file system and the Vault server are parameters (\<open>pod\<close>); the cached Vault client and
  the pool are the process's state.
\<close>

section \<open>The process\<close>

text \<open>
  \<open>pd_vault_login\<close> and \<open>pd_vault_read\<close> are the calls of \<open>hvac\<close>, \<open>pd_open_pool\<close> is \<open>create_pool\<close> and
  \<open>open(wait=True)\<close>, \<open>pd_new_store\<close> the construction of the object store's client.
\<close>

record pod =
  pd_environ :: "string \<Rightarrow> string option"
  pd_read_text :: "string \<Rightarrow> exn + string"
  pd_netloc_ok :: "string \<Rightarrow> bool"
  pd_vault_login :: "string \<Rightarrow> string \<Rightarrow> string \<Rightarrow> exn + unit"
  pd_vault_read :: "string \<Rightarrow> string \<Rightarrow> exn + (string \<Rightarrow> string option)"
  pd_open_pool :: "string \<Rightarrow> exn + unit"
  pd_new_store :: "string \<Rightarrow> string \<Rightarrow> string \<Rightarrow> exn + unit"

record process =
  pc_logged_in :: bool
  pc_logins :: nat
  pc_pool :: "string option"
  pc_store :: "(string \<times> string \<times> string) option"

definition new_process :: process where
  "new_process = \<lparr>pc_logged_in = False, pc_logins = 0, pc_pool = None, pc_store = None\<rparr>"

definition environ_item :: "pod \<Rightarrow> string \<Rightarrow> exn + string" where
  "environ_item pd name = (case pd_environ pd name of None \<Rightarrow> Inl (Exn PyKeyError []) | Some v \<Rightarrow> Inr v)"

definition environ_get :: "pod \<Rightarrow> string \<Rightarrow> string \<Rightarrow> string" where
  "environ_get pd name dflt = (case pd_environ pd name of None \<Rightarrow> dflt | Some v \<Rightarrow> v)"

section \<open>Secrets\<close>

definition token_path :: string where
  "token_path = ''/var/run/secrets/kubernetes.io/serviceaccount/token''"

definition vault_client :: "pod \<Rightarrow> (process, unit) prog" where
  "vault_client pd =
     pr_bind (pr_query pc_logged_in) (\<lambda>cached.
       if cached then pr_return ()
       else
         pr_bind (pr_lift (environ_item pd ''VAULT_ADDR'')) (\<lambda>addr.
         pr_bind (pr_lift (environ_item pd ''VAULT_K8S_ROLE'')) (\<lambda>role.
         pr_bind (pr_lift (pd_read_text pd token_path)) (\<lambda>jwt.
         pr_bind (pr_call (\<lambda>s. Inr (s\<lparr>pc_logins := Suc (pc_logins s)\<rparr>, ()))) (\<lambda>_.
         pr_bind (pr_lift (pd_vault_login pd addr role jwt)) (\<lambda>_.
           pr_call (\<lambda>s. Inr (s\<lparr>pc_logged_in := True\<rparr>, ()))))))))"

definition secret_error :: "string \<Rightarrow> exn" where
  "secret_error ref = dp_error SecretResolutionError [(''ref'', VStr ref)]"

definition vault_field :: "pod \<Rightarrow> string \<Rightarrow> string \<Rightarrow> string \<Rightarrow> (process, string) prog" where
  "vault_field pd mount path field =
     pr_bind (vault_client pd) (\<lambda>_.
     pr_bind (pr_lift (pd_vault_read pd mount path)) (\<lambda>secret.
     pr_lift (case secret field of None \<Rightarrow> Inl (Exn PyKeyError []) | Some v \<Rightarrow> Inr v)))"

definition resolve_reference :: "pod \<Rightarrow> string \<Rightarrow> split_result \<Rightarrow> (process, string) prog" where
  "resolve_reference pd ref u =
     (if us_scheme u = ''env''
      then pr_lift (case pd_environ pd (if us_netloc u \<noteq> [] then us_netloc u else lstrip_slash (us_path u)) of
                      None \<Rightarrow> Inl (secret_error ref) | Some v \<Rightarrow> Inr v)
      else if us_scheme u = ''file''
      then pr_lift (case pd_read_text pd (us_path u) of
                      Inl e \<Rightarrow> Inl (if is_subclass (exn_class e) PyOSError then secret_error ref else e)
                    | Inr t \<Rightarrow> Inr (strip t))
      else if us_scheme u = ''vault''
      then (let path = lstrip_slash (us_path u) in
            if us_netloc u = [] \<or> path = [] \<or> us_fragment u = [] then pr_raise (secret_error ref)
            else pr_rescue (\<lambda>e. if is_subclass (exn_class e) VaultError \<or> is_subclass (exn_class e) PyKeyError
                                then secret_error ref else e)
                   (vault_field pd (us_netloc u) path (us_fragment u)))
      else pr_raise (secret_error ref))"

definition resolve_secret :: "pod \<Rightarrow> string \<Rightarrow> (process, string) prog" where
  "resolve_secret pd ref = pr_bind (pr_lift (urlsplit (pd_netloc_ok pd) ref)) (resolve_reference pd ref)"

section \<open>The connections of a command\<close>

definition db_dsn_ref :: string where "db_dsn_ref = ''env://DATAPLAT_DB_DSN''"
definition s3_endpoint_url_ref :: string where "s3_endpoint_url_ref = ''env://DATAPLAT_S3_ENDPOINT_URL''"
definition s3_access_key_ref :: string where "s3_access_key_ref = ''env://DATAPLAT_S3_ACCESS_KEY''"
definition s3_secret_key_ref :: string where "s3_secret_key_ref = ''env://DATAPLAT_S3_SECRET_KEY''"

text \<open>\<open>resolve_secret(resolve_secret(ref))\<close>.\<close>

definition resolve_twice :: "pod \<Rightarrow> string \<Rightarrow> (process, string) prog" where
  "resolve_twice pd ref = pr_bind (resolve_secret pd ref) (resolve_secret pd)"

definition build_common :: "pod \<Rightarrow> (process, unit) prog" where
  "build_common pd =
     pr_bind (resolve_twice pd db_dsn_ref) (\<lambda>dsn.
     pr_bind (resolve_secret pd s3_endpoint_url_ref) (\<lambda>endpoint_url.
     pr_bind (resolve_twice pd s3_access_key_ref) (\<lambda>access_key.
     pr_bind (resolve_twice pd s3_secret_key_ref) (\<lambda>secret_key.
     pr_bind (pr_call (\<lambda>s. case pd_open_pool pd dsn of Inl e \<Rightarrow> Inl e | Inr _ \<Rightarrow> Inr (s\<lparr>pc_pool := Some dsn\<rparr>, ()))) (\<lambda>_.
     pr_call (\<lambda>s. case pd_new_store pd endpoint_url access_key secret_key of Inl e \<Rightarrow> Inl e
        | Inr _ \<Rightarrow> Inr (s\<lparr>pc_store := Some (endpoint_url, access_key, secret_key)\<rparr>, ())))))))"

section \<open>The configuration of a dataset\<close>

text \<open>
  What \<open>yaml.safe_load\<close> returns: a mapping, something falsy, or another value.  Two mappings are
  merged as \<open>{**defaults, **dataset}\<close>; the values are whatever YAML made of them.
\<close>

datatype 'v yaml = Mapping "(string \<times> 'v) list" | Falsy | Other

record 'v config_world =
  cf_read_text :: "string \<Rightarrow> exn + string"
  cf_safe_load :: "string \<Rightarrow> exn + 'v yaml"
  cf_validate_fields :: "(string \<times> 'v) list \<Rightarrow> pyval + dataset_config"
  cf_errors :: "exn \<Rightarrow> pyval"

definition load_yaml_mapping :: "'v config_world \<Rightarrow> string \<Rightarrow> exn + 'v yaml" where
  "load_yaml_mapping w path =
     (case cf_read_text w path of
        Inl e \<Rightarrow> Inl e
      | Inr t \<Rightarrow>
          (case cf_safe_load w t of
             Inl e \<Rightarrow> Inl e
           | Inr d \<Rightarrow> Inr (case d of Falsy \<Rightarrow> Mapping [] | _ \<Rightarrow> d)))"

definition merge_dicts :: "(string \<times> 'v) list \<Rightarrow> (string \<times> 'v) list \<Rightarrow> (string \<times> 'v) list" where
  "merge_dicts defaults dataset =
     map (\<lambda>(k, v). (k, case map_of dataset k of None \<Rightarrow> v | Some v' \<Rightarrow> v')) defaults @
     filter (\<lambda>(k, v). k \<notin> fst ` set defaults) dataset"

definition validate_config :: "'v config_world \<Rightarrow> (string \<times> 'v) list \<Rightarrow> pyval + dataset_config" where
  "validate_config w merged =
     (case cf_validate_fields w merged of
        Inl errors \<Rightarrow> Inl errors
      | Inr cfg \<Rightarrow> (case validate_dataset_config cfg of Inl e \<Rightarrow> Inl (cf_errors w e) | Inr cfg \<Rightarrow> Inr cfg))"

definition load_dataset_config :: "'v config_world \<Rightarrow> string \<Rightarrow> string \<Rightarrow> exn + dataset_config" where
  "load_dataset_config w path defaults_path =
     (case load_yaml_mapping w defaults_path of
        Inl e \<Rightarrow> Inl e
      | Inr defaults \<Rightarrow>
          (case load_yaml_mapping w path of
             Inl e \<Rightarrow> Inl e
           | Inr dataset \<Rightarrow>
               (case (defaults, dataset) of
                  (Mapping xs, Mapping ys) \<Rightarrow>
                    (case validate_config w (merge_dicts xs ys) of
                       Inl errors \<Rightarrow> Inl (dp_error ConfigurationError [(''path'', VStr path), (''errors'', errors)])
                     | Inr cfg \<Rightarrow> Inr cfg)
                | _ \<Rightarrow> Inl (Exn PyTypeError []))))"

section \<open>What a reference is worth\<close>

text \<open>The contents a reference denotes, whoever serves them.\<close>

definition denoted :: "pod \<Rightarrow> split_result \<Rightarrow> string option" where
  "denoted pd u =
     (if us_scheme u = ''env'' then pd_environ pd (if us_netloc u \<noteq> [] then us_netloc u else lstrip_slash (us_path u))
      else if us_scheme u = ''file''
      then (case pd_read_text pd (us_path u) of Inl _ \<Rightarrow> None | Inr t \<Rightarrow> Some (strip t))
      else if us_scheme u = ''vault'' \<and> us_netloc u \<noteq> [] \<and> lstrip_slash (us_path u) \<noteq> [] \<and> us_fragment u \<noteq> []
      then (case pd_vault_read pd (us_netloc u) (lstrip_slash (us_path u)) of Inl _ \<Rightarrow> None | Inr secret \<Rightarrow> secret (us_fragment u))
      else None)"

definition secret_value :: "pod \<Rightarrow> string \<Rightarrow> string option" where
  "secret_value pd ref = (case urlsplit (pd_netloc_ok pd) ref of Inl _ \<Rightarrow> None | Inr u \<Rightarrow> denoted pd u)"

text \<open>A process that has resolved references so far: at most one login, no connection yet.\<close>

definition resolving :: "process \<Rightarrow> bool" where
  "resolving s \<longleftrightarrow> pc_logins s = (if pc_logged_in s then 1 else 0) \<and> pc_pool s = None \<and> pc_store s = None"

lemma vault_client_resolving: "vault_client pd s = (Inr x, s') \<Longrightarrow> resolving s \<Longrightarrow> resolving s'"
  by (auto simp: vault_client_def pr_bind_Inr resolving_def split: if_splits)

lemma vault_field_Inr:
  assumes "vault_field pd mount path f s = (Inr v, s')" and "resolving s"
  shows "resolving s' \<and> (\<exists>secret. pd_vault_read pd mount path = Inr secret \<and> secret f = Some v)"
  using assms vault_client_resolving by (auto simp: vault_field_def pr_bind_Inr split: option.splits)

lemma resolve_reference_Inr:
  assumes "resolve_reference pd ref u s = (Inr v, s')" and "resolving s"
  shows "denoted pd u = Some v \<and> resolving s'"
proof -
  consider "us_scheme u = ''env''" | "us_scheme u = ''file''" | "us_scheme u = ''vault''"
    using assms(1) by (auto simp: resolve_reference_def split: if_splits)
  then show ?thesis
  proof cases
    case 1
    then show ?thesis using assms by (auto simp: resolve_reference_def denoted_def split: option.splits)
  next
    case 2
    then show ?thesis using assms by (auto simp: resolve_reference_def denoted_def split: sum.splits if_splits)
  next
    case 3
    then have "us_netloc u \<noteq> []" "lstrip_slash (us_path u) \<noteq> []" "us_fragment u \<noteq> []"
      and "vault_field pd (us_netloc u) (lstrip_slash (us_path u)) (us_fragment u) s = (Inr v, s')"
      using assms(1) by (auto simp: resolve_reference_def Let_def split: if_splits)
    with vault_field_Inr assms(2) 3 show ?thesis by (fastforce simp: denoted_def)
  qed
qed

lemma resolve_secret_Inr:
  "resolve_secret pd ref s = (Inr v, s') \<Longrightarrow> resolving s \<Longrightarrow> secret_value pd ref = Some v \<and> resolving s'"
  by (auto simp: resolve_secret_def pr_bind_Inr secret_value_def dest: resolve_reference_Inr)

lemma resolve_twice_Inr:
  "resolve_twice pd ref s = (Inr v, s') \<Longrightarrow> resolving s \<Longrightarrow>
    (\<exists>r. secret_value pd ref = Some r \<and> secret_value pd r = Some v) \<and> resolving s'"
  by (auto simp: resolve_twice_def pr_bind_Inr dest!: resolve_secret_Inr)

lemma raising_Inr: "(case r of Inl e \<Rightarrow> Inl e | Inr (_ :: unit) \<Rightarrow> Inr y) = Inr z \<longleftrightarrow> r = Inr () \<and> z = y"
  by (auto split: sum.splits)

lemma env_reference:
  assumes "list_all plain_char name" and "name \<noteq> []"
  shows "secret_value pd (''env://'' @ name) = pd_environ pd name"
proof -
  have "lower_scheme ''env''" by code_simp
  from urlsplit_reference [OF this assms(1), of "[]" "pd_netloc_ok pd"] assms(2)
  show ?thesis by (simp add: secret_value_def denoted_def Let_def)
qed

lemma vault_reference:
  assumes "list_all plain_char mount" "mount \<noteq> []" and "list_all (\<lambda>c. plain_char c \<or> c = CHR ''/'') path" "path \<noteq> []" "hd path \<noteq> CHR ''/''"
    and "list_all plain_char f" "f \<noteq> []"
  shows "secret_value pd (''vault://'' @ mount @ ''/'' @ path @ ''#'' @ f) =
    (case pd_vault_read pd mount path of Inl _ \<Rightarrow> None | Inr secret \<Rightarrow> secret f)"
proof -
  have scheme: "lower_scheme ''vault''" by code_simp
  have clean: "unsafe_removed (''/'' @ path @ ''#'' @ f) = ''/'' @ path @ ''#'' @ f"
    using assms(3,6) plain_printable by (intro unsafe_removed_printable) (auto simp: list_all_iff)
  have p: "list_all (\<lambda>c. c \<notin> {CHR ''#''}) (''/'' @ path)" "list_all (\<lambda>c. c \<notin> {CHR ''?''}) (''/'' @ path)"
    using assms(3) by (auto simp: list_all_iff)
  have "urlsplit (pd_netloc_ok pd) (''vault'' @ ''://'' @ mount @ (''/'' @ path @ ''#'' @ f)) =
     Inr \<lparr>us_scheme = ''vault'', us_netloc = mount, us_path = ''/'' @ path, us_query = [], us_fragment = f\<rparr>"
    using before_append [OF p(1), of "''#'' @ f"] behind_append [OF p(1), of "''#'' @ f"]
      before_append [OF p(2), of "[]"] behind_append [OF p(2), of "[]"]
    by (subst urlsplit_reference [OF scheme assms(1)]) (simp_all add: clean [simplified] Let_def)
  moreover have "lstrip_slash (''/'' @ path) = path" using assms(4,5) by (cases path) (simp_all add: lstrip_slash_def)
  ultimately show ?thesis using assms(2,4,7) by (simp add: secret_value_def denoted_def split: sum.split)
qed

text \<open>C24: The connections of a command are made of the secrets its references name.  When \<open>_build_common\<close>
  succeeds in a new process, the pool is open on the contents of the reference that \<open>DATAPLAT_DB_DSN\<close> holds and
  never on that reference itself, the object store has the plain endpoint and the contents of the two key
  references, and the process logged in to Vault at most once, however many references it resolved.\<close>

theorem connections_from_secrets:
  assumes "build_common pd new_process = (Inr (), s')"
  shows "\<exists>dsn_ref access_ref secret_ref dsn endpoint access secret.
    pd_environ pd ''DATAPLAT_DB_DSN'' = Some dsn_ref \<and> secret_value pd dsn_ref = Some dsn \<and> pc_pool s' = Some dsn \<and>
    pd_environ pd ''DATAPLAT_S3_ENDPOINT_URL'' = Some endpoint \<and>
    pd_environ pd ''DATAPLAT_S3_ACCESS_KEY'' = Some access_ref \<and> secret_value pd access_ref = Some access \<and>
    pd_environ pd ''DATAPLAT_S3_SECRET_KEY'' = Some secret_ref \<and> secret_value pd secret_ref = Some secret \<and>
    pc_store s' = Some (endpoint, access, secret) \<and> pc_logins s' \<le> 1"
proof -
  obtain dsn s1 endpoint s2 access s3 secret s4 where steps:
    "resolve_twice pd db_dsn_ref new_process = (Inr dsn, s1)"
    "resolve_secret pd s3_endpoint_url_ref s1 = (Inr endpoint, s2)"
    "resolve_twice pd s3_access_key_ref s2 = (Inr access, s3)"
    "resolve_twice pd s3_secret_key_ref s3 = (Inr secret, s4)"
    and s': "s' = s4\<lparr>pc_pool := Some dsn, pc_store := Some (endpoint, access, secret)\<rparr>"
    using assms by (auto simp: build_common_def pr_bind_Inr raising_Inr)
  have "resolving new_process" by (simp add: resolving_def new_process_def)
  note r1 = resolve_twice_Inr [OF steps(1) this]
  note r2 = resolve_secret_Inr [OF steps(2) conjunct2 [OF r1]]
  note r3 = resolve_twice_Inr [OF steps(3) conjunct2 [OF r2]]
  note r4 = resolve_twice_Inr [OF steps(4) conjunct2 [OF r3]]
  have refs: "secret_value pd db_dsn_ref = pd_environ pd ''DATAPLAT_DB_DSN''"
    "secret_value pd s3_endpoint_url_ref = pd_environ pd ''DATAPLAT_S3_ENDPOINT_URL''"
    "secret_value pd s3_access_key_ref = pd_environ pd ''DATAPLAT_S3_ACCESS_KEY''"
    "secret_value pd s3_secret_key_ref = pd_environ pd ''DATAPLAT_S3_SECRET_KEY''"
    using env_reference [of "''DATAPLAT_DB_DSN''" pd] env_reference [of "''DATAPLAT_S3_ENDPOINT_URL''" pd]
      env_reference [of "''DATAPLAT_S3_ACCESS_KEY''" pd] env_reference [of "''DATAPLAT_S3_SECRET_KEY''" pd]
    by (simp_all add: db_dsn_ref_def s3_endpoint_url_ref_def s3_access_key_ref_def s3_secret_key_ref_def plain_char_def)
  have "pc_logins s' \<le> 1" using r4 by (simp add: s' resolving_def split: if_splits)
  with r1 r2 r3 r4 show ?thesis by (auto simp: refs s')
qed

text \<open>A pod with its references in Vault, as the DAGs configure it.\<close>

definition demo_pod :: pod where
  "demo_pod =
     \<lparr>pd_environ = map_of
        [(''DATAPLAT_DB_DSN'', ''vault://etl/analytics-db#dsn''), (''DATAPLAT_S3_ENDPOINT_URL'', ''http://seaweedfs:8333''),
         (''DATAPLAT_S3_ACCESS_KEY'', ''vault://etl/s3#access''), (''DATAPLAT_S3_SECRET_KEY'', ''vault://etl/s3#secret''),
         (''VAULT_ADDR'', ''http://vault:8200''), (''VAULT_K8S_ROLE'', ''etl'')],
      pd_read_text = (\<lambda>p. if p = token_path then Inr ''jwt'' else Inl (Exn PyOSError [])),
      pd_netloc_ok = (\<lambda>_. True), pd_vault_login = (\<lambda>_ _ _. Inr ()),
      pd_vault_read = (\<lambda>m p. if (m, p) = (''etl'', ''analytics-db'') then Inr (map_of [(''dsn'', ''host=db'')])
         else if (m, p) = (''etl'', ''s3'') then Inr (map_of [(''access'', ''key''), (''secret'', ''pass'')])
         else Inl (Exn VaultError [])),
      pd_open_pool = (\<lambda>_. Inr ()), pd_new_store = (\<lambda>_ _ _. Inr ())\<rparr>"

lemma connections_from_secrets_witness:
  "\<exists>s'. build_common demo_pod new_process = (Inr (), s') \<and> pc_pool s' = Some ''host=db'' \<and> pc_logins s' \<le> 1"
proof -
  have "fst (build_common demo_pod new_process) = Inr ()" by code_simp
  then obtain s' where run: "build_common demo_pod new_process = (Inr (), s')" by (metis prod.collapse)
  have "secret_value demo_pod ''vault://etl/analytics-db#dsn'' = Some ''host=db''" by code_simp
  with connections_from_secrets [OF run] show ?thesis using run by (auto simp: demo_pod_def)
qed

section \<open>Failures of the resolver\<close>

text \<open>
  A reference \<open>urlsplit\<close> rejects raises its \<open>ValueError\<close>; a variable of the Vault client that is not set is
  reported as a field missing from the secret; a secret file that is not UTF-8 raises \<open>UnicodeDecodeError\<close>.
\<close>

lemma malformed_reference_escapes: "fst (resolve_secret pd ''vault://[etl/db#dsn'' s) = Inl (Exn PyValueError [])"
proof -
  have "urlsplit (pd_netloc_ok pd) ''vault://[etl/db#dsn'' = Inl (Exn PyValueError [])"
    by (simp add: urlsplit_def netloc_accepted_def) code_simp
  then show ?thesis by (simp add: resolve_secret_def pr_defs)
qed

lemma missing_vault_address_reported_as_field:
  "fst (resolve_secret (demo_pod\<lparr>pd_environ := (\<lambda>_. None)\<rparr>) ''vault://etl/analytics-db#dsn'' new_process) =
     Inl (secret_error ''vault://etl/analytics-db#dsn'')"
  by code_simp

lemma undecodable_secret_file_escapes:
  "fst (resolve_secret (demo_pod\<lparr>pd_read_text := (\<lambda>_. Inl (Exn PyUnicodeDecodeError []))\<rparr>) ''file:///run/secrets/dsn'' new_process) =
     Inl (Exn PyUnicodeDecodeError [])"
  by code_simp

section \<open>The merged configuration\<close>

text \<open>Each key of the merged mapping is the dataset's, else the default's, as a whole.\<close>

lemma merge_dicts_lookup:
  "map_of (merge_dicts defaults dataset) k =
    (case map_of dataset k of Some v \<Rightarrow> Some v | None \<Rightarrow> map_of defaults k)"
proof -
  let ?f = "\<lambda>k v. case map_of dataset k of None \<Rightarrow> v | Some v' \<Rightarrow> v'"
  have m: "map_of (map (\<lambda>(k, v). (k, ?f k v)) defaults) k = map_option (?f k) (map_of defaults k)"
    by (induction defaults) (auto split: option.split)
  have "map_of (filter (\<lambda>(k, v). k \<notin> fst ` set defaults) dataset) k =
      (if k \<in> fst ` set defaults then None else map_of dataset k)"
    by (induction dataset) force+
  with m map_of_eq_None_iff [of defaults k] show ?thesis
    by (cases "map_of defaults k"; cases "map_of dataset k") (simp_all add: merge_dicts_def map_add_def)
qed

text \<open>A configuration file that is missing is no \<open>ConfigurationError\<close>, and neither is one that is not a mapping.\<close>

lemma missing_config_file_escapes:
  "cf_read_text w defaults_path = Inl (Exn PyOSError []) \<Longrightarrow> load_dataset_config w path defaults_path = Inl (Exn PyOSError [])"
  by (simp add: load_dataset_config_def load_yaml_mapping_def)

lemma config_list_escapes:
  assumes "load_yaml_mapping w defaults_path = Inr defaults" and "load_yaml_mapping w path = Inr Other"
  shows "load_dataset_config w path defaults_path = Inl (Exn PyTypeError [])"
  using assms by (cases defaults) (simp_all add: load_dataset_config_def)

end
