(* ===== verification/Metadata.thy ===== *)
theory Metadata
  imports Records
begin

text \<open>
  The run-metadata repository (\<open>metadata/postgres.py\<close>) on the tables of schema \<open>meta\<close>
  (\<open>migrations/versions/0001\<close> to \<open>0034\<close>): the identities of datasets, files, batches and runs,
  the lease protocol by which pods claim runs and stages, and the audit tables.  One method is one
  transaction; PostgreSQL serialises two UPDATEs of the same row, so a method is one step.
  Instants are integers (microseconds); \<open>now\<close> is the transaction's time.  A violated
  constraint is a \<open>DatabaseError\<close>; the identity value such a statement consumes is not modelled.
\<close>

section \<open>The tables\<close>

datatype sql_value = SqlNull | SqlInt int | SqlText string | SqlTime int

text \<open>The columns of \<open>meta.ingestion_runs\<close> that may be updated by name.\<close>

type_synonym columns = "string \<Rightarrow> sql_value"

record dataset_row =
  dt_id :: int
  dt_name :: string

record file_row =
  fl_id :: int
  fl_dataset_id :: int
  fl_object_uri :: string
  fl_content_sha256 :: string
  fl_hash_version :: int
  fl_size_bytes :: int
  fl_filename :: string
  fl_status :: string
  fl_duplicate_of :: "int option"

record batch_row =
  ba_id :: int
  ba_dataset_id :: int
  ba_batch_key :: string
  ba_status :: string

record batch_file_row =
  bf_batch_id :: int
  bf_file_id :: int
  bf_sequence_no :: int

record run_row =
  ir_id :: int
  ir_idempotency_key :: string
  ir_dataset_id :: int
  ir_file_id :: "int option"
  ir_batch_id :: "int option"
  ir_config_version_id :: int
  ir_processor_version :: string
  ir_processor_image_digest :: string
  ir_status :: string
  ir_columns :: columns

record run_stage_row =
  rs_id :: int
  rs_run_id :: int
  rs_stage_name :: string
  rs_status :: string
  rs_lease_expires_at :: "int option"
  rs_pod_name :: "string option"
  rs_try_number :: "int option"
  rs_started_at :: int
  rs_finished_at :: "int option"

record rejected_row =
  rr_run_id :: int
  rr_file_id :: int
  rr_batch_id :: int
  rr_record :: rejected_record
  rr_resolution_type :: string
  rr_resolved_by :: "int option"

record watermark_row =
  wm_dataset_id :: int
  wm_target_key :: string
  wm_cursor :: "int option"

record history_row =
  hs_dataset_id :: int
  hs_target_key :: string
  hs_old_value :: "int option"
  hs_new_value :: "int option"
  hs_run_id :: int

record reconciliation_row =
  rl_id :: int
  rl_dataset_id :: int
  rl_file_id :: "int option"
  rl_hop :: string
  rl_input_count :: int
  rl_output_count :: int
  rl_rejected_count :: int
  rl_dedup_count :: int
  rl_discrepancy :: int
  rl_expected_row_count :: "int option"
  rl_control_total_discrepancy :: "int option"
  rl_measures :: columns

datatype identity_seq = SeqDatasets | SeqFiles | SeqBatches | SeqRuns | SeqStages | SeqReconciliations

record meta_db =
  md_seq :: "identity_seq \<Rightarrow> int"
  md_config_versions :: "int list"
  md_datasets :: "dataset_row list"
  md_files :: "file_row list"
  md_batches :: "batch_row list"
  md_batch_files :: "batch_file_row list"
  md_runs :: "run_row list"
  md_stages :: "run_stage_row list"
  md_validation :: "(int \<times> validation_result) list"
  md_rejected :: "rejected_row list"
  md_watermarks :: "watermark_row list"
  md_history :: "history_row list"
  md_reconciliations :: "reconciliation_row list"

definition empty_meta :: meta_db where
  "empty_meta = \<lparr>md_seq = (\<lambda>_. 0), md_config_versions = [], md_datasets = [], md_files = [],
     md_batches = [], md_batch_files = [], md_runs = [], md_stages = [], md_validation = [],
     md_rejected = [], md_watermarks = [], md_history = [], md_reconciliations = []\<rparr>"

definition next_id :: "identity_seq \<Rightarrow> meta_db \<Rightarrow> int" where
  "next_id t db = md_seq db t + 1"

text \<open>An \<open>INSERT ... ON CONFLICT\<close> draws its identity value before it looks for a conflict.\<close>

definition draw_id :: "identity_seq \<Rightarrow> meta_db \<Rightarrow> meta_db" where
  "draw_id t db = db\<lparr>md_seq := (md_seq db)(t := next_id t db)\<rparr>"

section \<open>INSERT ... ON CONFLICT ... DO UPDATE ... RETURNING\<close>

definition insert_or_update :: "('r \<Rightarrow> 'k) \<Rightarrow> ('r \<Rightarrow> 'r) \<Rightarrow> 'r \<Rightarrow> 'r list \<Rightarrow> 'r list \<times> 'r" where
  "insert_or_update key upd new rows =
     (case find (\<lambda>r. key r = key new) rows of
        None \<Rightarrow> (rows @ [new], new)
      | Some r \<Rightarrow> (map (\<lambda>x. if key x = key new then upd x else x) rows, upd r))"

definition keyed :: "('r \<Rightarrow> 'k) \<Rightarrow> ('r \<Rightarrow> int) \<Rightarrow> int \<Rightarrow> 'r list \<Rightarrow> bool" where
  "keyed key ident n rows \<longleftrightarrow>
     distinct (map key rows) \<and> distinct (map ident rows) \<and> (\<forall>r \<in> set rows. ident r \<le> n)"

definition ident_of :: "('r \<Rightarrow> 'k) \<Rightarrow> ('r \<Rightarrow> int) \<Rightarrow> 'r list \<Rightarrow> 'k \<Rightarrow> int option" where
  "ident_of key ident rows k = map_option ident (find (\<lambda>r. key r = k) rows)"

lemma find_map_same: "(\<And>x. P (f x) = P x) \<Longrightarrow> find P (map f xs) = map_option f (find P xs)"
  by (induction xs) auto

lemma find_append: "find P (xs @ ys) = (case find P xs of None \<Rightarrow> find P ys | Some x \<Rightarrow> Some x)"
  by (induction xs) auto

lemma find_SomeD: "find P xs = Some x \<Longrightarrow> P x \<and> x \<in> set xs"
  by (induction xs) (auto split: if_splits)

lemma find_distinct:
  "distinct (map key xs) \<Longrightarrow> x \<in> set xs \<Longrightarrow> find (\<lambda>r. key r = key x) xs = Some x"
  by (induction xs) auto

lemma keyed_map:
  assumes "keyed key ident n rows" and "\<And>r. key (f r) = key r" and "\<And>r. ident (f r) = ident r"
  shows "keyed key ident n (map f rows)"
proof -
  have "map key (map f rows) = map key rows" "map ident (map f rows) = map ident rows"
    using assms(2,3) by simp_all
  then show ?thesis using assms by (auto simp: keyed_def simp del: map_map)
qed

lemma keyed_mono: "keyed key ident n rows \<Longrightarrow> n \<le> m \<Longrightarrow> keyed key ident m rows"
  by (fastforce simp: keyed_def)

lemma keyed_up: "keyed key ident n rows \<Longrightarrow> keyed key ident (n + 1) rows"
  by (erule keyed_mono) simp

lemma keyed_insert_or_update:
  assumes "keyed key ident n rows" and "ident new = n + 1"
    and "\<And>r. key (upd r) = key r" and "\<And>r. ident (upd r) = ident r"
    and "insert_or_update key upd new rows = (rows', r')"
  shows "keyed key ident (n + 1) rows' \<and> ident_of key ident rows' (key new) = Some (ident r') \<and>
    (\<forall>k j. ident_of key ident rows k = Some j \<longrightarrow> ident_of key ident rows' k = Some j)"
proof (cases "find (\<lambda>r. key r = key new) rows")
  case None
  then have rows': "rows' = rows @ [new]" "r' = new"
    using assms(5) by (auto simp: insert_or_update_def)
  have "key new \<notin> key ` set rows" using None by (auto simp: find_None_iff)
  moreover have "\<forall>r \<in> set rows. ident r \<le> n" using assms(1) by (simp add: keyed_def)
  ultimately show ?thesis
    using assms(1,2) None by (fastforce simp: rows' keyed_def ident_of_def find_append)
next
  case (Some r)
  let ?f = "\<lambda>x. if key x = key new then upd x else x"
  have rows': "rows' = map ?f rows" "r' = upd r" using assms(5) Some by (auto simp: insert_or_update_def)
  have same: "key (?f x) = key x" "ident (?f x) = ident x" for x using assms(3,4) by simp_all
  have k: "keyed key ident n rows'"
    unfolding rows'(1) by (rule keyed_map [OF assms(1)]) (simp_all add: assms(3,4))
  have ids: "ident_of key ident rows' k = ident_of key ident rows k" for k
    unfolding ident_of_def rows'(1)
    by (subst find_map_same) (simp_all add: same option.map_comp o_def)
  then show ?thesis
    using keyed_mono [OF k, of "n + 1"] Some by (simp add: ids) (simp add: ident_of_def rows'(2) assms(4))
qed

lemma ident_of_inj:
  assumes "keyed key ident n rows" and "ident_of key ident rows k = Some i"
    and "ident_of key ident rows k' = Some i"
  shows "k = k'"
proof -
  obtain r r' where r: "find (\<lambda>r. key r = k) rows = Some r" "ident r = i"
    "find (\<lambda>r. key r = k') rows = Some r'" "ident r' = i"
    using assms(2,3) by (auto simp: ident_of_def)
  then have "r \<in> set rows" "r' \<in> set rows" "key r = k" "key r' = k'" by (auto dest: find_SomeD)
  moreover have "inj_on ident (set rows)" using assms(1) by (simp add: keyed_def distinct_map)
  ultimately show ?thesis using r by (auto dest: inj_onD)
qed

section \<open>Datasets, files, batches\<close>

definition dataset_known :: "meta_db \<Rightarrow> int \<Rightarrow> bool" where
  "dataset_known db i \<longleftrightarrow> i \<in> dt_id ` set (md_datasets db)"

definition file_known :: "meta_db \<Rightarrow> int \<Rightarrow> bool" where
  "file_known db i \<longleftrightarrow> i \<in> fl_id ` set (md_files db)"

definition batch_known :: "meta_db \<Rightarrow> int \<Rightarrow> bool" where
  "batch_known db i \<longleftrightarrow> i \<in> ba_id ` set (md_batches db)"

definition run_known :: "meta_db \<Rightarrow> int \<Rightarrow> bool" where
  "run_known db i \<longleftrightarrow> i \<in> ir_id ` set (md_runs db)"

fun opt_all :: "('a \<Rightarrow> bool) \<Rightarrow> 'a option \<Rightarrow> bool" where
  "opt_all P None = True"
| "opt_all P (Some x) = P x"

definition fk_ok :: "(int \<Rightarrow> bool) \<Rightarrow> int option \<Rightarrow> bool" where
  "fk_ok known ref \<longleftrightarrow> (case ref of None \<Rightarrow> True | Some i \<Rightarrow> known i)"

definition get_or_create_dataset :: "string \<Rightarrow> meta_db \<Rightarrow> meta_db \<times> int" where
  "get_or_create_dataset name db =
     (let (rows, r) = insert_or_update dt_name (\<lambda>r. r)
            \<lparr>dt_id = next_id SeqDatasets db, dt_name = name\<rparr> (md_datasets db)
      in ((draw_id SeqDatasets db)\<lparr>md_datasets := rows\<rparr>, dt_id r))"

definition file_key :: "file_row \<Rightarrow> int \<times> string \<times> string" where
  "file_key r = (fl_dataset_id r, fl_object_uri r, fl_content_sha256 r)"

text \<open>The columns of a new file; the identity is drawn here.\<close>

definition create_file :: "file_row \<Rightarrow> meta_db \<Rightarrow> exn + meta_db \<times> int" where
  "create_file f db =
     (if dataset_known db (fl_dataset_id f) \<and> fk_ok (file_known db) (fl_duplicate_of f)
      then (let (rows, r) = insert_or_update file_key
                  (\<lambda>r. r\<lparr>fl_filename := fl_filename f, fl_duplicate_of := fl_duplicate_of f\<rparr>)
                  (f\<lparr>fl_id := next_id SeqFiles db\<rparr>) (md_files db)
            in Inr ((draw_id SeqFiles db)\<lparr>md_files := rows\<rparr>, fl_id r))
      else Inl (Exn DatabaseError []))"

text \<open>\<open>ORDER BY ... ASC LIMIT 1\<close> of the identities a predicate selects.\<close>

definition min_id :: "int list \<Rightarrow> int option" where
  "min_id is = (case is of [] \<Rightarrow> None | i # is' \<Rightarrow> Some (Min (set (i # is'))))"

definition max_id :: "int list \<Rightarrow> int option" where
  "max_id is = (case is of [] \<Rightarrow> None | i # is' \<Rightarrow> Some (Max (set (i # is'))))"

definition find_file_by_content_hash :: "int \<Rightarrow> string \<Rightarrow> meta_db \<Rightarrow> int option" where
  "find_file_by_content_hash dataset_id sha db =
     min_id (map fl_id (filter (\<lambda>f. fl_dataset_id f = dataset_id \<and> fl_content_sha256 f = sha) (md_files db)))"

definition batch_key :: "batch_row \<Rightarrow> int \<times> string" where
  "batch_key r = (ba_dataset_id r, ba_batch_key r)"

definition new_batch :: "int \<Rightarrow> string \<Rightarrow> string \<Rightarrow> meta_db \<Rightarrow> batch_row" where
  "new_batch dataset_id key status db =
     \<lparr>ba_id = next_id SeqBatches db, ba_dataset_id = dataset_id, ba_batch_key = key, ba_status = status\<rparr>"

definition create_batch :: "int \<Rightarrow> string \<Rightarrow> string \<Rightarrow> meta_db \<Rightarrow> exn + meta_db \<times> int" where
  "create_batch dataset_id key status db =
     (if dataset_known db dataset_id \<and> (dataset_id, key) \<notin> batch_key ` set (md_batches db)
      then Inr ((draw_id SeqBatches db)\<lparr>md_batches := md_batches db @ [new_batch dataset_id key status db]\<rparr>,
                next_id SeqBatches db)
      else Inl (Exn DatabaseError []))"

definition get_or_create_batch :: "int \<Rightarrow> string \<Rightarrow> string \<Rightarrow> meta_db \<Rightarrow> exn + meta_db \<times> int" where
  "get_or_create_batch dataset_id key status db =
     (if dataset_known db dataset_id
      then (let (rows, r) = insert_or_update batch_key (\<lambda>r. r) (new_batch dataset_id key status db) (md_batches db)
            in Inr ((draw_id SeqBatches db)\<lparr>md_batches := rows\<rparr>, ba_id r))
      else Inl (Exn DatabaseError []))"

definition link_batch_file :: "int \<Rightarrow> int \<Rightarrow> int \<Rightarrow> meta_db \<Rightarrow> exn + meta_db" where
  "link_batch_file batch_id file_id sequence_no db =
     (if list_ex (\<lambda>l. bf_batch_id l = batch_id \<and> bf_file_id l = file_id) (md_batch_files db) then Inr db
      else if batch_known db batch_id \<and> file_known db file_id
      then Inr (db\<lparr>md_batch_files := md_batch_files db @
             [\<lparr>bf_batch_id = batch_id, bf_file_id = file_id, bf_sequence_no = sequence_no\<rparr>]\<rparr>)
      else Inl (Exn DatabaseError []))"

section \<open>Runs\<close>

definition no_columns :: columns where
  "no_columns = (\<lambda>_. SqlNull)"

definition int_value :: "int option \<Rightarrow> sql_value" where
  "int_value v = (case v of None \<Rightarrow> SqlNull | Some i \<Rightarrow> SqlInt i)"

definition text_value :: "string option \<Rightarrow> sql_value" where
  "text_value v = (case v of None \<Rightarrow> SqlNull | Some s \<Rightarrow> SqlText s)"

definition coalesce :: "sql_value \<Rightarrow> sql_value \<Rightarrow> sql_value" where
  "coalesce a b = (if a = SqlNull then b else a)"

record run_spec =
  sp_idempotency_key :: string
  sp_dataset_id :: int
  sp_config_version_id :: int
  sp_processor_version :: string
  sp_processor_image_digest :: string
  sp_file_id :: "int option"
  sp_batch_id :: "int option"
  sp_replay_of_run_id :: "int option"

definition new_run :: "run_spec \<Rightarrow> string \<Rightarrow> int \<Rightarrow> run_row" where
  "new_run sp status i =
     \<lparr>ir_id = i, ir_idempotency_key = sp_idempotency_key sp, ir_dataset_id = sp_dataset_id sp,
      ir_file_id = sp_file_id sp, ir_batch_id = sp_batch_id sp,
      ir_config_version_id = sp_config_version_id sp, ir_processor_version = sp_processor_version sp,
      ir_processor_image_digest = sp_processor_image_digest sp, ir_status = status,
      ir_columns = no_columns(''replay_of_run_id'' := int_value (sp_replay_of_run_id sp))\<rparr>"

definition run_fks_ok :: "run_spec \<Rightarrow> meta_db \<Rightarrow> bool" where
  "run_fks_ok sp db \<longleftrightarrow> dataset_known db (sp_dataset_id sp) \<and> fk_ok (file_known db) (sp_file_id sp) \<and>
     fk_ok (batch_known db) (sp_batch_id sp) \<and> sp_config_version_id sp \<in> set (md_config_versions db) \<and>
     fk_ok (run_known db) (sp_replay_of_run_id sp)"

definition create_ingestion_run :: "run_spec \<Rightarrow> string \<Rightarrow> meta_db \<Rightarrow> exn + meta_db \<times> int" where
  "create_ingestion_run sp status db =
     (if run_fks_ok sp db \<and> sp_idempotency_key sp \<notin> ir_idempotency_key ` set (md_runs db)
      then Inr ((draw_id SeqRuns db)\<lparr>md_runs := md_runs db @ [new_run sp status (next_id SeqRuns db)]\<rparr>,
                next_id SeqRuns db)
      else Inl (Exn DatabaseError []))"

definition get_or_create_ingestion_run :: "run_spec \<Rightarrow> meta_db \<Rightarrow> exn + meta_db \<times> (int \<times> string)" where
  "get_or_create_ingestion_run sp db =
     (if run_fks_ok sp db \<or> sp_idempotency_key sp \<in> ir_idempotency_key ` set (md_runs db)
      then (let (rows, r) = insert_or_update ir_idempotency_key (\<lambda>r. r)
                  (new_run sp ''PENDING'' (next_id SeqRuns db)) (md_runs db)
            in Inr ((draw_id SeqRuns db)\<lparr>md_runs := rows\<rparr>, (ir_id r, ir_status r)))
      else Inl (Exn DatabaseError []))"

definition find_latest_succeeded_run_for_file :: "int \<Rightarrow> meta_db \<Rightarrow> int option" where
  "find_latest_succeeded_run_for_file file_id db =
     max_id (map ir_id (filter (\<lambda>r. ir_file_id r = Some file_id \<and> ir_status r = ''SUCCEEDED'') (md_runs db)))"

section \<open>Claiming a run\<close>

text \<open>\<open>interval '5 minutes'\<close>.\<close>

definition lease_us :: int where
  "lease_us = 5 * 60 * 1000000"

definition lease_of :: "run_row \<Rightarrow> sql_value" where
  "lease_of r = ir_columns r ''lease_expires_at''"

text \<open>\<open>lease_expires_at < now()\<close> is not true of a NULL lease.\<close>

definition lease_expired :: "int \<Rightarrow> sql_value \<Rightarrow> bool" where
  "lease_expired now lease \<longleftrightarrow> (case lease of SqlTime t \<Rightarrow> t < now | _ \<Rightarrow> False)"

definition claimable :: "int \<Rightarrow> run_row \<Rightarrow> bool" where
  "claimable now r \<longleftrightarrow> ir_status r \<in> {''PENDING'', ''FAILED''} \<or>
     (ir_status r = ''RUNNING'' \<and> lease_expired now (lease_of r))"

record claim_args =
  ca_try_number :: int
  ca_pod_name :: string
  ca_trace_id :: "string option"
  ca_span_id :: "string option"
  ca_dag_id :: "string option"
  ca_dag_run_id :: "string option"
  ca_task_id :: "string option"
  ca_map_index :: "int option"
  ca_k8s_namespace :: "string option"

definition claim_columns :: "int \<Rightarrow> claim_args \<Rightarrow> columns \<Rightarrow> columns" where
  "claim_columns now a cols = cols(
     ''try_number'' := SqlInt (ca_try_number a),
     ''k8s_pod_name'' := SqlText (ca_pod_name a),
     ''trace_id'' := text_value (ca_trace_id a),
     ''span_id'' := text_value (ca_span_id a),
     ''dag_id'' := coalesce (text_value (ca_dag_id a)) (cols ''dag_id''),
     ''dag_run_id'' := coalesce (text_value (ca_dag_run_id a)) (cols ''dag_run_id''),
     ''task_id'' := coalesce (text_value (ca_task_id a)) (cols ''task_id''),
     ''map_index'' := coalesce (int_value (ca_map_index a)) (cols ''map_index''),
     ''k8s_namespace'' := coalesce (text_value (ca_k8s_namespace a)) (cols ''k8s_namespace''),
     ''started_at'' := coalesce (cols ''started_at'') (SqlTime now),
     ''lease_expires_at'' := SqlTime (now + lease_us))"

text \<open>\<open>UPDATE meta.ingestion_runs SET ... WHERE ...\<close>.\<close>

definition update_runs :: "(run_row \<Rightarrow> bool) \<Rightarrow> (run_row \<Rightarrow> run_row) \<Rightarrow> meta_db \<Rightarrow> meta_db" where
  "update_runs P f db = db\<lparr>md_runs := map (\<lambda>r. if P r then f r else r) (md_runs db)\<rparr>"

definition claimed_row :: "int \<Rightarrow> claim_args \<Rightarrow> run_row \<Rightarrow> run_row" where
  "claimed_row now a r = r\<lparr>ir_status := ''RUNNING'', ir_columns := claim_columns now a (ir_columns r)\<rparr>"

definition claim_ingestion_run :: "int \<Rightarrow> string \<Rightarrow> claim_args \<Rightarrow> meta_db \<Rightarrow> meta_db \<times> (int \<times> string) option" where
  "claim_ingestion_run now key a db =
     (let P = (\<lambda>r. ir_idempotency_key r = key \<and> claimable now r) in
      (update_runs P (claimed_row now a) db,
       map_option (\<lambda>r. (ir_id r, ''RUNNING'')) (find P (md_runs db))))"

definition heartbeat_ingestion_run :: "int \<Rightarrow> int \<Rightarrow> int \<Rightarrow> int \<Rightarrow> meta_db \<Rightarrow> meta_db" where
  "heartbeat_ingestion_run run_id lease rows_read rows_parsed db =
     update_runs (\<lambda>r. ir_id r = run_id \<and> ir_status r = ''RUNNING'')
       (\<lambda>r. r\<lparr>ir_columns := (ir_columns r)(''lease_expires_at'' := SqlTime lease,
          ''rows_read'' := SqlInt rows_read, ''rows_parsed'' := SqlInt rows_parsed)\<rparr>) db"

definition find_run :: "meta_db \<Rightarrow> int \<Rightarrow> run_row option" where
  "find_run db run_id = find (\<lambda>r. ir_id r = run_id) (md_runs db)"

definition get_ingestion_run_status :: "int \<Rightarrow> meta_db \<Rightarrow> string option" where
  "get_ingestion_run_status run_id db = map_option ir_status (find_run db run_id)"

definition owned_by :: "int \<Rightarrow> string \<Rightarrow> run_row \<Rightarrow> bool" where
  "owned_by run_id pod r \<longleftrightarrow> ir_id r = run_id \<and> ir_status r = ''RUNNING'' \<and>
     ir_columns r ''k8s_pod_name'' = SqlText pod"

definition fail_ingestion_run_claim :: "int \<Rightarrow> int \<Rightarrow> string \<Rightarrow> meta_db \<Rightarrow> meta_db \<times> bool" where
  "fail_ingestion_run_claim now run_id pod db =
     (update_runs (owned_by run_id pod)
        (\<lambda>r. r\<lparr>ir_status := ''FAILED'', ir_columns := (ir_columns r)(''lease_expires_at'' := SqlTime now)\<rparr>) db,
      length (filter (owned_by run_id pod) (md_runs db)) = 1)"

definition updatable_fields :: "string list" where
  "updatable_fields = [''schema_version_id'', ''dag_id'', ''dag_run_id'', ''task_id'', ''map_index'',
     ''try_number'', ''logical_date'', ''data_interval_start'', ''data_interval_end'', ''k8s_namespace'',
     ''k8s_pod_name'', ''k8s_node_name'', ''trace_id'', ''span_id'', ''lease_expires_at'', ''started_at'',
     ''finished_at'', ''duration_ms'', ''rows_read'', ''rows_parsed'', ''rows_valid'', ''rows_invalid'',
     ''rows_deduplicated'', ''rows_loaded'', ''error_type'', ''error_message'', ''error_detail'',
     ''report_uri'', ''replay_of_run_id'']"

definition set_columns :: "(string \<times> sql_value) list \<Rightarrow> columns \<Rightarrow> columns" where
  "set_columns upd cols = foldl (\<lambda>c (k, v). c(k := v)) cols upd"

definition update_ingestion_run_status :: "int \<Rightarrow> string \<Rightarrow> (string \<times> sql_value) list \<Rightarrow> meta_db \<Rightarrow>
    exn + meta_db" where
  "update_ingestion_run_status run_id status upd db =
     (if list_ex (\<lambda>(k, v). k \<notin> set updatable_fields) upd then Inl (Exn PyValueError [])
      else Inr (update_runs (\<lambda>r. ir_id r = run_id)
             (\<lambda>r. r\<lparr>ir_status := status, ir_columns := set_columns upd (ir_columns r)\<rparr>) db))"

section \<open>Claiming a stage of a run\<close>

definition stage_key :: "run_stage_row \<Rightarrow> int \<times> string" where
  "stage_key r = (rs_run_id r, rs_stage_name r)"

definition stage_claimable :: "int \<Rightarrow> run_stage_row \<Rightarrow> bool" where
  "stage_claimable now r \<longleftrightarrow> rs_status r \<in> {''PENDING'', ''FAILED''} \<or>
     (rs_status r = ''RUNNING'' \<and> (case rs_lease_expires_at r of None \<Rightarrow> False | Some t \<Rightarrow> t < now))"

definition run_staged :: "meta_db \<Rightarrow> int \<Rightarrow> bool" where
  "run_staged db run_id \<longleftrightarrow> list_ex (\<lambda>r. ir_id r = run_id \<and> ir_status r = ''STAGED'') (md_runs db)"

definition claim_run_stage :: "int \<Rightarrow> int \<Rightarrow> string \<Rightarrow> int \<Rightarrow> string \<Rightarrow> meta_db \<Rightarrow> meta_db \<times> int option" where
  "claim_run_stage now run_id stage try_number pod db =
     (if run_staged db run_id
      then (case find (\<lambda>r. stage_key r = (run_id, stage)) (md_stages db) of
              None \<Rightarrow>
                ((draw_id SeqStages db)\<lparr>md_stages := md_stages db @
                   [\<lparr>rs_id = next_id SeqStages db, rs_run_id = run_id, rs_stage_name = stage,
                     rs_status = ''RUNNING'', rs_lease_expires_at = Some (now + lease_us),
                     rs_pod_name = Some pod, rs_try_number = Some try_number, rs_started_at = now,
                     rs_finished_at = None\<rparr>]\<rparr>, Some (next_id SeqStages db))
            | Some s \<Rightarrow>
                (if stage_claimable now s
                 then ((draw_id SeqStages db)\<lparr>md_stages := map (\<lambda>r. if stage_key r = (run_id, stage)
                          then r\<lparr>rs_status := ''RUNNING'', rs_lease_expires_at := Some (now + lease_us),
                                 rs_pod_name := Some pod, rs_try_number := Some try_number\<rparr>
                          else r) (md_stages db)\<rparr>, Some (rs_id s))
                 else (draw_id SeqStages db, None)))
      else (db, None))"

definition update_stage :: "int \<Rightarrow> string \<Rightarrow> (run_stage_row \<Rightarrow> run_stage_row) \<Rightarrow> meta_db \<Rightarrow> meta_db" where
  "update_stage run_id stage f db =
     db\<lparr>md_stages := map (\<lambda>r. if stage_key r = (run_id, stage) then f r else r) (md_stages db)\<rparr>"

definition heartbeat_run_stage :: "int \<Rightarrow> string \<Rightarrow> int \<Rightarrow> meta_db \<Rightarrow> meta_db" where
  "heartbeat_run_stage run_id stage lease db =
     update_stage run_id stage
       (\<lambda>r. if rs_status r = ''RUNNING'' then r\<lparr>rs_lease_expires_at := Some lease\<rparr> else r) db"

definition complete_run_stage :: "int \<Rightarrow> string \<Rightarrow> string \<Rightarrow> int \<Rightarrow> meta_db \<Rightarrow> meta_db" where
  "complete_run_stage run_id stage status finished_at db =
     update_stage run_id stage (\<lambda>r. r\<lparr>rs_status := status, rs_finished_at := Some finished_at\<rparr>) db"

definition get_run_stage_status :: "int \<Rightarrow> string \<Rightarrow> meta_db \<Rightarrow> string option" where
  "get_run_stage_status run_id stage db =
     map_option rs_status (find (\<lambda>r. stage_key r = (run_id, stage)) (md_stages db))"

text \<open>\<open>next_action\<close> of the view \<open>meta.v_run_recovery\<close>.\<close>

definition retryable :: "string option \<Rightarrow> bool" where
  "retryable status \<longleftrightarrow> status \<in> {None, Some ''FAILED'', Some ''PENDING''}"

definition run_recovery_action :: "int \<Rightarrow> meta_db \<Rightarrow> string option" where
  "run_recovery_action run_id db =
     map_option (\<lambda>status.
       if status = ''SUCCEEDED'' \<and> get_run_stage_status run_id ''PUBLISH'' db = Some ''SUCCEEDED'' then ''complete''
       else if retryable (get_run_stage_status run_id ''STAGE_LOAD'' db) then ''retry stage STAGE_LOAD''
       else if retryable (get_run_stage_status run_id ''DBT_BUILD'' db) then ''retry stage DBT_BUILD''
       else if retryable (get_run_stage_status run_id ''PUBLISH'' db) then ''retry stage PUBLISH''
       else ''in progress'') (get_ingestion_run_status run_id db)"

section \<open>Publication and audit\<close>

text \<open>\<open>int(row[1])\<close> of a NULL file or batch is a \<open>TypeError\<close>.\<close>

record staged_run =
  sn_run_id :: int
  sn_file_id :: int
  sn_batch_id :: int
  sn_report_uri :: sql_value

definition staged_run_of :: "run_row \<Rightarrow> exn + staged_run" where
  "staged_run_of r =
     (case (ir_file_id r, ir_batch_id r) of
        (Some f, Some b) \<Rightarrow> Inr \<lparr>sn_run_id = ir_id r, sn_file_id = f, sn_batch_id = b,
                                sn_report_uri = ir_columns r ''report_uri''\<rparr>
      | _ \<Rightarrow> Inl (Exn PyTypeError []))"

definition list_staged_run_ids :: "int \<Rightarrow> meta_db \<Rightarrow> exn + staged_run list" where
  "list_staged_run_ids dataset_id db =
     traverse staged_run_of
       (sort_key ir_id (filter (\<lambda>r. ir_dataset_id r = dataset_id \<and> ir_status r = ''STAGED'') (md_runs db)))"

definition finalize_columns :: "int \<Rightarrow> int \<Rightarrow> int \<Rightarrow> sql_value \<Rightarrow> sql_value \<Rightarrow> columns \<Rightarrow> columns" where
  "finalize_columns rows_loaded finished_at duration_ms report_uri schema_version cols = cols(
     ''finished_at'' := SqlTime finished_at, ''rows_loaded'' := SqlInt rows_loaded,
     ''duration_ms'' := SqlInt duration_ms, ''report_uri'' := report_uri,
     ''schema_version_id'' := coalesce schema_version (cols ''schema_version_id''))"

definition finalize_publication :: "int \<Rightarrow> int \<Rightarrow> int \<Rightarrow> int \<Rightarrow> int \<Rightarrow> int \<Rightarrow> sql_value \<Rightarrow> sql_value \<Rightarrow>
    meta_db \<Rightarrow> meta_db" where
  "finalize_publication run_id file_id batch_id rows_loaded finished_at duration_ms report_uri schema_version db =
     update_runs (\<lambda>r. ir_id r = run_id)
       (\<lambda>r. r\<lparr>ir_status := ''SUCCEEDED'', ir_columns :=
          finalize_columns rows_loaded finished_at duration_ms report_uri schema_version (ir_columns r)\<rparr>)
       (db\<lparr>md_files := map (\<lambda>f. if fl_id f = file_id then f\<lparr>fl_status := ''PROCESSED''\<rparr> else f) (md_files db),
           md_batches := map (\<lambda>b. if ba_id b = batch_id then b\<lparr>ba_status := ''PUBLISHED''\<rparr> else b) (md_batches db)\<rparr>)"

definition record_validation_results :: "int \<Rightarrow> validation_result list \<Rightarrow> meta_db \<Rightarrow> exn + meta_db" where
  "record_validation_results run_id results db =
     (if results = [] \<or> run_known db run_id
      then Inr (db\<lparr>md_validation := md_validation db @ map (Pair run_id) results\<rparr>)
      else Inl (Exn DatabaseError []))"

definition rejected_row_of :: "int \<Rightarrow> int \<Rightarrow> int \<Rightarrow> rejected_record \<Rightarrow> rejected_row" where
  "rejected_row_of run_id file_id batch_id x =
     \<lparr>rr_run_id = run_id, rr_file_id = file_id, rr_batch_id = batch_id, rr_record = x,
      rr_resolution_type = ''PENDING'', rr_resolved_by = None\<rparr>"

definition record_rejected_records :: "int \<Rightarrow> int \<Rightarrow> int \<Rightarrow> rejected_record list \<Rightarrow> meta_db \<Rightarrow> exn + meta_db" where
  "record_rejected_records run_id file_id batch_id rejected db =
     (if rejected = [] \<or> (run_known db run_id \<and> file_known db file_id \<and> batch_known db batch_id)
      then Inr (db\<lparr>md_rejected := md_rejected db @ map (rejected_row_of run_id file_id batch_id) rejected\<rparr>)
      else Inl (Exn DatabaseError []))"

definition resolves :: "meta_db \<Rightarrow> int \<Rightarrow> string list \<Rightarrow> rejected_row \<Rightarrow> bool" where
  "resolves db dataset_id keys r \<longleftrightarrow>
     list_ex (\<lambda>b. ba_id b = rr_batch_id r \<and> ba_dataset_id b = dataset_id) (md_batches db) \<and>
     (case rj_business_key (rr_record r) of None \<Rightarrow> False | Some k \<Rightarrow> k \<in> set keys) \<and>
     rr_resolution_type r = ''PENDING''"

definition resolve_rejected_records :: "int \<Rightarrow> string list \<Rightarrow> int \<Rightarrow> string \<Rightarrow> meta_db \<Rightarrow> exn + meta_db \<times> int" where
  "resolve_rejected_records dataset_id keys resolved_by resolution db =
     (if keys = [] then Inr (db, 0)
      else
        (let n = length (filter (resolves db dataset_id keys) (md_rejected db)) in
         if 0 < n \<and> \<not> run_known db resolved_by then Inl (Exn DatabaseError [])
         else Inr (db\<lparr>md_rejected := map (\<lambda>r. if resolves db dataset_id keys r
                        then r\<lparr>rr_resolution_type := resolution, rr_resolved_by := Some resolved_by\<rparr> else r)
                      (md_rejected db)\<rparr>, int n)))"

text \<open>\<open>GREATEST\<close> ignores NULLs, and so does \<open>max\<close>.\<close>

definition greatest :: "int option \<Rightarrow> int option \<Rightarrow> int option" where
  "greatest a b = (case (a, b) of (None, y) \<Rightarrow> y | (x, None) \<Rightarrow> x | (Some x, Some y) \<Rightarrow> Some (max x y))"

definition sql_max :: "int option list \<Rightarrow> int option" where
  "sql_max vs = foldr greatest vs None"

definition watermark_key :: "watermark_row \<Rightarrow> int \<times> string" where
  "watermark_key w = (wm_dataset_id w, wm_target_key w)"

definition get_current_watermark :: "int \<Rightarrow> string \<Rightarrow> meta_db \<Rightarrow> int option" where
  "get_current_watermark dataset_id target_key db =
     (case find (\<lambda>w. watermark_key w = (dataset_id, target_key)) (md_watermarks db) of
        None \<Rightarrow> None | Some w \<Rightarrow> wm_cursor w)"

text \<open>\<open>source\<close> is the source table: each row's \<open>_run_id\<close> and its watermark column.\<close>

definition record_watermark :: "int \<Rightarrow> string \<Rightarrow> (int \<times> int option) list \<Rightarrow> int \<Rightarrow> int list \<Rightarrow>
    meta_db \<Rightarrow> exn + meta_db" where
  "record_watermark dataset_id target_key source run_id run_ids db =
     (let old_value = get_current_watermark dataset_id target_key db;
          seen = sql_max (map snd (filter (\<lambda>(r, v). r \<in> set run_ids) source));
          (rows, w) = insert_or_update watermark_key (\<lambda>w. w\<lparr>wm_cursor := greatest (wm_cursor w) seen\<rparr>)
             \<lparr>wm_dataset_id = dataset_id, wm_target_key = target_key, wm_cursor = seen\<rparr> (md_watermarks db)
      in if dataset_known db dataset_id \<and> run_known db run_id
         then Inr (db\<lparr>md_watermarks := rows, md_history := md_history db @
            [\<lparr>hs_dataset_id = dataset_id, hs_target_key = target_key, hs_old_value = old_value,
              hs_new_value = wm_cursor w, hs_run_id = run_id\<rparr>]\<rparr>)
         else Inl (Exn DatabaseError []))"

text \<open>\<open>x::bigint\<close>: out of range is an error, and so is the result of the arithmetic.\<close>

definition bigint :: "int \<Rightarrow> bool" where
  "bigint n \<longleftrightarrow> - (2 ^ 63) \<le> n \<and> n < 2 ^ 63"

record reconciliation_spec =
  rn_dataset_id :: int
  rn_file_id :: "int option"
  rn_hop :: string
  rn_input_count :: int
  rn_output_count :: int
  rn_rejected_count :: int
  rn_dedup_count :: int
  rn_expected_row_count :: "int option"
  rn_measures :: columns

definition record_reconciliation :: "reconciliation_spec \<Rightarrow> meta_db \<Rightarrow> exn + meta_db \<times> int" where
  "record_reconciliation s db =
     (let out = rn_output_count s; rej = rn_rejected_count s; dup = rn_dedup_count s;
          discrepancy = rn_input_count s - (out + rej + dup);
          control = map_option (\<lambda>e. e - out) (rn_expected_row_count s)
      in if list_all bigint [rn_input_count s, out, rej, dup, out + rej, out + rej + dup, discrepancy] \<and>
            opt_all bigint (rn_expected_row_count s) \<and> opt_all bigint control \<and>
            dataset_known db (rn_dataset_id s) \<and> fk_ok (file_known db) (rn_file_id s)
         then Inr ((draw_id SeqReconciliations db)\<lparr>md_reconciliations := md_reconciliations db @
           [\<lparr>rl_id = next_id SeqReconciliations db, rl_dataset_id = rn_dataset_id s,
             rl_file_id = rn_file_id s, rl_hop = rn_hop s, rl_input_count = rn_input_count s,
             rl_output_count = out, rl_rejected_count = rej, rl_dedup_count = dup,
             rl_discrepancy = discrepancy, rl_expected_row_count = rn_expected_row_count s,
             rl_control_total_discrepancy = control, rl_measures = rn_measures s\<rparr>]\<rparr>,
           next_id SeqReconciliations db)
         else Inl (Exn DatabaseError []))"

end
