(* ===== verification/MetaHistory.thy ===== *)
theory MetaHistory
  imports Metadata
begin

text \<open>
  What the run-metadata repository (theory \<open>Metadata\<close>) promises over whole histories of its operations,
  by any pods in any order: unique keys, stable identities, leases that exclude each other and are
  recovered, finished runs that stay finished, watermarks that never go back, exact reconciliations.
\<close>

section \<open>Histories of the repository\<close>

datatype meta_op =
    OpDataset string
  | OpFile file_row
  | OpBatch int string string
  | OpNewBatch int string string
  | OpLink int int int
  | OpRun run_spec
  | OpNewRun run_spec string
  | OpClaim int string claim_args
  | OpHeartbeat int int int int
  | OpFail int int string
  | OpStatus int string "(string \<times> sql_value) list"
  | OpClaimStage int int string int string
  | OpHeartbeatStage int string int
  | OpCompleteStage int string string int
  | OpFinalize int int int int int int sql_value sql_value
  | OpValidation int "validation_result list"
  | OpReject int int int "rejected_record list"
  | OpResolve int "string list" int string
  | OpWatermark int string "(int \<times> int option) list" int "int list"
  | OpReconcile reconciliation_spec

fun exec_op :: "meta_op \<Rightarrow> meta_db \<Rightarrow> exn + meta_db" where
  "exec_op (OpDataset name) db = Inr (fst (get_or_create_dataset name db))"
| "exec_op (OpFile f) db = map_sum id fst (create_file f db)"
| "exec_op (OpBatch d k s) db = map_sum id fst (get_or_create_batch d k s db)"
| "exec_op (OpNewBatch d k s) db = map_sum id fst (create_batch d k s db)"
| "exec_op (OpLink b f n) db = link_batch_file b f n db"
| "exec_op (OpRun sp) db = map_sum id fst (get_or_create_ingestion_run sp db)"
| "exec_op (OpNewRun sp s) db = map_sum id fst (create_ingestion_run sp s db)"
| "exec_op (OpClaim now key a) db = Inr (fst (claim_ingestion_run now key a db))"
| "exec_op (OpHeartbeat run lease n m) db = Inr (heartbeat_ingestion_run run lease n m db)"
| "exec_op (OpFail now run pod) db = Inr (fst (fail_ingestion_run_claim now run pod db))"
| "exec_op (OpStatus run s upd) db = update_ingestion_run_status run s upd db"
| "exec_op (OpClaimStage now run st n pod) db = Inr (fst (claim_run_stage now run st n pod db))"
| "exec_op (OpHeartbeatStage run st lease) db = Inr (heartbeat_run_stage run st lease db)"
| "exec_op (OpCompleteStage run st s t) db = Inr (complete_run_stage run st s t db)"
| "exec_op (OpFinalize run f b n t ms uri sv) db = Inr (finalize_publication run f b n t ms uri sv db)"
| "exec_op (OpValidation run rs) db = record_validation_results run rs db"
| "exec_op (OpReject run f b xs) db = record_rejected_records run f b xs db"
| "exec_op (OpResolve d keys by res) db = map_sum id fst (resolve_rejected_records d keys by res db)"
| "exec_op (OpWatermark d k src run ids) db = record_watermark d k src run ids db"
| "exec_op (OpReconcile s) db = map_sum id fst (record_reconciliation s db)"

text \<open>A statement that fails changes nothing.\<close>

definition exec_or_keep :: "meta_op \<Rightarrow> meta_db \<Rightarrow> meta_db" where
  "exec_or_keep op db = (case exec_op op db of Inl _ \<Rightarrow> db | Inr db' \<Rightarrow> db')"

definition exec_all :: "meta_op list \<Rightarrow> meta_db \<Rightarrow> meta_db" where
  "exec_all ops db = foldl (\<lambda>d op. exec_or_keep op d) db ops"

inductive meta_reach :: "meta_db \<Rightarrow> bool" where
  start: "meta_reach (empty_meta\<lparr>md_config_versions := vs\<rparr>)"
| step: "meta_reach db \<Longrightarrow> exec_op op db = Inr db' \<Longrightarrow> meta_reach db'"

text \<open>What an operation does to the rows of \<open>meta.ingestion_runs\<close> that are already there.\<close>

fun run_effect :: "meta_op \<Rightarrow> run_row \<Rightarrow> run_row" where
  "run_effect (OpClaim now key a) r =
     (if ir_idempotency_key r = key \<and> claimable now r then claimed_row now a r else r)"
| "run_effect (OpHeartbeat run lease n m) r =
     (if ir_id r = run \<and> ir_status r = ''RUNNING''
      then r\<lparr>ir_columns := (ir_columns r)(''lease_expires_at'' := SqlTime lease,
             ''rows_read'' := SqlInt n, ''rows_parsed'' := SqlInt m)\<rparr> else r)"
| "run_effect (OpFail now run pod) r =
     (if owned_by run pod r
      then r\<lparr>ir_status := ''FAILED'', ir_columns := (ir_columns r)(''lease_expires_at'' := SqlTime now)\<rparr>
      else r)"
| "run_effect (OpStatus run s upd) r =
     (if ir_id r = run then r\<lparr>ir_status := s, ir_columns := set_columns upd (ir_columns r)\<rparr> else r)"
| "run_effect (OpFinalize run f b n t ms uri sv) r =
     (if ir_id r = run
      then r\<lparr>ir_status := ''SUCCEEDED'', ir_columns := finalize_columns n t ms uri sv (ir_columns r)\<rparr> else r)"
| "run_effect _ r = r"

lemma run_effect_ident [simp]:
  "ir_id (run_effect op r) = ir_id r" "ir_idempotency_key (run_effect op r) = ir_idempotency_key r"
  by (cases op; simp add: claimed_row_def)+

named_theorems op_defs "the repository's operations"

declare get_or_create_dataset_def [op_defs] create_file_def [op_defs] create_batch_def [op_defs]
  get_or_create_batch_def [op_defs] link_batch_file_def [op_defs] create_ingestion_run_def [op_defs]
  get_or_create_ingestion_run_def [op_defs] claim_ingestion_run_def [op_defs]
  heartbeat_ingestion_run_def [op_defs] fail_ingestion_run_claim_def [op_defs]
  update_ingestion_run_status_def [op_defs] claim_run_stage_def [op_defs]
  heartbeat_run_stage_def [op_defs] complete_run_stage_def [op_defs] finalize_publication_def [op_defs]
  record_validation_results_def [op_defs] record_rejected_records_def [op_defs]
  resolve_rejected_records_def [op_defs] record_watermark_def [op_defs] record_reconciliation_def [op_defs]
  update_runs_def [op_defs] update_stage_def [op_defs] draw_id_def [op_defs] Let_def [op_defs]

section \<open>Unique keys and identities\<close>

definition meta_inv :: "meta_db \<Rightarrow> bool" where
  "meta_inv db \<longleftrightarrow>
     keyed dt_name dt_id (md_seq db SeqDatasets) (md_datasets db) \<and>
     keyed file_key fl_id (md_seq db SeqFiles) (md_files db) \<and>
     keyed batch_key ba_id (md_seq db SeqBatches) (md_batches db) \<and>
     keyed ir_idempotency_key ir_id (md_seq db SeqRuns) (md_runs db) \<and>
     keyed stage_key rs_id (md_seq db SeqStages) (md_stages db) \<and>
     distinct (map watermark_key (md_watermarks db))"

lemma keyed_append:
  "keyed key ident n rows \<Longrightarrow> key r \<notin> key ` set rows \<Longrightarrow> ident r = n + 1 \<Longrightarrow>
     keyed key ident (n + 1) (rows @ [r])"
  by (fastforce simp: keyed_def)

lemma insert_or_update_keyed:
  "keyed key ident n rows \<Longrightarrow> ident new = n + 1 \<Longrightarrow> (\<And>r. key (upd r) = key r) \<Longrightarrow>
   (\<And>r. ident (upd r) = ident r) \<Longrightarrow>
   keyed key ident (n + 1) (fst (insert_or_update key upd new rows))"
  using keyed_insert_or_update [of key ident n rows new upd] by (metis prod.collapse)

lemma insert_or_update_distinct:
  assumes "insert_or_update key upd new rows = (rows', r')" and "distinct (map key rows)"
    and "\<And>r. key (upd r) = key r"
  shows "distinct (map key rows')"
proof (cases "find (\<lambda>r. key r = key new) rows")
  case None
  then have "rows' = rows @ [new]" using assms(1) by (auto simp: insert_or_update_def)
  moreover have "key new \<notin> key ` set rows" using None by (auto simp: find_None_iff)
  ultimately show ?thesis using assms(2) by simp
next
  case (Some r)
  have "map key (map (\<lambda>x. if key x = key new then upd x else x) rows) = map key rows"
    using assms(3) by simp
  then show ?thesis using assms(1,2) Some by (auto simp: insert_or_update_def simp del: map_map)
qed

lemma insert_or_update_keyed2:
  "insert_or_update key upd new rows = (rows', r') \<Longrightarrow> keyed key ident n rows \<Longrightarrow> ident new = n + 1 \<Longrightarrow>
   (\<And>r. key (upd r) = key r) \<Longrightarrow> (\<And>r. ident (upd r) = ident r) \<Longrightarrow> keyed key ident (n + 1) rows'"
  using keyed_insert_or_update [of key ident n rows new upd rows' r'] by simp

text \<open>Which operations write which table.\<close>

fun writes_datasets :: "meta_op \<Rightarrow> bool" where
  "writes_datasets (OpDataset _) = True"
| "writes_datasets _ = False"

fun writes_files :: "meta_op \<Rightarrow> bool" where
  "writes_files (OpFile _) = True"
| "writes_files (OpFinalize _ _ _ _ _ _ _ _) = True"
| "writes_files _ = False"

fun writes_batches :: "meta_op \<Rightarrow> bool" where
  "writes_batches (OpBatch _ _ _) = True"
| "writes_batches (OpNewBatch _ _ _) = True"
| "writes_batches (OpFinalize _ _ _ _ _ _ _ _) = True"
| "writes_batches _ = False"

fun creates_run :: "meta_op \<Rightarrow> bool" where
  "creates_run (OpRun _) = True"
| "creates_run (OpNewRun _ _) = True"
| "creates_run _ = False"

fun writes_stages :: "meta_op \<Rightarrow> bool" where
  "writes_stages (OpClaimStage _ _ _ _ _) = True"
| "writes_stages (OpHeartbeatStage _ _ _) = True"
| "writes_stages (OpCompleteStage _ _ _ _) = True"
| "writes_stages _ = False"

fun writes_watermarks :: "meta_op \<Rightarrow> bool" where
  "writes_watermarks (OpWatermark _ _ _ _ _) = True"
| "writes_watermarks _ = False"

lemma exec_datasets_frame:
  "exec_op op db = Inr db' \<Longrightarrow> \<not> writes_datasets op \<Longrightarrow>
     md_datasets db' = md_datasets db \<and> md_seq db' SeqDatasets = md_seq db SeqDatasets"
  by (cases op) (clarsimp simp: op_defs split: if_splits prod.splits option.splits)+

lemma exec_files_frame:
  "exec_op op db = Inr db' \<Longrightarrow> \<not> writes_files op \<Longrightarrow>
     md_files db' = md_files db \<and> md_seq db' SeqFiles = md_seq db SeqFiles"
  by (cases op) (clarsimp simp: op_defs split: if_splits prod.splits option.splits)+

lemma exec_batches_frame:
  "exec_op op db = Inr db' \<Longrightarrow> \<not> writes_batches op \<Longrightarrow>
     md_batches db' = md_batches db \<and> md_seq db' SeqBatches = md_seq db SeqBatches"
  by (cases op) (clarsimp simp: op_defs split: if_splits prod.splits option.splits)+

lemma exec_stages_frame:
  "exec_op op db = Inr db' \<Longrightarrow> \<not> writes_stages op \<Longrightarrow>
     md_stages db' = md_stages db \<and> md_seq db' SeqStages = md_seq db SeqStages"
  by (cases op) (clarsimp simp: op_defs split: if_splits prod.splits option.splits)+

lemma exec_watermarks_frame:
  "exec_op op db = Inr db' \<Longrightarrow> \<not> writes_watermarks op \<Longrightarrow>
     md_watermarks db' = md_watermarks db \<and> md_history db' = md_history db"
  by (cases op) (clarsimp simp: op_defs split: if_splits prod.splits option.splits)+

fun updates_runs :: "meta_op \<Rightarrow> bool" where
  "updates_runs (OpClaim _ _ _) = True"
| "updates_runs (OpHeartbeat _ _ _ _) = True"
| "updates_runs (OpFail _ _ _) = True"
| "updates_runs (OpStatus _ _ _) = True"
| "updates_runs (OpFinalize _ _ _ _ _ _ _ _) = True"
| "updates_runs _ = False"

lemma run_effect_idle: "\<not> updates_runs op \<Longrightarrow> run_effect op = (\<lambda>r. r)"
  by (cases op) (simp_all add: fun_eq_iff)

lemma exec_runs_frame:
  "exec_op op db = Inr db' \<Longrightarrow> \<not> creates_run op \<Longrightarrow>
     md_runs db' = map (run_effect op) (md_runs db) \<and> md_seq db' SeqRuns = md_seq db SeqRuns"
  by (cases op)
    (clarsimp simp: op_defs run_effect_idle split: if_splits prod.splits option.splits)+

lemma insert_or_keep:
  "insert_or_update key (\<lambda>r. r) new rows = (rows', r') \<Longrightarrow>
     rows' = rows \<and> r' \<in> set rows \<and> key r' = key new \<or>
     rows' = rows @ [new] \<and> r' = new \<and> key new \<notin> key ` set rows"
  by (auto simp: insert_or_update_def find_None_iff split: option.splits dest: find_SomeD)

lemma exec_runs_new:
  "exec_op op db = Inr db' \<Longrightarrow> creates_run op \<Longrightarrow>
     md_runs db' = md_runs db \<or>
     (\<exists>r. md_runs db' = md_runs db @ [r] \<and> ir_id r = md_seq db SeqRuns + 1 \<and>
        ir_idempotency_key r \<notin> ir_idempotency_key ` set (md_runs db))"
  by (cases op)
    (auto simp: op_defs next_id_def new_run_def split: if_splits prod.splits dest: insert_or_keep)

text \<open>The rows already there change as \<open>run_effect\<close> says; a new one has a new key.\<close>

lemma exec_runs:
  assumes "exec_op op db = Inr db'"
  shows "\<exists>new. md_runs db' = map (run_effect op) (md_runs db) @ new \<and>
    (\<forall>r \<in> set new. ir_id r = md_seq db SeqRuns + 1 \<and>
       ir_idempotency_key r \<notin> ir_idempotency_key ` set (md_runs db))"
proof (cases "creates_run op")
  case True
  then have "run_effect op = (\<lambda>r. r)" by (cases op) (simp_all add: fun_eq_iff)
  then show ?thesis using exec_runs_new [OF assms True] by auto
qed (use exec_runs_frame [OF assms] in auto)

section \<open>The invariant of the tables\<close>

lemma datasets_step:
  assumes "exec_op op db = Inr db'" and "keyed dt_name dt_id (md_seq db SeqDatasets) (md_datasets db)"
  shows "keyed dt_name dt_id (md_seq db' SeqDatasets) (md_datasets db')"
proof (cases "writes_datasets op")
  case True
  then show ?thesis using assms
    by (cases op) (auto simp: op_defs next_id_def split: prod.splits elim!: insert_or_update_keyed2)
qed (use exec_datasets_frame [OF assms(1)] assms(2) in simp)

lemma files_step:
  assumes "exec_op op db = Inr db'" and "keyed file_key fl_id (md_seq db SeqFiles) (md_files db)"
  shows "keyed file_key fl_id (md_seq db' SeqFiles) (md_files db')"
proof (cases "writes_files op")
  case True
  then consider f where "op = OpFile f" | "\<not> writes_datasets op" "\<exists>a b c d e f g h. op = OpFinalize a b c d e f g h"
    by (cases op) simp_all
  then show ?thesis
  proof cases
    case 1
    with assms show ?thesis
      by (auto simp: op_defs next_id_def split: prod.splits if_splits
          elim!: insert_or_update_keyed2 simp: file_key_def)
  next
    case 2
    with assms show ?thesis
      by (clarsimp simp: op_defs) (rule keyed_map, simp_all add: file_key_def)
  qed
qed (use exec_files_frame [OF assms(1)] assms(2) in simp)

lemma batches_step:
  assumes "exec_op op db = Inr db'" and "keyed batch_key ba_id (md_seq db SeqBatches) (md_batches db)"
  shows "keyed batch_key ba_id (md_seq db' SeqBatches) (md_batches db')"
proof (cases "writes_batches op")
  case True
  then show ?thesis using assms
    by (cases op)
      (auto simp: op_defs next_id_def new_batch_def split: prod.splits if_splits
        elim!: insert_or_update_keyed2 intro!: keyed_map keyed_append simp: batch_key_def)
qed (use exec_batches_frame [OF assms(1)] assms(2) in simp)

lemma runs_step:
  assumes "exec_op op db = Inr db'" and "keyed ir_idempotency_key ir_id (md_seq db SeqRuns) (md_runs db)"
  shows "keyed ir_idempotency_key ir_id (md_seq db' SeqRuns) (md_runs db')"
proof (cases "creates_run op")
  case True
  then show ?thesis using assms
    by (cases op)
      (auto simp: op_defs next_id_def new_run_def split: prod.splits if_splits
        elim!: insert_or_update_keyed2 intro!: keyed_append)
qed (use exec_runs_frame [OF assms(1)] keyed_map [OF assms(2), of "run_effect op"] in simp)

lemma find_None_key: "find (\<lambda>r. key r = k) rows = None \<longleftrightarrow> k \<notin> key ` set rows"
  by (auto simp: find_None_iff)

lemma stages_step:
  assumes "exec_op op db = Inr db'" and "keyed stage_key rs_id (md_seq db SeqStages) (md_stages db)"
  shows "keyed stage_key rs_id (md_seq db' SeqStages) (md_stages db')"
proof (cases "writes_stages op")
  case True
  then show ?thesis using assms
    by (cases op)
      (clarsimp simp: op_defs next_id_def find_None_key split: option.splits if_splits;
        intro keyed_map keyed_append keyed_up conjI impI allI; simp add: stage_key_def image_iff)+
qed (use exec_stages_frame [OF assms(1)] assms(2) in simp)

lemma watermarks_step:
  assumes "exec_op op db = Inr db'" and "distinct (map watermark_key (md_watermarks db))"
  shows "distinct (map watermark_key (md_watermarks db'))"
proof (cases "writes_watermarks op")
  case True
  then obtain d k src run ids where op: "op = OpWatermark d k src run ids" by (cases op) simp_all
  show ?thesis using assms
    by (auto simp: op op_defs split: prod.splits if_splits elim!: insert_or_update_distinct)
      (simp add: watermark_key_def)
qed (use exec_watermarks_frame [OF assms(1)] assms(2) in simp)

lemma meta_inv_step: "exec_op op db = Inr db' \<Longrightarrow> meta_inv db \<Longrightarrow> meta_inv db'"
  unfolding meta_inv_def
  using datasets_step files_step batches_step runs_step stages_step watermarks_step by simp

lemma meta_inv_start: "meta_inv (empty_meta\<lparr>md_config_versions := vs\<rparr>)"
  by (simp add: meta_inv_def empty_meta_def keyed_def)

lemma meta_inv_exec_all: "meta_inv db \<Longrightarrow> meta_inv (exec_all ops db)"
proof (induction ops arbitrary: db)
  case (Cons op ops)
  have "meta_inv (exec_or_keep op db)"
    using meta_inv_step Cons.prems by (simp add: exec_or_keep_def split: sum.split)
  from Cons.IH [OF this] show ?case by (simp add: exec_all_def)
qed (simp add: exec_all_def)

text \<open>In every database the repository can reach, from an empty one, by any sequence of its
  operations, by any pods, the identities are unique and so are the natural keys: one row per dataset name,
  per file content at a location, per batch key, per idempotency key, per stage of a run and per
  watermark.\<close>

theorem reachable_keys_unique:
  assumes "meta_reach db"
  shows "meta_inv db"
  using assms by induction (simp_all add: meta_inv_start meta_inv_step)

theorem reachable_keys_unique_witness:
  "meta_inv (fst (get_or_create_dataset ''orders'' (empty_meta\<lparr>md_config_versions := [1]\<rparr>)))"
  by (rule reachable_keys_unique, rule meta_reach.step [OF meta_reach.start, of "OpDataset ''orders''"]) simp

section \<open>The lease protocol\<close>

lemma exec_keeps_row:
  assumes "r \<in> set (md_runs db)"
  shows "r \<in> set (md_runs (exec_or_keep op db)) \<or> run_effect op r \<in> set (md_runs (exec_or_keep op db))"
proof (cases "exec_op op db")
  case (Inr db')
  then show ?thesis using exec_runs [OF Inr] assms by (auto simp: exec_or_keep_def)
qed (use assms in \<open>simp add: exec_or_keep_def\<close>)

text \<open>A property of a row that every operation of a history keeps holds of the row at its end.\<close>

lemma exec_all_row:
  assumes "r \<in> set (md_runs db)" and "P r" and "\<And>op r. op \<in> set ops \<Longrightarrow> P r \<Longrightarrow> P (run_effect op r)"
  shows "\<exists>r' \<in> set (md_runs (exec_all ops db)). P r'"
  using assms
proof (induction ops arbitrary: db r)
  case (Cons op ops)
  obtain r' where r': "r' \<in> set (md_runs (exec_or_keep op db))" "P r'"
    using exec_keeps_row [OF Cons.prems(1), of op] Cons.prems(2,3) by auto
  from Cons.IH [OF r'] Cons.prems(3) show ?case by (simp add: exec_all_def)
qed (auto simp: exec_all_def)

lemma find_run_unique:
  assumes "meta_inv db" and "r \<in> set (md_runs db)"
  shows "find_run db (ir_id r) = Some r"
  using assms find_distinct [of ir_id "md_runs db" r]
  by (simp add: meta_inv_def keyed_def find_run_def)

lemma find_key_unique:
  assumes "meta_inv db" and "r \<in> set (md_runs db)"
  shows "find (\<lambda>x. ir_idempotency_key x = ir_idempotency_key r) (md_runs db) = Some r"
  using assms find_distinct [of ir_idempotency_key "md_runs db" r] by (simp add: meta_inv_def keyed_def)

lemma claim_refused:
  assumes "meta_inv db" and "r \<in> set (md_runs db)" and "\<not> claimable now r"
  shows "snd (claim_ingestion_run now (ir_idempotency_key r) a db) = None"
proof -
  have "r' = r" if "r' \<in> set (md_runs db)" "ir_idempotency_key r' = ir_idempotency_key r" for r'
    using find_key_unique [OF assms(1) that(1)] find_key_unique [OF assms(1,2)]
    unfolding that(2) by (metis option.inject)
  then show ?thesis using assms(3) by (auto simp: claim_ingestion_run_def Let_def find_None_iff)
qed

definition holds :: "int \<Rightarrow> string \<Rightarrow> string \<Rightarrow> int \<Rightarrow> run_row \<Rightarrow> bool" where
  "holds i key pod until r \<longleftrightarrow> ir_id r = i \<and> ir_idempotency_key r = key \<and> ir_status r = ''RUNNING'' \<and>
     ir_columns r ''k8s_pod_name'' = SqlText pod \<and> (\<exists>t. lease_of r = SqlTime t \<and> until \<le> t)"

text \<open>
  What the others may do while the lease runs: anything but end this run or the pod's own claim;
  a claim comes before the lease ends, and a heartbeat does not shorten it.
\<close>

fun respects_lease :: "int \<Rightarrow> string \<Rightarrow> int \<Rightarrow> meta_op \<Rightarrow> bool" where
  "respects_lease i pod until (OpClaim now key a) \<longleftrightarrow> now \<le> until"
| "respects_lease i pod until (OpHeartbeat run lease n m) \<longleftrightarrow> (run = i \<longrightarrow> until \<le> lease)"
| "respects_lease i pod until (OpFail now run p) \<longleftrightarrow> \<not> (run = i \<and> p = pod)"
| "respects_lease i pod until (OpStatus run s upd) \<longleftrightarrow> run \<noteq> i"
| "respects_lease i pod until (OpFinalize run f b n t ms uri sv) \<longleftrightarrow> run \<noteq> i"
| "respects_lease i pod until _ \<longleftrightarrow> True"

lemma holds_not_claimable: "holds i key pod until r \<Longrightarrow> now \<le> until \<Longrightarrow> \<not> claimable now r"
  by (auto simp: holds_def claimable_def lease_expired_def)

lemma holds_step:
  assumes "holds i key pod until r" and "respects_lease i pod until op"
  shows "holds i key pod until (run_effect op r)"
proof (cases op)
  case (OpClaim now k a)
  then show ?thesis using assms holds_not_claimable [OF assms(1), of now] by simp
qed (use assms in \<open>auto simp: holds_def lease_of_def owned_by_def\<close>)

lemma claim_row:
  assumes "meta_inv db" and "claim_ingestion_run now key a db = (db1, Some (i, st))"
  shows "st = ''RUNNING'' \<and> meta_inv db1 \<and>
    (\<exists>r \<in> set (md_runs db1). holds i key (ca_pod_name a) (now + lease_us) r)"
proof -
  let ?P = "\<lambda>r. ir_idempotency_key r = key \<and> claimable now r"
  obtain r where r: "find ?P (md_runs db) = Some r" "i = ir_id r" "st = ''RUNNING''"
    and db1: "db1 = update_runs ?P (claimed_row now a) db"
    using assms(2) by (auto simp: claim_ingestion_run_def Let_def)
  have step: "exec_op (OpClaim now key a) db = Inr db1" using assms(2) by simp
  have "r \<in> set (md_runs db)" "?P r" using find_SomeD [OF r(1)] by simp_all
  then have "claimed_row now a r \<in> set (md_runs db1)" by (auto simp: db1 update_runs_def image_iff)
  moreover have "holds i key (ca_pod_name a) (now + lease_us) (claimed_row now a r)"
    using \<open>?P r\<close> by (simp add: holds_def claimed_row_def claim_columns_def lease_of_def r(2))
  ultimately show ?thesis using r(3) meta_inv_step [OF step assms(1)] by blast
qed

text \<open>C5: Claims exclude each other.  After a pod's claim of a run, through any interleaving of other
  pods' operations within the five minutes of its lease (claims, heartbeats, releases of other pods'
  claims, other runs' lives, publications of other runs), the run is still RUNNING under that pod, and
  every further claim of it, by any pod, is refused.\<close>

theorem lease_excludes:
  assumes "meta_inv db" and "claim_ingestion_run now key a db = (db1, Some (i, st))"
    and "\<forall>op \<in> set ops. respects_lease i (ca_pod_name a) (now + lease_us) op"
  shows "let db2 = exec_all ops db1 in
    get_ingestion_run_status i db2 = Some ''RUNNING'' \<and>
    map_option (\<lambda>r. ir_columns r ''k8s_pod_name'') (find_run db2 i) = Some (SqlText (ca_pod_name a)) \<and>
    (\<forall>now' a'. now' \<le> now + lease_us \<longrightarrow> snd (claim_ingestion_run now' key a' db2) = None)"
proof -
  let ?h = "holds i key (ca_pod_name a) (now + lease_us)" and ?db2 = "exec_all ops db1"
  obtain r where r: "r \<in> set (md_runs db1)" "?h r" and inv: "meta_inv db1"
    using claim_row [OF assms(1,2)] by blast
  obtain r' where r': "r' \<in> set (md_runs ?db2)" "?h r'"
    using exec_all_row [where P = ?h, OF r] holds_step assms(3) by blast
  note inv2 = meta_inv_exec_all [OF inv, of ops]
  have "find_run ?db2 i = Some r'" using find_run_unique [OF inv2 r'(1)] r'(2) by (simp add: holds_def)
  moreover have "snd (claim_ingestion_run now' key a' ?db2) = None" if "now' \<le> now + lease_us" for now' a'
    using claim_refused [OF inv2 r'(1) holds_not_claimable [OF r'(2) that], of a'] r'(2)
    by (simp add: holds_def)
  ultimately show ?thesis using r'(2) by (simp add: get_ingestion_run_status_def holds_def Let_def)
qed

definition sample_claim :: "string \<Rightarrow> claim_args" where
  "sample_claim pod = \<lparr>ca_try_number = 1, ca_pod_name = pod, ca_trace_id = None, ca_span_id = None,
     ca_dag_id = None, ca_dag_run_id = None, ca_task_id = None, ca_map_index = None,
     ca_k8s_namespace = None\<rparr>"

definition sample_file :: file_row where
  "sample_file = \<lparr>fl_id = 0, fl_dataset_id = 1, fl_object_uri = ''s3://raw/a.csv'',
     fl_content_sha256 = ''aa'', fl_hash_version = 1, fl_size_bytes = 10, fl_filename = ''a.csv'',
     fl_status = ''DISCOVERED'', fl_duplicate_of = None\<rparr>"

definition sample_run :: run_spec where
  "sample_run = \<lparr>sp_idempotency_key = ''k'', sp_dataset_id = 1, sp_config_version_id = 1,
     sp_processor_version = ''1'', sp_processor_image_digest = ''d'', sp_file_id = Some 1,
     sp_batch_id = Some 1, sp_replay_of_run_id = None\<rparr>"

definition sample_meta :: meta_db where
  "sample_meta = exec_all [OpDataset ''orders'', OpFile sample_file, OpBatch 1 ''b'' ''OPEN'', OpRun sample_run]
     (empty_meta\<lparr>md_config_versions := [1]\<rparr>)"

lemma sample_meta_inv: "meta_inv sample_meta"
  unfolding sample_meta_def by (rule meta_inv_exec_all) (rule meta_inv_start)

lemma sample_meta_run: "find_run sample_meta 1 = Some (new_run sample_run ''PENDING'' 1)"
  unfolding sample_meta_def
  by (simp add: exec_all_def exec_or_keep_def op_defs insert_or_update_def empty_meta_def next_id_def
      find_run_def dataset_known_def file_known_def batch_known_def fk_ok_def run_fks_ok_def
      sample_file_def sample_run_def new_batch_def new_run_def)

theorem lease_excludes_witness:
  "let db2 = exec_all [OpClaim 20 ''k'' (sample_claim ''pod-b''), OpFail 30 1 ''pod-b'']
               (fst (claim_ingestion_run 10 ''k'' (sample_claim ''pod-a'') sample_meta)) in
   get_ingestion_run_status 1 db2 = Some ''RUNNING'' \<and>
   map_option (\<lambda>r. ir_columns r ''k8s_pod_name'') (find_run db2 1) = Some (SqlText ''pod-a'') \<and>
   (\<forall>now' a'. now' \<le> 10 + lease_us \<longrightarrow> snd (claim_ingestion_run now' ''k'' a' db2) = None)"
proof -
  have "snd (claim_ingestion_run 10 ''k'' (sample_claim ''pod-a'') sample_meta) = Some (1, ''RUNNING'')"
    by code_simp
  then have "claim_ingestion_run 10 ''k'' (sample_claim ''pod-a'') sample_meta =
      (fst (claim_ingestion_run 10 ''k'' (sample_claim ''pod-a'') sample_meta), Some (1, ''RUNNING''))"
    by (simp add: prod_eq_iff)
  from lease_excludes [OF sample_meta_inv this,
      of "[OpClaim 20 ''k'' (sample_claim ''pod-b''), OpFail 30 1 ''pod-b'']"]
  show ?thesis by (simp add: sample_claim_def lease_us_def)
qed

text \<open>The operations that leave a run's row alone once it is neither claimable nor RUNNING.\<close>

fun ends_run :: "int \<Rightarrow> meta_op \<Rightarrow> bool" where
  "ends_run i (OpStatus run s upd) \<longleftrightarrow> run = i"
| "ends_run i (OpFinalize run f b n t ms uri sv) \<longleftrightarrow> run = i"
| "ends_run i _ \<longleftrightarrow> False"

definition done_statuses :: "string list" where
  "done_statuses = [''STAGED'', ''SUCCEEDED'', ''QUARANTINED'']"

lemma done_not_claimable: "ir_status r \<in> set done_statuses \<Longrightarrow> \<not> claimable now r"
  by (auto simp: done_statuses_def claimable_def)

lemma done_effect:
  "ir_status r \<in> set done_statuses \<Longrightarrow> \<not> ends_run (ir_id r) op \<Longrightarrow> run_effect op r = r"
  using done_not_claimable [of r] by (cases op) (auto simp: owned_by_def done_statuses_def)

text \<open>Work that is done is never redone.  A run that is STAGED, SUCCEEDED or QUARANTINED keeps its
  whole row through any history of claims (at any time, lapsed leases included), heartbeats and
  releases; only an explicit status update or the publication of this very run changes it, and until
  then every claim of it is refused.\<close>

theorem done_runs_stay:
  assumes "meta_inv db" and "find_run db i = Some r" and "ir_status r \<in> set done_statuses"
    and "\<forall>op \<in> set ops. \<not> ends_run i op"
  shows "find_run (exec_all ops db) i = Some r \<and>
    (\<forall>now a. snd (claim_ingestion_run now (ir_idempotency_key r) a (exec_all ops db)) = None)"
proof -
  have r: "r \<in> set (md_runs db)" "ir_id r = i"
    using assms(2) unfolding find_run_def by (auto dest: find_SomeD)
  have "\<exists>r' \<in> set (md_runs (exec_all ops db)). r' = r"
    by (rule exec_all_row [OF r(1)]) (use assms(3,4) done_effect r(2) in auto)
  then have mem: "r \<in> set (md_runs (exec_all ops db))" by simp
  note inv = meta_inv_exec_all [OF assms(1), of ops]
  have "find_run (exec_all ops db) i = Some r" using find_run_unique [OF inv mem] r(2) by simp
  then show ?thesis using claim_refused [OF inv mem done_not_claimable [OF assms(3)]] by blast
qed

theorem done_runs_stay_witness:
  "\<exists>r. find_run (exec_all [OpClaim 99 ''k'' (sample_claim ''pod-b''), OpHeartbeat 1 0 0 0]
          (exec_all [OpClaim 10 ''k'' (sample_claim ''pod-a''), OpStatus 1 ''STAGED'' []] sample_meta)) 1 = Some r \<and>
    ir_status r = ''STAGED''"
proof -
  let ?db = "exec_all [OpClaim 10 ''k'' (sample_claim ''pod-a''), OpStatus 1 ''STAGED'' []] sample_meta"
  have "get_ingestion_run_status 1 ?db = Some ''STAGED''" by code_simp
  then obtain r where r: "find_run ?db 1 = Some r" "ir_status r = ''STAGED''"
    by (auto simp: get_ingestion_run_status_def)
  have "ir_status r \<in> set done_statuses" using r(2) by (simp add: done_statuses_def)
  from done_runs_stay [OF meta_inv_exec_all [OF sample_meta_inv] r(1) this,
      of "[OpClaim 99 ''k'' (sample_claim ''pod-b''), OpHeartbeat 1 0 0 0]"] r(2)
  show ?thesis by simp
qed

text \<open>A history that does not mention a run leaves its row alone.\<close>

fun mentions :: "int \<Rightarrow> string \<Rightarrow> meta_op \<Rightarrow> bool" where
  "mentions i key (OpClaim now k a) \<longleftrightarrow> k = key"
| "mentions i key (OpHeartbeat run lease n m) \<longleftrightarrow> run = i"
| "mentions i key (OpFail now run pod) \<longleftrightarrow> run = i"
| "mentions i key (OpStatus run s upd) \<longleftrightarrow> run = i"
| "mentions i key (OpFinalize run f b n t ms uri sv) \<longleftrightarrow> run = i"
| "mentions i key _ \<longleftrightarrow> False"

lemma not_mentioned: "\<not> mentions (ir_id r) (ir_idempotency_key r) op \<Longrightarrow> run_effect op r = r"
  by (cases op) (auto simp: owned_by_def)

lemma find_conj: "find P xs = Some r \<Longrightarrow> Q r \<Longrightarrow> find (\<lambda>x. P x \<and> Q x) xs = Some r"
  by (induction xs) (auto split: if_splits)

lemma claim_succeeds:
  assumes "meta_inv db" and "r \<in> set (md_runs db)" and "claimable now r"
  shows "snd (claim_ingestion_run now (ir_idempotency_key r) a db) = Some (ir_id r, ''RUNNING'')"
proof -
  have "find (\<lambda>x. ir_idempotency_key x = ir_idempotency_key r \<and> claimable now x) (md_runs db) = Some r"
    using find_key_unique [OF assms(1,2)] assms(3) by (rule find_conj [where Q = "claimable now"])
  then show ?thesis by (simp add: claim_ingestion_run_def Let_def)
qed

text \<open>C26: A crashed claim is recovered.  If after a pod's claim nobody mentions the run any more (its pod
  is gone, so no heartbeat comes), then, whatever happens to other runs, the next claim of it after the
  lease has ended succeeds and makes the claiming pod the holder.\<close>

theorem crashed_claim_recovered:
  assumes "meta_inv db" and "claim_ingestion_run now key a db = (db1, Some (i, st))"
    and "\<forall>op \<in> set ops. \<not> mentions i key op" and "now + lease_us < now'"
  shows "\<exists>db2. claim_ingestion_run now' key b (exec_all ops db1) = (db2, Some (i, ''RUNNING'')) \<and>
    map_option (\<lambda>r. ir_columns r ''k8s_pod_name'') (find_run db2 i) = Some (SqlText (ca_pod_name b))"
proof -
  let ?P = "\<lambda>r. ir_idempotency_key r = key \<and> claimable now r"
  obtain r0 where r0: "find ?P (md_runs db) = Some r0" "i = ir_id r0"
    and db1: "db1 = update_runs ?P (claimed_row now a) db"
    using assms(2) by (auto simp: claim_ingestion_run_def Let_def)
  have "r0 \<in> set (md_runs db)" "?P r0" using find_SomeD [OF r0(1)] by simp_all
  define r where "r = claimed_row now a r0"
  have r: "r \<in> set (md_runs db1)" "ir_id r = i" "ir_idempotency_key r = key"
    using \<open>r0 \<in> set (md_runs db)\<close> \<open>?P r0\<close> r0(2)
    by (auto simp: r_def db1 update_runs_def image_iff claimed_row_def)
  have late: "claimable now' r"
    using assms(4) by (simp add: r_def claimable_def claimed_row_def claim_columns_def lease_of_def lease_expired_def)
  have "\<exists>x \<in> set (md_runs (exec_all ops db1)). x = r"
    by (rule exec_all_row [OF r(1)]) (use assms(3) not_mentioned [of r] r(2,3) in auto)
  then have mem: "r \<in> set (md_runs (exec_all ops db1))" by simp
  have inv: "meta_inv (exec_all ops db1)"
    using claim_row [OF assms(1,2)] meta_inv_exec_all by blast
  let ?res = "claim_ingestion_run now' key b (exec_all ops db1)"
  have "snd ?res = Some (i, ''RUNNING'')" using claim_succeeds [OF inv mem late, of b] r by simp
  then have claim: "?res = (fst ?res, Some (i, ''RUNNING''))" by (simp add: prod_eq_iff)
  obtain x where x: "meta_inv (fst ?res)" "x \<in> set (md_runs (fst ?res))"
      "holds i key (ca_pod_name b) (now' + lease_us) x"
    using claim_row [OF inv claim] by blast
  have "find_run (fst ?res) i = Some x" using find_run_unique [OF x(1,2)] x(3) by (simp add: holds_def)
  then show ?thesis using claim x(3) by (intro exI [of _ "fst ?res"]) (simp add: holds_def)
qed

theorem crashed_claim_recovered_witness:
  "\<exists>db2. claim_ingestion_run (11 + lease_us) ''k'' (sample_claim ''pod-b'')
       (exec_all [OpDataset ''customers''] (fst (claim_ingestion_run 10 ''k'' (sample_claim ''pod-a'') sample_meta))) =
       (db2, Some (1, ''RUNNING'')) \<and>
     map_option (\<lambda>r. ir_columns r ''k8s_pod_name'') (find_run db2 1) = Some (SqlText ''pod-b'')"
proof -
  have "snd (claim_ingestion_run 10 ''k'' (sample_claim ''pod-a'') sample_meta) = Some (1, ''RUNNING'')"
    by code_simp
  then have "claim_ingestion_run 10 ''k'' (sample_claim ''pod-a'') sample_meta =
      (fst (claim_ingestion_run 10 ''k'' (sample_claim ''pod-a'') sample_meta), Some (1, ''RUNNING''))"
    by (simp add: prod_eq_iff)
  from crashed_claim_recovered [OF sample_meta_inv this, of "[OpDataset ''customers'']" "11 + lease_us" "sample_claim ''pod-b''"]
  show ?thesis by (simp add: sample_claim_def)
qed

section \<open>Stable identities\<close>

text \<open>The rows of a table survive an operation, up to the columns that are neither key nor identity.\<close>

definition survive :: "('r \<Rightarrow> 'k) \<Rightarrow> ('r \<Rightarrow> int) \<Rightarrow> 'r list \<Rightarrow> 'r list \<Rightarrow> bool" where
  "survive key ident rows rows' \<longleftrightarrow> (\<forall>r \<in> set rows. \<exists>r' \<in> set rows'. key r' = key r \<and> ident r' = ident r)"

lemma survive_refl [simp]: "survive key ident rows rows"
  by (auto simp: survive_def)

lemma survive_append [simp]: "survive key ident rows (rows @ new)"
  by (auto simp: survive_def)

lemma survive_map: "(\<And>r. key (f r) = key r) \<Longrightarrow> (\<And>r. ident (f r) = ident r) \<Longrightarrow> survive key ident rows (map f rows)"
  by (auto simp: survive_def)

lemma survive_insert_or_update:
  assumes "insert_or_update key upd new rows = (rows', r')"
    and "\<And>r. key (upd r) = key r" and "\<And>r. ident (upd r) = ident r"
  shows "survive key ident rows rows'"
proof (cases "find (\<lambda>r. key r = key new) rows")
  case None
  then show ?thesis using assms(1) by (auto simp: insert_or_update_def)
next
  case (Some r)
  then have "rows' = map (\<lambda>x. if key x = key new then upd x else x) rows"
    using assms(1) by (auto simp: insert_or_update_def)
  then show ?thesis using survive_map [of key "\<lambda>x. if key x = key new then upd x else x" ident rows] assms(2,3)
    by simp
qed

lemma survive_ident_of:
  assumes "survive key ident rows rows'" and "keyed key ident n rows'" and "ident_of key ident rows k = Some i"
  shows "ident_of key ident rows' k = Some i"
proof -
  obtain r where "r \<in> set rows" "key r = k" "ident r = i"
    using assms(3) unfolding ident_of_def by (auto dest: find_SomeD)
  then obtain r' where r': "r' \<in> set rows'" "key r' = k" "ident r' = i" using assms(1) by (auto simp: survive_def)
  then have "find (\<lambda>r. key r = k) rows' = Some r'"
    using assms(2) find_distinct [of key rows' r'] by (simp add: keyed_def)
  then show ?thesis using r'(3) by (simp add: ident_of_def)
qed

lemma datasets_survive:
  assumes "exec_op op db = Inr db'"
  shows "survive dt_name dt_id (md_datasets db) (md_datasets db')"
proof (cases "writes_datasets op")
  case True
  then show ?thesis using assms
    by (cases op) (auto simp: op_defs split: prod.splits elim!: survive_insert_or_update)
qed (use exec_datasets_frame [OF assms] in simp)

lemma files_survive:
  assumes "exec_op op db = Inr db'"
  shows "survive file_key fl_id (md_files db) (md_files db')"
proof (cases "writes_files op")
  case True
  then show ?thesis using assms
    by (cases op)
      (auto simp: op_defs split: prod.splits if_splits elim!: survive_insert_or_update intro!: survive_map
        simp: file_key_def)
qed (use exec_files_frame [OF assms] in simp)

lemma batches_survive:
  assumes "exec_op op db = Inr db'"
  shows "survive batch_key ba_id (md_batches db) (md_batches db')"
proof (cases "writes_batches op")
  case True
  then show ?thesis using assms
    by (cases op)
      (auto simp: op_defs split: prod.splits if_splits elim!: survive_insert_or_update intro!: survive_map
        simp: batch_key_def)
qed (use exec_batches_frame [OF assms] in simp)

lemma runs_survive:
  assumes "exec_op op db = Inr db'"
  shows "survive ir_idempotency_key ir_id (md_runs db) (md_runs db')"
  using exec_runs [OF assms] by (auto simp: survive_def intro!: bexI [of _ "run_effect op _"])

text \<open>
  The contract of the \<open>get_or_create\<close> methods: what they return is from then on the identity of the
  key, and identities are never shared.
\<close>

locale get_or_create =
  fixes get :: "'a \<Rightarrow> meta_db \<Rightarrow> exn + meta_db \<times> int"
    and key :: "'a \<Rightarrow> 'k"
    and lookup :: "meta_db \<Rightarrow> 'k \<Rightarrow> int option"
  assumes returned: "meta_inv db \<Longrightarrow> get a db = Inr (db', i) \<Longrightarrow> meta_inv db' \<and> lookup db' (key a) = Some i"
    and stable: "meta_inv db \<Longrightarrow> exec_op op db = Inr db' \<Longrightarrow> lookup db k = Some i \<Longrightarrow> lookup db' k = Some i"
    and kept: "meta_inv db \<Longrightarrow> get a db = Inr (db', i) \<Longrightarrow> lookup db k = Some j \<Longrightarrow> lookup db' k = Some j"
    and injective: "meta_inv db \<Longrightarrow> lookup db k = Some i \<Longrightarrow> lookup db k' = Some i \<Longrightarrow> k = k'"
begin

lemma stable_all:
  "meta_inv db \<Longrightarrow> lookup db k = Some i \<Longrightarrow> lookup (exec_all ops db) k = Some i"
proof (induction ops arbitrary: db)
  case (Cons op ops)
  have "meta_inv (exec_or_keep op db) \<and> lookup (exec_or_keep op db) k = Some i"
    using Cons.prems meta_inv_step stable by (cases "exec_op op db") (simp_all add: exec_or_keep_def)
  then show ?case using Cons.IH by (simp add: exec_all_def)
qed (simp add: exec_all_def)

lemma same_identity:
  assumes "meta_inv db" and "get a db = Inr (db1, i)" and "get b (exec_all ops db1) = Inr (db2, j)"
  shows "i = j \<longleftrightarrow> key a = key b"
proof -
  have inv1: "meta_inv db1" and i: "lookup db1 (key a) = Some i" using returned [OF assms(1,2)] by simp_all
  have inv: "meta_inv (exec_all ops db1)" by (rule meta_inv_exec_all [OF inv1])
  have inv2: "meta_inv db2" and j: "lookup db2 (key b) = Some j" using returned [OF inv assms(3)] by simp_all
  have "lookup db2 (key a) = Some i" using kept [OF inv assms(3) stable_all [OF inv1 i]] .
  then show ?thesis using j injective [OF inv2] by auto
qed

end

text \<open>A \<open>get_or_create\<close> that is one operation of the history meets it when its table is keyed.\<close>

lemma get_or_create_contract:
  assumes op: "\<And>a db db' i. get a db = Inr (db', i) \<Longrightarrow> exec_op (as_op a) db = Inr db'"
    and found: "\<And>a db db' i. meta_inv db \<Longrightarrow> get a db = Inr (db', i) \<Longrightarrow>
      ident_of key ident (rows db') (row_key a) = Some i"
    and keyed_rows: "\<And>db. meta_inv db \<Longrightarrow> keyed key ident (md_seq db s) (rows db)"
    and kept_rows: "\<And>op db db'. exec_op op db = Inr db' \<Longrightarrow> survive key ident (rows db) (rows db')"
  shows "get_or_create get row_key (\<lambda>db. ident_of key ident (rows db))"
proof
  fix a db db' i k
  assume inv: "meta_inv db"
  have stable: "ident_of key ident (rows db') k = Some i"
    if "exec_op op db = Inr db'" "ident_of key ident (rows db) k = Some i" for op k i db'
    using survive_ident_of [OF kept_rows [OF that(1)] keyed_rows [OF meta_inv_step [OF that(1) inv]] that(2)] .
  show "exec_op op db = Inr db' \<Longrightarrow> ident_of key ident (rows db) k = Some i \<Longrightarrow>
    ident_of key ident (rows db') k = Some i" for op by (rule stable)
  show "get a db = Inr (db', i) \<Longrightarrow> ident_of key ident (rows db) k = Some j \<Longrightarrow>
    ident_of key ident (rows db') k = Some j" for j by (drule op) (rule stable)
  show "get a db = Inr (db', i) \<Longrightarrow> meta_inv db' \<and> ident_of key ident (rows db') (row_key a) = Some i"
    using op found [OF inv] meta_inv_step [OF _ inv] by blast
  show "ident_of key ident (rows db) k = Some i \<Longrightarrow> ident_of key ident (rows db) k' = Some i \<Longrightarrow> k = k'" for k'
    by (rule ident_of_inj [OF keyed_rows [OF inv]])
qed

interpretation dataset_identity: get_or_create "\<lambda>name db. Inr (get_or_create_dataset name db)" "\<lambda>n. n"
    "\<lambda>db. ident_of dt_name dt_id (md_datasets db)"
  by (rule get_or_create_contract [where as_op = OpDataset and s = SeqDatasets])
    (auto simp: meta_inv_def datasets_survive get_or_create_dataset_def next_id_def split: prod.splits
      dest: keyed_insert_or_update [where upd = "\<lambda>r. r", rotated 4])

interpretation file_identity: get_or_create create_file file_key "\<lambda>db. ident_of file_key fl_id (md_files db)"
  by (rule get_or_create_contract [where as_op = OpFile and s = SeqFiles])
    (auto simp: meta_inv_def files_survive create_file_def next_id_def file_key_def Let_def split: prod.splits if_splits
      dest: keyed_insert_or_update [rotated 4])

interpretation batch_identity: get_or_create "\<lambda>(d, k, s). get_or_create_batch d k s" "\<lambda>(d, k, s). (d, k)"
    "\<lambda>db. ident_of batch_key ba_id (md_batches db)"
  by (rule get_or_create_contract [where as_op = "\<lambda>(d, k, s). OpBatch d k s" and s = SeqBatches])
    (auto simp: meta_inv_def batches_survive get_or_create_batch_def new_batch_def batch_key_def next_id_def Let_def
      split: prod.splits if_splits dest: keyed_insert_or_update [where upd = "\<lambda>r. r", rotated 4])

interpretation run_identity: get_or_create
    "\<lambda>sp db. map_sum id (\<lambda>(db', i, st). (db', i)) (get_or_create_ingestion_run sp db)"
    sp_idempotency_key "\<lambda>db. ident_of ir_idempotency_key ir_id (md_runs db)"
  by (rule get_or_create_contract [where as_op = OpRun and s = SeqRuns])
    (auto simp: meta_inv_def runs_survive get_or_create_ingestion_run_def new_run_def next_id_def Let_def
      split: prod.splits if_splits dest: keyed_insert_or_update [where upd = "\<lambda>r. r", rotated 4])

text \<open>C31: An idempotency key names one run for ever: two requests for a run, with any history of the
  repository between them, return the same run exactly when their idempotency keys are equal.\<close>

theorem same_key_same_run:
  assumes "meta_inv db" and "get_or_create_ingestion_run a db = Inr (db1, i, s)"
    and "get_or_create_ingestion_run b (exec_all ops db1) = Inr (db2, j, t)"
  shows "i = j \<longleftrightarrow> sp_idempotency_key a = sp_idempotency_key b"
  using run_identity.same_identity [OF assms(1), of a db1 i b ops db2 j] assms(2,3) by simp

theorem same_key_same_run_witness:
  "\<exists>db1 i s db2 j t. get_or_create_ingestion_run sample_run sample_meta = Inr (db1, i, s) \<and>
     get_or_create_ingestion_run sample_run
       (exec_all [OpClaim 10 ''k'' (sample_claim ''pod-a''), OpStatus 1 ''STAGED'' []] db1) = Inr (db2, j, t) \<and> i = j"
proof -
  have "(case get_or_create_ingestion_run sample_run sample_meta of Inl _ \<Rightarrow> False | Inr (db1, _) \<Rightarrow>
     (case get_or_create_ingestion_run sample_run
       (exec_all [OpClaim 10 ''k'' (sample_claim ''pod-a''), OpStatus 1 ''STAGED'' []] db1) of Inl _ \<Rightarrow> False | Inr _ \<Rightarrow> True))"
    by code_simp
  then obtain db1 i s db2 j t where
    a: "get_or_create_ingestion_run sample_run sample_meta = Inr (db1, i, s)" and
    b: "get_or_create_ingestion_run sample_run
       (exec_all [OpClaim 10 ''k'' (sample_claim ''pod-a''), OpStatus 1 ''STAGED'' []] db1) = Inr (db2, j, t)"
    by (auto split: sum.splits prod.splits)
  from same_key_same_run [OF sample_meta_inv a b] a b show ?thesis by blast
qed

section \<open>Watermarks\<close>

definition option_le :: "int option \<Rightarrow> int option \<Rightarrow> bool" where
  "option_le a b \<longleftrightarrow> (case a of None \<Rightarrow> True | Some x \<Rightarrow> (case b of None \<Rightarrow> False | Some y \<Rightarrow> x \<le> y))"

lemma greatest_ge: "option_le a (greatest a b)" "option_le b (greatest a b)"
  by (auto simp: option_le_def greatest_def split: option.splits)

lemma option_le_trans [trans]: "option_le a b \<Longrightarrow> option_le b c \<Longrightarrow> option_le a c"
  by (auto simp: option_le_def split: option.splits)

lemma sql_max_ge: "v \<in> set vs \<Longrightarrow> option_le v (sql_max vs)"
  by (induction vs) (auto simp: sql_max_def intro: greatest_ge option_le_trans)

definition history_of :: "int \<Rightarrow> string \<Rightarrow> meta_db \<Rightarrow> history_row list" where
  "history_of d k db = filter (\<lambda>h. hs_dataset_id h = d \<and> hs_target_key h = k) (md_history db)"

text \<open>Each entry starts where the one before it ended and never goes back.\<close>

fun linked :: "int option \<Rightarrow> history_row list \<Rightarrow> int option \<Rightarrow> bool" where
  "linked v [] w \<longleftrightarrow> v = w"
| "linked v (h # hs) w \<longleftrightarrow> hs_old_value h = v \<and> option_le v (hs_new_value h) \<and> linked (hs_new_value h) hs w"

lemma linked_append: "linked v (hs @ [h]) w \<longleftrightarrow>
    (\<exists>u. linked v hs u \<and> hs_old_value h = u \<and> option_le u (hs_new_value h) \<and> hs_new_value h = w)"
  by (induction hs arbitrary: v) auto

lemma watermark_lookup: "get_current_watermark d k db =
    (case find (\<lambda>w. watermark_key w = (d, k)) (md_watermarks db) of None \<Rightarrow> None | Some w \<Rightarrow> wm_cursor w)"
  by (simp add: get_current_watermark_def)

lemma record_watermark_effect:
  assumes "record_watermark d k src run ids db = Inr db'"
  defines "seen \<equiv> sql_max (map snd (filter (\<lambda>(r, v). r \<in> set ids) src))"
  shows "get_current_watermark d' k' db' =
      (if (d', k') = (d, k) then greatest (get_current_watermark d k db) seen else get_current_watermark d' k' db)"
    and "md_history db' = md_history db @ [\<lparr>hs_dataset_id = d, hs_target_key = k,
      hs_old_value = get_current_watermark d k db,
      hs_new_value = greatest (get_current_watermark d k db) seen, hs_run_id = run\<rparr>]"
proof -
  define up where "up = (\<lambda>w. w\<lparr>wm_cursor := greatest (wm_cursor w) seen\<rparr> :: watermark_row)"
  define fresh where "fresh = \<lparr>wm_dataset_id = d, wm_target_key = k, wm_cursor = seen\<rparr>"
  have key: "watermark_key (up w) = watermark_key w" "watermark_key fresh = (d, k)" "wm_cursor fresh = seen" for w
    by (simp_all add: up_def fresh_def watermark_key_def)
  obtain rows w where ins: "insert_or_update watermark_key up fresh (md_watermarks db) = (rows, w)" by fastforce
  have db': "md_watermarks db' = rows \<and> md_history db' = md_history db @ [\<lparr>hs_dataset_id = d,
      hs_target_key = k, hs_old_value = get_current_watermark d k db, hs_new_value = wm_cursor w, hs_run_id = run\<rparr>]"
    using assms(1) ins unfolding record_watermark_def Let_def seen_def [symmetric] up_def [symmetric] fresh_def [symmetric]
    by (auto split: if_splits)
  have "wm_cursor w = greatest (get_current_watermark d k db) seen \<and>
    (case find (\<lambda>w. watermark_key w = (d', k')) rows of None \<Rightarrow> None | Some w \<Rightarrow> wm_cursor w) =
      (if (d', k') = (d, k) then greatest (get_current_watermark d k db) seen else get_current_watermark d' k' db)"
  proof (cases "find (\<lambda>w. watermark_key w = (d, k)) (md_watermarks db)")
    case None
    then have "rows = md_watermarks db @ [fresh]" "w = fresh"
      using ins by (auto simp: insert_or_update_def key)
    then show ?thesis using None
      by (auto simp: watermark_lookup find_append key greatest_def split: option.splits)
  next
    case (Some x)
    let ?f = "\<lambda>x. if watermark_key x = (d, k) then up x else x"
    have "rows = map ?f (md_watermarks db)" "w = up x"
      using ins Some by (auto simp: insert_or_update_def key)
    moreover have "find (\<lambda>w. watermark_key w = (d', k')) (map ?f (md_watermarks db)) =
        map_option ?f (find (\<lambda>w. watermark_key w = (d', k')) (md_watermarks db))"
      by (rule find_map_same) (simp add: key)
    ultimately show ?thesis using Some
      by (auto simp: watermark_lookup up_def split: option.splits dest: find_SomeD)
  qed
  then show "get_current_watermark d' k' db' =
      (if (d', k') = (d, k) then greatest (get_current_watermark d k db) seen else get_current_watermark d' k' db)"
    and "md_history db' = md_history db @ [\<lparr>hs_dataset_id = d, hs_target_key = k,
      hs_old_value = get_current_watermark d k db,
      hs_new_value = greatest (get_current_watermark d k db) seen, hs_run_id = run\<rparr>]"
    using db' by (simp_all add: watermark_lookup [of d' k' db'])
qed

lemma watermark_step:
  assumes "exec_op op db = Inr db'" and "linked None (history_of d k db) (get_current_watermark d k db)"
  shows "linked None (history_of d k db') (get_current_watermark d k db')"
proof (cases "writes_watermarks op")
  case True
  then obtain d1 k1 src run ids where "op = OpWatermark d1 k1 src run ids" by (cases op) simp_all
  then have "record_watermark d1 k1 src run ids db = Inr db'" using assms(1) by simp
  note effect = record_watermark_effect [OF this]
  show ?thesis using effect(1) [of d k] effect(2) assms(2)
    by (auto simp: history_of_def linked_append greatest_ge)
next
  case False
  then show ?thesis using exec_watermarks_frame [OF assms(1) False] assms(2)
    by (simp add: history_of_def get_current_watermark_def)
qed

text \<open>The watermark never goes back, and its history tells how it moved: in every reachable database
  the entries of a watermark form a chain from nothing to its current value, each starting where the one
  before it ended and none decreasing, late or empty passes included.\<close>

theorem watermark_history_linked:
  assumes "meta_reach db"
  shows "linked None (history_of d k db) (get_current_watermark d k db)"
  using assms
  by induction (simp add: history_of_def get_current_watermark_def empty_meta_def, rule watermark_step)

theorem watermark_history_linked_witness:
  "\<exists>db. record_watermark 1 ''default'' [(1, Some 5), (2, Some 9), (1, None)] 1 [1] sample_meta = Inr db \<and>
     linked None (history_of 1 ''default'' db) (get_current_watermark 1 ''default'' db)"
proof -
  have "case record_watermark 1 ''default'' [(1, Some 5), (2, Some 9), (1, None)] 1 [1] sample_meta of
    Inl _ \<Rightarrow> False | Inr _ \<Rightarrow> True" by code_simp
  then obtain db where run: "record_watermark 1 ''default'' [(1, Some 5), (2, Some 9), (1, None)] 1 [1] sample_meta = Inr db"
    by (auto split: sum.splits)
  have reach_all: "meta_reach (exec_all ops d)" if "meta_reach d" for ops d
    using that
  proof (induction ops arbitrary: d)
    case (Cons op ops)
    have "meta_reach (exec_or_keep op d)"
      using Cons.prems by (cases "exec_op op d") (auto simp: exec_or_keep_def intro: meta_reach.step)
    from Cons.IH [OF this] show ?case by (simp add: exec_all_def)
  qed (simp add: exec_all_def)
  have "meta_reach sample_meta" unfolding sample_meta_def by (rule reach_all) (rule meta_reach.start)
  moreover have "exec_op (OpWatermark 1 ''default'' [(1, Some 5), (2, Some 9), (1, None)] 1 [1]) sample_meta = Inr db"
    using run by simp
  ultimately have "meta_reach db" by (rule meta_reach.step)
  from watermark_history_linked [OF this] run show ?thesis by blast
qed

section \<open>Reconciliation\<close>

definition moderate :: "int \<Rightarrow> bool" where
  "moderate n \<longleftrightarrow> 0 \<le> n \<and> n < 2 ^ 61"

text \<open>A reconciliation row tells the truth or is refused.  When it is recorded, its discrepancy is the
  exact number of input rows that are neither output, rejected nor deduplicated, its control discrepancy
  the exact distance from the manifest's count, with no wrap-around; counts below \<open>2 ^ 61\<close> of known
  datasets and files are always recorded; and the row is appended, nothing else changes.\<close>

theorem reconciliation_exact:
  assumes "dataset_known db (rn_dataset_id s)" and "fk_ok (file_known db) (rn_file_id s)"
  shows "(case record_reconciliation s db of
      Inl e \<Rightarrow> e = Exn DatabaseError [] \<and>
        \<not> (list_all moderate [rn_input_count s, rn_output_count s, rn_rejected_count s, rn_dedup_count s] \<and>
           opt_all moderate (rn_expected_row_count s))
    | Inr (db', i) \<Rightarrow>
        (\<exists>row. db' = (draw_id SeqReconciliations db)\<lparr>md_reconciliations := md_reconciliations db @ [row]\<rparr> \<and>
           rl_id row = i \<and>
           rl_input_count row = rl_output_count row + rl_rejected_count row + rl_dedup_count row + rl_discrepancy row \<and>
           (rl_output_count row, rl_rejected_count row, rl_dedup_count row) =
             (rn_output_count s, rn_rejected_count s, rn_dedup_count s) \<and>
           rl_input_count row = rn_input_count s \<and>
           rl_control_total_discrepancy row = map_option (\<lambda>e. e - rn_output_count s) (rn_expected_row_count s) \<and>
           bigint (rl_discrepancy row)))"
proof (cases "list_all bigint [rn_input_count s, rn_output_count s, rn_rejected_count s, rn_dedup_count s,
      rn_output_count s + rn_rejected_count s, rn_output_count s + rn_rejected_count s + rn_dedup_count s,
      rn_input_count s - (rn_output_count s + rn_rejected_count s + rn_dedup_count s)] \<and>
    opt_all bigint (rn_expected_row_count s) \<and>
    opt_all bigint (map_option (\<lambda>e. e - rn_output_count s) (rn_expected_row_count s))")
  case True
  then show ?thesis using assms
    by (simp add: record_reconciliation_def Let_def) (rule exI, rule conjI, rule refl, simp)
next
  case False
  then have "record_reconciliation s db = Inl (Exn DatabaseError [])"
    by (auto simp: record_reconciliation_def Let_def)
  moreover have "\<not> (list_all moderate [rn_input_count s, rn_output_count s, rn_rejected_count s, rn_dedup_count s] \<and>
           opt_all moderate (rn_expected_row_count s))"
    using False by (cases "rn_expected_row_count s") (auto simp: moderate_def bigint_def)
  ultimately show ?thesis by simp
qed

definition sample_spec :: reconciliation_spec where
  "sample_spec = \<lparr>rn_dataset_id = 1, rn_file_id = Some 1, rn_hop = ''raw_bronze'', rn_input_count = 10,
     rn_output_count = 7, rn_rejected_count = 2, rn_dedup_count = 0, rn_expected_row_count = Some 10,
     rn_measures = no_columns\<rparr>"

theorem reconciliation_exact_witness:
  "\<exists>db' i. record_reconciliation sample_spec sample_meta = Inr (db', i)"
proof -
  have "dataset_known sample_meta (rn_dataset_id sample_spec)" "fk_ok (file_known sample_meta) (rn_file_id sample_spec)"
    by code_simp+
  from reconciliation_exact [OF this] show ?thesis
    by (cases "record_reconciliation sample_spec sample_meta")
      (auto simp: sample_spec_def moderate_def)
qed

end
