(* ===== verification/Await.thy ===== *)
theory Await
  imports MetaHistory
begin

text \<open>
  How a pod obtains a run (\<open>pipeline/run.py\<close>: \<open>_skipped_receipt\<close>, \<open>_await_concurrent_claim\<close>,
  \<open>_claim_or_await\<close>).  While it waits, other pods write the database, so the wait loop sees a stream of
  polls: at each turn the database when the status is read, the database a receipt is built from, the
  database and the time of the claim, and the monotonic clock after it (microseconds).  The loop has no
  bound of its own; that it returns is a theorem about the clock.
\<close>

section \<open>Receipts\<close>

record receipt =
  rp_run_id :: int
  rp_status :: string
  rp_rows_read :: int
  rp_rows_loaded :: int
  rp_rows_invalid :: int
  rp_rows_deduplicated :: int
  rp_duration_ms :: int
  rp_rows_quarantined :: int
  rp_report_uri :: "string option"

record run_context =
  cx_run_id :: int
  cx_idempotency_key :: string
  cx_claim :: claim_args
  cx_file_id :: "int option"
  cx_batch_id :: "int option"
  cx_batch_expected_row_count :: "int option"

definition status_val :: "string option \<Rightarrow> pyval" where
  "status_val s = (case s of None \<Rightarrow> VNone | Some t \<Rightarrow> VStr t)"

definition skipped_receipt :: "run_context \<Rightarrow> meta_db \<Rightarrow> exn + receipt" where
  "skipped_receipt cx db =
     (let status = get_ingestion_run_status (cx_run_id cx) db;
          receipt = (\<lambda>s. \<lparr>rp_run_id = cx_run_id cx, rp_status = s, rp_rows_read = 0, rp_rows_loaded = 0,
             rp_rows_invalid = 0, rp_rows_deduplicated = 0, rp_duration_ms = 0, rp_rows_quarantined = 0,
             rp_report_uri = None\<rparr>)
      in if status \<in> {Some ''SUCCEEDED'', Some ''STAGED''} then Inr (receipt ''SKIPPED_DUPLICATE'')
         else if status = Some ''RUNNING'' then Inr (receipt ''SKIPPED_CONCURRENT'')
         else Inl (dp_error DataPlatformError
           [(''idempotency_key'', VStr (cx_idempotency_key cx)), (''run_id'', VInt (cx_run_id cx)),
            (''status'', status_val status)]))"

section \<open>The wait loop\<close>

record poll =
  pl_status_db :: meta_db
  pl_receipt_db :: meta_db
  pl_claim_now :: int
  pl_claim_db :: meta_db
  pl_clock :: int

datatype claim_outcome = Claimed meta_db int | Skipped receipt

definition poll_us :: int where
  "poll_us = 2 * 1000000"

partial_function (option) await_concurrent_claim :: "run_context \<Rightarrow> int \<Rightarrow> int \<Rightarrow> (nat \<Rightarrow> poll) \<Rightarrow> nat \<Rightarrow>
    (exn + claim_outcome) option" where
  "await_concurrent_claim cx wait deadline polls k =
     (let p = polls k; status = get_ingestion_run_status (cx_run_id cx) (pl_status_db p) in
      if status \<in> {Some ''SUCCEEDED'', Some ''STAGED''}
      then Some (map_sum id Skipped (skipped_receipt cx (pl_receipt_db p)))
      else
        (case claim_ingestion_run (pl_claim_now p) (cx_idempotency_key cx) (cx_claim cx) (pl_claim_db p) of
           (db', Some (run_id, st)) \<Rightarrow> Some (Inr (Claimed db' run_id))
         | (db', None) \<Rightarrow>
             if deadline - pl_clock p \<le> 0
             then Some (Inl (dp_error DataPlatformError
               [(''run_id'', VInt (cx_run_id cx)), (''idempotency_key'', VStr (cx_idempotency_key cx)),
                (''wait_seconds'', VFloat (of_int wait / 1000000)), (''last_observed_status'', status_val status)]))
             else await_concurrent_claim cx wait deadline polls (Suc k)))"

text \<open>
  \<open>start\<close> is the clock when the loop is entered; the first claim is made at \<open>now\<close> on \<open>db\<close>.
\<close>

definition claim_or_await :: "run_context \<Rightarrow> int \<Rightarrow> meta_db \<Rightarrow> int \<Rightarrow> int \<Rightarrow> (nat \<Rightarrow> poll) \<Rightarrow>
    (exn + claim_outcome) option" where
  "claim_or_await cx now db start wait polls =
     (case claim_ingestion_run now (cx_idempotency_key cx) (cx_claim cx) db of
        (db', Some (run_id, st)) \<Rightarrow> Some (Inr (Claimed db' run_id))
      | (db', None) \<Rightarrow> await_concurrent_claim cx wait (start + wait) polls 0)"

section \<open>The loop ends, and honestly\<close>

text \<open>\<open>time.sleep(d)\<close> takes at least \<open>d\<close> on the monotonic clock.\<close>

definition sleeps :: "int \<Rightarrow> (nat \<Rightarrow> poll) \<Rightarrow> bool" where
  "sleeps deadline polls \<longleftrightarrow> (\<forall>k. 0 < deadline - pl_clock (polls k) \<longrightarrow>
     pl_clock (polls k) + min poll_us (deadline - pl_clock (polls k)) \<le> pl_clock (polls (Suc k)))"

definition seen_done :: "run_context \<Rightarrow> poll \<Rightarrow> bool" where
  "seen_done cx p \<longleftrightarrow>
     get_ingestion_run_status (cx_run_id cx) (pl_status_db p) \<in> {Some ''SUCCEEDED'', Some ''STAGED''}"

definition poll_claim :: "run_context \<Rightarrow> poll \<Rightarrow> meta_db \<times> (int \<times> string) option" where
  "poll_claim cx p =
     claim_ingestion_run (pl_claim_now p) (cx_idempotency_key cx) (cx_claim cx) (pl_claim_db p)"

definition refused :: "run_context \<Rightarrow> poll \<Rightarrow> bool" where
  "refused cx p \<longleftrightarrow> \<not> seen_done cx p \<and> snd (poll_claim cx p) = None"

text \<open>What the loop returns when it stops at poll \<open>p\<close>.\<close>

definition stops_with :: "run_context \<Rightarrow> int \<Rightarrow> poll \<Rightarrow> exn + claim_outcome \<Rightarrow> bool" where
  "stops_with cx deadline p r \<longleftrightarrow>
     (if seen_done cx p then r = map_sum id Skipped (skipped_receipt cx (pl_receipt_db p))
      else case poll_claim cx p of
        (db', Some (i, st)) \<Rightarrow> r = Inr (Claimed db' i)
      | (db', None) \<Rightarrow> deadline \<le> pl_clock p \<and> (\<exists>ctx. r = Inl (Exn DataPlatformError ctx)))"

lemma await_unfold:
  assumes "\<not> (refused cx (polls k) \<and> pl_clock (polls k) < deadline)"
  shows "\<exists>r. await_concurrent_claim cx wait deadline polls k = Some r \<and> stops_with cx deadline (polls k) r"
proof (cases "seen_done cx (polls k)")
  case True
  then show ?thesis
    by (subst await_concurrent_claim.simps) (simp add: seen_done_def stops_with_def Let_def)
next
  case False
  then have status: "get_ingestion_run_status (cx_run_id cx) (pl_status_db (polls k)) \<notin> {Some ''SUCCEEDED'', Some ''STAGED''}"
    by (simp add: seen_done_def)
  obtain db' c where c: "poll_claim cx (polls k) = (db', c)" by fastforce
  show ?thesis
  proof (cases c)
    case None
    then have "deadline \<le> pl_clock (polls k)" using assms False c by (simp add: refused_def)
    then show ?thesis using False status c None
      by (subst await_concurrent_claim.simps)
        (simp add: poll_claim_def stops_with_def Let_def dp_error_def reserved_context_keys_def)
  next
    case (Some x)
    then show ?thesis using False status c
      by (subst await_concurrent_claim.simps) (cases x, simp add: poll_claim_def stops_with_def Let_def)
  qed
qed

lemma await_continue:
  assumes "refused cx (polls k)" and "pl_clock (polls k) < deadline"
  shows "await_concurrent_claim cx wait deadline polls k = await_concurrent_claim cx wait deadline polls (Suc k)"
proof -
  obtain db' where "claim_ingestion_run (pl_claim_now (polls k)) (cx_idempotency_key cx) (cx_claim cx)
      (pl_claim_db (polls k)) = (db', None)"
    using assms(1) by (auto simp: refused_def poll_claim_def prod_eq_iff)
  moreover have "get_ingestion_run_status (cx_run_id cx) (pl_status_db (polls k)) \<notin> {Some ''SUCCEEDED'', Some ''STAGED''}"
    using assms(1) by (simp add: refused_def seen_done_def)
  ultimately show ?thesis using assms(2) by (subst await_concurrent_claim.simps) (simp add: Let_def)
qed

lemma await_stops:
  assumes "sleeps deadline polls" and "deadline - pl_clock (polls k) \<le> int n * poll_us"
  shows "\<exists>m r. k \<le> m \<and> m \<le> k + n \<and> await_concurrent_claim cx wait deadline polls k = Some r \<and>
    stops_with cx deadline (polls m) r \<and> (\<forall>j. k \<le> j \<and> j < m \<longrightarrow> refused cx (polls j))"
  using assms(2)
proof (induction n arbitrary: k)
  case 0
  then show ?case using await_unfold [of cx polls k deadline wait] by (intro exI [of _ k]) auto
next
  case (Suc n)
  show ?case
  proof (cases "refused cx (polls k) \<and> pl_clock (polls k) < deadline")
    case True
    then have "pl_clock (polls k) + min poll_us (deadline - pl_clock (polls k)) \<le> pl_clock (polls (Suc k))"
      using assms(1) by (simp add: sleeps_def)
    moreover have "0 \<le> int n * poll_us" by (simp add: poll_us_def)
    moreover have "int (Suc n) * poll_us = int n * poll_us + poll_us" by (simp add: algebra_simps)
    ultimately have "deadline - pl_clock (polls (Suc k)) \<le> int n * poll_us"
      using Suc.prems by (simp add: min_def split: if_splits)
    from Suc.IH [OF this] obtain m r where m: "Suc k \<le> m" "m \<le> Suc k + n"
      "await_concurrent_claim cx wait deadline polls (Suc k) = Some r" "stops_with cx deadline (polls m) r"
      "\<forall>j. Suc k \<le> j \<and> j < m \<longrightarrow> refused cx (polls j)" by blast
    have "\<forall>j. k \<le> j \<and> j < m \<longrightarrow> refused cx (polls j)"
      using m(5) True by (metis le_antisym not_less_eq_eq)
    then show ?thesis using m await_continue [of cx polls k deadline wait] True
      by (intro exI [of _ m] exI [of _ r]) auto
  next
    case False
    then show ?thesis using await_unfold [of cx polls k deadline wait] by (intro exI [of _ k]) auto
  qed
qed

fun sets_status :: "int \<Rightarrow> meta_op \<Rightarrow> bool" where
  "sets_status i (OpStatus run s upd) \<longleftrightarrow> run = i"
| "sets_status i _ \<longleftrightarrow> False"

definition landed :: "int \<Rightarrow> run_row \<Rightarrow> bool" where
  "landed i r \<longleftrightarrow> ir_id r = i \<and> ir_status r \<in> {''SUCCEEDED'', ''STAGED''}"

lemma landed_step: "landed i r \<Longrightarrow> \<not> sets_status i op \<Longrightarrow> landed i (run_effect op r)"
  by (cases op) (auto simp: landed_def claimable_def owned_by_def)

lemma landed_stays:
  assumes "meta_inv db" and "get_ingestion_run_status i db \<in> {Some ''SUCCEEDED'', Some ''STAGED''}"
    and "\<forall>op \<in> set ops. \<not> sets_status i op"
  shows "get_ingestion_run_status i (exec_all ops db) \<in> {Some ''SUCCEEDED'', Some ''STAGED''}"
proof -
  obtain r where r: "find_run db i = Some r" "ir_status r \<in> {''SUCCEEDED'', ''STAGED''}"
    using assms(2) by (auto simp: get_ingestion_run_status_def)
  then have mem: "r \<in> set (md_runs db)" "landed i r"
    unfolding find_run_def by (auto simp: landed_def dest: find_SomeD)
  obtain r' where r': "r' \<in> set (md_runs (exec_all ops db))" "landed i r'"
    using exec_all_row [where P = "landed i", OF mem] landed_step assms(3) by blast
  have "find_run (exec_all ops db) i = Some r'"
    using find_run_unique [OF meta_inv_exec_all [OF assms(1)] r'(1)] r'(2) by (simp add: landed_def)
  then show ?thesis using r'(2) by (auto simp: get_ingestion_run_status_def landed_def)
qed

text \<open>Between the two status reads of a turn nobody overwrites this run's status by hand.\<close>

definition undisturbed :: "run_context \<Rightarrow> poll \<Rightarrow> bool" where
  "undisturbed cx p \<longleftrightarrow> meta_inv (pl_status_db p) \<and>
     (\<exists>ops. pl_receipt_db p = exec_all ops (pl_status_db p) \<and> (\<forall>op \<in> set ops. \<not> sets_status (cx_run_id cx) op))"

lemma claim_answer: "claim_ingestion_run now key a db = (db', Some (i, st)) \<Longrightarrow> st = ''RUNNING''"
  by (auto simp: claim_ingestion_run_def Let_def)


definition sample_context :: run_context where
  "sample_context = \<lparr>cx_run_id = 1, cx_idempotency_key = ''k'', cx_claim = sample_claim ''pod-b'',
     cx_file_id = Some 1, cx_batch_id = Some 1, cx_batch_expected_row_count = None\<rparr>"

text \<open>Another pod holds the run for three seconds, then marks it STAGED.\<close>

definition sample_polls :: "nat \<Rightarrow> poll" where
  "sample_polls k =
     (let held = fst (claim_ingestion_run 10 ''k'' (sample_claim ''pod-a'') sample_meta);
          db = (if k < 2 then held else exec_all [OpStatus 1 ''STAGED'' []] held)
      in \<lparr>pl_status_db = db, pl_receipt_db = db, pl_claim_now = int k, pl_claim_db = db,
          pl_clock = int k * poll_us\<rparr>)"


end
