(* ===== verification/Engine.thy ===== *)
theory Engine
  imports Records
begin

text \<open>
  The streaming engine (\<open>pipeline/engine.py\<close>): the ragged-row guard and
  \<open>run_streaming\<close>, which feeds every chunk through the stages and yields one merged
  result per chunk.  What the engine promises is proved once, inside the stage contract
  \<open>streaming_stage\<close>, and holds for whatever stages are plugged in.
\<close>

section \<open>RaggedRowGuard\<close>

definition ragged_body :: "string \<Rightarrow> nat \<Rightarrow> row_body" where
  "ragged_body delimiter expected n r =
     (if length r \<noteq> expected
      then Inr (Inl \<lparr>rj_source_row_number = n,
                     rj_error_type = ''RAGGED_ROW'',
                     rj_error_message =
                       Msg ''expected {} fields, got {}'' [VInt (int expected), VInt (int (length r))],
                     rj_raw_line = join delimiter (map field_text r),
                     rj_error_column = None,
                     rj_business_key = None\<rparr>)
      else Inr (Inr r))"

definition ragged_apply :: "string \<Rightarrow> chunk \<Rightarrow> exn + stage_result" where
  "ragged_apply delimiter c = loop_stage (ragged_body delimiter (rc_expected_field_count c)) c"

lemma ragged_numbers: "numbers_rows (ragged_body delimiter expected)"
  by (rule numbers_rowsI) (auto simp: ragged_body_def split: if_splits)

interpretation ragged: streaming_stage ragged_apply
  by (rule loop_stage_contract [OF ragged_apply_def ragged_numbers])

lemma ragged_apply_eq:
  "ragged_apply delimiter c =
     Inr (stage_result_of c
       (filter (\<lambda>r. length r = rc_expected_field_count c) (rc_rows c),
        map (\<lambda>(i, r). \<lparr>rj_source_row_number = rc_first_ordinal c + int i,
               rj_error_type = ''RAGGED_ROW'',
               rj_error_message = Msg ''expected {} fields, got {}''
                 [VInt (int (rc_expected_field_count c)), VInt (int (length r))],
               rj_raw_line = join delimiter (map field_text r),
               rj_error_column = None, rj_business_key = None\<rparr>)
          (filter (\<lambda>(i, r). length r \<noteq> rc_expected_field_count c) (enumerate 0 (rc_rows c)))))"
  unfolding ragged_apply_def loop_stage_def
  by (subst row_loop_filter [where P = "\<lambda>r. length r = rc_expected_field_count c"])
    (auto simp: ragged_body_def)

section \<open>run_streaming\<close>

text \<open>
  The inner loop threads the surviving chunk from stage to stage and accumulates what
  every stage rejected and found.  \<open>run_streaming\<close> is a generator: when a stage raises,
  the results of the chunks before it have been yielded already, so the model returns what
  was yielded together with the exception, if one was raised.
\<close>

fun stage_loop :: "('st \<Rightarrow> chunk \<Rightarrow> exn + stage_result) \<Rightarrow> 'st list \<Rightarrow> chunk \<Rightarrow>
    rejected_record list \<Rightarrow> validation_result list \<Rightarrow> exn + stage_result" where
  "stage_loop ap [] current merged_rejected merged_findings =
     Inr \<lparr>sr_chunk = current, sr_rejected = merged_rejected, sr_findings = merged_findings\<rparr>"
| "stage_loop ap (stage # stages) current merged_rejected merged_findings =
     (case ap stage current of
        Inl e \<Rightarrow> Inl e
      | Inr result \<Rightarrow>
          stage_loop ap stages (sr_chunk result)
            (merged_rejected @ sr_rejected result) (merged_findings @ sr_findings result))"

fun run_streaming :: "('st \<Rightarrow> chunk \<Rightarrow> exn + stage_result) \<Rightarrow> chunk list \<Rightarrow> 'st list \<Rightarrow>
    (int \<times> stage_result) list \<times> exn option" where
  "run_streaming ap [] stages = ([], None)"
| "run_streaming ap (c # cs) stages =
     (case stage_loop ap stages c [] [] of
        Inl e \<Rightarrow> ([], Some e)
      | Inr result \<Rightarrow>
          (case run_streaming ap cs stages of
             (yielded, raised) \<Rightarrow> ((rc_first_ordinal c, result) # yielded, raised)))"

text \<open>A yielded result accounts for the chunk it came from.\<close>

definition accounts_for :: "chunk \<Rightarrow> int \<times> stage_result \<Rightarrow> bool" where
  "accounts_for c y \<longleftrightarrow>
     fst y = rc_first_ordinal c \<and>
     length (rc_rows (sr_chunk (snd y))) + length (sr_rejected (snd y)) = length (rc_rows c) \<and>
     rc_first_ordinal (sr_chunk (snd y)) = rc_first_ordinal c \<and>
     rc_expected_field_count (sr_chunk (snd y)) = rc_expected_field_count c \<and>
     (\<forall>x \<in> set (sr_rejected (snd y)).
        rc_first_ordinal c \<le> rj_source_row_number x \<and>
        rj_source_row_number x < rc_first_ordinal c + chunk_len c)"

context streaming_stage
begin

lemma stage_loop_accounts:
  assumes "stage_loop apply_stage stages c rej fnd = Inr r"
  shows "length (rc_rows (sr_chunk r)) + length (sr_rejected r) = length (rc_rows c) + length rej"
    and "rc_first_ordinal (sr_chunk r) = rc_first_ordinal c"
    and "rc_expected_field_count (sr_chunk r) = rc_expected_field_count c"
  using assms
proof (induction stages arbitrary: c rej fnd)
  case (Cons s ss)
  {
    case 1
    then obtain m where "apply_stage s c = Inr m" by (auto split: sum.splits)
    with 1 Cons.IH(1) [of "sr_chunk m"] conserve [of s c m] show ?case by fastforce
  next
    case 2
    then obtain m where "apply_stage s c = Inr m" by (auto split: sum.splits)
    with 2 Cons.IH(2) [of "sr_chunk m"] frame [of s c m] show ?case by fastforce
  next
    case 3
    then obtain m where "apply_stage s c = Inr m" by (auto split: sum.splits)
    with 3 Cons.IH(3) [of "sr_chunk m"] frame [of s c m] show ?case by fastforce
  }
qed auto

lemma stage_loop_range:
  assumes "stage_loop apply_stage stages c rej fnd = Inr r" and "x \<in> set (sr_rejected r)"
  shows "x \<in> set rej \<or> (rc_first_ordinal c \<le> rj_source_row_number x \<and>
           rj_source_row_number x < rc_first_ordinal c + chunk_len c)"
  using assms
proof (induction stages arbitrary: c rej fnd)
  case Nil
  then show ?case by auto
next
  case (Cons s ss)
  then obtain m where m: "apply_stage s c = Inr m" by (auto split: sum.splits)
  with Cons.prems have "stage_loop apply_stage ss (sr_chunk m) (rej @ sr_rejected m)
      (fnd @ sr_findings m) = Inr r" by simp
  from Cons.IH [OF this Cons.prems(2)] show ?case
    using conserve [OF m] frame [OF m] range [OF m, of x] by auto
qed

lemma run_streaming_accounts:
  "run_streaming apply_stage cs stages = (yielded, raised) \<Longrightarrow>
     list_all2 accounts_for (take (length yielded) cs) yielded"
proof (induction cs arbitrary: yielded raised)
  case Nil
  then show ?case by simp
next
  case (Cons c cs)
  show ?case
  proof (cases "stage_loop apply_stage stages c [] []")
    case (Inl e)
    with Cons.prems show ?thesis by simp
  next
    case (Inr r)
    obtain ys e where rest: "run_streaming apply_stage cs stages = (ys, e)" by fastforce
    have "accounts_for c (rc_first_ordinal c, r)"
      using stage_loop_accounts [OF Inr] stage_loop_range [OF Inr] by (auto simp: accounts_for_def)
    with Cons.IH [OF rest] Cons.prems Inr rest show ?thesis by auto
  qed
qed

lemma run_streaming_length:
  "run_streaming apply_stage cs stages = (yielded, raised) \<Longrightarrow>
     length yielded \<le> length cs \<and> (raised = None \<longleftrightarrow> length yielded = length cs)"
proof (induction cs arbitrary: yielded raised)
  case Nil
  then show ?case by auto
next
  case (Cons c cs)
  obtain ys e where rest: "run_streaming apply_stage cs stages = (ys, e)" by fastforce
  from Cons.IH [OF this] Cons.prems rest show ?case by (auto split: sum.splits)
qed

text \<open>No row is lost or invented: what was read is what was kept plus what was rejected.\<close>

lemma run_streaming_conserves:
  assumes "run_streaming apply_stage cs stages = (yielded, None)"
  shows "(\<Sum>y\<leftarrow>yielded. length (rc_rows (sr_chunk (snd y))) + length (sr_rejected (snd y))) =
     (\<Sum>c\<leftarrow>cs. length (rc_rows c))"
proof -
  have "list_all2 accounts_for cs yielded"
    using run_streaming_accounts [OF assms] run_streaming_length [OF assms] by simp
  then show ?thesis
    by (induction cs yielded rule: list_all2_induct) (auto simp: accounts_for_def)
qed

end

end
