(* ===== verification/PyFloats.thy ===== *)
theory PyFloats
  imports PyNumbers
begin

text \<open>
  Python's \<open>float\<close>: IEEE 754 binary64.  A finite double is its rational value;
  \<open>round_double\<close> rounds a rational to the nearest double (ties to even, gradual
  underflow), which is how \<open>float(text)\<close> and the division of two integers are specified.
  The two zeros are one value, which no comparison can tell apart.
\<close>

datatype pyfloat = FFin rat | FInf bool | FNaN

definition pow2 :: "int \<Rightarrow> rat" where
  "pow2 e = (if 0 \<le> e then 2 ^ nat e else 1 / 2 ^ nat (- e))"

text \<open>The exponent of a positive rational: \<open>2 ^ e \<le> x < 2 ^ (e + 1)\<close>.\<close>

definition ilog2 :: "rat \<Rightarrow> int" where
  "ilog2 x = (if 1 \<le> x then int (floorlog 2 (nat \<lfloor>x\<rfloor>)) - 1
              else - int (floorlog 2 (nat (\<lceil>1 / x\<rceil> - 1))))"

definition round_half_even :: "rat \<Rightarrow> int" where
  "round_half_even x =
     (let f = \<lfloor>x\<rfloor>; d = x - of_int f in
      if d < 1 / 2 then f else if 1 / 2 < d then f + 1 else if even f then f else f + 1)"

definition round_double :: "rat \<Rightarrow> rat" where
  "round_double x =
     (if x = 0 then 0
      else
        (let g = max (ilog2 \<bar>x\<bar> - 52) (-1074);
             r = of_int (round_half_even (\<bar>x\<bar> / pow2 g)) * pow2 g
         in if x < 0 then - r else r))"

definition double_of_rat :: "rat \<Rightarrow> pyfloat" where
  "double_of_rat x =
     (let r = round_double x in if pow2 1024 \<le> \<bar>r\<bar> then FInf (x < 0) else FFin r)"

definition py_float :: "string \<Rightarrow> pyfloat option" where
  "py_float text =
     (case remove_underscores None (strip text) of
        None \<Rightarrow> None
      | Some s \<Rightarrow>
          (case take_sign s of (neg, body) \<Rightarrow>
             (case parse_unsigned body of
                Some (c, e) \<Rightarrow>
                  Some (double_of_rat ((if neg then -1 else 1) * of_nat c * pow10 e))
              | None \<Rightarrow>
                  (let l = map ascii_lower body in
                   if l = ''inf'' \<or> l = ''infinity'' then Some (FInf neg)
                   else if l = ''nan'' then Some FNaN else None))))"

text \<open>Comparison with a finite bound; every comparison with a NaN is false.\<close>

fun float_less_rat :: "pyfloat \<Rightarrow> rat \<Rightarrow> bool" where
  "float_less_rat (FFin x) b = (x < b)"
| "float_less_rat (FInf neg) b = neg"
| "float_less_rat FNaN b = False"

fun rat_less_float :: "rat \<Rightarrow> pyfloat \<Rightarrow> bool" where
  "rat_less_float b (FFin x) = (b < x)"
| "rat_less_float b (FInf neg) = (\<not> neg)"
| "rat_less_float b FNaN = False"

text \<open>\<open>a / b\<close> of two integers, \<open>b \<noteq> 0\<close>.\<close>

definition float_div :: "int \<Rightarrow> int \<Rightarrow> rat" where
  "float_div a b = round_double (of_int a / of_int b)"

definition is_double :: "rat \<Rightarrow> bool" where
  "is_double x \<longleftrightarrow> round_double x = x"

section \<open>Rounding is monotone\<close>

lemma pow2_pos [simp]: "0 < pow2 e"
  by (simp add: pow2_def)

lemma pow2_add: "pow2 (a + int k) = pow2 a * 2 ^ k"
proof (cases "0 \<le> a")
  case True
  then show ?thesis by (simp add: pow2_def nat_add_distrib power_add)
next
  case False
  show ?thesis
  proof (cases "0 \<le> a + int k")
    case True
    then have "k = nat (a + int k) + nat (- a)" using False by simp
    then have "(2 :: rat) ^ k = 2 ^ nat (a + int k) * 2 ^ nat (- a)"
      by (metis power_add)
    then show ?thesis using True False by (simp add: pow2_def)
  next
    case neg: False
    then have "nat (- a) = nat (- (a + int k)) + k" using False by simp
    then have "(2 :: rat) ^ nat (- a) = 2 ^ nat (- (a + int k)) * 2 ^ k"
      by (metis power_add)
    then show ?thesis using neg False by (simp add: pow2_def)
  qed
qed

lemma pow2_diff: "a \<le> b \<Longrightarrow> pow2 b = pow2 a * 2 ^ nat (b - a)"
  using pow2_add [of a "nat (b - a)"] by simp

lemma pow2_less_iff: "pow2 a < pow2 b \<longleftrightarrow> a < b"
proof
  show "pow2 a < pow2 b \<Longrightarrow> a < b"
    by (metis linorder_not_le mult_le_cancel_left1 not_less_iff_gr_or_eq one_le_numeral
        one_le_power order_less_le_trans pow2_diff pow2_pos)
next
  assume "a < b"
  then have "pow2 b = pow2 a * 2 ^ nat (b - a)" and "(1::rat) < 2 ^ nat (b - a)"
    by (simp_all add: pow2_diff)
  then show "pow2 a < pow2 b" using pow2_pos [of a] by (metis mult.right_neutral mult_strict_left_mono)
qed

lemma pow2_le_iff: "pow2 a \<le> pow2 b \<longleftrightarrow> a \<le> b"
  by (metis linorder_not_less pow2_less_iff)

lemma floorlog2_bounds: "0 < n \<Longrightarrow> 0 < floorlog 2 n \<and> 2 ^ (floorlog 2 n - 1) \<le> n \<and> n < 2 ^ floorlog 2 n"
  using floorlog_bounds [of n 2] by (simp add: floorlog_def)

lemma ilog2_spec: "0 < x \<Longrightarrow> pow2 (ilog2 x) \<le> x \<and> x < pow2 (ilog2 x + 1)"
proof (cases "1 \<le> x")
  case True
  define n where "n = nat \<lfloor>x\<rfloor>"
  define k where "k = floorlog 2 n"
  have "1 \<le> \<lfloor>x\<rfloor>" using True by simp
  then have n: "0 < n" "of_nat n \<le> x" "x < of_nat n + 1" unfolding n_def by linarith+
  from floorlog2_bounds [OF n(1)] have k: "0 < k" "2 ^ (k - 1) \<le> n" "n < 2 ^ k" by (simp_all add: k_def)
  have "(2 :: rat) ^ (k - 1) \<le> of_nat n" using k(2) by (metis of_nat_le_iff of_nat_numeral of_nat_power)
  with n(2) have lo: "2 ^ (k - 1) \<le> x" by (rule order_trans [rotated])
  have "n + 1 \<le> 2 ^ k" using k(3) by simp
  then have "of_nat (n + 1) \<le> (2 :: rat) ^ k" by (metis of_nat_le_iff of_nat_numeral of_nat_power)
  then have up: "x < 2 ^ k" using n(3) by simp
  have "ilog2 x = int (k - 1)" and "ilog2 x + 1 = int k"
    using True k(1) by (simp_all add: ilog2_def k_def n_def)
  moreover have "pow2 (int (k - 1)) = 2 ^ (k - 1)" and "pow2 (int k) = 2 ^ k"
    by (simp_all add: pow2_def)
  ultimately show ?thesis using lo up by (simp only:)
next
  case False
  assume x: "0 < x"
  define m where "m = nat (\<lceil>1 / x\<rceil> - 1)"
  define k where "k = floorlog 2 m"
  have "1 < 1 / x" using False x by simp
  then have m: "0 < m" "of_nat m < 1 / x" "1 / x \<le> of_nat m + 1" unfolding m_def by linarith+
  from floorlog2_bounds [OF m(1)] have k: "0 < k" "2 ^ (k - 1) \<le> m" "m < 2 ^ k" by (simp_all add: k_def)
  have "(2 :: rat) ^ (k - 1) \<le> of_nat m" using k(2) by (metis of_nat_le_iff of_nat_numeral of_nat_power)
  then have up: "2 ^ (k - 1) < 1 / x" using m(2) by (rule le_less_trans)
  have "m + 1 \<le> 2 ^ k" using k(3) by simp
  then have "of_nat (m + 1) \<le> (2 :: rat) ^ k" by (metis of_nat_le_iff of_nat_numeral of_nat_power)
  then have lo: "1 / x \<le> 2 ^ k" using m(3) by simp
  have il: "ilog2 x = - int k" using False by (simp add: ilog2_def k_def m_def)
  have "pow2 (ilog2 x) = 1 / 2 ^ k" using il k(1) by (simp add: pow2_def)
  moreover have "pow2 (ilog2 x + 1) = 1 / 2 ^ (k - 1)"
  proof (cases "k = 1")
    case True
    then show ?thesis using il by (simp add: pow2_def)
  next
    case False
    then have "nat (int k - 1) = k - 1" using k(1) by simp
    then show ?thesis using il k(1) False by (simp add: pow2_def)
  qed
  moreover have "1 / 2 ^ k \<le> x" using lo x by (simp add: field_simps)
  moreover have "x < 1 / 2 ^ (k - 1)" using up x by (simp add: field_simps)
  ultimately show ?thesis by simp
qed

lemma ilog2_mono:
  assumes "0 < x" and "x \<le> y"
  shows "ilog2 x \<le> ilog2 y"
proof -
  have "pow2 (ilog2 x) < pow2 (ilog2 y + 1)"
    using ilog2_spec [of x] ilog2_spec [of y] assms by linarith
  then show ?thesis by (simp add: pow2_less_iff)
qed

lemma round_half_even_mono: "x \<le> y \<Longrightarrow> round_half_even x \<le> round_half_even y"
proof -
  assume xy: "x \<le> y"
  then have f: "\<lfloor>x\<rfloor> \<le> \<lfloor>y\<rfloor>" by (rule floor_mono)
  show ?thesis
  proof (cases "\<lfloor>x\<rfloor> = \<lfloor>y\<rfloor>")
    case True
    then show ?thesis using xy by (simp add: round_half_even_def Let_def)
  next
    case False
    then show ?thesis using f by (simp add: round_half_even_def Let_def)
  qed
qed

lemma round_half_even_int [simp]: "round_half_even (of_int n) = n"
  by (simp add: round_half_even_def)

lemma round_double_pos_mono:
  assumes x: "0 < x" and xy: "x \<le> y"
  shows "round_double x \<le> round_double y"
proof -
  define gx where "gx = max (ilog2 x - 52) (-1074)"
  define gy where "gy = max (ilog2 y - 52) (-1074)"
  have rx: "round_double x = of_int (round_half_even (x / pow2 gx)) * pow2 gx"
    and ry: "round_double y = of_int (round_half_even (y / pow2 gy)) * pow2 gy"
    using assms by (simp_all add: round_double_def gx_def gy_def Let_def)
  have g: "gx \<le> gy" using ilog2_mono [OF assms] by (simp add: gx_def gy_def)
  show ?thesis
  proof (cases "gx = gy")
    case True
    have "x / pow2 gx \<le> y / pow2 gx" using xy by (simp add: divide_right_mono less_imp_le)
    then have "round_half_even (x / pow2 gx) \<le> round_half_even (y / pow2 gx)"
      by (rule round_half_even_mono)
    then show ?thesis using True rx ry by (simp add: mult_right_mono less_imp_le)
  next
    case False
    then have gy: "gy = ilog2 y - 52" and less: "ilog2 x < ilog2 y"
      using g by (auto simp: gx_def gy_def split: if_splits)
    let ?m = "pow2 (ilog2 y)"
    have le_y: "?m \<le> y" using ilog2_spec [of y] assms by simp
    have "x < pow2 (ilog2 x + 1)" using ilog2_spec [OF x] by simp
    also have "\<dots> \<le> ?m" using less by (simp add: pow2_le_iff)
    finally have x_le: "x \<le> ?m" by simp
    have split: "?m = pow2 gx * 2 ^ nat (ilog2 y - gx)" "?m = pow2 gy * 2 ^ 52"
      using pow2_diff [of gx "ilog2 y"] pow2_diff [of gy "ilog2 y"] g gy by simp_all
    have "x / pow2 gx \<le> of_int (2 ^ nat (ilog2 y - gx))"
      using x_le split(1) pow2_pos [of gx] by (simp add: pos_divide_le_eq mult.commute)
    then have "round_half_even (x / pow2 gx) \<le> 2 ^ nat (ilog2 y - gx)"
      using round_half_even_mono round_half_even_int by metis
    then have "of_int (round_half_even (x / pow2 gx)) \<le> (2 :: rat) ^ nat (ilog2 y - gx)"
      by (metis of_int_le_iff of_int_numeral of_int_power)
    then have a: "round_double x \<le> ?m"
      unfolding rx split(1) by (simp add: mult.commute mult_left_mono less_imp_le)
    have "of_int (2 ^ 52) \<le> y / pow2 gy"
      using le_y split(2) pow2_pos [of gy] by (simp add: pos_le_divide_eq mult.commute)
    then have "2 ^ 52 \<le> round_half_even (y / pow2 gy)"
      using round_half_even_mono round_half_even_int by metis
    then have "(2 :: rat) ^ 52 \<le> of_int (round_half_even (y / pow2 gy))"
      by (metis of_int_le_iff of_int_numeral of_int_power)
    then have "?m \<le> round_double y"
      unfolding ry split(2) by (simp add: mult.commute mult_left_mono less_imp_le)
    with a show ?thesis by simp
  qed
qed

lemma round_double_nonneg: "0 \<le> x \<Longrightarrow> 0 \<le> round_double x"
proof -
  assume "0 \<le> x"
  moreover have "0 \<le> round_half_even (x / pow2 g)" if "0 \<le> x" for g
    using round_half_even_mono [of "of_int 0" "x / pow2 g"] round_half_even_int [of 0] that
    by (simp add: divide_nonneg_pos)
  ultimately show ?thesis
    by (simp add: round_double_def Let_def mult_nonneg_nonneg less_imp_le)
qed

lemma round_double_mono: "0 \<le> x \<Longrightarrow> x \<le> y \<Longrightarrow> round_double x \<le> round_double y"
proof (cases "x = 0")
  case True
  assume "x \<le> y"
  with True show ?thesis using round_double_nonneg [of y] by (simp add: round_double_def)
next
  case False
  assume "0 \<le> x" "x \<le> y"
  with False show ?thesis by (intro round_double_pos_mono) auto
qed

text \<open>A quotient that does not exceed a double is not rounded above it.\<close>

lemma float_div_le:
  assumes "is_double t" and "0 \<le> a" and "0 < b" and "of_int a \<le> t * of_int b"
  shows "float_div a b \<le> t"
proof -
  have "of_int a / of_int b \<le> t" using assms by (simp add: pos_divide_le_eq)
  then have "round_double (of_int a / of_int b) \<le> round_double t"
    using assms by (intro round_double_mono) auto
  then show ?thesis using assms(1) by (simp add: float_div_def is_double_def)
qed

text \<open>A double of everyday size is not an overflow.\<close>

lemma double_of_rat_small:
  assumes "is_double x" and "\<bar>x\<bar> < 1000000"
  shows "double_of_rat x = FFin x"
proof -
  have "(1000000 :: rat) \<le> pow2 1024" by (simp add: pow2_def)
  then have "\<not> pow2 1024 \<le> \<bar>x\<bar>" using assms(2) by linarith
  then show ?thesis using assms(1) by (simp add: double_of_rat_def is_double_def)
qed

lemmas py_float_simps = py_float_def strip_def lstrip_def rstrip_def is_space_def is_digit_def
  take_sign_def parse_unsigned_def span_digits_def take_fraction_def parse_exponent_def
  pow10_def nat_of_digits_def digit_val_def

end
