(* ===== verification/Validate.thy ===== *)
theory Validate
  imports Engine PyFloats
begin

text \<open>
  The validation rules (\<open>validate/*.py\<close>).  Completeness, uniqueness, validity-range and
  pattern rules are streaming stages; the rejection-rate circuit breaker, the volume
  barrier and the strategy dispatch decide about a whole run or chunk.  The regular
  expression engine is a parameter (\<open>fullmatch\<close>).
\<close>

section \<open>Shared helpers\<close>

definition reconstruct_raw_line :: "row \<Rightarrow> string" where
  "reconstruct_raw_line r = join '','' (map field_text r)"

text \<open>\<open>_extract_business_key\<close>: \<open>None\<close> when unconfigured or when the field is absent or empty.\<close>

definition extract_business_key :: "row \<Rightarrow> nat option \<Rightarrow> exn + string option" where
  "extract_business_key r key_index =
     (case key_index of
        None \<Rightarrow> Inr None
      | Some i \<Rightarrow>
          (case py_index r i of
             None \<Rightarrow> Inl (Exn PyIndexError [])
           | Some v \<Rightarrow> Inr (if v = CNone \<or> v = CStr '''' then None else Some (field_text v))))"

text \<open>The four rules share their constructor arguments.\<close>

record rule_config =
  ru_column_index :: nat
  ru_column_name :: string
  ru_strategy :: string
  ru_rule_id :: string
  ru_business_key_index :: "nat option"

definition rule_reject :: "rule_config \<Rightarrow> string \<Rightarrow> message \<Rightarrow> int \<Rightarrow> row \<Rightarrow>
    exn + (rejected_record + row)" where
  "rule_reject cfg error_type message n r =
     (case extract_business_key r (ru_business_key_index cfg) of
        Inl e \<Rightarrow> Inl e
      | Inr key \<Rightarrow>
          Inr (Inl \<lparr>rj_source_row_number = n, rj_error_type = error_type,
                    rj_error_message = message, rj_raw_line = reconstruct_raw_line r,
                    rj_error_column = Some (ru_column_name cfg), rj_business_key = key\<rparr>))"

lemma rule_reject_number [simp]: "rule_reject cfg t m n r = Inr (Inl x) \<Longrightarrow> rj_source_row_number x = n"
  by (auto simp: rule_reject_def split: sum.splits)

lemma rule_reject_not_kept [simp]: "rule_reject cfg t m n r \<noteq> Inr (Inr r')"
  by (auto simp: rule_reject_def split: sum.splits)

section \<open>CompletenessRule\<close>

definition completeness_body :: "rule_config \<Rightarrow> row_body" where
  "completeness_body cfg n r =
     (case py_index r (ru_column_index cfg) of
        None \<Rightarrow> Inl (Exn PyIndexError [])
      | Some v \<Rightarrow>
          if v = CNone \<or> v = CStr ''''
          then rule_reject cfg ''COMPLETENESS_VIOLATION''
                 (Msg ''required column {!r} is empty'' [VStr (ru_column_name cfg)]) n r
          else Inr (Inr r))"

definition completeness_apply :: "rule_config \<Rightarrow> chunk \<Rightarrow> exn + stage_result" where
  "completeness_apply cfg c = loop_stage (completeness_body cfg) c"

section \<open>UniquenessRule\<close>

text \<open>
  \<open>seen\<close> is local to one call, so the rule compares rows of the same chunk only.  Two
  fields are equal when they are the same value; \<open>None\<close> is a value like any other.
\<close>

fun uniqueness_loop :: "rule_config \<Rightarrow> cell list \<Rightarrow> int \<Rightarrow> row list \<Rightarrow>
    exn + (row list \<times> rejected_record list)" where
  "uniqueness_loop cfg seen n [] = Inr ([], [])"
| "uniqueness_loop cfg seen n (r # rs) =
     (case py_index r (ru_column_index cfg) of
        None \<Rightarrow> Inl (Exn PyIndexError [])
      | Some v \<Rightarrow>
          if v \<in> set seen
          then (case rule_reject cfg ''UNIQUENESS_VIOLATION''
                  (Msg ''duplicate value {!r} for business-key column {!r} within this chunk''
                     [cell_val v, VStr (ru_column_name cfg)]) n r of
                  Inl e \<Rightarrow> Inl e
                | Inr out \<Rightarrow>
                    (case uniqueness_loop cfg seen (n + 1) rs of
                       Inl e \<Rightarrow> Inl e
                     | Inr (kept, rejected) \<Rightarrow>
                         (case out of Inl x \<Rightarrow> Inr (kept, x # rejected)
                                    | Inr r' \<Rightarrow> Inr (r' # kept, rejected))))
          else (case uniqueness_loop cfg (v # seen) (n + 1) rs of
                  Inl e \<Rightarrow> Inl e
                | Inr (kept, rejected) \<Rightarrow> Inr (r # kept, rejected)))"

definition uniqueness_apply :: "rule_config \<Rightarrow> chunk \<Rightarrow> exn + stage_result" where
  "uniqueness_apply cfg c =
     (case uniqueness_loop cfg [] (rc_first_ordinal c) (rc_rows c) of
        Inl e \<Rightarrow> Inl e
      | Inr out \<Rightarrow> Inr (stage_result_of c out))"

section \<open>ValidityRangeRule\<close>

record range_config = rule_config +
  vr_minimum :: "rat option"
  vr_maximum :: "rat option"

text \<open>\<open>float(raw_value)\<close>: \<open>None\<close> is the caught \<open>TypeError\<close> or \<open>ValueError\<close>.\<close>

fun float_of_cell :: "cell \<Rightarrow> pyfloat option" where
  "float_of_cell CNone = None"
| "float_of_cell (CBool b) = Some (FFin (if b then 1 else 0))"
| "float_of_cell (CStr s) = py_float s"

fun float_val :: "pyfloat \<Rightarrow> pyval" where
  "float_val (FFin x) = VFloat x"
| "float_val (FInf neg) = VStr (if neg then ''-inf'' else ''inf'')"
| "float_val FNaN = VStr ''nan''"

definition option_val :: "rat option \<Rightarrow> pyval" where
  "option_val x = (case x of None \<Rightarrow> VNone | Some q \<Rightarrow> VFloat q)"

definition out_of_bounds :: "rat option \<Rightarrow> rat option \<Rightarrow> pyfloat \<Rightarrow> bool" where
  "out_of_bounds minimum maximum v \<longleftrightarrow>
     (case minimum of None \<Rightarrow> False | Some m \<Rightarrow> float_less_rat v m) \<or>
     (case maximum of None \<Rightarrow> False | Some m \<Rightarrow> rat_less_float m v)"

definition range_body :: "range_config \<Rightarrow> row_body" where
  "range_body cfg n r =
     (case py_index r (ru_column_index cfg) of
        None \<Rightarrow> Inl (Exn PyIndexError [])
      | Some raw \<Rightarrow>
          (case float_of_cell raw of
             None \<Rightarrow>
               rule_reject (rule_config.truncate cfg) ''VALIDITY_RANGE_UNPARSEABLE''
                 (Msg ''value {!r} at column {!r} is not numeric''
                    [cell_val raw, VStr (ru_column_name cfg)]) n r
           | Some v \<Rightarrow>
               if out_of_bounds (vr_minimum cfg) (vr_maximum cfg) v
               then rule_reject (rule_config.truncate cfg) ''VALIDITY_RANGE_VIOLATION''
                      (Msg ''value {!r} at column {!r} is outside the configured bound [{!r}, {!r}]''
                         [float_val v, VStr (ru_column_name cfg),
                          option_val (vr_minimum cfg), option_val (vr_maximum cfg)]) n r
               else Inr (Inr r)))"

definition range_apply :: "range_config \<Rightarrow> chunk \<Rightarrow> exn + stage_result" where
  "range_apply cfg c = loop_stage (range_body cfg) c"

section \<open>PatternRule\<close>

record pattern_config = rule_config +
  pt_pattern :: string

definition pattern_body :: "(string \<Rightarrow> string \<Rightarrow> bool) \<Rightarrow> pattern_config \<Rightarrow> row_body" where
  "pattern_body fullmatch cfg n r =
     (case py_index r (ru_column_index cfg) of
        None \<Rightarrow> Inl (Exn PyIndexError [])
      | Some raw \<Rightarrow>
          if \<not> fullmatch (pt_pattern cfg) (field_text raw)
          then rule_reject (rule_config.truncate cfg) ''PATTERN_VIOLATION''
                 (Msg ''value {!r} at column {!r} does not match pattern {!r}''
                    [cell_val raw, VStr (ru_column_name cfg), VStr (pt_pattern cfg)]) n r
          else Inr (Inr r))"

definition pattern_apply :: "(string \<Rightarrow> string \<Rightarrow> bool) \<Rightarrow> pattern_config \<Rightarrow> chunk \<Rightarrow>
    exn + stage_result" where
  "pattern_apply fullmatch cfg c = loop_stage (pattern_body fullmatch cfg) c"

section \<open>StrategyDispatchStage\<close>

definition known_strategies :: "string list" where
  "known_strategies =
     [''REJECT_RECORD'', ''QUARANTINE_RECORD'', ''WARN_AND_CONTINUE'', ''FAIL_FILE'',
      ''QUARANTINE_FILE'']"

definition passthrough_strategies :: "string list" where
  "passthrough_strategies = [''REJECT_RECORD'', ''QUARANTINE_RECORD'']"

definition escalating_strategies :: "string list" where
  "escalating_strategies = [''FAIL_FILE'', ''QUARANTINE_FILE'']"

text \<open>The constructor's check: an unknown strategy is refused before any row is seen.\<close>

definition strategy_dispatch_init :: "string \<Rightarrow> string \<Rightarrow> exn option" where
  "strategy_dispatch_init strategy rule_id =
     (if strategy \<in> set known_strategies then None
      else Some (dp_error ConfigurationError
        [(''strategy'', VStr strategy), (''rule_id'', VStr rule_id),
         (''known'', VList (map VStr (sort known_strategies)))]))"

record dispatch_config =
  dp_strategy :: string
  dp_rule_id :: string
  dp_rule_type :: string

definition warning_finding :: "dispatch_config \<Rightarrow> chunk \<Rightarrow> nat \<Rightarrow> validation_result" where
  "warning_finding cfg c violations =
     \<lparr>vr_rule_id = dp_rule_id cfg, vr_outcome = ''PASS_WITH_WARNING'',
      vr_message = Msg ''{} row(s) violated {} but strategy=WARN_AND_CONTINUE kept them''
        [VInt (int violations), VStr (dp_rule_id cfg)],
      vr_rule_type = dp_rule_type cfg, vr_severity = ''WARNING'',
      vr_evaluated_count = chunk_len c, vr_failed_count = int violations,
      vr_threshold = [], vr_observed = [(''violation_count'', VInt (int violations))]\<rparr>"

definition strategy_dispatch_apply :: "('st \<Rightarrow> chunk \<Rightarrow> exn + stage_result) \<Rightarrow>
    dispatch_config \<Rightarrow> 'st \<Rightarrow> chunk \<Rightarrow> exn + stage_result" where
  "strategy_dispatch_apply inner_apply cfg inner c =
     (case inner_apply inner c of
        Inl e \<Rightarrow> Inl e
      | Inr result \<Rightarrow>
          if sr_rejected result = [] then Inr result
          else if dp_strategy cfg \<in> set passthrough_strategies then Inr result
          else if dp_strategy cfg = ''WARN_AND_CONTINUE''
            then Inr \<lparr>sr_chunk = c, sr_rejected = [],
                      sr_findings = sr_findings result @
                        [warning_finding cfg c (length (sr_rejected result))]\<rparr>
          else Inl (dp_error QualityThresholdExceeded
            [(''rule_id'', VStr (dp_rule_id cfg)), (''rule_type'', VStr (dp_rule_type cfg)),
             (''strategy'', VStr (dp_strategy cfg)),
             (''violation_count'', VInt (int (length (sr_rejected result))))]))"

section \<open>RejectionRateCircuitBreaker\<close>

text \<open>
  A barrier returns a placeholder chunk and one finding, or raises.  The ratio is the
  binary64 quotient of the two totals; the threshold is a binary64 value too.
\<close>

definition barrier_result :: "validation_result \<Rightarrow> stage_result" where
  "barrier_result f =
     \<lparr>sr_chunk = placeholder_chunk, sr_rejected = [], sr_findings = [f]\<rparr>"

definition rejection_rate_apply :: "rat \<Rightarrow> int \<Rightarrow> int \<Rightarrow> string \<Rightarrow> exn + stage_result" where
  "rejection_rate_apply threshold total_rows_read total_rows_rejected rule_id =
     (if total_rows_read = 0
      then Inr (barrier_result
        \<lparr>vr_rule_id = rule_id, vr_outcome = ''PASS'',
         vr_message = Msg ''no rows read; rejection rate trivially within threshold'' [],
         vr_rule_type = ''QUALITY'', vr_severity = ''ERROR'',
         vr_evaluated_count = 0, vr_failed_count = 0,
         vr_threshold = [(''rejection_rate_threshold'', VFloat threshold)],
         vr_observed = [(''ratio'', VFloat 0)]\<rparr>)
      else
        (let ratio = float_div total_rows_rejected total_rows_read in
         if threshold < ratio
         then Inl (dp_error QualityThresholdExceeded
           [(''rule_id'', VStr rule_id), (''observed_ratio'', VFloat ratio),
            (''threshold'', VFloat threshold), (''total_rows_read'', VInt total_rows_read),
            (''total_rows_rejected'', VInt total_rows_rejected)])
         else Inr (barrier_result
           \<lparr>vr_rule_id = rule_id, vr_outcome = ''PASS'',
            vr_message = Msg ''rejection rate within threshold'' [],
            vr_rule_type = ''QUALITY'', vr_severity = ''ERROR'',
            vr_evaluated_count = total_rows_read, vr_failed_count = total_rows_rejected,
            vr_threshold = [(''rejection_rate_threshold'', VFloat threshold)],
            vr_observed = [(''ratio'', VFloat ratio)]\<rparr>)))"

section \<open>VolumeAnomalyBarrier\<close>

definition min_prior_runs :: int where
  "min_prior_runs = 2"

definition strategy_to_outcome :: "string \<Rightarrow> string" where
  "strategy_to_outcome strategy =
     (case map_of [(''QUARANTINE_FILE'', ''QUARANTINE''), (''QUARANTINE_RECORD'', ''QUARANTINE''),
                   (''FAIL_FILE'', ''FAIL''), (''WARN_AND_CONTINUE'', ''PASS_WITH_WARNING'')] strategy of
        None \<Rightarrow> ''FAIL'' | Some outcome \<Rightarrow> outcome)"

text \<open>
  \<open>history\<close> is what the historical query returned: the average of the prior runs'
  row counts (a double, \<open>None\<close> when there is none) and their number.
\<close>

definition volume_apply :: "rat option \<times> int \<Rightarrow> int \<Rightarrow> rat \<Rightarrow> string \<Rightarrow> string \<Rightarrow>
    exn + stage_result" where
  "volume_apply history current multiplier rule_id strategy =
     (case history of (historical_average, prior_run_count) \<Rightarrow>
        if prior_run_count < min_prior_runs
        then Inr (barrier_result
          \<lparr>vr_rule_id = rule_id, vr_outcome = ''PASS'',
           vr_message = Msg ''only {} prior SUCCEEDED VOLUME run(s) for this dataset -- no meaningful historical baseline yet, skipping comparison''
             [VInt prior_run_count],
           vr_rule_type = ''VOLUME'', vr_severity = ''WARNING'',
           vr_evaluated_count = current, vr_failed_count = 0,
           vr_threshold = [(''multiplier'', VFloat multiplier)],
           vr_observed = [(''historical_average'', VNone), (''prior_run_count'', VInt prior_run_count)]\<rparr>)
        else
          (case historical_average of
             None \<Rightarrow> Inl (Exn PyAssertionError [])
           | Some average \<Rightarrow>
               (let observed = [(''current_row_count'', VInt current),
                  (''historical_average'', VFloat average), (''multiplier'', VFloat multiplier)] in
                if round_double (average * multiplier) < of_int current
                then Inr (barrier_result
                  \<lparr>vr_rule_id = rule_id, vr_outcome = strategy_to_outcome strategy,
                   vr_message = Msg ''row count {} exceeds {}x historical average {}''
                     [VInt current, VFloat multiplier, VFloat average],
                   vr_rule_type = ''VOLUME'', vr_severity = ''ERROR'',
                   vr_evaluated_count = current, vr_failed_count = 1,
                   vr_threshold = [(''multiplier'', VFloat multiplier)], vr_observed = observed\<rparr>)
                else Inr (barrier_result
                  \<lparr>vr_rule_id = rule_id, vr_outcome = ''PASS'',
                   vr_message = Msg ''row count within historical bounds'' [],
                   vr_rule_type = ''VOLUME'', vr_severity = ''ERROR'',
                   vr_evaluated_count = current, vr_failed_count = 0,
                   vr_threshold = [(''multiplier'', VFloat multiplier)], vr_observed = observed\<rparr>))))"

section \<open>The rule registry\<close>

datatype rule_class =
    RuleRaggedRowGuard | RuleCompleteness | RuleUniqueness | RuleValidityRange | RulePattern
  | RuleCircuitBreaker | RuleReferential | RuleVolume

definition validation_rule_registry :: "(string \<times> rule_class) list" where
  "validation_rule_registry =
     [(''STRUCTURAL'', RuleRaggedRowGuard),
      (''QUALITY_COMPLETENESS'', RuleCompleteness),
      (''QUALITY_UNIQUENESS'', RuleUniqueness),
      (''QUALITY_VALIDITY_RANGE'', RuleValidityRange),
      (''QUALITY_PATTERN'', RulePattern),
      (''CIRCUIT_BREAKER'', RuleCircuitBreaker),
      (''REFERENTIAL'', RuleReferential),
      (''VOLUME'', RuleVolume)]"

definition resolve_validation_rule :: "string \<Rightarrow> exn + rule_class" where
  "resolve_validation_rule rule_type =
     (case map_of validation_rule_registry rule_type of
        Some r \<Rightarrow> Inr r
      | None \<Rightarrow> Inl (dp_error ConfigurationError
          [(''rule_type'', VStr rule_type),
           (''known'', VList (map VStr (sort (map fst validation_rule_registry))))]))"

section \<open>The stage contract\<close>

lemma completeness_numbers: "numbers_rows (completeness_body cfg)"
  by (rule numbers_rowsI) (auto simp: completeness_body_def split: option.splits if_splits)

lemma range_numbers: "numbers_rows (range_body cfg)"
  by (rule numbers_rowsI) (auto simp: range_body_def split: option.splits if_splits)

lemma pattern_numbers: "numbers_rows (pattern_body fullmatch cfg)"
  by (rule numbers_rowsI) (auto simp: pattern_body_def split: option.splits if_splits)

interpretation completeness: streaming_stage completeness_apply
  by (rule loop_stage_contract [OF completeness_apply_def completeness_numbers])

interpretation validity_range: streaming_stage range_apply
  by (rule loop_stage_contract [OF range_apply_def range_numbers])

interpretation pattern: streaming_stage "pattern_apply fullmatch" for fullmatch
  by (rule loop_stage_contract [OF pattern_apply_def pattern_numbers])

lemma uniqueness_loop_length:
  "uniqueness_loop cfg seen n rs = Inr (kept, rejected) \<Longrightarrow>
     length kept + length rejected = length rs"
  by (induction rs arbitrary: seen n kept rejected)
    (auto split: option.splits if_splits sum.splits prod.splits)

lemma uniqueness_loop_range:
  "uniqueness_loop cfg seen n rs = Inr (kept, rejected) \<Longrightarrow> x \<in> set rejected \<Longrightarrow>
     n \<le> rj_source_row_number x \<and> rj_source_row_number x < n + int (length rs)"
proof (induction rs arbitrary: seen n kept rejected)
  case Nil
  then show ?case by simp
next
  case (Cons r rs)
  then show ?case
    by (fastforce split: option.splits if_splits sum.splits prod.splits)
qed

interpretation uniqueness: streaming_stage uniqueness_apply
proof
  fix s c r
  assume "uniqueness_apply s c = Inr r"
  then obtain kept rejected
    where loop: "uniqueness_loop s [] (rc_first_ordinal c) (rc_rows c) = Inr (kept, rejected)"
      and r: "r = stage_result_of c (kept, rejected)"
    by (auto simp: uniqueness_apply_def split: sum.splits)
  show "length (rc_rows (sr_chunk r)) + length (sr_rejected r) = length (rc_rows c)"
    using uniqueness_loop_length [OF loop] r by simp
  show "rc_first_ordinal (sr_chunk r) = rc_first_ordinal c \<and>
      rc_expected_field_count (sr_chunk r) = rc_expected_field_count c"
    using r by simp
  show "rc_first_ordinal c \<le> rj_source_row_number x \<and>
      rj_source_row_number x < rc_first_ordinal c + chunk_len c"
    if "x \<in> set (sr_rejected r)" for x
    using uniqueness_loop_range [OF loop, of x] that r by simp
qed

text \<open>Wrapping stages that meet the contract gives stages that meet it.\<close>

context streaming_stage
begin

lemma dispatch_contract:
  "streaming_stage (\<lambda>(cfg, s). strategy_dispatch_apply apply_stage cfg s)"
proof
  fix st c r
  assume "(\<lambda>(cfg, s). strategy_dispatch_apply apply_stage cfg s) st c = Inr r"
  then obtain cfg s m where st: "st = (cfg, s)" and m: "apply_stage s c = Inr m"
    and r: "r = m \<or> (sr_chunk r = c \<and> sr_rejected r = [])"
    by (cases st) (auto simp: strategy_dispatch_apply_def split: sum.splits if_splits)
  show "length (rc_rows (sr_chunk r)) + length (sr_rejected r) = length (rc_rows c)"
    using r conserve [OF m] by auto
  show "rc_first_ordinal (sr_chunk r) = rc_first_ordinal c \<and>
      rc_expected_field_count (sr_chunk r) = rc_expected_field_count c"
    using r frame [OF m] by auto
  show "rc_first_ordinal c \<le> rj_source_row_number x \<and>
      rj_source_row_number x < rc_first_ordinal c + chunk_len c"
    if "x \<in> set (sr_rejected r)" for x
    using r range [OF m, of x] that by auto
qed

end

section \<open>What the rules decide\<close>

text \<open>Rows wide enough for the column and the business key never raise.\<close>

definition wide_enough :: "rule_config \<Rightarrow> row list \<Rightarrow> bool" where
  "wide_enough cfg rs \<longleftrightarrow>
     list_all (\<lambda>r. ru_column_index cfg < length r \<and>
       (case ru_business_key_index cfg of None \<Rightarrow> True | Some i \<Rightarrow> i < length r)) rs"

definition business_key_of :: "rule_config \<Rightarrow> row \<Rightarrow> string option" where
  "business_key_of cfg r =
     (case ru_business_key_index cfg of
        None \<Rightarrow> None
      | Some i \<Rightarrow> if r ! i = CNone \<or> r ! i = CStr '''' then None else Some (field_text (r ! i)))"

lemma rule_reject_wide:
  "wide_enough cfg [r] \<Longrightarrow> rule_reject cfg t m n r =
     Inr (Inl \<lparr>rj_source_row_number = n, rj_error_type = t, rj_error_message = m,
       rj_raw_line = reconstruct_raw_line r, rj_error_column = Some (ru_column_name cfg),
       rj_business_key = business_key_of cfg r\<rparr>)"
  by (auto simp: wide_enough_def rule_reject_def extract_business_key_def business_key_of_def
      split: option.splits)

lemma wide_enough_mem: "wide_enough cfg rs \<Longrightarrow> r \<in> set rs \<Longrightarrow>
    ru_column_index cfg < length r \<and> wide_enough cfg [r]"
  by (auto simp: wide_enough_def list_all_iff)

abbreviation absent :: "cell \<Rightarrow> bool" where
  "absent v \<equiv> v = CNone \<or> v = CStr ''''"

text \<open>\<open>CompletenessRule\<close> keeps exactly the rows whose column is present, in order, and
  reports every other row once, at its own row number, with its business key.\<close>

theorem completeness_decides:
  assumes "wide_enough cfg (rc_rows c)"
  shows "\<exists>res. completeness_apply cfg c = Inr res \<and>
    rc_rows (sr_chunk res) = filter (\<lambda>r. \<not> absent (r ! ru_column_index cfg)) (rc_rows c) \<and>
    map (\<lambda>x. (rj_source_row_number x, rj_error_type x, rj_business_key x)) (sr_rejected res) =
      map (\<lambda>(i, r). (rc_first_ordinal c + int i, ''COMPLETENESS_VIOLATION'', business_key_of cfg r))
        (filter (\<lambda>(i, r). absent (r ! ru_column_index cfg)) (enumerate 0 (rc_rows c)))"
proof -
  let ?g = "\<lambda>n r. \<lparr>rj_source_row_number = n, rj_error_type = ''COMPLETENESS_VIOLATION'',
    rj_error_message = Msg ''required column {!r} is empty'' [VStr (ru_column_name cfg)],
    rj_raw_line = reconstruct_raw_line r, rj_error_column = Some (ru_column_name cfg),
    rj_business_key = business_key_of cfg r\<rparr>"
  have body: "completeness_body cfg n r =
      Inr (if \<not> absent (r ! ru_column_index cfg) then Inr r else Inl (?g n r))"
    if "r \<in> set (rc_rows c)" for n r
    using wide_enough_mem [OF assms that] by (simp add: completeness_body_def rule_reject_wide)
  have "row_loop (completeness_body cfg) (rc_first_ordinal c) (rc_rows c) =
    Inr (filter (\<lambda>r. \<not> absent (r ! ru_column_index cfg)) (rc_rows c),
         map (\<lambda>(i, r). ?g (rc_first_ordinal c + int i) r)
           (filter (\<lambda>(i, r). \<not> \<not> absent (r ! ru_column_index cfg)) (enumerate 0 (rc_rows c))))"
    by (rule row_loop_filter) (rule body)
  then show ?thesis
    by (simp add: completeness_apply_def loop_stage_def o_def split_def)
qed

theorem completeness_decides_witness:
  "\<exists>res. completeness_apply \<lparr>ru_column_index = 0, ru_column_name = ''id'', ru_strategy = ''REJECT_RECORD'',
       ru_rule_id = ''r'', ru_business_key_index = Some 1\<rparr>
     \<lparr>rc_rows = [[CStr ''a'', CStr ''k''], [CNone, CStr ''k2'']], rc_first_ordinal = 7,
      rc_expected_field_count = 2\<rparr> = Inr res \<and>
     rc_rows (sr_chunk res) = [[CStr ''a'', CStr ''k'']] \<and>
     map (\<lambda>x. (rj_source_row_number x, rj_error_type x, rj_business_key x)) (sr_rejected res) =
       [(8, ''COMPLETENESS_VIOLATION'', Some ''k2'')]"
  using completeness_decides [of "\<lparr>ru_column_index = 0, ru_column_name = ''id'',
       ru_strategy = ''REJECT_RECORD'', ru_rule_id = ''r'', ru_business_key_index = Some 1\<rparr>"
     "\<lparr>rc_rows = [[CStr ''a'', CStr ''k''], [CNone, CStr ''k2'']], rc_first_ordinal = 7,
      rc_expected_field_count = 2\<rparr>"]
  by (simp add: wide_enough_def business_key_of_def)

lemma uniqueness_loop_first:
  "uniqueness_loop cfg seen n rs = Inr (kept, rejected) \<Longrightarrow>
     kept = nths rs (first_positions (\<lambda>r. r ! ru_column_index cfg) (set seen) rs)"
proof (induction rs arbitrary: seen n kept rejected)
  case Nil
  then show ?case by simp
next
  case (Cons r rs)
  let ?k = "ru_column_index cfg"
  from Cons.prems have len: "?k < length r" by (cases "?k < length r") auto
  show ?case
  proof (cases "r ! ?k \<in> set seen")
    case True
    with Cons.prems len obtain rej where "uniqueness_loop cfg seen (n + 1) rs = Inr (kept, rej)"
      by (auto split: sum.splits prod.splits)
    from Cons.IH [OF this] True show ?thesis by (simp add: nths_first_Cons)
  next
    case False
    with Cons.prems len obtain ks where kept: "kept = r # ks"
      and "uniqueness_loop cfg (r ! ?k # seen) (n + 1) rs = Inr (ks, rejected)"
      by (auto split: sum.splits prod.splits)
    from Cons.IH [OF this(2)] False kept show ?thesis by (simp add: nths_first_Cons)
  qed
qed

text \<open>\<open>UniquenessRule\<close> keeps exactly the first row of every value of its column in the
  chunk: the kept rows are the first occurrences in order, their values are distinct, and no
  value of the chunk is lost.\<close>

theorem uniqueness_keeps_first:
  assumes "uniqueness_apply cfg c = Inr res"
  shows "rc_rows (sr_chunk res) =
      nths (rc_rows c) {i. rc_rows c ! i ! ru_column_index cfg \<notin>
        (\<lambda>r. r ! ru_column_index cfg) ` set (take i (rc_rows c))} \<and>
    distinct (map (\<lambda>r. r ! ru_column_index cfg) (rc_rows (sr_chunk res))) \<and>
    (\<lambda>r. r ! ru_column_index cfg) ` set (rc_rows (sr_chunk res)) =
      (\<lambda>r. r ! ru_column_index cfg) ` set (rc_rows c)"
proof -
  from assms obtain kept rejected
    where "uniqueness_loop cfg [] (rc_first_ordinal c) (rc_rows c) = Inr (kept, rejected)"
      and "rc_rows (sr_chunk res) = kept"
    by (auto simp: uniqueness_apply_def split: sum.splits)
  then have kept: "rc_rows (sr_chunk res) =
      nths (rc_rows c) (first_positions (\<lambda>r. r ! ru_column_index cfg) {} (rc_rows c))"
    using uniqueness_loop_first by fastforce
  let ?f = "\<lambda>r. r ! ru_column_index cfg"
  have "distinct (map ?f (rc_rows (sr_chunk res)))"
    unfolding kept by (rule nths_first_distinct)
  moreover have "?f ` set (rc_rows (sr_chunk res)) = ?f ` set (rc_rows c)"
    unfolding kept by (simp add: nths_first_image)
  ultimately show ?thesis using kept by (simp add: first_positions_def)
qed

theorem uniqueness_keeps_first_witness:
  "\<exists>res. uniqueness_apply \<lparr>ru_column_index = 0, ru_column_name = ''id'', ru_strategy = ''REJECT_RECORD'',
       ru_rule_id = ''r'', ru_business_key_index = None\<rparr>
     \<lparr>rc_rows = [[CStr ''a''], [CStr ''b''], [CStr ''a'']], rc_first_ordinal = 0,
      rc_expected_field_count = 1\<rparr> = Inr res \<and>
     distinct (map (\<lambda>r. r ! 0) (rc_rows (sr_chunk res)))"
proof -
  let ?cfg = "\<lparr>ru_column_index = 0, ru_column_name = ''id'', ru_strategy = ''REJECT_RECORD'',
       ru_rule_id = ''r'', ru_business_key_index = None\<rparr>"
  let ?c = "\<lparr>rc_rows = [[CStr ''a''], [CStr ''b''], [CStr ''a'']], rc_first_ordinal = 0,
      rc_expected_field_count = 1\<rparr>"
  obtain res where res: "uniqueness_apply ?cfg ?c = Inr res"
    by (simp add: uniqueness_apply_def rule_reject_def extract_business_key_def)
  from uniqueness_keeps_first [OF res]
  have "distinct (map (\<lambda>r. r ! ru_column_index ?cfg) (rc_rows (sr_chunk res)))" by blast
  then have "distinct (map (\<lambda>r. r ! 0) (rc_rows (sr_chunk res)))"
    by (simp only: rule_config.select_convs)
  with res show ?thesis by blast
qed

text \<open>\<open>ValidityRangeRule\<close> keeps a row exactly when its field reads as a float that is
  not below the minimum and not above the maximum, and leaves kept rows untouched.\<close>

theorem range_decides:
  assumes "wide_enough (rule_config.truncate cfg) (rc_rows c)"
  shows "\<exists>res. range_apply cfg c = Inr res \<and>
    rc_rows (sr_chunk res) =
      filter (\<lambda>r. case float_of_cell (r ! ru_column_index cfg) of
                None \<Rightarrow> False
              | Some v \<Rightarrow> \<not> out_of_bounds (vr_minimum cfg) (vr_maximum cfg) v) (rc_rows c)"
proof -
  let ?P = "\<lambda>r. case float_of_cell (r ! ru_column_index cfg) of
                None \<Rightarrow> False
              | Some v \<Rightarrow> \<not> out_of_bounds (vr_minimum cfg) (vr_maximum cfg) v"
  define g where "g n r = (case range_body cfg n r of Inr (Inl x) \<Rightarrow> x | _ \<Rightarrow> undefined)" for n r
  have body: "range_body cfg n r = Inr (if ?P r then Inr r else Inl (g n r))"
    if "r \<in> set (rc_rows c)" for n r
    using wide_enough_mem [OF assms that]
    by (auto simp: g_def range_body_def rule_reject_wide rule_config.truncate_def split: option.splits)
  have "row_loop (range_body cfg) (rc_first_ordinal c) (rc_rows c) =
    Inr (filter ?P (rc_rows c),
         map (\<lambda>(i, r). g (rc_first_ordinal c + int i) r)
           (filter (\<lambda>(i, r). \<not> ?P r) (enumerate 0 (rc_rows c))))"
    by (rule row_loop_filter) (rule body)
  then show ?thesis by (simp add: range_apply_def loop_stage_def)
qed


theorem range_decides_witness:
  "\<exists>res. range_apply \<lparr>ru_column_index = 0, ru_column_name = ''q'', ru_strategy = ''REJECT_RECORD'',
       ru_rule_id = ''r'', ru_business_key_index = None, vr_minimum = Some 1, vr_maximum = None\<rparr>
     \<lparr>rc_rows = [[CStr ''2''], [CStr ''x''], [CNone], [CStr ''-1.5'']], rc_first_ordinal = 0,
      rc_expected_field_count = 1\<rparr> = Inr res \<and> rc_rows (sr_chunk res) = [[CStr ''2'']]"
proof -
  have "is_double 2" "is_double (- 3 / 2)" by code_simp+
  then have "float_of_cell (CStr ''2'') = Some (FFin 2)"
    and "float_of_cell (CStr ''-1.5'') = Some (FFin (- 3 / 2))"
    by (simp_all add: py_float_simps double_of_rat_small)
  moreover have "float_of_cell (CStr ''x'') = None" by code_simp
  ultimately show ?thesis
    using range_decides [of "\<lparr>ru_column_index = 0, ru_column_name = ''q'', ru_strategy = ''REJECT_RECORD'',
       ru_rule_id = ''r'', ru_business_key_index = None, vr_minimum = Some 1, vr_maximum = None\<rparr>"
     "\<lparr>rc_rows = [[CStr ''2''], [CStr ''x''], [CNone], [CStr ''-1.5'']], rc_first_ordinal = 0,
      rc_expected_field_count = 1\<rparr>"]
    by (simp add: wide_enough_def rule_config.truncate_def out_of_bounds_def)
qed

text \<open>The text \<open>nan\<close> passes every configured bound: the float it reads as compares
  false with the minimum and with the maximum, so \<open>ValidityRangeRule\<close> keeps the row.\<close>

lemma range_accepts_nan:
  "range_apply \<lparr>ru_column_index = 0, ru_column_name = name, ru_strategy = st, ru_rule_id = rid,
      ru_business_key_index = key, vr_minimum = minimum, vr_maximum = maximum\<rparr>
     \<lparr>rc_rows = [[CStr ''nan'']], rc_first_ordinal = n, rc_expected_field_count = 1\<rparr> =
   Inr \<lparr>sr_chunk = \<lparr>rc_rows = [[CStr ''nan'']], rc_first_ordinal = n, rc_expected_field_count = 1\<rparr>,
        sr_rejected = [], sr_findings = []\<rparr>"
proof -
  have "float_of_cell (CStr ''nan'') = Some FNaN" by code_simp
  then show ?thesis
    by (simp add: range_apply_def loop_stage_def range_body_def out_of_bounds_def
        stage_result_of_def split: option.splits)
qed

text \<open>what a violation does under each configured strategy: a record strategy leaves the
  rule's own result, \<open>WARN_AND_CONTINUE\<close> gives every row back and adds one warning that
  counts the violations, a file strategy raises; without a violation nothing changes.\<close>

theorem strategy_dispatch_decides:
  assumes "inner_apply inner c = Inr result"
    and "strategy_dispatch_init (dp_strategy cfg) (dp_rule_id cfg) = None"
  shows "strategy_dispatch_apply inner_apply cfg inner c =
    (if sr_rejected result = [] \<or> dp_strategy cfg = ''REJECT_RECORD'' \<or>
        dp_strategy cfg = ''QUARANTINE_RECORD''
     then Inr result
     else if dp_strategy cfg = ''WARN_AND_CONTINUE''
     then Inr \<lparr>sr_chunk = c, sr_rejected = [],
               sr_findings = sr_findings result @
                 [warning_finding cfg c (length (sr_rejected result))]\<rparr>
     else Inl (Exn QualityThresholdExceeded
       [(''rule_id'', VStr (dp_rule_id cfg)), (''rule_type'', VStr (dp_rule_type cfg)),
        (''strategy'', VStr (dp_strategy cfg)),
        (''violation_count'', VInt (int (length (sr_rejected result))))])) \<and>
    (dp_strategy cfg \<noteq> ''REJECT_RECORD'' \<and> dp_strategy cfg \<noteq> ''QUARANTINE_RECORD'' \<and>
      dp_strategy cfg \<noteq> ''WARN_AND_CONTINUE'' \<longrightarrow> dp_strategy cfg \<in> set escalating_strategies)"
  using assms
  by (auto simp: strategy_dispatch_apply_def strategy_dispatch_init_def passthrough_strategies_def
      dp_error_def reserved_context_keys_def known_strategies_def escalating_strategies_def
      split: if_splits)

theorem strategy_dispatch_decides_witness:
  "strategy_dispatch_apply ragged_apply
     \<lparr>dp_strategy = ''WARN_AND_CONTINUE'', dp_rule_id = ''r'', dp_rule_type = ''STRUCTURAL''\<rparr> '',''
     \<lparr>rc_rows = [[CNone]], rc_first_ordinal = 0, rc_expected_field_count = 2\<rparr> =
   Inr \<lparr>sr_chunk = \<lparr>rc_rows = [[CNone]], rc_first_ordinal = 0, rc_expected_field_count = 2\<rparr>,
        sr_rejected = [],
        sr_findings = [warning_finding
          \<lparr>dp_strategy = ''WARN_AND_CONTINUE'', dp_rule_id = ''r'', dp_rule_type = ''STRUCTURAL''\<rparr>
          \<lparr>rc_rows = [[CNone]], rc_first_ordinal = 0, rc_expected_field_count = 2\<rparr> 1]\<rparr>"
proof -
  let ?c = "\<lparr>rc_rows = [[CNone]], rc_first_ordinal = 0, rc_expected_field_count = 2\<rparr>"
  let ?cfg = "\<lparr>dp_strategy = ''WARN_AND_CONTINUE'', dp_rule_id = ''r'', dp_rule_type = ''STRUCTURAL''\<rparr>"
  obtain res where res: "ragged_apply '','' ?c = Inr res" and "length (sr_rejected res) = 1"
      and "sr_findings res = []"
    by (simp add: ragged_apply_eq)
  moreover have "strategy_dispatch_init (dp_strategy ?cfg) (dp_rule_id ?cfg) = None"
    by (simp add: strategy_dispatch_init_def known_strategies_def)
  ultimately show ?thesis
    using strategy_dispatch_decides [where inner_apply = ragged_apply and inner = "'',''" and c = ?c
        and result = res and cfg = ?cfg] by auto
qed

text \<open>the rejection-rate breaker never trips on a run whose exact rejection rate is within
  the configured threshold, whatever binary64 rounding does to the quotient; and the context of
  the error it raises reports the totals it was given.\<close>

theorem rejection_breaker_sound:
  assumes "is_double threshold" and "0 \<le> rejected" and "0 < rows_read"
    and "of_int rejected \<le> threshold * of_int rows_read"
  shows "\<exists>f. rejection_rate_apply threshold rows_read rejected rule_id = Inr (barrier_result f) \<and>
    vr_outcome f = ''PASS'' \<and> vr_evaluated_count f = rows_read \<and> vr_failed_count f = rejected"
  using float_div_le [OF assms] assms(3)
  by (auto simp: rejection_rate_apply_def Let_def barrier_result_def)

theorem rejection_breaker_sound_witness:
  "\<exists>f. rejection_rate_apply (1 / 2) 4 2 ''b'' = Inr (barrier_result f) \<and> vr_failed_count f = 2"
proof -
  have "is_double (1 / 2)" by code_simp
  from rejection_breaker_sound [OF this, of 2 4 "''b''"] show ?thesis by auto
qed

text \<open>the volume barrier never raises on the answer a \<open>COUNT\<close>/\<open>AVG\<close> query can give (an
  average whenever two or more runs exist), never rejects a row, and reports an outcome other
  than \<open>PASS\<close> only for a row count above the scaled average of at least two runs.\<close>

theorem volume_barrier_total:
  assumes "min_prior_runs \<le> snd history \<longrightarrow> fst history \<noteq> None"
  shows "\<exists>f. volume_apply history current multiplier rule_id strategy = Inr (barrier_result f) \<and>
    vr_evaluated_count f = current \<and>
    (vr_outcome f \<noteq> ''PASS'' \<longrightarrow> vr_outcome f = strategy_to_outcome strategy \<and>
       (\<exists>average. fst history = Some average \<and> min_prior_runs \<le> snd history \<and>
          round_double (average * multiplier) < of_int current))"
  using assms by (cases history) (auto simp: volume_apply_def Let_def split: option.splits)

theorem volume_barrier_total_witness:
  "\<exists>f. volume_apply (Some 10, 3) 500 10 ''v'' ''WARN_AND_CONTINUE'' = Inr (barrier_result f) \<and>
     vr_evaluated_count f = 500"
  using volume_barrier_total [of "(Some 10, 3)" 500 10 "''v''" "''WARN_AND_CONTINUE''"] by auto

end
