(* ===== verification/BooleanNull.thy ===== *)
theory BooleanNull
  imports Engine
begin

text \<open>
  The normalizers of \<open>normalize/boolean_null.py\<close> and \<open>normalize/unicode.py\<close>.  A declared
  NULL token becomes the absent field, a declared boolean token becomes a Python \<open>bool\<close>, an
  undeclared one is a rejected record, and every remaining \<open>str\<close> is NFC-normalized
  (\<open>unicodedata.normalize("NFC", _)\<close> is the parameter \<open>nfc\<close>).
\<close>

section \<open>NullTokenNormalizer\<close>

record null_config =
  nt_column_index :: nat
  nt_column_name :: string
  nt_null_tokens :: "string list"

text \<open>\<open>value in tokens\<close>: equality with a token of the tuple; only a \<open>str\<close> can be equal.\<close>

fun cell_in :: "cell \<Rightarrow> string list \<Rightarrow> bool" where
  "cell_in (CStr s) tokens = (s \<in> set tokens)"
| "cell_in _ tokens = False"

definition null_body :: "null_config \<Rightarrow> row_body" where
  "null_body cfg n r =
     (case py_index r (nt_column_index cfg) of
        None \<Rightarrow> Inl (Exn PyIndexError [])
      | Some v \<Rightarrow>
          Inr (Inr (if cell_in v (nt_null_tokens cfg) then r[nt_column_index cfg := CNone] else r)))"

definition null_apply :: "null_config \<Rightarrow> chunk \<Rightarrow> exn + stage_result" where
  "null_apply cfg c = loop_stage (null_body cfg) c"

section \<open>BooleanNormalizer\<close>

record boolean_config =
  bn_column_index :: nat
  bn_column_name :: string
  bn_true_tokens :: "string list"
  bn_false_tokens :: "string list"

definition boolean_raw_line :: "string \<Rightarrow> row \<Rightarrow> string" where
  "boolean_raw_line field_delimiter r = join field_delimiter (map field_text r)"

definition boolean_body :: "boolean_config \<Rightarrow> row_body" where
  "boolean_body cfg n r =
     (let idx = bn_column_index cfg in
      case py_index r idx of
        None \<Rightarrow> Inl (Exn PyIndexError [])
      | Some v \<Rightarrow>
          if v = CNone then Inr (Inr r)
          else if cell_in v (bn_true_tokens cfg) then Inr (Inr (r[idx := CBool True]))
          else if cell_in v (bn_false_tokens cfg) then Inr (Inr (r[idx := CBool False]))
          else Inr (Inl
            \<lparr>rj_source_row_number = n, rj_error_type = ''unmapped-boolean-token'',
             rj_error_message =
               Msg ''value {!r} at column {!r} is not a declared boolean token (true_tokens={!r}, false_tokens={!r})''
                 [cell_val v, VStr (bn_column_name cfg), VList (map VStr (bn_true_tokens cfg)),
                  VList (map VStr (bn_false_tokens cfg))],
             rj_raw_line = boolean_raw_line '','' r,
             rj_error_column = Some (bn_column_name cfg), rj_business_key = None\<rparr>))"

definition boolean_apply :: "boolean_config \<Rightarrow> chunk \<Rightarrow> exn + stage_result" where
  "boolean_apply cfg c = loop_stage (boolean_body cfg) c"

section \<open>UnicodeNormalizer\<close>

fun nfc_cell :: "(string \<Rightarrow> string) \<Rightarrow> cell \<Rightarrow> cell" where
  "nfc_cell nfc (CStr s) = CStr (nfc s)"
| "nfc_cell nfc v = v"

definition unicode_apply :: "(string \<Rightarrow> string) \<Rightarrow> chunk \<Rightarrow> exn + stage_result" where
  "unicode_apply nfc c =
     Inr (stage_result_of c (map (map (nfc_cell nfc)) (rc_rows c), []))"

section \<open>The stage contract\<close>

lemma null_numbers: "numbers_rows (null_body cfg)"
  by (rule numbers_rowsI) (auto simp: null_body_def split: option.splits)

lemma boolean_numbers: "numbers_rows (boolean_body cfg)"
  by (rule numbers_rowsI) (auto simp: boolean_body_def Let_def split: option.splits if_splits)

interpretation null_token: streaming_stage null_apply
  by (rule loop_stage_contract [OF null_apply_def null_numbers])

interpretation boolean: streaming_stage boolean_apply
  by (rule loop_stage_contract [OF boolean_apply_def boolean_numbers])

interpretation unicode: streaming_stage "\<lambda>_ :: unit. unicode_apply nfc" for nfc
  by unfold_locales (auto simp: unicode_apply_def)

section \<open>What the normalizers do\<close>

lemma null_apply_eq:
  assumes "\<forall>r \<in> set (rc_rows c). nt_column_index cfg < length r"
  shows "null_apply cfg c = Inr (stage_result_of c
    (map (\<lambda>r. if cell_in (r ! nt_column_index cfg) (nt_null_tokens cfg)
              then r[nt_column_index cfg := CNone] else r) (rc_rows c), []))"
proof -
  have "row_loop (null_body cfg) (rc_first_ordinal c) (rc_rows c) =
    Inr (map (\<lambda>r. if cell_in (r ! nt_column_index cfg) (nt_null_tokens cfg)
              then r[nt_column_index cfg := CNone] else r) (rc_rows c), [])"
    by (rule row_loop_map) (use assms in \<open>simp add: null_body_def\<close>)
  then show ?thesis by (simp add: null_apply_def loop_stage_def)
qed

text \<open>\<open>NullTokenNormalizer\<close> rejects nothing, blanks its column exactly where the whole field
  equals a declared token (never on a substring), touches no other field, and running it again
  changes nothing.\<close>

theorem null_tokens_exact:
  assumes "\<forall>r \<in> set (rc_rows c). nt_column_index cfg < length r"
  shows "\<exists>res. null_apply cfg c = Inr res \<and> sr_rejected res = [] \<and>
    list_all2 (\<lambda>r r'. length r' = length r \<and>
        (\<forall>j < length r. r' ! j =
           (if j = nt_column_index cfg \<and> (\<exists>s \<in> set (nt_null_tokens cfg). r ! j = CStr s)
            then CNone else r ! j)))
      (rc_rows c) (rc_rows (sr_chunk res)) \<and>
    null_apply cfg (sr_chunk res) = Inr res"
proof -
  let ?i = "nt_column_index cfg"
  let ?g = "\<lambda>r. if cell_in (r ! ?i) (nt_null_tokens cfg) then r[?i := CNone] else r"
  let ?res = "stage_result_of c (map ?g (rc_rows c), [])"
  have cell: "cell_in v ts \<longleftrightarrow> (\<exists>s \<in> set ts. v = CStr s)" for v ts by (cases v) auto
  have idem: "?g (?g r) = ?g r" if "?i < length r" for r using that by simp
  have "null_apply cfg (sr_chunk ?res) = Inr ?res"
    by (subst null_apply_eq) (use assms idem in \<open>auto simp: stage_result_of_def\<close>)
  moreover have "list_all2 (\<lambda>r r'. length r' = length r \<and>
        (\<forall>j < length r. r' ! j =
           (if j = ?i \<and> (\<exists>s \<in> set (nt_null_tokens cfg). r ! j = CStr s) then CNone else r ! j)))
      (rc_rows c) (rc_rows (sr_chunk ?res))"
    by (auto simp: list_all2_conv_all_nth cell nth_list_update)
  ultimately show ?thesis using null_apply_eq [OF assms] by auto
qed

theorem null_tokens_exact_witness:
  "\<exists>res. null_apply \<lparr>nt_column_index = 1, nt_column_name = ''name'', nt_null_tokens = ['''', ''NULL'']\<rparr>
     \<lparr>rc_rows = [[CStr ''1'', CStr ''NULL Industries''], [CStr ''NULL'', CStr ''NULL'']],
      rc_first_ordinal = 0, rc_expected_field_count = 2\<rparr> = Inr res \<and> sr_rejected res = []"
  using null_tokens_exact [of "\<lparr>rc_rows = [[CStr ''1'', CStr ''NULL Industries''], [CStr ''NULL'', CStr ''NULL'']],
      rc_first_ordinal = 0, rc_expected_field_count = 2\<rparr>"
      "\<lparr>nt_column_index = 1, nt_column_name = ''name'', nt_null_tokens = ['''', ''NULL'']\<rparr>"]
  by auto

definition boolean_meaning :: "boolean_config \<Rightarrow> cell \<Rightarrow> cell option" where
  "boolean_meaning cfg v =
     (if v = CNone then Some CNone
      else if cell_in v (bn_true_tokens cfg) then Some (CBool True)
      else if cell_in v (bn_false_tokens cfg) then Some (CBool False) else None)"

text \<open>\<open>BooleanNormalizer\<close> never guesses: a row is kept exactly when its field is absent or
  one of the declared tokens, it then holds the absent field, \<open>True\<close> or \<open>False\<close> as declared,
  and every other row is a rejected record at its own position.\<close>

theorem boolean_never_guesses:
  assumes "\<forall>r \<in> set (rc_rows c). bn_column_index cfg < length r"
  shows "\<exists>res. boolean_apply cfg c = Inr res \<and>
    rc_rows (sr_chunk res) =
      map (\<lambda>r. r[bn_column_index cfg := the (boolean_meaning cfg (r ! bn_column_index cfg))])
        (filter (\<lambda>r. boolean_meaning cfg (r ! bn_column_index cfg) \<noteq> None) (rc_rows c)) \<and>
    map (\<lambda>x. (rj_source_row_number x, rj_error_type x)) (sr_rejected res) =
      map (\<lambda>(i, r). (rc_first_ordinal c + int i, ''unmapped-boolean-token''))
        (filter (\<lambda>(i, r). boolean_meaning cfg (r ! bn_column_index cfg) = None)
          (enumerate 0 (rc_rows c)))"
proof -
  let ?i = "bn_column_index cfg"
  define h where "h r = map_option (\<lambda>v. r[?i := v]) (boolean_meaning cfg (r ! ?i))" for r :: row
  define g where "g n r = (case boolean_body cfg n r of Inr (Inl x) \<Rightarrow> x | _ \<Rightarrow> undefined)" for n r
  have same: "r[i := CNone] = r" if "r ! i = CNone" for r :: row and i
    using list_update_id [of r i] that by simp
  have body: "boolean_body cfg n r = Inr (case h r of None \<Rightarrow> Inl (g n r) | Some r' \<Rightarrow> Inr r')"
    if "r \<in> set (rc_rows c)" for n r
    using assms that same [of r ?i]
    by (auto simp: g_def h_def boolean_body_def boolean_meaning_def Let_def)
  have loop: "row_loop (boolean_body cfg) (rc_first_ordinal c) (rc_rows c) =
    Inr (map (\<lambda>r. the (h r)) (filter (\<lambda>r. h r \<noteq> None) (rc_rows c)),
         map (\<lambda>(i, r). g (rc_first_ordinal c + int i) r)
           (filter (\<lambda>(i, r). h r = None) (enumerate 0 (rc_rows c))))"
    by (rule row_loop_map_filter) (rule body)
  have hNone: "h r = None \<longleftrightarrow> boolean_meaning cfg (r ! ?i) = None" for r by (simp add: h_def)
  have rej: "rj_source_row_number (g n r) = n \<and> rj_error_type (g n r) = ''unmapped-boolean-token''"
    if "r \<in> set (rc_rows c)" "boolean_meaning cfg (r ! ?i) = None" for n r
    using that assms by (auto simp: g_def boolean_body_def boolean_meaning_def Let_def split: if_splits)
  have "map (\<lambda>x. (rj_source_row_number x, rj_error_type x))
      (map (\<lambda>(i, r). g (rc_first_ordinal c + int i) r)
        (filter (\<lambda>(i, r). h r = None) (enumerate 0 (rc_rows c)))) =
    map (\<lambda>(i, r). (rc_first_ordinal c + int i, ''unmapped-boolean-token''))
        (filter (\<lambda>(i, r). boolean_meaning cfg (r ! ?i) = None) (enumerate 0 (rc_rows c)))"
    using rej by (auto simp: hNone o_def dest!: in_set_enumerate_eq [THEN iffD1] nth_mem)
  moreover have "map (\<lambda>r. the (h r)) (filter (\<lambda>r. h r \<noteq> None) (rc_rows c)) =
      map (\<lambda>r. r[?i := the (boolean_meaning cfg (r ! ?i))])
        (filter (\<lambda>r. boolean_meaning cfg (r ! ?i) \<noteq> None) (rc_rows c))"
    by (auto simp: h_def)
  ultimately show ?thesis
    using loop by (auto simp: boolean_apply_def loop_stage_def)
qed

theorem boolean_never_guesses_witness:
  "\<exists>res. boolean_apply \<lparr>bn_column_index = 0, bn_column_name = ''active'', bn_true_tokens = [''Tak'', ''O''],
       bn_false_tokens = [''Nie'']\<rparr>
     \<lparr>rc_rows = [[CStr ''O''], [CStr ''0''], [CNone], [CStr ''Nie'']], rc_first_ordinal = 5,
      rc_expected_field_count = 1\<rparr> = Inr res \<and>
     rc_rows (sr_chunk res) = [[CBool True], [CNone], [CBool False]] \<and>
     map (\<lambda>x. (rj_source_row_number x, rj_error_type x)) (sr_rejected res) =
       [(6, ''unmapped-boolean-token'')]"
  using boolean_never_guesses [of "\<lparr>rc_rows = [[CStr ''O''], [CStr ''0''], [CNone], [CStr ''Nie'']],
      rc_first_ordinal = 5, rc_expected_field_count = 1\<rparr>"
      "\<lparr>bn_column_index = 0, bn_column_name = ''active'', bn_true_tokens = [''Tak'', ''O''],
       bn_false_tokens = [''Nie'']\<rparr>"]
  by (simp add: boolean_meaning_def)

text \<open>\<open>UnicodeNormalizer\<close> never rejects or raises, rewrites every \<open>str\<close> field to its NFC
  form and passes absent and boolean fields through; where NFC is idempotent, two fields with the
  same NFC form are equal afterwards and a second pass changes nothing.\<close>

theorem unicode_total:
  assumes "\<forall>s. nfc (nfc s) = nfc s"
  shows "\<exists>res. unicode_apply nfc c = Inr res \<and> sr_rejected res = [] \<and> sr_findings res = [] \<and>
    rc_rows (sr_chunk res) = map (map (\<lambda>v. case v of CStr s \<Rightarrow> CStr (nfc s) | _ \<Rightarrow> v)) (rc_rows c) \<and>
    unicode_apply nfc (sr_chunk res) = Inr res"
proof -
  have cell: "nfc_cell nfc v = (case v of CStr s \<Rightarrow> CStr (nfc s) | _ \<Rightarrow> v)" for v by (cases v) auto
  have "nfc_cell nfc (nfc_cell nfc v) = nfc_cell nfc v" for v using assms by (cases v) auto
  then show ?thesis by (simp add: unicode_apply_def stage_result_of_def cell o_def)
qed

theorem unicode_total_witness:
  "\<exists>res. unicode_apply (filter (\<lambda>x. x \<noteq> CHR ''~''))
     \<lparr>rc_rows = [[CStr ''a~b'', CNone]], rc_first_ordinal = 0, rc_expected_field_count = 2\<rparr> = Inr res \<and>
     rc_rows (sr_chunk res) = [[CStr ''ab'', CNone]]"
  using unicode_total [of "filter (\<lambda>x. x \<noteq> CHR ''~'')"
      "\<lparr>rc_rows = [[CStr ''a~b'', CNone]], rc_first_ordinal = 0, rc_expected_field_count = 2\<rparr>"]
  by auto

end
