(* ===== verification/Numeric.thy ===== *)
theory Numeric
  imports Engine PyNumbers
begin

text \<open>
  \<open>NumericNormalizer\<close> (\<open>normalize/numeric.py\<close>): locale-aware parsing of one numeric or
  identifier column into an exact \<open>decimal.Decimal\<close>, with the two rejections of
  unrecoverably damaged identifiers.
\<close>

section \<open>The stage\<close>

record numeric_config =
  nn_column_index :: nat
  nn_column_name :: string
  nn_decimal_separator :: string
  nn_thousands_separator :: "string option"
  nn_currency_symbols :: "string list"
  nn_percent_as_fraction :: bool
  nn_negative_style :: string
  nn_reject_scientific_notation :: bool
  nn_fixed_width :: "nat option"
  nn_null_sentinels :: "string list"

text \<open>\<open>^-?\d(\.\d+)?[eE][+-]?\d+$\<close>, whose \<open>$\<close> also matches before a final newline.\<close>

definition scientific_exponent :: "string \<Rightarrow> bool" where
  "scientific_exponent s = (case s of
      [] \<Rightarrow> False
    | e # r \<Rightarrow> (e = CHR ''e'' \<or> e = CHR ''E'') \<and>
        (case span_digits (snd (take_sign r)) of
           (ds, rest) \<Rightarrow> ds \<noteq> [] \<and> (rest = [] \<or> rest = [char_of (10 :: nat)])))"

definition is_scientific_notation :: "string \<Rightarrow> bool" where
  "is_scientific_notation s =
     (case (case s of [] \<Rightarrow> [] | c # cs \<Rightarrow> if c = CHR ''-'' then cs else s) of
        [] \<Rightarrow> False
      | d # r \<Rightarrow> is_digit d \<and>
          (case r of
             [] \<Rightarrow> False
           | x # xs \<Rightarrow>
               if x = CHR ''.''
               then (case span_digits xs of (fs, rest) \<Rightarrow> fs \<noteq> [] \<and> scientific_exponent rest)
               else scientific_exponent r))"

definition numeric_raw_line :: "row \<Rightarrow> string" where
  "numeric_raw_line r = join '','' (map field_text r)"

definition strip_negative_style :: "string \<Rightarrow> string \<Rightarrow> string" where
  "strip_negative_style style v =
     (if style = ''parentheses''
      then (if starts_with v ''('' \<and> ends_with v '')'' then ''-'' @ butlast (tl v) else v)
      else if style = ''trailing-minus''
      then (if ends_with v ''-'' then ''-'' @ butlast v else v)
      else v)"

definition parse_decimal :: "numeric_config \<Rightarrow> string \<Rightarrow> decimal option" where
  "parse_decimal cfg raw =
     (let cleaned = strip (foldl (\<lambda>s symbol. replace_all symbol '''' s) raw (nn_currency_symbols cfg));
          percent_present = ends_with cleaned ''%'';
          cleaned = (if percent_present then strip (butlast cleaned) else cleaned);
          cleaned = strip_negative_style (nn_negative_style cfg) cleaned;
          cleaned = (case nn_thousands_separator cfg of
                       None \<Rightarrow> cleaned | Some t \<Rightarrow> replace_all t '''' cleaned);
          cleaned = replace_all (nn_decimal_separator cfg) ''.'' cleaned
      in case decimal_of_string cleaned of
           None \<Rightarrow> None
         | Some parsed \<Rightarrow>
             if percent_present \<and> nn_percent_as_fraction cfg then decimal_div100 parsed
             else Some parsed)"

definition numeric_reject :: "numeric_config \<Rightarrow> string \<Rightarrow> message \<Rightarrow> int \<Rightarrow> row \<Rightarrow> rejected_record" where
  "numeric_reject cfg error_type message n r =
     \<lparr>rj_source_row_number = n, rj_error_type = error_type, rj_error_message = message,
      rj_raw_line = numeric_raw_line r, rj_error_column = Some (nn_column_name cfg),
      rj_business_key = None\<rparr>"

definition below_width :: "numeric_config \<Rightarrow> string \<Rightarrow> bool" where
  "below_width cfg raw = (case nn_fixed_width cfg of None \<Rightarrow> False | Some w \<Rightarrow> length raw < w)"

text \<open>
  A \<open>bool\<close> in the column (no stage puts one there) makes the first string operation that
  meets it raise.
\<close>

definition numeric_body :: "numeric_config \<Rightarrow> row_body" where
  "numeric_body cfg n r =
     (let idx = nn_column_index cfg; name = VStr (nn_column_name cfg) in
      case py_index r idx of
        None \<Rightarrow> Inl (Exn PyIndexError [])
      | Some CNone \<Rightarrow> Inr (Inr r)
      | Some (CBool b) \<Rightarrow>
          Inl (Exn (if nn_reject_scientific_notation cfg \<or> nn_fixed_width cfg \<noteq> None
                    then PyTypeError else PyAttributeError) [])
      | Some (CStr raw) \<Rightarrow>
          if raw \<in> set (nn_null_sentinels cfg) then Inr (Inr (r[idx := CNone]))
          else if nn_reject_scientific_notation cfg \<and> is_scientific_notation raw
          then Inr (Inl (numeric_reject cfg ''scientific-notation-identifier-unrecoverable''
            (Msg ''{}={!r} is rendered in scientific notation; expanding it would produce a value with more significant digits than the file actually carries, which is a different, wrong identifier -- never coerced''
              [name, VStr raw]) n r))
          else if below_width cfg raw
          then Inr (Inl (numeric_reject cfg ''fixed-width-identifier-below-declared-width''
            (Msg ''{}={!r} has width {}, below the declared width {}; the missing character(s) are not recoverable from the file''
              [name, VStr raw, VInt (int (length raw)), VInt (int (the (nn_fixed_width cfg)))]) n r))
          else (case parse_decimal cfg raw of
                  None \<Rightarrow>
                    Inr (Inl (numeric_reject cfg ''invalid-numeric-value''
                      (Msg ''{}={!r} is not a valid numeric value under this column's declared locale profile''
                        [name, VStr raw]) n r))
                | Some parsed \<Rightarrow> Inr (Inr (r[idx := CStr (string_of_decimal parsed)]))))"

definition numeric_apply :: "numeric_config \<Rightarrow> chunk \<Rightarrow> exn + stage_result" where
  "numeric_apply cfg c = loop_stage (numeric_body cfg) c"

lemma numeric_numbers: "numbers_rows (numeric_body cfg)"
  by (rule numbers_rowsI)
    (auto simp: numeric_body_def numeric_reject_def Let_def split: option.splits cell.splits if_splits)

interpretation numeric: streaming_stage numeric_apply
  by (rule loop_stage_contract [OF numeric_apply_def numeric_numbers])

section \<open>Locale profiles\<close>

lemma starts_with_map:
  "inj f \<Longrightarrow> starts_with (map f s) (map f p) = starts_with s p"
  by (induction s p rule: starts_with.induct) (auto dest: injD)

lemma replace_nonempty_map:
  assumes "inj f"
  shows "replace_nonempty (map f old) (map f new) (map f s) = map f (replace_nonempty old new s)"
proof (induction old new s rule: replace_nonempty.induct)
  case (1 old new s)
  show ?case
  proof (cases s)
    case Nil
    then show ?thesis by simp
  next
    case (Cons c cs)
    have sw: "starts_with (f c # map f cs) (map f old) = starts_with (c # cs) old"
      using starts_with_map [OF assms, of "c # cs" old] by simp
    show ?thesis
    proof (cases "old \<noteq> [] \<and> starts_with s old")
      case True
      then have ih: "replace_nonempty (map f old) (map f new) (map f (drop (length old) s)) =
          map f (replace_nonempty old new (drop (length old) s))"
        using 1(1) [OF Cons] Cons by blast
      have step: "replace_nonempty o' n' (x # xs) =
          n' @ replace_nonempty o' n' (drop (length o') (x # xs))"
        if "o' \<noteq> []" "starts_with (x # xs) o'" for o' n' xs and x :: char
        using that by (subst replace_nonempty.simps) simp
      have "replace_nonempty (map f old) (map f new) (map f s) =
          map f new @ replace_nonempty (map f old) (map f new) (drop (length (map f old)) (map f s))"
        using True Cons sw by (simp only: list.map) (rule step; simp)
      also have "drop (length (map f old)) (map f s) = map f (drop (length old) s)"
        by (simp add: drop_map)
      finally have lhs: "replace_nonempty (map f old) (map f new) (map f s) =
          map f new @ map f (replace_nonempty old new (drop (length old) s))"
        by (simp only: ih)
      have "replace_nonempty old new s = new @ replace_nonempty old new (drop (length old) s)"
        unfolding Cons by (rule step) (use True Cons in auto)
      then show ?thesis using lhs by simp
    next
      case False
      then have "replace_nonempty (map f old) (map f new) (map f cs) =
          map f (replace_nonempty old new cs)"
        using 1(2) [OF Cons] Cons by blast
      then show ?thesis
        using False Cons sw replace_nonempty.simps [of "map f old" "map f new" "f c # map f cs"]
          replace_nonempty.simps [of old new "c # cs"]
        by auto
    qed
  qed
qed

lemma replace_all_map:
  "inj f \<Longrightarrow> replace_all (map f old) (map f new) (map f s) = map f (replace_all old new s)"
  by (auto simp: replace_all_def replace_nonempty_map map_concat o_def)

definition swap_sep :: "char \<Rightarrow> char" where
  "swap_sep c = (if c = CHR ''.'' then CHR '','' else if c = CHR '','' then CHR ''.'' else c)"

lemma swap_sep_inj: "inj swap_sep"
  by (rule injI) (auto simp: swap_sep_def split: if_splits)

lemma swap_sep_fixed: "CHR ''.'' \<notin> set s \<Longrightarrow> CHR '','' \<notin> set s \<Longrightarrow> map swap_sep s = s"
  by (rule map_idI) (auto simp: swap_sep_def)

lemma swap_sep_space [simp]: "is_space (swap_sep c) = is_space c"
  by (simp add: swap_sep_def is_space_def)

lemma dropWhile_swap: "dropWhile is_space (map swap_sep s) = map swap_sep (dropWhile is_space s)"
  by (simp add: dropWhile_map o_def)

lemma strip_swap: "strip (map swap_sep s) = map swap_sep (strip s)"
  by (simp add: strip_def lstrip_def rstrip_def dropWhile_swap rev_map)

lemma starts_with_swap:
  "map swap_sep p = p \<Longrightarrow> starts_with (map swap_sep s) p = starts_with s p"
  using starts_with_map [OF swap_sep_inj, of s p] by simp

lemma ends_with_swap:
  "map swap_sep p = p \<Longrightarrow> ends_with (map swap_sep s) p = ends_with s p"
  using starts_with_swap [of "rev p" "rev s"] by (simp add: ends_with_def rev_map [symmetric])

lemma strip_negative_swap:
  "strip_negative_style style (map swap_sep s) = map swap_sep (strip_negative_style style s)"
  by (simp add: strip_negative_style_def starts_with_swap ends_with_swap swap_sep_def
      map_butlast map_tl)

lemma currency_swap:
  assumes "\<forall>y \<in> set symbols. map swap_sep y = y"
  shows "foldl (\<lambda>s symbol. replace_all symbol '''' s) (map swap_sep raw) symbols =
    map swap_sep (foldl (\<lambda>s symbol. replace_all symbol '''' s) raw symbols)"
  using assms
proof (induction symbols arbitrary: raw)
  case (Cons y ys)
  then have "replace_all y '''' (map swap_sep raw) = map swap_sep (replace_all y '''' raw)"
    using replace_all_map [OF swap_sep_inj, of y "''''" raw] by simp
  with Cons show ?case by simp
qed simp

lemma replace_single_removes: "a \<noteq> b \<Longrightarrow> a \<notin> set (replace_all [a] [] s)"
  by (auto simp: replace_all_single)

lemma separators_swapped:
  "replace_all '','' ''.'' (replace_all ''.'' '''' (map swap_sep s)) =
   replace_all ''.'' ''.'' (replace_all '','' '''' s)"
proof -
  have id: "replace_all ''.'' ''.'' t = t" for t by (induction t) (auto simp: replace_all_single)
  show ?thesis unfolding id by (induction s) (auto simp: replace_all_single swap_sep_def)
qed

text \<open>The locale profile is honoured: with \<open>','\<close> as thousands and \<open>'.'\<close> as decimal separator,
  a text means exactly what the text with the two separators exchanged means under the mirrored
  profile (\<open>1,234.50\<close> and \<open>1.234,50\<close>), whatever the sign style, the percent handling and the
  currency symbols (which contain neither separator).\<close>

theorem numeric_locale_mirror:
  assumes "nn_decimal_separator cfg = ''.''" and "nn_thousands_separator cfg = Some '',''"
    and "\<forall>y \<in> set (nn_currency_symbols cfg). CHR ''.'' \<notin> set y \<and> CHR '','' \<notin> set y"
  shows "parse_decimal (cfg\<lparr>nn_decimal_separator := '','', nn_thousands_separator := Some ''.''\<rparr>)
      (map (\<lambda>c. if c = CHR ''.'' then CHR '','' else if c = CHR '','' then CHR ''.'' else c) raw) =
    parse_decimal cfg raw"
proof -
  have swap: "(\<lambda>c. if c = CHR ''.'' then CHR '','' else if c = CHR '','' then CHR ''.'' else c) = swap_sep"
    by (rule ext) (simp add: swap_sep_def)
  have cur: "\<forall>y \<in> set (nn_currency_symbols cfg). map swap_sep y = y"
    using assms(3) swap_sep_fixed by blast
  have pct: "map swap_sep ''%'' = ''%''" by (simp add: swap_sep_def)
  define t where "t = strip (foldl (\<lambda>s symbol. replace_all symbol '''' s) raw (nn_currency_symbols cfg))"
  have t: "strip (foldl (\<lambda>s symbol. replace_all symbol '''' s) (map swap_sep raw)
      (nn_currency_symbols cfg)) = map swap_sep t"
    by (simp add: t_def currency_swap [OF cur] strip_swap)
  have p: "ends_with (map swap_sep t) ''%'' = ends_with t ''%''" by (rule ends_with_swap [OF pct])
  show ?thesis
    unfolding swap
    by (simp add: parse_decimal_def Let_def assms t p t_def [symmetric] strip_negative_swap
        separators_swapped strip_swap map_butlast [symmetric] cong: option.case_cong)
qed

theorem numeric_locale_mirror_witness:
  "parse_decimal \<lparr>nn_column_index = 0, nn_column_name = ''amount'', nn_decimal_separator = '','',
      nn_thousands_separator = Some ''.'', nn_currency_symbols = [''EUR''], nn_percent_as_fraction = False,
      nn_negative_style = ''trailing-minus'', nn_reject_scientific_notation = False,
      nn_fixed_width = None, nn_null_sentinels = []\<rparr> ''1.234,50- EUR'' =
    parse_decimal \<lparr>nn_column_index = 0, nn_column_name = ''amount'', nn_decimal_separator = ''.'',
      nn_thousands_separator = Some '','', nn_currency_symbols = [''EUR''], nn_percent_as_fraction = False,
      nn_negative_style = ''trailing-minus'', nn_reject_scientific_notation = False,
      nn_fixed_width = None, nn_null_sentinels = []\<rparr> ''1,234.50- EUR''"
  using numeric_locale_mirror [of "\<lparr>nn_column_index = 0, nn_column_name = ''amount'',
      nn_decimal_separator = ''.'', nn_thousands_separator = Some '','', nn_currency_symbols = [''EUR''],
      nn_percent_as_fraction = False, nn_negative_style = ''trailing-minus'',
      nn_reject_scientific_notation = False, nn_fixed_width = None, nn_null_sentinels = []\<rparr>"
      "''1,234.50- EUR''"]
  by simp

text \<open>What the column holds after the stage, for a field that is not rejected.\<close>

definition numeric_meaning :: "numeric_config \<Rightarrow> cell \<Rightarrow> cell option" where
  "numeric_meaning cfg v =
     (case v of
        CNone \<Rightarrow> Some CNone
      | CBool b \<Rightarrow> None
      | CStr raw \<Rightarrow>
          if raw \<in> set (nn_null_sentinels cfg) then Some CNone
          else if (nn_reject_scientific_notation cfg \<and> is_scientific_notation raw) \<or> below_width cfg raw
          then None
          else map_option (CStr \<circ> string_of_decimal) (parse_decimal cfg raw))"

lemma numeric_apply_eq:
  assumes "\<forall>r \<in> set (rc_rows c). nn_column_index cfg < length r \<and>
    (\<forall>b. r ! nn_column_index cfg \<noteq> CBool b)"
  shows "\<exists>rejected. numeric_apply cfg c = Inr (stage_result_of c
    (map (\<lambda>r. r[nn_column_index cfg := the (numeric_meaning cfg (r ! nn_column_index cfg))])
       (filter (\<lambda>r. numeric_meaning cfg (r ! nn_column_index cfg) \<noteq> None) (rc_rows c)), rejected)) \<and>
    map rj_source_row_number rejected =
      map (\<lambda>(i, r). rc_first_ordinal c + int i)
        (filter (\<lambda>(i, r). numeric_meaning cfg (r ! nn_column_index cfg) = None)
          (enumerate 0 (rc_rows c)))"
proof -
  let ?i = "nn_column_index cfg"
  define h where "h r = map_option (\<lambda>v. r[?i := v]) (numeric_meaning cfg (r ! ?i))" for r :: row
  define g where "g n r = (case numeric_body cfg n r of Inr (Inl x) \<Rightarrow> x | _ \<Rightarrow> undefined)" for n r
  have same: "r[i := CNone] = r" if "r ! i = CNone" for r :: row and i
    using list_update_id [of r i] that by simp
  have body: "numeric_body cfg n r = Inr (case h r of None \<Rightarrow> Inl (g n r) | Some r' \<Rightarrow> Inr r')"
    if "r \<in> set (rc_rows c)" for n r
    using assms that same [of r ?i]
    by (auto simp: g_def h_def numeric_body_def numeric_meaning_def Let_def split: cell.splits option.splits)
  have loop: "row_loop (numeric_body cfg) (rc_first_ordinal c) (rc_rows c) =
    Inr (map (\<lambda>r. the (h r)) (filter (\<lambda>r. h r \<noteq> None) (rc_rows c)),
         map (\<lambda>(i, r). g (rc_first_ordinal c + int i) r)
           (filter (\<lambda>(i, r). h r = None) (enumerate 0 (rc_rows c))))"
    by (rule row_loop_map_filter) (rule body)
  have hNone: "h r = None \<longleftrightarrow> numeric_meaning cfg (r ! ?i) = None" for r by (simp add: h_def)
  have rej: "rj_source_row_number (g n r) = n"
    if "r \<in> set (rc_rows c)" "numeric_meaning cfg (r ! ?i) = None" for n r
    using that body [of r n] numeric_numbers [of cfg] by (simp add: numbers_rows_def h_def)
  have "map rj_source_row_number
      (map (\<lambda>(i, r). g (rc_first_ordinal c + int i) r)
        (filter (\<lambda>(i, r). h r = None) (enumerate 0 (rc_rows c)))) =
    map (\<lambda>(i, r). rc_first_ordinal c + int i)
        (filter (\<lambda>(i, r). numeric_meaning cfg (r ! ?i) = None) (enumerate 0 (rc_rows c)))"
    using rej by (auto simp: hNone o_def dest!: in_set_enumerate_eq [THEN iffD1] nth_mem)
  moreover have "map (\<lambda>r. the (h r)) (filter (\<lambda>r. h r \<noteq> None) (rc_rows c)) =
      map (\<lambda>r. r[?i := the (numeric_meaning cfg (r ! ?i))])
        (filter (\<lambda>r. numeric_meaning cfg (r ! ?i) \<noteq> None) (rc_rows c))"
    by (auto simp: h_def)
  ultimately show ?thesis
    using loop by (auto simp: numeric_apply_def loop_stage_def)
qed

lemma decimal_of_string_in_range:
  "decimal_of_string s = Some (DFin neg k e) \<Longrightarrow> exponent_in_range k e"
  by (auto simp: decimal_of_string_def parse_special_def Let_def split: prod.splits option.splits if_splits)

lemma parse_decimal_in_range:
  assumes "\<not> nn_percent_as_fraction cfg" and "parse_decimal cfg raw = Some (DFin neg k e)"
  shows "exponent_in_range k e"
  using assms
  by (auto simp: parse_decimal_def Let_def dest: decimal_of_string_in_range split: option.splits if_splits)

text \<open>\<open>NumericNormalizer\<close> never raises on string or absent fields; the rows it keeps are
  the rows whose field has a meaning under the column's profile, in order and with no other field
  touched; every other row is rejected at its own position.  What it writes is exact: the canonical
  text reads back as the very decimal that was parsed, with every digit, sign and exponent.\<close>

theorem numeric_stores_exactly:
  assumes "\<forall>r \<in> set (rc_rows c). nn_column_index cfg < length r \<and>
      (\<forall>b. r ! nn_column_index cfg \<noteq> CBool b)"
    and "\<not> nn_percent_as_fraction cfg"
  shows "\<exists>res. numeric_apply cfg c = Inr res \<and>
    rc_rows (sr_chunk res) =
      map (\<lambda>r. r[nn_column_index cfg := the (numeric_meaning cfg (r ! nn_column_index cfg))])
        (filter (\<lambda>r. numeric_meaning cfg (r ! nn_column_index cfg) \<noteq> None) (rc_rows c)) \<and>
    map rj_source_row_number (sr_rejected res) =
      map (\<lambda>(i, r). rc_first_ordinal c + int i)
        (filter (\<lambda>(i, r). numeric_meaning cfg (r ! nn_column_index cfg) = None)
          (enumerate 0 (rc_rows c))) \<and>
    (\<forall>raw s neg k e. numeric_meaning cfg (CStr raw) = Some (CStr s) \<longrightarrow>
       parse_decimal cfg raw = Some (DFin neg k e) \<longrightarrow>
       decimal_of_string s = Some (DFin neg k e))"
proof -
  obtain rejected where eq: "numeric_apply cfg c = Inr (stage_result_of c
      (map (\<lambda>r. r[nn_column_index cfg := the (numeric_meaning cfg (r ! nn_column_index cfg))])
        (filter (\<lambda>r. numeric_meaning cfg (r ! nn_column_index cfg) \<noteq> None) (rc_rows c)), rejected))"
    and rej: "map rj_source_row_number rejected =
      map (\<lambda>(i, r). rc_first_ordinal c + int i)
        (filter (\<lambda>(i, r). numeric_meaning cfg (r ! nn_column_index cfg) = None)
          (enumerate 0 (rc_rows c)))"
    using numeric_apply_eq [OF assms(1)] by blast
  have "decimal_of_string s = Some (DFin neg k e)"
    if "numeric_meaning cfg (CStr raw) = Some (CStr s)" "parse_decimal cfg raw = Some (DFin neg k e)"
    for raw s neg k e
    using that decimal_roundtrip [OF parse_decimal_in_range [OF assms(2)], of raw neg k e]
    by (auto simp: numeric_meaning_def split: if_splits simp del: string_of_decimal.simps)
  then show ?thesis using eq rej by auto
qed

lemma numeric_meaning_samples:
  defines "cfg \<equiv> \<lparr>nn_column_index = 0, nn_column_name = ''amount'', nn_decimal_separator = '','',
      nn_thousands_separator = Some ''.'', nn_currency_symbols = [], nn_percent_as_fraction = False,
      nn_negative_style = ''parentheses'', nn_reject_scientific_notation = False,
      nn_fixed_width = None, nn_null_sentinels = [''-99'']\<rparr>"
  shows "numeric_meaning cfg (CStr ''(1.234,50)'') = Some (CStr ''-1234.50'')"
    and "numeric_meaning cfg (CStr ''-99'') = Some CNone"
    and "numeric_meaning cfg (CStr ''x'') = None"
  unfolding cfg_def by code_simp+

theorem numeric_stores_exactly_witness:
  "\<exists>res. numeric_apply \<lparr>nn_column_index = 0, nn_column_name = ''amount'', nn_decimal_separator = '','',
      nn_thousands_separator = Some ''.'', nn_currency_symbols = [], nn_percent_as_fraction = False,
      nn_negative_style = ''parentheses'', nn_reject_scientific_notation = False,
      nn_fixed_width = None, nn_null_sentinels = [''-99'']\<rparr>
    \<lparr>rc_rows = [[CStr ''(1.234,50)'', CStr ''a''], [CStr ''-99'', CStr ''b''], [CStr ''x'', CStr ''c'']],
     rc_first_ordinal = 0, rc_expected_field_count = 2\<rparr> = Inr res \<and>
    rc_rows (sr_chunk res) = [[CStr ''-1234.50'', CStr ''a''], [CNone, CStr ''b'']] \<and>
    map rj_source_row_number (sr_rejected res) = [2]"
  using numeric_stores_exactly [of "\<lparr>rc_rows = [[CStr ''(1.234,50)'', CStr ''a''],
      [CStr ''-99'', CStr ''b''], [CStr ''x'', CStr ''c'']], rc_first_ordinal = 0, rc_expected_field_count = 2\<rparr>"
      "\<lparr>nn_column_index = 0, nn_column_name = ''amount'', nn_decimal_separator = '','',
      nn_thousands_separator = Some ''.'', nn_currency_symbols = [], nn_percent_as_fraction = False,
      nn_negative_style = ''parentheses'', nn_reject_scientific_notation = False,
      nn_fixed_width = None, nn_null_sentinels = [''-99'']\<rparr>"]
  by (auto simp: numeric_meaning_samples)

lemma parse_decimal_percent:
  "parse_decimal cfg raw =
     (case parse_decimal (cfg\<lparr>nn_percent_as_fraction := False\<rparr>) raw of
        None \<Rightarrow> None
      | Some parsed \<Rightarrow>
          if ends_with (strip (foldl (\<lambda>s symbol. replace_all symbol '''' s) raw (nn_currency_symbols cfg))) ''%'' \<and>
             nn_percent_as_fraction cfg
          then decimal_div100 parsed else Some parsed)"
  by (simp add: parse_decimal_def Let_def split: option.split)

text \<open>A percent column declared \<open>percent_as_fraction\<close> is divided by one hundred with no
  rounding: for every value of at most 28 digits (and exponents inside the context's range), the
  stored decimal is the number before the \<open>%\<close> over 100, exactly.\<close>

theorem percent_fraction_exact:
  assumes "nn_percent_as_fraction cfg"
    and "ends_with (strip (foldl (\<lambda>s symbol. replace_all symbol '''' s) raw (nn_currency_symbols cfg))) ''%''"
    and "parse_decimal (cfg\<lparr>nn_percent_as_fraction := False\<rparr>) raw = Some (DFin neg k e)"
    and "k < 10 ^ 28" and "-1000024 \<le> e" and "e \<le> 999972"
  shows "\<exists>d. parse_decimal cfg raw = Some d \<and>
    decimal_value d = Some ((if neg then -1 else 1) * of_nat k * pow10 e / 100)"
proof -
  have len: "length (show_nat k) \<le> 28"
  proof (cases "k = 0")
    case True
    then show ?thesis by (simp add: show_nat.simps)
  next
    case False
    then have "(10::nat) ^ (length (show_nat k) - 1) < 10 ^ 28"
      using show_nat_bounds [of k] assms(4) by linarith
    then have "length (show_nat k) - 1 < 28" by (rule power_less_imp_less_exp [rotated]) simp
    then show ?thesis by simp
  qed
  then obtain d where d: "decimal_div100 (DFin neg k e) = Some d"
    "decimal_value d = Some ((if neg then -1 else 1) * of_nat k * pow10 e / 100)"
    using decimal_div100_exact [of k e neg] assms(5,6) by (auto simp: ctx_prec_def)
  moreover have "parse_decimal cfg raw = decimal_div100 (DFin neg k e)"
    by (subst parse_decimal_percent) (simp only: assms(1,2,3) option.case simp_thms if_True)
  ultimately show ?thesis by auto
qed

theorem percent_fraction_exact_witness:
  "\<exists>d. parse_decimal \<lparr>nn_column_index = 0, nn_column_name = ''rate'', nn_decimal_separator = '','',
      nn_thousands_separator = None, nn_currency_symbols = [], nn_percent_as_fraction = True,
      nn_negative_style = ''leading-minus'', nn_reject_scientific_notation = False,
      nn_fixed_width = None, nn_null_sentinels = []\<rparr> ''23,5 %'' = Some d \<and>
    decimal_value d = Some (235 / 1000)"
proof -
  have 1: "ends_with (strip ''23,5 %'') ''%''" by code_simp
  have 2: "parse_decimal \<lparr>nn_column_index = 0, nn_column_name = ''rate'',
      nn_decimal_separator = '','', nn_thousands_separator = None, nn_currency_symbols = [],
      nn_percent_as_fraction = False, nn_negative_style = ''leading-minus'',
      nn_reject_scientific_notation = False, nn_fixed_width = None, nn_null_sentinels = []\<rparr>
      ''23,5 %'' = Some (DFin False 235 (-1))" by code_simp
  show ?thesis
    using percent_fraction_exact [of "\<lparr>nn_column_index = 0, nn_column_name = ''rate'',
      nn_decimal_separator = '','', nn_thousands_separator = None, nn_currency_symbols = [],
      nn_percent_as_fraction = True, nn_negative_style = ''leading-minus'',
      nn_reject_scientific_notation = False, nn_fixed_width = None, nn_null_sentinels = []\<rparr>"
      "''23,5 %''" False 235 "-1"] 1 2
    by (simp add: pow10_def)
qed

text \<open>The special names of \<open>decimal.Decimal\<close> are numbers to the stage: a field \<open>NaN\<close> is kept.\<close>

lemma numeric_accepts_nan:
  "numeric_meaning \<lparr>nn_column_index = 0, nn_column_name = ''amount'', nn_decimal_separator = ''.'',
      nn_thousands_separator = None, nn_currency_symbols = [], nn_percent_as_fraction = False,
      nn_negative_style = ''leading-minus'', nn_reject_scientific_notation = False,
      nn_fixed_width = None, nn_null_sentinels = []\<rparr> (CStr ''NaN'') = Some (CStr ''NaN'')"
  by code_simp

end
