(* ===== verification/PyDates.thy ===== *)
theory PyDates
  imports PyNumbers
begin

text \<open>
  The part of \<open>datetime\<close> and \<open>zoneinfo\<close> the date normalizer uses: the proleptic Gregorian
  calendar, ISO texts, and time zones as a list of offset changes with the two wall-clock
  readings of PEP 495.  Instants, local times and offsets count microseconds; local time 0 is
  0001-01-01T00:00:00.
\<close>

section \<open>The calendar\<close>

definition is_leap :: "int \<Rightarrow> bool" where
  "is_leap y = (y mod 4 = 0 \<and> (y mod 100 \<noteq> 0 \<or> y mod 400 = 0))"

definition days_in_month :: "int \<Rightarrow> int \<Rightarrow> int" where
  "days_in_month y m =
     (if m = 2 then (if is_leap y then 29 else 28)
      else if m = 4 \<or> m = 6 \<or> m = 9 \<or> m = 11 then 30 else 31)"

definition days_before_year :: "int \<Rightarrow> int" where
  "days_before_year y = (let p = y - 1 in p * 365 + p div 4 - p div 100 + p div 400)"

fun days_before_month_n :: "int \<Rightarrow> nat \<Rightarrow> int" where
  "days_before_month_n y 0 = 0"
| "days_before_month_n y (Suc m) = days_before_month_n y m + (if m = 0 then 0 else days_in_month y (int m))"

definition days_before_month :: "int \<Rightarrow> int \<Rightarrow> int" where
  "days_before_month y m = days_before_month_n y (nat m)"

record civil =
  cv_year :: int
  cv_month :: int
  cv_day :: int

definition valid_civil :: "civil \<Rightarrow> bool" where
  "valid_civil d \<longleftrightarrow> 1 \<le> cv_year d \<and> cv_year d \<le> 9999 \<and> 1 \<le> cv_month d \<and> cv_month d \<le> 12 \<and>
     1 \<le> cv_day d \<and> cv_day d \<le> days_in_month (cv_year d) (cv_month d)"

text \<open>\<open>date.toordinal\<close>: 0001-01-01 is day 1.\<close>

definition to_ordinal :: "civil \<Rightarrow> int" where
  "to_ordinal d = days_before_year (cv_year d) + days_before_month (cv_year d) (cv_month d) + cv_day d"

definition max_ordinal :: int where
  "max_ordinal = 3652059"

text \<open>\<open>date.fromordinal\<close>: cycles of 400, 100, 4 and 1 years, then the month.\<close>

fun month_scan :: "int \<Rightarrow> int \<Rightarrow> nat \<Rightarrow> int \<Rightarrow> int \<times> int" where
  "month_scan y m 0 n = (m, n)"
| "month_scan y m (Suc k) n =
     (if days_in_month y m < n then month_scan y (m + 1) k (n - days_in_month y m) else (m, n))"

definition from_ordinal :: "int \<Rightarrow> civil" where
  "from_ordinal ordinal =
     (let n = ordinal - 1;
          n400 = n div 146097; n = n mod 146097;
          n100 = min 3 (n div 36524); n = n - 36524 * n100;
          n4 = n div 1461; n = n mod 1461;
          n1 = min 3 (n div 365); n = n - 365 * n1;
          y = 400 * n400 + 100 * n100 + 4 * n4 + n1 + 1
      in (case month_scan y 1 11 (n + 1) of
            (m, d) \<Rightarrow> \<lparr>cv_year = y, cv_month = m, cv_day = d\<rparr>))"

definition pad :: "nat \<Rightarrow> int \<Rightarrow> string" where
  "pad w n = (let s = show_nat (nat n) in replicate (w - length s) CHR ''0'' @ s)"

definition date_isoformat :: "civil \<Rightarrow> string" where
  "date_isoformat d = pad 4 (cv_year d) @ ''-'' @ pad 2 (cv_month d) @ ''-'' @ pad 2 (cv_day d)"

section \<open>Date and time\<close>

record datetime = civil +
  tm_hour :: int
  tm_minute :: int
  tm_second :: int
  tm_micro :: int

abbreviation second_us :: int where "second_us \<equiv> 1000000"
abbreviation day_us :: int where "day_us \<equiv> 86400000000"

definition max_local :: int where
  "max_local = max_ordinal * day_us"

definition local_of :: "datetime \<Rightarrow> int" where
  "local_of t = (to_ordinal (civil.truncate t) - 1) * day_us +
     ((tm_hour t * 60 + tm_minute t) * 60 + tm_second t) * second_us + tm_micro t"

text \<open>The representable range; arithmetic that leaves it raises \<open>OverflowError\<close>.\<close>

definition in_range :: "int \<Rightarrow> bool" where
  "in_range l \<longleftrightarrow> 0 \<le> l \<and> l < max_local"

text \<open>\<open>isoformat()\<close> of an aware UTC datetime; the fraction is printed when it is not zero.\<close>

definition utc_isoformat :: "int \<Rightarrow> string" where
  "utc_isoformat l =
     (let secs = l div second_us; micro = l mod second_us in
      date_isoformat (from_ordinal (l div day_us + 1)) @ ''T'' @ pad 2 (secs div 3600 mod 24) @ '':'' @
      pad 2 (secs div 60 mod 60) @ '':'' @ pad 2 (secs mod 60) @
      (if micro = 0 then '''' else ''.'' @ pad 6 micro) @ ''+00:00'')"

lemma is_leap_century:
  "is_leap y \<Longrightarrow> is_leap (2000 + y mod 100)"
  "is_leap y \<Longrightarrow> y mod 100 \<noteq> 0 \<Longrightarrow> is_leap (1900 + y mod 100)"
proof -
  define k where "k = y mod 100"
  have k4: "k mod 4 = y mod 4" by (simp add: k_def mod_mod_cancel)
  have "(2000 + k) mod 4 = k mod 4" "(1900 + k) mod 4 = k mod 4"
    using mod_mult_self2 [of k 4 500] mod_mult_self2 [of k 4 475] by (simp_all add: add.commute)
  then have four: "(2000 + k) mod 4 = y mod 4" "(1900 + k) mod 4 = y mod 4" by (simp_all add: k4)
  have "k mod 100 = k" by (simp add: k_def)
  moreover have "(2000 + k) mod 100 = k mod 100" "(1900 + k) mod 100 = k mod 100"
    using mod_mult_self2 [of k 100 20] mod_mult_self2 [of k 100 19] by (simp_all add: add.commute)
  ultimately have hund: "(2000 + k) mod 100 = k" "(1900 + k) mod 100 = k" by simp_all
  show "is_leap y \<Longrightarrow> is_leap (2000 + y mod 100)"
    unfolding k_def [symmetric] is_leap_def four hund by (auto simp: k_def)
  show "is_leap y \<Longrightarrow> y mod 100 \<noteq> 0 \<Longrightarrow> is_leap (1900 + y mod 100)"
    unfolding k_def [symmetric] is_leap_def four hund by (auto simp: k_def)
qed

text \<open>\<open>date.fromordinal\<close> inverts \<open>date.toordinal\<close>.\<close>

lemma days_before_year_cycles:
  assumes "0 \<le> b" "b \<le> 3" "0 \<le> c" "c \<le> 24" "0 \<le> d" "d \<le> 3"
  shows "days_before_year (400 * a + 100 * b + 4 * c + d + 1) = 146097 * a + 36524 * b + 1461 * c + 365 * d"
proof -
  let ?p = "400 * a + 100 * b + 4 * c + d"
  have "?p div 4 = 100 * a + 25 * b + c" using assms by linarith
  moreover have "?p div 100 = 4 * a + b" using assms by linarith
  moreover have "?p div 400 = a" using assms by linarith
  ultimately show ?thesis by (simp add: days_before_year_def Let_def)
qed

lemma month_scan_spec:
  assumes "month_scan y m k n = (m', d)" and "0 < m" and "0 < n"
  shows "days_before_month y m + n = days_before_month y m' + d \<and> 0 < d \<and> m \<le> m' \<and> m' \<le> m + int k \<and>
    (d \<le> days_in_month y m' \<or> m' = m + int k)"
  using assms
proof (induction y m k n rule: month_scan.induct)
  case (1 y m n)
  then show ?case by auto
next
  case (2 y m k n)
  have nat: "nat (m + 1) = Suc (nat m)" "nat m \<noteq> 0" "int (nat m) = m" using 2 by auto
  have "days_before_month y (m + 1) = days_before_month y m + days_in_month y m"
    by (simp only: days_before_month_def nat days_before_month_n.simps) (use nat(2) in simp)
  then show ?case using 2 by (auto split: if_splits)
qed

lemma days_before_month_12:
  "days_before_month y 1 = 0"
  "days_before_month y 12 = (if is_leap y then 335 else 334)"
proof -
  show "days_before_month y 1 = 0" by (simp add: days_before_month_def)
  have "nat 12 = Suc (Suc (Suc (Suc (Suc (Suc (Suc (Suc (Suc (Suc (Suc (Suc 0)))))))))))" by simp
  then show "days_before_month y 12 = (if is_leap y then 335 else 334)"
    by (simp only: days_before_month_def days_before_month_n.simps) (simp add: days_in_month_def)
qed

lemma from_ordinal_spec:
  assumes "1 \<le> n"
  shows "to_ordinal (from_ordinal n) = n \<and> 1 \<le> cv_year (from_ordinal n) \<and>
    1 \<le> cv_month (from_ordinal n) \<and> cv_month (from_ordinal n) \<le> 12 \<and> 1 \<le> cv_day (from_ordinal n) \<and>
    cv_day (from_ordinal n) \<le> days_in_month (cv_year (from_ordinal n)) (cv_month (from_ordinal n))"
proof -
  define a where "a = (n - 1) div 146097"
  define r1 where "r1 = (n - 1) mod 146097"
  define b where "b = min 3 (r1 div 36524)"
  define r2 where "r2 = r1 - 36524 * b"
  define c where "c = r2 div 1461"
  define r3 where "r3 = r2 mod 1461"
  define d where "d = min 3 (r3 div 365)"
  define r4 where "r4 = r3 - 365 * d"
  define y where "y = 400 * a + 100 * b + 4 * c + d + 1"
  obtain m k where scan: "month_scan y 1 11 (r4 + 1) = (m, k)" by fastforce
  have from_eq: "from_ordinal n = \<lparr>cv_year = y, cv_month = m, cv_day = k\<rparr>"
    unfolding from_ordinal_def Let_def a_def [symmetric] r1_def [symmetric] b_def [symmetric]
      r2_def [symmetric] c_def [symmetric] r3_def [symmetric] d_def [symmetric] r4_def [symmetric]
      y_def [symmetric] scan by (rule prod.case)
  have r1: "0 \<le> r1" "r1 < 146097" "n - 1 = 146097 * a + r1" by (simp_all add: r1_def a_def)
  have a0: "0 \<le> a" using assms by (simp add: a_def pos_imp_zdiv_nonneg_iff)
  have b: "0 \<le> b" "b \<le> 3" using r1 by (auto simp: b_def pos_imp_zdiv_nonneg_iff)
  have q1: "r1 = 36524 * (r1 div 36524) + r1 mod 36524" "0 \<le> r1 mod 36524" "r1 mod 36524 < 36524"
    by simp_all
  have r2: "0 \<le> r2 \<and> (r2 < 36524 \<or> b = 3 \<and> r2 \<le> 36524)"
  proof (cases "r1 div 36524 \<le> 3")
    case True
    then have "b = r1 div 36524" by (simp add: b_def)
    with q1 show ?thesis unfolding r2_def by linarith
  next
    case False
    then have "b = 3" by (simp add: b_def)
    with False q1 r1 show ?thesis unfolding r2_def by linarith
  qed
  have c0: "r2 = 1461 * c + r3" "0 \<le> r3" "r3 < 1461" by (simp_all add: c_def r3_def)
  then have c: "0 \<le> c" "c \<le> 24" "0 \<le> r3" "r3 < 1461" "r2 = 1461 * c + r3" using r2 by linarith+
  have q3: "r3 = 365 * (r3 div 365) + r3 mod 365" "0 \<le> r3 mod 365" "r3 mod 365 < 365"
    "0 \<le> r3 div 365"
    using c by (simp_all add: pos_imp_zdiv_nonneg_iff)
  have "0 \<le> d \<and> d \<le> 3 \<and> 0 \<le> r4 \<and> (r4 < 365 \<or> d = 3 \<and> r4 = 365)"
  proof (cases "r3 div 365 \<le> 3")
    case True
    then have "d = r3 div 365" by (simp add: d_def)
    with q3 True show ?thesis unfolding r4_def by linarith
  next
    case False
    then have "d = 3" by (simp add: d_def)
    with False q3 c show ?thesis unfolding r4_def by linarith
  qed
  then have d: "0 \<le> d" "d \<le> 3" "0 \<le> r4" "r4 < 365 \<or> d = 3 \<and> r4 = 365" by auto
  have before: "days_before_year y = 146097 * a + 36524 * b + 1461 * c + 365 * d"
    unfolding y_def by (rule days_before_year_cycles) (use b c d in auto)
  have n: "n = days_before_year y + r4 + 1"
    using r1(3) before c(5) by (simp add: r2_def r4_def)
  have leap: "r4 = 365 \<Longrightarrow> is_leap y"
  proof -
    assume r4: "r4 = 365"
    then have d3: "d = 3" and "r3 = 1460" using d by (auto simp: r4_def)
    then have cb: "c < 24 \<or> b = 3" using r2 c by auto
    have y4: "y = 4 * (100 * a + 25 * b + c + 1)" using d3 by (simp add: y_def)
    then have "y mod 4 = 0" by simp
    moreover have "y mod 100 \<noteq> 0 \<or> y mod 400 = 0"
    proof (cases "c < 24")
      case True
      have "y = 4 * (c + 1) + 100 * (4 * a + b)" using y4 by simp
      then have "y mod 100 = 4 * (c + 1) mod 100" using mod_mult_self2 by metis
      then have "y mod 100 = 4 * (c + 1)" using True c(1) by simp
      then show ?thesis using c(1) by simp
    next
      case False
      with cb c have "b = 3" "c = 24" by auto
      then have "y = 400 * (a + 1)" using y4 by simp
      then show ?thesis by simp
    qed
    ultimately show "is_leap y" by (simp add: is_leap_def)
  qed
  from month_scan_spec [OF scan] d(3) days_before_month_12 [of y]
  have m: "r4 + 1 = days_before_month y m + k" "0 < k" "1 \<le> m" "m \<le> 12"
    "k \<le> days_in_month y m \<or> m = 12" by auto
  have "k \<le> days_in_month y m"
  proof (cases "m = 12")
    case True
    then show ?thesis using m d(4) leap days_before_month_12(2) [of y]
      by (auto simp: days_in_month_def split: if_splits)
  qed (use m in auto)
  moreover have "1 \<le> y" using a0 b c d by (simp add: y_def)
  ultimately show ?thesis unfolding from_eq to_ordinal_def using m n by simp
qed

lemma days_before_year_10000: "10000 \<le> y \<Longrightarrow> max_ordinal \<le> days_before_year y"
proof -
  assume y: "10000 \<le> y"
  define p where "p = y - 1"
  define a b c where "a = p div 4" and "b = p div 100" and "c = p div 400"
  have a: "p - 3 \<le> 4 * a" and b: "100 * b \<le> p" and c: "p - 399 \<le> 400 * c"
    unfolding a_def b_def c_def by linarith+
  have "3652059 \<le> p * 365 + a - b + c"
  proof (cases "p = 9999")
    case True
    then show ?thesis by (simp add: a_def b_def c_def)
  next
    case False
    with y have "10000 \<le> p" by (simp add: p_def)
    then show ?thesis using a b c by linarith
  qed
  then show ?thesis
    by (simp add: days_before_year_def Let_def max_ordinal_def p_def a_def b_def c_def)
qed

lemma days_before_month_nonneg: "0 \<le> days_before_month y m"
proof -
  have "0 \<le> days_before_month_n y k" for k
    by (induction k) (auto simp: days_in_month_def)
  then show ?thesis by (simp add: days_before_month_def)
qed

lemma from_ordinal_valid:
  assumes "1 \<le> n" and "n \<le> max_ordinal"
  shows "valid_civil (from_ordinal n)"
proof -
  note spec = from_ordinal_spec [OF assms(1)]
  have "cv_year (from_ordinal n) \<le> 9999"
  proof (rule ccontr)
    assume "\<not> cv_year (from_ordinal n) \<le> 9999"
    then have "max_ordinal \<le> days_before_year (cv_year (from_ordinal n))"
      using days_before_year_10000 by simp
    moreover have "1 \<le> n - days_before_year (cv_year (from_ordinal n))"
      using spec days_before_month_nonneg [of "cv_year (from_ordinal n)" "cv_month (from_ordinal n)"]
      by (simp add: to_ordinal_def)
    ultimately show False using assms(2) by simp
  qed
  with spec show ?thesis by (simp add: valid_civil_def)
qed

section \<open>Time zones\<close>

text \<open>
  A zone is the offset before its first transition and its transitions in order: the instant
  of the change and the offset from then on (the tail that \<open>zoneinfo\<close> computes from the
  zone's recurring rule is part of the list).
\<close>

record zone =
  zn_base :: int
  zn_transitions :: "(int \<times> int) list"

fun offset_at :: "int \<Rightarrow> (int \<times> int) list \<Rightarrow> int \<Rightarrow> int" where
  "offset_at o0 [] t = o0"
| "offset_at o0 ((tr, o1) # ts) t = (if t < tr then o0 else offset_at o1 ts t)"

text \<open>
  The wall-clock tables: with \<open>fold = 0\<close> a transition takes effect at the later of its two
  wall readings, with \<open>fold = 1\<close> at the earlier.
\<close>

fun offset_wall :: "bool \<Rightarrow> int \<Rightarrow> (int \<times> int) list \<Rightarrow> int \<Rightarrow> int" where
  "offset_wall later o0 [] w = o0"
| "offset_wall later o0 ((tr, o1) # ts) w =
     (if w < tr + (if later then min o0 o1 else max o0 o1) then o0 else offset_wall later o1 ts w)"

text \<open>A change is over on the wall clock before the next one starts.\<close>

fun zone_ok :: "int \<Rightarrow> (int \<times> int) list \<Rightarrow> bool" where
  "zone_ok o0 [] = True"
| "zone_ok o0 ((tr, o1) # ts) =
     ((case ts of [] \<Rightarrow> True | (tr2, o2) # _ \<Rightarrow> tr < tr2 \<and> tr + max o0 o1 \<le> tr2 + min o1 o2) \<and> zone_ok o1 ts)"

definition zone_fromutc :: "zone \<Rightarrow> int \<Rightarrow> int" where
  "zone_fromutc z t = t + offset_at (zn_base z) (zn_transitions z) t"

definition zone_toutc :: "zone \<Rightarrow> bool \<Rightarrow> int \<Rightarrow> int" where
  "zone_toutc z later w = w - offset_wall later (zn_base z) (zn_transitions z) w"

lemma offset_at_after:
  assumes "zone_ok o0 ((tr, o1) # ts)" and "tr \<le> t"
  shows "tr + o1 \<le> t + offset_at o1 ts t"
  using assms
proof (induction ts arbitrary: o0 tr o1)
  case Nil
  then show ?case by simp
next
  case (Cons p ts)
  obtain tr2 o2 where p: "p = (tr2, o2)" by fastforce
  from Cons.prems p have ok: "zone_ok o1 ((tr2, o2) # ts)" "tr + max o0 o1 \<le> tr2 + min o1 o2" by auto
  show ?case
  proof (cases "t < tr2")
    case True
    with Cons.prems p show ?thesis by simp
  next
    case False
    with Cons.IH [OF ok(1)] have "tr2 + o2 \<le> t + offset_at o2 ts t" by simp
    with False p ok(2) show ?thesis by simp
  qed
qed

lemma offset_at_first_segment:
  assumes "zone_ok o0 ((tr, o1) # ts)" and "t + offset_at o1 ts t < tr + max o0 o1"
  shows "offset_at o1 ts t = o1"
proof (cases ts)
  case Nil
  then show ?thesis by simp
next
  case (Cons p ts')
  obtain tr2 o2 where p: "p = (tr2, o2)" by fastforce
  from assms Cons p have ok: "zone_ok o1 ((tr2, o2) # ts')" "tr + max o0 o1 \<le> tr2 + min o1 o2" by auto
  show ?thesis
  proof (rule ccontr)
    assume "offset_at o1 ts t \<noteq> o1"
    then have "tr2 \<le> t" and eq: "offset_at o1 ts t = offset_at o2 ts' t"
      using Cons p by (auto split: if_splits)
    then have "tr2 + o2 \<le> t + offset_at o2 ts' t" using offset_at_after [OF ok(1)] by simp
    with assms(2) ok(2) eq show False by simp
  qed
qed

lemma offset_wall_first_segment:
  assumes "zone_ok o0 ((tr, o1) # ts)" and "w < tr + max o0 o1"
  shows "offset_wall later o1 ts w = o1"
  using assms by (cases ts) (auto split: if_splits)

text \<open>
  The instants that read \<open>w\<close> on the wall clock are the two resolutions of \<open>w\<close>, or none when
  the earlier resolution does not read \<open>w\<close>.
\<close>

lemma wall_instants:
  assumes "zone_ok o0 ts"
  shows "{t. t + offset_at o0 ts t = w} =
    (let u0 = w - offset_wall False o0 ts w; u1 = w - offset_wall True o0 ts w in
     if u0 + offset_at o0 ts u0 = w then {u0, u1} else {})"
    and "w - offset_wall False o0 ts w \<le> w - offset_wall True o0 ts w \<or>
     w - offset_wall False o0 ts w + offset_at o0 ts (w - offset_wall False o0 ts w) \<noteq> w"
proof -
  have main: "({t. t + offset_at o0 ts t = w} =
    (if w - offset_wall False o0 ts w + offset_at o0 ts (w - offset_wall False o0 ts w) = w
     then {w - offset_wall False o0 ts w, w - offset_wall True o0 ts w} else {})) \<and>
    (w - offset_wall False o0 ts w \<le> w - offset_wall True o0 ts w \<or>
     w - offset_wall False o0 ts w + offset_at o0 ts (w - offset_wall False o0 ts w) \<noteq> w)"
    using assms
  proof (induction ts arbitrary: o0)
    case Nil
    then show ?case by auto
  next
    case (Cons p ts)
    obtain tr o1 where p: "p = (tr, o1)" by fastforce
    with Cons.prems have ok: "zone_ok o0 ((tr, o1) # ts)" and ok1: "zone_ok o1 ts" by auto
    note after = offset_at_after [OF ok] and seg = offset_at_first_segment [OF ok]
      and wall = offset_wall_first_segment [OF ok]
    consider (before) "w < tr + min o0 o1" | (change) "tr + min o0 o1 \<le> w" "w < tr + max o0 o1"
      | (beyond) "tr + max o0 o1 \<le> w" by linarith
    then show ?case
    proof cases
      case before
      have "t + offset_at o0 (p # ts) t = w \<longleftrightarrow> t = w - o0" for t
        using before p after [of t] by (auto split: if_splits)
      then have "{t. t + offset_at o0 (p # ts) t = w} = {w - o0}" by auto
      then show ?thesis using before p by auto
    next
      case change
      have w1: "offset_wall True o1 ts w = o1" using wall change by simp
      show ?thesis
      proof (cases "o0 < o1")
        case True
        have none: "t + offset_at o0 (p # ts) t \<noteq> w" for t
          using change p after [of t] True by (auto split: if_splits)
        then have "{t. t + offset_at o0 (p # ts) t = w} = {}" by auto
        then show ?thesis using none by simp
      next
        case False
        have "{t. t + offset_at o0 (p # ts) t = w} = {w - o0, w - o1}"
        proof (rule set_eqI)
          fix t
          have "offset_at o1 ts (w - o1) = o1"
          proof (cases ts)
            case (Cons q ts')
            then show ?thesis using ok change False by (cases q) auto
          qed simp
          then show "t \<in> {t. t + offset_at o0 (p # ts) t = w} \<longleftrightarrow> t \<in> {w - o0, w - o1}"
            using change p False seg [of t] by (auto split: if_splits)
        qed
        moreover have "w - o0 \<in> {t. t + offset_at o0 (p # ts) t = w}" using calculation by simp
        ultimately show ?thesis using change p False w1 by auto
      qed
    next
      case beyond
      have ge: "t + offset_at o1 ts t = w \<Longrightarrow> tr \<le> t" for t
      proof (rule ccontr)
        assume t: "t + offset_at o1 ts t = w" "\<not> tr \<le> t"
        then have "offset_at o1 ts t = o1" using ok by (cases ts) (auto split: if_splits)
        with t beyond show False by simp
      qed
      have eq: "t + offset_at o0 (p # ts) t = w \<longleftrightarrow> t + offset_at o1 ts t = w" for t
        using p beyond ge [of t] by auto
      have walls: "offset_wall later o0 (p # ts) w = offset_wall later o1 ts w" for later
        using p beyond by auto
      show ?thesis using Cons.IH [OF ok1] unfolding eq walls by simp
    qed
  qed
  show "{t. t + offset_at o0 ts t = w} =
    (let u0 = w - offset_wall False o0 ts w; u1 = w - offset_wall True o0 ts w in
     if u0 + offset_at o0 ts u0 = w then {u0, u1} else {})"
    unfolding Let_def using main by (rule conjunct1)
  show "w - offset_wall False o0 ts w \<le> w - offset_wall True o0 ts w \<or>
     w - offset_wall False o0 ts w + offset_at o0 ts (w - offset_wall False o0 ts w) \<noteq> w"
    using main by (rule conjunct2)
qed

end
