(* ===== verification/Dates.thy ===== *)
theory Dates
  imports Engine PyDates
begin

text \<open>
  \<open>DateNormalizer\<close> (\<open>normalize/dates.py\<close>): dates under a \<open>strptime\<close> format, naive local
  times of a declared zone, and spreadsheet serials with the 1900 system's phantom leap day.
  \<open>datetime.strptime\<close> is a parameter: what a format means for names of months and days
  depends on the process's locale.
\<close>

section \<open>Configuration\<close>

record date_config =
  dn_column_index :: nat
  dn_column_name :: string
  dn_format :: "string option"
  dn_pivot :: "int option"
  dn_spreadsheet_epoch :: "string option"
  dn_timezone :: "string option"
  dn_ambiguous_time_policy :: string

definition spreadsheet_epochs :: "string list" where
  "spreadsheet_epochs = [''1900'', ''1904'']"

definition ambiguous_time_policies :: "string list" where
  "ambiguous_time_policies = [''reject'', ''earliest'', ''latest'']"

fun contains :: "string \<Rightarrow> string \<Rightarrow> bool" where
  "contains [] p = (p = [])"
| "contains (c # cs) p = (starts_with (c # cs) p \<or> contains cs p)"

text \<open>The checks of \<open>DateNormalizer.__init__\<close>; \<open>None\<close>: constructed (an unknown zone raises \<open>KeyError\<close>).\<close>

definition date_init :: "(string \<Rightarrow> zone option) \<Rightarrow> date_config \<Rightarrow> exn option" where
  "date_init zones cfg =
     (if (dn_format cfg = None) = (dn_spreadsheet_epoch cfg = None) then Some (Exn PyValueError [])
      else if (case dn_spreadsheet_epoch cfg of None \<Rightarrow> False | Some e \<Rightarrow> e \<notin> set spreadsheet_epochs)
      then Some (Exn PyValueError [])
      else if dn_ambiguous_time_policy cfg \<notin> set ambiguous_time_policies then Some (Exn PyValueError [])
      else if dn_timezone cfg \<noteq> None \<and> dn_format cfg = None then Some (Exn PyValueError [])
      else if dn_timezone cfg \<noteq> None \<and>
        (case dn_format cfg of None \<Rightarrow> False | Some f \<Rightarrow> contains f ''%z'' \<or> contains f ''%Z'')
      then Some (Exn PyValueError [])
      else if (case dn_format cfg of None \<Rightarrow> False | Some f \<Rightarrow> contains f ''%y'') \<and> dn_pivot cfg = None
      then Some (Exn PyValueError [])
      else (case dn_timezone cfg of
              None \<Rightarrow> None
            | Some name \<Rightarrow> (case zones name of None \<Rightarrow> Some (Exn PyKeyError []) | Some z \<Rightarrow> None)))"

definition has_two_digit_year :: "date_config \<Rightarrow> bool" where
  "has_two_digit_year cfg = (case dn_format cfg of None \<Rightarrow> False | Some f \<Rightarrow> contains f ''%y'')"

definition has_time_component :: "date_config \<Rightarrow> bool" where
  "has_time_component cfg =
     (case dn_format cfg of None \<Rightarrow> False
      | Some f \<Rightarrow> contains f ''%H'' \<or> contains f ''%M'' \<or> contains f ''%S'')"

section \<open>The conversions\<close>

text \<open>
  \<open>astimezone\<close> leaves the representable range only at its ends, where it raises
  \<open>OverflowError\<close>.
\<close>

definition checked :: "int \<Rightarrow> exn + int" where
  "checked l = (if in_range l then Inr l else Inl (Exn PyOverflowError []))"

definition classify_naive_local :: "int \<Rightarrow> zone \<Rightarrow> exn + string" where
  "classify_naive_local naive z =
     (case checked (zone_toutc z False naive) of
        Inl e \<Rightarrow> Inl e
      | Inr utc0 \<Rightarrow>
          (case checked (zone_fromutc z utc0) of
             Inl e \<Rightarrow> Inl e
           | Inr roundtrip0 \<Rightarrow>
               if roundtrip0 \<noteq> naive then Inr ''nonexistent''
               else (case checked (zone_toutc z True naive) of
                       Inl e \<Rightarrow> Inl e
                     | Inr utc1 \<Rightarrow> Inr (if utc0 \<noteq> utc1 then ''ambiguous'' else ''unambiguous''))))"

definition apply_two_digit_year_pivot :: "datetime \<Rightarrow> int \<Rightarrow> exn + datetime" where
  "apply_two_digit_year_pivot parsed pivot =
     (let two_digit_year = cv_year parsed mod 100;
          century = (if two_digit_year \<le> pivot then 2000 else 1900);
          t = parsed\<lparr>cv_year := century + two_digit_year\<rparr>
      in if valid_civil (civil.truncate t) then Inr t else Inl (Exn PyValueError []))"

definition excel_1900_phantom_serial :: int where "excel_1900_phantom_serial = 60"

definition excel_1900_base_below_phantom :: civil where
  "excel_1900_base_below_phantom = \<lparr>cv_year = 1899, cv_month = 12, cv_day = 31\<rparr>"

definition excel_1900_base_above_phantom :: civil where
  "excel_1900_base_above_phantom = \<lparr>cv_year = 1899, cv_month = 12, cv_day = 30\<rparr>"

definition excel_1904_base :: civil where
  "excel_1904_base = \<lparr>cv_year = 1904, cv_month = 1, cv_day = 1\<rparr>"

text \<open>\<open>date + timedelta(days=n)\<close>.\<close>

definition add_days :: "civil \<Rightarrow> int \<Rightarrow> exn + civil" where
  "add_days d n =
     (let o' = to_ordinal d + n in
      if \<bar>n\<bar> \<le> 999999999 \<and> 1 \<le> o' \<and> o' \<le> max_ordinal then Inr (from_ordinal o')
      else Inl (Exn PyOverflowError []))"

definition resolve_excel_1900_serial :: "int \<Rightarrow> exn + civil option" where
  "resolve_excel_1900_serial serial =
     (if serial = excel_1900_phantom_serial then Inr None
      else let base = (if serial < excel_1900_phantom_serial then excel_1900_base_below_phantom
                       else excel_1900_base_above_phantom)
           in (case add_days base serial of Inl e \<Rightarrow> Inl e | Inr d \<Rightarrow> Inr (Some d)))"

section \<open>The three parsers\<close>

text \<open>What \<open>strptime\<close> returns: the fields read and the UTC offset, for an aware datetime.\<close>

type_synonym strptime_fun = "string \<Rightarrow> string \<Rightarrow> (datetime \<times> int option) option"

definition date_reject :: "date_config \<Rightarrow> string \<Rightarrow> message \<Rightarrow> string \<Rightarrow> int \<Rightarrow> rejected_record" where
  "date_reject cfg error_type message raw_value n =
     \<lparr>rj_source_row_number = n, rj_error_type = error_type, rj_error_message = message,
      rj_raw_line = raw_value, rj_error_column = Some (dn_column_name cfg), rj_business_key = None\<rparr>"

definition replace_field :: "date_config \<Rightarrow> row \<Rightarrow> string \<Rightarrow> row" where
  "replace_field cfg r value = r[dn_column_index cfg := CStr value]"

definition pivoted :: "date_config \<Rightarrow> datetime \<Rightarrow> exn + datetime" where
  "pivoted cfg t =
     (if has_two_digit_year cfg
      then (case dn_pivot cfg of None \<Rightarrow> Inl (Exn PyTypeError []) | Some p \<Rightarrow> apply_two_digit_year_pivot t p)
      else Inr t)"

definition parse_plain_format :: "strptime_fun \<Rightarrow> date_config \<Rightarrow> string \<Rightarrow> int \<Rightarrow> row \<Rightarrow>
    exn + (rejected_record + row)" where
  "parse_plain_format strptime cfg raw_value n r =
     (case strptime raw_value (the (dn_format cfg)) of
        None \<Rightarrow> Inr (Inl (date_reject cfg ''invalid-calendar-date''
          (Msg ''{!r} does not match format {!r}: {}'' [VStr raw_value, VStr (the (dn_format cfg))]) raw_value n))
      | Some (t, offset) \<Rightarrow>
          (case pivoted cfg t of
             Inl e \<Rightarrow> Inl e
           | Inr parsed \<Rightarrow>
               if has_time_component cfg \<and> offset = None
               then Inr (Inl (date_reject cfg ''naive-timestamp-without-a-declared-zone''
                 (Msg ''{!r} has no UTC offset and no `timezone` was declared for this column -- a naive timestamp must not inherit a neighboring row's offset, default to UTC, or default to the server's zone''
                   [VStr raw_value]) raw_value n))
               else (case offset of
                       None \<Rightarrow> Inr (Inr (replace_field cfg r (date_isoformat (civil.truncate parsed))))
                     | Some off \<Rightarrow>
                         (case checked (local_of parsed - off) of
                            Inl e \<Rightarrow> Inl e
                          | Inr utc \<Rightarrow> Inr (Inr (replace_field cfg r (utc_isoformat utc)))))))"

definition parse_naive_local :: "strptime_fun \<Rightarrow> date_config \<Rightarrow> string \<Rightarrow> int \<Rightarrow> row \<Rightarrow> zone \<Rightarrow>
    exn + (rejected_record + row)" where
  "parse_naive_local strptime cfg raw_value n r z =
     (case strptime raw_value (the (dn_format cfg)) of
        None \<Rightarrow> Inr (Inl (date_reject cfg ''invalid-calendar-date''
          (Msg ''{!r} does not match format {!r}: {}'' [VStr raw_value, VStr (the (dn_format cfg))]) raw_value n))
      | Some (t, offset) \<Rightarrow>
          (case pivoted cfg t of
             Inl e \<Rightarrow> Inl e
           | Inr parsed \<Rightarrow>
               (let naive = local_of parsed; policy = dn_ambiguous_time_policy cfg;
                    zone_name = VStr (the (dn_timezone cfg)) in
                case classify_naive_local naive z of
                  Inl e \<Rightarrow> Inl e
                | Inr classification \<Rightarrow>
                    if classification = ''nonexistent''
                    then Inr (Inl (date_reject cfg ''nonexistent-local-time''
                      (Msg ''{!r} does not exist in {} (falls in a daylight-saving spring-forward gap)''
                        [VStr raw_value, zone_name]) raw_value n))
                    else if classification = ''ambiguous'' \<and> policy = ''reject''
                    then Inr (Inl (date_reject cfg ''ambiguous-local-time-requires-a-declared-fold-policy''
                      (Msg ''{!r} is ambiguous in {} (falls in a daylight-saving autumn-overlap hour); declare csv.ambiguous_time_policy to resolve it''
                        [VStr raw_value, zone_name]) raw_value n))
                    else (case checked (zone_toutc z (classification = ''ambiguous'' \<and> policy = ''latest'') naive) of
                            Inl e \<Rightarrow> Inl e
                          | Inr utc \<Rightarrow> Inr (Inr (replace_field cfg r (utc_isoformat utc)))))))"

definition parse_spreadsheet_serial :: "date_config \<Rightarrow> string \<Rightarrow> int \<Rightarrow> row \<Rightarrow>
    exn + (rejected_record + row)" where
  "parse_spreadsheet_serial cfg raw_value n r =
     (case py_int raw_value of
        None \<Rightarrow> Inr (Inl (date_reject cfg ''invalid-calendar-date''
          (Msg ''{!r} is not an integer spreadsheet serial: {}'' [VStr raw_value]) raw_value n))
      | Some serial \<Rightarrow>
          if dn_spreadsheet_epoch cfg = Some ''1900''
          then (case resolve_excel_1900_serial serial of
                  Inl e \<Rightarrow> Inl e
                | Inr None \<Rightarrow> Inr (Inl (date_reject cfg ''spreadsheet-serial-date-does-not-exist''
                    (Msg ''serial {} denotes the phantom 1900-02-29 leap day (1900 is not a leap year; inherited from the Lotus 1-2-3 bug)''
                      [VInt serial]) raw_value n))
                | Inr (Some d) \<Rightarrow> Inr (Inr (replace_field cfg r (date_isoformat d))))
          else (case add_days excel_1904_base serial of
                  Inl e \<Rightarrow> Inl e
                | Inr d \<Rightarrow> Inr (Inr (replace_field cfg r (date_isoformat d)))))"

text \<open>
  A \<open>bool\<close> in the column (no stage puts one there) is the serial \<open>int(value)\<close>, 0 or 1, on the
  spreadsheet path and a \<open>TypeError\<close> of \<open>strptime\<close> on the others.
\<close>

definition date_body :: "strptime_fun \<Rightarrow> zone option \<Rightarrow> date_config \<Rightarrow> row_body" where
  "date_body strptime z cfg n r =
     (case py_index r (dn_column_index cfg) of
        None \<Rightarrow> Inl (Exn PyIndexError [])
      | Some CNone \<Rightarrow> Inr (Inr r)
      | Some (CBool b) \<Rightarrow>
          if dn_spreadsheet_epoch cfg \<noteq> None
          then parse_spreadsheet_serial cfg (if b then ''1'' else ''0'') n r
          else Inl (Exn PyTypeError [])
      | Some (CStr raw_value) \<Rightarrow>
          if dn_spreadsheet_epoch cfg \<noteq> None then parse_spreadsheet_serial cfg raw_value n r
          else (case z of
                  Some zn \<Rightarrow> parse_naive_local strptime cfg raw_value n r zn
                | None \<Rightarrow> parse_plain_format strptime cfg raw_value n r))"

definition date_apply :: "strptime_fun \<Rightarrow> zone option \<Rightarrow> date_config \<Rightarrow> chunk \<Rightarrow> exn + stage_result" where
  "date_apply strptime z cfg c = loop_stage (date_body strptime z cfg) c"

lemma date_numbers: "numbers_rows (date_body strptime z cfg)"
  by (rule numbers_rowsI)
    (auto simp: date_body_def parse_plain_format_def parse_naive_local_def parse_spreadsheet_serial_def
      date_reject_def Let_def split: option.splits cell.splits sum.splits if_splits prod.splits)

interpretation date: streaming_stage "date_apply strptime z" for strptime z
  by (rule loop_stage_contract [OF date_apply_def date_numbers])

section \<open>What the normalizer does\<close>

lemma classify_cases:
  assumes "classify_naive_local naive z = Inr k"
  shows "k = (if zone_fromutc z (zone_toutc z False naive) \<noteq> naive then ''nonexistent''
     else if zone_toutc z False naive \<noteq> zone_toutc z True naive then ''ambiguous'' else ''unambiguous'')"
  using assms by (auto simp: classify_naive_local_def checked_def split: if_splits)

lemma zone_instants:
  assumes "zone_ok (zn_base z) (zn_transitions z)"
  shows "{t. zone_fromutc z t = naive} =
    (if zone_fromutc z (zone_toutc z False naive) = naive
     then {zone_toutc z False naive, zone_toutc z True naive} else {})"
    and "zone_fromutc z (zone_toutc z False naive) = naive \<Longrightarrow>
     zone_toutc z False naive \<le> zone_toutc z True naive"
  using wall_instants [OF assms, of naive] by (auto simp: zone_fromutc_def zone_toutc_def Let_def)

text \<open>\<open>classify_naive_local\<close> is right about every wall-clock reading of a zone: it answers
  \<open>nonexistent\<close> exactly when no instant reads \<open>naive\<close>, \<open>unambiguous\<close> exactly when one instant
  does, and \<open>ambiguous\<close> exactly when two different instants do.\<close>

theorem classify_counts_instants:
  assumes "zone_ok (zn_base z) (zn_transitions z)" and "classify_naive_local naive z = Inr k"
  shows "k \<in> {''nonexistent'', ''unambiguous'', ''ambiguous''} \<and>
    (k = ''nonexistent'' \<longleftrightarrow> {t. zone_fromutc z t = naive} = {}) \<and>
    (k = ''unambiguous'' \<longleftrightarrow> (\<exists>t. {t. zone_fromutc z t = naive} = {t})) \<and>
    (k = ''ambiguous'' \<longleftrightarrow> (\<exists>t u. t < u \<and> {t. zone_fromutc z t = naive} = {t, u}))"
proof -
  note S = zone_instants [OF assms(1), of naive] and k = classify_cases [OF assms(2)]
  let ?S = "{t. zone_fromutc z t = naive}" and ?u0 = "zone_toutc z False naive" and ?u1 = "zone_toutc z True naive"
  consider (none) "k = ''nonexistent''" "?S = {}" | (one) "k = ''unambiguous''" "?S = {?u0}"
    | (two) "k = ''ambiguous''" "?u0 < ?u1" "?S = {?u0, ?u1}"
    using S k by (auto split: if_splits)
  then show ?thesis
  proof cases
    case none
    show ?thesis unfolding none by simp
  next
    case one
    have "\<not> (\<exists>t u. t < u \<and> {?u0} = {t, u})" by force
    then show ?thesis unfolding one by simp
  next
    case two
    have "\<not> (\<exists>t. {?u0, ?u1} = {t})" using two(2) by auto
    moreover have "\<exists>t u. t < u \<and> {?u0, ?u1} = {t, u}" using two(2) by blast
    ultimately show ?thesis unfolding two(1,3) by simp
  qed
qed

text \<open>Warsaw around the two changes of 2024, as a zone.\<close>

definition warsaw_2024 :: zone where
  "warsaw_2024 = \<lparr>zn_base = 3600 * second_us,
     zn_transitions = [(63847443600 * second_us, 7200 * second_us), (63865587600 * second_us, 3600 * second_us)]\<rparr>"

theorem classify_counts_instants_witness:
  "\<exists>t u. t < u \<and> {t. zone_fromutc warsaw_2024 t = 63865593000 * second_us} = {t, u}"
proof -
  have "zone_ok (zn_base warsaw_2024) (zn_transitions warsaw_2024)"
    "classify_naive_local (63865593000 * second_us) warsaw_2024 = Inr ''ambiguous''"
    by code_simp+
  note classify_counts_instants [OF this]
  then show ?thesis by simp
qed

text \<open>A naive local time is never resolved by guessing: when \<open>DateNormalizer\<close> keeps the
  row, the UTC text it stores names an instant that reads the given local time in the declared
  zone: the only one under the policy \<open>reject\<close>, the first under \<open>earliest\<close>, the last under
  \<open>latest\<close>.  A local time no instant reads is always a rejected record.\<close>

theorem naive_local_policy:
  assumes "zone_ok (zn_base z) (zn_transitions z)"
    and "dn_spreadsheet_epoch cfg = None" and "dn_column_index cfg < length r"
    and "r ! dn_column_index cfg = CStr raw" and "strptime raw (the (dn_format cfg)) = Some (t, off)"
    and "\<not> has_two_digit_year cfg"
    and "date_body strptime (Some z) cfg n r = Inr out"
  shows "case out of
      Inl x \<Rightarrow> rj_source_row_number x = n \<and>
        ({u. zone_fromutc z u = local_of t} = {} \<or>
         dn_ambiguous_time_policy cfg = ''reject'' \<and>
         (\<exists>u v. u < v \<and> {u. zone_fromutc z u = local_of t} = {u, v}))
    | Inr r' \<Rightarrow> (\<exists>u. r' = r[dn_column_index cfg := CStr (utc_isoformat u)] \<and>
        zone_fromutc z u = local_of t \<and>
        (\<forall>v. zone_fromutc z v = local_of t \<longrightarrow>
           (if dn_ambiguous_time_policy cfg = ''latest'' then v \<le> u
            else if dn_ambiguous_time_policy cfg = ''reject'' then v = u else u \<le> v)))"
proof -
  let ?S = "{u. zone_fromutc z u = local_of t}"
  let ?u0 = "zone_toutc z False (local_of t)" and ?u1 = "zone_toutc z True (local_of t)"
  have run: "parse_naive_local strptime cfg raw n r z = Inr out"
    using assms(2-4,7) by (simp add: date_body_def)
  obtain k where k: "classify_naive_local (local_of t) z = Inr k"
    using run assms(5,6) by (auto simp: parse_naive_local_def pivoted_def Let_def split: sum.splits)
  note S = zone_instants [OF assms(1), of "local_of t"] and kc = classify_cases [OF k]
  consider (none) "k = ''nonexistent''" "?S = {}" | (one) "k = ''unambiguous''" "?S = {?u0}"
    | (two) "k = ''ambiguous''" "?u0 < ?u1" "?S = {?u0, ?u1}"
    using S kc by (auto split: if_splits)
  then show ?thesis
  proof cases
    case none
    with run assms(5,6) k show ?thesis
      by (auto simp: parse_naive_local_def pivoted_def Let_def date_reject_def)
  next
    case one
    then have "zone_fromutc z v = local_of t \<longleftrightarrow> v = ?u0" for v by auto
    with run assms(5,6) k one(1) show ?thesis
      by (auto simp: parse_naive_local_def pivoted_def Let_def checked_def replace_field_def split: if_splits)
  next
    case two
    then have mem: "zone_fromutc z v = local_of t \<longleftrightarrow> v = ?u0 \<or> v = ?u1" for v by auto
    show ?thesis
    proof (cases "dn_ambiguous_time_policy cfg = ''reject''")
      case True
      then obtain x where "out = Inl x" "rj_source_row_number x = n"
        using run assms(5,6) k two(1) by (auto simp: parse_naive_local_def pivoted_def Let_def date_reject_def)
      moreover have "\<exists>u v. u < v \<and> ?S = {u, v}" using two(2,3) by blast
      ultimately show ?thesis using True by simp
    next
      case False
      then have "out = Inr (r[dn_column_index cfg := CStr (utc_isoformat
          (if dn_ambiguous_time_policy cfg = ''latest'' then ?u1 else ?u0))])"
        using run assms(5,6) k two(1)
        by (auto simp: parse_naive_local_def pivoted_def Let_def checked_def replace_field_def split: if_splits)
      then show ?thesis using False two(2) mem by auto
    qed
  qed
qed

definition sample_dates :: strptime_fun where
  "sample_dates raw fmt =
     (if raw = ''27.10.2024 02:30'' \<and> fmt = ''%d.%m.%Y %H:%M''
      then Some (\<lparr>cv_year = 2024, cv_month = 10, cv_day = 27, tm_hour = 2, tm_minute = 30,
                  tm_second = 0, tm_micro = 0\<rparr>, None)
      else if raw = ''29.02.68'' \<and> fmt = ''%d.%m.%y''
      then Some (\<lparr>cv_year = 2068, cv_month = 2, cv_day = 29, tm_hour = 0, tm_minute = 0,
                  tm_second = 0, tm_micro = 0\<rparr>, None)
      else None)"

definition warsaw_column :: "string \<Rightarrow> date_config" where
  "warsaw_column policy = \<lparr>dn_column_index = 0, dn_column_name = ''at'', dn_format = Some ''%d.%m.%Y %H:%M'',
     dn_pivot = None, dn_spreadsheet_epoch = None, dn_timezone = Some ''Europe/Warsaw'',
     dn_ambiguous_time_policy = policy\<rparr>"

theorem naive_local_policy_witness:
  "date_body sample_dates (Some warsaw_2024) (warsaw_column ''latest'') 4 [CStr ''27.10.2024 02:30''] =
     Inr (Inr [CStr ''2024-10-27T01:30:00+00:00'']) \<and>
   (\<exists>u. utc_isoformat u = ''2024-10-27T01:30:00+00:00'' \<and>
     (\<forall>v. zone_fromutc warsaw_2024 v = 63865593000 * second_us \<longrightarrow> v \<le> u))"
proof -
  have run: "date_body sample_dates (Some warsaw_2024) (warsaw_column ''latest'') 4 [CStr ''27.10.2024 02:30''] =
     Inr (Inr [CStr ''2024-10-27T01:30:00+00:00''])" by code_simp
  let ?t = "\<lparr>cv_year = 2024, cv_month = 10, cv_day = 27, tm_hour = 2, tm_minute = 30,
    tm_second = 0, tm_micro = 0\<rparr>"
  have t: "local_of ?t = 63865593000 * second_us" by code_simp
  have "zone_ok (zn_base warsaw_2024) (zn_transitions warsaw_2024)"
    "\<not> has_two_digit_year (warsaw_column ''latest'')"
    "sample_dates ''27.10.2024 02:30'' (the (dn_format (warsaw_column ''latest''))) = Some (?t, None)"
    by code_simp+
  then show ?thesis
    using naive_local_policy [of warsaw_2024 "warsaw_column ''latest''" "[CStr ''27.10.2024 02:30'']"
        "''27.10.2024 02:30''" sample_dates ?t None 4 "Inr [CStr ''2024-10-27T01:30:00+00:00'']"] run
    unfolding t by (auto simp: warsaw_column_def)
qed

text \<open>A spreadsheet serial means the day the spreadsheet shows: under the 1900 system serial
  \<open>s\<close> is stored as day \<open>s\<close> counted from 1899-12-31 below the phantom leap day and one day less
  above it, serial 60 is a rejected record (1900-02-29 never existed), under the 1904 system it is
  day \<open>s\<close> after 1904-01-01, a text that is no integer is a rejected record, and a serial outside the
  calendar of the language raises \<open>OverflowError\<close>.\<close>

theorem spreadsheet_serial_days:
  assumes "dn_spreadsheet_epoch cfg = Some epoch" and "epoch \<in> set spreadsheet_epochs"
    and "dn_column_index cfg < length r" and "r ! dn_column_index cfg = CStr raw"
  shows "case py_int raw of
      None \<Rightarrow> (\<exists>x. date_body strptime z cfg n r = Inr (Inl x) \<and> rj_source_row_number x = n \<and>
        rj_error_type x = ''invalid-calendar-date'')
    | Some s \<Rightarrow>
        (let day = (if epoch = ''1904'' then 695056 + s else if s < 60 then 693595 + s else 693594 + s) in
         if epoch = ''1900'' \<and> s = 60
         then (\<exists>x. date_body strptime z cfg n r = Inr (Inl x) \<and> rj_source_row_number x = n \<and>
           rj_error_type x = ''spreadsheet-serial-date-does-not-exist'')
         else if 1 \<le> day \<and> day \<le> max_ordinal
         then (\<exists>d. valid_civil d \<and> to_ordinal d = day \<and>
           date_body strptime z cfg n r = Inr (Inr (r[dn_column_index cfg := CStr (date_isoformat d)])))
         else date_body strptime z cfg n r = Inl (Exn PyOverflowError []))"
proof -
  have base: "to_ordinal excel_1900_base_below_phantom = 693595"
    "to_ordinal excel_1900_base_above_phantom = 693594" "to_ordinal excel_1904_base = 695056"
    by code_simp+
  have add: "add_days d m = (if 1 \<le> to_ordinal d + m \<and> to_ordinal d + m \<le> max_ordinal
      then Inr (from_ordinal (to_ordinal d + m)) else Inl (Exn PyOverflowError []))"
    if "to_ordinal d \<in> {693594, 693595, 695056}" for d m
    using that by (auto simp: add_days_def Let_def max_ordinal_def)
  have valid: "1 \<le> k \<Longrightarrow> k \<le> max_ordinal \<Longrightarrow> valid_civil (from_ordinal k) \<and> to_ordinal (from_ordinal k) = k"
    for k using from_ordinal_valid from_ordinal_spec by blast
  have run: "date_body strptime z cfg n r = parse_spreadsheet_serial cfg raw n r"
    using assms by (simp add: date_body_def)
  show ?thesis
  proof (cases "py_int raw")
    case None
    then show ?thesis by (simp add: run parse_spreadsheet_serial_def date_reject_def)
  next
    case (Some s)
    from assms(2) consider "epoch = ''1900''" | "epoch = ''1904''"
      by (auto simp: spreadsheet_epochs_def)
    then show ?thesis
    proof cases
      case 1
      then show ?thesis
        using assms(1) Some valid [of "693595 + s"] valid [of "693594 + s"]
        by (auto simp: run parse_spreadsheet_serial_def resolve_excel_1900_serial_def add base
            excel_1900_phantom_serial_def date_reject_def replace_field_def Let_def)
    next
      case 2
      then show ?thesis
        using assms(1) Some valid [of "695056 + s"]
        by (auto simp: run parse_spreadsheet_serial_def add base replace_field_def Let_def)
    qed
  qed
qed

theorem spreadsheet_serial_days_witness:
  "\<exists>d. valid_civil d \<and> to_ordinal d = 738594 \<and>
    date_body (\<lambda>_ _. None) None \<lparr>dn_column_index = 0, dn_column_name = ''d'', dn_format = None,
        dn_pivot = None, dn_spreadsheet_epoch = Some ''1900'', dn_timezone = None,
        dn_ambiguous_time_policy = ''reject''\<rparr> 0 [CStr ''45000''] = Inr (Inr [CStr (date_isoformat d)])"
proof -
  have "py_int ''45000'' = Some 45000" by code_simp
  then show ?thesis
    using spreadsheet_serial_days [of "\<lparr>dn_column_index = 0, dn_column_name = ''d'', dn_format = None,
        dn_pivot = None, dn_spreadsheet_epoch = Some ''1900'', dn_timezone = None,
        dn_ambiguous_time_policy = ''reject''\<rparr>" "''1900''" "[CStr ''45000'']" "''45000''" "\<lambda>_ _. None" None 0]
    by (simp add: spreadsheet_epochs_def max_ordinal_def)
qed

text \<open>A two-digit year is placed in the century the contract declares: for a pivot between 0
  and 99 the stage never raises on a calendar date, keeps the last two digits, the month and the
  day, and the year it stores lies between \<open>1901 + pivot\<close> and \<open>2000 + pivot\<close>.\<close>

theorem pivot_places_century:
  assumes "dn_spreadsheet_epoch cfg = None" and "dn_format cfg = Some fmt" and "contains fmt ''%y''"
    and "dn_pivot cfg = Some pivot" and "0 \<le> pivot" and "pivot \<le> 99"
    and "\<not> has_time_component cfg"
    and "dn_column_index cfg < length r" and "r ! dn_column_index cfg = CStr raw"
    and "strptime raw fmt = Some (t, None)" and "valid_civil (civil.truncate t)"
  shows "\<exists>y. date_body strptime None cfg n r = Inr (Inr (r[dn_column_index cfg := CStr (date_isoformat
        \<lparr>cv_year = y, cv_month = cv_month t, cv_day = cv_day t\<rparr>)])) \<and>
    valid_civil \<lparr>cv_year = y, cv_month = cv_month t, cv_day = cv_day t\<rparr> \<and>
    y mod 100 = cv_year t mod 100 \<and> 1901 + pivot \<le> y \<and> y \<le> 2000 + pivot"
proof -
  define yy where "yy = cv_year t mod 100"
  define y where "y = (if yy \<le> pivot then 2000 else 1900) + yy"
  have yy: "0 \<le> yy" "yy \<le> 99" by (simp_all add: yy_def)
  have leap: "is_leap y" if "is_leap (cv_year t)"
    using is_leap_century [OF that] assms(5) by (auto simp: y_def yy_def)
  have valid: "valid_civil \<lparr>cv_year = y, cv_month = cv_month t, cv_day = cv_day t\<rparr>"
    using assms(11) leap yy
    by (auto simp: valid_civil_def civil.truncate_def days_in_month_def y_def split: if_splits)
  have "apply_two_digit_year_pivot t pivot = Inr (t\<lparr>cv_year := y\<rparr>)"
    using valid by (simp add: apply_two_digit_year_pivot_def Let_def y_def yy_def civil.truncate_def)
  then have "date_body strptime None cfg n r = Inr (Inr (r[dn_column_index cfg := CStr (date_isoformat
        \<lparr>cv_year = y, cv_month = cv_month t, cv_day = cv_day t\<rparr>)]))"
    using assms by (simp add: date_body_def parse_plain_format_def pivoted_def has_two_digit_year_def
        replace_field_def civil.truncate_def)
  moreover have "y mod 100 = yy"
  proof (cases "yy \<le> pivot")
    case True
    then have "y = yy + 100 * 20" by (simp add: y_def)
    then show ?thesis using yy by (simp only: mod_mult_self2) simp
  next
    case False
    then have "y = yy + 100 * 19" by (simp add: y_def)
    then show ?thesis using yy by (simp only: mod_mult_self2) simp
  qed
  moreover have "1901 + pivot \<le> y \<and> y \<le> 2000 + pivot" using yy assms(5,6) by (auto simp: y_def)
  ultimately show ?thesis using valid by (auto simp: yy_def)
qed

theorem pivot_places_century_witness:
  "\<exists>y. date_body sample_dates None \<lparr>dn_column_index = 0, dn_column_name = ''d'',
      dn_format = Some ''%d.%m.%y'', dn_pivot = Some 30, dn_spreadsheet_epoch = None,
      dn_timezone = None, dn_ambiguous_time_policy = ''reject''\<rparr> 0 [CStr ''29.02.68''] =
    Inr (Inr [CStr (date_isoformat \<lparr>cv_year = y, cv_month = 2, cv_day = 29\<rparr>)]) \<and> 1931 \<le> y \<and> y \<le> 2030"
proof -
  let ?cfg = "\<lparr>dn_column_index = 0, dn_column_name = ''d'', dn_format = Some ''%d.%m.%y'',
    dn_pivot = Some 30, dn_spreadsheet_epoch = None, dn_timezone = None,
    dn_ambiguous_time_policy = ''reject''\<rparr>"
  let ?t = "\<lparr>cv_year = 2068, cv_month = 2, cv_day = 29, tm_hour = 0, tm_minute = 0,
    tm_second = 0, tm_micro = 0\<rparr>"
  have "contains ''%d.%m.%y'' ''%y''" "\<not> has_time_component ?cfg"
    "sample_dates ''29.02.68'' ''%d.%m.%y'' = Some (?t, None)" "valid_civil (civil.truncate ?t)"
    by code_simp+
  then show ?thesis
    using pivot_places_century [of ?cfg "''%d.%m.%y''" 30 "[CStr ''29.02.68'']" "''29.02.68''"
        sample_dates ?t 0] by auto
qed

end
