(* ===== verification/Staging.thy ===== *)
theory Staging
  imports Config Validate BooleanNull Numeric Dates
begin

text \<open>
  The staging loader (\<open>load/staging.py\<close>): the stages it builds from the dataset
  configuration, the pass of the source's chunks through the engine, and the rows it copies
  into the run's staging table, each with its lineage.

  What the language's libraries decide from data outside the program is an environment:
  \<open>strptime\<close>, the zone database, NFC normalization, the regular-expression engine and SHA-256.
\<close>

section \<open>The environment and the stages\<close>

record env =
  ev_strptime :: strptime_fun
  ev_zones :: "string \<Rightarrow> zone option"
  ev_nfc :: "string \<Rightarrow> string"
  ev_fullmatch :: "string \<Rightarrow> string \<Rightarrow> bool"
  ev_sha256 :: "string \<Rightarrow> string"

datatype rule_stage =
    RCompleteness rule_config
  | RUniqueness rule_config
  | RRange range_config
  | RPattern pattern_config

datatype stage =
    SRagged string
  | SPad nat
  | SNull null_config
  | SDate date_config
  | SNumeric numeric_config
  | SBoolean boolean_config
  | SUnicode
  | SQuality dispatch_config rule_stage

text \<open>\<open>_OptionalColumnPadStage.apply\<close>.\<close>

definition pad_row :: "nat \<Rightarrow> row \<Rightarrow> row" where
  "pad_row width r = (if width \<le> length r then r else r @ replicate (width - length r) CNone)"

definition pad_apply :: "nat \<Rightarrow> chunk \<Rightarrow> exn + stage_result" where
  "pad_apply width c =
     (if list_all (\<lambda>r. width \<le> length r) (rc_rows c)
      then Inr \<lparr>sr_chunk = c, sr_rejected = [], sr_findings = []\<rparr>
      else Inr (stage_result_of c (map (pad_row width) (rc_rows c), [])))"

fun rule_apply :: "env \<Rightarrow> rule_stage \<Rightarrow> chunk \<Rightarrow> exn + stage_result" where
  "rule_apply env (RCompleteness cfg) c = completeness_apply cfg c"
| "rule_apply env (RUniqueness cfg) c = uniqueness_apply cfg c"
| "rule_apply env (RRange cfg) c = range_apply cfg c"
| "rule_apply env (RPattern cfg) c = pattern_apply (ev_fullmatch env) cfg c"

definition date_zone :: "env \<Rightarrow> date_config \<Rightarrow> zone option" where
  "date_zone env cfg = (case dn_timezone cfg of None \<Rightarrow> None | Some name \<Rightarrow> ev_zones env name)"

fun stage_apply :: "env \<Rightarrow> stage \<Rightarrow> chunk \<Rightarrow> exn + stage_result" where
  "stage_apply env (SRagged delimiter) c = ragged_apply delimiter c"
| "stage_apply env (SPad width) c = pad_apply width c"
| "stage_apply env (SNull cfg) c = null_apply cfg c"
| "stage_apply env (SDate cfg) c = date_apply (ev_strptime env) (date_zone env cfg) cfg c"
| "stage_apply env (SNumeric cfg) c = numeric_apply cfg c"
| "stage_apply env (SBoolean cfg) c = boolean_apply cfg c"
| "stage_apply env SUnicode c = unicode_apply (ev_nfc env) c"
| "stage_apply env (SQuality cfg inner) c = strategy_dispatch_apply (rule_apply env) cfg inner c"

section \<open>The contract of every stage the loader builds\<close>

lemma pad_apply_eq: "pad_apply width c = Inr (stage_result_of c (map (pad_row width) (rc_rows c), []))"
proof -
  have "map (pad_row width) rs = rs" if "list_all (\<lambda>r. width \<le> length r) rs" for rs
    using that by (induction rs) (auto simp: pad_row_def)
  then show ?thesis by (auto simp: pad_apply_def stage_result_of_def)
qed

interpretation pad: streaming_stage pad_apply
  by unfold_locales (auto simp: pad_apply_eq)

interpretation rule: streaming_stage "rule_apply env" for env
proof
  fix s c r
  assume run: "rule_apply env s c = Inr r"
  show "length (rc_rows (sr_chunk r)) + length (sr_rejected r) = length (rc_rows c)"
    using run completeness.conserve uniqueness.conserve validity_range.conserve pattern.conserve
    by (cases s) auto
  show "rc_first_ordinal (sr_chunk r) = rc_first_ordinal c \<and>
      rc_expected_field_count (sr_chunk r) = rc_expected_field_count c"
    using run completeness.frame uniqueness.frame validity_range.frame pattern.frame
    by (cases s) auto
  show "rc_first_ordinal c \<le> rj_source_row_number x \<and>
      rj_source_row_number x < rc_first_ordinal c + chunk_len c" if "x \<in> set (sr_rejected r)" for x
    using run that completeness.range uniqueness.range validity_range.range pattern.range
    by (cases s) fastforce+
qed

interpretation quality: streaming_stage "\<lambda>(cfg, s). strategy_dispatch_apply (rule_apply env) cfg s" for env
  by (rule rule.dispatch_contract)

interpretation staging: streaming_stage "stage_apply env" for env
proof
  fix s c r
  assume run: "stage_apply env s c = Inr r"
  show "length (rc_rows (sr_chunk r)) + length (sr_rejected r) = length (rc_rows c)"
    using run ragged.conserve pad.conserve null_token.conserve date.conserve numeric.conserve
      boolean.conserve unicode.conserve quality.conserve [of env "(d, q)" c r for d q]
    by (cases s) auto
  show "rc_first_ordinal (sr_chunk r) = rc_first_ordinal c \<and>
      rc_expected_field_count (sr_chunk r) = rc_expected_field_count c"
    using run ragged.frame pad.frame null_token.frame date.frame numeric.frame
      boolean.frame unicode.frame quality.frame [of env "(d, q)" c r for d q]
    by (cases s) auto
  show "rc_first_ordinal c \<le> rj_source_row_number x \<and>
      rj_source_row_number x < rc_first_ordinal c + chunk_len c" if "x \<in> set (sr_rejected r)" for x
    using run that ragged.range pad.range null_token.range date.range numeric.range
      boolean.range unicode.range quality.range [of env "(d, q)" c r x for d q]
    by (cases s) (simp; blast)+
qed

section \<open>Building the stages\<close>

definition null_tokens_for_column :: "normalization_config option \<Rightarrow> string \<Rightarrow> string list" where
  "null_tokens_for_column normalization name =
     (case normalization of
        None \<Rightarrow> ['''']
      | Some n \<Rightarrow>
          no_null_tokens n @ (case map_of (no_null_sentinels n) name of None \<Rightarrow> [] | Some s \<Rightarrow> s))"

definition column_sentinels :: "normalization_config option \<Rightarrow> string \<Rightarrow> string list" where
  "column_sentinels normalization name =
     (case normalization of
        None \<Rightarrow> []
      | Some n \<Rightarrow> (case map_of (no_null_sentinels n) name of None \<Rightarrow> [] | Some s \<Rightarrow> s))"

text \<open>Where no \<open>normalization\<close> is declared, every stage argument is the model's default.\<close>

definition effective_normalization :: "dataset_config \<Rightarrow> normalization_config" where
  "effective_normalization cfg =
     (case ds_normalization cfg of None \<Rightarrow> default_normalization | Some n \<Rightarrow> n)"

definition null_stage :: "dataset_config \<Rightarrow> column_contract \<Rightarrow> nat \<Rightarrow> stage" where
  "null_stage cfg col i =
     SNull \<lparr>nt_column_index = i, nt_column_name = cc_name col,
            nt_null_tokens = null_tokens_for_column (ds_normalization cfg) (cc_name col)\<rparr>"

definition column_date_config :: "dataset_config \<Rightarrow> column_contract \<Rightarrow> nat \<Rightarrow> date_config" where
  "column_date_config cfg col i =
     (let n = effective_normalization cfg in
      \<lparr>dn_column_index = i, dn_column_name = cc_name col, dn_format = cc_format col,
       dn_pivot = no_two_digit_year_pivot n, dn_spreadsheet_epoch = no_spreadsheet_epoch n,
       dn_timezone = no_timezone n, dn_ambiguous_time_policy = no_ambiguous_time_policy n\<rparr>)"

definition column_numeric_config :: "dataset_config \<Rightarrow> column_contract \<Rightarrow> nat \<Rightarrow> numeric_config" where
  "column_numeric_config cfg col i =
     (let n = effective_normalization cfg in
      \<lparr>nn_column_index = i, nn_column_name = cc_name col,
       nn_decimal_separator = no_decimal_separator n, nn_thousands_separator = no_thousands_separator n,
       nn_currency_symbols = no_currency_symbols n, nn_percent_as_fraction = no_percent_as_fraction n,
       nn_negative_style = no_negative_style n,
       nn_reject_scientific_notation = cc_reject_scientific_notation col,
       nn_fixed_width = cc_fixed_width col,
       nn_null_sentinels = column_sentinels (ds_normalization cfg) (cc_name col)\<rparr>)"

definition column_boolean_config :: "dataset_config \<Rightarrow> column_contract \<Rightarrow> nat \<Rightarrow> boolean_config" where
  "column_boolean_config cfg col i =
     (let n = effective_normalization cfg in
      \<lparr>bn_column_index = i, bn_column_name = cc_name col, bn_true_tokens = no_boolean_true_tokens n,
       bn_false_tokens = no_boolean_false_tokens n\<rparr>)"

definition typed_stages :: "env \<Rightarrow> dataset_config \<Rightarrow> column_contract \<Rightarrow> nat \<Rightarrow> exn + stage list" where
  "typed_stages env cfg col i =
     (case cc_type col of
        TDate \<Rightarrow> (let d = column_date_config cfg col i in
                  case date_init (ev_zones env) d of Some e \<Rightarrow> Inl e | None \<Rightarrow> Inr [SDate d])
      | TTimestamp \<Rightarrow> (let d = column_date_config cfg col i in
                  case date_init (ev_zones env) d of Some e \<Rightarrow> Inl e | None \<Rightarrow> Inr [SDate d])
      | TDecimal \<Rightarrow> Inr [SNumeric (column_numeric_config cfg col i)]
      | TInteger \<Rightarrow> Inr [SNumeric (column_numeric_config cfg col i)]
      | TBoolean \<Rightarrow> Inr [SBoolean (column_boolean_config cfg col i)]
      | TString \<Rightarrow> Inr [])"

text \<open>The stages of one contract column; a column the target does not have is a \<open>ValueError\<close>.\<close>

definition column_stages :: "env \<Rightarrow> dataset_config \<Rightarrow> string list \<Rightarrow> column_contract \<Rightarrow> exn + stage list" where
  "column_stages env cfg target_columns col =
     (case index_of (cc_name col) target_columns of
        None \<Rightarrow> Inl (Exn PyValueError [])
      | Some i \<Rightarrow>
          (case typed_stages env cfg col i of
             Inl e \<Rightarrow> Inl e
           | Inr ss \<Rightarrow> Inr ((if cc_nullable col then [null_stage cfg col i] else []) @ ss)))"

definition streaming_rule_types :: "string list" where
  "streaming_rule_types =
     [''STRUCTURAL'', ''QUALITY_COMPLETENESS'', ''QUALITY_UNIQUENESS'', ''QUALITY_VALIDITY_RANGE'',
      ''QUALITY_PATTERN'']"

text \<open>A declared bound is a number; anything else is read as no bound here.\<close>

definition param_number :: "(string \<times> pyval) list \<Rightarrow> string \<Rightarrow> rat option" where
  "param_number params key =
     (case map_of params key of
        Some (VFloat q) \<Rightarrow> Some q
      | Some (VInt k) \<Rightarrow> Some (of_int k)
      | _ \<Rightarrow> None)"

definition rule_base :: "quality_rule_config \<Rightarrow> string \<Rightarrow> nat \<Rightarrow> nat option \<Rightarrow> rule_config" where
  "rule_base rule name i key_index =
     \<lparr>ru_column_index = i, ru_column_name = name, ru_strategy = qr_strategy rule,
      ru_rule_id = qr_rule_id rule, ru_business_key_index = key_index\<rparr>"

text \<open>
  The rule class of the registry applied to the keyword arguments: a class with other
  parameters refuses them with a \<open>TypeError\<close>.
\<close>

definition build_one_quality_stage :: "string list \<Rightarrow> quality_rule_config \<Rightarrow> nat option \<Rightarrow> exn + stage" where
  "build_one_quality_stage target_columns rule key_index =
     (case qr_column rule of
        None \<Rightarrow> Inl (dp_error ConfigurationError
          [(''rule_id'', VStr (qr_rule_id rule)), (''rule_type'', VStr (qr_rule_type rule))])
      | Some name \<Rightarrow>
          (case index_of name target_columns of
             None \<Rightarrow> Inl (Exn PyValueError [])
           | Some i \<Rightarrow>
               (case resolve_validation_rule (qr_rule_type rule) of
                  Inl e \<Rightarrow> Inl e
                | Inr cls \<Rightarrow>
                    (let base = rule_base rule name i key_index;
                         inner = (case cls of
                             RuleCompleteness \<Rightarrow> Inr (RCompleteness base)
                           | RuleUniqueness \<Rightarrow> Inr (RUniqueness base)
                           | RuleValidityRange \<Rightarrow> Inr (RRange (rule_config.extend base
                               \<lparr>vr_minimum = param_number (qr_params rule) ''minimum'',
                                vr_maximum = param_number (qr_params rule) ''maximum''\<rparr>))
                           | RulePattern \<Rightarrow>
                               (case map_of (qr_params rule) ''pattern'' of
                                  None \<Rightarrow> Inl (Exn PyKeyError [])
                                | Some (VStr p) \<Rightarrow> Inr (RPattern (rule_config.extend base \<lparr>pt_pattern = p\<rparr>))
                                | Some v \<Rightarrow> Inl (Exn PyTypeError []))
                           | _ \<Rightarrow> Inl (Exn PyTypeError []))
                     in case inner of
                          Inl e \<Rightarrow> Inl e
                        | Inr st \<Rightarrow>
                            (case strategy_dispatch_init (qr_strategy rule) (qr_rule_id rule) of
                               Some e \<Rightarrow> Inl e
                             | None \<Rightarrow> Inr (SQuality \<lparr>dp_strategy = qr_strategy rule,
                                 dp_rule_id = qr_rule_id rule, dp_rule_type = qr_rule_type rule\<rparr> st))))))"

definition build_quality_stages :: "dataset_config \<Rightarrow> string list \<Rightarrow> exn + stage list" where
  "build_quality_stages cfg target_columns =
     (case ds_quality cfg of
        None \<Rightarrow> Inr []
      | Some q \<Rightarrow>
          (let rules = filter (\<lambda>rule. qr_rule_type rule \<in> set streaming_rule_types \<and>
                                 qr_rule_type rule \<noteq> ''STRUCTURAL'') (qc_rules q) in
           case first_business_key cfg of
             None \<Rightarrow> traverse (\<lambda>rule. build_one_quality_stage target_columns rule None) rules
           | Some col \<Rightarrow>
               (case index_of (cc_name col) target_columns of
                  None \<Rightarrow> Inl (Exn PyValueError [])
                | Some i \<Rightarrow> traverse (\<lambda>rule. build_one_quality_stage target_columns rule (Some i)) rules)))"

definition build_stages :: "env \<Rightarrow> dataset_config \<Rightarrow> string list \<Rightarrow> exn + stage list" where
  "build_stages env cfg target_columns =
     (case traverse (column_stages env cfg target_columns) (ds_columns cfg) of
        Inl e \<Rightarrow> Inl e
      | Inr per_column \<Rightarrow>
          (case build_quality_stages cfg target_columns of
             Inl e \<Rightarrow> Inl e
           | Inr quality \<Rightarrow>
               Inr ([SRagged '','', SPad (length target_columns)] @ concat per_column @
                    [SUnicode] @ quality)))"

section \<open>Loading\<close>

record run_ids =
  ri_run_id :: int
  ri_file_id :: int
  ri_batch_id :: "int option"

record staged_row =
  sg_fields :: row
  sg_run_id :: int
  sg_file_id :: int
  sg_batch_id :: "int option"
  sg_source_row_number :: int
  sg_record_hash :: string
  sg_record_hash_version :: int

record staging_result =
  st_rows_read :: int
  st_rows_parsed :: int
  st_rows_rejected :: int
  st_rejected_records :: "rejected_record list"

definition staged_fields :: "nat \<Rightarrow> row \<Rightarrow> row" where
  "staged_fields width r =
     (if width < length r then take width r
      else if length r < width then r @ replicate (width - length r) CNone
      else r)"

definition record_hash_text :: "row \<Rightarrow> string" where
  "record_hash_text vs = join ''|'' (map field_text vs)"

fun enrich_rows :: "env \<Rightarrow> run_ids \<Rightarrow> nat \<Rightarrow> int \<Rightarrow> row list \<Rightarrow> staged_row list" where
  "enrich_rows env ids width next_number [] = []"
| "enrich_rows env ids width next_number (r # rs) =
     (let vs = staged_fields width r in
      \<lparr>sg_fields = vs, sg_run_id = ri_run_id ids, sg_file_id = ri_file_id ids,
       sg_batch_id = ri_batch_id ids, sg_source_row_number = next_number,
       sg_record_hash = ev_sha256 env (record_hash_text vs), sg_record_hash_version = 1\<rparr>
      # enrich_rows env ids width (next_number + 1) rs)"

text \<open>The loop over the engine's results: the counters, the rejected records, the staged rows.\<close>

fun copy_results :: "env \<Rightarrow> run_ids \<Rightarrow> nat \<Rightarrow> int \<Rightarrow> staged_row list \<Rightarrow> staging_result \<Rightarrow>
    (int \<times> stage_result) list \<Rightarrow> staged_row list \<times> staging_result" where
  "copy_results env ids width next_number table acc [] = (table, acc)"
| "copy_results env ids width next_number table acc ((ordinal, result) # rest) =
     (let surviving = rc_rows (sr_chunk result);
          enriched = enrich_rows env ids width next_number surviving;
          acc' = acc\<lparr>st_rows_read := st_rows_read acc + int (length surviving) + int (length (sr_rejected result)),
                     st_rows_rejected := st_rows_rejected acc + int (length (sr_rejected result)),
                     st_rejected_records := st_rejected_records acc @ sr_rejected result,
                     st_rows_parsed := st_rows_parsed acc + int (length enriched)\<rparr>
      in copy_results env ids width (next_number + int (length surviving)) (table @ enriched) acc' rest)"

definition empty_result :: staging_result where
  "empty_result = \<lparr>st_rows_read = 0, st_rows_parsed = 0, st_rows_rejected = 0, st_rejected_records = []\<rparr>"

text \<open>
  \<open>StagingLoader.load\<close>: the staging table is dropped and created anew, then filled.  An
  exception of a stage leaves the load with what was copied before it still uncommitted.
\<close>

definition staging_load :: "env \<Rightarrow> dataset_config \<Rightarrow> run_ids \<Rightarrow> string list \<Rightarrow> chunk list \<Rightarrow>
    exn + staged_row list \<times> staging_result" where
  "staging_load env cfg ids target_columns chunks =
     (case build_stages env cfg target_columns of
        Inl e \<Rightarrow> Inl e
      | Inr stages \<Rightarrow>
          (case run_streaming (stage_apply env) chunks stages of
             (yielded, Some e) \<Rightarrow> Inl e
           | (yielded, None) \<Rightarrow>
               Inr (copy_results env ids (length target_columns) 1 [] empty_result yielded)))"

text \<open>
  \<open>with source.open(ctx) as stream\<close>: opening may raise, and so may the chunk iterator after some
  chunks; the stages run on the chunks it gave, and what the iterator raises then ends the load.
\<close>

definition staging_load_from :: "env \<Rightarrow> dataset_config \<Rightarrow> run_ids \<Rightarrow> string list \<Rightarrow> exn + chunk list \<times> exn option \<Rightarrow>
    exn + staged_row list \<times> staging_result" where
  "staging_load_from env cfg ids target_columns source =
     (case source of
        Inl e \<Rightarrow> Inl e
      | Inr (chunks, raised) \<Rightarrow>
          (case staging_load env cfg ids target_columns chunks of
             Inl e \<Rightarrow> Inl e
           | Inr r \<Rightarrow> (case raised of Some e \<Rightarrow> Inl e | None \<Rightarrow> Inr r)))"

lemma staging_load_from_Inr:
  "staging_load_from env cfg ids cols source = Inr r \<longleftrightarrow>
     (\<exists>chunks. source = Inr (chunks, None) \<and> staging_load env cfg ids cols chunks = Inr r)"
  by (auto simp: staging_load_from_def split: sum.splits prod.splits option.splits)

lemma enrich_rows_length [simp]: "length (enrich_rows env ids width n rs) = length rs"
  by (induction rs arbitrary: n) (auto simp: Let_def)

lemma enrich_rows_numbers: "map sg_source_row_number (enrich_rows env ids width n rs) =
    map (\<lambda>i. n + int i) [0..<length rs]"
proof (induction rs arbitrary: n)
  case Nil
  then show ?case by simp
next
  case (Cons r rs)
  have "map (\<lambda>i. n + int i) [0..<Suc (length rs)] = n # map (\<lambda>i. n + 1 + int i) [0..<length rs]"
    by (simp add: upt_conv_Cons map_Suc_upt [symmetric] o_def ac_simps del: upt_Suc)
  then show ?case using Cons [of "n + 1"] by (simp add: Let_def)
qed

lemma staged_fields_length [simp]: "length (staged_fields width r) = width"
  by (simp add: staged_fields_def)

definition lineage_ok :: "env \<Rightarrow> run_ids \<Rightarrow> nat \<Rightarrow> staged_row \<Rightarrow> bool" where
  "lineage_ok env ids width s \<longleftrightarrow>
     length (sg_fields s) = width \<and> sg_run_id s = ri_run_id ids \<and> sg_file_id s = ri_file_id ids \<and>
     sg_batch_id s = ri_batch_id ids \<and> sg_record_hash_version s = 1 \<and>
     sg_record_hash s = ev_sha256 env (record_hash_text (sg_fields s))"

lemma enrich_rows_lineage: "list_all (lineage_ok env ids width) (enrich_rows env ids width n rs)"
  by (induction rs arbitrary: n) (auto simp: Let_def lineage_ok_def)

text \<open>What the copy loop has done after any number of results.\<close>

definition load_inv :: "env \<Rightarrow> run_ids \<Rightarrow> nat \<Rightarrow> int \<Rightarrow> staged_row list \<Rightarrow> staging_result \<Rightarrow> bool" where
  "load_inv env ids width next_number table acc \<longleftrightarrow>
     next_number = int (length table) + 1 \<and>
     map sg_source_row_number table = map (\<lambda>i. 1 + int i) [0..<length table] \<and>
     list_all (lineage_ok env ids width) table \<and>
     st_rows_parsed acc = int (length table) \<and>
     st_rows_rejected acc = int (length (st_rejected_records acc)) \<and>
     st_rows_read acc = st_rows_parsed acc + st_rows_rejected acc"

lemma copy_results_inv:
  assumes "load_inv env ids width n table acc"
    and "copy_results env ids width n table acc results = (table', acc')"
  shows "load_inv env ids width (int (length table') + 1) table' acc' \<and>
    st_rows_read acc' = st_rows_read acc +
      (\<Sum>y\<leftarrow>results. int (length (rc_rows (sr_chunk (snd y))) + length (sr_rejected (snd y))))"
  using assms
proof (induction results arbitrary: n table acc)
  case Nil
  then show ?case by (simp add: load_inv_def)
next
  case (Cons y rest)
  obtain ordinal result where y: "y = (ordinal, result)" by fastforce
  define rs where "rs = rc_rows (sr_chunk result)"
  define acc1 where "acc1 = acc\<lparr>st_rows_read := st_rows_read acc + int (length rs) + int (length (sr_rejected result)),
      st_rows_rejected := st_rows_rejected acc + int (length (sr_rejected result)),
      st_rejected_records := st_rejected_records acc @ sr_rejected result,
      st_rows_parsed := st_rows_parsed acc + int (length (enrich_rows env ids width n rs))\<rparr>"
  have step: "copy_results env ids width (n + int (length rs)) (table @ enrich_rows env ids width n rs) acc1 rest =
      (table', acc')"
    using Cons.prems(2) by (simp add: y rs_def acc1_def Let_def)
  have "map (\<lambda>i. 1 + int i) [0..<length table + length rs] =
      map (\<lambda>i. 1 + int i) [0..<length table] @ map (\<lambda>i. n + int i) [0..<length rs]"
  proof -
    have "map (\<lambda>i. 1 + int i) [length table..<length table + length rs] =
        map (\<lambda>i. n + int i) [0..<length rs]"
      using Cons.prems(1) by (intro nth_equalityI) (auto simp: load_inv_def)
    then show ?thesis by (simp add: upt_add_eq_append [of 0 "length table"])
  qed
  then have inv: "load_inv env ids width (n + int (length rs)) (table @ enrich_rows env ids width n rs) acc1"
    using Cons.prems(1) enrich_rows_lineage [of env ids width n rs]
    by (auto simp: load_inv_def acc1_def enrich_rows_numbers)
  from Cons.IH [OF inv step] show ?case by (simp add: y acc1_def rs_def)
qed

text \<open>C30: Staging accounts for every row of the file.  When a load completes, the rows read are
  the rows the source produced, each either staged or among the rejected records; the staged rows are
  numbered 1, 2, 3, ... without a gap, all have exactly the target's columns, and carry the run's
  lineage and the hash of the very fields stored.\<close>

theorem staging_accounts_for_every_row:
  assumes "staging_load env cfg ids target_columns chunks = Inr (table, res)"
  shows "st_rows_read res = (\<Sum>c\<leftarrow>chunks. chunk_len c) \<and>
    st_rows_read res = st_rows_parsed res + st_rows_rejected res \<and>
    st_rows_parsed res = int (length table) \<and>
    st_rows_rejected res = int (length (st_rejected_records res)) \<and>
    map sg_source_row_number table = map (\<lambda>i. 1 + int i) [0..<length table] \<and>
    (\<forall>s \<in> set table. length (sg_fields s) = length target_columns \<and>
       sg_run_id s = ri_run_id ids \<and> sg_file_id s = ri_file_id ids \<and> sg_batch_id s = ri_batch_id ids \<and>
       sg_record_hash s = ev_sha256 env (record_hash_text (sg_fields s)))"
proof -
  obtain stages yielded where
    run: "run_streaming (stage_apply env) chunks stages = (yielded, None)"
    and copy: "copy_results env ids (length target_columns) 1 [] empty_result yielded = (table, res)"
    using assms by (auto simp: staging_load_def split: sum.splits prod.splits option.splits)
  have "load_inv env ids (length target_columns) 1 [] empty_result"
    by (simp add: load_inv_def empty_result_def)
  from copy_results_inv [OF this copy]
  have inv: "load_inv env ids (length target_columns) (int (length table) + 1) table res"
    and read: "st_rows_read res =
      (\<Sum>y\<leftarrow>yielded. int (length (rc_rows (sr_chunk (snd y))) + length (sr_rejected (snd y))))"
    by (simp_all add: empty_result_def)
  have "st_rows_read res = int (\<Sum>c\<leftarrow>chunks. length (rc_rows c))"
    unfolding read staging.run_streaming_conserves [OF run, symmetric] by (simp add: int_sum_list)
  then show ?thesis
    using inv by (auto simp: load_inv_def lineage_ok_def list_all_iff int_sum_list)
qed

section \<open>A sample dataset, for the witnesses\<close>

definition sample_env :: env where
  "sample_env = \<lparr>ev_strptime = \<lambda>_ _. None, ev_zones = \<lambda>_. None, ev_nfc = \<lambda>s. s,
     ev_fullmatch = \<lambda>_ _. True, ev_sha256 = \<lambda>s. s\<rparr>"

definition sample_config :: "quality_config option \<Rightarrow> dataset_config" where
  "sample_config quality =
     \<lparr>ds_dataset = ''members'',
      ds_source = \<lparr>so_type = ''csv'', so_bucket = ''raw'', so_path = ''in/'', so_change_semantics = ''SNAPSHOT'',
        so_duplicate_policy = ''SKIP_SUCCESSFUL'', so_multipart_pattern = None, so_batch_complete_marker = None\<rparr>,
      ds_deduplication = None, ds_load = \<lparr>lo_strategy = ''MERGE'', lo_target = ''silver.members''\<rparr>,
      ds_columns =
        [\<lparr>cc_name = ''id'', cc_type = TInteger, cc_nullable = False, cc_required = True,
          cc_business_key = True, cc_format = None, cc_fixed_width = None,
          cc_reject_scientific_notation = True, cc_scd_type = None\<rparr>,
         \<lparr>cc_name = ''active'', cc_type = TBoolean, cc_nullable = True, cc_required = True,
          cc_business_key = False, cc_format = None, cc_fixed_width = None,
          cc_reject_scientific_notation = False, cc_scd_type = None\<rparr>],
      ds_normalization = Some (default_normalization
        \<lparr>no_boolean_true_tokens := [''Y''], no_boolean_false_tokens := [''N'']\<rparr>),
      ds_quality = quality, ds_scd = None, ds_csv = default_csv_parsing, ds_on_new_column = ''evolve'',
      ds_on_missing_or_retyped_column = ''freeze''\<rparr>"

definition sample_chunks :: "chunk list" where
  "sample_chunks =
     [\<lparr>rc_rows = [[CStr ''1'', CStr ''Y''], [CStr ''2'']], rc_first_ordinal = 0, rc_expected_field_count = 2\<rparr>,
      \<lparr>rc_rows = [[CStr ''3'', CStr '''']], rc_first_ordinal = 2, rc_expected_field_count = 2\<rparr>]"

definition sample_ids :: run_ids where
  "sample_ids = \<lparr>ri_run_id = 7, ri_file_id = 8, ri_batch_id = None\<rparr>"

theorem staging_accounts_for_every_row_witness:
  "\<exists>table res. staging_load sample_env (sample_config None) sample_ids [''id'', ''active''] sample_chunks =
      Inr (table, res) \<and> st_rows_read res = 3 \<and> st_rows_rejected res = 1 \<and>
      map sg_source_row_number table = [1, 2]"
proof -
  obtain table res where run: "staging_load sample_env (sample_config None) sample_ids
      [''id'', ''active''] sample_chunks = Inr (table, res)"
    and shape: "length table = 2" "length (st_rejected_records res) = 1"
  proof -
    have "(case staging_load sample_env (sample_config None) sample_ids [''id'', ''active''] sample_chunks of
        Inl _ \<Rightarrow> False | Inr (table, res) \<Rightarrow> length table = 2 \<and> length (st_rejected_records res) = 1)"
      by code_simp
    then show thesis using that by (auto split: sum.splits prod.splits)
  qed
  show ?thesis
    using staging_accounts_for_every_row [OF run] run shape
    by (simp add: sample_chunks_def upt_rec)
qed

section \<open>The stages are safe on the rows they meet\<close>

fun rule_fits :: "nat \<Rightarrow> rule_stage \<Rightarrow> bool" where
  "rule_fits w (RCompleteness cfg) = (ru_column_index cfg < w \<and> (\<forall>i \<in> set_option (ru_business_key_index cfg). i < w))"
| "rule_fits w (RUniqueness cfg) = (ru_column_index cfg < w \<and> (\<forall>i \<in> set_option (ru_business_key_index cfg). i < w))"
| "rule_fits w (RRange cfg) = (ru_column_index cfg < w \<and> (\<forall>i \<in> set_option (ru_business_key_index cfg). i < w))"
| "rule_fits w (RPattern cfg) = (ru_column_index cfg < w \<and> (\<forall>i \<in> set_option (ru_business_key_index cfg). i < w))"

fun stage_fits :: "nat \<Rightarrow> stage \<Rightarrow> bool" where
  "stage_fits w (SNull cfg) = (nt_column_index cfg < w)"
| "stage_fits w (SDate cfg) = (dn_column_index cfg < w)"
| "stage_fits w (SNumeric cfg) = (nn_column_index cfg < w)"
| "stage_fits w (SBoolean cfg) = (bn_column_index cfg < w)"
| "stage_fits w (SQuality cfg inner) = rule_fits w inner"
| "stage_fits w _ = True"

lemma null_safe: "nt_column_index cfg < w \<Longrightarrow> safe_body w (null_body cfg)"
  by (auto simp: safe_body_def null_body_def split: option.splits if_splits)

lemma boolean_safe: "bn_column_index cfg < w \<Longrightarrow> safe_body w (boolean_body cfg)"
  by (auto simp: safe_body_def boolean_body_def Let_def split: option.splits if_splits)

lemma numeric_safe: "nn_column_index cfg < w \<Longrightarrow> safe_body w (numeric_body cfg)"
  by (auto simp: safe_body_def numeric_body_def Let_def split: option.splits cell.splits if_splits)

lemma pivot_not_index_error:
  "apply_two_digit_year_pivot t p = Inl e \<Longrightarrow> exn_class e \<noteq> PyIndexError"
  by (auto simp: apply_two_digit_year_pivot_def Let_def split: if_splits)

lemma checked_not_index_error: "checked l = Inl e \<Longrightarrow> exn_class e \<noteq> PyIndexError"
  by (auto simp: checked_def split: if_splits)

lemma classify_not_index_error: "classify_naive_local l z = Inl e \<Longrightarrow> exn_class e \<noteq> PyIndexError"
  by (auto simp: classify_naive_local_def checked_def split: if_splits)

lemma add_days_not_index_error: "add_days d n = Inl e \<Longrightarrow> exn_class e \<noteq> PyIndexError"
  by (auto simp: add_days_def Let_def split: if_splits)

lemma serial_not_index_error: "resolve_excel_1900_serial s = Inl e \<Longrightarrow> exn_class e \<noteq> PyIndexError"
  by (auto simp: resolve_excel_1900_serial_def Let_def split: if_splits sum.splits
      dest: add_days_not_index_error)

lemmas not_index_error = pivot_not_index_error checked_not_index_error classify_not_index_error
  add_days_not_index_error serial_not_index_error

lemma pivoted_not_index_error: "pivoted cfg t = Inl e \<Longrightarrow> exn_class e \<noteq> PyIndexError"
  by (auto simp: pivoted_def split: if_splits option.splits dest: not_index_error)

lemma plain_safe:
  "parse_plain_format sp cfg raw n r = Inl e \<Longrightarrow> exn_class e \<noteq> PyIndexError"
  "parse_plain_format sp cfg raw n r = Inr (Inr r') \<Longrightarrow> length r' = length r"
  by (auto simp: parse_plain_format_def replace_field_def split: option.splits prod.splits sum.splits if_splits
      dest: not_index_error pivoted_not_index_error)

lemma naive_safe:
  "parse_naive_local sp cfg raw n r z = Inl e \<Longrightarrow> exn_class e \<noteq> PyIndexError"
  "parse_naive_local sp cfg raw n r z = Inr (Inr r') \<Longrightarrow> length r' = length r"
  by (auto simp: parse_naive_local_def replace_field_def Let_def
      split: option.splits prod.splits sum.splits if_splits
      dest: not_index_error pivoted_not_index_error)

lemma serial_safe:
  "parse_spreadsheet_serial cfg raw n r = Inl e \<Longrightarrow> exn_class e \<noteq> PyIndexError"
  "parse_spreadsheet_serial cfg raw n r = Inr (Inr r') \<Longrightarrow> length r' = length r"
  by (auto simp: parse_spreadsheet_serial_def replace_field_def
      split: option.splits prod.splits sum.splits if_splits dest: not_index_error)

lemma date_safe: "dn_column_index cfg < w \<Longrightarrow> safe_body w (date_body sp z cfg)"
  unfolding safe_body_def date_body_def
  by (auto split: option.splits cell.splits if_splits
      dest: plain_safe(1) naive_safe(1) serial_safe(1) simp: plain_safe(2) naive_safe(2) serial_safe(2))

lemma reject_safe:
  assumes "\<forall>i \<in> set_option (ru_business_key_index cfg). i < w" and "w \<le> length r"
  shows "rule_reject cfg t m n r \<noteq> Inl e"
  using assms by (auto simp: rule_reject_def extract_business_key_def split: option.splits)

lemma completeness_safe: "rule_fits w (RCompleteness cfg) \<Longrightarrow> safe_body w (completeness_body cfg)"
  by (auto simp: safe_body_def completeness_body_def reject_safe split: option.splits if_splits)

lemma range_safe: "rule_fits w (RRange cfg) \<Longrightarrow> safe_body w (range_body cfg)"
  by (auto simp: safe_body_def range_body_def reject_safe rule_config.truncate_def
      split: option.splits if_splits)

lemma pattern_safe: "rule_fits w (RPattern cfg) \<Longrightarrow> safe_body w (pattern_body fm cfg)"
  by (auto simp: safe_body_def pattern_body_def reject_safe rule_config.truncate_def
      split: option.splits if_splits)

lemma uniqueness_loop_safe:
  assumes "rule_fits w (RUniqueness cfg)" and "\<forall>r \<in> set rs. w \<le> length r"
  shows "\<exists>kept rejected. uniqueness_loop cfg seen n rs = Inr (kept, rejected) \<and> set kept \<subseteq> set rs"
  using assms(2)
proof (induction rs arbitrary: seen n)
  case Nil
  then show ?case by simp
next
  case (Cons r rs)
  have idx: "ru_column_index cfg < length r" using assms(1) Cons.prems by auto
  obtain key where "extract_business_key r (ru_business_key_index cfg) = Inr key"
    using assms(1) Cons.prems by (fastforce simp: extract_business_key_def split: option.splits)
  then obtain x where rej: "\<And>m k. \<exists>x. rule_reject cfg m k n r = Inr (Inl x)"
    by (simp add: rule_reject_def)
  have "\<And>seen. \<exists>kept rejected. uniqueness_loop cfg seen (n + 1) rs = Inr (kept, rejected) \<and> set kept \<subseteq> set rs"
    using Cons by simp
  then obtain k1 r1 k2 r2 where
    l1: "uniqueness_loop cfg seen (n + 1) rs = Inr (k1, r1)" "set k1 \<subseteq> set rs" and
    l2: "uniqueness_loop cfg (r ! ru_column_index cfg # seen) (n + 1) rs = Inr (k2, r2)" "set k2 \<subseteq> set rs"
    by metis
  show ?case
  proof (cases "r ! ru_column_index cfg \<in> set seen")
    case True
    obtain x where "rule_reject cfg ''UNIQUENESS_VIOLATION''
        (Msg ''duplicate value {!r} for business-key column {!r} within this chunk''
           [cell_val (r ! ru_column_index cfg), VStr (ru_column_name cfg)]) n r = Inr (Inl x)"
      using rej by blast
    with True idx l1 show ?thesis by auto
  next
    case False
    with idx l2 show ?thesis by auto
  qed
qed

lemma uniqueness_safe:
  assumes "rule_fits w (RUniqueness cfg)" and "wide_rows w c"
  shows "safe_outcome w (uniqueness_apply cfg c)"
proof -
  obtain kept rejected where "uniqueness_loop cfg [] (rc_first_ordinal c) (rc_rows c) = Inr (kept, rejected)"
    "set kept \<subseteq> set (rc_rows c)"
    using uniqueness_loop_safe [OF assms(1), of "rc_rows c" "[]" "rc_first_ordinal c"] assms(2)
    by (auto simp: wide_rows_def)
  then show ?thesis
    using assms(2) by (auto simp: uniqueness_apply_def safe_outcome_def wide_rows_def)
qed

lemma rule_safe:
  assumes "rule_fits w s" and "wide_rows w c"
  shows "safe_outcome w (rule_apply env s c)"
proof (cases s)
  case (RCompleteness cfg)
  then show ?thesis using loop_stage_safe [OF completeness_safe assms(2)] assms
    by (simp add: completeness_apply_def)
next
  case (RUniqueness cfg)
  then show ?thesis using uniqueness_safe assms by simp
next
  case (RRange cfg)
  then show ?thesis using loop_stage_safe [OF range_safe assms(2)] assms by (simp add: range_apply_def)
next
  case (RPattern cfg)
  then show ?thesis using loop_stage_safe [OF pattern_safe assms(2)] assms by (simp add: pattern_apply_def)
qed

lemma dispatch_safe:
  assumes "safe_outcome w (inner_apply s c)" and "wide_rows w c"
  shows "safe_outcome w (strategy_dispatch_apply inner_apply cfg s c)"
  using assms
  by (auto simp: strategy_dispatch_apply_def safe_outcome_def dp_error_def split: sum.splits)

lemma stage_safe:
  assumes "stage_fits w s" and "wide_rows w c"
  shows "safe_outcome w (stage_apply env s c)"
proof (cases s)
  case (SNull cfg)
  then show ?thesis using loop_stage_safe [OF null_safe assms(2)] assms by (simp add: null_apply_def)
next
  case (SDate cfg)
  then show ?thesis using loop_stage_safe [OF date_safe assms(2)] assms by (simp add: date_apply_def)
next
  case (SNumeric cfg)
  then show ?thesis using loop_stage_safe [OF numeric_safe assms(2)] assms by (simp add: numeric_apply_def)
next
  case (SBoolean cfg)
  then show ?thesis using loop_stage_safe [OF boolean_safe assms(2)] assms by (simp add: boolean_apply_def)
next
  case (SQuality cfg inner)
  then show ?thesis
    using dispatch_safe [of w "rule_apply env" inner c cfg] rule_safe [of w inner c env] assms by simp
qed (use assms in \<open>auto simp: ragged_apply_eq pad_apply_eq unicode_apply_def safe_outcome_def wide_rows_def
      pad_row_def\<close>)

lemma stage_loop_safe:
  assumes "list_all (stage_fits w) stages" and "wide_rows w c"
  shows "stage_loop (stage_apply env) stages c rej fnd = Inl e \<Longrightarrow> exn_class e \<noteq> PyIndexError"
  using assms
proof (induction stages arbitrary: c rej fnd)
  case Nil
  then show ?case by simp
next
  case (Cons s ss)
  have "safe_outcome w (stage_apply env s c)" using stage_safe Cons.prems by simp
  then show ?case using Cons.IH [of _ _ _] Cons.prems
    by (auto simp: safe_outcome_def split: sum.splits)
qed

lemma first_two_stages_safe:
  assumes "list_all (stage_fits w) rest"
    and "stage_loop (stage_apply env) (SRagged d # SPad w # rest) c rej fnd = Inl e"
  shows "exn_class e \<noteq> PyIndexError"
proof -
  obtain m where m: "ragged_apply d c = Inr m" by (simp add: ragged_apply_eq)
  have "wide_rows w (sr_chunk (stage_result_of (sr_chunk m) (map (pad_row w) (rc_rows (sr_chunk m)), [])))"
    by (auto simp: wide_rows_def pad_row_def)
  then obtain m2 where m2: "pad_apply w (sr_chunk m) = Inr m2" "wide_rows w (sr_chunk m2)"
    by (auto simp: pad_apply_eq)
  from assms(2) m m2(1) have "stage_loop (stage_apply env) rest (sr_chunk m2)
      ((rej @ sr_rejected m) @ sr_rejected m2) ((fnd @ sr_findings m) @ sr_findings m2) = Inl e"
    by simp
  then show ?thesis by (rule stage_loop_safe [OF assms(1) m2(2)])
qed

lemma column_stages_fit:
  assumes "column_stages env cfg target col = Inr ss"
  shows "list_all (stage_fits (length target)) ss"
proof -
  obtain i where i: "index_of (cc_name col) target = Some i"
    using assms by (auto simp: column_stages_def split: option.splits)
  then have lt: "i < length target" using index_of_Some by metis
  have "list_all (stage_fits (length target)) ts" if "typed_stages env cfg col i = Inr ts" for ts
    using that lt
    by (auto simp: typed_stages_def Let_def column_date_config_def column_numeric_config_def
        column_boolean_config_def split: column_type.splits option.splits)
  then show ?thesis
    using assms i lt by (auto simp: column_stages_def null_stage_def split: sum.splits if_splits)
qed

lemma rule_base_simps [simp]:
  "ru_column_index (rule_config.extend (rule_base rule name i key) x) = i"
  "ru_business_key_index (rule_config.extend (rule_base rule name i key) x) = key"
  "ru_column_index (rule_base rule name i key) = i"
  "ru_business_key_index (rule_base rule name i key) = key"
  by (simp_all add: rule_base_def rule_config.extend_def)

lemma one_quality_stage_fits:
  assumes "build_one_quality_stage target rule key = Inr s" and "\<forall>i \<in> set_option key. i < length target"
  shows "stage_fits (length target) s"
proof -
  obtain name i cls where base: "qr_column rule = Some name" "index_of name target = Some i"
      "resolve_validation_rule (qr_rule_type rule) = Inr cls"
    using assms(1) by (auto simp: build_one_quality_stage_def split: option.splits sum.splits)
  have "i < length target" using index_of_Some [OF base(2)] by simp
  then show ?thesis
    using assms base
    by (cases cls) (auto simp: build_one_quality_stage_def Let_def
        split: option.splits sum.splits pyval.splits)
qed

lemma build_stages_shape:
  assumes "build_stages env cfg target = Inr stages"
  shows "\<exists>rest. stages = SRagged '','' # SPad (length target) # rest \<and>
    list_all (stage_fits (length target)) rest"
proof -
  obtain per_column quality where cols: "traverse (column_stages env cfg target) (ds_columns cfg) = Inr per_column"
    and quality: "build_quality_stages cfg target = Inr quality"
    and stages: "stages = [SRagged '','', SPad (length target)] @ concat per_column @ [SUnicode] @ quality"
    using assms by (auto simp: build_stages_def split: sum.splits)
  have "list_all (stage_fits (length target)) ss" if "ss \<in> set per_column" for ss
    using traverse_mem [OF cols that] column_stages_fit by blast
  then have 1: "list_all (stage_fits (length target)) (concat per_column)" by (auto simp: list_all_iff)
  have one: "list_all (stage_fits (length target)) ss"
    if "traverse (\<lambda>rule. build_one_quality_stage target rule key) rules = Inr ss"
      and "\<forall>i \<in> set_option key. i < length target" for rules key ss
    using traverse_mem [OF that(1)] one_quality_stage_fits that(2) by (fastforce simp: list_all_iff)
  have 2: "list_all (stage_fits (length target)) quality"
    using quality index_of_Some one
    by (auto simp: build_quality_stages_def Let_def split: option.splits) fastforce+
  show ?thesis unfolding stages using 1 2 by simp
qed

lemma date_init_class: "date_init zones d = Some e \<Longrightarrow> exn_class e \<noteq> PyIndexError"
  by (auto simp: date_init_def split: if_splits option.splits)

lemma column_stages_class: "column_stages env cfg target col = Inl e \<Longrightarrow> exn_class e \<noteq> PyIndexError"
  by (auto simp: column_stages_def typed_stages_def Let_def
      split: option.splits sum.splits column_type.splits dest: date_init_class)

lemma one_quality_stage_class:
  "build_one_quality_stage target rule key = Inl e \<Longrightarrow> exn_class e \<noteq> PyIndexError"
  by (auto simp: build_one_quality_stage_def Let_def resolve_validation_rule_def strategy_dispatch_init_def
      dp_error_def split: option.splits sum.splits rule_class.splits pyval.splits if_splits)

lemma build_stages_class:
  assumes "build_stages env cfg target = Inl e"
  shows "exn_class e \<noteq> PyIndexError"
  using assms
  by (auto simp: build_stages_def build_quality_stages_def Let_def split: sum.splits option.splits
      dest!: traverse_Inl dest: column_stages_class one_quality_stage_class)

text \<open>No row, however ragged, makes the loader index past the end of a row: the ragged guard
  and the padding run first, every other stage's column and business-key index lies inside the target,
  and no stage shortens a row, so a load that raises never raises \<open>IndexError\<close>.\<close>

theorem staging_never_index_error:
  "case staging_load env cfg ids target_columns chunks of
     Inl e \<Rightarrow> exn_class e \<noteq> PyIndexError | Inr _ \<Rightarrow> True"
proof (cases "build_stages env cfg target_columns")
  case (Inl e)
  then show ?thesis using build_stages_class by (simp add: staging_load_def)
next
  case (Inr stages)
  obtain rest where stages: "stages = SRagged '','' # SPad (length target_columns) # rest"
    and fit: "list_all (stage_fits (length target_columns)) rest"
    using build_stages_shape [OF Inr] by blast
  have "exn_class e \<noteq> PyIndexError"
    if "run_streaming (stage_apply env) chunks stages = (yielded, Some e)" for yielded e
    using that
  proof (induction chunks arbitrary: yielded)
    case Nil
    then show ?case by simp
  next
    case (Cons c cs)
    then show ?case
      using first_two_stages_safe [OF fit] unfolding stages
      by (auto split: sum.splits prod.splits)
  qed
  then show ?thesis using Inr by (auto simp: staging_load_def split: prod.splits option.splits)
qed

section \<open>Two facts about the numbers and hashes of rows\<close>

text \<open>
  A stage numbers the rows it was given, not the rows of the file: after the ragged guard has
  dropped the first row of a chunk, the boolean normalizer rejects the second row of the file
  under the number the first one already has.
\<close>

lemma rejected_numbers_collide:
  "case staging_load sample_env (sample_config None) sample_ids [''id'', ''active'']
      [\<lparr>rc_rows = [[CStr ''1''], [CStr ''2'', CStr ''maybe'']], rc_first_ordinal = 0, rc_expected_field_count = 2\<rparr>] of
     Inl _ \<Rightarrow> False
   | Inr (table, res) \<Rightarrow>
       map (\<lambda>x. (rj_source_row_number x, rj_error_type x)) (st_rejected_records res) =
         [(0, ''RAGGED_ROW''), (0, ''unmapped-boolean-token'')]"
  by code_simp

text \<open>The text that is hashed does not escape its separator.\<close>

lemma record_hash_text_collides:
  "record_hash_text [CStr ''a|b'', CStr ''c''] = record_hash_text [CStr ''a'', CStr ''b|c'']"
  "record_hash_text [CNone] = record_hash_text [CStr '''']"
  by code_simp+

end
