(* ===== verification/Referential.thy ===== *)
theory Referential
  imports Staging
begin

text \<open>
  The referential-integrity barrier (\<open>validate/referential.py\<close>) over a run's staging table and the
  target table's key column, and the delete that follows it (\<open>pipeline/run.py\<close>,
  \<open>_apply_referential_barrier\<close>).  The cast of a text to \<open>int\<close> is the parameter \<open>to_int\<close>; a text it does
  not accept, a missing column or a missing table fail the statement with a \<open>DatabaseError\<close>.
\<close>

section \<open>The anti-join\<close>

type_synonym tables = "string \<Rightarrow> string \<Rightarrow> int option list option"

text \<open>The text of a staged row's column; \<open>Inl\<close> when the table has no such column.\<close>

definition staged_column :: "string list \<Rightarrow> string \<Rightarrow> staged_row \<Rightarrow> exn + string option" where
  "staged_column columns name s =
     (case index_of name columns of
        None \<Rightarrow> Inl (Exn DatabaseError [])
      | Some i \<Rightarrow> Inr (case sg_fields s ! i of CNone \<Rightarrow> None | c \<Rightarrow> Some (field_text c)))"

text \<open>\<open>s.column::int = t.key\<close> has a match; a NULL matches nothing.\<close>

definition has_parent :: "(string \<Rightarrow> int option) \<Rightarrow> int option list \<Rightarrow> string option \<Rightarrow> exn + bool" where
  "has_parent to_int targets v =
     (case v of
        None \<Rightarrow> Inr False
      | Some s \<Rightarrow> (case to_int s of
          None \<Rightarrow> Inl (Exn DatabaseError [])
        | Some i \<Rightarrow> Inr (Some i \<in> set targets)))"

record referential_config =
  rf_target_table :: string
  rf_column :: string
  rf_rule_id :: string

definition py_str_opt :: "string option \<Rightarrow> string" where
  "py_str_opt v = (case v of None \<Rightarrow> ''None'' | Some s \<Rightarrow> s)"

definition orphan_record :: "referential_config \<Rightarrow> string option \<Rightarrow> string option \<Rightarrow> int \<Rightarrow> rejected_record" where
  "orphan_record cfg customer_id order_id n =
     \<lparr>rj_source_row_number = n, rj_error_type = ''REFERENTIAL_ORPHAN'',
      rj_error_message = Msg ''customer_id {} not found in {}''
        [case customer_id of None \<Rightarrow> VNone | Some s \<Rightarrow> VStr s, VStr (rf_target_table cfg)],
      rj_raw_line = py_str_opt order_id, rj_error_column = Some (rf_column cfg),
      rj_business_key = Some (py_str_opt order_id)\<rparr>"

text \<open>One staged row of the anti-join: nothing, or the orphan it reports.\<close>

definition anti_join_row :: "(string \<Rightarrow> int option) \<Rightarrow> string list \<Rightarrow> referential_config \<Rightarrow> int option list \<Rightarrow>
    staged_row \<Rightarrow> exn + rejected_record option" where
  "anti_join_row to_int columns cfg targets s =
     (case (staged_column columns (rf_column cfg) s, staged_column columns ''customer_id'' s,
            staged_column columns ''order_id'' s) of
        (Inr v, Inr customer_id, Inr order_id) \<Rightarrow>
          (case has_parent to_int targets v of
             Inl e \<Rightarrow> Inl e
           | Inr True \<Rightarrow> Inr None
           | Inr False \<Rightarrow> Inr (Some (orphan_record cfg customer_id order_id (sg_source_row_number s))))
      | _ \<Rightarrow> Inl (Exn DatabaseError []))"

definition referential_apply :: "(string \<Rightarrow> int option) \<Rightarrow> tables \<Rightarrow> string list \<Rightarrow> referential_config \<Rightarrow>
    staged_row list \<Rightarrow> exn + stage_result" where
  "referential_apply to_int tables columns cfg staged =
     (case tables (rf_target_table cfg) (rf_column cfg) of
        None \<Rightarrow> Inl (Exn DatabaseError [])
      | Some targets \<Rightarrow>
          if \<not> {rf_column cfg, ''customer_id'', ''order_id''} \<subseteq> set columns then Inl (Exn DatabaseError [])
          else
          (case traverse (anti_join_row to_int columns cfg targets) staged of
             Inl e \<Rightarrow> Inl e
           | Inr found \<Rightarrow>
               (let rejected = map the (filter (\<lambda>x. x \<noteq> None) found) in
                Inr \<lparr>sr_chunk = placeholder_chunk, sr_rejected = rejected,
                     sr_findings = [\<lparr>vr_rule_id = rf_rule_id cfg,
                       vr_outcome = (if rejected \<noteq> [] then ''QUARANTINE'' else ''PASS''),
                       vr_message = (if rejected \<noteq> []
                          then Msg ''{} orphan row(s) with no matching {} in {}''
                            [VInt (int (length rejected)), VStr (rf_column cfg), VStr (rf_target_table cfg)]
                          else Msg ''no referential orphans found'' []),
                       vr_rule_type = ''REFERENTIAL'', vr_severity = ''ERROR'',
                       vr_evaluated_count = int (length staged), vr_failed_count = int (length rejected),
                       vr_threshold = [],
                       vr_observed = [(''orphan_count'', VInt (int (length rejected)))]\<rparr>]\<rparr>)))"

section \<open>Applying the configured rule\<close>

definition find_quality_rule :: "dataset_config \<Rightarrow> string \<Rightarrow> quality_rule_config option" where
  "find_quality_rule cfg rule_type =
     (case ds_quality cfg of None \<Rightarrow> None
      | Some q \<Rightarrow> find (\<lambda>r. qr_rule_type r = rule_type) (qc_rules q))"

definition py_str :: "pyval \<Rightarrow> string option" where
  "py_str v = (case v of VStr s \<Rightarrow> Some s | _ \<Rightarrow> None)"

text \<open>
  The orphans' rows are deleted from the staging table.  A \<open>target_table\<close> that is not a text names
  no table of the database.
\<close>

definition apply_referential_barrier :: "(string \<Rightarrow> int option) \<Rightarrow> tables \<Rightarrow> string list \<Rightarrow> dataset_config \<Rightarrow>
    staged_row list \<Rightarrow> exn + staged_row list \<times> rejected_record list \<times> validation_result list" where
  "apply_referential_barrier to_int tables columns cfg staged =
     (case find_quality_rule cfg ''REFERENTIAL'' of
        None \<Rightarrow> Inr (staged, [], [])
      | Some rule \<Rightarrow>
          (case qr_column rule of
             None \<Rightarrow> Inl (dp_error ConfigurationError [(''rule_id'', VStr (qr_rule_id rule))])
           | Some column \<Rightarrow>
               (case map_of (qr_params rule) ''target_table'' of
                  None \<Rightarrow> Inl (dp_error ConfigurationError [(''rule_id'', VStr (qr_rule_id rule))])
                | Some VNone \<Rightarrow> Inl (dp_error ConfigurationError [(''rule_id'', VStr (qr_rule_id rule))])
                | Some target \<Rightarrow>
                    (case py_str target of
                       None \<Rightarrow> Inl (Exn DatabaseError [])
                     | Some target_table \<Rightarrow>
                         (case referential_apply to_int tables columns
                             \<lparr>rf_target_table = target_table, rf_column = column, rf_rule_id = qr_rule_id rule\<rparr> staged of
                            Inl e \<Rightarrow> Inl e
                          | Inr r \<Rightarrow>
                              Inr (filter (\<lambda>s. sg_source_row_number s \<notin> rj_source_row_number ` set (sr_rejected r)) staged,
                                   sr_rejected r, sr_findings r))))))"

section \<open>What the barrier does\<close>

lemma staged_column_Inr: "name \<in> set columns \<Longrightarrow> \<exists>v. staged_column columns name s = Inr v"
  by (auto simp: staged_column_def dest: index_of_mem)

definition is_orphan :: "(string \<Rightarrow> int option) \<Rightarrow> string list \<Rightarrow> string \<Rightarrow> int option list \<Rightarrow> staged_row \<Rightarrow> bool" where
  "is_orphan to_int columns column targets s \<longleftrightarrow>
     (case staged_column columns column s of
        Inl _ \<Rightarrow> False
      | Inr None \<Rightarrow> True
      | Inr (Some t) \<Rightarrow> (case to_int t of None \<Rightarrow> False | Some i \<Rightarrow> Some i \<notin> set targets))"

lemma anti_join_row_spec:
  assumes "anti_join_row to_int columns cfg targets s = Inr out"
  shows "(out \<noteq> None \<longleftrightarrow> is_orphan to_int columns (rf_column cfg) targets s) \<and>
    (\<forall>x. out = Some x \<longrightarrow> rj_source_row_number x = sg_source_row_number s \<and> rj_error_type x = ''REFERENTIAL_ORPHAN'')"
proof -
  obtain v where v: "staged_column columns (rf_column cfg) s = Inr v"
    using assms by (cases "staged_column columns (rf_column cfg) s") (simp_all add: anti_join_row_def)
  obtain c where c: "staged_column columns ''customer_id'' s = Inr c"
    using assms v by (cases "staged_column columns ''customer_id'' s") (simp_all add: anti_join_row_def)
  obtain k where k: "staged_column columns ''order_id'' s = Inr k"
    using assms v c by (cases "staged_column columns ''order_id'' s") (simp_all add: anti_join_row_def)
  show ?thesis using assms
    by (cases v)
      (auto simp: anti_join_row_def v c k has_parent_def is_orphan_def orphan_record_def
        split: option.splits sum.splits bool.splits)
qed

lemma anti_join_orphans:
  "traverse (anti_join_row to_int columns cfg targets) staged = Inr found \<Longrightarrow>
   map rj_source_row_number (map the (filter (\<lambda>x. x \<noteq> None) found)) =
     map sg_source_row_number (filter (is_orphan to_int columns (rf_column cfg) targets) staged)"
proof (induction staged arbitrary: found)
  case (Cons s staged)
  obtain out found' where o: "anti_join_row to_int columns cfg targets s = Inr out"
      "traverse (anti_join_row to_int columns cfg targets) staged = Inr found'" "found = out # found'"
    using Cons.prems by (auto split: sum.splits)
  show ?case using Cons.IH [OF o(2)] anti_join_row_spec [OF o(1)] o(3) by (cases out) simp_all
qed simp

text \<open>C34: The referential barrier removes the orphans and nothing else.  With staged rows numbered
  apart, a barrier that returns has deleted from the staging table exactly the rows whose reference is
  absent from the target or NULL, reports each of them once, in order, under its row number, and its
  finding counts them against all the staged rows.\<close>

theorem referential_removes_orphans:
  assumes "find_quality_rule cfg ''REFERENTIAL'' = Some rule" and "qr_column rule = Some column"
    and "map_of (qr_params rule) ''target_table'' = Some (VStr target)" and "tables target column = Some targets"
    and "apply_referential_barrier to_int tables columns cfg staged = Inr (kept, rejected, findings)"
    and "distinct (map sg_source_row_number staged)"
  shows "kept = filter (\<lambda>s. \<not> is_orphan to_int columns column targets s) staged \<and>
    map rj_source_row_number rejected = map sg_source_row_number (filter (is_orphan to_int columns column targets) staged) \<and>
    length kept + length rejected = length staged \<and>
    (\<exists>f. findings = [f] \<and> vr_evaluated_count f = int (length staged) \<and> vr_failed_count f = int (length rejected) \<and>
       (vr_outcome f = ''PASS'' \<longleftrightarrow> rejected = []))"
proof -
  let ?cfg = "\<lparr>rf_target_table = target, rf_column = column, rf_rule_id = qr_rule_id rule\<rparr>"
  let ?o = "is_orphan to_int columns column targets"
  obtain r where r: "referential_apply to_int tables columns ?cfg staged = Inr r"
    using assms(1-5) by (cases "referential_apply to_int tables columns ?cfg staged")
      (simp_all add: apply_referential_barrier_def py_str_def)
  have out: "kept = filter (\<lambda>s. sg_source_row_number s \<notin> rj_source_row_number ` set (sr_rejected r)) staged"
    "rejected = sr_rejected r" "findings = sr_findings r"
    using assms(1-5) r by (auto simp: apply_referential_barrier_def py_str_def)
  obtain found where found: "traverse (anti_join_row to_int columns ?cfg targets) staged = Inr found"
    using r assms(4) by (cases "traverse (anti_join_row to_int columns ?cfg targets) staged")
      (simp_all add: referential_apply_def split: if_splits)
  have rej: "sr_rejected r = map the (filter (\<lambda>x. x \<noteq> None) found)"
    using r assms(4) found by (auto simp: referential_apply_def Let_def split: if_splits)
  have nums: "map rj_source_row_number rejected = map sg_source_row_number (filter ?o staged)"
    using anti_join_orphans [OF found] by (simp only: out(2) rej referential_config.simps)
  have mem: "sg_source_row_number s \<in> rj_source_row_number ` set rejected \<longleftrightarrow> ?o s" if "s \<in> set staged" for s
  proof -
    have "rj_source_row_number ` set rejected = sg_source_row_number ` set (filter ?o staged)"
      using arg_cong [OF nums, of set] by simp
    moreover have "inj_on sg_source_row_number (set staged)" using assms(6) by (simp add: distinct_map)
    ultimately show ?thesis using that by (auto dest: inj_onD)
  qed
  have kept: "kept = filter (\<lambda>s. \<not> ?o s) staged"
    unfolding out(1) by (rule filter_cong) (use mem out(2) in auto)
  have len: "length rejected = length (filter ?o staged)" using arg_cong [OF nums, of length] by simp
  have "length kept + length rejected = length staged"
    unfolding kept len using sum_length_filter_compl [of ?o staged] by simp
  moreover have "\<exists>f. findings = [f] \<and> vr_evaluated_count f = int (length staged) \<and>
      vr_failed_count f = int (length rejected) \<and> (vr_outcome f = ''PASS'' \<longleftrightarrow> rejected = [])"
    using r assms(4) found out(2,3) by (auto simp: referential_apply_def Let_def split: if_splits)
  ultimately show ?thesis using kept nums by blast
qed

definition sample_staged :: "cell \<Rightarrow> cell \<Rightarrow> int \<Rightarrow> staged_row" where
  "sample_staged order_id customer_id n = \<lparr>sg_fields = [order_id, customer_id, CNone, CNone], sg_run_id = 1,
     sg_file_id = 1, sg_batch_id = Some 1, sg_source_row_number = n, sg_record_hash = '''', sg_record_hash_version = 1\<rparr>"

definition sample_order_columns :: "string list" where
  "sample_order_columns = [''order_id'', ''customer_id'', ''order_date'', ''amount'']"

definition sample_rule :: quality_rule_config where
  "sample_rule = \<lparr>qr_rule_id = ''fk'', qr_rule_type = ''REFERENTIAL'', qr_strategy = ''QUARANTINE_RECORD'',
     qr_column = Some ''customer_id'', qr_params = [(''target_table'', VStr ''normalized.customers'')]\<rparr>"

theorem referential_removes_orphans_witness:
  "\<exists>kept rejected findings. apply_referential_barrier py_int (\<lambda>_ _. Some [Some 7]) sample_order_columns
      (sample_config (Some \<lparr>qc_rules = [sample_rule], qc_rejection_rate_threshold = None\<rparr>))
      [sample_staged (CStr ''1'') (CStr ''7'') 1, sample_staged (CStr ''2'') (CStr ''8'') 2,
       sample_staged (CStr ''3'') CNone 3] = Inr (kept, rejected, findings) \<and>
    map rj_source_row_number rejected = [2, 3] \<and> length kept = 1"
proof -
  let ?cfg = "sample_config (Some \<lparr>qc_rules = [sample_rule], qc_rejection_rate_threshold = None\<rparr>)"
  let ?staged = "[sample_staged (CStr ''1'') (CStr ''7'') 1, sample_staged (CStr ''2'') (CStr ''8'') 2,
       sample_staged (CStr ''3'') CNone 3]"
  have "case apply_referential_barrier py_int (\<lambda>_ _. Some [Some 7]) sample_order_columns ?cfg ?staged of
      Inl _ \<Rightarrow> False | Inr _ \<Rightarrow> True" by code_simp
  then obtain kept rejected findings where
    run: "apply_referential_barrier py_int (\<lambda>_ _. Some [Some 7]) sample_order_columns ?cfg ?staged = Inr (kept, rejected, findings)"
    by (auto split: sum.splits prod.splits)
  have "find_quality_rule ?cfg ''REFERENTIAL'' = Some sample_rule"
    by (simp add: find_quality_rule_def sample_config_def sample_rule_def)
  note spec = referential_removes_orphans [OF this _ _ _ run, of "''customer_id''" "''normalized.customers''" "[Some 7]"]
  have d: "distinct (map sg_source_row_number ?staged)" by (simp add: sample_staged_def)
  have "map rj_source_row_number rejected =
      map sg_source_row_number (filter (is_orphan py_int sample_order_columns ''customer_id'' [Some 7]) ?staged)"
    "length kept + length rejected = length ?staged"
    by (rule spec [OF _ _ _ d, THEN conjunct2, THEN conjunct1]
        spec [OF _ _ _ d, THEN conjunct2, THEN conjunct2, THEN conjunct1]; simp add: sample_rule_def)+
  moreover have "map sg_source_row_number (filter (is_orphan py_int sample_order_columns ''customer_id'' [Some 7]) ?staged) = [2, 3]"
    by code_simp
  ultimately have nums: "map rj_source_row_number rejected = [2, 3]"
    and lens: "length kept + length rejected = 3" by simp_all
  have "length rejected = 2" using arg_cong [OF nums, of length] by simp
  then have "map rj_source_row_number rejected = [2, 3] \<and> length kept = 1" using nums lens by simp
  note final = conjI [OF run this]
  show ?thesis
    by (rule exI [where x = kept], rule exI [where x = rejected], rule exI [where x = findings], rule final)
qed

end
