(* ===== verification/Transaction.thy ===== *)
theory Transaction
  imports Records
begin

text \<open>
  A database transaction as the pipeline uses it: a program over two views of one state, what is
  committed and what the open transaction sees (\<open>READ COMMITTED\<close>).  A statement of the transaction
  changes its own view; a call that opens its own connection commits at once and is seen by both; an
  exception leaves the \<open>with\<close> block and rolls the transaction's view back, a normal exit commits it.
\<close>

type_synonym ('s, 'a) tx = "'s \<times> 's \<Rightarrow> (exn + 'a) \<times> ('s \<times> 's)"

definition tx_return :: "'a \<Rightarrow> ('s, 'a) tx" where
  "tx_return x = (\<lambda>s. (Inr x, s))"

definition tx_raise :: "exn \<Rightarrow> ('s, 'a) tx" where
  "tx_raise e = (\<lambda>s. (Inl e, s))"

definition tx_bind :: "('s, 'a) tx \<Rightarrow> ('a \<Rightarrow> ('s, 'b) tx) \<Rightarrow> ('s, 'b) tx" where
  "tx_bind m f = (\<lambda>s. case m s of (Inl e, s') \<Rightarrow> (Inl e, s') | (Inr x, s') \<Rightarrow> f x s')"

text \<open>A value computed without the database.\<close>

definition tx_lift :: "exn + 'a \<Rightarrow> ('s, 'a) tx" where
  "tx_lift r = (\<lambda>s. (r, s))"

text \<open>A query of the transaction, and one on a connection of its own.\<close>

definition tx_query :: "('s \<Rightarrow> exn + 'a) \<Rightarrow> ('s, 'a) tx" where
  "tx_query q = (\<lambda>(c, w). (q w, (c, w)))"

definition tx_query_committed :: "('s \<Rightarrow> exn + 'a) \<Rightarrow> ('s, 'a) tx" where
  "tx_query_committed q = (\<lambda>(c, w). (q c, (c, w)))"

text \<open>A statement of the transaction.\<close>

definition tx_exec :: "('s \<Rightarrow> exn + 's \<times> 'a) \<Rightarrow> ('s, 'a) tx" where
  "tx_exec f = (\<lambda>(c, w). case f w of Inl e \<Rightarrow> (Inl e, (c, w)) | Inr (w', x) \<Rightarrow> (Inr x, (c, w')))"

text \<open>A call on a connection of its own.\<close>

definition tx_own :: "('s \<Rightarrow> 's \<times> 'a) \<Rightarrow> ('s, 'a) tx" where
  "tx_own f = (\<lambda>(c, w). (Inr (snd (f c)), (fst (f c), fst (f w))))"

definition tx_run :: "('s, 'a) tx \<Rightarrow> 's \<Rightarrow> (exn + 'a) \<times> 's" where
  "tx_run m s = (case m (s, s) of (Inl e, (c, w)) \<Rightarrow> (Inl e, c) | (Inr x, (c, w)) \<Rightarrow> (Inr x, w))"

text \<open>What is committed when the process dies just before the commit.\<close>

definition tx_crash :: "('s, 'a) tx \<Rightarrow> 's \<Rightarrow> 's" where
  "tx_crash m s = (case m (s, s) of (r, (c, w)) \<Rightarrow> c)"

named_theorems tx_defs "the combinators of a transaction"

declare tx_return_def [tx_defs] tx_raise_def [tx_defs] tx_bind_def [tx_defs] tx_lift_def [tx_defs]
  tx_query_def [tx_defs] tx_query_committed_def [tx_defs] tx_exec_def [tx_defs] tx_own_def [tx_defs]

lemma tx_run_cases:
  obtains (aborted) e c w where "m (s, s) = (Inl e, (c, w))" and "tx_run m s = (Inl e, c)"
  | (committed) x c w where "m (s, s) = (Inr x, (c, w))" and "tx_run m s = (Inr x, w)"
proof -
  obtain r c w where "m (s, s) = (r, (c, w))" by (cases "m (s, s)") auto
  then show thesis using aborted committed by (cases r) (simp_all add: tx_run_def)
qed

text \<open>
  A relation between the committed state before and after that every own-connection call keeps is kept
  by the whole transaction: this is all a failed one can have done.
\<close>

definition tx_keeps :: "('s \<Rightarrow> 's \<Rightarrow> bool) \<Rightarrow> ('s, 'a) tx \<Rightarrow> bool" where
  "tx_keeps R m \<longleftrightarrow> (\<forall>c w r c' w'. m (c, w) = (r, (c', w')) \<longrightarrow> R c c')"

lemma tx_keeps_pure [intro]:
  assumes "\<And>c. R c c"
  shows "tx_keeps R (tx_return x)" and "tx_keeps R (tx_raise e)" and "tx_keeps R (tx_lift y)"
    and "tx_keeps R (tx_query q)" and "tx_keeps R (tx_query_committed p)" and "tx_keeps R (tx_exec f)"
  using assms by (auto simp: tx_keeps_def tx_defs split: sum.splits prod.splits)

lemma tx_keeps_own [intro]: "(\<And>c. R c (fst (f c))) \<Longrightarrow> tx_keeps R (tx_own f)"
  by (auto simp: tx_keeps_def tx_own_def)

lemma tx_keeps_bind [intro]:
  assumes "\<And>a b c. R a b \<Longrightarrow> R b c \<Longrightarrow> R a c" and "tx_keeps R m" and "\<And>x. tx_keeps R (f x)"
  shows "tx_keeps R (tx_bind m f)"
  unfolding tx_keeps_def
proof (intro allI impI)
  fix c w r c' w'
  assume run: "tx_bind m f (c, w) = (r, (c', w'))"
  obtain r1 c1 w1 where m: "m (c, w) = (r1, (c1, w1))" by (cases "m (c, w)") auto
  note first = assms(2) [unfolded tx_keeps_def, rule_format, OF m]
  show "R c c'"
  proof (cases r1)
    case (Inl e)
    then show ?thesis using run m first by (simp add: tx_bind_def)
  next
    case (Inr x)
    then have "f x (c1, w1) = (r, (c', w'))" using run m by (simp add: tx_bind_def)
    from assms(3) [unfolded tx_keeps_def, rule_format, OF this] have "R c1 c'" .
    with first show ?thesis by (rule assms(1))
  qed
qed

lemma tx_keeps_run:
  assumes "tx_keeps R m"
  shows "fst (tx_run m s) = Inl e \<Longrightarrow> R s (snd (tx_run m s))" and "R s (tx_crash m s)"
  using assms by (cases "m (s, s)"; fastforce simp: tx_keeps_def tx_run_def tx_crash_def split: sum.splits prod.splits)+

end
