(* ===== verification/Scd.thy ===== *)
theory Scd
  imports Records "HOL-Library.Product_Lexorder"
begin

text \<open>
  Slowly changing dimensions (\<open>scd/hashing.py\<close>, \<open>scd/recompute.py\<close> and the pure part of
  \<open>load/publish/scd.py\<close>): the version chain of one customer, recomputed from its whole bronze
  history, and the bronze row each version takes its lineage from.  SHA-256 is the parameter
  \<open>sha256\<close>; instants are integers.
\<close>

section \<open>tracked_attribute_hash\<close>

definition tracked_attribute_hash :: "(string \<Rightarrow> string) \<Rightarrow> string option list \<Rightarrow> string" where
  "tracked_attribute_hash sha256 values' =
     sha256 (join ''|'' (map (\<lambda>v. case v of None \<Rightarrow> '''' | Some s \<Rightarrow> s) values'))"

text \<open>
  The hash separates what it is meant to separate when no value contains the separator: then
  equal hashes mean equal values, up to absent and empty ones.
\<close>

lemma tracked_attribute_hash_faithful:
  assumes "inj sha256" and "length xs = length ys"
    and "\<forall>v \<in> set xs \<union> set ys. case v of None \<Rightarrow> True | Some s \<Rightarrow> CHR ''|'' \<notin> set s"
    and "tracked_attribute_hash sha256 xs = tracked_attribute_hash sha256 ys"
  shows "map (case_option '''' id) xs = map (case_option '''' id) ys"
proof -
  have txt_eq: "(\<lambda>v. case v of None \<Rightarrow> '''' | Some s \<Rightarrow> s) = case_option '''' id"
    by (rule ext) (auto split: option.splits)
  have eq: "join ''|'' (map (case_option '''' id) xs) = join ''|'' (map (case_option '''' id) ys)"
    using assms(1,4) by (simp add: tracked_attribute_hash_def txt_eq inj_eq)
  have "CHR ''|'' \<notin> set (case_option '''' id v)" if "v \<in> set xs \<union> set ys" for v
    using assms(3) [rule_format, OF that] by (cases v) auto
  then have "\<forall>x \<in> set (map (case_option '''' id) xs). CHR ''|'' \<notin> set x"
    "\<forall>x \<in> set (map (case_option '''' id) ys). CHR ''|'' \<notin> set x" by auto
  then show ?thesis by (rule join_injective [rotated, OF _ _ eq]) (simp add: assms(2))
qed

section \<open>Bronze records and versions\<close>

record bronze_record =
  bz_customer_id :: int
  bz_name :: "string option"
  bz_country :: "string option"
  bz_birth_date :: "string option"
  bz_signup_country :: "string option"
  bz_event_ts :: int
  bz_source_row_number :: int
  bz_file_id :: int

record lineage_row = bronze_record +
  lr_run_id :: int
  lr_batch_id :: int
  lr_record_hash :: string
  lr_record_hash_version :: int

record version_row =
  vw_customer_id :: int
  vw_name :: "string option"
  vw_country :: "string option"
  vw_birth_date :: "string option"
  vw_signup_country :: "string option"
  vw_valid_from :: int
  vw_valid_to :: int
  vw_is_current :: bool

definition order_key :: "'a bronze_record_scheme \<Rightarrow> int \<times> int \<times> int" where
  "order_key r = (bz_event_ts r, bz_file_id r, bz_source_row_number r)"

definition ordered_history :: "'a bronze_record_scheme list \<Rightarrow> 'a bronze_record_scheme list" where
  "ordered_history history = sort_key order_key history"

text \<open>\<open>max(xs, key=...)\<close> and \<open>min(xs, key=...)\<close> return the first extremal element.\<close>

fun max_by :: "('a \<Rightarrow> 'k :: linorder) \<Rightarrow> 'a \<Rightarrow> 'a list \<Rightarrow> 'a" where
  "max_by key best [] = best"
| "max_by key best (x # xs) = max_by key (if key best < key x then x else best) xs"

fun min_by :: "('a \<Rightarrow> 'k :: linorder) \<Rightarrow> 'a \<Rightarrow> 'a list \<Rightarrow> 'a" where
  "min_by key best [] = best"
| "min_by key best (x # xs) = min_by key (if key x < key best then x else best) xs"

definition row_hash :: "(string \<Rightarrow> string) \<Rightarrow> 'a bronze_record_scheme \<Rightarrow> string" where
  "row_hash sha256 r = tracked_attribute_hash sha256 [bz_name r, bz_country r]"

definition group_start_indices :: "string list \<Rightarrow> nat list" where
  "group_start_indices hashes =
     0 # filter (\<lambda>i. hashes ! i \<noteq> hashes ! (i - 1)) [1..<length hashes]"

definition version_at :: "int \<Rightarrow> bronze_record list \<Rightarrow> nat list \<Rightarrow> nat \<Rightarrow> version_row" where
  "version_at sentinel ordered starts p =
     (let first_row = ordered ! (starts ! p);
          is_last_group = (p = length starts - 1)
      in \<lparr>vw_customer_id = bz_customer_id first_row, vw_name = bz_name first_row,
          vw_country = bz_country first_row,
          vw_birth_date = bz_birth_date (max_by order_key (hd ordered) (tl ordered)),
          vw_signup_country = bz_signup_country (min_by order_key (hd ordered) (tl ordered)),
          vw_valid_from = bz_event_ts first_row,
          vw_valid_to = (if is_last_group then sentinel else bz_event_ts (ordered ! (starts ! (p + 1)))),
          vw_is_current = is_last_group\<rparr>)"

text \<open>An empty history makes \<open>max\<close> raise \<open>ValueError\<close>.\<close>

definition recompute_version_chain :: "(string \<Rightarrow> string) \<Rightarrow> int \<Rightarrow> bronze_record list \<Rightarrow>
    exn + version_row list" where
  "recompute_version_chain sha256 sentinel history =
     (let ordered = ordered_history history in
      if ordered = [] then Inl (Exn PyValueError [])
      else
        (let starts = group_start_indices (map (row_hash sha256) ordered) in
         Inr (map (version_at sentinel ordered starts) [0..<length starts])))"

text \<open>\<open>_select_lineage_rows\<close>: the last bronze row of each group.\<close>

definition select_lineage_rows :: "(string \<Rightarrow> string) \<Rightarrow> lineage_row list \<Rightarrow> lineage_row list" where
  "select_lineage_rows sha256 history =
     (let ordered = ordered_history history;
          starts = group_start_indices (map (row_hash sha256) ordered);
          ends = tl starts @ [length ordered]
      in map (\<lambda>e. ordered ! (e - 1)) ends)"

section \<open>Groups of equal hashes\<close>

lemma sorted_starts: "sorted_wrt (<) (group_start_indices hs)"
  by (auto simp: group_start_indices_def sorted_wrt_filter)

lemma starts_hd: "group_start_indices hs ! 0 = 0" and starts_ne [simp]: "group_start_indices hs \<noteq> []"
  by (simp_all add: group_start_indices_def)

lemma starts_mem: "i \<in> set (group_start_indices hs) \<longleftrightarrow>
    i = 0 \<or> (0 < i \<and> i < length hs \<and> hs ! i \<noteq> hs ! (i - 1))"
  by (auto simp: group_start_indices_def)

lemma starts_less:
  assumes "hs \<noteq> []" and "p < length (group_start_indices hs)"
  shows "group_start_indices hs ! p < length hs"
  using nth_mem [OF assms(2)] assms(1) by (auto simp: starts_mem)

lemma starts_mono:
  "p < q \<Longrightarrow> q < length (group_start_indices hs) \<Longrightarrow>
     group_start_indices hs ! p < group_start_indices hs ! q"
  using sorted_starts by (rule sorted_wrt_nth_less)

text \<open>Inside a group nothing changes.\<close>

lemma group_constant:
  assumes "j < length hs" and "i \<le> j" and "\<forall>k. i < k \<and> k \<le> j \<longrightarrow> k \<notin> set (group_start_indices hs)"
  shows "hs ! j = hs ! i"
  using assms
proof (induction j)
  case 0
  then show ?case by simp
next
  case (Suc j)
  show ?case
  proof (cases "i = Suc j")
    case False
    then have "Suc j \<notin> set (group_start_indices hs)" using Suc.prems by simp
    then have "hs ! Suc j = hs ! j" using Suc.prems(1) by (auto simp: starts_mem)
    with False Suc show ?thesis by simp
  qed simp
qed

text \<open>Every position lies in the group of the last start at or before it.\<close>

definition group_of :: "string list \<Rightarrow> nat \<Rightarrow> nat" where
  "group_of hs k = length (filter (\<lambda>i. i \<le> k) (group_start_indices hs)) - 1"

lemma group_of_spec:
  assumes "k < length hs"
  shows "group_of hs k < length (group_start_indices hs)"
    and "group_start_indices hs ! group_of hs k \<le> k"
    and "\<And>q. group_of hs k < q \<Longrightarrow> q < length (group_start_indices hs) \<Longrightarrow> k < group_start_indices hs ! q"
    and "hs ! (group_start_indices hs ! group_of hs k) = hs ! k"
proof -
  let ?s = "group_start_indices hs"
  define m where "m = length (filter (\<lambda>i. i \<le> k) ?s)"
  have sorted: "sorted ?s" using sorted_starts strict_sorted_imp_sorted by blast
  have pre: "filter (\<lambda>i. i \<le> k) ?s = take m ?s"
  proof -
    have "filter (\<lambda>i. i \<le> k) xs = take (length (filter (\<lambda>i. i \<le> k) xs)) xs" if "sorted xs" for xs
      using that
    proof (induction xs)
      case (Cons x xs)
      show ?case
      proof (cases "x \<le> k")
        case False
        then have "filter (\<lambda>i. i \<le> k) (x # xs) = []" using Cons.prems by (auto simp: filter_empty_conv)
        then show ?thesis by simp
      qed (use Cons in simp)
    qed simp
    then show ?thesis using sorted by (simp add: m_def)
  qed
  have "0 \<in> set (filter (\<lambda>i. i \<le> k) ?s)" by (simp add: group_start_indices_def)
  then have m: "0 < m" unfolding m_def by (metis length_pos_if_in_set)
  have mle: "m \<le> length ?s" by (simp add: m_def)
  have go: "group_of hs k = m - 1" by (simp add: group_of_def m_def)
  show lt: "group_of hs k < length ?s" using m mle go by simp
  have "?s ! (m - 1) \<in> set (take m ?s)" using m mle by (auto simp: in_set_conv_nth intro!: exI [of _ "m - 1"])
  then show le: "?s ! group_of hs k \<le> k" unfolding go pre [symmetric] by simp
  show gt: "k < ?s ! q" if "group_of hs k < q" "q < length ?s" for q
  proof (rule ccontr)
    assume "\<not> k < ?s ! q"
    then have "?s ! q \<in> set (take m ?s)" using that by (simp flip: pre)
    then obtain p where "p < m" "p < length ?s" "?s ! p = ?s ! q" by (auto simp: in_set_conv_nth)
    moreover have "p < q" using that go \<open>p < m\<close> by simp
    ultimately show False using starts_mono [of p q hs] that by simp
  qed
  have "hs ! k = hs ! (?s ! group_of hs k)"
  proof (rule group_constant [OF assms le], intro allI impI notI)
    fix i assume i: "?s ! group_of hs k < i \<and> i \<le> k" "i \<in> set ?s"
    then obtain q where q: "q < length ?s" "?s ! q = i" by (auto simp: in_set_conv_nth)
    show False
    proof (cases "group_of hs k < q")
      case True
      then show False using gt [OF True q(1)] q i by simp
    next
      case False
      then have "?s ! q \<le> ?s ! group_of hs k"
        using starts_mono [of q "group_of hs k" hs] lt by (cases "q = group_of hs k") auto
      then show False using q i by simp
    qed
  qed
  then show "hs ! (?s ! group_of hs k) = hs ! k" by simp
qed

section \<open>The version chain\<close>

lemma ordered_history_length [simp]: "length (ordered_history h) = length h"
  by (simp add: ordered_history_def)

lemma ordered_history_set [simp]: "set (ordered_history h) = set h"
  by (simp add: ordered_history_def)

lemma ordered_history_Nil [simp]: "ordered_history h = [] \<longleftrightarrow> h = []"
  using ordered_history_length [of h] by (metis length_0_conv)

lemma ordered_event_ts:
  assumes "i \<le> j" and "j < length h"
  shows "bz_event_ts (ordered_history h ! i) \<le> bz_event_ts (ordered_history h ! j)"
proof -
  have "sorted (map order_key (ordered_history h))" by (simp add: ordered_history_def)
  then have "order_key (ordered_history h ! i) \<le> order_key (ordered_history h ! j)"
    using assms sorted_nth_mono [of "map order_key (ordered_history h)" i j] by simp
  then show ?thesis by (auto simp: order_key_def less_eq_prod_def less_prod_def)
qed

text \<open>The record of the history that was in force at \<open>t\<close>: the last one at or before it.\<close>

definition as_of :: "bronze_record list \<Rightarrow> int \<Rightarrow> bronze_record" where
  "as_of history t = last (filter (\<lambda>r. bz_event_ts r \<le> t) (ordered_history history))"

lemma as_of_index:
  assumes "\<exists>r \<in> set h. bz_event_ts r \<le> t"
  shows "\<exists>k < length h. as_of h t = ordered_history h ! k \<and> bz_event_ts (ordered_history h ! k) \<le> t \<and>
    (\<forall>j. k < j \<longrightarrow> j < length h \<longrightarrow> t < bz_event_ts (ordered_history h ! j))"
proof -
  let ?o = "ordered_history h"
  have pre: "filter (\<lambda>r. bz_event_ts r \<le> t) xs = takeWhile (\<lambda>r. bz_event_ts r \<le> t) xs"
    if "\<forall>i j. i \<le> j \<longrightarrow> j < length xs \<longrightarrow> bz_event_ts (xs ! i) \<le> bz_event_ts (xs ! j)"
    for xs :: "bronze_record list"
    using that
  proof (induction xs)
    case (Cons x xs)
    have mono: "\<forall>i j. i \<le> j \<longrightarrow> j < length xs \<longrightarrow> bz_event_ts (xs ! i) \<le> bz_event_ts (xs ! j)"
      using Cons.prems by (metis Suc_le_mono Suc_less_eq length_Cons nth_Cons_Suc)
    have "bz_event_ts x \<le> bz_event_ts y" if "y \<in> set xs" for y
    proof -
      from that obtain j where "j < length xs" "xs ! j = y" unfolding in_set_conv_nth by blast
      then show ?thesis using Cons.prems [rule_format, of 0 "Suc j"] by simp
    qed
    then have "\<not> bz_event_ts x \<le> t \<Longrightarrow> filter (\<lambda>r. bz_event_ts r \<le> t) xs = []"
      by (force simp: filter_empty_conv)
    then show ?case using Cons.IH [OF mono] by auto
  qed simp
  define w where "w = takeWhile (\<lambda>r. bz_event_ts r \<le> t) ?o"
  have w: "filter (\<lambda>r. bz_event_ts r \<le> t) ?o = w" "w = take (length w) ?o"
  proof -
    have "\<forall>i j. i \<le> j \<longrightarrow> j < length ?o \<longrightarrow> bz_event_ts (?o ! i) \<le> bz_event_ts (?o ! j)"
      by (simp add: ordered_event_ts)
    from pre [OF this] show "filter (\<lambda>r. bz_event_ts r \<le> t) ?o = w" by (simp add: w_def)
    show "w = take (length w) ?o" unfolding w_def by (rule takeWhile_eq_take)
  qed
  have "filter (\<lambda>r. bz_event_ts r \<le> t) ?o \<noteq> []" using assms by (auto simp: filter_empty_conv)
  then have ne: "w \<noteq> []" using w by simp
  have len: "length w \<le> length h" using length_takeWhile_le [of _ ?o] by (simp add: w_def)
  have last: "last w = ?o ! (length w - 1)"
  proof -
    have "last w = w ! (length w - 1)" using ne by (rule last_conv_nth)
    also have "\<dots> = take (length w) ?o ! (length w - 1)" using w(2) by (rule arg_cong)
    also have "\<dots> = ?o ! (length w - 1)" by (rule nth_take) (use ne in simp)
    finally show ?thesis .
  qed
  then have "as_of h t = ?o ! (length w - 1)" using w(1) by (simp add: as_of_def)
  moreover have "bz_event_ts (?o ! (length w - 1)) \<le> t"
    using last_in_set [OF ne] set_takeWhileD [of "last w" "\<lambda>r. bz_event_ts r \<le> t" ?o]
    unfolding w_def [symmetric] last by simp
  moreover have "t < bz_event_ts (?o ! j)" if "length w - 1 < j" "j < length h" for j
  proof -
    have "length w < length ?o" and "length w \<le> j" using that ne by auto
    then have "\<not> bz_event_ts (?o ! length w) \<le> t"
      using nth_length_takeWhile [of "\<lambda>r. bz_event_ts r \<le> t" ?o] by (simp add: w_def)
    then show ?thesis using ordered_event_ts [of "length w" j h] that \<open>length w \<le> j\<close> by simp
  qed
  moreover have "length w - 1 < length h" using ne len by (cases w) auto
  ultimately show ?thesis by blast
qed

text \<open>The interval of each version: from its first row to the first row of the next.\<close>

definition covers :: "version_row \<Rightarrow> int \<Rightarrow> bool" where
  "covers v t \<longleftrightarrow> vw_valid_from v \<le> t \<and> t < vw_valid_to v"

lemma chain_covers:
  fixes h :: "bronze_record list"
  assumes "h \<noteq> []" and "k < length h" and "t < sentinel"
    and "bz_event_ts (ordered_history h ! k) \<le> t"
    and "\<And>j. k < j \<Longrightarrow> j < length h \<Longrightarrow> t < bz_event_ts (ordered_history h ! j)"
    and "hs = map (row_hash sha256) (ordered_history h)" and "p < length (group_start_indices hs)"
  shows "covers (version_at sentinel (ordered_history h) (group_start_indices hs) p) t \<longleftrightarrow>
    p = group_of hs k"
proof -
  let ?s = "group_start_indices hs" and ?o = "ordered_history h"
  have len: "length hs = length h" using assms(6) by simp
  have k: "k < length hs" using assms(2) len by simp
  note g = group_of_spec [where hs = hs, OF k]
  have ne: "hs \<noteq> []" using assms(1,6) by simp
  have ts: "bz_event_ts (?o ! i) \<le> t \<longleftrightarrow> i \<le> k" if "i < length h" for i
    using ordered_event_ts [of i k h] assms(2,4) assms(5) [of i] that by (cases "i \<le> k") auto
  have from_le: "bz_event_ts (?o ! (?s ! q)) \<le> t \<longleftrightarrow> q \<le> group_of hs k" if "q < length ?s" for q
  proof -
    have "?s ! q \<le> k \<longleftrightarrow> q \<le> group_of hs k"
    proof (cases "q \<le> group_of hs k")
      case True
      then show ?thesis
        using g(1,2) starts_mono [of q "group_of hs k" hs] by (cases "q = group_of hs k") auto
    next
      case False
      then show ?thesis using g(3) [of q] that by auto
    qed
    moreover have "?s ! q < length h" using starts_less [OF ne that] len by simp
    ultimately show ?thesis using ts by simp
  qed
  have "t < vw_valid_to (version_at sentinel ?o ?s p) \<longleftrightarrow> group_of hs k < p + 1"
  proof (cases "p = length ?s - 1")
    case True
    then show ?thesis using assms(3) g(1) by (simp add: version_at_def Let_def)
  next
    case False
    then have "p + 1 < length ?s" using assms(7) by simp
    then show ?thesis using False from_le [of "p + 1"] by (simp add: version_at_def Let_def) linarith
  qed
  moreover have "vw_valid_from (version_at sentinel ?o ?s p) \<le> t \<longleftrightarrow> p \<le> group_of hs k"
    using from_le [OF assms(7)] by (simp add: version_at_def Let_def)
  ultimately show ?thesis by (auto simp: covers_def)
qed

lemma recompute_Inr:
  assumes "h \<noteq> []"
  shows "recompute_version_chain sha256 sentinel h = Inr (map
    (version_at sentinel (ordered_history h) (group_start_indices (map (row_hash sha256) (ordered_history h))))
    [0..<length (group_start_indices (map (row_hash sha256) (ordered_history h)))])"
  using assms by (simp add: recompute_version_chain_def Let_def)

text \<open>C4: The recomputed chain answers every as-of question as the bronze history does: at any
  instant from the first event on (and before the sentinel), exactly one version is in force, and its
  tracked attributes hash like those of the latest bronze record at or before that instant, however
  late or out of order the records arrived.\<close>

theorem version_chain_as_of:
  assumes "recompute_version_chain sha256 sentinel h = Inr versions"
    and "\<exists>r \<in> set h. bz_event_ts r \<le> t" and "t < sentinel"
  shows "\<exists>p < length versions. (\<forall>q < length versions. covers (versions ! q) t \<longleftrightarrow> q = p) \<and>
    tracked_attribute_hash sha256 [vw_name (versions ! p), vw_country (versions ! p)] =
      row_hash sha256 (as_of h t)"
proof -
  let ?o = "ordered_history h"
  let ?hs = "map (row_hash sha256) ?o"
  let ?s = "group_start_indices ?hs"
  have ne: "h \<noteq> []" using assms(2) by auto
  have vs: "versions = map (version_at sentinel ?o ?s) [0..<length ?s]"
    using assms(1) recompute_Inr [OF ne, of sha256 sentinel] by simp
  obtain k where k: "k < length h" "as_of h t = ?o ! k" "bz_event_ts (?o ! k) \<le> t"
    "\<And>j. k < j \<Longrightarrow> j < length h \<Longrightarrow> t < bz_event_ts (?o ! j)"
    using as_of_index [OF assms(2)] by blast
  define p where "p = group_of ?hs k"
  have kh: "k < length ?hs" using k(1) by simp
  have p: "p < length ?s" unfolding p_def by (rule group_of_spec(1) [OF kh])
  have "covers (versions ! q) t \<longleftrightarrow> q = p" if "q < length versions" for q
    using chain_covers [OF ne k(1) assms(3) k(3,4) refl] that by (simp add: vs p_def)
  moreover have "tracked_attribute_hash sha256 [vw_name (versions ! p), vw_country (versions ! p)] =
      row_hash sha256 (as_of h t)"
  proof -
    have "?s ! p < length h" using starts_less [of ?hs p] p ne by simp
    then have "tracked_attribute_hash sha256 [vw_name (versions ! p), vw_country (versions ! p)] =
        ?hs ! (?s ! p)"
      using p by (simp add: vs version_at_def Let_def row_hash_def)
    also have "\<dots> = ?hs ! k" unfolding p_def by (rule group_of_spec(4) [OF kh])
    finally show ?thesis using k(1,2) by simp
  qed
  ultimately show ?thesis using p by (intro exI [of _ p]) (simp add: vs)
qed

definition bronze :: "string \<Rightarrow> string \<Rightarrow> int \<Rightarrow> int \<Rightarrow> bronze_record" where
  "bronze name country ts file =
     \<lparr>bz_customer_id = 7, bz_name = Some name, bz_country = Some country, bz_birth_date = None,
      bz_signup_country = None, bz_event_ts = ts, bz_source_row_number = 1, bz_file_id = file\<rparr>"

theorem version_chain_as_of_witness:
  "\<exists>versions. recompute_version_chain id 1000
      [bronze ''Ann'' ''PL'' 30 3, bronze ''Ann'' ''PL'' 10 1, bronze ''Ann'' ''DE'' 20 2] = Inr versions \<and>
    (\<exists>p < length versions. (\<forall>q < length versions. covers (versions ! q) 25 \<longleftrightarrow> q = p) \<and>
      tracked_attribute_hash id [vw_name (versions ! p), vw_country (versions ! p)] = ''Ann|DE'')"
proof -
  let ?h = "[bronze ''Ann'' ''PL'' 30 3, bronze ''Ann'' ''PL'' 10 1, bronze ''Ann'' ''DE'' 20 2]"
  obtain versions where run: "recompute_version_chain id 1000 ?h = Inr versions"
    by (simp add: recompute_Inr)
  have "\<exists>r \<in> set ?h. bz_event_ts r \<le> 25" by (simp add: bronze_def)
  moreover have "row_hash id (as_of ?h 25) = ''Ann|DE''" by code_simp
  ultimately show ?thesis using version_chain_as_of [OF run, of 25] run by auto
qed

lemma max_by_key: "sorted (map key (x # xs)) \<Longrightarrow> key (max_by key x xs) = key (last (x # xs))"
proof (induction xs arbitrary: x)
  case Nil
  then show ?case by simp
next
  case (Cons y ys)
  then have xy: "key x \<le> key y" and y: "sorted (map key (y # ys))" by auto
  show ?case
  proof (cases "key x < key y")
    case True
    then show ?thesis using Cons.IH [OF y] by simp
  next
    case False
    then have eq: "key x = key y" using xy by simp
    then have "sorted (map key (x # ys))" using y by auto
    from Cons.IH [OF this] eq False show ?thesis by (cases ys) auto
  qed
qed

lemma min_by_first: "sorted (map key (x # xs)) \<Longrightarrow> min_by key x xs = x"
  by (induction xs) (auto simp: not_less)

lemma order_key_truncate [simp]: "order_key (bronze_record.truncate r) = order_key r"
  by (simp add: order_key_def bronze_record.truncate_def)

lemma row_hash_truncate [simp]: "row_hash sha256 (bronze_record.truncate r) = row_hash sha256 r"
  by (simp add: row_hash_def bronze_record.truncate_def)

lemma insort_key_map: "insort_key f (g x) (map g xs) = map g (insort_key (\<lambda>x. f (g x)) x xs)"
  by (induction xs) auto

lemma sort_key_map: "sort_key f (map g xs) = map g (sort_key (\<lambda>x. f (g x)) xs)"
  by (induction xs) (auto simp: insort_key_map)

lemma ordered_history_truncate:
  "ordered_history (map bronze_record.truncate h) = map bronze_record.truncate (ordered_history h)"
  by (simp add: ordered_history_def sort_key_map o_def)

text \<open>Where group \<open>p\<close> ends, and that its last row still hashes like its first.\<close>

definition group_end :: "string list \<Rightarrow> nat \<Rightarrow> nat" where
  "group_end hs p = (tl (group_start_indices hs) @ [length hs]) ! p"

lemma group_end_spec:
  assumes "hs \<noteq> []" and "p < length (group_start_indices hs)"
  shows "group_start_indices hs ! p < group_end hs p \<and> group_end hs p \<le> length hs \<and>
    hs ! (group_end hs p - 1) = hs ! (group_start_indices hs ! p)"
proof -
  let ?s = "group_start_indices hs"
  have e: "group_end hs p = (if Suc p < length ?s then ?s ! Suc p else length hs)"
    using assms(2) by (auto simp: group_end_def nth_append nth_tl)
  have lt: "?s ! p < group_end hs p"
    using starts_mono [of p "Suc p" hs] starts_less [OF assms] by (simp add: e)
  have le: "group_end hs p \<le> length hs"
    using starts_less [OF assms(1), of "Suc p"] by (auto simp: e)
  have "hs ! (group_end hs p - 1) = hs ! (?s ! p)"
  proof (rule group_constant)
    show "group_end hs p - 1 < length hs" using lt le by linarith
    show "?s ! p \<le> group_end hs p - 1" using lt by simp
    show "\<forall>k. ?s ! p < k \<and> k \<le> group_end hs p - 1 \<longrightarrow> k \<notin> set ?s"
    proof (intro allI impI notI)
      fix k assume k: "?s ! p < k \<and> k \<le> group_end hs p - 1" and "k \<in> set ?s"
      then obtain q where q: "q < length ?s" "?s ! q = k" by (metis in_set_conv_nth)
      have "p < q" using k q starts_mono [of q p hs] assms(2) by (metis less_asym linorder_neqE_nat order_less_irrefl)
      then have "Suc p < length ?s" using q by simp
      moreover have "?s ! Suc p \<le> ?s ! q"
        using starts_mono [of "Suc p" q hs] \<open>p < q\<close> q by (cases "q = Suc p") auto
      ultimately show False using k q lt by (simp add: e)
    qed
  qed
  then show ?thesis using lt le by simp
qed

lemma adjacent_groups_differ:
  assumes "hs \<noteq> []" and "Suc p < length (group_start_indices hs)"
  shows "hs ! (group_start_indices hs ! p) \<noteq> hs ! (group_start_indices hs ! Suc p)"
proof -
  let ?s = "group_start_indices hs"
  have e: "group_end hs p = ?s ! Suc p" using assms(2) by (auto simp: group_end_def nth_append nth_tl)
  have "hs ! (?s ! Suc p - 1) = hs ! (?s ! p)"
    using group_end_spec [OF assms(1), of p] assms(2) by (simp add: e)
  moreover have "0 < ?s ! Suc p" using starts_mono [of p "Suc p" hs] assms(2) by simp
  then have "hs ! (?s ! Suc p) \<noteq> hs ! (?s ! Suc p - 1)"
    using nth_mem [OF assms(2)] by (auto simp: starts_mem)
  ultimately show ?thesis by metis
qed

text \<open>C28: The chain is well formed: the versions abut (each ends where the next begins), the
  last one and only it is current and ends at the sentinel, two neighbouring versions never have the
  same tracked attributes, every version carries the same type-1 and type-0 values, and the rows
  the versions take their lineage from are as many (so the strict pairing never raises) and agree with
  them on the tracked hash.\<close>

theorem version_chain_well_formed:
  assumes "h \<noteq> []"
  shows "\<exists>versions. recompute_version_chain sha256 sentinel (map bronze_record.truncate h) = Inr versions \<and>
    versions \<noteq> [] \<and>
    (\<forall>p. Suc p < length versions \<longrightarrow>
       vw_valid_to (versions ! p) = vw_valid_from (versions ! Suc p) \<and>
       \<not> vw_is_current (versions ! p) \<and>
       tracked_attribute_hash sha256 [vw_name (versions ! p), vw_country (versions ! p)] \<noteq>
       tracked_attribute_hash sha256 [vw_name (versions ! Suc p), vw_country (versions ! Suc p)]) \<and>
    vw_is_current (last versions) \<and> vw_valid_to (last versions) = sentinel \<and>
    (\<forall>v \<in> set versions. vw_birth_date v = vw_birth_date (hd versions) \<and>
       vw_signup_country v = vw_signup_country (hd versions)) \<and>
    list_all2 (\<lambda>v l. tracked_attribute_hash sha256 [vw_name v, vw_country v] = row_hash sha256 l)
      versions (select_lineage_rows sha256 h)"
proof -
  let ?o = "ordered_history h"
  let ?t = "map bronze_record.truncate ?o"
  let ?hs = "map (row_hash sha256) ?o"
  let ?s = "group_start_indices ?hs"
  let ?v = "version_at sentinel ?t ?s"
  let ?versions = "map ?v [0..<length ?s]"
  have hs: "map (row_hash sha256) ?t = ?hs" by (simp add: o_def)
  have run: "recompute_version_chain sha256 sentinel (map bronze_record.truncate h) = Inr ?versions"
    using recompute_Inr [of "map bronze_record.truncate h" sha256 sentinel] assms
    unfolding ordered_history_truncate hs by simp
  have ne: "?hs \<noteq> []" using assms by simp
  have s_lt: "?s ! p < length h" if "p < length ?s" for p using starts_less [OF ne that] by simp
  have hash: "tracked_attribute_hash sha256 [vw_name (?v p), vw_country (?v p)] = ?hs ! (?s ! p)"
    if "p < length ?s" for p
    using s_lt [OF that] by (simp add: version_at_def Let_def row_hash_def bronze_record.truncate_def)
  have step: "vw_valid_to (?v p) = vw_valid_from (?v (Suc p)) \<and> \<not> vw_is_current (?v p) \<and>
      tracked_attribute_hash sha256 [vw_name (?v p), vw_country (?v p)] \<noteq>
      tracked_attribute_hash sha256 [vw_name (?v (Suc p)), vw_country (?v (Suc p))]"
    if p: "Suc p < length ?s" for p
    using adjacent_groups_differ [OF ne p] hash [of p] hash [OF p] p
    by (simp add: version_at_def Let_def)
  have last: "vw_is_current (?v (length ?s - 1)) \<and> vw_valid_to (?v (length ?s - 1)) = sentinel"
    by (simp add: version_at_def Let_def)
  have uniform: "vw_birth_date (?v p) = vw_birth_date (?v q) \<and> vw_signup_country (?v p) = vw_signup_country (?v q)"
    for p q by (simp add: version_at_def Let_def)
  have len: "length (tl ?s @ [length ?o]) = length ?s" by (cases ?s) (simp_all add: group_start_indices_def)
  have lineage: "select_lineage_rows sha256 h = map (\<lambda>p. ?o ! (group_end ?hs p - 1)) [0..<length ?s]"
  proof -
    have "tl ?s @ [length ?o] = map (group_end ?hs) [0..<length ?s]"
      by (rule nth_equalityI) (use len in \<open>simp_all add: group_end_def\<close>)
    then show ?thesis by (simp only: select_lineage_rows_def Let_def map_map o_def)
  qed
  have agree: "?hs ! (?s ! p) = row_hash sha256 (?o ! (group_end ?hs p - 1))" if "p < length ?s" for p
  proof -
    note ge = group_end_spec [OF ne that]
    then have "group_end ?hs p - 1 < length ?o" by simp linarith
    then show ?thesis using ge by simp
  qed
  have "list_all2 (\<lambda>v l. tracked_attribute_hash sha256 [vw_name v, vw_country v] = row_hash sha256 l)
      ?versions (select_lineage_rows sha256 h)"
    unfolding lineage by (rule list_all2_all_nthI) (simp_all add: hash agree)
  moreover have "last ?versions = ?v (length ?s - 1)" by (simp add: last_conv_nth)
  moreover have "\<forall>v \<in> set ?versions. vw_birth_date v = vw_birth_date (hd ?versions) \<and>
       vw_signup_country v = vw_signup_country (hd ?versions)"
    using uniform by (auto simp: hd_conv_nth)
  ultimately show ?thesis using run step last by (intro exI [of _ ?versions]) simp
qed

theorem version_chain_well_formed_witness:
  "\<exists>versions. recompute_version_chain id 1000
      (map bronze_record.truncate [bronze_record.extend (bronze ''Ann'' ''PL'' 10 1)
        \<lparr>lr_run_id = 1, lr_batch_id = 1, lr_record_hash = ''h'', lr_record_hash_version = 1\<rparr>]) = Inr versions \<and>
    vw_valid_to (last versions) = 1000"
  using version_chain_well_formed [of "[bronze_record.extend (bronze ''Ann'' ''PL'' 10 1)
        \<lparr>lr_run_id = 1, lr_batch_id = 1, lr_record_hash = ''h'', lr_record_hash_version = 1\<rparr>]" id 1000]
  by blast

text \<open>The chain depends on the set of records only: any other order of arrival of the same
  records (no two with the same event time, file and row) gives the same versions.\<close>

theorem version_chain_order_independent:
  assumes "mset h = mset h'" and "inj_on order_key (set h)"
  shows "recompute_version_chain sha256 sentinel h = recompute_version_chain sha256 sentinel h'"
proof -
  have "ordered_history h = ordered_history h'"
    unfolding ordered_history_def
    by (rule sort_key_inj_key_eq) (simp_all add: assms)
  then show ?thesis by (simp add: recompute_version_chain_def)
qed

theorem version_chain_order_independent_witness:
  "recompute_version_chain id 1000 [bronze ''Ann'' ''PL'' 10 1, bronze ''Ann'' ''DE'' 20 2] =
   recompute_version_chain id 1000 [bronze ''Ann'' ''DE'' 20 2, bronze ''Ann'' ''PL'' 10 1]"
  by (rule version_chain_order_independent) (simp_all add: inj_on_def order_key_def bronze_def)

end
