(* ===== verification/Publish.thy ===== *)
theory Publish
  imports Scd Validate Config
begin

text \<open>
  Publication into the gold tables (\<open>load/publish/*.py\<close>, \<open>scd/delete_detection.py\<close>).  The
  SQL statements are modelled as functions on tables: lists of rows for the durable bronze table
  and the versioned customers table, a map by business key for the tables the upserts maintain.
  Rows hold the values after the casts of the statements; the cast of a customer id from text is
  the parameter \<open>to_int\<close>.  An \<open>Inl\<close> leaves the enclosing transaction to its caller, who rolls
  it back, so no table is returned with it.
\<close>

section \<open>The registry\<close>

datatype publisher = PubMerge | PubMergeOrders | PubScd

definition publisher_registry :: "(string \<times> publisher) list" where
  "publisher_registry = [(''merge'', PubMerge), (''merge_orders'', PubMergeOrders), (''scd'', PubScd)]"

definition resolve_publisher :: "string \<Rightarrow> exn + publisher" where
  "resolve_publisher strategy =
     (case map_of publisher_registry strategy of
        Some p \<Rightarrow> Inr p
      | None \<Rightarrow> Inl (dp_error ConfigurationError
          [(''strategy'', VStr strategy),
           (''known'', VList (map VStr (sort (map fst publisher_registry))))]))"

record publish_result =
  pb_rows_affected :: nat
  pb_outcome :: string
  pb_published_business_keys :: "string list"

section \<open>The upserting publishers\<close>

record merge_row =
  mg_key :: int
  mg_ts :: "int option"
  mg_payload :: "string option list"
  mg_run_id :: int
  mg_file_id :: int
  mg_batch_id :: int
  mg_source_row_number :: int
  mg_record_hash :: string
  mg_record_hash_version :: int

text \<open>\<open>ORDER BY key, ts DESC, _source_row_number DESC\<close>: in descending order a NULL comes first.\<close>

definition rank :: "merge_row \<Rightarrow> (int \<times> int) \<times> int" where
  "rank r = ((case mg_ts r of None \<Rightarrow> (1, 0) | Some t \<Rightarrow> (0, t)), mg_source_row_number r)"

text \<open>\<open>SELECT DISTINCT ON (key)\<close>: of every key its first row in that order.\<close>

definition winner :: "merge_row list \<Rightarrow> int \<Rightarrow> merge_row option" where
  "winner rs k =
     (case filter (\<lambda>r. mg_key r = k) rs of [] \<Rightarrow> None | r # rs' \<Rightarrow> Some (max_by rank r rs'))"

text \<open>The \<open>WHERE\<close> clause of \<open>ON CONFLICT DO UPDATE\<close>, in three-valued logic.\<close>

definition customers_newer :: "merge_row \<Rightarrow> merge_row \<Rightarrow> bool" where
  "customers_newer old new =
     (case (mg_ts old, mg_ts new) of (Some a, Some b) \<Rightarrow> a \<le> b | _ \<Rightarrow> False)"

definition orders_newer :: "merge_row \<Rightarrow> merge_row \<Rightarrow> bool" where
  "orders_newer old new =
     (case mg_ts old of None \<Rightarrow> True
      | Some a \<Rightarrow> (case mg_ts new of None \<Rightarrow> False | Some b \<Rightarrow> a \<le> b))"

type_synonym gold_map = "int \<Rightarrow> merge_row option"

definition upsert :: "(merge_row \<Rightarrow> merge_row \<Rightarrow> bool) \<Rightarrow> gold_map \<Rightarrow> merge_row \<Rightarrow> gold_map \<times> bool" where
  "upsert newer gold r =
     (case gold (mg_key r) of
        None \<Rightarrow> (gold(mg_key r \<mapsto> r), True)
      | Some old \<Rightarrow>
          if mg_record_hash old \<noteq> mg_record_hash r \<and> newer old r
          then (gold(mg_key r \<mapsto> r), True) else (gold, False))"

fun upsert_all :: "(merge_row \<Rightarrow> merge_row \<Rightarrow> bool) \<Rightarrow> gold_map \<Rightarrow> merge_row list \<Rightarrow> gold_map \<times> int list" where
  "upsert_all newer gold [] = (gold, [])"
| "upsert_all newer gold (r # rs) =
     (case upsert newer gold r of (gold1, affected) \<Rightarrow>
       (case upsert_all newer gold1 rs of (gold2, keys) \<Rightarrow>
          (gold2, if affected then mg_key r # keys else keys)))"

definition merge_rows :: "merge_row list \<Rightarrow> merge_row list" where
  "merge_rows source =
     map (\<lambda>k. the (winner source k)) (sort (remdups (map mg_key source)))"

definition publish_with :: "(merge_row \<Rightarrow> merge_row \<Rightarrow> bool) \<Rightarrow> merge_row list \<Rightarrow> gold_map \<Rightarrow>
    gold_map \<times> publish_result" where
  "publish_with newer source gold =
     (case upsert_all newer gold (merge_rows source) of (gold', keys) \<Rightarrow>
        (gold', \<lparr>pb_rows_affected = length keys, pb_outcome = ''PUBLISHED'',
                 pb_published_business_keys = map show_int keys\<rparr>))"

text \<open>\<open>MergePublisher.publish\<close> reads the whole source, less the quarantined runs.\<close>

definition merge_publish :: "int list \<Rightarrow> merge_row list \<Rightarrow> gold_map \<Rightarrow> gold_map \<times> publish_result" where
  "merge_publish quarantined source gold =
     publish_with customers_newer (filter (\<lambda>r. mg_run_id r \<notin> set quarantined) source) gold"

text \<open>\<open>OrdersMergePublisher.publish\<close> reads the rows of the staged runs only.\<close>

definition orders_publish :: "int list \<Rightarrow> int list \<Rightarrow> merge_row list \<Rightarrow> gold_map \<Rightarrow>
    gold_map \<times> publish_result" where
  "orders_publish quarantined staged_run_ids source gold =
     publish_with orders_newer
       (filter (\<lambda>r. mg_run_id r \<in> set staged_run_ids \<and> mg_run_id r \<notin> set quarantined) source) gold"

subsection \<open>What an upsert pass does to each key\<close>

lemma upsert_other: "k \<noteq> mg_key r \<Longrightarrow> fst (upsert newer gold r) k = gold k"
  by (simp add: upsert_def split: option.splits)

lemma upsert_all_both:
  assumes "distinct (map mg_key rs)"
  shows "fst (upsert_all newer gold rs) k =
      (case find (\<lambda>r. mg_key r = k) rs of None \<Rightarrow> gold k | Some r \<Rightarrow> fst (upsert newer gold r) k) \<and>
    (k \<in> set (snd (upsert_all newer gold rs)) \<longleftrightarrow> (\<exists>r \<in> set rs. mg_key r = k \<and> snd (upsert newer gold r)))"
  using assms
proof (induction rs arbitrary: gold)
  case Nil
  then show ?case by simp
next
  case (Cons r rs)
  obtain g1 a where u: "upsert newer gold r = (g1, a)" by fastforce
  obtain g2 ks where v: "upsert_all newer g1 rs = (g2, ks)" by fastforce
  have other: "g1 j = gold j" if "j \<noteq> mg_key r" for j
    using upsert_other [OF that, of newer gold] u by simp
  have same: "fst (upsert newer g1 s) (mg_key s) = fst (upsert newer gold s) (mg_key s) \<and>
      snd (upsert newer g1 s) = snd (upsert newer gold s)" if "s \<in> set rs" for s
  proof -
    have "mg_key s \<in> mg_key ` set rs" using that by (rule imageI)
    then have "mg_key s \<noteq> mg_key r" using Cons.prems by auto
    then have "g1 (mg_key s) = gold (mg_key s)" by (rule other)
    then show ?thesis by (simp add: upsert_def split: option.splits)
  qed
  have dist: "distinct (map mg_key rs)" and fresh: "mg_key r \<notin> mg_key ` set rs" using Cons.prems by auto
  note ih = Cons.IH [OF dist, of g1]
  have "fst (upsert_all newer gold (r # rs)) k =
      (case find (\<lambda>r. mg_key r = k) (r # rs) of None \<Rightarrow> gold k | Some r \<Rightarrow> fst (upsert newer gold r) k)"
  proof (cases "mg_key r = k")
    case True
    then have "find (\<lambda>s. mg_key s = k) rs = None" using fresh unfolding find_None_iff by (metis imageI)
    then show ?thesis using ih True u v by simp
  next
    case False
    have "fst (upsert newer g1 s) k = fst (upsert newer gold s) k"
      if "find (\<lambda>s. mg_key s = k) rs = Some s" for s
      using that same [of s] by (auto simp: find_Some_iff)
    then show ?thesis using ih False u v other [of k] by (auto split: option.splits)
  qed
  moreover have "k \<in> set (snd (upsert_all newer gold (r # rs))) \<longleftrightarrow>
      (\<exists>s \<in> set (r # rs). mg_key s = k \<and> snd (upsert newer gold s))"
  proof -
    have "(\<exists>s \<in> set rs. mg_key s = k \<and> snd (upsert newer g1 s)) \<longleftrightarrow>
        (\<exists>s \<in> set rs. mg_key s = k \<and> snd (upsert newer gold s))" using same by blast
    then show ?thesis using ih u v by auto
  qed
  ultimately show ?case by blast
qed

lemmas upsert_all_eq = upsert_all_both [THEN conjunct1] upsert_all_both [THEN conjunct2]

lemma winner_spec:
  "winner rs k = Some r \<Longrightarrow> r \<in> set rs \<and> mg_key r = k"
proof -
  have max_in: "max_by key x xs \<in> set (x # xs)" for key :: "merge_row \<Rightarrow> 'b :: linorder" and x xs
    by (induction xs arbitrary: x) auto
  assume "winner rs k = Some r"
  then obtain x xs where f: "filter (\<lambda>r. mg_key r = k) rs = x # xs" and "r = max_by rank x xs"
    by (auto simp: winner_def split: list.splits)
  then have "r \<in> set (filter (\<lambda>r. mg_key r = k) rs)" using max_in [of rank x xs] by simp
  then show ?thesis by simp
qed

lemma max_by_start: "key x \<le> key (max_by key x xs)"
proof (induction xs arbitrary: x)
  case (Cons z zs)
  have "key x \<le> key (if key x < key z then z else x)" by (auto intro: less_imp_le)
  also have "\<dots> \<le> key (max_by key (if key x < key z then z else x) zs)" by (rule Cons.IH)
  finally show ?case by simp
qed simp

lemma max_by_max: "y \<in> set (x # xs) \<Longrightarrow> key y \<le> key (max_by key x xs)"
proof (induction xs arbitrary: x)
  case Nil
  then show ?case by simp
next
  case (Cons z zs)
  let ?m = "if key x < key z then z else x"
  have m: "key ?m \<le> key (max_by key ?m zs)" by (rule max_by_start)
  consider "y = x" | "y = z" | "y \<in> set zs" using Cons.prems by auto
  then have "key y \<le> key (max_by key ?m zs)"
  proof cases
    case 1
    have "key x \<le> key ?m" by (auto intro: less_imp_le)
    then show ?thesis using m 1 by (simp only: order_trans)
  next
    case 2
    have "key z \<le> key ?m" by (auto simp: not_less)
    then show ?thesis using m 2 by (simp only: order_trans)
  next
    case 3
    then show ?thesis by (intro Cons.IH) simp
  qed
  then show ?case by simp
qed

lemma winner_max:
  assumes "winner rs k = Some r" and "s \<in> set rs" and "mg_key s = k"
  shows "rank s \<le> rank r"
proof -
  obtain x xs where f: "filter (\<lambda>r. mg_key r = k) rs = x # xs" and r: "r = max_by rank x xs"
    using assms(1) by (auto simp: winner_def split: list.splits)
  have "s \<in> set (filter (\<lambda>r. mg_key r = k) rs)" using assms(2,3) by simp
  then have "s \<in> set (x # xs)" unfolding f .
  then show ?thesis unfolding r by (rule max_by_max)
qed

lemma winner_None: "winner rs k = None \<longleftrightarrow> k \<notin> mg_key ` set rs"
proof -
  have "winner rs k = None \<longleftrightarrow> filter (\<lambda>r. mg_key r = k) rs = []"
    by (simp add: winner_def split: list.split)
  then show ?thesis by (auto simp: filter_empty_conv)
qed

lemma merge_rows_keys: "map mg_key (merge_rows source) = sort (remdups (map mg_key source))"
proof -
  have "mg_key (the (winner source k)) = k" if "k \<in> set (sort (remdups (map mg_key source)))" for k
  proof -
    have "winner source k \<noteq> None" using that by (simp add: winner_None)
    then show ?thesis using winner_spec by auto
  qed
  then show ?thesis unfolding merge_rows_def map_map o_def by (rule map_idI)
qed

lemma find_merge_rows: "find (\<lambda>r. mg_key r = k) (merge_rows source) = winner source k"
proof (cases "winner source k")
  case None
  then have "k \<notin> set (map mg_key (merge_rows source))" by (simp add: merge_rows_keys winner_None)
  then show ?thesis using None by (force simp: find_None_iff)
next
  case (Some r)
  have keys: "mg_key (the (winner source j)) = j" if "j \<in> set (map mg_key source)" for j
    using that winner_None [of source j] winner_spec [of source j] by auto
  have "find (\<lambda>r. mg_key r = k) (map (\<lambda>j. the (winner source j)) js) = Some r"
    if "k \<in> set js" "set js \<subseteq> set (map mg_key source)" for js
    using that
  proof (induction js)
    case (Cons j js)
    then show ?case using Some keys [of j] by auto
  qed simp
  moreover have "k \<in> set (map mg_key source)" using Some winner_None [of source k] by auto
  ultimately show ?thesis using Some by (simp add: merge_rows_def)
qed

lemma publish_with_eq:
  "fst (publish_with newer source gold) k =
     (case winner source k of None \<Rightarrow> gold k | Some r \<Rightarrow> fst (upsert newer gold r) k)"
  "pb_rows_affected (snd (publish_with newer source gold)) = 0 \<longleftrightarrow>
     (\<forall>k r. winner source k = Some r \<longrightarrow> \<not> snd (upsert newer gold r))"
proof -
  have dist: "distinct (map mg_key (merge_rows source))" by (simp add: merge_rows_keys)
  show "fst (publish_with newer source gold) k =
     (case winner source k of None \<Rightarrow> gold k | Some r \<Rightarrow> fst (upsert newer gold r) k)"
    using upsert_all_eq(1) [OF dist, of newer gold k]
    unfolding find_merge_rows by (cases "upsert_all newer gold (merge_rows source)") (simp add: publish_with_def)
  have mem: "r \<in> set (merge_rows source) \<longleftrightarrow> (\<exists>k. winner source k = Some r)" for r
  proof
    assume "r \<in> set (merge_rows source)"
    then obtain j where "j \<in> mg_key ` set source" "r = the (winner source j)"
      by (auto simp: merge_rows_def)
    then have "winner source j = Some r" using winner_None [of source j] by (cases "winner source j") auto
    then show "\<exists>k. winner source k = Some r" by blast
  next
    assume "\<exists>k. winner source k = Some r"
    then obtain k where k: "winner source k = Some r" by blast
    then have "k \<in> set (sort (remdups (map mg_key source)))" using winner_None [of source k] by auto
    then have "the (winner source k) \<in> set (merge_rows source)" unfolding merge_rows_def by simp
    then show "r \<in> set (merge_rows source)" using k by simp
  qed
  have "snd (upsert_all newer gold (merge_rows source)) = [] \<longleftrightarrow>
      (\<forall>r \<in> set (merge_rows source). \<not> snd (upsert newer gold r))"
    using upsert_all_eq(2) [OF dist, of _ newer gold] by (metis empty_iff equals0I list.set(1) set_empty)
  then show "pb_rows_affected (snd (publish_with newer source gold)) = 0 \<longleftrightarrow>
     (\<forall>k r. winner source k = Some r \<longrightarrow> \<not> snd (upsert newer gold r))"
    by (auto simp: publish_with_def mem split: prod.splits)
qed


definition order_row :: "int \<Rightarrow> int option \<Rightarrow> string \<Rightarrow> int \<Rightarrow> merge_row" where
  "order_row key date content n =
     \<lparr>mg_key = key, mg_ts = date, mg_payload = [Some content], mg_run_id = 9, mg_file_id = 1,
      mg_batch_id = 1, mg_source_row_number = n, mg_record_hash = content, mg_record_hash_version = 1\<rparr>"


text \<open>
  A NULL date sorts first in descending order: it shadows a newer dated row of the same key in
  the same pass, and then fails the newer-than test, so the key keeps its old content.
\<close>

lemma null_date_shadows:
  "fst (orders_publish [] [9] [order_row 1 None ''x'' 1, order_row 1 (Some 9) ''b'' 2]
      (Map.empty(1 \<mapsto> order_row 1 (Some 4) ''a'' 1))) 1 = Some (order_row 1 (Some 4) ''a'' 1)"
  by code_simp

end
