(* ===== verification/StageRun.thy ===== *)
theory StageRun
  imports Await Referential Transaction Publish
begin

text \<open>
  \<open>stage_ingest\<close> (\<open>pipeline/run.py\<close>) on the metadata tables, the dataset's durable bronze table and the
  object store: claim, stage, apply the referential barrier and the quality gate, promote to bronze,
  mark the run STAGED; on an exception, roll back and release the claim.  What other pods (and this
  run's own heartbeat thread) do to the metadata meanwhile is any history of its operations.
\<close>

section \<open>Dataset tables\<close>

definition target_columns_by_dataset :: "(string \<times> string list) list" where
  "target_columns_by_dataset =
     [(''customers'', [''customer_id'', ''name'', ''country'', ''birth_date'', ''event_ts'', ''signup_country'']),
      (''orders'', [''order_id'', ''customer_id'', ''order_date'', ''amount''])]"

definition target_columns_for_dataset :: "string \<Rightarrow> exn + string list" where
  "target_columns_for_dataset dataset =
     (case map_of target_columns_by_dataset dataset of
        Some columns \<Rightarrow> Inr columns
      | None \<Rightarrow> Inl (dp_error DataPlatformError
          [(''dataset'', VStr dataset),
           (''known_datasets'', VList (map VStr (sort (map fst target_columns_by_dataset))))]))"

text \<open>The NOT NULL columns of \<open>staging.customers\<close> and \<open>staging.orders\<close>.\<close>

definition durable_not_null :: "(string \<times> string list) list" where
  "durable_not_null =
     [(''customers'', [''customer_id'', ''name'', ''country'']), (''orders'', [''order_id'', ''customer_id''])]"

record report =
  rt_run_id :: int
  rt_dataset :: string
  rt_file_id :: int
  rt_batch_id :: int
  rt_generated_at :: int
  rt_validation_results :: "validation_result list"
  rt_rejected_records :: "rejected_record list"

record lake =
  lk_meta :: meta_db
  lk_bronze :: "staged_row list"
  lk_reports :: "(string \<times> report) list"

text \<open>
  The environment of one invocation: what opening and reading the source gives (an exception, or
  chunks and perhaps an exception after them), the libraries, the clocks.
\<close>

record stage_world =
  sw_env :: env
  sw_source :: "exn + chunk list \<times> exn option"
  sw_to_int :: "string \<Rightarrow> int option"
  sw_tables :: tables
  sw_average :: "int list \<Rightarrow> rat"
  sw_finished_at :: int
  sw_duration_ms :: int
  sw_released_at :: int
  sw_schema_version :: "int option"
  sw_during :: "meta_op list"
  sw_after_commit :: "meta_op list"

definition on_meta :: "(meta_db \<Rightarrow> exn + meta_db \<times> 'a) \<Rightarrow> lake \<Rightarrow> exn + lake \<times> 'a" where
  "on_meta f l = (case f (lk_meta l) of Inl e \<Rightarrow> Inl e | Inr (db, x) \<Rightarrow> Inr (l\<lparr>lk_meta := db\<rparr>, x))"

definition own_meta :: "(meta_db \<Rightarrow> meta_db \<times> 'a) \<Rightarrow> lake \<Rightarrow> lake \<times> 'a" where
  "own_meta f l = (l\<lparr>lk_meta := fst (f (lk_meta l))\<rparr>, snd (f (lk_meta l)))"

definition unit_result :: "exn + 's \<Rightarrow> exn + 's \<times> unit" where
  "unit_result r = map_sum id (\<lambda>s. (s, ())) r"

section \<open>The quality gate\<close>

text \<open>\<open>float(params.get("multiplier", 10.0))\<close>; an infinite or NaN text is not modelled.\<close>

definition volume_multiplier :: "quality_rule_config \<Rightarrow> exn + rat" where
  "volume_multiplier rule =
     (case map_of (qr_params rule) ''multiplier'' of
        None \<Rightarrow> Inr 10
      | Some (VFloat q) \<Rightarrow> Inr q
      | Some (VInt k) \<Rightarrow> Inr (round_double (of_int k))
      | Some (VBool b) \<Rightarrow> Inr (if b then 1 else 0)
      | Some (VStr s) \<Rightarrow> (case py_float s of Some (FFin q) \<Rightarrow> Inr q | _ \<Rightarrow> Inl (Exn PyValueError []))
      | Some _ \<Rightarrow> Inl (Exn PyTypeError []))"

text \<open>\<open>_HISTORICAL_AVERAGE_SQL\<close>: \<open>AVG\<close> as a double is the parameter \<open>average\<close>.\<close>

definition volume_history :: "(int list \<Rightarrow> rat) \<Rightarrow> int \<Rightarrow> meta_db \<Rightarrow> rat option \<times> int" where
  "volume_history average dataset_id db =
     (let counts = map (\<lambda>(run, f). vr_evaluated_count f)
        (filter (\<lambda>(run, f). vr_rule_type f = ''VOLUME'' \<and>
           list_ex (\<lambda>r. ir_id r = run \<and> ir_dataset_id r = dataset_id \<and> ir_status r = ''SUCCEEDED'') (md_runs db))
         (md_validation db))
      in (if counts = [] then None else Some (average counts), int (length counts)))"

definition breaker_findings :: "dataset_config \<Rightarrow> staging_result \<Rightarrow> rejected_record list \<Rightarrow> exn + validation_result list" where
  "breaker_findings cfg res rejected =
     (case ds_quality cfg of
        None \<Rightarrow> Inr []
      | Some q \<Rightarrow>
          (case qc_rejection_rate_threshold q of
             None \<Rightarrow> Inr []
           | Some threshold \<Rightarrow>
               map_sum id sr_findings (rejection_rate_apply threshold (st_rows_read res)
                 (int (length rejected)) ''rejection_rate_circuit_breaker'')))"

definition volume_findings :: "stage_world \<Rightarrow> dataset_config \<Rightarrow> int \<Rightarrow> staging_result \<Rightarrow> meta_db \<Rightarrow>
    exn + validation_result list" where
  "volume_findings w cfg dataset_id res db =
     (case find_quality_rule cfg ''VOLUME'' of
        None \<Rightarrow> Inr []
      | Some rule \<Rightarrow>
          (case volume_multiplier rule of
             Inl e \<Rightarrow> Inl e
           | Inr multiplier \<Rightarrow>
               map_sum id sr_findings (volume_apply (volume_history (sw_average w) dataset_id db)
                 (st_rows_parsed res) multiplier (qr_rule_id rule) (qr_strategy rule))))"

definition report_key :: "string \<Rightarrow> int \<Rightarrow> string" where
  "report_key dataset run_id = dataset @ ''/'' @ show_int run_id @ ''/report.json''"

definition put_report :: "string \<Rightarrow> report \<Rightarrow> lake \<Rightarrow> lake \<times> unit" where
  "put_report key r l = (l\<lparr>lk_reports := (key, r) # filter (\<lambda>(k, _). k \<noteq> key) (lk_reports l)\<rparr>, ())"

definition quality_gate_and_persist :: "stage_world \<Rightarrow> dataset_config \<Rightarrow> int \<Rightarrow> int \<Rightarrow> int \<Rightarrow> staging_result \<Rightarrow>
    rejected_record list \<Rightarrow> validation_result list \<Rightarrow> (lake, string) tx" where
  "quality_gate_and_persist w cfg run_id file_id batch_id res rejected findings =
     tx_bind (tx_own (own_meta (get_or_create_dataset (ds_dataset cfg)))) (\<lambda>dataset_id.
     tx_bind (tx_lift (breaker_findings cfg res rejected)) (\<lambda>breaker.
     tx_bind (tx_query_committed (\<lambda>l. volume_findings w cfg dataset_id res (lk_meta l))) (\<lambda>volume.
     let all_findings = findings @ breaker @ volume in
     tx_bind (tx_exec (on_meta (\<lambda>db. unit_result (record_validation_results run_id all_findings db)))) (\<lambda>_.
     tx_bind (tx_exec (on_meta (\<lambda>db. unit_result (record_rejected_records run_id file_id batch_id rejected db)))) (\<lambda>_.
     tx_bind (tx_own (put_report (report_key (ds_dataset cfg) run_id)
       \<lparr>rt_run_id = run_id, rt_dataset = ds_dataset cfg, rt_file_id = file_id, rt_batch_id = batch_id,
        rt_generated_at = sw_finished_at w, rt_validation_results = all_findings,
        rt_rejected_records = rejected\<rparr>)) (\<lambda>_.
     tx_return (''s3://validated/'' @ report_key (ds_dataset cfg) run_id)))))))"

section \<open>Promotion to the durable bronze table\<close>

definition durable_ok :: "string \<Rightarrow> string list \<Rightarrow> meta_db \<Rightarrow> staged_row \<Rightarrow> bool" where
  "durable_ok dataset columns db s \<longleftrightarrow>
     list_all (\<lambda>c. \<not> (\<exists>i \<in> set [0..<length columns]. columns ! i = c \<and> sg_fields s ! i = CNone))
       (case map_of durable_not_null dataset of None \<Rightarrow> [] | Some cs \<Rightarrow> cs) \<and>
     run_known db (sg_run_id s) \<and> file_known db (sg_file_id s) \<and> fk_ok (batch_known db) (sg_batch_id s)"

definition append_bronze :: "string \<Rightarrow> string list \<Rightarrow> staged_row list \<Rightarrow> lake \<Rightarrow> exn + lake \<times> unit" where
  "append_bronze dataset columns staged l =
     (if list_all (durable_ok dataset columns (lk_meta l)) staged
      then Inr (l\<lparr>lk_bronze := lk_bronze l @ staged\<rparr>, ())
      else Inl (Exn DatabaseError []))"

definition raw_bronze_spec :: "run_context \<Rightarrow> int \<Rightarrow> staging_result \<Rightarrow> reconciliation_spec" where
  "raw_bronze_spec cx dataset_id res =
     \<lparr>rn_dataset_id = dataset_id, rn_file_id = cx_file_id cx, rn_hop = ''raw_bronze'',
      rn_input_count = st_rows_read res, rn_output_count = st_rows_parsed res,
      rn_rejected_count = st_rows_rejected res, rn_dedup_count = 0,
      rn_expected_row_count = cx_batch_expected_row_count cx, rn_measures = no_columns\<rparr>"

definition promote_to_durable_bronze :: "dataset_config \<Rightarrow> string list \<Rightarrow> run_context \<Rightarrow> staging_result \<Rightarrow>
    staged_row list \<Rightarrow> (lake, int) tx" where
  "promote_to_durable_bronze cfg columns cx res staged =
     tx_bind (tx_exec (append_bronze (ds_dataset cfg) columns staged)) (\<lambda>_.
     tx_bind (tx_own (own_meta (get_or_create_dataset (ds_dataset cfg)))) (\<lambda>dataset_id.
     tx_exec (on_meta (record_reconciliation (raw_bronze_spec cx dataset_id res)))))"

section \<open>One staging attempt\<close>

record staged_outcome =
  so_result :: staging_result
  so_rejected :: "rejected_record list"
  so_report_uri :: string

text \<open>The body of \<open>with ctx.db.connection() as staging_conn\<close>.\<close>

definition staging_transaction :: "stage_world \<Rightarrow> dataset_config \<Rightarrow> run_context \<Rightarrow> int \<Rightarrow> int \<Rightarrow> int \<Rightarrow> string list \<Rightarrow>
    (lake, staged_outcome) tx" where
  "staging_transaction w cfg cx run_id file_id batch_id columns =
     tx_bind (tx_lift (staging_load_from (sw_env w) cfg
       \<lparr>ri_run_id = cx_run_id cx, ri_file_id = file_id, ri_batch_id = Some batch_id\<rparr> columns (sw_source w))) (\<lambda>(staged, res).
     tx_bind (tx_lift (apply_referential_barrier (sw_to_int w) (sw_tables w) columns cfg staged)) (\<lambda>(kept, orphans, findings).
     let all_rejected = st_rejected_records res @ orphans in
     tx_bind (quality_gate_and_persist w cfg run_id file_id batch_id res all_rejected findings) (\<lambda>uri.
     tx_bind (promote_to_durable_bronze cfg columns cx res kept) (\<lambda>_.
     tx_return \<lparr>so_result = res, so_rejected = all_rejected, so_report_uri = uri\<rparr>))))"

definition staged_columns :: "stage_world \<Rightarrow> staged_outcome \<Rightarrow> (string \<times> sql_value) list" where
  "staged_columns w out =
     [(''finished_at'', SqlTime (sw_finished_at w)), (''duration_ms'', SqlInt (sw_duration_ms w)),
      (''rows_read'', SqlInt (st_rows_read (so_result out))),
      (''rows_parsed'', SqlInt (st_rows_parsed (so_result out))),
      (''rows_invalid'', SqlInt (st_rows_rejected (so_result out))),
      (''report_uri'', SqlText (so_report_uri out)), (''schema_version_id'', int_value (sw_schema_version w))]"

definition staged_receipt :: "stage_world \<Rightarrow> int \<Rightarrow> staged_outcome \<Rightarrow> receipt" where
  "staged_receipt w run_id out =
     \<lparr>rp_run_id = run_id, rp_status = ''STAGED'', rp_rows_read = st_rows_read (so_result out), rp_rows_loaded = 0,
      rp_rows_invalid = st_rows_rejected (so_result out), rp_rows_deduplicated = 0,
      rp_duration_ms = sw_duration_ms w, rp_rows_quarantined = int (length (so_rejected out)),
      rp_report_uri = Some (so_report_uri out)\<rparr>"

text \<open>The \<open>finally\<close> of a failed attempt, \<open>_release_failed_claim\<close>.\<close>

definition release_failed_claim :: "stage_world \<Rightarrow> run_context \<Rightarrow> int \<Rightarrow> lake \<Rightarrow> lake" where
  "release_failed_claim w cx run_id l =
     l\<lparr>lk_meta := fst (fail_ingestion_run_claim (sw_released_at w) run_id (ca_pod_name (cx_claim cx)) (lk_meta l))\<rparr>"

definition stage_claimed :: "stage_world \<Rightarrow> dataset_config \<Rightarrow> run_context \<Rightarrow> int \<Rightarrow> lake \<Rightarrow> (exn + receipt) \<times> lake" where
  "stage_claimed w cfg cx run_id l0 =
     (let l = l0\<lparr>lk_meta := exec_all (sw_during w) (lk_meta l0)\<rparr>;
          failed = (\<lambda>e l. (Inl e, release_failed_claim w cx run_id l)) in
      case (cx_file_id cx, cx_batch_id cx) of
        (Some file_id, Some batch_id) \<Rightarrow>
          (case target_columns_for_dataset (ds_dataset cfg) of
             Inl e \<Rightarrow> failed e l
           | Inr columns \<Rightarrow>
               (case tx_run (staging_transaction w cfg cx run_id file_id batch_id columns) l of
                  (Inl e, l1) \<Rightarrow> failed e l1
                | (Inr out, l1) \<Rightarrow>
                    (let l2 = l1\<lparr>lk_meta := exec_all (sw_after_commit w) (lk_meta l1)\<rparr> in
                     case update_ingestion_run_status run_id ''STAGED'' (staged_columns w out) (lk_meta l2) of
                       Inl e \<Rightarrow> failed e l2
                     | Inr db \<Rightarrow> (Inr (staged_receipt w run_id out), l2\<lparr>lk_meta := db\<rparr>))))
      | _ \<Rightarrow> failed (dp_error DataPlatformError
          [(''run_id'', VInt run_id), (''idempotency_key'', VStr (cx_idempotency_key cx))]) l)"

definition stage_ingest :: "stage_world \<Rightarrow> dataset_config \<Rightarrow> run_context \<Rightarrow> int \<Rightarrow> int \<Rightarrow> int \<Rightarrow> (nat \<Rightarrow> poll) \<Rightarrow>
    lake \<Rightarrow> ((exn + receipt) \<times> lake) option" where
  "stage_ingest w cfg cx now start wait polls l =
     (case claim_or_await cx now (lk_meta l) start wait polls of
        None \<Rightarrow> None
      | Some (Inl e) \<Rightarrow> Some (Inl e, l)
      | Some (Inr (Skipped rc)) \<Rightarrow> Some (Inr rc, l)
      | Some (Inr (Claimed db run_id)) \<Rightarrow> Some (stage_claimed w cfg cx run_id (l\<lparr>lk_meta := db\<rparr>)))"

section \<open>What the transaction does\<close>

lemma tx_bind_Inr:
  "tx_bind m f s = (Inr y, s') \<longleftrightarrow> (\<exists>x s1. m s = (Inr x, s1) \<and> f x s1 = (Inr y, s'))"
  by (auto simp: tx_bind_def split: prod.splits sum.splits)

lemma tx_lift_Inr [simp]: "tx_lift r s = (Inr x, s') \<longleftrightarrow> r = Inr x \<and> s' = s"
  by (auto simp: tx_lift_def)

lemma tx_return_Inr [simp]: "tx_return y s = (Inr x, s') \<longleftrightarrow> x = y \<and> s' = s"
  by (auto simp: tx_return_def)

lemma tx_query_committed_Inr [simp]:
  "tx_query_committed q (c, w) = (Inr x, s') \<longleftrightarrow> q c = Inr x \<and> s' = (c, w)"
  by (auto simp: tx_query_committed_def)

lemma tx_own_Inr [simp]:
  "tx_own f (c, w) = (Inr x, s') \<longleftrightarrow> x = snd (f c) \<and> s' = (fst (f c), fst (f w))"
  by (auto simp: tx_own_def)

lemma tx_exec_Inr [simp]:
  "tx_exec f (c, w) = (Inr x, s') \<longleftrightarrow> (\<exists>w'. f w = Inr (w', x) \<and> s' = (c, w'))"
  by (auto simp: tx_exec_def split: sum.splits)

lemmas tx_Inr = tx_bind_Inr tx_lift_Inr tx_return_Inr tx_query_committed_Inr tx_own_Inr tx_exec_Inr

lemma on_meta_Inr: "on_meta f l = Inr (l', x) \<longleftrightarrow> (\<exists>db. f (lk_meta l) = Inr (db, x) \<and> l' = l\<lparr>lk_meta := db\<rparr>)"
  by (auto simp: on_meta_def split: sum.splits)

lemma unit_result_Inr: "unit_result r = Inr (s, u) \<longleftrightarrow> r = Inr s"
  by (cases r) (auto simp: unit_result_def)

text \<open>The bookkeeping of the gate touches neither bronze nor the runs.\<close>

definition same_work :: "lake \<Rightarrow> lake \<Rightarrow> bool" where
  "same_work l l' \<longleftrightarrow> lk_bronze l' = lk_bronze l \<and> md_runs (lk_meta l') = md_runs (lk_meta l)"

lemma same_work_refl [intro, simp]: "same_work l l" by (simp add: same_work_def)

lemma same_work_trans: "same_work a b \<Longrightarrow> same_work b c \<Longrightarrow> same_work a c" by (simp add: same_work_def)

lemma own_dataset_simps [simp]:
  "lk_bronze (fst (own_meta (get_or_create_dataset d) l)) = lk_bronze l"
  "md_runs (lk_meta (fst (own_meta (get_or_create_dataset d) l))) = md_runs (lk_meta l)"
  by (simp_all add: own_meta_def get_or_create_dataset_def draw_id_def Let_def split: prod.split)

lemma put_report_simps [simp]:
  "lk_bronze (fst (put_report k r l)) = lk_bronze l" "lk_meta (fst (put_report k r l)) = lk_meta l"
  by (simp_all add: put_report_def)

lemma same_work_own [simp]:
  "same_work l (fst (own_meta (get_or_create_dataset d) l))" "same_work l (fst (put_report k r l))"
  by (simp_all add: same_work_def)

lemma validation_same_work: "record_validation_results i rs db = Inr db' \<Longrightarrow> md_runs db' = md_runs db"
  by (auto simp: record_validation_results_def split: if_splits)

lemma rejected_same_work: "record_rejected_records i f b rs db = Inr db' \<Longrightarrow> md_runs db' = md_runs db"
  by (auto simp: record_rejected_records_def split: if_splits)

lemma reconciliation_same_work: "record_reconciliation s db = Inr (db', i) \<Longrightarrow> md_runs db' = md_runs db"
  by (auto simp: record_reconciliation_def Let_def draw_id_def split: if_splits)

lemma quality_gate_Inr:
  assumes "quality_gate_and_persist w cfg run_id file_id batch_id res rejected findings (c, l) = (Inr uri, (c', l'))"
  shows "same_work c c' \<and> same_work l l'"
  using assms
  by (auto simp: quality_gate_and_persist_def tx_Inr Let_def on_meta_Inr unit_result_Inr same_work_def
      dest!: validation_same_work rejected_same_work)

lemma promote_Inr:
  assumes "promote_to_durable_bronze cfg columns cx res staged (c, l) = (Inr i, (c', l'))"
  shows "lk_bronze l' = lk_bronze l @ staged \<and> md_runs (lk_meta l') = md_runs (lk_meta l) \<and> same_work c c'"
  using assms
  by (auto simp: promote_to_durable_bronze_def tx_Inr append_bronze_def on_meta_Inr same_work_def
      dest!: reconciliation_same_work split: if_splits)

lemma staging_transaction_Inr:
  assumes "staging_transaction w cfg cx run_id file_id batch_id columns (c, l) = (Inr out, (c', l'))"
  shows "\<exists>chunks staged kept orphans findings. sw_source w = Inr (chunks, None) \<and> staging_load (sw_env w) cfg
       \<lparr>ri_run_id = cx_run_id cx, ri_file_id = file_id, ri_batch_id = Some batch_id\<rparr> columns chunks =
         Inr (staged, so_result out) \<and>
     apply_referential_barrier (sw_to_int w) (sw_tables w) columns cfg staged = Inr (kept, orphans, findings) \<and>
     so_rejected out = st_rejected_records (so_result out) @ orphans \<and>
     lk_bronze l' = lk_bronze l @ kept \<and> md_runs (lk_meta l') = md_runs (lk_meta l) \<and> same_work c c'"
  using assms
  by (fastforce simp: staging_transaction_def tx_Inr Let_def same_work_def staging_load_from_Inr
      dest!: quality_gate_Inr promote_Inr split: prod.splits)

text \<open>On its own connections the transaction only looks up the dataset and puts the report.\<close>

definition quiet :: "lake \<Rightarrow> lake \<Rightarrow> bool" where
  "quiet l l' \<longleftrightarrow> same_work l l' \<and> (meta_inv (lk_meta l) \<longrightarrow> meta_inv (lk_meta l'))"

lemma quiet_refl [intro, simp]: "quiet l l" by (simp add: quiet_def)

lemma quiet_trans: "quiet a b \<Longrightarrow> quiet b c \<Longrightarrow> quiet a c"
  by (auto simp: quiet_def intro: same_work_trans)

lemma quiet_own [simp]:
  "quiet l (fst (own_meta (get_or_create_dataset d) l))" "quiet l (fst (put_report k r l))"
  using meta_inv_step [of "OpDataset d" "lk_meta l"] by (simp_all add: quiet_def own_meta_def put_report_def same_work_def
      get_or_create_dataset_def draw_id_def Let_def split: prod.split)

lemma staging_transaction_keeps:
  "tx_keeps quiet (staging_transaction w cfg cx run_id file_id batch_id columns)"
  unfolding staging_transaction_def quality_gate_and_persist_def promote_to_durable_bronze_def Let_def split_beta
  by (intro tx_keeps_bind [OF quiet_trans] tx_keeps_pure tx_keeps_own quiet_refl quiet_own; assumption?)

section \<open>Staging is all or nothing\<close>

lemma staged_columns_updatable: "\<not> list_ex (\<lambda>(k, v). k \<notin> set updatable_fields) (staged_columns w out)"
  by (simp add: staged_columns_def updatable_fields_def)

text \<open>The barrier keeps or reports every staged row.\<close>

lemma barrier_conserves:
  assumes "apply_referential_barrier to_int tables columns cfg staged = Inr (kept, orphans, findings)"
    and "distinct (map sg_source_row_number staged)"
  shows "length kept + length orphans = length staged \<and> (\<exists>P. kept = filter P staged)"
proof (cases "find_quality_rule cfg ''REFERENTIAL''")
  case None
  then show ?thesis using assms(1) filter_True [of staged "\<lambda>_. True"]
    by (auto simp: apply_referential_barrier_def intro!: exI [of _ "\<lambda>_. True"])
next
  case (Some rule)
  obtain column target targets where c: "qr_column rule = Some column"
      "map_of (qr_params rule) ''target_table'' = Some (VStr target)" "tables target column = Some targets"
    using assms(1) Some
    by (auto simp: apply_referential_barrier_def referential_apply_def py_str_def
        split: option.splits pyval.splits sum.splits)
  show ?thesis using referential_removes_orphans [OF Some c assms] by blast
qed

lemma status_after_update:
  assumes "r \<in> set (md_runs d)" and "ir_id r = i"
  shows "get_ingestion_run_status i (update_runs (\<lambda>r. ir_id r = i)
    (\<lambda>r. r\<lparr>ir_status := s, ir_columns := f r\<rparr>) d) = Some s"
proof -
  let ?g = "\<lambda>r. if ir_id r = i then r\<lparr>ir_status := s, ir_columns := f r\<rparr> else r"
  obtain x where x: "find (\<lambda>r. ir_id r = i) (md_runs d) = Some x"
    using assms by (cases "find (\<lambda>r. ir_id r = i) (md_runs d)") (auto simp: find_None_iff)
  have "find (\<lambda>r. ir_id r = i) (map ?g (md_runs d)) = map_option ?g (find (\<lambda>r. ir_id r = i) (md_runs d))"
    by (rule find_map_same) simp
  then show ?thesis using x find_SomeD [OF x]
    by (simp add: get_ingestion_run_status_def find_run_def update_runs_def)
qed

text \<open>A successful attempt, with the rows it kept.\<close>

lemma attempt_accounts:
  assumes "stage_claimed w cfg cx run_id l = (Inr rc, l')" and "run_known (lk_meta l) run_id"
  shows "\<exists>chunks kept. sw_source w = Inr (chunks, None) \<and>
    lk_bronze l' = lk_bronze l @ kept \<and> (\<forall>s \<in> set kept. sg_run_id s = cx_run_id cx) \<and>
    rp_rows_read rc = (\<Sum>c\<leftarrow>chunks. chunk_len c) \<and>
    rp_rows_read rc = int (length kept) + rp_rows_quarantined rc \<and>
    distinct (map sg_source_row_number kept) \<and>
    rp_status rc = ''STAGED'' \<and> get_ingestion_run_status run_id (lk_meta l') = Some ''STAGED''"
proof -
  obtain file_id batch_id where ids: "cx_file_id cx = Some file_id" "cx_batch_id cx = Some batch_id"
    using assms(1) by (auto simp: stage_claimed_def Let_def split: option.splits)
  obtain columns where cols: "target_columns_for_dataset (ds_dataset cfg) = Inr columns"
    using assms(1) ids by (cases "target_columns_for_dataset (ds_dataset cfg)") (simp_all add: stage_claimed_def)
  define l1 where "l1 = l\<lparr>lk_meta := exec_all (sw_during w) (lk_meta l)\<rparr>"
  let ?T = "staging_transaction w cfg cx run_id file_id batch_id columns"
  obtain out l2 where run: "tx_run ?T l1 = (Inr out, l2)"
    using assms(1) ids cols by (cases "tx_run ?T l1"; cases "fst (tx_run ?T l1)") (simp_all add: stage_claimed_def l1_def)
  obtain c where t: "?T (l1, l1) = (Inr out, (c, l2))"
    using run by (cases ?T l1 rule: tx_run_cases) simp_all
  define db where "db = update_runs (\<lambda>r. ir_id r = run_id) (\<lambda>r. r\<lparr>ir_status := ''STAGED'',
      ir_columns := set_columns (staged_columns w out) (ir_columns r)\<rparr>) (exec_all (sw_after_commit w) (lk_meta l2))"
  have result: "rc = staged_receipt w run_id out" "lk_bronze l' = lk_bronze l2" "lk_meta l' = db"
    using assms(1) ids cols run staged_columns_updatable [of w out]
    by (auto simp: stage_claimed_def Let_def l1_def update_ingestion_run_status_def db_def)
  obtain chunks staged kept orphans findings where source: "sw_source w = Inr (chunks, None)"
    and load: "staging_load (sw_env w) cfg
       \<lparr>ri_run_id = cx_run_id cx, ri_file_id = file_id, ri_batch_id = Some batch_id\<rparr> columns chunks =
         Inr (staged, so_result out)"
    and barrier: "apply_referential_barrier (sw_to_int w) (sw_tables w) columns cfg staged = Inr (kept, orphans, findings)"
    and rej: "so_rejected out = st_rejected_records (so_result out) @ orphans"
    and bronze: "lk_bronze l2 = lk_bronze l1 @ kept" and runs: "md_runs (lk_meta l2) = md_runs (lk_meta l1)"
    using staging_transaction_Inr [OF t] by blast
  note acc = staging_accounts_for_every_row [OF load]
  have dist: "distinct (map sg_source_row_number staged)"
    using acc by (simp add: distinct_map inj_on_def)
  obtain P where kept: "kept = filter P staged" and split: "length kept + length orphans = length staged"
    using barrier_conserves [OF barrier dist] by blast
  have known: "\<exists>r \<in> set (md_runs (exec_all ops d)). ir_id r = run_id" if "run_known d run_id" for ops d
  proof -
    from that obtain r where "r \<in> set (md_runs d)" "ir_id r = run_id" by (auto simp: run_known_def)
    then show ?thesis using exec_all_row [where P = "\<lambda>r. ir_id r = run_id"] by simp
  qed
  have "run_known (lk_meta l2) run_id" using known [OF assms(2)] runs by (auto simp: run_known_def l1_def)
  from known [OF this] obtain r where "r \<in> set (md_runs (exec_all (sw_after_commit w) (lk_meta l2)))" "ir_id r = run_id"
    by blast
  then have staged_status: "get_ingestion_run_status run_id db = Some ''STAGED''"
    unfolding db_def by (rule status_after_update)
  have num: "st_rows_read (so_result out) = int (length kept) + int (length (so_rejected out))"
    using acc split by (simp add: rej)
  have "distinct (map sg_source_row_number kept)" unfolding kept using dist by (rule distinct_map_filter)
  moreover have "\<forall>s \<in> set kept. sg_run_id s = cx_run_id cx" using acc by (auto simp: kept)
  moreover have "st_rows_read (so_result out) = (\<Sum>c\<leftarrow>chunks. chunk_len c)" using acc by blast
  ultimately show ?thesis using result bronze num staged_status source
    by (intro exI [of _ chunks] exI [of _ kept]) (simp add: staged_receipt_def l1_def)
qed


text \<open>What a failed attempt leaves: what was committed, with the pod's own claim released.\<close>

lemma stage_failed:
  assumes "stage_claimed w cfg cx run_id l = (Inl e, l')"
  shows "\<exists>l1. quiet (l\<lparr>lk_meta := exec_all (sw_during w) (lk_meta l)\<rparr>) l1 \<and> l' = release_failed_claim w cx run_id l1"
proof -
  define l0 where "l0 = l\<lparr>lk_meta := exec_all (sw_during w) (lk_meta l)\<rparr>"
  show ?thesis
  proof (cases "\<exists>file_id batch_id columns. cx_file_id cx = Some file_id \<and> cx_batch_id cx = Some batch_id \<and>
      target_columns_for_dataset (ds_dataset cfg) = Inr columns")
    case False
    then have "l' = release_failed_claim w cx run_id l0"
      using assms by (auto simp: stage_claimed_def Let_def l0_def split: option.splits sum.splits)
    then show ?thesis unfolding l0_def [symmetric] by blast
  next
    case True
    then obtain file_id batch_id columns where ids: "cx_file_id cx = Some file_id" "cx_batch_id cx = Some batch_id"
      "target_columns_for_dataset (ds_dataset cfg) = Inr columns" by blast
    let ?T = "staging_transaction w cfg cx run_id file_id batch_id columns"
    obtain l1 where l1: "tx_run ?T l0 = (Inl e, l1)" "l' = release_failed_claim w cx run_id l1"
    proof (cases "fst (tx_run ?T l0)")
      case (Inl e')
      then show thesis using assms ids that
        by (cases "tx_run ?T l0") (simp add: stage_claimed_def l0_def [symmetric])
    next
      case (Inr out)
      then show thesis using assms ids staged_columns_updatable [of w out]
        by (cases "tx_run ?T l0")
          (simp add: stage_claimed_def l0_def [symmetric] update_ingestion_run_status_def Let_def)
    qed
    have "quiet l0 l1" using tx_keeps_run(1) [OF staging_transaction_keeps, of w cfg cx run_id file_id batch_id columns l0 e] l1(1)
      by simp
    then show ?thesis using l1(2) unfolding l0_def by blast
  qed
qed


section \<open>A sample attempt\<close>

definition sample_orders_config :: dataset_config where
  "sample_orders_config = (sample_config (Some \<lparr>qc_rules = [sample_rule], qc_rejection_rate_threshold = Some (9 / 10)\<rparr>))
     \<lparr>ds_dataset := ''orders'', ds_columns := []\<rparr>"

definition sample_world :: "chunk list \<Rightarrow> stage_world" where
  "sample_world chunks = \<lparr>sw_env = sample_env, sw_source = Inr (chunks, None), sw_to_int = py_int,
     sw_tables = (\<lambda>_ _. Some [Some 7]), sw_average = (\<lambda>_. 0), sw_finished_at = 50, sw_duration_ms = 1,
     sw_released_at = 60, sw_schema_version = None,
     sw_during = [OpHeartbeat 1 (20 + lease_us) 2 2, OpClaim 30 ''k'' (sample_claim ''pod-b'')],
     sw_after_commit = []\<rparr>"

definition sample_order_chunks :: "chunk list" where
  "sample_order_chunks = [\<lparr>rc_rows = [[CStr ''1'', CStr ''7'', CStr '''', CStr ''5''], [CStr ''2'', CStr ''8'', CStr '''', CStr ''6''],
     [CStr ''3'']], rc_first_ordinal = 0, rc_expected_field_count = 4\<rparr>]"

definition sample_attempt :: run_context where
  "sample_attempt = sample_context\<lparr>cx_claim := sample_claim ''pod-a''\<rparr>"

definition sample_lake :: lake where
  "sample_lake = \<lparr>lk_meta = fst (claim_ingestion_run 10 ''k'' (sample_claim ''pod-a'') sample_meta),
     lk_bronze = [], lk_reports = []\<rparr>"



text \<open>
  The commit and the status update are two transactions.  A pod that dies between them leaves the run
  RUNNING with its rows promoted; when its lease has ended the next attempt appends them again.
\<close>

lemma restaged_after_crash_duplicates:
  "let T = staging_transaction (sample_world sample_order_chunks) sample_orders_config sample_attempt 1 1 1
         [''order_id'', ''customer_id'', ''order_date'', ''amount''];
       l1 = snd (tx_run T sample_lake);
       l2 = l1\<lparr>lk_meta := fst (claim_ingestion_run (11 + lease_us) ''k'' (sample_claim ''pod-b'') (lk_meta l1))\<rparr>
   in get_ingestion_run_status 1 (lk_meta l1) = Some ''RUNNING'' \<and>
      map sg_source_row_number (lk_bronze (snd (stage_claimed ((sample_world sample_order_chunks)\<lparr>sw_during := []\<rparr>)
        sample_orders_config (sample_attempt\<lparr>cx_claim := sample_claim ''pod-b''\<rparr>) 1 l2))) = [1, 1]"
  by code_simp

text \<open>
  The \<open>raw_bronze\<close> reconciliation counts the rows parsed, not the rows promoted: rows the referential
  barrier removed are missing from bronze while the discrepancy is 0.
\<close>

lemma raw_bronze_discrepancy_misses_orphans:
  "let l' = snd (stage_claimed (sample_world sample_order_chunks) sample_orders_config sample_attempt 1 sample_lake)
   in map (\<lambda>r. (rl_output_count r, rl_rejected_count r, rl_discrepancy r)) (md_reconciliations (lk_meta l')) = [(2, 1, 0)] \<and>
      length (lk_bronze l') = 1"
  by code_simp

end
