(* ===== verification/ScdPublish.thy ===== *)
theory ScdPublish
  imports Publish PyDates
begin

text \<open>
  The SCD publisher (\<open>load/publish/scd.py\<close>) with its delete detection
  (\<open>scd/delete_detection.py\<close>) on the durable bronze table and the versioned customers table.
  The exclusion constraint of the gold table (no two overlapping validity ranges of one customer,
  no range that ends before it starts) is checked where PostgreSQL checks it; a violation is a
  \<open>DatabaseError\<close>.
\<close>

section \<open>The tables\<close>

record bronze_row =
  bt_customer_id :: "string option"
  bt_name :: "string option"
  bt_country :: "string option"
  bt_birth_date :: "string option"
  bt_signup_country :: "string option"
  bt_event_ts :: int
  bt_run_id :: int
  bt_file_id :: int
  bt_batch_id :: int
  bt_source_row_number :: int
  bt_record_hash :: string
  bt_record_hash_version :: int

record gold_row = version_row +
  gd_run_id :: int
  gd_file_id :: int
  gd_batch_id :: int
  gd_source_row_number :: int
  gd_record_hash :: string
  gd_record_hash_version :: int

record warehouse =
  wh_bronze :: "bronze_row list"
  wh_gold :: "gold_row list"
  wh_quarantined :: "int list"

definition range_ok :: "gold_row \<Rightarrow> bool" where
  "range_ok g \<longleftrightarrow> vw_valid_from g \<le> vw_valid_to g"

definition overlaps :: "gold_row \<Rightarrow> gold_row \<Rightarrow> bool" where
  "overlaps a b \<longleftrightarrow> vw_customer_id a = vw_customer_id b \<and>
     vw_valid_from a < vw_valid_to a \<and> vw_valid_from b < vw_valid_to b \<and>
     vw_valid_from a < vw_valid_to b \<and> vw_valid_from b < vw_valid_to a"

definition gold_ok :: "gold_row list \<Rightarrow> bool" where
  "gold_ok gold \<longleftrightarrow> list_all range_ok gold \<and> sorted_wrt (\<lambda>a b. \<not> overlaps a b) gold"

definition insert_gold :: "gold_row \<Rightarrow> gold_row list \<Rightarrow> exn + gold_row list" where
  "insert_gold g gold =
     (if range_ok g \<and> list_all (\<lambda>b. \<not> overlaps b g) gold then Inr (gold @ [g])
      else Inl (Exn DatabaseError []))"

fun insert_all :: "gold_row list \<Rightarrow> gold_row list \<Rightarrow> exn + gold_row list" where
  "insert_all [] gold = Inr gold"
| "insert_all (g # gs) gold =
     (case insert_gold g gold of Inl e \<Rightarrow> Inl e | Inr gold' \<Rightarrow> insert_all gs gold')"

section \<open>Delete detection\<close>

definition staged_rows :: "warehouse \<Rightarrow> int list \<Rightarrow> bronze_row list" where
  "staged_rows wh ids = filter (\<lambda>r. bt_run_id r \<in> set ids) (wh_bronze wh)"

definition run_max_event_ts :: "bronze_row list \<Rightarrow> int \<Rightarrow> int" where
  "run_max_event_ts rs run = Max (bt_event_ts ` set (filter (\<lambda>r. bt_run_id r = run) rs))"

text \<open>\<open>staged_snapshot\<close>: the keys of the runs whose own latest event is the latest of the pass.\<close>

definition staged_snapshot :: "warehouse \<Rightarrow> int list \<Rightarrow> string list" where
  "staged_snapshot wh ids =
     (let rs = filter (\<lambda>r. bt_customer_id r \<noteq> None) (staged_rows wh ids);
          fresh = filter (\<lambda>r. run_max_event_ts rs (bt_run_id r) = Max (bt_event_ts ` set rs)) rs
      in remdups (map (\<lambda>r. the (bt_customer_id r)) fresh))"

definition bronze_known :: "warehouse \<Rightarrow> string \<Rightarrow> bool" where
  "bronze_known wh key \<longleftrightarrow> Some key \<in> bt_customer_id ` set (wh_bronze wh)"

definition find_vanished_customer_ids :: "warehouse \<Rightarrow> int list \<Rightarrow> string list" where
  "find_vanished_customer_ids wh ids =
     remdups (filter (\<lambda>key. bronze_known wh key \<and> key \<notin> set (staged_snapshot wh ids))
       (map (\<lambda>g. show_int (vw_customer_id g)) (filter vw_is_current (wh_gold wh))))"

definition mass_delete_apply :: "rat \<Rightarrow> int \<Rightarrow> int \<Rightarrow> string \<Rightarrow> exn + stage_result" where
  "mass_delete_apply threshold current_count vanished_count rule_id =
     (if current_count = 0
      then Inr (barrier_result
        \<lparr>vr_rule_id = rule_id, vr_outcome = ''PASS'',
         vr_message = Msg ''no current customers; ratio trivially within threshold'' [],
         vr_rule_type = ''QUALITY'', vr_severity = ''ERROR'',
         vr_evaluated_count = 0, vr_failed_count = 0,
         vr_threshold = [(''mass_delete_threshold'', VFloat threshold)],
         vr_observed = [(''ratio'', VFloat 0)]\<rparr>)
      else
        (let ratio = float_div vanished_count current_count in
         if threshold < ratio
         then Inl (dp_error QualityThresholdExceeded
           [(''rule_id'', VStr rule_id), (''observed_ratio'', VFloat ratio),
            (''threshold'', VFloat threshold), (''current_count'', VInt current_count),
            (''vanished_count'', VInt vanished_count)])
         else Inr (barrier_result
           \<lparr>vr_rule_id = rule_id, vr_outcome = ''PASS'',
            vr_message = Msg ''mass-delete ratio within threshold'' [],
            vr_rule_type = ''QUALITY'', vr_severity = ''ERROR'',
            vr_evaluated_count = current_count, vr_failed_count = vanished_count,
            vr_threshold = [(''mass_delete_threshold'', VFloat threshold)],
            vr_observed = [(''ratio'', VFloat ratio)]\<rparr>)))"

section \<open>Acting on the vanished keys\<close>

definition is_target :: "string list \<Rightarrow> gold_row \<Rightarrow> bool" where
  "is_target vanished g \<longleftrightarrow> vw_is_current g \<and> show_int (vw_customer_id g) \<in> set vanished"

definition close_row :: "int \<Rightarrow> gold_row \<Rightarrow> gold_row" where
  "close_row snapshot g = g\<lparr>vw_valid_to := snapshot, vw_is_current := False\<rparr>"

definition reopened_row :: "int \<Rightarrow> int \<Rightarrow> gold_row \<Rightarrow> gold_row" where
  "reopened_row sentinel snapshot g =
     g\<lparr>vw_valid_from := snapshot, vw_valid_to := sentinel, vw_is_current := True\<rparr>"

definition valid_delete_semantics :: "string list" where
  "valid_delete_semantics = [''ignore'', ''invalidate'', ''new_record'']"

text \<open>The keys acted on come back once per row the statement returned.\<close>

definition apply_delete_semantics :: "int \<Rightarrow> string \<Rightarrow> string list \<Rightarrow> int \<Rightarrow> gold_row list \<Rightarrow>
    exn + gold_row list \<times> string list" where
  "apply_delete_semantics sentinel semantics vanished snapshot gold =
     (if semantics = ''ignore'' then Inr (gold, [])
      else if semantics \<notin> set valid_delete_semantics
      then Inl (dp_error ConfigurationError [(''delete_semantics'', VStr semantics)])
      else
        (let targets = filter (is_target vanished) gold;
             closed = map (\<lambda>g. if is_target vanished g then close_row snapshot g else g) gold;
             acted = map (\<lambda>g. show_int (vw_customer_id g)) targets
         in if \<not> gold_ok closed then Inl (Exn DatabaseError [])
            else if semantics = ''invalidate'' then Inr (closed, acted)
            else (case insert_all (map (reopened_row sentinel snapshot) targets) closed of
                    Inl e \<Rightarrow> Inl e | Inr gold' \<Rightarrow> Inr (gold', acted))))"

section \<open>Publishing\<close>

definition valid_to_sentinel :: int where
  "valid_to_sentinel = (to_ordinal \<lparr>cv_year = 9999, cv_month = 12, cv_day = 31\<rparr> - 1) * day_us"

definition lineage_of :: "int \<Rightarrow> bronze_row \<Rightarrow> lineage_row" where
  "lineage_of i r =
     \<lparr>bz_customer_id = i, bz_name = bt_name r, bz_country = bt_country r,
      bz_birth_date = bt_birth_date r, bz_signup_country = bt_signup_country r,
      bz_event_ts = bt_event_ts r, bz_source_row_number = bt_source_row_number r,
      bz_file_id = bt_file_id r, lr_run_id = bt_run_id r, lr_batch_id = bt_batch_id r,
      lr_record_hash = bt_record_hash r, lr_record_hash_version = bt_record_hash_version r\<rparr>"

definition bronze_history :: "(string \<Rightarrow> int option) \<Rightarrow> warehouse \<Rightarrow> string \<Rightarrow> exn + lineage_row list" where
  "bronze_history to_int wh key =
     traverse (\<lambda>r. case to_int key of None \<Rightarrow> Inl (Exn DatabaseError []) | Some i \<Rightarrow> Inr (lineage_of i r))
       (filter (\<lambda>r. bt_customer_id r = Some key \<and> bt_run_id r \<notin> set (wh_quarantined wh)) (wh_bronze wh))"

definition gold_of :: "version_row \<Rightarrow> lineage_row \<Rightarrow> gold_row" where
  "gold_of v l = version_row.extend v
     \<lparr>gd_run_id = lr_run_id l, gd_file_id = bz_file_id l, gd_batch_id = lr_batch_id l,
      gd_source_row_number = bz_source_row_number l, gd_record_hash = lr_record_hash l,
      gd_record_hash_version = lr_record_hash_version l\<rparr>"

text \<open>Delete the key's versions, insert the recomputed ones; the number of rows touched.\<close>

definition republish_key :: "(string \<Rightarrow> string) \<Rightarrow> (string \<Rightarrow> int option) \<Rightarrow> warehouse \<Rightarrow> string \<Rightarrow>
    gold_row list \<Rightarrow> exn + gold_row list \<times> nat" where
  "republish_key sha256 to_int wh key gold =
     (case bronze_history to_int wh key of
        Inl e \<Rightarrow> Inl e
      | Inr lineage_rows \<Rightarrow>
          (case recompute_version_chain sha256 valid_to_sentinel (map bronze_record.truncate lineage_rows) of
             Inl e \<Rightarrow> Inl e
           | Inr versions \<Rightarrow>
               (let version_lineage = select_lineage_rows sha256 lineage_rows in
                case to_int key of
                  None \<Rightarrow> Inl (Exn PyValueError [])
                | Some i \<Rightarrow>
                    (let kept = filter (\<lambda>g. vw_customer_id g \<noteq> i) gold in
                     if length versions \<noteq> length version_lineage then Inl (Exn PyValueError [])
                     else (case insert_all (map2 gold_of versions version_lineage) kept of
                             Inl e \<Rightarrow> Inl e
                           | Inr gold' \<Rightarrow>
                               Inr (gold', (length gold - length kept) + length versions))))))"

fun republish_all :: "(string \<Rightarrow> string) \<Rightarrow> (string \<Rightarrow> int option) \<Rightarrow> warehouse \<Rightarrow> string list \<Rightarrow>
    gold_row list \<Rightarrow> exn + gold_row list \<times> nat" where
  "republish_all sha256 to_int wh [] gold = Inr (gold, 0)"
| "republish_all sha256 to_int wh (key # keys) gold =
     (case republish_key sha256 to_int wh key gold of
        Inl e \<Rightarrow> Inl e
      | Inr (gold1, n) \<Rightarrow>
          (case republish_all sha256 to_int wh keys gold1 of
             Inl e \<Rightarrow> Inl e | Inr (gold2, m) \<Rightarrow> Inr (gold2, n + m)))"

text \<open>\<open>str(row[0])\<close> of the touched keys: a NULL id becomes the text \<open>None\<close>.\<close>

definition touched_keys :: "warehouse \<Rightarrow> int list \<Rightarrow> string list" where
  "touched_keys wh ids =
     (let ids' = map bt_customer_id (staged_rows wh ids) in
      sort (remdups (map the (filter (\<lambda>key. key \<noteq> None) ids'))) @
      (if None \<in> set ids' then [''None''] else []))"

definition current_count :: "warehouse \<Rightarrow> int" where
  "current_count wh =
     int (length (filter (\<lambda>g. vw_is_current g \<and> bronze_known wh (show_int (vw_customer_id g))) (wh_gold wh)))"

definition snapshot_max_event_ts :: "warehouse \<Rightarrow> int list \<Rightarrow> int option" where
  "snapshot_max_event_ts wh ids =
     (case staged_rows wh ids of [] \<Rightarrow> None
      | r # rs \<Rightarrow> Some (Max (bt_event_ts ` set (r # rs))))"

text \<open>\<open>ds_scd\<close>'s semantics are an enumeration; the function takes its text.\<close>

fun semantics_text :: "delete_semantics \<Rightarrow> string" where
  "semantics_text DeleteIgnore = ''ignore''"
| "semantics_text DeleteInvalidate = ''invalidate''"
| "semantics_text DeleteNewRecord = ''new_record''"

text \<open>
  A pass without any staged row has no snapshot instant; closing a row at NULL violates the
  NOT NULL column.
\<close>

definition scd_publish :: "(string \<Rightarrow> string) \<Rightarrow> (string \<Rightarrow> int option) \<Rightarrow> dataset_config \<Rightarrow> warehouse \<Rightarrow>
    int list \<Rightarrow> exn + warehouse \<times> publish_result" where
  "scd_publish sha256 to_int cfg wh ids =
     (case ds_scd cfg of
        None \<Rightarrow> Inl (dp_error ConfigurationError [(''dataset'', VStr (ds_dataset cfg))])
      | Some scd \<Rightarrow>
          (let vanished = find_vanished_customer_ids wh ids in
           case mass_delete_apply (sd_mass_delete_threshold scd) (current_count wh) (int (length vanished))
                  ''mass_delete_circuit_breaker'' of
             Inl e \<Rightarrow> Inl e
           | Inr _ \<Rightarrow>
               (case (if vanished = [] then Inr (wh_gold wh, [])
                      else case snapshot_max_event_ts wh ids of
                             None \<Rightarrow> (if sd_delete_semantics scd = DeleteIgnore then Inr (wh_gold wh, [])
                                      else Inl (Exn DatabaseError []))
                           | Some snapshot \<Rightarrow> apply_delete_semantics valid_to_sentinel
                               (semantics_text (sd_delete_semantics scd)) vanished snapshot (wh_gold wh)) of
                  Inl e \<Rightarrow> Inl e
                | Inr (gold1, acted) \<Rightarrow>
                    (let touched = filter (\<lambda>key. key \<notin> set vanished) (touched_keys wh ids) in
                     case republish_all sha256 to_int wh touched gold1 of
                       Inl e \<Rightarrow> Inl e
                     | Inr (gold2, n) \<Rightarrow>
                         Inr (wh\<lparr>wh_gold := gold2\<rparr>,
                              \<lparr>pb_rows_affected = length acted + n, pb_outcome = ''PUBLISHED'',
                               pb_published_business_keys = sort (remdups (acted @ touched))\<rparr>)))))"

section \<open>What a publication does to the gold table\<close>

definition rows_of :: "int \<Rightarrow> gold_row list \<Rightarrow> gold_row list" where
  "rows_of i gold = filter (\<lambda>g. vw_customer_id g = i) gold"

lemma insert_all_Inr: "insert_all gs gold = Inr gold' \<Longrightarrow> gold' = gold @ gs"
proof (induction gs arbitrary: gold)
  case (Cons g gs)
  then have "insert_all gs (gold @ [g]) = Inr gold'"
    by (auto simp: insert_gold_def split: if_splits)
  then show ?case using Cons.IH [of "gold @ [g]"] by simp
qed simp

lemma insert_gold_ok: "gold_ok gold \<Longrightarrow> insert_gold g gold = Inr gold' \<Longrightarrow> gold_ok gold'"
  by (auto simp: insert_gold_def gold_ok_def sorted_wrt_append list_all_iff split: if_splits)

lemma insert_all_ok: "gold_ok gold \<Longrightarrow> insert_all gs gold = Inr gold' \<Longrightarrow> gold_ok gold'"
  by (induction gs arbitrary: gold) (auto split: sum.splits dest: insert_gold_ok)

lemma gold_ok_filter: "gold_ok gold \<Longrightarrow> gold_ok (filter P gold)"
  by (auto simp: gold_ok_def sorted_wrt_filter list_all_iff)

lemma show_int_not_None: "show_int i \<noteq> ''None''"
proof
  assume "show_int i = ''None''"
  then have "CHR ''N'' \<in> set (show_nat (nat (- i))) \<or> CHR ''N'' \<in> set (show_nat (nat i))"
    by (auto simp: show_int_def split: if_splits)
  then have "is_digit CHR ''N''" using show_nat_digits by blast
  then show False by (simp add: is_digit_def)
qed

lemma bronze_history_ids:
  assumes "bronze_history to_int wh key = Inr h" and "to_int key = Some i" and "l \<in> set h"
  shows "bz_customer_id l = i"
  using traverse_mem [OF assms(1) [unfolded bronze_history_def] assms(3)] assms(2)
  by (auto simp: lineage_of_def)

lemma version_at_id:
  assumes "\<forall>r \<in> set h. bz_customer_id r = i" and "h \<noteq> []"
    and "recompute_version_chain sha256 sentinel h = Inr versions" and "v \<in> set versions"
  shows "vw_customer_id v = i"
proof -
  let ?hs = "map (row_hash sha256) (ordered_history h)"
  obtain p where p: "p < length (group_start_indices ?hs)"
    "v = version_at sentinel (ordered_history h) (group_start_indices ?hs) p"
    using assms(3,4) recompute_Inr [OF assms(2), of sha256 sentinel] by auto
  have "group_start_indices ?hs ! p < length (ordered_history h)"
    using starts_less [of ?hs p] p(1) assms(2) by simp
  then have "ordered_history h ! (group_start_indices ?hs ! p) \<in> set h"
    using nth_mem [of _ "ordered_history h"] by simp
  then show ?thesis using p(2) assms(1) by (simp add: version_at_def Let_def)
qed

lemma gold_of_simps [simp]:
  "vw_customer_id (gold_of v l) = vw_customer_id v"
  "vw_valid_from (gold_of v l) = vw_valid_from v"
  "vw_valid_to (gold_of v l) = vw_valid_to v"
  "vw_is_current (gold_of v l) = vw_is_current v"
  unfolding gold_of_def version_row.extend_def by simp_all

text \<open>One key is republished: its rows are the recomputed chain, nobody else's row moves.\<close>

lemma republish_key_spec:
  assumes "republish_key sha256 to_int wh key gold = Inr (gold', n)"
  shows "\<exists>i h versions. to_int key = Some i \<and> bronze_history to_int wh key = Inr h \<and>
    recompute_version_chain sha256 valid_to_sentinel (map bronze_record.truncate h) = Inr versions \<and>
    rows_of i gold' = map2 gold_of versions (select_lineage_rows sha256 h) \<and>
    (\<forall>j. j \<noteq> i \<longrightarrow> rows_of j gold' = rows_of j gold)"
proof -
  obtain h versions i where h: "bronze_history to_int wh key = Inr h"
    and v: "recompute_version_chain sha256 valid_to_sentinel (map bronze_record.truncate h) = Inr versions"
    and i: "to_int key = Some i"
    and ins: "insert_all (map2 gold_of versions (select_lineage_rows sha256 h))
      (filter (\<lambda>g. vw_customer_id g \<noteq> i) gold) = Inr gold'"
  proof (cases "bronze_history to_int wh key")
    case (Inr h)
    show thesis
    proof (cases "recompute_version_chain sha256 valid_to_sentinel (map bronze_record.truncate h)")
      case (Inr versions)
      obtain i where i: "to_int key = Some i"
        using assms \<open>bronze_history to_int wh key = Inr h\<close> Inr
        by (cases "to_int key") (simp_all add: republish_key_def Let_def)
      show thesis
      proof (rule that [OF \<open>bronze_history to_int wh key = Inr h\<close> Inr i])
        show "insert_all (map2 gold_of versions (select_lineage_rows sha256 h))
            (filter (\<lambda>g. vw_customer_id g \<noteq> i) gold) = Inr gold'"
          using assms
          unfolding republish_key_def Let_def \<open>bronze_history to_int wh key = Inr h\<close> Inr i sum.case option.case
          by (cases "insert_all (map2 gold_of versions (select_lineage_rows sha256 h))
            (filter (\<lambda>g. vw_customer_id g \<noteq> i) gold)") (simp_all split: if_splits)
      qed
    next
      case (Inl e)
      then show thesis using assms \<open>bronze_history to_int wh key = Inr h\<close> by (simp add: republish_key_def)
    qed
  next
    case (Inl e)
    then show thesis using assms by (simp add: republish_key_def)
  qed
  have ne: "map bronze_record.truncate h \<noteq> []"
    using v by (auto simp: recompute_version_chain_def)
  have "\<forall>r \<in> set (map bronze_record.truncate h). bz_customer_id r = i"
    using bronze_history_ids [OF h i] by (auto simp: bronze_record.truncate_def)
  then have vi: "vw_customer_id v = i" if "v \<in> set versions" for v
    using version_at_id [OF _ ne v that] by blast
  let ?new = "map2 gold_of versions (select_lineage_rows sha256 h)"
  have new: "vw_customer_id g = i" if g: "g \<in> set ?new" for g
  proof -
    obtain p where p: "p \<in> set (zip versions (select_lineage_rows sha256 h))" "g = (case p of (v, l) \<Rightarrow> gold_of v l)"
      using g unfolding set_map image_iff by blast
    obtain v l where vl: "p = (v, l)" by (rule prod.exhaust)
    have "v \<in> set versions" using p(1) unfolding vl by (rule set_zip_leftD)
    then have "vw_customer_id v = i" by (rule vi)
    then show ?thesis unfolding p(2) vl prod.case gold_of_simps .
  qed
  define new_rows where "new_rows = ?new"
  have new': "vw_customer_id g = i" if "g \<in> set new_rows" for g
    using that unfolding new_rows_def by (rule new)
  have gold': "gold' = filter (\<lambda>g. vw_customer_id g \<noteq> i) gold @ new_rows"
    unfolding new_rows_def by (rule insert_all_Inr [OF ins])
  have mine: "rows_of i gold' = new_rows"
    using new' by (simp add: gold' rows_of_def filter_id_conv)
  have others: "rows_of j gold' = rows_of j gold" if "j \<noteq> i" for j
  proof -
    have "filter (\<lambda>g. vw_customer_id g = j) new_rows = []" using new' that by (auto simp: filter_empty_conv)
    moreover have "filter (\<lambda>g. vw_customer_id g \<noteq> i \<and> vw_customer_id g = j) gold =
        filter (\<lambda>g. vw_customer_id g = j) gold" using that by (intro filter_cong) auto
    ultimately show ?thesis by (simp add: gold' rows_of_def)
  qed
  show ?thesis
    by (intro exI [of _ i] exI [of _ h] exI [of _ versions] conjI allI impI i h v others)
      (rule mine [unfolded new_rows_def])
qed

lemma republish_all_spec:
  assumes "republish_all sha256 to_int wh keys gold = Inr (gold', n)"
    and "distinct keys" and "inj_on to_int (set keys)"
  shows "(\<forall>key \<in> set keys. \<exists>i h versions. to_int key = Some i \<and> bronze_history to_int wh key = Inr h \<and>
      recompute_version_chain sha256 valid_to_sentinel (map bronze_record.truncate h) = Inr versions \<and>
      rows_of i gold' = map2 gold_of versions (select_lineage_rows sha256 h)) \<and>
    (\<forall>j. Some j \<notin> to_int ` set keys \<longrightarrow> rows_of j gold' = rows_of j gold)"
  using assms
proof (induction keys arbitrary: gold n)
  case Nil
  then show ?case by simp
next
  case (Cons key keys)
  obtain gold1 n1 n2 where one: "republish_key sha256 to_int wh key gold = Inr (gold1, n1)"
    and rest: "republish_all sha256 to_int wh keys gold1 = Inr (gold', n2)"
    using Cons.prems(1) by (auto split: sum.splits prod.splits)
  have "distinct keys" "inj_on to_int (set keys)" using Cons.prems by (auto intro: inj_on_subset)
  note ih = Cons.IH [OF rest this]
  obtain i h versions where i: "to_int key = Some i" and h: "bronze_history to_int wh key = Inr h"
    "recompute_version_chain sha256 valid_to_sentinel (map bronze_record.truncate h) = Inr versions"
    "rows_of i gold1 = map2 gold_of versions (select_lineage_rows sha256 h)"
    and other: "\<forall>j. j \<noteq> i \<longrightarrow> rows_of j gold1 = rows_of j gold"
    using republish_key_spec [OF one] by blast
  have "Some i \<notin> to_int ` set keys"
  proof
    assume "Some i \<in> to_int ` set keys"
    then obtain k where k: "k \<in> set keys" "to_int k = to_int key" using i by auto
    then have "k = key" using inj_onD [OF Cons.prems(3) k(2)] by simp
    then show False using Cons.prems(2) k by simp
  qed
  then have "rows_of i gold' = rows_of i gold1" using ih by blast
  then have "\<exists>i h versions. to_int key = Some i \<and> bronze_history to_int wh key = Inr h \<and>
      recompute_version_chain sha256 valid_to_sentinel (map bronze_record.truncate h) = Inr versions \<and>
      rows_of i gold' = map2 gold_of versions (select_lineage_rows sha256 h)"
    using i h by metis
  moreover have "rows_of j gold' = rows_of j gold" if "Some j \<notin> to_int ` set (key # keys)" for j
    using that ih other i by auto
  ultimately show ?case using ih by auto
qed

lemma republish_all_known:
  "republish_all sha256 to_int wh keys gold = Inr (gold', n) \<Longrightarrow> key \<in> set keys \<Longrightarrow> bronze_known wh key"
proof (induction keys arbitrary: gold n)
  case (Cons k keys)
  obtain gold1 n1 n2 where one: "republish_key sha256 to_int wh k gold = Inr (gold1, n1)"
    and rest: "republish_all sha256 to_int wh keys gold1 = Inr (gold', n2)"
    using Cons.prems(1) by (auto split: sum.splits prod.splits)
  show ?case
  proof (cases "key = k")
    case True
    obtain i h versions where h: "bronze_history to_int wh k = Inr h"
      and v: "recompute_version_chain sha256 valid_to_sentinel (map bronze_record.truncate h) = Inr versions"
      using republish_key_spec [OF one] by blast
    have "h \<noteq> []" using v by (auto simp: recompute_version_chain_def)
    then have "filter (\<lambda>r. bt_customer_id r = Some k \<and> bt_run_id r \<notin> set (wh_quarantined wh)) (wh_bronze wh) \<noteq> []"
      using traverse_length [OF h [unfolded bronze_history_def]] by (metis length_0_conv)
    then obtain r where "r \<in> set (wh_bronze wh)" "bt_customer_id r = Some k" by (auto simp: filter_empty_conv)
    then show ?thesis using True by (force simp: bronze_known_def)
  qed (use Cons.IH [OF rest] Cons.prems(2) in auto)
qed simp

text \<open>What a delete semantics makes of the rows of a vanished customer.\<close>

definition disposed :: "delete_semantics \<Rightarrow> int \<Rightarrow> gold_row list \<Rightarrow> gold_row list" where
  "disposed semantics snapshot rs =
     (case semantics of
        DeleteIgnore \<Rightarrow> rs
      | DeleteInvalidate \<Rightarrow> map (\<lambda>g. if vw_is_current g then close_row snapshot g else g) rs
      | DeleteNewRecord \<Rightarrow> map (\<lambda>g. if vw_is_current g then close_row snapshot g else g) rs @
          map (reopened_row valid_to_sentinel snapshot) (filter vw_is_current rs))"

lemma close_row_id [simp]: "vw_customer_id (close_row snapshot g) = vw_customer_id g"
  by (simp add: close_row_def)

lemma reopened_row_id [simp]: "vw_customer_id (reopened_row s t g) = vw_customer_id g"
  by (simp add: reopened_row_def)

lemma rows_of_closed:
  "rows_of i (map (\<lambda>g. if is_target vanished g then close_row snapshot g else g) gold) =
     (if show_int i \<in> set vanished
      then map (\<lambda>g. if vw_is_current g then close_row snapshot g else g) (rows_of i gold)
      else rows_of i gold)"
  by (induction gold) (auto simp: rows_of_def is_target_def)

lemma rows_of_reopened:
  "rows_of i (map (reopened_row s snapshot) (filter (is_target vanished) gold)) =
     (if show_int i \<in> set vanished
      then map (reopened_row s snapshot) (filter vw_is_current (rows_of i gold)) else [])"
  by (induction gold) (auto simp: rows_of_def is_target_def)

lemma rows_of_append: "rows_of i (xs @ ys) = rows_of i xs @ rows_of i ys"
  by (simp add: rows_of_def)

lemma apply_delete_rows:
  assumes "apply_delete_semantics valid_to_sentinel (semantics_text sem) vanished snapshot gold = Inr (gold1, acted)"
  shows "rows_of i gold1 =
    (if show_int i \<in> set vanished then disposed sem snapshot (rows_of i gold) else rows_of i gold)"
proof (cases sem)
  case DeleteIgnore
  with assms show ?thesis by (simp add: apply_delete_semantics_def disposed_def)
next
  case DeleteInvalidate
  with assms show ?thesis
    by (auto simp: apply_delete_semantics_def valid_delete_semantics_def Let_def disposed_def
        rows_of_closed split: if_splits)
next
  case DeleteNewRecord
  let ?closed = "map (\<lambda>g. if is_target vanished g then close_row snapshot g else g) gold"
  from assms DeleteNewRecord
  have "insert_all (map (reopened_row valid_to_sentinel snapshot) (filter (is_target vanished) gold)) ?closed = Inr gold1"
    by (auto simp: apply_delete_semantics_def valid_delete_semantics_def Let_def split: if_splits sum.splits)
  then have "gold1 = ?closed @ map (reopened_row valid_to_sentinel snapshot) (filter (is_target vanished) gold)"
    by (rule insert_all_Inr)
  then show ?thesis
    using DeleteNewRecord by (simp add: rows_of_append rows_of_closed rows_of_reopened disposed_def)
qed

text \<open>The two phases of a publication that returned.\<close>

lemma scd_publish_phases:
  assumes "scd_publish sha256 to_int cfg wh ids = Inr (wh', res)" and "ds_scd cfg = Some scd"
  shows "\<exists>gold1 acted gold2 n.
    (find_vanished_customer_ids wh ids = [] \<and> gold1 = wh_gold wh \<or>
     sd_delete_semantics scd = DeleteIgnore \<and> gold1 = wh_gold wh \<or>
     (\<exists>snapshot. snapshot_max_event_ts wh ids = Some snapshot \<and>
        apply_delete_semantics valid_to_sentinel (semantics_text (sd_delete_semantics scd))
          (find_vanished_customer_ids wh ids) snapshot (wh_gold wh) = Inr (gold1, acted))) \<and>
    republish_all sha256 to_int wh
      (filter (\<lambda>key. key \<notin> set (find_vanished_customer_ids wh ids)) (touched_keys wh ids)) gold1 = Inr (gold2, n) \<and>
    wh' = wh\<lparr>wh_gold := gold2\<rparr>"
  using assms
  by (auto simp: scd_publish_def Let_def split: sum.splits option.splits if_splits prod.splits)


section \<open>Sample tables\<close>

definition sample_bronze :: "int \<Rightarrow> string \<Rightarrow> string \<Rightarrow> int \<Rightarrow> bronze_row" where
  "sample_bronze run key country ts =
     \<lparr>bt_customer_id = Some key, bt_name = Some ''Ann'', bt_country = Some country,
      bt_birth_date = None, bt_signup_country = None, bt_event_ts = ts, bt_run_id = run,
      bt_file_id = run, bt_batch_id = 1, bt_source_row_number = 1, bt_record_hash = ''h'',
      bt_record_hash_version = 1\<rparr>"

definition sample_gold :: "int \<Rightarrow> int \<Rightarrow> gold_row" where
  "sample_gold i ts =
     \<lparr>vw_customer_id = i, vw_name = Some ''Ann'', vw_country = Some ''PL'', vw_birth_date = None,
      vw_signup_country = None, vw_valid_from = ts, vw_valid_to = valid_to_sentinel,
      vw_is_current = True, gd_run_id = 1, gd_file_id = 1, gd_batch_id = 1,
      gd_source_row_number = 1, gd_record_hash = ''h'', gd_record_hash_version = 1\<rparr>"

definition sample_scd_config :: "rat \<Rightarrow> dataset_config" where
  "sample_scd_config threshold =
     \<lparr>ds_dataset = ''customers'',
      ds_source = \<lparr>so_type = ''csv'', so_bucket = ''raw'', so_path = ''in/'', so_change_semantics = ''SNAPSHOT'',
        so_duplicate_policy = ''SKIP_SUCCESSFUL'', so_multipart_pattern = None, so_batch_complete_marker = None\<rparr>,
      ds_deduplication = None, ds_load = \<lparr>lo_strategy = ''scd'', lo_target = ''normalized.customers''\<rparr>,
      ds_columns = [], ds_normalization = None, ds_quality = None,
      ds_scd = Some \<lparr>sd_delete_semantics = DeleteInvalidate, sd_mass_delete_threshold = threshold\<rparr>,
      ds_csv = default_csv_parsing, ds_on_new_column = ''evolve'',
      ds_on_missing_or_retyped_column = ''freeze''\<rparr>"

text \<open>Customers 1 and 2 are current; run 2 delivers customer 2 only, from another country.\<close>

definition sample_warehouse :: warehouse where
  "sample_warehouse =
     \<lparr>wh_bronze = [sample_bronze 1 ''1'' ''PL'' 10, sample_bronze 1 ''2'' ''PL'' 10, sample_bronze 2 ''2'' ''DE'' 20],
      wh_gold = [sample_gold 1 10, sample_gold 2 10], wh_quarantined = []\<rparr>"

lemma sample_canonical:
  assumes "r \<in> set (wh_bronze sample_warehouse)" and "bt_customer_id r = Some key"
  shows "\<exists>i. py_int key = Some i \<and> show_int i = key"
proof -
  from assms have "key = ''1'' \<or> key = ''2''" by (auto simp: sample_warehouse_def sample_bronze_def)
  moreover have "py_int ''1'' = Some 1 \<and> show_int 1 = ''1''" "py_int ''2'' = Some 2 \<and> show_int 2 = ''2''"
    by code_simp+
  ultimately show ?thesis by blast
qed


section \<open>Integrity of the gold table\<close>

text \<open>
  The constraints of the table, and what the publisher adds to them: a current row is open until
  the sentinel.
\<close>

definition gold_inv :: "gold_row list \<Rightarrow> bool" where
  "gold_inv gold \<longleftrightarrow> gold_ok gold \<and>
     (\<forall>g \<in> set gold. vw_is_current g \<longrightarrow> vw_valid_to g = valid_to_sentinel \<and> vw_valid_from g < valid_to_sentinel)"

lemma sorted_wrt_symmetric_unique:
  assumes "sorted_wrt (\<lambda>a b. \<not> R a b) xs" and "\<And>a b. R a b \<Longrightarrow> R b a"
    and "\<And>a b. P a \<Longrightarrow> P b \<Longrightarrow> a \<in> set xs \<Longrightarrow> b \<in> set xs \<Longrightarrow> R a b"
  shows "length (filter P xs) \<le> 1"
  using assms(1,3)
proof (induction xs)
  case (Cons x xs)
  show ?case
  proof (cases "P x")
    case True
    have "filter P xs = []"
    proof (rule ccontr)
      assume "filter P xs \<noteq> []"
      then obtain y where "y \<in> set xs" "P y" by (auto simp: filter_empty_conv)
      then show False using Cons.prems True by auto
    qed
    then show ?thesis using True by simp
  next
    case False
    then show ?thesis using Cons by simp
  qed
qed simp

text \<open>Two open intervals of one customer overlap, so each customer has at most one current row.\<close>

lemma one_current_row:
  assumes "gold_inv gold"
  shows "length (filter (\<lambda>g. vw_is_current g \<and> vw_customer_id g = i) gold) \<le> 1"
proof (rule sorted_wrt_symmetric_unique [where R = overlaps])
  show "sorted_wrt (\<lambda>a b. \<not> overlaps a b) gold" using assms by (simp add: gold_inv_def gold_ok_def)
qed (use assms in \<open>auto simp: overlaps_def gold_inv_def\<close>)

lemma chain_open:
  assumes "recompute_version_chain sha256 valid_to_sentinel h = Inr versions"
    and "\<forall>r \<in> set h. bz_event_ts r < valid_to_sentinel" and "v \<in> set versions" and "vw_is_current v"
  shows "vw_valid_to v = valid_to_sentinel \<and> vw_valid_from v < valid_to_sentinel"
proof -
  have ne: "h \<noteq> []" using assms(1) by (auto simp: recompute_version_chain_def)
  let ?hs = "map (row_hash sha256) (ordered_history h)"
  obtain p where p: "p < length (group_start_indices ?hs)"
    "v = version_at valid_to_sentinel (ordered_history h) (group_start_indices ?hs) p"
    using assms(1,3) recompute_Inr [OF ne, of sha256 valid_to_sentinel] by auto
  have "group_start_indices ?hs ! p < length (ordered_history h)"
    using starts_less [of ?hs p] p(1) ne by simp
  then have "ordered_history h ! (group_start_indices ?hs ! p) \<in> set h"
    using nth_mem [of _ "ordered_history h"] by simp
  then show ?thesis using p(2) assms(2,4) by (simp add: version_at_def Let_def)
qed

lemma set_map2_obtain:
  assumes "g \<in> set (map2 f xs ys)"
  shows "\<exists>x \<in> set xs. \<exists>y \<in> set ys. g = f x y"
  using assms by (auto dest: set_zip_leftD set_zip_rightD)

lemma republish_key_inv:
  assumes "republish_key sha256 to_int wh key gold = Inr (gold', n)" and "gold_inv gold"
    and "\<forall>r \<in> set (wh_bronze wh). bt_event_ts r < valid_to_sentinel"
  shows "gold_inv gold'"
proof -
  obtain h where h: "bronze_history to_int wh key = Inr h"
    using assms(1) by (auto simp: republish_key_def split: sum.splits)
  obtain versions where v: "recompute_version_chain sha256 valid_to_sentinel (map bronze_record.truncate h) = Inr versions"
    using assms(1) h by (auto simp: republish_key_def split: sum.splits)
  obtain i where i: "to_int key = Some i"
    using assms(1) h v by (cases "to_int key") (simp_all add: republish_key_def Let_def)
  define kept where "kept = filter (\<lambda>g. vw_customer_id g \<noteq> i) gold"
  define new_rows where "new_rows = map2 gold_of versions (select_lineage_rows sha256 h)"
  have ins: "insert_all new_rows kept = Inr gold'"
    using assms(1) unfolding republish_key_def Let_def h v i sum.case option.case
      kept_def [symmetric] new_rows_def [symmetric]
    by (cases "insert_all new_rows kept") (simp_all split: if_splits)
  have ts: "bz_event_ts r < valid_to_sentinel" if r: "r \<in> set (map bronze_record.truncate h)" for r
  proof -
    obtain l where l: "l \<in> set h" "r = bronze_record.truncate l" using r unfolding set_map by (rule imageE)
    obtain b where "b \<in> set (wh_bronze wh)" "l = lineage_of i b"
      using traverse_mem [OF h [unfolded bronze_history_def] l(1)] i by auto
    then show ?thesis using assms(3) l(2) by (simp add: lineage_of_def bronze_record.truncate_def)
  qed
  have "gold_ok gold'"
    by (rule insert_all_ok [OF _ ins]) (use assms(2) in \<open>simp add: kept_def gold_inv_def gold_ok_filter\<close>)
  moreover have "vw_valid_to g = valid_to_sentinel \<and> vw_valid_from g < valid_to_sentinel"
    if g: "g \<in> set new_rows" "vw_is_current g" for g
  proof -
    obtain w l where w: "w \<in> set versions" "g = gold_of w l"
      using set_map2_obtain [OF g(1) [unfolded new_rows_def]] by blast
    show ?thesis using chain_open [OF v _ w(1)] ts g(2) by (simp add: w(2))
  qed
  ultimately show ?thesis
    using insert_all_Inr [OF ins] assms(2) by (auto simp: gold_inv_def kept_def)
qed

lemma republish_all_inv:
  "republish_all sha256 to_int wh keys gold = Inr (gold', n) \<Longrightarrow> gold_inv gold \<Longrightarrow>
     \<forall>r \<in> set (wh_bronze wh). bt_event_ts r < valid_to_sentinel \<Longrightarrow> gold_inv gold'"
proof (induction keys arbitrary: gold n)
  case (Cons key keys)
  then show ?case using republish_key_inv by (fastforce split: sum.splits prod.splits)
qed simp

lemma snapshot_max_less:
  assumes "snapshot_max_event_ts wh ids = Some s" and "\<forall>r \<in> set (wh_bronze wh). bt_event_ts r < valid_to_sentinel"
  shows "s < valid_to_sentinel"
proof -
  have "s = Max (bt_event_ts ` set (staged_rows wh ids))" "staged_rows wh ids \<noteq> []"
    using assms(1) by (auto simp: snapshot_max_event_ts_def split: list.splits)
  then have "s \<in> bt_event_ts ` set (staged_rows wh ids)"
    using Max_in [of "bt_event_ts ` set (staged_rows wh ids)"] by simp
  then show ?thesis using assms(2) by (auto simp: staged_rows_def)
qed

lemma apply_delete_cases:
  assumes "apply_delete_semantics sentinel sem vanished snapshot gold = Inr (gold1, acted)"
  defines "shut \<equiv> map (\<lambda>g. if is_target vanished g then close_row snapshot g else g) gold"
  shows "gold1 = gold \<or> gold_ok shut \<and> (gold1 = shut \<or>
    insert_all (map (reopened_row sentinel snapshot) (filter (is_target vanished) gold)) shut = Inr gold1)"
proof -
  define inserted where
    "inserted = insert_all (map (reopened_row sentinel snapshot) (filter (is_target vanished) gold)) shut"
  have "sem = ''ignore'' \<and> gold1 = gold \<or> gold_ok shut \<and> (gold1 = shut \<or> inserted = Inr gold1)"
    using assms(1)
    unfolding apply_delete_semantics_def Let_def shut_def [symmetric] inserted_def [symmetric]
    by (cases inserted) (simp_all split: if_splits)
  then show ?thesis unfolding inserted_def by blast
qed

lemma apply_delete_inv:
  assumes "apply_delete_semantics valid_to_sentinel sem vanished snapshot gold = Inr (gold1, acted)"
    and "gold_inv gold" and "snapshot < valid_to_sentinel"
  shows "gold_inv gold1"
proof -
  let ?closed = "map (\<lambda>g. if is_target vanished g then close_row snapshot g else g) gold"
  have open_rows: "vw_valid_to g = valid_to_sentinel \<and> vw_valid_from g < valid_to_sentinel"
    if "g \<in> set ?closed" "vw_is_current g" for g
    using that assms(2) by (auto simp: gold_inv_def close_row_def split: if_splits)
  consider "gold1 = gold" | "gold_ok ?closed" "gold1 = ?closed"
    | "gold_ok ?closed" "insert_all (map (reopened_row valid_to_sentinel snapshot) (filter (is_target vanished) gold)) ?closed = Inr gold1"
    using apply_delete_cases [OF assms(1)] by blast
  then show ?thesis
  proof cases
    case 1
    then show ?thesis using assms(2) by simp
  next
    case 2
    then show ?thesis unfolding gold_inv_def using open_rows by blast
  next
    case 3
    have "gold1 = ?closed @ map (reopened_row valid_to_sentinel snapshot) (filter (is_target vanished) gold)"
      by (rule insert_all_Inr [OF 3(2)])
    moreover have "gold_ok gold1" by (rule insert_all_ok [OF 3])
    ultimately show ?thesis
      unfolding gold_inv_def using open_rows assms(3) by (auto simp: reopened_row_def)
  qed
qed

text \<open>C9: Publication preserves the integrity of the customers table: if before the pass no two
  versions of a customer overlap, none ends before it starts and every current version is open until the
  sentinel, the same holds afterwards, whatever was delivered and however vanished customers are
  disposed of; in particular no customer ever has two current rows.\<close>

theorem scd_publish_preserves_integrity:
  assumes "scd_publish sha256 to_int cfg wh ids = Inr (wh', res)" and "gold_inv (wh_gold wh)"
    and "\<forall>r \<in> set (wh_bronze wh). bt_event_ts r < valid_to_sentinel"
  shows "gold_inv (wh_gold wh') \<and>
    (\<forall>i. length (filter (\<lambda>g. vw_is_current g \<and> vw_customer_id g = i) (wh_gold wh')) \<le> 1)"
proof -
  obtain scd where "ds_scd cfg = Some scd" using assms(1) by (auto simp: scd_publish_def split: option.splits)
  from scd_publish_phases [OF assms(1) this] obtain gold1 acted gold2 n where
    del: "gold1 = wh_gold wh \<or> (\<exists>sem snapshot. snapshot_max_event_ts wh ids = Some snapshot \<and>
      apply_delete_semantics valid_to_sentinel sem (find_vanished_customer_ids wh ids) snapshot (wh_gold wh) =
        Inr (gold1, acted))"
    and rep: "republish_all sha256 to_int wh (filter (\<lambda>key. key \<notin> set (find_vanished_customer_ids wh ids))
      (touched_keys wh ids)) gold1 = Inr (gold2, n)" and wh': "wh' = wh\<lparr>wh_gold := gold2\<rparr>" by blast
  have "gold_inv gold1" using del assms(2) apply_delete_inv snapshot_max_less [OF _ assms(3)] by blast
  from republish_all_inv [OF rep this assms(3)] have "gold_inv gold2" .
  then show ?thesis using one_current_row by (simp add: wh')
qed

theorem scd_publish_preserves_integrity_witness:
  "\<exists>wh' res. scd_publish id py_int (sample_scd_config (1/2)) sample_warehouse [2] = Inr (wh', res) \<and>
     gold_inv (wh_gold wh')"
proof -
  have "(case scd_publish id py_int (sample_scd_config (1/2)) sample_warehouse [2] of
      Inl _ \<Rightarrow> False | Inr _ \<Rightarrow> True)" by code_simp
  then obtain wh' res where run: "scd_publish id py_int (sample_scd_config (1/2)) sample_warehouse [2] = Inr (wh', res)"
    by (auto split: sum.splits)
  have "gold_inv (wh_gold sample_warehouse)" "\<forall>r \<in> set (wh_bronze sample_warehouse). bt_event_ts r < valid_to_sentinel"
    unfolding gold_inv_def by code_simp+
  from scd_publish_preserves_integrity [OF run this] run show ?thesis by blast
qed

section \<open>The mass-delete breaker\<close>

lemma current_ids_distinct:
  assumes "gold_inv gold"
  shows "distinct (map vw_customer_id (filter vw_is_current gold))"
proof -
  have "sorted_wrt (\<lambda>a b. \<not> overlaps a b) gold" using assms by (simp add: gold_inv_def gold_ok_def)
  then have "sorted_wrt (\<lambda>a b. \<not> overlaps a b) (filter vw_is_current gold)" by (rule sorted_wrt_filter)
  then have "sorted_wrt (\<lambda>a b. vw_customer_id a \<noteq> vw_customer_id b) (filter vw_is_current gold)"
    by (rule sorted_wrt_mono_rel [rotated]) (use assms in \<open>auto simp: overlaps_def gold_inv_def\<close>)
  moreover have "distinct (map f xs)" if "sorted_wrt (\<lambda>a b. f a \<noteq> f b) xs" for f :: "gold_row \<Rightarrow> int" and xs
    using that by (induction xs) auto
  ultimately show ?thesis by blast
qed

lemma empty_snapshot_vanishes_all:
  assumes "gold_inv (wh_gold wh)" and "staged_snapshot wh ids = []"
  shows "int (length (find_vanished_customer_ids wh ids)) = current_count wh"
proof -
  let ?cur = "filter vw_is_current (wh_gold wh)" and ?f = "\<lambda>g. show_int (vw_customer_id g)"
  have "distinct (map show_int (map vw_customer_id ?cur))"
    using current_ids_distinct [OF assms(1)] show_int_inj by (simp add: distinct_map inj_on_def del: map_map)
  then have "distinct (filter (bronze_known wh) (map ?f ?cur))" by (simp add: o_def)
  then have "remdups (filter (bronze_known wh) (map ?f ?cur)) = filter (bronze_known wh) (map ?f ?cur)"
    by (rule distinct_remdups_id)
  then have "find_vanished_customer_ids wh ids = filter (bronze_known wh) (map ?f ?cur)"
    using assms(2) by (simp add: find_vanished_customer_ids_def)
  then show ?thesis by (simp add: current_count_def filter_map o_def conj_commute)
qed

text \<open>C23: No delivery can silently delete the customer base.  A publication that returns has
  disposed of at most the configured share of the current customers; and a pass that delivers no
  customer at all, which would make every current customer vanish, is refused with
  \<open>QualityThresholdExceeded\<close> whenever the threshold is below one.\<close>

theorem mass_delete_refused:
  assumes "ds_scd cfg = Some scd" and "gold_inv (wh_gold wh)" and "0 < current_count wh"
  shows "(case scd_publish sha256 to_int cfg wh ids of
       Inl _ \<Rightarrow> True
     | Inr _ \<Rightarrow> float_div (int (length (find_vanished_customer_ids wh ids))) (current_count wh)
         \<le> sd_mass_delete_threshold scd) \<and>
    (staged_snapshot wh ids = [] \<longrightarrow> sd_mass_delete_threshold scd < 1 \<longrightarrow>
       (\<exists>ctx. scd_publish sha256 to_int cfg wh ids = Inl (Exn QualityThresholdExceeded ctx)))"
proof -
  let ?r = "float_div (int (length (find_vanished_customer_ids wh ids))) (current_count wh)"
  have refused: "\<exists>ctx. scd_publish sha256 to_int cfg wh ids = Inl (Exn QualityThresholdExceeded ctx)"
    if "sd_mass_delete_threshold scd < ?r"
    using that assms(1,3)
    by (simp add: scd_publish_def Let_def mass_delete_apply_def dp_error_def reserved_context_keys_def)
  have one: "float_div n n = 1" if "0 < n" for n
  proof -
    have "round_double 1 = 1" by code_simp
    then show ?thesis using that by (simp add: float_div_def)
  qed
  have "?r = 1" if "staged_snapshot wh ids = []"
    using empty_snapshot_vanishes_all [OF assms(2) that] one [OF assms(3)] by simp
  then show ?thesis using refused by (auto split: sum.splits intro: leI)
qed

theorem mass_delete_refused_witness:
  "\<exists>ctx. scd_publish id py_int (sample_scd_config (1/10)) sample_warehouse [99] =
     Inl (Exn QualityThresholdExceeded ctx)"
proof -
  have "gold_inv (wh_gold sample_warehouse)" unfolding gold_inv_def by code_simp
  moreover have "0 < current_count sample_warehouse" "staged_snapshot sample_warehouse [99] = []" by code_simp+
  ultimately show ?thesis
    using mass_delete_refused [of "sample_scd_config (1/10)"
        "\<lparr>sd_delete_semantics = DeleteInvalidate, sd_mass_delete_threshold = 1/10\<rparr>" sample_warehouse "[99]" id py_int]
    by (simp add: sample_scd_config_def)
qed

section \<open>Two boundary cases\<close>

text \<open>
  A snapshot older than a vanished customer's current version cannot close it: the range would
  end before it starts, and the publication fails.
\<close>

lemma late_snapshot_fails:
  "scd_publish id py_int (sample_scd_config (1/2))
     \<lparr>wh_bronze = [sample_bronze 1 ''1'' ''PL'' 10, sample_bronze 1 ''2'' ''PL'' 10, sample_bronze 2 ''2'' ''DE'' 5],
      wh_gold = [sample_gold 1 10, sample_gold 2 10], wh_quarantined = []\<rparr> [2] =
   Inl (Exn DatabaseError [])"
  by code_simp

text \<open>
  The instant the vanished customers are closed at counts rows without a key, which the
  freshness of the snapshot does not.
\<close>

lemma snapshot_instants_differ:
  "let wh = \<lparr>wh_bronze = [sample_bronze 1 ''1'' ''PL'' 10, (sample_bronze 1 '''' ''PL'' 30)\<lparr>bt_customer_id := None\<rparr>],
             wh_gold = [], wh_quarantined = []\<rparr>
   in snapshot_max_event_ts wh [1] = Some 30 \<and>
      run_max_event_ts (filter (\<lambda>r. bt_customer_id r \<noteq> None) (staged_rows wh [1])) 1 = 10"
  by code_simp

end
