(* ===== verification/PublishRun.thy ===== *)
theory PublishRun
  imports Transaction MetaHistory ScdPublish
begin

text \<open>
  \<open>publish_ingest\<close> (\<open>pipeline/run.py\<close>): one pass over every STAGED run of a dataset, in one
  transaction under the advisory lock of its target: publish from silver (or bronze) to gold, advance the
  watermark, finalize each run whose PUBLISH stage can be claimed, reconcile, resolve the redriven
  rejects.  A tripped quality breaker quarantines the pass.
\<close>

section \<open>The tables of a pass\<close>

record gold_db =
  gb_meta :: meta_db
  gb_silver :: "merge_row list"
  gb_gold :: gold_map
  gb_scd :: warehouse

record publish_world =
  pw_sha256 :: "string \<Rightarrow> string"
  pw_to_int :: "string \<Rightarrow> int option"
  pw_aggregate :: "gold_db \<Rightarrow> exn + (int \<times> int \<times> columns)"
  pw_now :: int
  pw_pod :: string
  pw_finished_at :: int
  pw_duration_ms :: int

definition on_tables :: "(meta_db \<Rightarrow> exn + meta_db \<times> 'a) \<Rightarrow> gold_db \<Rightarrow> exn + gold_db \<times> 'a" where
  "on_tables f g = (case f (gb_meta g) of Inl e \<Rightarrow> Inl e | Inr (db, x) \<Rightarrow> Inr (g\<lparr>gb_meta := db\<rparr>, x))"

definition own_tables :: "(meta_db \<Rightarrow> meta_db \<times> 'a) \<Rightarrow> gold_db \<Rightarrow> gold_db \<times> 'a" where
  "own_tables f g = (g\<lparr>gb_meta := fst (f (gb_meta g))\<rparr>, snd (f (gb_meta g)))"

definition watermark_column_by_dataset :: "(string \<times> string) list" where
  "watermark_column_by_dataset = [(''customers'', ''event_ts''), (''orders'', ''order_date'')]"

definition watermark_column_for_dataset :: "string \<Rightarrow> exn + string" where
  "watermark_column_for_dataset dataset =
     (case map_of watermark_column_by_dataset dataset of
        Some column \<Rightarrow> Inr column
      | None \<Rightarrow> Inl (dp_error ConfigurationError
          [(''dataset'', VStr dataset),
           (''known_datasets'', VList (map VStr (sort (map fst watermark_column_by_dataset))))]))"

definition quarantined_runs :: "meta_db \<Rightarrow> int list" where
  "quarantined_runs db = map ir_id (filter (\<lambda>r. ir_status r = ''QUARANTINED'') (md_runs db))"

definition run_publisher :: "publish_world \<Rightarrow> dataset_config \<Rightarrow> int list \<Rightarrow> publisher \<Rightarrow> gold_db \<Rightarrow>
    exn + gold_db \<times> publish_result" where
  "run_publisher w cfg ids p g =
     (let bad = quarantined_runs (gb_meta g) in
      case p of
        PubMerge \<Rightarrow> (let (gold, res) = merge_publish bad (gb_silver g) (gb_gold g) in Inr (g\<lparr>gb_gold := gold\<rparr>, res))
      | PubMergeOrders \<Rightarrow>
          (let (gold, res) = orders_publish bad ids (gb_silver g) (gb_gold g) in Inr (g\<lparr>gb_gold := gold\<rparr>, res))
      | PubScd \<Rightarrow>
          (case scd_publish (pw_sha256 w) (pw_to_int w) cfg ((gb_scd g)\<lparr>wh_quarantined := bad\<rparr>) ids of
             Inl e \<Rightarrow> Inl e
           | Inr (wh, res) \<Rightarrow> Inr (g\<lparr>gb_scd := wh\<rparr>, res)))"

definition silver_watermarks :: "gold_db \<Rightarrow> (int \<times> int option) list" where
  "silver_watermarks g = map (\<lambda>r. (mg_run_id r, mg_ts r)) (gb_silver g)"

section \<open>Finalizing the runs\<close>

definition silver_gold_spec :: "int \<Rightarrow> int \<Rightarrow> int \<times> int \<times> columns \<Rightarrow> reconciliation_spec" where
  "silver_gold_spec dataset_id file_id agg =
     (case agg of (input_count, output_count, extra) \<Rightarrow>
        \<lparr>rn_dataset_id = dataset_id, rn_file_id = Some file_id, rn_hop = ''silver_gold'',
         rn_input_count = input_count, rn_output_count = output_count, rn_rejected_count = 0, rn_dedup_count = 0,
         rn_expected_row_count = None, rn_measures = extra\<rparr>)"

definition finalize_one :: "publish_world \<Rightarrow> int \<Rightarrow> int \<times> int \<times> columns \<Rightarrow> publish_result \<Rightarrow> staged_run \<Rightarrow>
    (gold_db, int list) tx" where
  "finalize_one w dataset_id agg res s =
     tx_bind (tx_own (own_tables (claim_run_stage (pw_now w) (sn_run_id s) ''PUBLISH'' 1 (pw_pod w)))) (\<lambda>claimed.
     if claimed = None then tx_return []
     else
       tx_bind (tx_exec (on_tables (\<lambda>db. Inr (finalize_publication (sn_run_id s) (sn_file_id s) (sn_batch_id s)
         (int (pb_rows_affected res)) (pw_finished_at w) (pw_duration_ms w) (sn_report_uri s) SqlNull db, ())))) (\<lambda>_.
       tx_bind (tx_own (own_tables (\<lambda>db. (complete_run_stage (sn_run_id s) ''PUBLISH'' ''SUCCEEDED'' (pw_finished_at w) db, ())))) (\<lambda>_.
       tx_bind (tx_exec (on_tables (record_reconciliation (silver_gold_spec dataset_id (sn_file_id s) agg)))) (\<lambda>_.
       tx_return [sn_run_id s]))))"

fun finalize_all :: "publish_world \<Rightarrow> int \<Rightarrow> int \<times> int \<times> columns \<Rightarrow> publish_result \<Rightarrow> staged_run list \<Rightarrow>
    (gold_db, int list) tx" where
  "finalize_all w dataset_id agg res [] = tx_return []"
| "finalize_all w dataset_id agg res (s # staged) =
     tx_bind (finalize_one w dataset_id agg res s) (\<lambda>ids.
     tx_bind (finalize_all w dataset_id agg res staged) (\<lambda>more. tx_return (ids @ more)))"

section \<open>The pass\<close>

definition publish_transaction :: "publish_world \<Rightarrow> dataset_config \<Rightarrow> int \<Rightarrow> staged_run list \<Rightarrow>
    (gold_db, publish_result \<times> int list) tx" where
  "publish_transaction w cfg dataset_id staged =
     (let ids = map sn_run_id staged in
      tx_bind (tx_lift (resolve_publisher (lo_strategy (ds_load cfg)))) (\<lambda>p.
      tx_bind (tx_exec (run_publisher w cfg ids p)) (\<lambda>res.
      tx_bind (tx_lift (watermark_column_for_dataset (ds_dataset cfg))) (\<lambda>column.
      tx_bind (tx_exec (\<lambda>g. on_tables (\<lambda>db. map_sum id (\<lambda>db'. (db', ()))
        (record_watermark dataset_id ''default'' (silver_watermarks g) (Max (set ids)) ids db)) g)) (\<lambda>_.
      tx_bind (tx_query (pw_aggregate w)) (\<lambda>agg.
      tx_bind (finalize_all w dataset_id agg res staged) (\<lambda>finalized.
      tx_bind (if finalized = [] then tx_return 0
               else tx_exec (on_tables (resolve_rejected_records dataset_id (pb_published_business_keys res)
                 (Max (set finalized)) ''REDRIVEN''))) (\<lambda>_.
      tx_return (res, finalized)))))))))"

record publish_outcome =
  po_status :: string
  po_runs_finalized :: "int list"
  po_runs_quarantined :: "int list"
  po_rows_loaded :: nat

fun quarantine_all :: "int list \<Rightarrow> meta_db \<Rightarrow> meta_db" where
  "quarantine_all [] db = db"
| "quarantine_all (i # ids) db =
     quarantine_all ids (case update_ingestion_run_status i ''QUARANTINED'' [] db of Inl _ \<Rightarrow> db | Inr db' \<Rightarrow> db')"

definition publish_ingest :: "publish_world \<Rightarrow> dataset_config \<Rightarrow> gold_db \<Rightarrow> (exn + publish_outcome) \<times> gold_db" where
  "publish_ingest w cfg g0 =
     (let (g, dataset_id) = own_tables (get_or_create_dataset (ds_dataset cfg)) g0 in
      case list_staged_run_ids dataset_id (gb_meta g) of
        Inl e \<Rightarrow> (Inl e, g)
      | Inr staged \<Rightarrow>
          if staged = []
          then (Inr \<lparr>po_status = ''SUCCEEDED'', po_runs_finalized = [], po_runs_quarantined = [], po_rows_loaded = 0\<rparr>, g)
          else
            (case tx_run (publish_transaction w cfg dataset_id staged) g of
               (Inl e, g1) \<Rightarrow>
                 if exn_class e = QualityThresholdExceeded
                 then (Inr \<lparr>po_status = ''QUARANTINED'', po_runs_finalized = [],
                        po_runs_quarantined = map sn_run_id staged, po_rows_loaded = 0\<rparr>,
                       g1\<lparr>gb_meta := quarantine_all (map sn_run_id staged) (gb_meta g1)\<rparr>)
                 else (Inl e, g1)
             | (Inr (res, finalized), g1) \<Rightarrow>
                 (Inr \<lparr>po_status = ''SUCCEEDED'', po_runs_finalized = finalized, po_runs_quarantined = [],
                       po_rows_loaded = pb_rows_affected res\<rparr>, g1)))"

section \<open>What a pass leaves when it fails\<close>

text \<open>On its own connections a pass writes the stages and the dataset's identity, nothing else.\<close>

definition stages_only :: "gold_db \<Rightarrow> gold_db \<Rightarrow> bool" where
  "stages_only g g' \<longleftrightarrow> gb_silver g' = gb_silver g \<and> gb_gold g' = gb_gold g \<and> gb_scd g' = gb_scd g \<and>
     md_runs (gb_meta g') = md_runs (gb_meta g) \<and> md_files (gb_meta g') = md_files (gb_meta g) \<and>
     md_batches (gb_meta g') = md_batches (gb_meta g) \<and> md_watermarks (gb_meta g') = md_watermarks (gb_meta g) \<and>
     md_history (gb_meta g') = md_history (gb_meta g) \<and> md_rejected (gb_meta g') = md_rejected (gb_meta g) \<and>
     md_reconciliations (gb_meta g') = md_reconciliations (gb_meta g)"

lemma stages_only_refl [intro, simp]: "stages_only g g" by (simp add: stages_only_def)

lemma stages_only_trans: "stages_only a b \<Longrightarrow> stages_only b c \<Longrightarrow> stages_only a c" by (simp add: stages_only_def)

lemma stages_only_own [simp]:
  "stages_only g (fst (own_tables (claim_run_stage now i st n pod) g))"
  "stages_only g (fst (own_tables (\<lambda>db. (complete_run_stage i st s t db, ())) g))"
  "stages_only g (fst (own_tables (get_or_create_dataset d) g))"
  by (auto simp: stages_only_def own_tables_def claim_run_stage_def complete_run_stage_def update_stage_def
      get_or_create_dataset_def draw_id_def Let_def split: option.split prod.split)

text \<open>What claims and completions of stages keep, the whole pass keeps.\<close>

lemma publish_keeps:
  assumes refl: "\<And>g. R g g" and trans: "\<And>a b c. R a b \<Longrightarrow> R b c \<Longrightarrow> R a c"
    and claim: "\<And>now i st n pod g. R g (fst (own_tables (claim_run_stage now i st n pod) g))"
    and complete: "\<And>i st s t g. R g (fst (own_tables (\<lambda>db. (complete_run_stage i st s t db, ())) g))"
  shows "tx_keeps R (publish_transaction w cfg d staged)"
proof -
  note intros = tx_keeps_bind [of R, OF trans] tx_keeps_pure [of R, OF refl] tx_keeps_own [of R]
  have one: "tx_keeps R (finalize_one w d agg res s)" for agg res s
    unfolding finalize_one_def by (auto intro!: intros claim complete)
  have all: "tx_keeps R (finalize_all w d agg res staged)" for agg res
    by (induction staged) (auto intro!: intros one)
  show ?thesis unfolding publish_transaction_def Let_def by (auto intro!: intros all)
qed

lemma publish_transaction_keeps: "tx_keeps stages_only (publish_transaction w cfg d staged)"
  by (rule publish_keeps) (auto intro: stages_only_trans)

lemma publish_keeps_datasets:
  "tx_keeps (\<lambda>g g'. md_datasets (gb_meta g') = md_datasets (gb_meta g)) (publish_transaction w cfg d staged)"
  by (rule publish_keeps)
    (auto simp: own_tables_def claim_run_stage_def complete_run_stage_def update_stage_def draw_id_def split: option.split)

lemma publish_keeps_inv:
  "tx_keeps (\<lambda>g g'. meta_inv (gb_meta g) \<longrightarrow> meta_inv (gb_meta g')) (publish_transaction w cfg d staged)"
proof (rule publish_keeps)
  show "meta_inv (gb_meta g) \<longrightarrow> meta_inv (gb_meta (fst (own_tables (claim_run_stage now i st n pod) g)))" for now i st n pod g
    using meta_inv_step [of "OpClaimStage now i st n pod" "gb_meta g"] by (simp add: own_tables_def)
  show "meta_inv (gb_meta g) \<longrightarrow>
      meta_inv (gb_meta (fst (own_tables (\<lambda>db. (complete_run_stage i st s t db, ())) g)))" for i st s t g
    using meta_inv_step [of "OpCompleteStage i st s t" "gb_meta g"] by (simp add: own_tables_def)
qed auto

lemma quarantine_all_runs:
  "md_runs (quarantine_all ids db) =
     map (\<lambda>r. if ir_id r \<in> set ids then r\<lparr>ir_status := ''QUARANTINED''\<rparr> else r) (md_runs db)"
  by (induction ids arbitrary: db)
    (auto simp: update_ingestion_run_status_def update_runs_def set_columns_def intro!: map_cong)

section \<open>The runs of a pass\<close>

lemma staged_run_of_Inr: "staged_run_of r = Inr s \<Longrightarrow> sn_run_id s = ir_id r"
  by (auto simp: staged_run_of_def split: option.splits)

lemma traverse_map_eq:
  "traverse f xs = Inr ys \<Longrightarrow> (\<And>x y. f x = Inr y \<Longrightarrow> g y = h x) \<Longrightarrow> map g ys = map h xs"
  by (induction xs arbitrary: ys) (auto split: sum.splits)

lemma list_staged_ids:
  assumes "list_staged_run_ids d db = Inr staged"
  shows "map sn_run_id staged =
    map ir_id (sort_key ir_id (filter (\<lambda>r. ir_dataset_id r = d \<and> ir_status r = ''STAGED'') (md_runs db)))"
  using assms unfolding list_staged_run_ids_def by (rule traverse_map_eq) (rule staged_run_of_Inr)

lemma list_staged_set:
  "list_staged_run_ids d db = Inr staged \<Longrightarrow>
     set (map sn_run_id staged) = ir_id ` {r \<in> set (md_runs db). ir_dataset_id r = d \<and> ir_status r = ''STAGED''}"
  by (simp add: list_staged_ids)

lemma list_staged_distinct:
  "list_staged_run_ids d db = Inr staged \<Longrightarrow> meta_inv db \<Longrightarrow> distinct (map sn_run_id staged)"
  by (simp add: list_staged_ids meta_inv_def keyed_def distinct_map distinct_filter inj_on_def)

lemma no_staged_runs:
  "\<forall>r \<in> set (md_runs db). ir_dataset_id r = d \<longrightarrow> ir_status r \<noteq> ''STAGED'' \<Longrightarrow> list_staged_run_ids d db = Inr []"
  by (auto simp: list_staged_run_ids_def filter_empty_conv)

text \<open>The dataset's identity once it is known.\<close>

lemma dataset_again:
  assumes "own_tables (get_or_create_dataset d) g = (g1, i)" and "md_datasets (gb_meta g2) = md_datasets (gb_meta g1)"
  shows "snd (own_tables (get_or_create_dataset d) g2) = i \<and>
    md_datasets (gb_meta (fst (own_tables (get_or_create_dataset d) g2))) = md_datasets (gb_meta g2)"
proof -
  obtain rows r where ins: "insert_or_update dt_name (\<lambda>r. r) \<lparr>dt_id = next_id SeqDatasets (gb_meta g), dt_name = d\<rparr>
      (md_datasets (gb_meta g)) = (rows, r)" by fastforce
  have rows: "md_datasets (gb_meta g1) = rows" "i = dt_id r"
    using assms(1) ins by (auto simp: own_tables_def get_or_create_dataset_def Let_def)
  have "find (\<lambda>x. dt_name x = d) rows = Some r"
    using ins by (auto simp: insert_or_update_def find_append split: option.splits dest: find_SomeD)
  then show ?thesis
    using rows assms(2)
    by (auto simp: own_tables_def get_or_create_dataset_def insert_or_update_def Let_def draw_id_def intro!: map_idI)
qed

lemma failed_pass_quiet:
  assumes "publish_ingest w cfg g = (Inl e, g')"
  shows "stages_only g g'"
proof -
  obtain g1 d where own: "own_tables (get_or_create_dataset (ds_dataset cfg)) g = (g1, d)" by fastforce
  have first: "stages_only g g1" using stages_only_own(3) [of g "ds_dataset cfg"] own by simp
  show ?thesis
  proof (cases "list_staged_run_ids d (gb_meta g1)")
    case (Inl x)
    then show ?thesis using assms own first by (simp add: publish_ingest_def)
  next
    case (Inr staged)
    let ?T = "publish_transaction w cfg d staged"
    obtain r g2 where run: "tx_run ?T g1 = (r, g2)" by fastforce
    then have "r = Inl e \<and> g' = g2"
      using assms own Inr by (auto simp: publish_ingest_def split: if_splits sum.splits prod.splits)
    then have "stages_only g1 g'"
      using tx_keeps_run(1) [OF publish_transaction_keeps, of w cfg d staged g1 e] run by simp
    with first show ?thesis by (rule stages_only_trans)
  qed
qed

text \<open>C25: A failed publication publishes nothing.  When a pass raises, gold, silver, the versioned
  customers, every run, file and batch, the watermarks and their history, the rejects and the
  reconciliations are as before it, wherever it failed; only the stages' own rows may have changed.\<close>

theorem failed_publication_publishes_nothing:
  assumes "publish_ingest w cfg g = (Inl e, g')"
  shows "stages_only g g'"
  by (rule failed_pass_quiet [OF assms])

text \<open>C27: A tripped quality breaker quarantines the pass and frees the next one.  When a pass reports
  QUARANTINED, gold and the versioned customers are untouched, every run the pass had taken is QUARANTINED
  with no other column changed and every other run is as it was; and the next pass of the dataset, of any
  configuration, finds nothing to publish, until new runs are staged.\<close>

theorem quarantine_frees_dataset:
  assumes "publish_ingest w cfg g = (Inr out, g')" and "po_status out = ''QUARANTINED''"
  shows "gb_gold g' = gb_gold g \<and> gb_scd g' = gb_scd g \<and>
    md_watermarks (gb_meta g') = md_watermarks (gb_meta g) \<and>
    md_runs (gb_meta g') = map (\<lambda>r. if ir_id r \<in> set (po_runs_quarantined out)
      then r\<lparr>ir_status := ''QUARANTINED''\<rparr> else r) (md_runs (gb_meta g)) \<and>
    (\<forall>w' cfg'. ds_dataset cfg' = ds_dataset cfg \<longrightarrow>
      (\<exists>out' g''. publish_ingest w' cfg' g' = (Inr out', g'') \<and> po_runs_finalized out' = [] \<and>
         po_status out' = ''SUCCEEDED'' \<and> stages_only g' g''))"
proof -
  obtain g1 d where own: "own_tables (get_or_create_dataset (ds_dataset cfg)) g = (g1, d)" by fastforce
  have first: "stages_only g g1" using stages_only_own(3) [of g "ds_dataset cfg"] own by simp
  obtain staged where staged: "list_staged_run_ids d (gb_meta g1) = Inr staged" "staged \<noteq> []"
    using assms own by (cases "list_staged_run_ids d (gb_meta g1)") (auto simp: publish_ingest_def split: if_splits)
  let ?T = "publish_transaction w cfg d staged" and ?ids = "map sn_run_id staged"
  obtain e g2 where run: "tx_run ?T g1 = (Inl e, g2)" and g': "g' = g2\<lparr>gb_meta := quarantine_all ?ids (gb_meta g2)\<rparr>"
    and out: "po_runs_quarantined out = ?ids"
    using assms own staged by (auto simp: publish_ingest_def split: if_splits sum.splits prod.splits)
  have "stages_only g1 g2"
    using tx_keeps_run(1) [OF publish_transaction_keeps, of w cfg d staged g1 e] run by simp
  with first have quiet: "stages_only g g2" by (rule stages_only_trans)
  have runs: "md_runs (gb_meta g') = map (\<lambda>r. if ir_id r \<in> set ?ids
      then r\<lparr>ir_status := ''QUARANTINED''\<rparr> else r) (md_runs (gb_meta g))"
    using quiet by (simp add: g' quarantine_all_runs stages_only_def)
  have same_tables: "md_datasets (quarantine_all ids db) = md_datasets db \<and> md_watermarks (quarantine_all ids db) = md_watermarks db"
    for ids db by (induction ids arbitrary: db) (auto simp: update_ingestion_run_status_def update_runs_def)
  have nothing_staged: "\<forall>r \<in> set (md_runs (gb_meta g')). ir_dataset_id r = d \<longrightarrow> ir_status r \<noteq> ''STAGED''"
  proof (intro ballI impI notI)
    fix r assume r: "r \<in> set (md_runs (gb_meta g'))" "ir_dataset_id r = d" "ir_status r = ''STAGED''"
    then obtain r0 where r0: "r0 \<in> set (md_runs (gb_meta g))"
      "r = (if ir_id r0 \<in> set ?ids then r0\<lparr>ir_status := ''QUARANTINED''\<rparr> else r0)" unfolding runs by auto
    then have "r = r0" "ir_id r0 \<notin> set ?ids" using r(3) by (auto split: if_splits)
    moreover have "md_runs (gb_meta g1) = md_runs (gb_meta g)" using first by (simp add: stages_only_def)
    ultimately show False using list_staged_set [OF staged(1)] r r0(1) by auto
  qed
  have datasets: "md_datasets (gb_meta g') = md_datasets (gb_meta g1)"
    using tx_keeps_run(1) [OF publish_keeps_datasets, of w cfg d staged g1 e] run same_tables by (simp add: g')
  have next_pass: "\<exists>out' g''. publish_ingest w' cfg' g' = (Inr out', g'') \<and> po_runs_finalized out' = [] \<and>
         po_status out' = ''SUCCEEDED'' \<and> stages_only g' g''" if "ds_dataset cfg' = ds_dataset cfg" for w' cfg'
  proof -
    obtain g3 where g3: "own_tables (get_or_create_dataset (ds_dataset cfg)) g' = (g3, d)"
      using dataset_again [OF own datasets] by (metis prod.collapse)
    then have quiet3: "stages_only g' g3" using stages_only_own(3) [of g' "ds_dataset cfg"] by simp
    then have "list_staged_run_ids d (gb_meta g3) = Inr []"
      using nothing_staged by (intro no_staged_runs) (simp add: stages_only_def)
    then show ?thesis using g3 that quiet3 by (simp add: publish_ingest_def)
  qed
  have "gb_gold g' = gb_gold g \<and> gb_scd g' = gb_scd g \<and> md_watermarks (gb_meta g') = md_watermarks (gb_meta g)"
    using quiet same_tables by (simp add: g' stages_only_def)
  then show ?thesis using runs next_pass unfolding out by blast
qed

section \<open>What a pass that succeeds finalizes\<close>

definition publishable :: "int \<Rightarrow> meta_db \<Rightarrow> int \<Rightarrow> bool" where
  "publishable now db i \<longleftrightarrow> run_staged db i \<and>
     (case find (\<lambda>r. stage_key r = (i, ''PUBLISH'')) (md_stages db) of
        None \<Rightarrow> True | Some s \<Rightarrow> stage_claimable now s)"

lemma claim_stage_publishable:
  "snd (claim_run_stage now i ''PUBLISH'' n pod db) = None \<longleftrightarrow> \<not> publishable now db i"
  by (auto simp: claim_run_stage_def publishable_def split: option.split)

lemma find_stage_map:
  assumes "\<And>r. stage_key (f r) = stage_key r" and "k \<noteq> k'"
  shows "find (\<lambda>r. stage_key r = k) (map (\<lambda>r. if stage_key r = k' then f r else r) rows) =
    find (\<lambda>r. stage_key r = k) rows"
proof (induction rows)
  case (Cons r rows)
  then show ?case using assms by auto
qed simp

text \<open>Claiming or completing one stage leaves what is publishable of the other runs.\<close>

lemma publishable_other:
  assumes "j \<noteq> i"
  shows "publishable now (fst (claim_run_stage now' i ''PUBLISH'' n pod db)) j \<longleftrightarrow> publishable now db j"
    and "publishable now (complete_run_stage i ''PUBLISH'' s t db) j \<longleftrightarrow> publishable now db j"
proof -
  have stages: "find (\<lambda>r. stage_key r = (j, ''PUBLISH'')) (md_stages (fst (claim_run_stage now' i ''PUBLISH'' n pod db))) =
      find (\<lambda>r. stage_key r = (j, ''PUBLISH'')) (md_stages db)"
  proof -
    have new: "stage_key \<lparr>rs_id = a, rs_run_id = i, rs_stage_name = ''PUBLISH'', rs_status = b, rs_lease_expires_at = c,
        rs_pod_name = d, rs_try_number = e, rs_started_at = f, rs_finished_at = h\<rparr> = (i, ''PUBLISH'')" for a b c d e f h
      by (simp add: stage_key_def)
    have upd: "stage_key (r\<lparr>rs_status := a, rs_lease_expires_at := b, rs_pod_name := c, rs_try_number := e\<rparr>) = stage_key r"
      for r a b c e by (simp add: stage_key_def)
    have ne: "(j, ''PUBLISH'') \<noteq> (i, ''PUBLISH'')" using assms by simp
    show ?thesis using ne
      by (auto simp: claim_run_stage_def draw_id_def find_append new find_stage_map [OF upd ne] split: option.split)
  qed
  have runs: "md_runs (fst (claim_run_stage now' i ''PUBLISH'' n pod db)) = md_runs db"
    by (auto simp: claim_run_stage_def draw_id_def split: option.split)
  show "publishable now (fst (claim_run_stage now' i ''PUBLISH'' n pod db)) j \<longleftrightarrow> publishable now db j"
    unfolding publishable_def run_staged_def stages runs ..
  have "find (\<lambda>r. stage_key r = (j, ''PUBLISH'')) (md_stages (complete_run_stage i ''PUBLISH'' s t db)) =
      find (\<lambda>r. stage_key r = (j, ''PUBLISH'')) (md_stages db)"
  proof -
    have upd: "stage_key (r\<lparr>rs_status := a, rs_finished_at := b\<rparr>) = stage_key r" for r a b
      by (simp add: stage_key_def)
    have ne: "(j, ''PUBLISH'') \<noteq> (i, ''PUBLISH'')" using assms by simp
    show ?thesis by (simp add: complete_run_stage_def update_stage_def find_stage_map [OF upd ne])
  qed
  then show "publishable now (complete_run_stage i ''PUBLISH'' s t db) j \<longleftrightarrow> publishable now db j"
    by (simp add: publishable_def run_staged_def complete_run_stage_def update_stage_def)
qed

definition statuses :: "meta_db \<Rightarrow> (int \<times> string) list" where
  "statuses db = map (\<lambda>r. (ir_id r, ir_status r)) (md_runs db)"

definition succeed :: "int list \<Rightarrow> (int \<times> string) list \<Rightarrow> (int \<times> string) list" where
  "succeed ids sts = map (\<lambda>(i, s). (i, if i \<in> set ids then ''SUCCEEDED'' else s)) sts"

lemma statuses_simps [simp]:
  "statuses (fst (claim_run_stage now i st n pod db)) = statuses db"
  "statuses (complete_run_stage i st s t db) = statuses db"
  "statuses (finalize_publication i f b n t ms uri sv db) = succeed [i] (statuses db)"
  by (auto simp: statuses_def succeed_def claim_run_stage_def complete_run_stage_def update_stage_def draw_id_def
      finalize_publication_def update_runs_def split: option.split)

lemma reconciliation_statuses: "record_reconciliation s db = Inr (db', i) \<Longrightarrow> statuses db' = statuses db"
  by (auto simp: statuses_def record_reconciliation_def Let_def draw_id_def split: if_splits)

lemma succeed_append: "succeed (ids @ rest_ids) sts = succeed rest_ids (succeed ids sts)"
  by (auto simp: succeed_def)

lemma succeed_Nil [simp]: "succeed [] sts = sts"
  by (simp add: succeed_def)

lemma finalize_one_Inr:
  assumes "finalize_one w d agg res s (c, x) = (Inr ids, (c', x'))"
  shows "ids = (if publishable (pw_now w) (gb_meta c) (sn_run_id s) then [sn_run_id s] else []) \<and>
    statuses (gb_meta x') = succeed ids (statuses (gb_meta x)) \<and>
    (\<forall>j. j \<noteq> sn_run_id s \<longrightarrow> publishable (pw_now w) (gb_meta c') j = publishable (pw_now w) (gb_meta c) j)"
proof -
  let ?claim = "claim_run_stage (pw_now w) (sn_run_id s) ''PUBLISH'' 1 (pw_pod w)"
  have claimed: "snd (own_tables ?claim c) = None \<longleftrightarrow> \<not> publishable (pw_now w) (gb_meta c) (sn_run_id s)"
    by (simp add: own_tables_def claim_stage_publishable)
  show ?thesis
  proof (cases "publishable (pw_now w) (gb_meta c) (sn_run_id s)")
    case False
    then show ?thesis using assms claimed
      by (simp add: finalize_one_def tx_bind_def tx_own_def tx_return_def) (auto simp: own_tables_def publishable_other)
  next
    case True
    then obtain k where k: "snd (own_tables ?claim c) = Some k" using claimed by auto
    show ?thesis using assms k True
      by (auto simp: finalize_one_def tx_bind_def tx_own_def tx_return_def tx_exec_def on_tables_def own_tables_def
          publishable_other dest!: reconciliation_statuses split: sum.splits prod.splits)
  qed
qed

lemma finalize_all_Inr:
  assumes "finalize_all w d agg res staged (c, x) = (Inr fin, (c', x'))" and "distinct (map sn_run_id staged)"
  shows "fin = filter (publishable (pw_now w) (gb_meta c)) (map sn_run_id staged) \<and>
    statuses (gb_meta x') = succeed fin (statuses (gb_meta x))"
  using assms
proof (induction staged arbitrary: c x fin)
  case Nil
  then show ?case by (simp add: tx_return_def)
next
  case (Cons s staged)
  obtain ids c1 x1 where one: "finalize_one w d agg res s (c, x) = (Inr ids, (c1, x1))"
    using Cons.prems(1) by (cases "finalize_one w d agg res s (c, x)"; cases "fst (finalize_one w d agg res s (c, x))")
      (auto simp: tx_bind_def)
  obtain rest_ids where rest: "finalize_all w d agg res staged (c1, x1) = (Inr rest_ids, (c', x'))" "fin = ids @ rest_ids"
    using Cons.prems(1) one by (auto simp: tx_bind_def tx_return_def split: prod.splits sum.splits)
  note o = finalize_one_Inr [OF one]
  have ih: "rest_ids = filter (publishable (pw_now w) (gb_meta c1)) (map sn_run_id staged)"
    "statuses (gb_meta x') = succeed rest_ids (statuses (gb_meta x1))"
    using Cons.IH [OF rest(1)] Cons.prems(2) by simp_all
  have "rest_ids = filter (publishable (pw_now w) (gb_meta c)) (map sn_run_id staged)"
    unfolding ih(1)
  proof (rule filter_cong [OF refl])
    fix j assume j: "j \<in> set (map sn_run_id staged)"
    moreover have "sn_run_id s \<notin> set (map sn_run_id staged)" using Cons.prems(2) by simp
    ultimately have "j \<noteq> sn_run_id s" by blast
    then show "publishable (pw_now w) (gb_meta c1) j = publishable (pw_now w) (gb_meta c) j" using o by blast
  qed
  then show ?case using o ih(2) rest(2) by (simp add: succeed_append)
qed

lemma run_publisher_meta: "run_publisher w cfg ids p g = Inr (g', res) \<Longrightarrow> gb_meta g' = gb_meta g"
  by (auto simp: run_publisher_def Let_def split: publisher.splits prod.splits sum.splits)

lemma watermark_statuses:
  "map_sum id (\<lambda>db'. (db', ())) (record_watermark d k src i ids db) = Inr (db', u) \<Longrightarrow> statuses db' = statuses db"
  by (auto simp: record_watermark_def Let_def statuses_def split: prod.splits if_splits)

lemma resolve_statuses: "resolve_rejected_records d ks i r db = Inr (db', n) \<Longrightarrow> statuses db' = statuses db"
  by (auto simp: resolve_rejected_records_def Let_def statuses_def split: if_splits)

lemma tx_bind_InrE:
  assumes "tx_bind m f (c, x) = (Inr y, (c', x'))"
  obtains v c1 x1 where "m (c, x) = (Inr v, (c1, x1))" and "f v (c1, x1) = (Inr y, (c', x'))"
proof -
  obtain r c1 x1 where m: "m (c, x) = (r, (c1, x1))" by (cases "m (c, x)") auto
  then show thesis using that assms by (cases r) (auto simp: tx_bind_def)
qed

lemma publish_transaction_Inr:
  assumes "publish_transaction w cfg d staged (g, g) = (Inr (res, fin), (c', x'))" and "distinct (map sn_run_id staged)"
  shows "fin = filter (publishable (pw_now w) (gb_meta g)) (map sn_run_id staged) \<and>
    statuses (gb_meta x') = succeed fin (statuses (gb_meta g))"
  using assms(1) unfolding publish_transaction_def Let_def
proof (elim tx_bind_InrE)
  fix p c1 x1 pres c2 x2 col c3 x3 u c4 x4 agg c5 x5 fin' c6 x6 v c7 x7
  assume steps: "tx_lift (resolve_publisher (lo_strategy (ds_load cfg))) (g, g) = (Inr p, (c1, x1))"
    "tx_exec (run_publisher w cfg (map sn_run_id staged) p) (c1, x1) = (Inr pres, (c2, x2))"
    "tx_lift (watermark_column_for_dataset (ds_dataset cfg)) (c2, x2) = (Inr col, (c3, x3))"
    "tx_exec (\<lambda>g. on_tables (\<lambda>db. map_sum id (\<lambda>db'. (db', ()))
        (record_watermark d ''default'' (silver_watermarks g) (Max (set (map sn_run_id staged))) (map sn_run_id staged) db)) g)
      (c3, x3) = (Inr u, (c4, x4))"
    "tx_query (pw_aggregate w) (c4, x4) = (Inr agg, (c5, x5))"
    "finalize_all w d agg pres staged (c5, x5) = (Inr fin', (c6, x6))"
    "(if fin' = [] then tx_return 0 else tx_exec (on_tables (resolve_rejected_records d (pb_published_business_keys pres)
        (Max (set fin')) ''REDRIVEN''))) (c6, x6) = (Inr v, (c7, x7))"
    "tx_return (pres, fin') (c7, x7) = (Inr (res, fin), (c', x'))"
  have c: "c1 = g" "x1 = g" "c2 = g" "c3 = g" "c4 = g" "c5 = g" and x: "x3 = x2" "x5 = x4"
    using steps(1-5) by (auto simp: tx_lift_def tx_exec_def tx_query_def split: sum.splits)
  have m2: "gb_meta x2 = gb_meta g"
    using steps(2) run_publisher_meta by (auto simp: tx_exec_def c split: sum.splits)
  have m4: "statuses (gb_meta x4) = statuses (gb_meta g)"
    using steps(4) by (auto simp: tx_exec_def on_tables_def x m2 split: sum.splits prod.splits dest!: watermark_statuses)
  note f = finalize_all_Inr [OF steps(6) assms(2)]
  have "statuses (gb_meta x7) = statuses (gb_meta x6)"
    using steps(7) by (auto simp: tx_return_def tx_exec_def on_tables_def split: if_splits sum.splits prod.splits
        dest!: resolve_statuses)
  moreover have "fin = fin'" "x' = x7" using steps(8) by (auto simp: tx_return_def)
  ultimately show ?thesis using f m4 by (simp add: c x)
qed

lemma statuses_lookup: "get_ingestion_run_status i db = map_of (statuses db) i"
proof -
  have "map_option ir_status (find (\<lambda>r. ir_id r = i) rows) = map_of (map (\<lambda>r. (ir_id r, ir_status r)) rows) i" for rows
    by (induction rows) auto
  then show ?thesis by (simp add: get_ingestion_run_status_def find_run_def statuses_def)
qed

lemma succeed_lookup:
  "map_of (succeed ids sts) i = map_option (\<lambda>s. if i \<in> set ids then ''SUCCEEDED'' else s) (map_of sts i)"
  by (induction sts) (auto simp: succeed_def)

lemma succeed_other: "i \<notin> set ids \<Longrightarrow> map_of (succeed ids sts) i = map_of sts i"
  by (induction sts) (auto simp: succeed_def)

text \<open>The runs a pass takes: the dataset's STAGED runs, by increasing identity.\<close>

definition runs_to_publish :: "string \<Rightarrow> meta_db \<Rightarrow> int list" where
  "runs_to_publish dataset db =
     (let d = snd (get_or_create_dataset dataset db) in
      sort (map ir_id (filter (\<lambda>r. ir_dataset_id r = d \<and> ir_status r = ''STAGED'') (md_runs db))))"

lemma sort_key_map_key: "map f (sort_key f xs) = sort (map f xs)"
proof -
  have "map f (insort_key f x xs) = insort (f x) (map f xs)" for x xs by (induction xs) auto
  then show ?thesis by (induction xs) auto
qed

lemma pass_finalizes:
  assumes "publish_ingest w cfg g = (Inr out, g')" and "po_status out = ''SUCCEEDED''" and "meta_inv (gb_meta g)"
  shows "po_runs_finalized out =
      filter (publishable (pw_now w) (gb_meta g)) (runs_to_publish (ds_dataset cfg) (gb_meta g)) \<and>
    distinct (po_runs_finalized out) \<and>
    (\<forall>i. get_ingestion_run_status i (gb_meta g') =
      (if i \<in> set (po_runs_finalized out) then Some ''SUCCEEDED'' else get_ingestion_run_status i (gb_meta g)))"
proof -
  obtain g1 d where own: "own_tables (get_or_create_dataset (ds_dataset cfg)) g = (g1, d)" by fastforce
  have first: "stages_only g g1" using stages_only_own(3) [of g "ds_dataset cfg"] own by simp
  have g1: "gb_meta g1 = fst (get_or_create_dataset (ds_dataset cfg) (gb_meta g))"
    "d = snd (get_or_create_dataset (ds_dataset cfg) (gb_meta g))" using own by (auto simp: own_tables_def)
  have inv1: "meta_inv (gb_meta g1)"
    using meta_inv_step [of "OpDataset (ds_dataset cfg)" "gb_meta g"] assms(3) by (simp add: g1)
  have stages: "md_stages (gb_meta g1) = md_stages (gb_meta g)"
    using exec_stages_frame [of "OpDataset (ds_dataset cfg)" "gb_meta g"] by (simp add: g1)
  have same: "statuses (gb_meta g1) = statuses (gb_meta g)" "publishable now (gb_meta g1) = publishable now (gb_meta g)" for now
    using first stages by (auto simp: statuses_def publishable_def run_staged_def stages_only_def fun_eq_iff)
  obtain staged where staged: "list_staged_run_ids d (gb_meta g1) = Inr staged"
    using assms own by (cases "list_staged_run_ids d (gb_meta g1)") (auto simp: publish_ingest_def)
  have dist: "distinct (map sn_run_id staged)" by (rule list_staged_distinct [OF staged inv1])
  have ids: "map sn_run_id staged = runs_to_publish (ds_dataset cfg) (gb_meta g)"
    using list_staged_ids [OF staged] first
    by (simp add: runs_to_publish_def sort_key_map_key g1(2) [symmetric] stages_only_def)
  have "po_runs_finalized out = filter (publishable (pw_now w) (gb_meta g)) (map sn_run_id staged) \<and>
      statuses (gb_meta g') = succeed (po_runs_finalized out) (statuses (gb_meta g))"
  proof (cases "staged = []")
    case True
    then have "po_runs_finalized out = [] \<and> g' = g1"
      using assms(1) own staged by (auto simp: publish_ingest_def)
    then show ?thesis using same True by simp
  next
    case False
    let ?T = "publish_transaction w cfg d staged"
    obtain res fin where run: "tx_run ?T g1 = (Inr (res, fin), g')" "po_runs_finalized out = fin"
      using assms(1,2) own staged False by (auto simp: publish_ingest_def split: if_splits sum.splits prod.splits)
    obtain c where t: "?T (g1, g1) = (Inr (res, fin), (c, g'))"
      using run(1) by (cases ?T g1 rule: tx_run_cases) simp_all
    show ?thesis using publish_transaction_Inr [OF t dist] by (simp add: same run(2))
  qed
  then have fin: "po_runs_finalized out = filter (publishable (pw_now w) (gb_meta g)) (runs_to_publish (ds_dataset cfg) (gb_meta g))"
    and sts: "statuses (gb_meta g') = succeed (po_runs_finalized out) (statuses (gb_meta g))" by (simp_all add: ids)
  have "get_ingestion_run_status i (gb_meta g') =
      (if i \<in> set (po_runs_finalized out) then Some ''SUCCEEDED'' else get_ingestion_run_status i (gb_meta g))" for i
  proof -
    have "get_ingestion_run_status i (gb_meta g) \<noteq> None" if "i \<in> set (po_runs_finalized out)"
    proof -
      have "publishable (pw_now w) (gb_meta g) i" using that by (simp add: fin)
      then show ?thesis
        by (auto simp: publishable_def run_staged_def list_ex_iff get_ingestion_run_status_def find_run_def find_None_iff)
    qed
    then show ?thesis
      by (cases "i \<in> set (po_runs_finalized out)") (auto simp: statuses_lookup sts succeed_lookup option.map_ident)
  qed
  moreover have "distinct (po_runs_finalized out)" using dist by (simp add: fin ids [symmetric] distinct_filter)
  ultimately show ?thesis using fin by blast
qed

text \<open>C6: A pass that succeeds finalizes its runs, each once.  The runs it reports finalized are exactly
  the dataset's STAGED runs whose PUBLISH stage can be claimed, in order; they and no others become
  SUCCEEDED; in particular, where no stage of the dataset's runs is left over, every STAGED run is
  published and none is left.\<close>

theorem publication_finalizes:
  assumes "publish_ingest w cfg g = (Inr out, g')" and "po_status out = ''SUCCEEDED''" and "meta_inv (gb_meta g)"
  shows "po_runs_finalized out =
      filter (publishable (pw_now w) (gb_meta g)) (runs_to_publish (ds_dataset cfg) (gb_meta g)) \<and>
    distinct (po_runs_finalized out) \<and>
    (\<forall>i. get_ingestion_run_status i (gb_meta g') =
      (if i \<in> set (po_runs_finalized out) then Some ''SUCCEEDED'' else get_ingestion_run_status i (gb_meta g)))"
  by (rule pass_finalizes [OF assms])

text \<open>
  The PUBLISH stage is completed on a connection of its own, before the pass commits.  A pass that dies
  in between leaves its run STAGED with the stage SUCCEEDED, which is not claimable.
\<close>

lemma failed_publication_frame:
  assumes "publish_ingest w cfg g = (Inl e, g')"
  shows "statuses (gb_meta g') = statuses (gb_meta g)"
  using failed_pass_quiet [OF assms] by (simp add: stages_only_def statuses_def)

text \<open>A stranded run is never published.  A run that is STAGED while its PUBLISH stage is
  recorded SUCCEEDED (what a pass that dies or fails after completing the stage leaves behind) stays STAGED
  through every later pass, successful or failed, at any time, until a quality breaker quarantines it: no
  pass finalizes it.\<close>

theorem stranded_run_never_published:
  assumes "meta_inv (gb_meta g)" and "get_ingestion_run_status i (gb_meta g) = Some ''STAGED''"
    and "get_run_stage_status i ''PUBLISH'' (gb_meta g) = Some ''SUCCEEDED''"
  shows "case publish_ingest w cfg g of
      (Inl e, g') \<Rightarrow> get_ingestion_run_status i (gb_meta g') = Some ''STAGED''
    | (Inr out, g') \<Rightarrow> i \<notin> set (po_runs_finalized out) \<and>
        (po_status out = ''SUCCEEDED'' \<longrightarrow> get_ingestion_run_status i (gb_meta g') = Some ''STAGED'')"
proof (cases "publish_ingest w cfg g")
  case (Pair r g')
  have stuck: "\<not> publishable now (gb_meta g) i" for now
    using assms(3) by (auto simp: publishable_def get_run_stage_status_def stage_claimable_def split: option.splits)
  show ?thesis
  proof (cases r)
    case (Inl e)
    from failed_publication_frame [OF Pair [unfolded Inl]]
    show ?thesis using Pair Inl assms(2) by (simp add: statuses_lookup)
  next
    case (Inr out)
    note run = Pair [unfolded Inr]
    have "i \<notin> set (po_runs_finalized out) \<and>
        (po_status out = ''SUCCEEDED'' \<longrightarrow> get_ingestion_run_status i (gb_meta g') = Some ''STAGED'')"
    proof (cases "po_status out = ''SUCCEEDED''")
      case True
      then show ?thesis using pass_finalizes [OF run True assms(1)] stuck assms(2) by simp
    next
      case False
      then show ?thesis using run
        by (auto simp: publish_ingest_def split: prod.splits sum.splits if_splits)
    qed
    then show ?thesis using Pair Inr by simp
  qed
qed

section \<open>Sample passes\<close>

definition staged_meta :: meta_db where
  "staged_meta = exec_all [OpDataset ''customers'', OpFile sample_file, OpBatch 1 ''b'' ''OPEN'', OpRun sample_run,
     OpClaim 10 ''k'' (sample_claim ''pod-a''), OpStatus 1 ''STAGED'' []] (empty_meta\<lparr>md_config_versions := [1]\<rparr>)"

lemma staged_meta_inv: "meta_inv staged_meta"
  unfolding staged_meta_def by (rule meta_inv_exec_all) (rule meta_inv_start)

definition sample_gold_db :: "warehouse \<Rightarrow> gold_db" where
  "sample_gold_db wh = \<lparr>gb_meta = staged_meta, gb_silver = [], gb_gold = (\<lambda>_. None), gb_scd = wh\<rparr>"

definition sample_publish_world :: publish_world where
  "sample_publish_world = \<lparr>pw_sha256 = id, pw_to_int = py_int, pw_aggregate = (\<lambda>_. Inr (2, 2, no_columns)),
     pw_now = 100, pw_pod = ''pod-p'', pw_finished_at = 101, pw_duration_ms = 1\<rparr>"

text \<open>Run 1 delivers customer 2 only, so customer 1 vanishes: half of the current customers.\<close>

definition vanishing_warehouse :: warehouse where
  "vanishing_warehouse = \<lparr>wh_bronze = [sample_bronze 9 ''1'' ''PL'' 10, sample_bronze 1 ''2'' ''DE'' 20],
     wh_gold = [sample_gold 1 10, sample_gold 2 10], wh_quarantined = []\<rparr>"

theorem publication_finalizes_witness:
  "\<exists>out g'. publish_ingest sample_publish_world (sample_scd_config (1/2)) (sample_gold_db sample_warehouse) = (Inr out, g') \<and>
     po_runs_finalized out = [1] \<and> get_ingestion_run_status 1 (gb_meta g') = Some ''SUCCEEDED''"
proof -
  let ?run = "publish_ingest sample_publish_world (sample_scd_config (1/2)) (sample_gold_db sample_warehouse)"
  have "(case ?run of (Inl _, _) \<Rightarrow> False | (Inr out, _) \<Rightarrow> po_status out = ''SUCCEEDED'')" by code_simp
  then obtain out g' where run: "?run = (Inr out, g')" "po_status out = ''SUCCEEDED''"
    by (cases ?run) (auto split: sum.splits)
  have "filter (publishable (pw_now sample_publish_world) (gb_meta (sample_gold_db sample_warehouse)))
      (runs_to_publish (ds_dataset (sample_scd_config (1/2))) (gb_meta (sample_gold_db sample_warehouse))) = [1]"
    by code_simp
  moreover have "meta_inv (gb_meta (sample_gold_db sample_warehouse))"
    by (simp add: sample_gold_db_def staged_meta_inv)
  ultimately show ?thesis using publication_finalizes [OF run] run(1) by auto
qed

theorem failed_publication_publishes_nothing_witness:
  "\<exists>e g'. publish_ingest sample_publish_world ((sample_scd_config (1/2))\<lparr>ds_load := \<lparr>lo_strategy = ''append'', lo_target = ''t''\<rparr>\<rparr>)
       (sample_gold_db sample_warehouse) = (Inl e, g') \<and> stages_only (sample_gold_db sample_warehouse) g'"
proof -
  let ?run = "publish_ingest sample_publish_world ((sample_scd_config (1/2))\<lparr>ds_load := \<lparr>lo_strategy = ''append'', lo_target = ''t''\<rparr>\<rparr>)
       (sample_gold_db sample_warehouse)"
  have "(case ?run of (Inl _, _) \<Rightarrow> True | (Inr _, _) \<Rightarrow> False)" by code_simp
  then obtain e g' where "?run = (Inl e, g')" by (cases ?run) (auto split: sum.splits)
  then show ?thesis using failed_publication_publishes_nothing by blast
qed

theorem quarantine_frees_dataset_witness:
  "\<exists>out g'. publish_ingest sample_publish_world (sample_scd_config (1/10)) (sample_gold_db vanishing_warehouse) = (Inr out, g') \<and>
     po_runs_quarantined out = [1] \<and> gb_scd g' = vanishing_warehouse"
proof -
  let ?run = "publish_ingest sample_publish_world (sample_scd_config (1/10)) (sample_gold_db vanishing_warehouse)"
  have "(case ?run of (Inl _, _) \<Rightarrow> False | (Inr out, _) \<Rightarrow> po_status out = ''QUARANTINED'' \<and> po_runs_quarantined out = [1])"
    by code_simp
  then obtain out g' where run: "?run = (Inr out, g')" "po_status out = ''QUARANTINED''" "po_runs_quarantined out = [1]"
    by (cases ?run) (auto split: sum.splits)
  from quarantine_frees_dataset [OF run(1,2)] have "gb_scd g' = gb_scd (sample_gold_db vanishing_warehouse)" by blast
  then show ?thesis using run by (simp add: sample_gold_db_def)
qed

text \<open>The state a pass leaves when its process dies just before the commit.\<close>

definition crashed_gold_db :: gold_db where
  "crashed_gold_db = tx_crash (publish_transaction sample_publish_world (sample_scd_config (1/2)) 1
     [\<lparr>sn_run_id = 1, sn_file_id = 1, sn_batch_id = 1, sn_report_uri = SqlNull\<rparr>]) (sample_gold_db sample_warehouse)"

theorem stranded_run_never_published_witness:
  "get_ingestion_run_status 1 (gb_meta crashed_gold_db) = Some ''STAGED'' \<and>
   run_recovery_action 1 (gb_meta crashed_gold_db) = Some ''retry stage STAGE_LOAD'' \<and>
   (case publish_ingest sample_publish_world (sample_scd_config (1/2)) crashed_gold_db of
      (Inl e, g') \<Rightarrow> True | (Inr out, g') \<Rightarrow> 1 \<notin> set (po_runs_finalized out))"
proof -
  have crashed: "get_ingestion_run_status 1 (gb_meta crashed_gold_db) = Some ''STAGED''"
    "get_run_stage_status 1 ''PUBLISH'' (gb_meta crashed_gold_db) = Some ''SUCCEEDED''"
    "run_recovery_action 1 (gb_meta crashed_gold_db) = Some ''retry stage STAGE_LOAD''"
    by code_simp+
  have "meta_inv (gb_meta (sample_gold_db sample_warehouse)) \<longrightarrow> meta_inv (gb_meta crashed_gold_db)"
    unfolding crashed_gold_db_def by (rule tx_keeps_run(2) [OF publish_keeps_inv])
  then have "meta_inv (gb_meta crashed_gold_db)" by (simp add: sample_gold_db_def staged_meta_inv)
  from stranded_run_never_published [OF this crashed(1,2), of sample_publish_world "sample_scd_config (1/2)"]
  show ?thesis using crashed by (auto split: prod.splits sum.splits)
qed

end
