(* ===== verification/Json.thy ===== *)
theory Json
  imports PyNumbers
begin

text \<open>
  The canonical JSON text that every stored hash is taken of (\<open>config/hashing.py\<close>,
  \<open>schema/versioning.py\<close>): \<open>json.dumps\<close> of the standard library with the separators
  \<open>","\<close> and \<open>":"\<close> and \<open>ensure_ascii=False\<close>.  An object keeps the order of its keys.
  The text determines the value, so that two different documents hash equally only by a
  collision of the hash function.  Floats are not modelled: no hashed document of the program
  has one.
\<close>

datatype json =
    JNull
  | JBool bool
  | JInt int
  | JStr string
  | JArr "json list"
  | JObj "(string \<times> json) list"

section \<open>The encoder\<close>

definition hex_digit :: "nat \<Rightarrow> char" where
  "hex_digit n = (if n < 10 then char_of (48 + n) else char_of (87 + n))"

text \<open>The escapes of \<open>ESCAPE_DCT\<close>; every other control character is \<open>\u00xx\<close>.\<close>

definition json_escape :: "char \<Rightarrow> string" where
  "json_escape c =
     (let n = (of_char c :: nat) in
      if n = 34 then [CHR 0x5C, CHR 0x22]
      else if n = 92 then [CHR 0x5C, CHR 0x5C]
      else if n = 10 then [CHR 0x5C, CHR ''n'']
      else if n = 13 then [CHR 0x5C, CHR ''r'']
      else if n = 9 then [CHR 0x5C, CHR ''t'']
      else if n = 12 then [CHR 0x5C, CHR ''f'']
      else if n = 8 then [CHR 0x5C, CHR ''b'']
      else if n < 32 then [CHR 0x5C, CHR ''u'', CHR ''0'', CHR ''0'', hex_digit (n div 16), hex_digit (n mod 16)]
      else [c])"

definition json_string :: "string \<Rightarrow> string" where
  "json_string s = CHR 0x22 # concat (map json_escape s) @ [CHR 0x22]"

fun json_dumps :: "json \<Rightarrow> string" where
  "json_dumps JNull = ''null''"
| "json_dumps (JBool b) = (if b then ''true'' else ''false'')"
| "json_dumps (JInt i) = show_int i"
| "json_dumps (JStr s) = json_string s"
| "json_dumps (JArr xs) = ''['' @ join '','' (map json_dumps xs) @ '']''"
| "json_dumps (JObj kvs) =
     ''{'' @ join '','' (map (\<lambda>kv. json_string (fst kv) @ '':'' @ json_dumps (snd kv)) kvs) @ ''}''"

definition object_member :: "string \<times> json \<Rightarrow> string" where
  "object_member kv = json_string (fst kv) @ '':'' @ json_dumps (snd kv)"

section \<open>The text determines the value\<close>

text \<open>Reading one character back.\<close>

definition hex_value :: "char \<Rightarrow> nat" where
  "hex_value c = (let n = of_char c in if n < 58 then n - 48 else n - 87)"

lemma hex_value_digit: "n < 16 \<Longrightarrow> hex_value (hex_digit n) = n"
proof -
  have "list_all (\<lambda>n. hex_value (hex_digit n) = n) [0..<16]" by code_simp
  then show "n < 16 \<Longrightarrow> hex_value (hex_digit n) = n" by (simp add: list_all_iff)
qed

definition short_escapes :: "(char \<times> char) list" where
  "short_escapes = [(CHR ''n'', CHR 0x0A), (CHR ''r'', CHR 0x0D), (CHR ''t'', CHR 0x09),
     (CHR ''f'', CHR 0x0C), (CHR ''b'', CHR 0x08), (CHR 0x22, CHR 0x22), (CHR 0x5C, CHR 0x5C)]"

fun json_unescape :: "string \<Rightarrow> (char \<times> string) option" where
  "json_unescape [] = None"
| "json_unescape (c # s) =
     (if c \<noteq> CHR 0x5C then Some (c, s)
      else case s of
        [] \<Rightarrow> None
      | e # t \<Rightarrow>
          (case map_of short_escapes e of
             Some d \<Rightarrow> Some (d, t)
           | None \<Rightarrow> Some (char_of (16 * hex_value (t ! 2) + hex_value (t ! 3)), drop 4 t)))"

lemma char_codes:
  "char_of (34::nat) = CHR 0x22" "char_of (92::nat) = CHR 0x5C" "char_of (10::nat) = CHR 0x0A"
  "char_of (13::nat) = CHR 0x0D" "char_of (9::nat) = CHR 0x09" "char_of (12::nat) = CHR 0x0C"
  "char_of (8::nat) = CHR 0x08"
  by code_simp+

lemma of_charD: "(of_char c :: nat) = n \<Longrightarrow> c = char_of n"
  by auto

lemma json_unescape_escape: "json_unescape (json_escape c @ s) = Some (c, s)"
proof -
  consider "(of_char c :: nat) \<in> {34, 92, 10, 13, 9, 12, 8}"
    | "(of_char c :: nat) < 32" "(of_char c :: nat) \<notin> {34, 92, 10, 13, 9, 12, 8}"
    | "32 \<le> (of_char c :: nat)" "(of_char c :: nat) \<notin> {34, 92, 10, 13, 9, 12, 8}"
    by linarith
  then show ?thesis
  proof cases
    case 1
    then show ?thesis
      by - (elim insertE emptyE; frule of_charD;
        simp add: json_escape_def short_escapes_def char_codes)
  next
    case 2
    then have "16 * hex_value (hex_digit (of_char c div 16)) + hex_value (hex_digit (of_char c mod 16)) = of_char c"
      by (simp add: hex_value_digit)
    with 2 show ?thesis
      by (simp add: json_escape_def Let_def short_escapes_def)
  next
    case 3
    then have "c \<noteq> CHR 0x5C" by auto
    with 3 show ?thesis by (simp add: json_escape_def Let_def)
  qed
qed

lemma json_escape_head: "json_escape c \<noteq> [] \<and> hd (json_escape c) \<noteq> CHR 0x22"
proof -
  have "(of_char c :: nat) \<noteq> 34 \<Longrightarrow> c \<noteq> CHR 0x22" by auto
  then show ?thesis by (simp add: json_escape_def Let_def)
qed

lemma json_escape_first [simp]:
  "json_escape c @ s \<noteq> CHR 0x22 # t" "CHR 0x22 # t \<noteq> json_escape c @ s"
  using json_escape_head [of c] by (cases "json_escape c", simp_all)+

lemma json_body_cancel:
  "concat (map json_escape a) @ CHR 0x22 # x = concat (map json_escape b) @ CHR 0x22 # y \<Longrightarrow> a = b \<and> x = y"
proof (induction a arbitrary: b)
  case Nil
  then show ?case
    by (cases b) simp_all
next
  case (Cons c cs)
  show ?case
  proof (cases b)
    case Nil
    then show ?thesis using Cons.prems by simp
  next
    case (Cons d ds)
    from Cons.prems have
      "json_escape c @ (concat (map json_escape cs) @ CHR 0x22 # x) =
       json_escape d @ (concat (map json_escape ds) @ CHR 0x22 # y)"
      by (simp add: Cons)
    from arg_cong [OF this, of json_unescape]
    have "c = d" "concat (map json_escape cs) @ CHR 0x22 # x = concat (map json_escape ds) @ CHR 0x22 # y"
      by (simp_all only: json_unescape_escape option.inject prod.inject)
    with Cons.IH Cons show ?thesis by simp
  qed
qed

lemma json_string_cancel: "json_string a @ x = json_string b @ y \<Longrightarrow> a = b \<and> x = y"
  by (rule json_body_cancel) (simp add: json_string_def)

text \<open>What may follow a value inside a document.\<close>

definition terminated :: "string \<Rightarrow> bool" where
  "terminated x \<longleftrightarrow> x = [] \<or> hd x \<in> {CHR '','', CHR '']'', CHR ''}''}"

definition cancels :: "('a \<Rightarrow> string) \<Rightarrow> 'a \<Rightarrow> bool" where
  "cancels enc a \<longleftrightarrow> enc a \<noteq> [] \<and> \<not> terminated (enc a) \<and>
     (\<forall>b x y. enc a @ x = enc b @ y \<longrightarrow> terminated x \<longrightarrow> terminated y \<longrightarrow> a = b \<and> x = y)"

lemma terminated_simps [simp]:
  "terminated (CHR '','' # x)" "terminated (CHR '']'' # x)" "terminated (CHR ''}'' # x)"
  by (simp_all add: terminated_def)

lemma show_int_span: "\<forall>c \<in> set (show_int i). is_digit c \<or> c = CHR ''-''"
  by (auto simp: show_int_def dest: show_nat_digits)

lemma show_int_cancel:
  assumes "show_int i @ x = show_int j @ y" and "terminated x" and "terminated y"
  shows "i = j \<and> x = y"
proof -
  let ?P = "\<lambda>c. is_digit c \<or> c = CHR ''-''"
  have stop: "takeWhile ?P z = []" if "terminated z" for z
    using that by (cases z) (auto simp: terminated_def is_digit_def)
  have "takeWhile ?P (show_int k @ z) = show_int k" if "terminated z" for k z
    using show_int_span stop [OF that] by (subst takeWhile_append2) auto
  then have "show_int i = show_int j" using assms by metis
  with assms show ?thesis using show_int_inj by auto
qed

lemma join_cancel:
  assumes "\<forall>a \<in> set as. cancels enc a" and "\<forall>b \<in> set bs. \<not> terminated (enc b)"
    and "c \<in> {CHR '']'', CHR ''}''}"
    and "join '','' (map enc as) @ c # x = join '','' (map enc bs) @ c # y"
  shows "as = bs \<and> x = y"
proof -
  define rest where "rest vs z = (if vs = [] then c # z else CHR '','' # join '','' (map enc vs) @ c # z)" for vs z
  have split: "join '','' (map enc (v # vs)) @ c # z = enc v @ rest vs z" for v vs z
    by (cases vs) (simp_all add: rest_def)
  have first: "enc v @ z \<noteq> c # z'" if "\<not> terminated (enc v)" for v z z'
    using that assms(3) by (cases "enc v") (auto simp: terminated_def)
  show ?thesis using assms(1,2,4)
proof (induction as arbitrary: bs)
  case Nil
  show ?case
  proof (cases bs)
    case Nil
    then show ?thesis using Nil.prems by simp
  next
    case (Cons b bs')
    from Nil.prems(3) [symmetric] have "enc b @ rest bs' y = c # x" unfolding Cons split by simp
    with first [of b] Nil.prems(2) Cons show ?thesis by simp
  qed
next
  case (Cons a as)
  from Cons.prems have a: "cancels enc a" by simp
  show ?case
  proof (cases bs)
    case Nil
    from Cons.prems(3) have "enc a @ rest as x = c # y" unfolding Nil split by simp
    with first [of a] a show ?thesis by (simp add: cancels_def)
  next
    case (Cons b bs')
    have "enc a @ rest as x = enc b @ rest bs' y"
      using Cons.prems(3) unfolding Cons split .
    moreover have "terminated (rest vs z)" for vs z
      using assms(3) by (auto simp: rest_def terminated_def)
    ultimately have eq: "a = b" "rest as x = rest bs' y" using a by (auto simp: cancels_def)
    then have "as = [] \<longleftrightarrow> bs' = []" using assms(3) by (auto simp: rest_def split: if_splits)
    with eq Cons Cons.IH [of bs'] Cons.prems show ?thesis
      by (cases "as = []") (auto simp: rest_def)
  qed
qed
qed



lemma json_dumps_lead: "json_dumps j \<noteq> [] \<and> \<not> terminated (json_dumps j)"
proof (cases j)
  case (JInt i)
  then show ?thesis
    using show_int_span [of i] by (cases "show_int i") (auto simp: terminated_def is_digit_def show_int_def split: if_splits)
qed (auto simp: terminated_def json_string_def)

lemma object_member_cancels: "cancels json_dumps v \<Longrightarrow> cancels object_member (k, v)"
proof -
  assume v: "cancels json_dumps v"
  have lead: "object_member kv \<noteq> [] \<and> \<not> terminated (object_member kv)" for kv
    by (simp add: object_member_def json_string_def terminated_def)
  have "(k, v) = b \<and> x = y"
    if eq: "object_member (k, v) @ x = object_member b @ y" and "terminated x" "terminated y" for b x y
  proof -
    obtain k' w where b: "b = (k', w)" by (cases b)
    have "json_string k @ (CHR '':'' # json_dumps v @ x) = json_string k' @ (CHR '':'' # json_dumps w @ y)"
      using eq by (simp add: object_member_def b)
    then have "k = k'" "json_dumps v @ x = json_dumps w @ y" by (auto dest: json_string_cancel)
    then show ?thesis using v \<open>terminated x\<close> \<open>terminated y\<close> by (simp add: cancels_def b)
  qed
  with lead show ?thesis by (simp add: cancels_def)
qed

lemma json_dumps_obj: "json_dumps (JObj kvs) = ''{'' @ join '','' (map object_member kvs) @ ''}''"
  by (simp add: object_member_def [abs_def])

text \<open>The first character of a text says which constructor it is of.\<close>

fun json_tag :: "json \<Rightarrow> nat" where
  "json_tag JNull = 0" | "json_tag (JBool b) = (if b then 1 else 2)" | "json_tag (JStr s) = 3"
| "json_tag (JArr xs) = 4" | "json_tag (JObj kvs) = 5" | "json_tag (JInt i) = 6"

definition tag_of_lead :: "char \<Rightarrow> nat" where
  "tag_of_lead c = (if c = CHR ''n'' then 0 else if c = CHR ''t'' then 1 else if c = CHR ''f'' then 2
     else if c = CHR 0x22 then 3 else if c = CHR ''['' then 4 else if c = CHR ''{'' then 5 else 6)"

lemma tag_of_lead_dumps: "tag_of_lead (hd (json_dumps j)) = json_tag j"
proof (cases j)
  case (JInt i)
  have "hd (show_int i) \<in> set (show_int i)" by (simp add: show_int_def)
  with show_int_span [of i] have "is_digit (hd (show_int i)) \<or> hd (show_int i) = CHR ''-''" by blast
  with JInt show ?thesis by (auto simp: tag_of_lead_def is_digit_def)
qed (simp_all add: tag_of_lead_def json_string_def)

lemma same_tag: "json_dumps a @ x = json_dumps b @ y \<Longrightarrow> json_tag a = json_tag b"
  using json_dumps_lead by (metis hd_append2 tag_of_lead_dumps)

lemma json_dumps_cancels: "cancels json_dumps j"
proof (induction j)
  case JNull
  have "JNull = b \<and> x = y" if "json_dumps JNull @ x = json_dumps b @ y" for b x y
    using same_tag [OF that] that by (cases b) (auto split: if_splits)
  then show ?case using json_dumps_lead by (auto simp: cancels_def simp del: json_dumps.simps)
next
  case (JBool v)
  have "JBool v = b \<and> x = y" if "json_dumps (JBool v) @ x = json_dumps b @ y" for b x y
    using same_tag [OF that] that by (cases b) (auto split: if_splits)
  then show ?case using json_dumps_lead by (auto simp: cancels_def simp del: json_dumps.simps)
next
  case (JInt i)
  have "JInt i = b \<and> x = y"
    if "json_dumps (JInt i) @ x = json_dumps b @ y" "terminated x" "terminated y" for b x y
    using same_tag [OF that(1)] that by (cases b) (auto dest: show_int_cancel split: if_splits)
  then show ?case using json_dumps_lead by (auto simp: cancels_def simp del: json_dumps.simps)
next
  case (JStr s)
  have "JStr s = b \<and> x = y" if "json_dumps (JStr s) @ x = json_dumps b @ y" for b x y
    using same_tag [OF that] that by (cases b) (auto dest: json_string_cancel split: if_splits)
  then show ?case using json_dumps_lead by (auto simp: cancels_def simp del: json_dumps.simps)
next
  case (JArr vs)
  have "JArr vs = b \<and> x = y" if eq: "json_dumps (JArr vs) @ x = json_dumps b @ y" for b x y
  proof -
    obtain ws where b: "b = JArr ws" using same_tag [OF eq] by (cases b) (auto split: if_splits)
    have "vs = ws \<and> x = y"
      by (rule join_cancel [where enc = json_dumps and c = "CHR '']''"])
        (use JArr eq b json_dumps_lead in simp_all)
    with b show ?thesis by simp
  qed
  then show ?case using json_dumps_lead by (auto simp: cancels_def simp del: json_dumps.simps)
next
  case (JObj kvs)
  have member: "cancels object_member kv" if "kv \<in> set kvs" for kv
    using JObj [of kv "snd kv"] that object_member_cancels [of "snd kv" "fst kv"] by (cases kv) auto
  have lead: "\<not> terminated (object_member kv)" for kv
    by (simp add: object_member_def json_string_def terminated_def)
  have "JObj kvs = b \<and> x = y" if eq: "json_dumps (JObj kvs) @ x = json_dumps b @ y" for b x y
  proof -
    obtain ws where b: "b = JObj ws" using same_tag [OF eq] by (cases b) (auto split: if_splits)
    have "kvs = ws \<and> x = y"
      by (rule join_cancel [where enc = object_member and c = "CHR ''}''"])
        (use member lead eq [unfolded b json_dumps_obj] in simp_all)
    with b show ?thesis by simp
  qed
  then show ?case using json_dumps_lead by (auto simp: cancels_def simp del: json_dumps.simps)
qed

lemma json_dumps_injective: "json_dumps a = json_dumps b \<longleftrightarrow> a = b"
proof
  assume eq: "json_dumps a = json_dumps b"
  have "json_dumps a @ [] = json_dumps b @ [] \<longrightarrow> terminated [] \<longrightarrow> terminated [] \<longrightarrow> a = b \<and> ([]::string) = []"
    using json_dumps_cancels [of a] unfolding cancels_def by blast
  with eq show "a = b" by (simp add: terminated_def)
qed simp

end
