(* ===== verification/Versions.thy ===== *)
theory Versions
  imports Metadata Json
begin

text \<open>
  The two version histories of schema \<open>meta\<close>: \<open>SchemaRepository\<close>
  (\<open>schema/repository.py\<close> on \<open>meta.schema_versions\<close>, migration \<open>0009\<close>) and
  \<open>ConfigRegistry\<close> (\<open>config/registry.py\<close> on \<open>meta.config_versions\<close>).  Both are the same
  protocol under the lock of the dataset row: a hash equal to the current version's changes
  nothing, another one closes the current row and inserts \<open>max(version) + 1\<close>.  What the protocol
  promises, a list of hashes per dataset that only grows, is the locale \<open>version_history\<close>,
  interpreted on both tables.
\<close>

section \<open>Hashes of documents\<close>

type_synonym column_descriptor = "(string \<times> json) list"

text \<open>The key order of a descriptor is kept; that of a configuration is an accident and is sorted away.\<close>

definition schema_text :: "column_descriptor list \<Rightarrow> string" where
  "schema_text columns = json_dumps (JArr (map JObj columns))"

definition hash_schema :: "(string \<Rightarrow> string) \<Rightarrow> column_descriptor list \<Rightarrow> string \<times> int" where
  "hash_schema sha256 columns = (sha256 (schema_text columns), 1)"

fun sort_keys :: "json \<Rightarrow> json" where
  "sort_keys (JArr xs) = JArr (map sort_keys xs)"
| "sort_keys (JObj kvs) = JObj (sort_key fst (map (\<lambda>kv. (fst kv, sort_keys (snd kv))) kvs))"
| "sort_keys j = j"

definition hash_config :: "(string \<Rightarrow> string) \<Rightarrow> json \<Rightarrow> string \<times> int" where
  "hash_config sha256 document = (sha256 (json_dumps (sort_keys document)), 1)"

section \<open>The tables\<close>

record 'd version_row =
  vs_id :: int
  vs_dataset_id :: int
  vs_version :: int
  vs_hash :: string
  vs_hash_version :: int
  vs_document :: 'd
  vs_valid_from :: int
  vs_valid_to :: "int option"

record schema_row = "column_descriptor list version_row" +
  vs_derived_from :: string
  vs_compatibility :: string
  vs_breaking_changes :: "json option"

record 'r version_table =
  vt_last_id :: int
  vt_rows :: "'r list"

definition versions_of :: "int \<Rightarrow> ('d, 'm) version_row_scheme list \<Rightarrow> ('d, 'm) version_row_scheme list" where
  "versions_of ds rows = filter (\<lambda>r. vs_dataset_id r = ds) rows"

definition current_version :: "int \<Rightarrow> ('d, 'm) version_row_scheme list \<Rightarrow> ('d, 'm) version_row_scheme option" where
  "current_version ds rows = find (\<lambda>r. vs_dataset_id r = ds \<and> vs_valid_to r = None) rows"

text \<open>\<open>COALESCE((SELECT MAX(version) ...) + 1, 1)\<close>.\<close>

definition next_version :: "int \<Rightarrow> ('d, 'm) version_row_scheme list \<Rightarrow> int" where
  "next_version ds rows =
     (case max_id (map vs_version (versions_of ds rows)) of None \<Rightarrow> 1 | Some v \<Rightarrow> v + 1)"

definition close_version :: "int \<Rightarrow> int \<Rightarrow> ('d, 'm) version_row_scheme list \<Rightarrow> ('d, 'm) version_row_scheme list" where
  "close_version now i rows = map (\<lambda>r. if vs_id r = i then r\<lparr>vs_valid_to := Some now\<rparr> else r) rows"

text \<open>The unique constraint on \<open>(dataset_id, version)\<close> and the partial one on the current row.\<close>

definition insert_version :: "('d, 'm) version_row_scheme \<Rightarrow> ('d, 'm) version_row_scheme version_table \<Rightarrow>
    exn + ('d, 'm) version_row_scheme version_table" where
  "insert_version new t =
     (if list_ex (\<lambda>r. vs_dataset_id r = vs_dataset_id new \<and>
           (vs_version r = vs_version new \<or> (vs_valid_to r = None \<and> vs_valid_to new = None))) (vt_rows t)
      then Inl (Exn DatabaseError [])
      else Inr (t\<lparr>vt_last_id := vs_id new, vt_rows := vt_rows t @ [new]\<rparr>))"

text \<open>The body of \<open>sync\<close>: \<open>new i v\<close> is the row to insert as version \<open>v\<close> under identity \<open>i\<close>.\<close>

definition sync_version :: "int \<Rightarrow> int \<Rightarrow> string \<Rightarrow> (int \<Rightarrow> int \<Rightarrow> ('d, 'm) version_row_scheme) \<Rightarrow>
    ('d, 'm) version_row_scheme version_table \<Rightarrow>
    exn + ('d, 'm) version_row_scheme version_table \<times> ('d, 'm) version_row_scheme \<times> bool" where
  "sync_version now ds h new t =
     (let insert = (\<lambda>rows.
            let row = new (vt_last_id t + 1) (next_version ds rows)
            in case insert_version row (t\<lparr>vt_rows := rows\<rparr>) of
                 Inl e \<Rightarrow> Inl e | Inr t' \<Rightarrow> Inr (t', (row, True)))
      in case current_version ds (vt_rows t) of
           None \<Rightarrow> insert (vt_rows t)
         | Some r \<Rightarrow>
             if vs_hash r = h then Inr (t, (r, False))
             else insert (close_version now (vs_id r) (vt_rows t)))"

section \<open>The repositories\<close>

record catalog =
  ct_meta :: meta_db
  ct_schemas :: "schema_row version_table"
  ct_configs :: "json version_row version_table"

record schema_version_record =
  sv_schema_version_id :: int
  sv_version :: int
  sv_schema_hash :: string
  sv_compatibility :: string
  sv_is_new :: bool

definition schema_record :: "bool \<Rightarrow> schema_row \<Rightarrow> schema_version_record" where
  "schema_record is_new r =
     \<lparr>sv_schema_version_id = vs_id r, sv_version = vs_version r, sv_schema_hash = vs_hash r,
      sv_compatibility = vs_compatibility r, sv_is_new = is_new\<rparr>"

definition new_schema_row :: "int \<Rightarrow> int \<Rightarrow> string \<times> int \<Rightarrow> column_descriptor list \<Rightarrow> string \<Rightarrow> string \<Rightarrow>
    json option \<Rightarrow> int \<Rightarrow> int \<Rightarrow> schema_row" where
  "new_schema_row now ds h columns derived_from compatibility breaking i v =
     \<lparr>vs_id = i, vs_dataset_id = ds, vs_version = v, vs_hash = fst h, vs_hash_version = snd h,
      vs_document = columns, vs_valid_from = now, vs_valid_to = None,
      vs_derived_from = derived_from, vs_compatibility = compatibility, vs_breaking_changes = breaking\<rparr>"

definition schema_sync :: "(string \<Rightarrow> string) \<Rightarrow> int \<Rightarrow> int \<Rightarrow> column_descriptor list \<Rightarrow> string \<Rightarrow> string \<Rightarrow>
    json option \<Rightarrow> catalog \<Rightarrow> exn + catalog \<times> schema_version_record" where
  "schema_sync sha256 now ds columns derived_from compatibility breaking c =
     (let h = hash_schema sha256 columns in
      if \<not> dataset_known (ct_meta c) ds then Inl (dp_error StorageError [])
      else case sync_version now ds (fst h)
                  (new_schema_row now ds h columns derived_from compatibility breaking) (ct_schemas c) of
             Inl e \<Rightarrow> Inl e
           | Inr (t, (r, is_new)) \<Rightarrow> Inr (c\<lparr>ct_schemas := t\<rparr>, schema_record is_new r))"

definition schema_get_current :: "int \<Rightarrow> catalog \<Rightarrow> schema_version_record option" where
  "schema_get_current ds c = map_option (schema_record False) (current_version ds (vt_rows (ct_schemas c)))"

text \<open>The query has no order; the model takes the oldest matching row.\<close>

definition schema_resolve_by_hash :: "int \<Rightarrow> string \<Rightarrow> catalog \<Rightarrow> exn + schema_version_record" where
  "schema_resolve_by_hash ds h c =
     (case find (\<lambda>r. vs_dataset_id r = ds \<and> vs_hash r = h) (vt_rows (ct_schemas c)) of
        None \<Rightarrow> Inl (dp_error StorageError [])
      | Some r \<Rightarrow> Inr (schema_record False r))"

record config_version_record =
  cv_config_version_id :: int
  cv_version :: int
  cv_config_hash :: string
  cv_is_new :: bool

definition new_config_row :: "int \<Rightarrow> int \<Rightarrow> string \<times> int \<Rightarrow> json \<Rightarrow> int \<Rightarrow> int \<Rightarrow> json version_row" where
  "new_config_row now ds h document i v =
     \<lparr>vs_id = i, vs_dataset_id = ds, vs_version = v, vs_hash = fst h, vs_hash_version = snd h,
      vs_document = document, vs_valid_from = now, vs_valid_to = None\<rparr>"

definition config_sync :: "(string \<Rightarrow> string) \<Rightarrow> int \<Rightarrow> string \<Rightarrow> json \<Rightarrow> catalog \<Rightarrow>
    exn + catalog \<times> config_version_record" where
  "config_sync sha256 now name document c =
     (let h = hash_config sha256 document;
          (db, ds) = get_or_create_dataset name (ct_meta c)
      in case sync_version now ds (fst h) (new_config_row now ds h document) (ct_configs c) of
           Inl e \<Rightarrow> Inl e
         | Inr (t, (r, is_new)) \<Rightarrow>
             Inr (c\<lparr>ct_meta := db\<lparr>md_config_versions := map vs_id (vt_rows t)\<rparr>, ct_configs := t\<rparr>,
                  \<lparr>cv_config_version_id = vs_id r, cv_version = vs_version r,
                   cv_config_hash = vs_hash r, cv_is_new = is_new\<rparr>))"

definition config_get_by_id :: "int \<Rightarrow> catalog \<Rightarrow> exn + json" where
  "config_get_by_id i c =
     (case find (\<lambda>r. vs_id r = i) (vt_rows (ct_configs c)) of
        None \<Rightarrow> Inl (dp_error StorageError [])
      | Some r \<Rightarrow> Inr (vs_document r))"

section \<open>What a version history promises\<close>

definition record_hash :: "'a \<Rightarrow> 'a list \<Rightarrow> 'a list" where
  "record_hash h hs = (if hs \<noteq> [] \<and> last hs = h then hs else hs @ [h])"

lemma record_hash_simps [simp]:
  "record_hash h hs \<noteq> []" "last (record_hash h hs) = h" "record_hash h (record_hash h hs) = record_hash h hs"
  by (auto simp: record_hash_def)

lemma length_record_hash:
  "length (record_hash h hs) = (if hs \<noteq> [] \<and> last hs = h then length hs else length hs + 1)"
  by (simp add: record_hash_def)

lemma record_hash_prefix: "take (length hs) (record_hash h hs) = hs"
  by (simp add: record_hash_def)

locale version_history =
  fixes history :: "'s \<Rightarrow> int \<Rightarrow> string list"
    and ok :: "'s \<Rightarrow> bool"
    and sync :: "int \<Rightarrow> string \<Rightarrow> 's \<Rightarrow> 's"
  assumes sync_ok: "ok s \<Longrightarrow> ok (sync ds h s)"
    and sync_history: "ok s \<Longrightarrow> history (sync ds h s) = (history s)(ds := record_hash h (history s ds))"
begin

definition syncs :: "int \<Rightarrow> string list \<Rightarrow> 's \<Rightarrow> 's" where
  "syncs ds hs s = foldl (\<lambda>s h. sync ds h s) s hs"

lemma syncs_ok: "ok s \<Longrightarrow> ok (syncs ds hs s)"
  by (induction hs arbitrary: s) (simp_all add: syncs_def sync_ok)

lemma syncs_history:
  "ok s \<Longrightarrow> history (syncs ds hs s) = (history s)(ds := foldl (\<lambda>l h. record_hash h l) (history s ds) hs)"
  by (induction hs arbitrary: s) (simp_all add: syncs_def sync_ok sync_history)

lemma sync_again: "ok s \<Longrightarrow> history (sync ds h (sync ds h s)) = history (sync ds h s)"
  by (simp add: sync_ok sync_history)

text \<open>Nothing that was recorded is lost, whatever is synced later.\<close>

lemma history_kept: "ok s \<Longrightarrow> take (length (history s ds)) (history (syncs ds hs s) ds) = history s ds"
proof (induction hs arbitrary: s)
  case Nil
  then show ?case by (simp add: syncs_def)
next
  case (Cons h hs)
  define s' where "s' = sync ds h s"
  have "take (length (history s' ds)) (history (syncs ds hs s') ds) = history s' ds"
    using Cons by (simp add: s'_def sync_ok)
  moreover have "take (length (history s ds)) (history s' ds) = history s ds"
    and "length (history s ds) \<le> length (history s' ds)"
    using Cons.prems by (simp_all add: s'_def sync_history record_hash_prefix length_record_hash)
  ultimately show ?case
    by (simp add: syncs_def flip: s'_def) (metis min.absorb1 take_take)
qed

text \<open>Two different hashes that alternate never settle: each round makes two versions.\<close>

lemma alternating_syncs:
  assumes "ok s" and "a \<noteq> b"
  shows "length (history s ds) + 2 * n \<le>
    length (history (syncs ds (concat (replicate n [a, b])) s) ds) + (if history s ds \<noteq> [] \<and> last (history s ds) = a \<and> 0 < n then 1 else 0)"
  using assms(1)
proof (induction n arbitrary: s)
  case 0
  then show ?case by (simp add: syncs_def)
next
  case (Suc n)
  define s' where "s' = sync ds b (sync ds a s)"
  have step: "syncs ds (concat (replicate (Suc n) [a, b])) s = syncs ds (concat (replicate n [a, b])) s'"
    by (simp add: syncs_def s'_def)
  have h: "history s' ds = record_hash b (record_hash a (history s ds))"
    using Suc.prems by (simp add: s'_def sync_ok sync_history)
  have "length (history s' ds) + 2 * n \<le> length (history (syncs ds (concat (replicate n [a, b])) s') ds)"
    using Suc.IH [of s'] Suc.prems assms(2) by (simp add: h) (simp add: s'_def sync_ok)
  moreover have "length (history s' ds) = length (record_hash a (history s ds)) + 1"
    using assms(2) by (simp add: h length_record_hash)
  ultimately show ?case unfolding step by (auto simp: length_record_hash)
qed

end

section \<open>The tables keep the promise\<close>

definition chain_ok :: "('d, 'm) version_row_scheme list \<Rightarrow> bool" where
  "chain_ok rs \<longleftrightarrow> map vs_version rs = map int [1..<Suc (length rs)] \<and>
     list_all (\<lambda>r. vs_valid_to r \<noteq> None) (butlast rs) \<and> (rs \<noteq> [] \<longrightarrow> vs_valid_to (last rs) = None)"

text \<open>
  Identities are distinct and drawn in order; the versions of a dataset are numbered from 1 and
  exactly the last one is current.
\<close>

definition versions_ok :: "('d, 'm) version_row_scheme version_table \<Rightarrow> bool" where
  "versions_ok t \<longleftrightarrow> distinct (map vs_id (vt_rows t)) \<and>
     list_all (\<lambda>r. vs_id r \<le> vt_last_id t) (vt_rows t) \<and>
     list_all (\<lambda>r. chain_ok (versions_of (vs_dataset_id r) (vt_rows t))) (vt_rows t)"

definition hash_history :: "('d, 'm) version_row_scheme version_table \<Rightarrow> int \<Rightarrow> string list" where
  "hash_history t ds = map vs_hash (versions_of ds (vt_rows t))"

lemma versions_ok_chain:
  assumes "versions_ok t"
  shows "chain_ok (versions_of ds (vt_rows t))"
proof (cases "versions_of ds (vt_rows t)")
  case Nil
  then show ?thesis by (simp add: chain_ok_def)
next
  case (Cons r rs)
  then have "r \<in> set (vt_rows t)" "vs_dataset_id r = ds" by (auto simp: versions_of_def filter_eq_Cons_iff)
  with assms show ?thesis by (auto simp: versions_ok_def list_all_iff)
qed

lemma find_filter_conj: "find (\<lambda>x. P x \<and> Q x) xs = find Q (filter P xs)"
  by (induction xs) auto

lemma chain_current: "chain_ok rs \<Longrightarrow> find (\<lambda>r. vs_valid_to r = None) rs = (if rs = [] then None else Some (last rs))"
proof (cases rs rule: rev_cases)
  case (snoc init r)
  assume "chain_ok rs"
  then have "find (\<lambda>r. vs_valid_to r = None) init = None" "vs_valid_to r = None"
    using snoc by (auto simp: chain_ok_def find_None_iff list_all_iff)
  then show ?thesis by (simp add: snoc find_append)
qed simp

lemma current_version_chain:
  "versions_ok t \<Longrightarrow> current_version ds (vt_rows t) =
     (let rs = versions_of ds (vt_rows t) in if rs = [] then None else Some (last rs))"
  using versions_ok_chain [of t ds]
  by (simp add: current_version_def find_filter_conj chain_current Let_def flip: versions_of_def)

lemma chain_next: "chain_ok (versions_of ds rows) \<Longrightarrow> next_version ds rows = int (length (versions_of ds rows)) + 1"
proof -
  let ?rs = "versions_of ds rows"
  assume "chain_ok ?rs"
  then have v: "map vs_version ?rs = map int [1..<Suc (length ?rs)]" by (simp add: chain_ok_def)
  show ?thesis
  proof (cases ?rs)
    case Nil
    then show ?thesis by (simp add: next_version_def max_id_def)
  next
    case (Cons r rs)
    have "set (map vs_version ?rs) = int ` {1..length ?rs}" unfolding v by (auto simp: atLeastLessThanSuc_atLeastAtMost)
    moreover have "Max (int ` {1..length ?rs}) = int (length ?rs)"
      using Cons by (auto intro!: Max_eqI image_eqI [where x = "length ?rs"])
    ultimately show ?thesis using Cons by (simp add: next_version_def max_id_def)
  qed
qed

text \<open>What closing the current row leaves: everything but the end of its validity.\<close>

definition version_core :: "('d, 'm) version_row_scheme \<Rightarrow> int \<times> int \<times> int \<times> string \<times> 'd \<times> int" where
  "version_core r = (vs_id r, vs_dataset_id r, vs_version r, vs_hash r, vs_document r, vs_valid_from r)"

lemma close_version_fields:
  "map vs_id (close_version now i rows) = map vs_id rows"
  "map version_core (close_version now i rows) = map version_core rows"
  by (auto simp: close_version_def version_core_def)

lemma versions_of_close: "versions_of ds (close_version now i rows) = close_version now i (versions_of ds rows)"
  by (induction rows) (auto simp: versions_of_def close_version_def)

lemma close_version_other: "i \<notin> vs_id ` set rows \<Longrightarrow> close_version now i rows = rows"
  by (induction rows) (auto simp: close_version_def)

lemma versions_of_append [simp]: "versions_of ds (xs @ ys) = versions_of ds xs @ versions_of ds ys"
  by (simp add: versions_of_def)

lemma hashes_of_close: "map vs_hash (close_version now i rows) = map vs_hash rows"
  by (auto simp: close_version_def)

lemma versions_of_close_version:
  "map vs_version (close_version now i rows) = map vs_version rows"
  by (auto simp: close_version_def)

text \<open>The rows as they are when the new one is inserted.\<close>

definition closed_rows :: "int \<Rightarrow> int \<Rightarrow> ('d, 'm) version_row_scheme version_table \<Rightarrow> ('d, 'm) version_row_scheme list" where
  "closed_rows now ds t =
     (case current_version ds (vt_rows t) of
        None \<Rightarrow> vt_rows t | Some r \<Rightarrow> close_version now (vs_id r) (vt_rows t))"

lemma closed_rows_same:
  "map vs_id (closed_rows now ds t) = map vs_id (vt_rows t)"
  "map version_core (closed_rows now ds t) = map version_core (vt_rows t)"
  "map vs_version (versions_of d (closed_rows now ds t)) = map vs_version (versions_of d (vt_rows t))"
  "map vs_hash (versions_of d (closed_rows now ds t)) = map vs_hash (versions_of d (vt_rows t))"
  by (simp_all add: closed_rows_def close_version_fields versions_of_close_version versions_of_close
      hashes_of_close split: option.split)

lemma closed_rows_length: "length (versions_of d (closed_rows now ds t)) = length (versions_of d (vt_rows t))"
  using closed_rows_same(4) by (metis length_map)

lemma closed_rows_closed:
  assumes "versions_ok t" and "r \<in> set (versions_of ds (closed_rows now ds t))"
  shows "vs_valid_to r \<noteq> None"
proof (cases "versions_of ds (vt_rows t)" rule: rev_cases)
  case Nil
  with assms show ?thesis
    by (simp add: closed_rows_def current_version_chain)
next
  case (snoc init l)
  with versions_ok_chain [OF assms(1), of ds] have "list_all (\<lambda>r. vs_valid_to r \<noteq> None) init"
    by (simp add: chain_ok_def)
  moreover have "versions_of ds (closed_rows now ds t) =
      map (\<lambda>r. if vs_id r = vs_id l then r\<lparr>vs_valid_to := Some now\<rparr> else r) (init @ [l])"
    using assms(1) snoc by (simp add: closed_rows_def current_version_chain versions_of_close) (simp add: close_version_def)
  ultimately show ?thesis using assms(2) by (auto simp: list_all_iff split: if_splits)
qed

lemma closed_rows_other:
  assumes "versions_ok t" and "d \<noteq> ds"
  shows "versions_of d (closed_rows now ds t) = versions_of d (vt_rows t)"
proof (cases "current_version ds (vt_rows t)")
  case None
  then show ?thesis by (simp add: closed_rows_def)
next
  case (Some r)
  then have r: "r \<in> set (vt_rows t)" "vs_dataset_id r = ds" by (auto simp: current_version_def dest!: find_SomeD)
  have "vs_id r \<notin> vs_id ` set (versions_of d (vt_rows t))"
  proof
    assume "vs_id r \<in> vs_id ` set (versions_of d (vt_rows t))"
    then obtain q where "q \<in> set (vt_rows t)" "vs_dataset_id q = d" "vs_id q = vs_id r"
      by (auto simp: versions_of_def)
    with assms r show False by (auto simp: versions_ok_def distinct_map dest: inj_onD)
  qed
  with Some show ?thesis by (simp add: closed_rows_def versions_of_close close_version_other)
qed

lemma insert_after_close:
  fixes t :: "('d, 'm) version_row_scheme version_table"
  assumes ok: "versions_ok t"
    and new: "vs_id row = vt_last_id t + 1" "vs_dataset_id row = ds" "vs_valid_to row = None"
      "vs_version row = int (length (versions_of ds (vt_rows t))) + 1"
  shows "insert_version row (t\<lparr>vt_rows := closed_rows now ds t\<rparr>) =
      Inr (t\<lparr>vt_last_id := vs_id row, vt_rows := closed_rows now ds t @ [row]\<rparr>)"
    and "versions_ok (t\<lparr>vt_last_id := vs_id row, vt_rows := closed_rows now ds t @ [row]\<rparr>)"
proof -
  let ?rows = "closed_rows now ds t"
  have versions: "map vs_version (versions_of ds ?rows) = map int [1..<Suc (length (versions_of ds ?rows))]"
    using versions_ok_chain [OF ok, of ds] by (simp only: chain_ok_def closed_rows_same(3) closed_rows_length)
  have fresh: "vs_version r \<noteq> vs_version row \<and> vs_valid_to r \<noteq> None" if "r \<in> set ?rows" "vs_dataset_id r = ds" for r
  proof -
    have r: "r \<in> set (versions_of ds ?rows)" using that by (simp add: versions_of_def)
    then have "vs_version r \<in> int ` {1..<Suc (length (versions_of ds ?rows))}"
      using versions by (metis image_eqI image_set set_map set_upt)
    with r closed_rows_closed [OF ok] new(4) show ?thesis by (auto simp: closed_rows_length)
  qed
  then show "insert_version row (t\<lparr>vt_rows := ?rows\<rparr>) =
      Inr (t\<lparr>vt_last_id := vs_id row, vt_rows := ?rows @ [row]\<rparr>)"
    using new by (auto simp: insert_version_def list_ex_iff)
  have ids: "map vs_id ?rows = map vs_id (vt_rows t)" by (rule closed_rows_same)
  have bound: "\<forall>i \<in> set (map vs_id ?rows). i \<le> vt_last_id t"
    using ok unfolding ids by (auto simp: versions_ok_def list_all_iff)
  have chain: "chain_ok (versions_of d (?rows @ [row]))" for d
  proof (cases "d = ds")
    case True
    have "list_all (\<lambda>r. vs_valid_to r \<noteq> None) (versions_of ds ?rows)"
      using closed_rows_closed [OF ok] by (auto simp: list_all_iff)
    then show ?thesis
      using True versions new
      by (simp add: chain_ok_def closed_rows_length versions_of_def [of ds "[row]"])
  next
    case False
    then show ?thesis
      using closed_rows_other [OF ok False] versions_ok_chain [OF ok, of d] new
      by (simp add: versions_of_def [of d "[row]"])
  qed
  show "versions_ok (t\<lparr>vt_last_id := vs_id row, vt_rows := ?rows @ [row]\<rparr>)"
    unfolding versions_ok_def
  proof (intro conjI)
    show "distinct (map vs_id (vt_rows (t\<lparr>vt_last_id := vs_id row, vt_rows := ?rows @ [row]\<rparr>)))"
      using ok bound new(1) ids by (auto simp: versions_ok_def simp flip: set_map)
    show "list_all (\<lambda>r. vs_id r \<le> vt_last_id (t\<lparr>vt_last_id := vs_id row, vt_rows := ?rows @ [row]\<rparr>))
        (vt_rows (t\<lparr>vt_last_id := vs_id row, vt_rows := ?rows @ [row]\<rparr>))"
      using bound new(1) by (fastforce simp: list_all_iff)
    show "list_all (\<lambda>r. chain_ok (versions_of (vs_dataset_id r)
        (vt_rows (t\<lparr>vt_last_id := vs_id row, vt_rows := ?rows @ [row]\<rparr>))))
        (vt_rows (t\<lparr>vt_last_id := vs_id row, vt_rows := ?rows @ [row]\<rparr>))"
      using chain by (simp add: list_all_iff del: versions_of_append)
  qed
qed

definition row_maker :: "int \<Rightarrow> string \<Rightarrow> (int \<Rightarrow> int \<Rightarrow> ('d, 'm) version_row_scheme) \<Rightarrow> bool" where
  "row_maker ds h new \<longleftrightarrow> (\<forall>i v. vs_id (new i v) = i \<and> vs_dataset_id (new i v) = ds \<and>
     vs_version (new i v) = v \<and> vs_hash (new i v) = h \<and> vs_valid_to (new i v) = None)"

lemma row_makers [simp]:
  "row_maker ds (fst h) (new_schema_row now ds h columns derived_from compatibility breaking)"
  "row_maker ds (fst h) (new_config_row now ds h document)"
  by (simp_all add: row_maker_def new_schema_row_def new_config_row_def)

text \<open>\<open>sync\<close> never raises on a well-formed table, and does exactly this.\<close>

lemma sync_version_cases:
  fixes t :: "('d, 'm) version_row_scheme version_table"
  assumes ok: "versions_ok t" and new: "row_maker ds h new"
  obtains (same) r where "hash_history t ds \<noteq> []" "last (hash_history t ds) = h"
      "current_version ds (vt_rows t) = Some r" "vs_hash r = h" "vs_dataset_id r = ds"
      "vs_version r = int (length (hash_history t ds))"
      "sync_version now ds h new t = Inr (t, (r, False))"
  | (changed) row where "hash_history t ds = [] \<or> last (hash_history t ds) \<noteq> h"
      "row = new (vt_last_id t + 1) (int (length (hash_history t ds)) + 1)"
      "sync_version now ds h new t =
         Inr (t\<lparr>vt_last_id := vs_id row, vt_rows := closed_rows now ds t @ [row]\<rparr>, (row, True))"
      "versions_ok (t\<lparr>vt_last_id := vs_id row, vt_rows := closed_rows now ds t @ [row]\<rparr>)"
proof -
  let ?rs = "versions_of ds (vt_rows t)"
  have current: "current_version ds (vt_rows t) = (if ?rs = [] then None else Some (last ?rs))"
    using ok by (simp add: current_version_chain Let_def)
  show thesis
  proof (cases "?rs \<noteq> [] \<and> vs_hash (last ?rs) = h")
    case True
    have "chain_ok ?rs" using ok by (rule versions_ok_chain)
    then have "vs_version (last ?rs) = int (length ?rs)"
      using True by (cases ?rs rule: rev_cases) (auto simp: chain_ok_def)
    moreover have "last ?rs \<in> set ?rs" using True by simp
    then have "vs_dataset_id (last ?rs) = ds" by (simp add: versions_of_def)
    ultimately show thesis
      using True current
      by (intro same [of "last ?rs"]) (simp_all add: hash_history_def last_map sync_version_def)
  next
    case False
    define row where "row = new (vt_last_id t + 1) (int (length ?rs) + 1)"
    have next_v: "next_version ds (closed_rows now ds t) = int (length ?rs) + 1"
    proof -
      have "next_version ds (closed_rows now ds t) = next_version ds (vt_rows t)"
        using closed_rows_same(3) [of ds now ds t] by (simp add: next_version_def)
      then show ?thesis using chain_next [OF versions_ok_chain [OF ok, of ds]] by simp
    qed
    have row: "vs_id row = vt_last_id t + 1" "vs_dataset_id row = ds" "vs_valid_to row = None"
      "vs_version row = int (length ?rs) + 1"
      using new by (simp_all add: row_maker_def row_def)
    have "sync_version now ds h new t =
        (let new_row = new (vt_last_id t + 1) (next_version ds (closed_rows now ds t))
         in case insert_version new_row (t\<lparr>vt_rows := closed_rows now ds t\<rparr>) of
           Inl e \<Rightarrow> Inl e | Inr t' \<Rightarrow> Inr (t', (new_row, True)))"
    proof (cases "current_version ds (vt_rows t)")
      case None
      then show ?thesis by (simp add: sync_version_def closed_rows_def Let_def)
    next
      case (Some r)
      with False current have "vs_hash r \<noteq> h" by (auto split: if_splits)
      with Some show ?thesis by (simp add: sync_version_def closed_rows_def Let_def)
    qed
    then have "sync_version now ds h new t =
        (case insert_version row (t\<lparr>vt_rows := closed_rows now ds t\<rparr>) of
           Inl e \<Rightarrow> Inl e | Inr t' \<Rightarrow> Inr (t', (row, True)))"
      by (simp only: next_v row_def Let_def)
    then have "sync_version now ds h new t =
        Inr (t\<lparr>vt_last_id := vs_id row, vt_rows := closed_rows now ds t @ [row]\<rparr>, (row, True))"
      using insert_after_close(1) [OF ok row] by simp
    moreover have "hash_history t ds = [] \<or> last (hash_history t ds) \<noteq> h"
      using False by (cases "?rs = []") (simp_all add: hash_history_def last_map)
    ultimately show thesis
      using changed [of row] insert_after_close(2) [OF ok row] by (simp add: hash_history_def row_def)
  qed
qed

lemma hash_history_insert:
  assumes "versions_ok t" and "vs_dataset_id row = ds"
  shows "hash_history (t\<lparr>vt_last_id := i, vt_rows := closed_rows now ds t @ [row]\<rparr>) =
    (hash_history t)(ds := hash_history t ds @ [vs_hash row])"
  using assms closed_rows_same(4) [of _ now ds t]
  by (auto simp: hash_history_def fun_eq_iff versions_of_def [of _ "[row]"])

definition after_sync :: "int \<Rightarrow> int \<Rightarrow> string \<Rightarrow> (int \<Rightarrow> int \<Rightarrow> ('d, 'm) version_row_scheme) \<Rightarrow>
    ('d, 'm) version_row_scheme version_table \<Rightarrow> ('d, 'm) version_row_scheme version_table" where
  "after_sync now ds h new t = (case sync_version now ds h new t of Inl e \<Rightarrow> t | Inr (t', r) \<Rightarrow> t')"

lemma after_sync:
  assumes "versions_ok t" and "row_maker ds h new"
  shows "versions_ok (after_sync now ds h new t)"
    and "hash_history (after_sync now ds h new t) = (hash_history t)(ds := record_hash h (hash_history t ds))"
proof -
  have "versions_ok (after_sync now ds h new t) \<and>
      hash_history (after_sync now ds h new t) = (hash_history t)(ds := record_hash h (hash_history t ds))"
    using assms
  proof (cases rule: sync_version_cases [where now = now])
    case (same r)
    then show ?thesis using assms(1) by (simp add: after_sync_def record_hash_def fun_eq_iff)
  next
    case (changed row)
    then have "vs_dataset_id row = ds" "vs_hash row = h" using assms(2) by (simp_all add: row_maker_def)
    with changed show ?thesis
      by (simp add: after_sync_def hash_history_insert [OF assms(1)]) (auto simp: record_hash_def fun_eq_iff)
  qed
  then show "versions_ok (after_sync now ds h new t)"
    and "hash_history (after_sync now ds h new t) = (hash_history t)(ds := record_hash h (hash_history t ds))"
    by auto
qed

interpretation schema_versions:
  version_history "hash_history :: schema_row version_table \<Rightarrow> int \<Rightarrow> string list" versions_ok
    "\<lambda>ds h. after_sync now ds h
       (new_schema_row now ds (h, 1) (columns h) (derived_from h) (compatibility h) (breaking h))"
  for now columns derived_from compatibility breaking
  by unfold_locales (auto intro!: after_sync row_makers [of _ "(_, 1)", simplified])

interpretation config_versions:
  version_history "hash_history :: json version_row version_table \<Rightarrow> int \<Rightarrow> string list" versions_ok
    "\<lambda>ds h. after_sync now ds h (new_config_row now ds (h, 1) (document h))"
  for now document
  by unfold_locales (auto intro!: after_sync row_makers [of _ "(_, 1)", simplified])

section \<open>The repositories on a well-formed catalog\<close>

lemma schema_text_injective: "schema_text a = schema_text b \<longleftrightarrow> a = b"
proof -
  have "map JObj a = map JObj b \<longleftrightarrow> a = b" by (rule inj_map_eq_map) (simp add: inj_def)
  then show ?thesis by (simp add: schema_text_def json_dumps_injective del: json_dumps.simps)
qed

definition schemas_hashed :: "(string \<Rightarrow> string) \<Rightarrow> catalog \<Rightarrow> bool" where
  "schemas_hashed sha256 c \<longleftrightarrow>
     list_all (\<lambda>r. vs_hash r = sha256 (schema_text (vs_document r))) (vt_rows (ct_schemas c))"

definition catalog_ok :: "(string \<Rightarrow> string) \<Rightarrow> catalog \<Rightarrow> bool" where
  "catalog_ok sha256 c \<longleftrightarrow> versions_ok (ct_schemas c) \<and> versions_ok (ct_configs c) \<and> schemas_hashed sha256 c"

text \<open>The abstract state: the column lists a dataset has had, oldest first.\<close>

definition schema_history :: "catalog \<Rightarrow> int \<Rightarrow> column_descriptor list list" where
  "schema_history c ds = map vs_document (versions_of ds (vt_rows (ct_schemas c)))"

definition collision_free :: "(string \<Rightarrow> string) \<Rightarrow> column_descriptor list \<Rightarrow> catalog \<Rightarrow> bool" where
  "collision_free sha256 columns c \<longleftrightarrow>
     inj_on sha256 (schema_text ` insert columns (vs_document ` set (vt_rows (ct_schemas c))))"

lemma hash_history_hashed:
  "schemas_hashed sha256 c \<Longrightarrow>
     hash_history (ct_schemas c) ds = map (\<lambda>d. sha256 (schema_text d)) (schema_history c ds)"
  by (auto simp: hash_history_def schema_history_def schemas_hashed_def list_all_iff versions_of_def)

lemma same_schema_hash:
  assumes "collision_free sha256 columns c" and "d \<in> set (schema_history c ds)"
  shows "sha256 (schema_text d) = sha256 (schema_text columns) \<longleftrightarrow> d = columns"
proof -
  have d: "d \<in> vs_document ` set (vt_rows (ct_schemas c))"
    using assms(2) by (auto simp: schema_history_def versions_of_def)
  have "sha256 (schema_text d) = sha256 (schema_text columns) \<longleftrightarrow> schema_text d = schema_text columns"
    using inj_on_eq_iff [OF assms(1) [unfolded collision_free_def], of "schema_text d" "schema_text columns"] d
    by simp
  then show ?thesis by (simp add: schema_text_injective)
qed

lemma closed_rows_documents:
  "map vs_document (versions_of d (closed_rows now ds t)) = map vs_document (versions_of d (vt_rows t))"
proof -
  have "map vs_document (close_version now i rows) = map vs_document rows" for i and rows :: "('a, 'b) version_row_scheme list"
    by (auto simp: close_version_def)
  then show ?thesis by (simp add: closed_rows_def versions_of_close split: option.split)
qed

lemma closed_rows_hashed:
  "list_all (\<lambda>r. vs_hash r = f (vs_document r)) (closed_rows now ds t) =
   list_all (\<lambda>r. vs_hash r = f (vs_document r)) (vt_rows t)"
proof -
  have "list_all (\<lambda>r. vs_hash r = f (vs_document r)) (close_version now i rows) =
      list_all (\<lambda>r. vs_hash r = f (vs_document r)) rows" for i and rows :: "('a, 'b) version_row_scheme list"
    by (induction rows) (simp_all add: close_version_def)
  then show ?thesis by (simp add: closed_rows_def split: option.split)
qed

lemma current_after_insert:
  assumes "versions_ok t" and "vs_dataset_id row = ds" and "vs_valid_to row = None"
  shows "current_version ds (closed_rows now ds t @ [row]) = Some row"
proof -
  have none: "find (\<lambda>r. vs_valid_to r = None) (versions_of ds (closed_rows now ds t)) = None"
    using closed_rows_closed [OF assms(1)] unfolding find_None_iff by blast
  have row: "versions_of ds [row] = [row]" using assms(2) by (simp add: versions_of_def)
  show ?thesis
    unfolding current_version_def find_filter_conj versions_of_def [symmetric] versions_of_append find_append none row
    using assms(3) by simp
qed

lemma schema_sync_spec:
  assumes "catalog_ok sha256 c" and "dataset_known (ct_meta c) ds" and "collision_free sha256 columns c"
  shows "\<exists>c' r. schema_sync sha256 now ds columns derived_from compatibility breaking c = Inr (c', r) \<and>
    catalog_ok sha256 c' \<and> ct_meta c' = ct_meta c \<and>
    schema_history c' = (schema_history c)(ds := record_hash columns (schema_history c ds)) \<and>
    sv_version r = int (length (schema_history c' ds)) \<and>
    sv_is_new r = (schema_history c' \<noteq> schema_history c) \<and>
    schema_get_current ds c' = Some (r\<lparr>sv_is_new := False\<rparr>)"
proof -
  let ?new = "new_schema_row now ds (hash_schema sha256 columns) columns derived_from compatibility breaking"
  let ?t = "ct_schemas c"
  have ok: "versions_ok ?t" and hashed: "schemas_hashed sha256 c" using assms(1) by (simp_all add: catalog_ok_def)
  have hist: "hash_history ?t ds = map (\<lambda>d. sha256 (schema_text d)) (schema_history c ds)"
    by (rule hash_history_hashed [OF hashed])
  have last: "last (hash_history ?t ds) = fst (hash_schema sha256 columns) \<longleftrightarrow> last (schema_history c ds) = columns"
    if "schema_history c ds \<noteq> []"
    using that same_schema_hash [OF assms(3), of "last (schema_history c ds)" ds]
    by (simp add: hist last_map hash_schema_def)
  have empty: "hash_history ?t ds = [] \<longleftrightarrow> schema_history c ds = []" by (simp add: hist)
  have len: "length (hash_history ?t ds) = length (schema_history c ds)" by (simp add: hist)
  show ?thesis
    using ok row_makers(1) [of ds "hash_schema sha256 columns" now columns derived_from compatibility breaking]
  proof (cases rule: sync_version_cases [where now = now])
    case (same r)
    then have "schema_sync sha256 now ds columns derived_from compatibility breaking c = Inr (c, schema_record False r)"
      using assms(2) by (simp add: schema_sync_def)
    moreover have "schema_history c ds \<noteq> []" "last (schema_history c ds) = columns"
      using same last empty by auto
    ultimately show ?thesis
      using same assms(1) by (simp add: record_hash_def fun_upd_idem schema_record_def schema_get_current_def len)
  next
    case (changed row)
    let ?c' = "c\<lparr>ct_schemas := ?t\<lparr>vt_last_id := vs_id row, vt_rows := closed_rows now ds ?t @ [row]\<rparr>\<rparr>"
    have row: "vs_dataset_id row = ds" "vs_document row = columns" "vs_valid_to row = None"
      "vs_hash row = sha256 (schema_text columns)" "vs_version row = int (length (schema_history c ds)) + 1"
      using changed(2) len by (simp_all add: new_schema_row_def hash_schema_def)
    have "schema_sync sha256 now ds columns derived_from compatibility breaking c = Inr (?c', schema_record True row)"
      using changed(3) assms(2) by (simp add: schema_sync_def)
    moreover have "schema_history ?c' = (schema_history c)(ds := schema_history c ds @ [columns])"
      using row by (auto simp: schema_history_def fun_eq_iff closed_rows_documents versions_of_def [of _ "[row]"])
    moreover have "record_hash columns (schema_history c ds) = schema_history c ds @ [columns]"
      using changed(1) last empty by (auto simp: record_hash_def)
    moreover have "catalog_ok sha256 ?c'"
      using changed(4) assms(1) row closed_rows_hashed [of "\<lambda>d. sha256 (schema_text d)" now ds ?t]
      by (simp add: catalog_ok_def schemas_hashed_def)
    ultimately show ?thesis
      using row current_after_insert [OF ok row(1,3)]
      by (simp add: schema_get_current_def schema_record_def fun_eq_iff)
  qed
qed

section \<open>Configurations\<close>

lemma filter_key_distinct:
  assumes "distinct (map f xs)" and "k \<in> set xs"
  shows "filter (\<lambda>x. f k = f x) xs = [k]"
  using assms
proof (induction xs)
  case (Cons x xs)
  show ?case
  proof (cases "k = x")
    case True
    with Cons.prems have "filter (\<lambda>y. f k = f y) xs = []" by (auto simp: filter_empty_conv image_iff)
    with True show ?thesis by simp
  next
    case False
    with Cons.prems have "k \<in> set xs" "f k \<noteq> f x" by (auto simp: image_iff)
    with Cons show ?thesis by simp
  qed
qed simp

lemma sort_key_distinct_cong:
  assumes "mset xs = mset ys" and "distinct (map f xs)"
  shows "sort_key f xs = sort_key f ys"
proof (rule properties_for_sort_key)
  show "mset (sort_key f ys) = mset xs" using assms(1) by simp
  have "distinct (map f ys)" and "set xs = set ys"
    using assms by (metis mset_map mset_eq_imp_distinct_iff) (metis assms(1) mset_eq_setD)
  show "filter (\<lambda>x. f k = f x) (sort_key f ys) = filter (\<lambda>x. f k = f x) xs" if "k \<in> set (sort_key f ys)" for k
    using that assms(2) \<open>distinct (map f ys)\<close> \<open>set xs = set ys\<close>
    by (simp add: filter_sort filter_key_distinct)
  show "sorted (map f (sort_key f ys))" by simp
qed

text \<open>Two documents that differ only in the order of their keys are one configuration.\<close>

lemma hash_config_key_order:
  assumes "mset kvs = mset kvs'" and "distinct (map fst kvs)"
  shows "hash_config sha256 (JObj kvs) = hash_config sha256 (JObj kvs')"
proof -
  let ?f = "\<lambda>kv. (fst kv, sort_keys (snd kv))"
  have "mset (map ?f kvs) = mset (map ?f kvs')" using assms(1) by simp
  moreover have "distinct (map fst (map ?f kvs))" using assms(2) by (simp add: comp_def)
  ultimately have "sort_key fst (map ?f kvs) = sort_key fst (map ?f kvs')" by (rule sort_key_distinct_cong)
  then show ?thesis by (simp add: hash_config_def)
qed

lemma find_core:
  assumes "\<And>r. g r = h (version_core r)"
  shows "map_option version_core (find g rows) = find h (map version_core rows)"
  using assms by (induction rows) auto

lemma find_id_document:
  "map_option vs_document (find (\<lambda>r. vs_id r = i) rows) =
   map_option (\<lambda>c. fst (snd (snd (snd (snd c))))) (find (\<lambda>c. fst c = i) (map version_core rows))"
proof -
  have "map_option version_core (find (\<lambda>r. vs_id r = i) rows) = find (\<lambda>c. fst c = i) (map version_core rows)"
    by (rule find_core) (simp add: version_core_def)
  then have "map_option (\<lambda>c. fst (snd (snd (snd (snd c))))) (find (\<lambda>c. fst c = i) (map version_core rows)) =
      map_option (\<lambda>c. fst (snd (snd (snd (snd c))))) (map_option version_core (find (\<lambda>r. vs_id r = i) rows))"
    by simp
  then show ?thesis by (simp add: option.map_comp comp_def version_core_def)
qed

lemma config_get_by_id_iff:
  "config_get_by_id i c = Inr d \<longleftrightarrow> map_option vs_document (find (\<lambda>r. vs_id r = i) (vt_rows (ct_configs c))) = Some d"
  by (auto simp: config_get_by_id_def split: option.splits)

text \<open>The version a run was pinned to keeps its document whatever is synced later.\<close>

lemma config_sync_spec:
  assumes "catalog_ok sha256 c"
  shows "\<exists>c' r. config_sync sha256 now name document c = Inr (c', r) \<and> catalog_ok sha256 c' \<and>
    (\<forall>i d. config_get_by_id i c = Inr d \<longrightarrow> config_get_by_id i c' = Inr d) \<and>
    (cv_is_new r \<longrightarrow> config_get_by_id (cv_config_version_id r) c' = Inr document) \<and>
    cv_config_hash r = fst (hash_config sha256 document) \<and>
    current_version (snd (get_or_create_dataset name (ct_meta c))) (vt_rows (ct_configs c')) \<noteq> None \<and>
    md_config_versions (ct_meta c') = map vs_id (vt_rows (ct_configs c'))"
proof -
  let ?t = "ct_configs c"
  obtain db ds where ds: "get_or_create_dataset name (ct_meta c) = (db, ds)" by fastforce
  let ?new = "new_config_row now ds (hash_config sha256 document) document"
  have ok: "versions_ok ?t" using assms by (simp add: catalog_ok_def)
  show ?thesis using ok row_makers(2) [of ds "hash_config sha256 document" now document]
  proof (cases rule: sync_version_cases [where now = now])
    case (same r)
    then show ?thesis using assms ds
      by (simp add: config_sync_def catalog_ok_def schemas_hashed_def config_get_by_id_def)
  next
    case (changed row)
    let ?rows = "closed_rows now ds ?t"
    let ?c' = "c\<lparr>ct_meta := db\<lparr>md_config_versions := map vs_id (?rows @ [row])\<rparr>,
        ct_configs := ?t\<lparr>vt_last_id := vs_id row, vt_rows := ?rows @ [row]\<rparr>\<rparr>"
    have row: "vs_id row = vt_last_id ?t + 1" "vs_dataset_id row = ds" "vs_document row = document"
      "vs_valid_to row = None" "vs_hash row = fst (hash_config sha256 document)"
      using changed(2) by (simp_all add: new_config_row_def)
    have run: "config_sync sha256 now name document c =
        Inr (?c', \<lparr>cv_config_version_id = vs_id row, cv_version = vs_version row,
                   cv_config_hash = vs_hash row, cv_is_new = True\<rparr>)"
      using changed(3) ds by (simp add: config_sync_def)
    have old: "map_option vs_document (find (\<lambda>r. vs_id r = i) ?rows) =
        map_option vs_document (find (\<lambda>r. vs_id r = i) (vt_rows ?t))" for i
      unfolding find_id_document closed_rows_same(2) ..
    have "\<forall>i \<in> set (map vs_id (vt_rows ?t)). i \<le> vt_last_id ?t"
      using ok by (simp add: versions_ok_def list_all_iff)
    then have "vs_id row \<notin> set (map vs_id ?rows)"
      unfolding closed_rows_same(1) using row(1) by auto
    then have fresh: "find (\<lambda>r. vs_id r = vs_id row) ?rows = None"
      unfolding find_None_iff by (force simp: image_iff)
    have "config_get_by_id i ?c' = Inr d" if "config_get_by_id i c = Inr d" for i d
      using that old [of i] by (auto simp: config_get_by_id_iff find_append split: option.splits)
    moreover have "config_get_by_id (vs_id row) ?c' = Inr document"
      by (simp add: config_get_by_id_def find_append fresh row(3))
    moreover have "catalog_ok sha256 ?c'" using assms changed(4) by (simp add: catalog_ok_def schemas_hashed_def)
    ultimately show ?thesis
      using run row ds current_after_insert [OF ok row(2,4)] by (intro exI [of _ ?c'] exI) auto
  qed
qed

section \<open>The properties\<close>

text \<open>C22: On a well-formed catalog, for a known dataset, \<open>SchemaRepository.sync\<close> succeeds and implements
  the abstract history of column lists: it appends the columns exactly when they differ from the current
  ones, numbers the version by the length of the history, touches no other dataset, keeps the catalog
  well-formed, and leaves the synced columns current (unless two recorded texts collide under the hash).\<close>

theorem schema_sync_refines:
  assumes "catalog_ok sha256 c" and "dataset_known (ct_meta c) ds" and "collision_free sha256 columns c"
  shows "\<exists>c' r. schema_sync sha256 now ds columns derived_from compatibility breaking c = Inr (c', r) \<and>
    catalog_ok sha256 c' \<and> ct_meta c' = ct_meta c \<and>
    schema_history c' = (schema_history c)(ds := record_hash columns (schema_history c ds)) \<and>
    sv_version r = int (length (schema_history c' ds)) \<and>
    sv_is_new r = (schema_history c' \<noteq> schema_history c) \<and>
    schema_get_current ds c' = Some (r\<lparr>sv_is_new := False\<rparr>)"
  using assms by (rule schema_sync_spec)

definition demo_columns :: "string list \<Rightarrow> column_descriptor list" where
  "demo_columns names = map (\<lambda>n. [(''name'', JStr n)]) names"

definition demo_catalog :: catalog where
  "demo_catalog =
     \<lparr>ct_meta = empty_meta\<lparr>md_datasets := [\<lparr>dt_id = 1, dt_name = ''customers''\<rparr>]\<rparr>,
      ct_schemas = \<lparr>vt_last_id = 1, vt_rows =
        [new_schema_row 5 1 (hash_schema (\<lambda>s. s) (demo_columns [''id''])) (demo_columns [''id'']) ''CONTRACT'' ''COMPATIBLE'' None 1 1]\<rparr>,
      ct_configs = \<lparr>vt_last_id = 0, vt_rows = []\<rparr>\<rparr>"

lemma schema_sync_refines_witness:
  "\<exists>c' r. schema_sync (\<lambda>s. s) 9 1 (demo_columns [''id'', ''name'']) ''INFERRED'' ''COMPATIBLE'' None demo_catalog = Inr (c', r) \<and>
     schema_history c' 1 = [demo_columns [''id''], demo_columns [''id'', ''name'']] \<and> sv_version r = 2"
proof -
  have ok: "catalog_ok (\<lambda>s. s) demo_catalog" by code_simp
  have known: "dataset_known (ct_meta demo_catalog) 1" by code_simp
  have free: "collision_free (\<lambda>s. s) columns demo_catalog" for columns by (simp add: collision_free_def)
  have h: "schema_history demo_catalog 1 = [demo_columns [''id'']]"
    "demo_columns [''id''] \<noteq> demo_columns [''id'', ''name'']" by code_simp+
  from schema_sync_refines [OF ok known free, of 9 "demo_columns [''id'', ''name'']" "''INFERRED''" "''COMPATIBLE''" None]
  obtain c' r where
    "schema_sync (\<lambda>s. s) 9 1 (demo_columns [''id'', ''name'']) ''INFERRED'' ''COMPATIBLE'' None demo_catalog = Inr (c', r)"
    "schema_history c' 1 = record_hash (demo_columns [''id'', ''name'']) (schema_history demo_catalog 1)"
    "sv_version r = int (length (schema_history c' 1))" by auto
  with h show ?thesis by (simp add: record_hash_def)
qed

text \<open>A configuration version is immutable: after any \<open>ConfigRegistry.sync\<close> every version that could be
  read still has the document it had, and a version the call creates has the document that was synced.\<close>

theorem config_version_immutable:
  assumes "catalog_ok sha256 c"
  shows "\<exists>c' r. config_sync sha256 now name document c = Inr (c', r) \<and> catalog_ok sha256 c' \<and>
    (\<forall>i d. config_get_by_id i c = Inr d \<longrightarrow> config_get_by_id i c' = Inr d) \<and>
    (cv_is_new r \<longrightarrow> config_get_by_id (cv_config_version_id r) c' = Inr document)"
  using config_sync_spec [OF assms] by blast

lemma config_version_immutable_witness:
  "\<exists>c' r. config_sync (\<lambda>s. s) 9 ''customers'' (JObj [(''a'', JInt 1)]) demo_catalog = Inr (c', r) \<and> catalog_ok (\<lambda>s. s) c'"
proof -
  have "catalog_ok (\<lambda>s. s) demo_catalog" by code_simp
  from config_version_immutable [OF this, of 9 "''customers''" "JObj [(''a'', JInt 1)]"] show ?thesis by blast
qed

text \<open>
  Two files of one dataset that carry different extra columns make a new schema version each time they
  are inspected in turn: after \<open>n\<close> rounds at least \<open>2 * n - 1\<close> versions have been added.
\<close>

lemma alternating_columns_never_settle:
  assumes "versions_ok t" and "a \<noteq> b"
  shows "length (hash_history t ds) + 2 * n \<le>
    length (hash_history (schema_versions.syncs now columns derived_from compatibility breaking ds
      (concat (replicate n [a, b])) t) ds) + 1"
  using schema_versions.alternating_syncs [OF assms, of ds n now columns derived_from compatibility breaking]
  by (simp split: if_splits)

end
