(* ===== verification/Schema.thy ===== *)
theory Schema
  imports Versions Config
begin

text \<open>
  Schema drift (\<open>schema/evolution.py\<close>) and the resolution of one file's header against the
  dataset's contract and history (\<open>CsvSource._resolve_schema\<close>).  The loader maps fields to
  columns by position, so what has to hold of an accepted header is that it is aligned with the
  contract; the calls of the repository run on connections of their own, each on the catalog of
  its moment.
\<close>

section \<open>Classification\<close>

record schema_column =
  sc_name :: string
  sc_type :: string
  sc_position :: nat

definition descriptor_of :: "schema_column \<Rightarrow> column_descriptor" where
  "descriptor_of c = [(''name'', JStr (sc_name c)), (''type'', JStr (sc_type c)), (''position'', JInt (int (sc_position c)))]"

record schema_change_finding =
  scf_change_type :: string
  scf_column :: string
  scf_message :: message

definition column_added :: "schema_column \<Rightarrow> schema_change_finding" where
  "column_added c = \<lparr>scf_change_type = ''column_added'', scf_column = sc_name c,
     scf_message = Msg ''column {} is new (D-01: detect + record only)'' [VStr (sc_name c)]\<rparr>"

definition disappeared :: "schema_column \<Rightarrow> exn" where
  "disappeared c = dp_error IncompatibleSchemaError
     [(''diagnostic_code'', VStr ''schema-column-disappeared''), (''column'', VStr (sc_name c))]"

definition retyped :: "schema_column \<Rightarrow> schema_column \<Rightarrow> exn" where
  "retyped c c' = dp_error IncompatibleSchemaError
     [(''diagnostic_code'', VStr ''schema-column-retyped''), (''column'', VStr (sc_name c)),
      (''old_type'', VStr (sc_type c)), (''new_type'', VStr (sc_type c'))]"

text \<open>The dictionary of the new columns: a later column of the same name replaces an earlier one.\<close>

definition by_name :: "schema_column list \<Rightarrow> string \<Rightarrow> schema_column option" where
  "by_name cols n = map_of (rev (map (\<lambda>c. (sc_name c, c)) cols)) n"

definition check_column :: "schema_column list \<Rightarrow> string list \<Rightarrow> schema_column \<Rightarrow> exn + unit" where
  "check_column new_columns optional c =
     (case by_name new_columns (sc_name c) of
        None \<Rightarrow> if sc_name c \<in> set optional then Inr () else Inl (disappeared c)
      | Some c' \<Rightarrow> if sc_type c \<noteq> sc_type c' then Inl (retyped c c') else Inr ())"

definition classify_schema_change :: "schema_column list \<Rightarrow> schema_column list \<Rightarrow> string list \<Rightarrow>
    exn + schema_change_finding list" where
  "classify_schema_change old_columns new_columns optional =
     (case traverse (check_column new_columns optional) old_columns of
        Inl e \<Rightarrow> Inl e
      | Inr _ \<Rightarrow> Inr (map column_added (filter (\<lambda>c. sc_name c \<notin> sc_name ` set old_columns) new_columns)))"

section \<open>Resolution\<close>

fun type_text :: "column_type \<Rightarrow> string" where
  "type_text TString = ''string''" | "type_text TInteger = ''integer''" | "type_text TDecimal = ''decimal''"
| "type_text TDate = ''date''" | "type_text TTimestamp = ''timestamp''" | "type_text TBoolean = ''boolean''"

definition enumerate_columns :: "(string \<times> string) list \<Rightarrow> schema_column list" where
  "enumerate_columns nts =
     map (\<lambda>(i, (n, t)). \<lparr>sc_name = n, sc_type = t, sc_position = i\<rparr>) (enumerate 0 nts)"

definition contract_columns :: "column_contract list \<Rightarrow> schema_column list" where
  "contract_columns contract = enumerate_columns (map (\<lambda>c. (cc_name c, type_text (cc_type c))) contract)"

definition contract_type :: "column_contract list \<Rightarrow> string \<Rightarrow> string" where
  "contract_type contract n =
     (case map_of (rev (map (\<lambda>c. (cc_name c, type_text (cc_type c))) contract)) n of
        None \<Rightarrow> ''unknown'' | Some t \<Rightarrow> t)"

definition observed_columns :: "column_contract list \<Rightarrow> string list \<Rightarrow> schema_column list" where
  "observed_columns contract header = enumerate_columns (map (\<lambda>n. (n, contract_type contract n)) header)"

definition reordered :: "string list \<Rightarrow> string list \<Rightarrow> exn" where
  "reordered expected observed = dp_error IncompatibleSchemaError
     [(''diagnostic_code'', VStr ''schema-columns-reordered''),
      (''expected_order'', VList (map VStr expected)), (''observed_order'', VList (map VStr observed))]"

definition optional_names :: "column_contract list \<Rightarrow> string list" where
  "optional_names contract = map cc_name (filter (\<lambda>c. \<not> cc_required c) contract)"

type_synonym resolution = "exn + catalog \<times> (int \<times> string)"

definition synced :: "exn + catalog \<times> schema_version_record \<Rightarrow> resolution" where
  "synced r = (case r of Inl e \<Rightarrow> Inl e
     | Inr (c, v) \<Rightarrow> Inr (c, (sv_schema_version_id v, sv_compatibility v)))"

definition resolved :: "catalog \<Rightarrow> exn + schema_version_record \<Rightarrow> resolution" where
  "resolved c r = (case r of Inl e \<Rightarrow> Inl e
     | Inr v \<Rightarrow> Inr (c, (sv_schema_version_id v, sv_compatibility v)))"

text \<open>
  \<open>_resolve_schema\<close> of a source with a dataset: \<open>current\<close> is what \<open>get_current\<close> returned,
  \<open>c1\<close> the catalog when the hash is looked up and \<open>c2\<close> the one that is synced.
\<close>

definition resolve_schema :: "(string \<Rightarrow> string) \<Rightarrow> int \<Rightarrow> int \<Rightarrow> column_contract list \<Rightarrow> string list \<Rightarrow>
    schema_version_record option \<Rightarrow> catalog \<Rightarrow> catalog \<Rightarrow> resolution" where
  "resolve_schema sha256 now ds contract header current c1 c2 =
     (let old_columns = contract_columns contract;
          new_columns = observed_columns contract header;
          old_names = map sc_name old_columns;
          new_names = map sc_name new_columns;
          sync_contract = synced (schema_sync sha256 now ds (map descriptor_of old_columns)
            ''CONTRACT'' ''COMPATIBLE'' None c2)
      in case current of
           None \<Rightarrow> sync_contract
         | Some cur \<Rightarrow>
           (case classify_schema_change old_columns new_columns (optional_names contract) of
              Inl e \<Rightarrow> Inl e
            | Inr findings \<Rightarrow>
              if findings \<noteq> [] then
                (if take (length old_names) new_names \<noteq> old_names then Inl (reordered old_names new_names)
                 else synced (schema_sync sha256 now ds (map descriptor_of new_columns)
                        ''INFERRED'' ''COMPATIBLE'' None c2))
              else if new_names \<noteq> old_names then
                (if new_names = take (length new_names) old_names \<and>
                    list_all (\<lambda>c. sc_name c \<in> set (optional_names contract)) (drop (length new_names) old_columns)
                 then (case schema_resolve_by_hash ds (fst (hash_schema sha256 (map descriptor_of old_columns))) c1 of
                         Inr v \<Rightarrow> resolved c1 (Inr v)
                       | Inl e \<Rightarrow> if is_subclass (exn_class e) StorageError then sync_contract else Inl e)
                 else Inl (reordered old_names new_names))
              else
                (let observed_hash = fst (hash_schema sha256 (map descriptor_of new_columns)) in
                 if observed_hash = sv_schema_hash cur then sync_contract
                 else resolved c1 (schema_resolve_by_hash ds observed_hash c1))))"

section \<open>The column lists\<close>

lemma enumerate_columns_simps [simp]:
  "map sc_name (enumerate_columns nts) = map fst nts" "length (enumerate_columns nts) = length nts"
  by (auto simp: enumerate_columns_def nth_enumerate_eq split: prod.splits intro!: nth_equalityI)

lemma contract_columns_names [simp]: "map sc_name (contract_columns contract) = map cc_name contract"
  by (simp add: contract_columns_def comp_def)

lemma observed_columns_names [simp]: "map sc_name (observed_columns contract header) = header"
  by (simp add: observed_columns_def comp_def)

lemma enumerate_columns_mem:
  "c \<in> set (enumerate_columns nts) \<Longrightarrow> (sc_name c, sc_type c) \<in> set nts"
  using nth_mem by (fastforce simp: enumerate_columns_def in_set_enumerate_eq)

lemma observed_type: "c \<in> set (observed_columns contract header) \<Longrightarrow> sc_type c = contract_type contract (sc_name c)"
  by (auto simp: observed_columns_def dest!: enumerate_columns_mem)

lemma contract_column_type:
  assumes "distinct (map cc_name contract)" and "c \<in> set (contract_columns contract)"
  shows "sc_type c = contract_type contract (sc_name c)"
proof -
  let ?nts = "map (\<lambda>c. (cc_name c, type_text (cc_type c))) contract"
  have "(sc_name c, sc_type c) \<in> set ?nts" using assms(2) unfolding contract_columns_def by (rule enumerate_columns_mem)
  moreover have d: "distinct (map fst ?nts)" using assms(1) by (simp add: comp_def)
  ultimately have "map_of ?nts (sc_name c) = Some (sc_type c)" by simp
  then show ?thesis unfolding contract_type_def map_of_rev_distinct [OF d] by simp
qed

lemma by_name_None: "by_name cols n = None \<longleftrightarrow> n \<notin> set (map sc_name cols)"
  by (auto simp: by_name_def map_of_eq_None_iff image_iff)

lemma by_name_Some: "by_name cols n = Some c \<Longrightarrow> c \<in> set cols \<and> sc_name c = n"
  by (auto simp: by_name_def dest!: map_of_SomeD)

definition missing_required :: "column_contract list \<Rightarrow> string list \<Rightarrow> bool" where
  "missing_required contract header \<longleftrightarrow> list_ex (\<lambda>c. cc_required c \<and> cc_name c \<notin> set header) contract"

lemma optional_names_iff:
  assumes "distinct (map cc_name contract)" and "c \<in> set contract"
  shows "cc_name c \<in> set (optional_names contract) \<longleftrightarrow> \<not> cc_required c"
  using assms by (auto simp: optional_names_def distinct_map dest: inj_onD)

lemma check_contract_column:
  assumes "distinct (map cc_name contract)" and "c \<in> set contract" and "k \<in> set (contract_columns contract)"
    and "sc_name k = cc_name c"
  shows "check_column (observed_columns contract header) (optional_names contract) k =
    (if cc_required c \<and> cc_name c \<notin> set header then Inl (disappeared k) else Inr ())"
proof (cases "by_name (observed_columns contract header) (sc_name k)")
  case None
  then have "cc_name c \<notin> set header"
    using assms(4) unfolding by_name_None observed_columns_names by simp
  with None show ?thesis using optional_names_iff [OF assms(1,2)] assms(4) by (simp add: check_column_def)
next
  case (Some k')
  then have k': "k' \<in> set (observed_columns contract header)" "sc_name k' = sc_name k" by (auto dest: by_name_Some)
  then have "sc_name k \<in> set (map sc_name (observed_columns contract header))" by (metis image_eqI list.set_map)
  then have "cc_name c \<in> set header" using assms(4) by (simp only: observed_columns_names)
  moreover have "sc_type k = sc_type k'"
    using observed_type [OF k'(1)] contract_column_type [OF assms(1,3)] k'(2) by simp
  ultimately show ?thesis using Some by (simp add: check_column_def)
qed

lemma contract_column_of:
  "c \<in> set contract \<Longrightarrow> \<exists>k \<in> set (contract_columns contract). sc_name k = cc_name c"
  "k \<in> set (contract_columns contract) \<Longrightarrow> \<exists>c \<in> set contract. sc_name k = cc_name c"
  using contract_columns_names [of contract] by (metis image_iff list.set_map)+

text \<open>With distinct contract names the contract is never retyped: only a missing required column breaks.\<close>

lemma classify_contract:
  assumes "distinct (map cc_name contract)"
  shows "missing_required contract header \<Longrightarrow>
      \<exists>k. classify_schema_change (contract_columns contract) (observed_columns contract header) (optional_names contract) =
        Inl (disappeared k)"
    and "\<not> missing_required contract header \<Longrightarrow>
      classify_schema_change (contract_columns contract) (observed_columns contract header) (optional_names contract) =
        Inr (map column_added (filter (\<lambda>c. sc_name c \<notin> cc_name ` set contract) (observed_columns contract header)))"
proof -
  let ?check = "check_column (observed_columns contract header) (optional_names contract)"
  have names: "sc_name ` set (contract_columns contract) = cc_name ` set contract"
    using contract_columns_names [of contract] by (metis list.set_map)
  { assume "missing_required contract header"
    then obtain c where c: "c \<in> set contract" "cc_required c" "cc_name c \<notin> set header"
      by (auto simp: missing_required_def list_ex_iff)
    then obtain k where k: "k \<in> set (contract_columns contract)" "sc_name k = cc_name c"
      using contract_column_of(1) by blast
    have "?check k = Inl (disappeared k)" using check_contract_column [OF assms c(1) k] c by simp
    with k have "\<not> (\<forall>x \<in> set (contract_columns contract). \<exists>y. ?check x = Inr y)" by force
    then have "\<not> (\<exists>ys. traverse ?check (contract_columns contract) = Inr ys)" by (simp add: traverse_Inr_iff)
    then obtain e where e: "traverse ?check (contract_columns contract) = Inl e"
      by (cases "traverse ?check (contract_columns contract)") auto
    then obtain k' where k': "k' \<in> set (contract_columns contract)" "?check k' = Inl e" by (auto dest: traverse_Inl)
    then obtain c' where "c' \<in> set contract" "sc_name k' = cc_name c'" using contract_column_of(2) by blast
    from check_contract_column [OF assms this(1) k'(1) this(2), of header] k' have "e = disappeared k'"
      by (auto split: if_splits)
    with e show "\<exists>k. classify_schema_change (contract_columns contract) (observed_columns contract header) (optional_names contract) =
        Inl (disappeared k)"
      by (auto simp: classify_schema_change_def) }
  assume none: "\<not> missing_required contract header"
  have "\<exists>y. ?check k = Inr y" if k: "k \<in> set (contract_columns contract)" for k
  proof -
    obtain c where c: "c \<in> set contract" "sc_name k = cc_name c" using contract_column_of(2) [OF k] by blast
    with none have "\<not> (cc_required c \<and> cc_name c \<notin> set header)" by (auto simp: missing_required_def list_ex_iff)
    with check_contract_column [OF assms c(1) k c(2), of header] show ?thesis by (metis (full_types))
  qed
  then have "\<exists>ys. traverse ?check (contract_columns contract) = Inr ys" by (simp add: traverse_Inr_iff)
  then show "classify_schema_change (contract_columns contract) (observed_columns contract header) (optional_names contract) =
        Inr (map column_added (filter (\<lambda>c. sc_name c \<notin> cc_name ` set contract) (observed_columns contract header)))"
    by (auto simp: classify_schema_change_def names)
qed

section \<open>Which headers are accepted\<close>

text \<open>
  The field of every contract column that is present is at the column's own position, the absent
  columns are optional, and a header longer than the contract brings a new name.
\<close>

definition aligned :: "column_contract list \<Rightarrow> string list \<Rightarrow> bool" where
  "aligned contract header \<longleftrightarrow>
     take (length contract) header = take (length header) (map cc_name contract) \<and>
     list_all (\<lambda>c. \<not> cc_required c) (drop (length header) contract) \<and>
     (length contract < length header \<longrightarrow> list_ex (\<lambda>n. n \<notin> cc_name ` set contract) header)"

lemma incompatible_classes [simp]:
  "exn_class (disappeared k) = IncompatibleSchemaError" "exn_class (reordered a b) = IncompatibleSchemaError"
  by (simp_all add: disappeared_def reordered_def dp_error_def reserved_context_keys_def)

lemma aligned_not_missing:
  assumes "aligned contract header"
  shows "\<not> missing_required contract header"
proof -
  have "cc_name c \<in> set header" if c: "c \<in> set contract" "cc_required c" for c
  proof -
    obtain i where i: "i < length contract" "contract ! i = c" using c(1) by (auto simp: in_set_conv_nth)
    have "i < length header"
    proof (rule ccontr)
      assume "\<not> i < length header"
      then have "c \<in> set (drop (length header) contract)"
        using i by (auto simp: in_set_conv_nth intro!: exI [of _ "i - length header"])
      with assms c(2) show False by (auto simp: aligned_def list_all_iff)
    qed
    moreover have "take (length contract) header ! i = take (length header) (map cc_name contract) ! i"
      using assms by (simp add: aligned_def)
    ultimately have "header ! i = cc_name c" using i by simp
    with \<open>i < length header\<close> show ?thesis using nth_mem by metis
  qed
  then show ?thesis by (auto simp: missing_required_def list_ex_iff)
qed

lemma new_columns_iff:
  "filter (\<lambda>c. sc_name c \<notin> S) (observed_columns contract header) = [] \<longleftrightarrow> set header \<subseteq> S"
proof -
  have "set header = sc_name ` set (observed_columns contract header)"
    using observed_columns_names by (metis list.set_map)
  then show ?thesis by (auto simp: filter_empty_conv)
qed

lemma rest_optional_iff:
  assumes "distinct (map cc_name contract)"
  shows "list_all (\<lambda>c. sc_name c \<in> set (optional_names contract)) (drop n (contract_columns contract)) \<longleftrightarrow>
    list_all (\<lambda>c. \<not> cc_required c) (drop n contract)"
proof -
  have "map sc_name (drop n (contract_columns contract)) = map cc_name (drop n contract)"
    by (simp flip: drop_map)
  then have "list_all (\<lambda>x. x \<in> set (optional_names contract)) (map sc_name (drop n (contract_columns contract))) \<longleftrightarrow>
      list_all (\<lambda>x. x \<in> set (optional_names contract)) (map cc_name (drop n contract))" by (simp only:)
  moreover have "cc_name c \<in> set (optional_names contract) \<longleftrightarrow> \<not> cc_required c" if "c \<in> set (drop n contract)" for c
    using optional_names_iff [OF assms] in_set_dropD [OF that] .
  ultimately show ?thesis by (simp add: list.pred_map list_all_iff comp_def)
qed

lemma resolve_schema_simp:
  assumes "distinct (map cc_name contract)" and "\<not> missing_required contract header"
  shows "resolve_schema sha256 now ds contract header (Some cur) c1 c2 =
    (let names = map cc_name contract;
         old = map descriptor_of (contract_columns contract);
         new = map descriptor_of (observed_columns contract header);
         sync_contract = synced (schema_sync sha256 now ds old ''CONTRACT'' ''COMPATIBLE'' None c2)
     in if \<not> set header \<subseteq> set names then
          (if take (length names) header \<noteq> names then Inl (reordered names header)
           else synced (schema_sync sha256 now ds new ''INFERRED'' ''COMPATIBLE'' None c2))
        else if header \<noteq> names then
          (if header = take (length header) names \<and> list_all (\<lambda>c. \<not> cc_required c) (drop (length header) contract)
           then (case schema_resolve_by_hash ds (fst (hash_schema sha256 old)) c1 of
                   Inr v \<Rightarrow> resolved c1 (Inr v)
                 | Inl e \<Rightarrow> if is_subclass (exn_class e) StorageError then sync_contract else Inl e)
           else Inl (reordered names header))
        else if fst (hash_schema sha256 new) = sv_schema_hash cur then sync_contract
        else resolved c1 (schema_resolve_by_hash ds (fst (hash_schema sha256 new)) c1))"
  using rest_optional_iff [OF assms(1), of "length header"] new_columns_iff [of "cc_name ` set contract" contract header]
  by (simp add: resolve_schema_def classify_contract(2) [OF assms] Let_def)

lemma resolve_rejects:
  assumes "distinct (map cc_name contract)" and "\<not> aligned contract header"
  shows "\<exists>e. resolve_schema sha256 now ds contract header (Some cur) c1 c2 = Inl e \<and> exn_class e = IncompatibleSchemaError"
proof (cases "missing_required contract header")
  case True
  from classify_contract(1) [OF assms(1) this] obtain k where
    "classify_schema_change (contract_columns contract) (observed_columns contract header) (optional_names contract) =
       Inl (disappeared k)" ..
  then show ?thesis by (simp add: resolve_schema_def Let_def)
next
  case False
  let ?names = "map cc_name contract"
  have "resolve_schema sha256 now ds contract header (Some cur) c1 c2 = Inl (reordered ?names header)"
  proof (cases "set header \<subseteq> set ?names")
    case True
    have "header \<noteq> ?names" using assms(2) by (auto simp: aligned_def)
    moreover have "\<not> (header = take (length header) ?names \<and> list_all (\<lambda>c. \<not> cc_required c) (drop (length header) contract))"
    proof
      assume h: "header = take (length header) ?names \<and> list_all (\<lambda>c. \<not> cc_required c) (drop (length header) contract)"
      then have "length header \<le> length contract" by (metis length_map length_take min.cobounded1)
      with h assms(2) show False by (auto simp: aligned_def)
    qed
    ultimately show ?thesis
      using True by (simp only: resolve_schema_simp [OF assms(1) False] Let_def if_False if_True not_False_eq_True not_True_eq_False)
  next
    case new: False
    have "take (length ?names) header \<noteq> ?names"
    proof
      assume t: "take (length ?names) header = ?names"
      from arg_cong [OF this, of length] have "length contract \<le> length header" by simp
      moreover have "list_ex (\<lambda>n. n \<notin> cc_name ` set contract) header" using new by (auto simp: list_ex_iff)
      ultimately show False using t assms(2) by (simp add: aligned_def)
    qed
    with new show ?thesis by (auto simp: resolve_schema_simp [OF assms(1) False])
  qed
  then show ?thesis by simp
qed

lemma observed_contract:
  assumes "distinct (map cc_name contract)"
  shows "observed_columns contract (map cc_name contract) = contract_columns contract"
proof -
  have "contract_type contract (cc_name c) = type_text (cc_type c)" if c: "c \<in> set contract" for c
  proof -
    have d: "distinct (map fst (map (\<lambda>c. (cc_name c, type_text (cc_type c))) contract))"
      using assms by (simp add: comp_def)
    have "map_of (map (\<lambda>c. (cc_name c, type_text (cc_type c))) contract) (cc_name c) = Some (type_text (cc_type c))"
      using c d by (intro map_of_is_SomeI) auto
    then show ?thesis unfolding contract_type_def map_of_rev_distinct [OF d] by simp
  qed
  then show ?thesis by (simp add: observed_columns_def contract_columns_def comp_def cong: map_cong)
qed

definition contract_hash :: "(string \<Rightarrow> string) \<Rightarrow> column_contract list \<Rightarrow> string" where
  "contract_hash sha256 contract = fst (hash_schema sha256 (map descriptor_of (contract_columns contract)))"

text \<open>What each accepted header is resolved to.\<close>

lemma resolve_accepts:
  assumes "distinct (map cc_name contract)" and "aligned contract header"
  shows "length contract < length header \<Longrightarrow> resolve_schema sha256 now ds contract header (Some cur) c1 c2 =
      synced (schema_sync sha256 now ds (map descriptor_of (observed_columns contract header)) ''INFERRED'' ''COMPATIBLE'' None c2)"
    and "length header < length contract \<Longrightarrow> resolve_schema sha256 now ds contract header (Some cur) c1 c2 =
      (case schema_resolve_by_hash ds (contract_hash sha256 contract) c1 of
         Inr v \<Rightarrow> resolved c1 (Inr v)
       | Inl e \<Rightarrow> if is_subclass (exn_class e) StorageError
                  then synced (schema_sync sha256 now ds (map descriptor_of (contract_columns contract)) ''CONTRACT'' ''COMPATIBLE'' None c2)
                  else Inl e)"
    and "length header = length contract \<Longrightarrow> resolve_schema sha256 now ds contract header (Some cur) c1 c2 =
      (if contract_hash sha256 contract = sv_schema_hash cur
       then synced (schema_sync sha256 now ds (map descriptor_of (contract_columns contract)) ''CONTRACT'' ''COMPATIBLE'' None c2)
       else resolved c1 (schema_resolve_by_hash ds (contract_hash sha256 contract) c1))"
proof -
  let ?names = "map cc_name contract"
  note simp = resolve_schema_simp [OF assms(1) aligned_not_missing [OF assms(2)], of sha256 now ds cur c1 c2, unfolded Let_def]
  { assume len: "length contract < length header"
    then have "\<not> set header \<subseteq> set ?names" and "take (length ?names) header = ?names"
      using assms(2) by (auto simp: aligned_def list_ex_iff)
    then show "resolve_schema sha256 now ds contract header (Some cur) c1 c2 =
        synced (schema_sync sha256 now ds (map descriptor_of (observed_columns contract header)) ''INFERRED'' ''COMPATIBLE'' None c2)"
      unfolding simp by simp }
  { assume len: "length header < length contract"
    then have h: "header = take (length header) ?names" using assms(2) by (simp add: aligned_def)
    then have "set header \<subseteq> set ?names" by (metis set_take_subset)
    moreover have "header \<noteq> ?names" using len by auto
    moreover have "list_all (\<lambda>c. \<not> cc_required c) (drop (length header) contract)" using assms(2) by (simp add: aligned_def)
    ultimately show "resolve_schema sha256 now ds contract header (Some cur) c1 c2 =
        (case schema_resolve_by_hash ds (contract_hash sha256 contract) c1 of
           Inr v \<Rightarrow> resolved c1 (Inr v)
         | Inl e \<Rightarrow> if is_subclass (exn_class e) StorageError
                    then synced (schema_sync sha256 now ds (map descriptor_of (contract_columns contract)) ''CONTRACT'' ''COMPATIBLE'' None c2)
                    else Inl e)"
      using h unfolding simp contract_hash_def by simp }
  assume "length header = length contract"
  then have h: "header = ?names" using assms(2) by (simp add: aligned_def)
  then show "resolve_schema sha256 now ds contract header (Some cur) c1 c2 =
      (if contract_hash sha256 contract = sv_schema_hash cur
       then synced (schema_sync sha256 now ds (map descriptor_of (contract_columns contract)) ''CONTRACT'' ''COMPATIBLE'' None c2)
       else resolved c1 (schema_resolve_by_hash ds (contract_hash sha256 contract) c1))"
    unfolding simp by (simp add: h contract_hash_def observed_contract [OF assms(1)])
qed

lemma schema_sync_succeeds:
  assumes "catalog_ok sha256 c" and "dataset_known (ct_meta c) ds"
  shows "\<exists>r. synced (schema_sync sha256 now ds columns derived_from compatibility breaking c) = Inr r"
proof -
  have ok: "versions_ok (ct_schemas c)" using assms(1) by (simp add: catalog_ok_def)
  show ?thesis using ok row_makers(1) [of ds "hash_schema sha256 columns" now columns derived_from compatibility breaking]
    by (cases rule: sync_version_cases [where now = now]) (simp_all add: schema_sync_def synced_def assms(2) Let_def)
qed

lemma schema_resolve_iff:
  "schema_resolve_by_hash ds h c =
     (if h \<in> set (hash_history (ct_schemas c) ds)
      then Inr (schema_record False (the (find (\<lambda>r. vs_dataset_id r = ds \<and> vs_hash r = h) (vt_rows (ct_schemas c)))))
      else Inl (Exn StorageError []))"
proof (cases "find (\<lambda>r. vs_dataset_id r = ds \<and> vs_hash r = h) (vt_rows (ct_schemas c))")
  case None
  then have "h \<notin> set (hash_history (ct_schemas c) ds)"
    by (auto simp: hash_history_def versions_of_def find_None_iff)
  with None show ?thesis by (simp add: schema_resolve_by_hash_def dp_error_def)
next
  case (Some r)
  then have "h \<in> set (hash_history (ct_schemas c) ds)"
    by (auto simp: hash_history_def versions_of_def dest!: find_SomeD)
  with Some show ?thesis by (simp add: schema_resolve_by_hash_def)
qed

lemma current_hash_recorded:
  "schema_get_current ds c = Some cur \<Longrightarrow> sv_schema_hash cur \<in> set (hash_history (ct_schemas c) ds)"
  by (auto simp: schema_get_current_def current_version_def schema_record_def hash_history_def versions_of_def
      dest: find_SomeD)

text \<open>C12: With a recorded schema and distinct contract names, \<open>_resolve_schema\<close> accepts exactly the headers
  whose present columns sit at the contract's own positions, whose absent columns are optional and whose
  additional columns bring a new name - provided that a header equal to the contract meets a contract that
  has been recorded; every other header is an \<open>IncompatibleSchemaError\<close>, and the unrecorded contract
  a \<open>StorageError\<close>.\<close>

theorem header_decision:
  assumes "catalog_ok sha256 c" and "dataset_known (ct_meta c) ds"
    and "schema_get_current ds c = Some cur" and "distinct (map cc_name contract)"
  shows "(case resolve_schema sha256 now ds contract header (Some cur) c c of
      Inr r \<Rightarrow> aligned contract header \<and>
        (length header = length contract \<longrightarrow> contract_hash sha256 contract \<in> set (hash_history (ct_schemas c) ds))
    | Inl e \<Rightarrow>
        (if aligned contract header
         then exn_class e = StorageError \<and> length header = length contract \<and>
           contract_hash sha256 contract \<notin> set (hash_history (ct_schemas c) ds)
         else exn_class e = IncompatibleSchemaError))"
proof (cases "aligned contract header")
  case False
  from resolve_rejects [OF assms(4) this, of sha256 now ds cur c c] False show ?thesis by auto
next
  case True
  note sync = schema_sync_succeeds [OF assms(1,2), of now]
  consider "length contract < length header" | "length header < length contract" | "length header = length contract"
    by linarith
  then show ?thesis
  proof cases
    case 1
    then show ?thesis
      using resolve_accepts(1) [OF assms(4) True 1, of sha256 now ds cur c c] True
        sync [of "map descriptor_of (observed_columns contract header)" "''INFERRED''" "''COMPATIBLE''" None]
      by auto
  next
    case 2
    then show ?thesis
      using resolve_accepts(2) [OF assms(4) True 2, of sha256 now ds cur c c] True
        sync [of "map descriptor_of (contract_columns contract)" "''CONTRACT''" "''COMPATIBLE''" None]
      by (auto simp: schema_resolve_iff resolved_def split: if_splits)
  next
    case 3
    then show ?thesis
      using resolve_accepts(3) [OF assms(4) True 3, of sha256 now ds cur c c] True current_hash_recorded [OF assms(3)]
        sync [of "map descriptor_of (contract_columns contract)" "''CONTRACT''" "''COMPATIBLE''" None]
      by (auto simp: schema_resolve_iff resolved_def split: if_splits)
  qed
qed

definition demo_column :: "string \<Rightarrow> bool \<Rightarrow> column_contract" where
  "demo_column name required = \<lparr>cc_name = name, cc_type = TString, cc_nullable = True, cc_required = required,
     cc_business_key = False, cc_format = None, cc_fixed_width = None,
     cc_reject_scientific_notation = False, cc_scd_type = None\<rparr>"

definition demo_contract :: "column_contract list" where
  "demo_contract = [demo_column ''id'' True, demo_column ''country'' False]"

lemma header_decision_witness:
  "(\<exists>r. resolve_schema (\<lambda>s. s) 9 1 demo_contract [''id''] (schema_get_current 1 demo_catalog) demo_catalog demo_catalog = Inr r) \<and>
   (\<exists>e. resolve_schema (\<lambda>s. s) 9 1 demo_contract [''id'', ''country''] (schema_get_current 1 demo_catalog) demo_catalog demo_catalog = Inl e \<and>
      exn_class e = StorageError)"
proof -
  have ok: "catalog_ok (\<lambda>s. s) demo_catalog" "dataset_known (ct_meta demo_catalog) 1"
    "distinct (map cc_name demo_contract)" by code_simp+
  obtain cur where cur: "schema_get_current 1 demo_catalog = Some cur"
    using ok by (cases "schema_get_current 1 demo_catalog") (simp_all add: schema_get_current_def current_version_def demo_catalog_def new_schema_row_def)
  have a: "aligned demo_contract [''id'']" "length [''id''] \<noteq> length demo_contract"
    "aligned demo_contract [''id'', ''country'']"
    "contract_hash (\<lambda>s. s) demo_contract \<notin> set (hash_history (ct_schemas demo_catalog) 1)" by code_simp+
  have l: "length [''id'', ''country''] = length demo_contract" by (simp add: demo_contract_def)
  from header_decision [OF ok(1,2) cur ok(3), of "[''id'']" 9] header_decision [OF ok(1,2) cur ok(3), of "[''id'', ''country'']" 9]
  show ?thesis using a l cur by (auto split: sum.splits)
qed

text \<open>The first file of a dataset is not compared with the contract at all.\<close>

lemma first_file_unchecked:
  "resolve_schema sha256 now ds contract header None c1 c2 =
   synced (schema_sync sha256 now ds (map descriptor_of (contract_columns contract)) ''CONTRACT'' ''COMPATIBLE'' None c2)"
  by (simp add: resolve_schema_def Let_def)

text \<open>Once the contract has changed, a file that carries exactly its columns cannot be read any more.\<close>

lemma changed_contract_blocks_files:
  assumes "distinct (map cc_name contract)"
    and "contract_hash sha256 contract \<notin> set (hash_history (ct_schemas c) ds)"
    and "schema_get_current ds c = Some cur"
  shows "resolve_schema sha256 now ds contract (map cc_name contract) (Some cur) c c = Inl (Exn StorageError [])"
proof -
  have "aligned contract (map cc_name contract)" by (simp add: aligned_def)
  from resolve_accepts(3) [OF assms(1) this, of sha256 now ds cur c c] assms(2) current_hash_recorded [OF assms(3)]
  show ?thesis by (auto simp: schema_resolve_iff resolved_def)
qed

text \<open>A narrower file never moves the current version of a dataset whose contract is recorded.\<close>

lemma narrow_header_keeps_catalog:
  assumes "distinct (map cc_name contract)" and "aligned contract header" and "length header < length contract"
    and "contract_hash sha256 contract \<in> set (hash_history (ct_schemas c) ds)"
  shows "\<exists>v. resolve_schema sha256 now ds contract header (Some cur) c c = Inr (c, v)"
  using resolve_accepts(2) [OF assms(1-3), of sha256 now ds cur c c] assms(4)
  by (simp add: schema_resolve_iff resolved_def)

end
