(* ===== verification/Discovery.thy ===== *)
theory Discovery
  imports Calls MetaHistory Schema "HOL-Library.Product_Lexorder"
begin

text \<open>
  Discovery (\<open>discovery.py\<close>): list one dataset's objects, hash and register each, skip the content
  duplicates, obtain a batch and a run for the rest, and freeze an assignment document per run.  Every
  repository call commits on its own, so a failure leaves what was registered before it.
  The object store's answers, sha256, the regular expressions of the multipart pattern and the
  validation of a marker's body are parameters (\<open>discovery_world\<close>).
\<close>

section \<open>The data\<close>

record object_summary =
  os_key :: string
  os_size_bytes :: int

record batch_complete_manifest =
  bm_expected_row_count :: int
  bm_expected_checksum :: "string option"

record file_assignment =
  fa_file_id :: int
  fa_object_uri :: string
  fa_content_sha256 :: string
  fa_size_bytes :: int

record assignment_document =
  as_version :: int
  as_run_id :: int
  as_idempotency_key :: string
  as_dataset :: string
  as_config_version_id :: int
  as_config_hash :: string
  as_file :: file_assignment
  as_additional_parts :: "file_assignment list"
  as_batch_key :: string
  as_batch_id :: int
  as_manifest :: "batch_complete_manifest option"

record discovered_unit =
  du_assignment_uri :: string
  du_idempotency_key :: string
  du_run_id :: int

record multipart_group =
  mg_group_key :: string
  mg_object_keys :: "string list"

record part_registration =
  pt_key :: string
  pt_file_id :: int
  pt_content_sha256 :: string
  pt_size_bytes :: int

record discovery_world =
  dw_list :: "exn + object_summary list"
  dw_read :: "string \<Rightarrow> exn + string"
  dw_put :: "string \<Rightarrow> exn + unit"
  dw_sha256 :: "string \<Rightarrow> string"
  dw_search :: "string \<Rightarrow> string \<Rightarrow> bool"
  dw_fullmatch :: "string \<Rightarrow> string \<Rightarrow> (string \<times> string) option"
  dw_validate_manifest :: "string \<Rightarrow> batch_complete_manifest option"

record discovery_args =
  da_dataset_id :: int
  da_dataset_name :: string
  da_config :: dataset_config
  da_max_units_per_run :: int
  da_config_version_id :: int
  da_config_hash :: string
  da_processor_image :: string
  da_processor_version :: string

text \<open>The database and the documents in the bucket \<open>metadata\<close>, by key.\<close>

record discovery_state =
  dy_catalog :: catalog
  dy_documents :: "string \<Rightarrow> assignment_document option"

definition dy_meta :: "discovery_state \<Rightarrow> meta_db" where
  "dy_meta s = ct_meta (dy_catalog s)"

definition set_meta :: "meta_db \<Rightarrow> discovery_state \<Rightarrow> discovery_state" where
  "set_meta db s = s\<lparr>dy_catalog := (dy_catalog s)\<lparr>ct_meta := db\<rparr>\<rparr>"

text \<open>A call of the metadata repository.\<close>

definition meta_call :: "(meta_db \<Rightarrow> exn + meta_db \<times> 'a) \<Rightarrow> (discovery_state, 'a) prog" where
  "meta_call f = pr_call (\<lambda>s. case f (dy_meta s) of Inl e \<Rightarrow> Inl e | Inr (db, x) \<Rightarrow> Inr (set_meta db s, x))"

definition meta_query :: "(meta_db \<Rightarrow> 'a) \<Rightarrow> (discovery_state, 'a) prog" where
  "meta_query q = pr_query (\<lambda>s. q (dy_meta s))"

definition file_hash_version :: int where "file_hash_version = 1"

definition pipeline_version :: string where "pipeline_version = ''2''"

definition terminal_non_reofferable_statuses :: "string list" where
  "terminal_non_reofferable_statuses = [''SUCCEEDED'', ''QUARANTINED'']"

section \<open>One object\<close>

text \<open>\<open>key.rsplit("/", 1)[-1]\<close>.\<close>

definition base_name :: "string \<Rightarrow> string" where
  "base_name key = rev (takeWhile (\<lambda>c. c \<noteq> CHR ''/'') (rev key))"

definition object_uri :: "discovery_args \<Rightarrow> string \<Rightarrow> string" where
  "object_uri a key = ''s3://'' @ so_bucket (ds_source (da_config a)) @ ''/'' @ key"

definition file_row_of :: "discovery_args \<Rightarrow> object_summary \<Rightarrow> string \<Rightarrow> int option \<Rightarrow> file_row" where
  "file_row_of a obj sha dup =
     \<lparr>fl_id = 0, fl_dataset_id = da_dataset_id a, fl_object_uri = object_uri a (os_key obj),
      fl_content_sha256 = sha, fl_hash_version = file_hash_version, fl_size_bytes = os_size_bytes obj,
      fl_filename = base_name (os_key obj), fl_status = ''DISCOVERED'', fl_duplicate_of = dup\<rparr>"

definition skips_duplicates :: "discovery_args \<Rightarrow> bool" where
  "skips_duplicates a \<longleftrightarrow> so_duplicate_policy (ds_source (da_config a)) = ''skip''"

definition duplicate_of :: "discovery_args \<Rightarrow> int option \<Rightarrow> int option" where
  "duplicate_of a existing = (if existing \<noteq> None \<and> skips_duplicates a then existing else None)"

definition hash_and_register_file :: "discovery_world \<Rightarrow> discovery_args \<Rightarrow> object_summary \<Rightarrow>
    (discovery_state, int \<times> string \<times> bool) prog" where
  "hash_and_register_file w a obj =
     pr_bind (pr_lift (dw_read w (os_key obj))) (\<lambda>body.
     let sha = dw_sha256 w body in
     pr_bind (meta_query (find_file_by_content_hash (da_dataset_id a) sha)) (\<lambda>existing.
     let dup = duplicate_of a existing in
     pr_bind (meta_call (create_file (file_row_of a obj sha dup))) (\<lambda>file_id.
       if dup \<noteq> None \<and> Some file_id = existing
       then pr_bind (meta_call (create_file (file_row_of a obj sha None))) (\<lambda>file_id'. pr_return (file_id', sha, False))
       else pr_return (file_id, sha, dup \<noteq> None))))"

definition idempotency_key :: "discovery_world \<Rightarrow> discovery_args \<Rightarrow> string \<Rightarrow> string \<Rightarrow> string" where
  "idempotency_key w a schema_term sha =
     dw_sha256 w (join ''|'' [da_dataset_name a, sha, da_config_hash a, da_processor_image a, schema_term, pipeline_version])"

definition content_batch_key :: "discovery_args \<Rightarrow> string \<Rightarrow> string" where
  "content_batch_key a sha = da_dataset_name a @ '':'' @ take 16 sha"

definition run_spec_of :: "discovery_args \<Rightarrow> string \<Rightarrow> int option \<Rightarrow> int \<Rightarrow> int option \<Rightarrow> run_spec" where
  "run_spec_of a key file_id batch_id replay =
     \<lparr>sp_idempotency_key = key, sp_dataset_id = da_dataset_id a,
      sp_config_version_id = da_config_version_id a, sp_processor_version = da_processor_version a,
      sp_processor_image_digest = da_processor_image a, sp_file_id = file_id,
      sp_batch_id = Some batch_id, sp_replay_of_run_id = replay\<rparr>"

definition assignment_key :: "discovery_args \<Rightarrow> int \<Rightarrow> string" where
  "assignment_key a run_id = ''assignments/'' @ da_dataset_name a @ ''/'' @ show_int run_id @ ''.json''"

definition file_assignment_of :: "discovery_args \<Rightarrow> part_registration \<Rightarrow> file_assignment" where
  "file_assignment_of a p =
     \<lparr>fa_file_id = pt_file_id p, fa_object_uri = object_uri a (pt_key p),
      fa_content_sha256 = pt_content_sha256 p, fa_size_bytes = pt_size_bytes p\<rparr>"

definition put_document :: "discovery_world \<Rightarrow> string \<Rightarrow> assignment_document \<Rightarrow> (discovery_state, unit) prog" where
  "put_document w key doc =
     pr_call (\<lambda>s. case dw_put w key of Inl e \<Rightarrow> Inl e
        | Inr _ \<Rightarrow> Inr (s\<lparr>dy_documents := (dy_documents s)(key \<mapsto> doc)\<rparr>, ()))"

text \<open>What follows the registration, for one file or the parts of a group.\<close>

definition link_parts :: "int \<Rightarrow> part_registration list \<Rightarrow> (discovery_state, unit list) prog" where
  "link_parts batch_id parts =
     pr_for (enumerate 1 parts) (\<lambda>(n, p). meta_call (\<lambda>db.
       case link_batch_file batch_id (pt_file_id p) (int n) db of Inl e \<Rightarrow> Inl e | Inr db' \<Rightarrow> Inr (db', ())))"

definition unit_for :: "discovery_args \<Rightarrow> string \<Rightarrow> int \<Rightarrow> discovered_unit" where
  "unit_for a key run_id =
     \<lparr>du_assignment_uri = ''s3://metadata/'' @ assignment_key a run_id, du_idempotency_key = key, du_run_id = run_id\<rparr>"

definition freeze_assignment :: "discovery_world \<Rightarrow> discovery_args \<Rightarrow> batch_complete_manifest option \<Rightarrow> string \<Rightarrow>
    string \<Rightarrow> int \<Rightarrow> part_registration list \<Rightarrow> int \<times> string \<Rightarrow> (discovery_state, discovered_unit option) prog" where
  "freeze_assignment w a manifest key sha batch_id parts run =
     (if snd run \<in> set terminal_non_reofferable_statuses then pr_return None
      else
        pr_bind (put_document w (assignment_key a (fst run))
          \<lparr>as_version = 1, as_run_id = fst run, as_idempotency_key = key, as_dataset = da_dataset_name a,
           as_config_version_id = da_config_version_id a, as_config_hash = da_config_hash a,
           as_file = file_assignment_of a (hd parts),
           as_additional_parts = map (file_assignment_of a) (tl parts),
           as_batch_key = content_batch_key a sha, as_batch_id = batch_id, as_manifest = manifest\<rparr>)
          (\<lambda>_. pr_return (Some (unit_for a key (fst run)))))"

definition offer_run :: "discovery_world \<Rightarrow> discovery_args \<Rightarrow> string \<Rightarrow> batch_complete_manifest option \<Rightarrow>
    string \<Rightarrow> int option \<Rightarrow> part_registration list \<Rightarrow> (discovery_state, discovered_unit option) prog" where
  "offer_run w a schema_term manifest sha run_file parts =
     (let key = idempotency_key w a schema_term sha in
      pr_bind (meta_call (get_or_create_batch (da_dataset_id a) (content_batch_key a sha) ''OPEN'')) (\<lambda>batch_id.
      pr_bind (link_parts batch_id parts) (\<lambda>_.
      pr_bind (meta_query (find_latest_succeeded_run_for_file (pt_file_id (hd parts)))) (\<lambda>replay.
      pr_bind (meta_call (get_or_create_ingestion_run (run_spec_of a key run_file batch_id replay)))
        (freeze_assignment w a manifest key sha batch_id parts)))))"

definition single_part :: "object_summary \<Rightarrow> int \<Rightarrow> string \<Rightarrow> part_registration" where
  "single_part obj file_id sha =
     \<lparr>pt_key = os_key obj, pt_file_id = file_id, pt_content_sha256 = sha, pt_size_bytes = os_size_bytes obj\<rparr>"

definition process_ungrouped_object :: "discovery_world \<Rightarrow> discovery_args \<Rightarrow> string \<Rightarrow>
    batch_complete_manifest option \<Rightarrow> object_summary \<Rightarrow> (discovery_state, discovered_unit option) prog" where
  "process_ungrouped_object w a schema_term manifest obj =
     pr_bind (hash_and_register_file w a obj) (\<lambda>(file_id, sha, is_duplicate).
       if is_duplicate then pr_return None
       else offer_run w a schema_term manifest sha (Some file_id)
         [single_part obj file_id sha])"

section \<open>Multipart groups\<close>

text \<open>The matches of the pattern, \<open>int(match.group("index"))\<close> included.\<close>

definition member_of :: "discovery_world \<Rightarrow> string \<Rightarrow> object_summary \<Rightarrow> exn + (string \<times> int \<times> string) list" where
  "member_of w pattern obj =
     (case dw_fullmatch w pattern (os_key obj) of
        None \<Rightarrow> Inr []
      | Some (grp, index) \<Rightarrow>
          (case py_int index of None \<Rightarrow> Inl (Exn PyValueError []) | Some i \<Rightarrow> Inr [(grp, i, os_key obj)]))"

definition multipart_members :: "discovery_world \<Rightarrow> string \<Rightarrow> object_summary list \<Rightarrow> exn + (string \<times> int \<times> string) list" where
  "multipart_members w pattern listed =
     (case traverse (member_of w pattern) listed of Inl e \<Rightarrow> Inl e | Inr ms \<Rightarrow> Inr (concat ms))"

definition incomplete_group :: "string \<Rightarrow> int list \<Rightarrow> exn" where
  "incomplete_group g indices = dp_error FileInspectionError
     [(''diagnostic_code'', VStr ''multipart-group-incomplete''), (''group_key'', VStr g),
      (''indices'', VList (map VInt indices))]"

definition order_group :: "(string \<times> int \<times> string) list \<Rightarrow> string \<Rightarrow> exn + multipart_group" where
  "order_group members g =
     (let ms = sort (map snd (filter (\<lambda>m. fst m = g) members));
          indices = map fst ms
      in if indices \<noteq> map (\<lambda>i. hd indices + int i) [0..<length indices] then Inl (incomplete_group g indices)
         else Inr \<lparr>mg_group_key = g, mg_object_keys = map snd ms\<rparr>)"

definition group_multipart_units :: "discovery_world \<Rightarrow> string \<Rightarrow> object_summary list \<Rightarrow> exn + multipart_group list" where
  "group_multipart_units w pattern listed =
     (case multipart_members w pattern listed of
        Inl e \<Rightarrow> Inl e
      | Inr ms \<Rightarrow> traverse (order_group ms) (sort (remdups (map fst ms))))"

definition register_part :: "discovery_world \<Rightarrow> discovery_args \<Rightarrow> (string \<Rightarrow> object_summary) \<Rightarrow> string \<Rightarrow>
    (discovery_state, part_registration \<times> bool) prog" where
  "register_part w a objects_by_key key =
     pr_bind (hash_and_register_file w a (objects_by_key key)) (\<lambda>(file_id, sha, is_duplicate).
       pr_return (\<lparr>pt_key = key, pt_file_id = file_id, pt_content_sha256 = sha,
         pt_size_bytes = os_size_bytes (objects_by_key key)\<rparr>, is_duplicate))"

definition process_multipart_group :: "discovery_world \<Rightarrow> discovery_args \<Rightarrow> string \<Rightarrow>
    batch_complete_manifest option \<Rightarrow> (string \<Rightarrow> object_summary) \<Rightarrow> multipart_group \<Rightarrow>
    (discovery_state, discovered_unit option) prog" where
  "process_multipart_group w a schema_term manifest objects_by_key g =
     pr_bind (pr_for (mg_object_keys g) (register_part w a objects_by_key)) (\<lambda>parts.
       if list_ex snd parts then pr_return None
       else
         let group_sha = dw_sha256 w (join ''|'' (map (\<lambda>p. pt_content_sha256 (fst p)) parts))
         in offer_run w a schema_term manifest group_sha None (map fst parts))"

text \<open>\<open>open_multipart_stream\<close>: the parts' lines one after the other.\<close>

definition open_multipart_stream :: "string list list \<Rightarrow> string list" where
  "open_multipart_stream streams = concat streams"

section \<open>The marker gate and the whole call\<close>

definition parse_batch_complete_manifest :: "discovery_world \<Rightarrow> string \<Rightarrow> string \<Rightarrow> exn + batch_complete_manifest" where
  "parse_batch_complete_manifest w text_body marker_key =
     (case dw_validate_manifest w text_body of
        None \<Rightarrow> Inl (dp_error ConfigurationError [(''marker_key'', VStr marker_key)])
      | Some m \<Rightarrow> Inr m)"

definition apply_batch_complete_marker_gate :: "discovery_world \<Rightarrow> discovery_args \<Rightarrow> object_summary list \<Rightarrow>
    exn + object_summary list \<times> bool \<times> batch_complete_manifest option" where
  "apply_batch_complete_marker_gate w a listed =
     (let src = ds_source (da_config a) in
      case so_batch_complete_marker src of
        None \<Rightarrow> Inr (listed, False, None)
      | Some marker \<Rightarrow>
         (let marker_key = so_path src @ marker in
          if \<not> list_ex (\<lambda>o'. os_key o' = marker_key) listed then Inr ([], True, None)
          else
            (case (case dw_read w marker_key of Inl e \<Rightarrow> Inl e
                     | Inr body \<Rightarrow> parse_batch_complete_manifest w body marker_key) of
               Inl e \<Rightarrow> if is_subclass (exn_class e) DataPlatformError then Inr ([], True, None) else Inl e
             | Inr m \<Rightarrow> Inr (filter (\<lambda>o'. os_key o' \<noteq> marker_key) listed, False, Some m))))"

text \<open>\<open>candidates[:cap]\<close>, guarded by \<open>len(candidates) > cap\<close>; a negative bound counts from the end.\<close>

definition cap_units :: "int \<Rightarrow> 'a list \<Rightarrow> 'a list" where
  "cap_units cap xs =
     (if int (length xs) > cap
      then (if 0 \<le> cap then take (nat cap) xs else take (nat (int (length xs) + cap)) xs)
      else xs)"

definition schema_version_term :: "int \<Rightarrow> catalog \<Rightarrow> string" where
  "schema_version_term ds c = (case schema_get_current ds c of None \<Rightarrow> '''' | Some v \<Rightarrow> show_int (sv_version v))"

definition lookup_object :: "object_summary list \<Rightarrow> string \<Rightarrow> object_summary" where
  "lookup_object listed key = the (map_of (rev (map (\<lambda>o'. (os_key o', o')) listed)) key)"

definition partition_listing :: "discovery_world \<Rightarrow> discovery_args \<Rightarrow> object_summary list \<Rightarrow>
    exn + multipart_group list \<times> object_summary list" where
  "partition_listing w a listed =
     (case so_multipart_pattern (ds_source (da_config a)) of
        None \<Rightarrow> Inr ([], listed)
      | Some pattern \<Rightarrow>
          (case group_multipart_units w pattern (filter (\<lambda>o'. dw_search w pattern (os_key o')) listed) of
             Inl e \<Rightarrow> Inl e
           | Inr groups \<Rightarrow> Inr (groups, filter (\<lambda>o'. \<not> dw_search w pattern (os_key o')) listed)))"

definition discover_files :: "discovery_world \<Rightarrow> discovery_args \<Rightarrow> (discovery_state, discovered_unit list) prog" where
  "discover_files w a =
     pr_bind (pr_lift (dw_list w)) (\<lambda>objs.
     pr_bind (pr_lift (apply_batch_complete_marker_gate w a (sort_key os_key objs))) (\<lambda>(listed, withheld, manifest).
       if withheld then pr_return []
       else
         pr_bind (pr_query (\<lambda>s. schema_version_term (da_dataset_id a) (dy_catalog s))) (\<lambda>schema_term.
         pr_bind (pr_lift (partition_listing w a listed)) (\<lambda>(groups, remaining).
         pr_bind (pr_for groups (process_multipart_group w a schema_term manifest (lookup_object listed))) (\<lambda>us.
         pr_bind (pr_for remaining (process_ungrouped_object w a schema_term manifest)) (\<lambda>vs.
           pr_return (cap_units (da_max_units_per_run a) (map the (filter (\<lambda>u. u \<noteq> None) (us @ vs))))))))))"

section \<open>Groups\<close>

definition part_index :: "discovery_world \<Rightarrow> string \<Rightarrow> string \<Rightarrow> (string \<times> int) option" where
  "part_index w pattern key =
     (case dw_fullmatch w pattern key of
        None \<Rightarrow> None | Some (g, ix) \<Rightarrow> map_option (Pair g) (py_int ix))"

lemma mset_filter_disj:
  "(\<And>x. \<not> (P x \<and> Q x)) \<Longrightarrow> mset (filter P xs) + mset (filter Q xs) = mset (filter (\<lambda>x. P x \<or> Q x) xs)"
  by (induction xs) auto

lemma mset_by_group:
  "distinct gs \<Longrightarrow> mset (concat (map (\<lambda>g. filter (\<lambda>m. fst m = g) ms) gs)) = mset (filter (\<lambda>m. fst m \<in> set gs) ms)"
proof (induction gs)
  case (Cons g gs)
  then have "mset (concat (map (\<lambda>g. filter (\<lambda>m. fst m = g) ms) (g # gs))) =
      mset (filter (\<lambda>m. fst m = g) ms) + mset (filter (\<lambda>m. fst m \<in> set gs) ms)" by simp
  also have "\<dots> = mset (filter (\<lambda>m. fst m = g \<or> fst m \<in> set gs) ms)"
    using Cons.prems by (intro mset_filter_disj) auto
  finally show ?case by simp
qed simp

lemma multipart_members_Inr:
  assumes "multipart_members w pattern listed = Inr ms"
  shows "(g, i, k) \<in> set ms \<Longrightarrow> part_index w pattern k = Some (g, i)"
    and "map (\<lambda>m. snd (snd m)) ms = filter (\<lambda>k. part_index w pattern k \<noteq> None) (map os_key listed)"
proof -
  obtain mss where t: "traverse (member_of w pattern) listed = Inr mss" and ms: "ms = concat mss"
    using assms by (auto simp: multipart_members_def split: sum.splits)
  { assume "(g, i, k) \<in> set ms"
    then obtain x where x: "x \<in> set mss" "(g, i, k) \<in> set x" by (auto simp: ms)
    with traverse_mem [OF t x(1)] obtain obj where "member_of w pattern obj = Inr x" by blast
    with x(2) show "part_index w pattern k = Some (g, i)"
      by (auto simp: part_index_def member_of_def split: option.splits) }
  have member: "map (\<lambda>m. snd (snd m)) x = (if part_index w pattern (os_key obj) \<noteq> None then [os_key obj] else [])"
    if "member_of w pattern obj = Inr x" for obj x
    using that by (auto simp: part_index_def member_of_def split: option.splits)
  show "map (\<lambda>m. snd (snd m)) ms = filter (\<lambda>k. part_index w pattern k \<noteq> None) (map os_key listed)"
    using t unfolding ms by (induction listed arbitrary: mss) (auto simp: member split: sum.splits)
qed

lemma order_group_Inr:
  assumes "order_group ms g = Inr r"
  shows "mg_group_key r = g" and "mset (mg_object_keys r) = mset (map (\<lambda>m. snd (snd m)) (filter (\<lambda>m. fst m = g) ms))"
    and "\<exists>start. \<forall>n < length (mg_object_keys r). (g, start + int n, mg_object_keys r ! n) \<in> set ms"
proof -
  let ?ms = "sort (map snd (filter (\<lambda>m. fst m = g) ms))"
  let ?ix = "map fst ?ms"
  from assms have r: "r = \<lparr>mg_group_key = g, mg_object_keys = map snd ?ms\<rparr>"
    and ix: "?ix = map (\<lambda>i. hd ?ix + int i) [0..<length ?ix]"
    by (auto simp: order_group_def Let_def split: if_splits)
  show "mg_group_key r = g" by (simp add: r)
  show "mset (mg_object_keys r) = mset (map (\<lambda>m. snd (snd m)) (filter (\<lambda>m. fst m = g) ms))"
    by (simp add: r multiset.map_comp comp_def)
  have "(g, hd ?ix + int n, mg_object_keys r ! n) \<in> set ms" if n: "n < length (mg_object_keys r)" for n
  proof -
    have len: "n < length ?ms" using n by (simp add: r)
    then have "?ms ! n \<in> set ?ms" by (rule nth_mem)
    then obtain m where m: "m \<in> set ms" "fst m = g" "snd m = ?ms ! n" by auto
    have "fst (?ms ! n) = ?ix ! n" using len by simp
    also have "\<dots> = hd ?ix + int n" using arg_cong [OF ix, of "\<lambda>xs. xs ! n"] len by simp
    finally have "?ms ! n = (hd ?ix + int n, snd (?ms ! n))" by (metis prod.collapse)
    with m have "m = (g, hd ?ix + int n, snd (?ms ! n))" by (metis prod.collapse)
    with m(1) len show ?thesis by (simp add: r)
  qed
  then show "\<exists>start. \<forall>n < length (mg_object_keys r). (g, start + int n, mg_object_keys r ! n) \<in> set ms" by blast
qed

text \<open>C38: When \<open>group_multipart_units\<close> returns, its groups are in strictly ascending order of their keys,
  every matching object is in exactly one group, and the parts of a group are in the order of their part
  numbers, consecutive from the first one: no part is missing, repeated or out of place.\<close>

theorem multipart_groups_complete:
  assumes "group_multipart_units w pattern listed = Inr groups"
  shows "sorted_wrt (<) (map mg_group_key groups) \<and>
    mset (concat (map mg_object_keys groups)) =
      mset (filter (\<lambda>k. part_index w pattern k \<noteq> None) (map os_key listed)) \<and>
    (\<forall>g \<in> set groups. \<exists>start. \<forall>n < length (mg_object_keys g).
       part_index w pattern (mg_object_keys g ! n) = Some (mg_group_key g, start + int n))"
proof -
  obtain ms where ms: "multipart_members w pattern listed = Inr ms"
    and groups: "traverse (order_group ms) (sort (remdups (map fst ms))) = Inr groups"
    using assms by (auto simp: group_multipart_units_def split: sum.splits)
  let ?gs = "sort (remdups (map fst ms))"
  have each: "order_group ms (?gs ! n) = Inr (groups ! n)" if "n < length ?gs" for n
    using traverse_nth [OF groups that] .
  have len: "length groups = length ?gs" using traverse_length [OF groups] .
  have keys: "map mg_group_key groups = ?gs"
    by (rule nth_equalityI) (use len order_group_Inr(1) [OF each] in simp_all)
  have "sorted_wrt (<) ?gs" by (simp add: strict_sorted_iff)
  moreover have "mset (concat (map mg_object_keys groups)) =
      mset (map (\<lambda>m. snd (snd m)) ms)"
  proof -
    have "map (\<lambda>g. mset (mg_object_keys g)) groups =
        map (\<lambda>g. mset (map (\<lambda>m. snd (snd m)) (filter (\<lambda>m. fst m = g) ms))) ?gs"
      by (rule nth_equalityI) (use len order_group_Inr(2) [OF each] in simp_all)
    then have "mset (concat (map mg_object_keys groups)) =
        mset (concat (map (\<lambda>g. map (\<lambda>m. snd (snd m)) (filter (\<lambda>m. fst m = g) ms)) ?gs))"
      by (simp add: mset_concat comp_def)
    also have "\<dots> = image_mset (\<lambda>m. snd (snd m)) (mset (concat (map (\<lambda>g. filter (\<lambda>m. fst m = g) ms) ?gs)))"
      by (simp add: map_concat comp_def flip: mset_map)
    also have "\<dots> = image_mset (\<lambda>m. snd (snd m)) (mset (filter (\<lambda>m. fst m \<in> set ?gs) ms))"
      by (subst mset_by_group) simp_all
    also have "filter (\<lambda>m. fst m \<in> set ?gs) ms = ms" by (auto intro: filter_True)
    finally show ?thesis by simp
  qed
  moreover have "\<exists>start. \<forall>n < length (mg_object_keys g).
       part_index w pattern (mg_object_keys g ! n) = Some (mg_group_key g, start + int n)" if g: "g \<in> set groups" for g
  proof -
    obtain n where "n < length groups" "groups ! n = g" using g by (auto simp: in_set_conv_nth)
    with each [of n] len have o: "order_group ms (?gs ! n) = Inr g" by simp
    from order_group_Inr(1) [OF o] order_group_Inr(3) [OF o] multipart_members_Inr(1) [OF ms]
    show ?thesis by metis
  qed
  ultimately show ?thesis using keys multipart_members_Inr(2) [OF ms] by simp
qed

section \<open>What falls between\<close>

text \<open>An object whose key the pattern is found in but does not match as a whole reaches neither loop.\<close>

lemma half_matched_object_lost:
  assumes "so_multipart_pattern (ds_source (da_config a)) = Some pattern"
    and "partition_listing w a listed = Inr (groups, remaining)"
    and "dw_search w pattern key" and "dw_fullmatch w pattern key = None"
  shows "key \<notin> set (concat (map mg_object_keys groups)) \<union> os_key ` set remaining"
proof -
  let ?candidates = "filter (\<lambda>o'. dw_search w pattern (os_key o')) listed"
  from assms(1,2) have g: "group_multipart_units w pattern ?candidates = Inr groups"
    and r: "remaining = filter (\<lambda>o'. \<not> dw_search w pattern (os_key o')) listed"
    by (auto simp: partition_listing_def split: sum.splits)
  obtain ms where ms: "multipart_members w pattern ?candidates = Inr ms"
    and t: "traverse (order_group ms) (sort (remdups (map fst ms))) = Inr groups"
    using g by (auto simp: group_multipart_units_def split: sum.splits)
  have "part_index w pattern key = None" using assms(4) by (simp add: part_index_def)
  moreover have "part_index w pattern k \<noteq> None" if k: "k \<in> set (mg_object_keys u)" and u: "u \<in> set groups" for k u
  proof -
    obtain g where o: "order_group ms g = Inr u" using traverse_mem [OF t u] by blast
    from k have "k \<in># mset (map (\<lambda>m. snd (snd m)) (filter (\<lambda>m. fst m = g) ms))"
      using order_group_Inr(2) [OF o] by (metis set_mset_mset)
    then obtain i where "(g, i, k) \<in> set ms" by auto
    from multipart_members_Inr(1) [OF ms this] show ?thesis by simp
  qed
  ultimately have "key \<notin> set (mg_object_keys u)" if "u \<in> set groups" for u using that by metis
  with assms(3) show ?thesis by (auto simp: r)
qed

text \<open>
  A group's run has no file.  Once such a run is STAGED the listing of the dataset's staged runs
  raises, and with it every publication of the dataset.
\<close>

lemma staged_group_blocks_listing:
  assumes "r \<in> set (md_runs db)" and "ir_dataset_id r = d" and "ir_status r = ''STAGED''" and "ir_file_id r = None"
  shows "\<exists>e. list_staged_run_ids d db = Inl e"
proof (cases "list_staged_run_ids d db")
  case (Inr rs)
  let ?rows = "sort_key ir_id (filter (\<lambda>r. ir_dataset_id r = d \<and> ir_status r = ''STAGED'') (md_runs db))"
  have "\<exists>rs. traverse staged_run_of ?rows = Inr rs" using Inr by (simp add: list_staged_run_ids_def)
  moreover have "r \<in> set ?rows" using assms(1-3) by simp
  ultimately have "\<exists>x. staged_run_of r = Inr x" unfolding traverse_Inr_iff by blast
  then show ?thesis using assms(4) by (auto simp: staged_run_of_def)
qed simp

text \<open>A listing with a group of two parts and one object of its own.\<close>

definition demo_args :: discovery_args where
  "demo_args =
     \<lparr>da_dataset_id = 1, da_dataset_name = ''customers'',
      da_config =
        \<lparr>ds_dataset = ''customers'',
         ds_source = \<lparr>so_type = ''s3'', so_bucket = ''raw'', so_path = ''c/'', so_change_semantics = ''snapshot'',
           so_duplicate_policy = ''skip'', so_multipart_pattern = Some ''g'', so_batch_complete_marker = None\<rparr>,
         ds_deduplication = None, ds_load = \<lparr>lo_strategy = ''merge'', lo_target = ''customers''\<rparr>, ds_columns = [],
         ds_normalization = None, ds_quality = None, ds_scd = None, ds_csv = default_csv_parsing,
         ds_on_new_column = ''fail'', ds_on_missing_or_retyped_column = ''fail''\<rparr>,
      da_max_units_per_run = 5, da_config_version_id = 1, da_config_hash = ''c'', da_processor_image = ''i'',
      da_processor_version = ''v''\<rparr>"

definition demo_object :: "string \<Rightarrow> object_summary" where
  "demo_object key = \<lparr>os_key = key, os_size_bytes = int (length key)\<rparr>"

definition demo_world :: discovery_world where
  "demo_world =
     \<lparr>dw_list = Inr (map demo_object [''g/2'', ''a'', ''g/1'']), dw_read = Inr, dw_put = (\<lambda>_. Inr ()), dw_sha256 = (\<lambda>s. s),
      dw_search = (\<lambda>p key. take 1 key = p),
      dw_fullmatch = (\<lambda>p key. if take 1 key = p then Some (p, drop 2 key) else None),
      dw_validate_manifest = (\<lambda>_. None)\<rparr>"

definition demo_state :: discovery_state where
  "demo_state = \<lparr>dy_catalog = demo_catalog\<lparr>ct_meta := (ct_meta demo_catalog)\<lparr>md_config_versions := [1],
     md_seq := (\<lambda>_. 1)\<rparr>\<rparr>, dy_documents = (\<lambda>_. None)\<rparr>"

lemma multipart_groups_complete_witness:
  "\<exists>groups. group_multipart_units demo_world ''g'' (map demo_object [''g/2'', ''a'', ''g/1'']) = Inr groups \<and>
     sorted_wrt (<) (map mg_group_key groups) \<and> map mg_object_keys groups = [[''g/1'', ''g/2'']]"
proof -
  have eq: "group_multipart_units demo_world ''g'' (map demo_object [''g/2'', ''a'', ''g/1'']) =
      Inr [\<lparr>mg_group_key = ''g'', mg_object_keys = [''g/1'', ''g/2'']\<rparr>]" by code_simp
  from multipart_groups_complete [OF eq] eq show ?thesis by simp
qed

end
