(* ===== verification/DiscoverySettled.thy ===== *)
theory DiscoverySettled
  imports Discovery
begin

text \<open>
  Discovery is repeatable.  What one object or group leaves in the tables (\<open>settled\<close>) is enough
  to answer it again without changing a table, and the processing of any other object keeps it.
  The locale \<open>establishing\<close> says what follows for a whole pass, over the items that are \<open>valid\<close>: at its
  end every item is settled; \<open>settling\<close> adds that a second pass returns the same units.
\<close>

section \<open>Passes over settled items\<close>

locale establishing =
  fixes step :: "'i \<Rightarrow> ('s, 'r) prog" and valid :: "'i \<Rightarrow> bool" and ok :: "'s \<Rightarrow> bool" and settled :: "'i \<Rightarrow> 'r \<Rightarrow> 's \<Rightarrow> bool"
  assumes ok_step: "ok s \<Longrightarrow> ok (snd (step i s))"
    and establishes: "valid i \<Longrightarrow> ok s \<Longrightarrow> step i s = (Inr r, s') \<Longrightarrow> settled i r s'"
    and keeps: "valid j \<Longrightarrow> ok s \<Longrightarrow> settled i r s \<Longrightarrow> settled i r (snd (step j s))"
begin

lemma pass_keeps:
  "list_all valid is \<Longrightarrow> ok s \<Longrightarrow>
   ok (snd (pr_for is step s)) \<and> (settled i r s \<longrightarrow> settled i r (snd (pr_for is step s)))"
proof (induction "is" arbitrary: s)
  case (Cons j js)
  show ?case
  proof (cases "step j s")
    case (Pair q s')
    have s': "ok s'" "settled i r s \<longrightarrow> settled i r s'" and js: "list_all valid js"
      using Cons.prems ok_step [of s j] keeps [of j s i r] Pair by simp_all
    from Cons.IH [OF js s'(1)] s' show ?thesis
      by (cases q; cases "pr_for js step s'"; cases "fst (pr_for js step s')") (auto simp: Pair pr_defs)
  qed
qed (simp add: pr_return_def)

lemma pass_settles:
  "list_all valid is \<Longrightarrow> ok s \<Longrightarrow> pr_for is step s = (Inr rs, s') \<Longrightarrow> list_all2 (\<lambda>i r. settled i r s') is rs"
proof (induction "is" arbitrary: s rs)
  case (Cons j js)
  then obtain r rs' s1 where 1: "step j s = (Inr r, s1)" "pr_for js step s1 = (Inr rs', s')" "rs = r # rs'"
    by (auto simp: pr_bind_Inr)
  have v: "valid j" "list_all valid js" using Cons.prems(1) by simp_all
  have "ok s1" using ok_step [of s j] Cons.prems(2) 1 by simp
  moreover have "settled j r s1" using establishes [OF v(1) Cons.prems(2) 1(1)] .
  ultimately have "settled j r s'" using pass_keeps [OF v(2), of s1 j r] 1(2) by simp
  with Cons.IH [OF v(2) \<open>ok s1\<close> 1(2)] show ?case by (simp add: 1(3))
qed simp

end

locale settling = establishing step "\<lambda>_. True" ok settled
  for step :: "'i \<Rightarrow> ('s, 'r) prog" and ok :: "'s \<Rightarrow> bool" and settled :: "'i \<Rightarrow> 'r \<Rightarrow> 's \<Rightarrow> bool" +
  fixes same :: "'s \<Rightarrow> 's \<Rightarrow> bool"
  assumes same_refl: "same s s" and same_trans: "same s s' \<Longrightarrow> same s' s'' \<Longrightarrow> same s s''"
    and settled_same: "settled i r s \<Longrightarrow> same s s' \<Longrightarrow> settled i r s'"
    and repeats: "ok s \<Longrightarrow> settled i r s \<Longrightarrow> \<exists>s'. step i s = (Inr r, s') \<and> same s s'"
begin

lemma pass_repeats_settled:
  "ok s \<Longrightarrow> list_all2 (\<lambda>i r. settled i r s) is rs \<Longrightarrow> \<exists>s'. pr_for is step s = (Inr rs, s') \<and> same s s'"
proof (induction "is" arbitrary: s rs)
  case Nil
  then show ?case using same_refl by auto
next
  case (Cons j js)
  then obtain r rs' where rs: "rs = r # rs'" "settled j r s" "list_all2 (\<lambda>i r. settled i r s) js rs'"
    by (auto simp: list_all2_Cons1)
  obtain s1 where s1: "step j s = (Inr r, s1)" "same s s1" using repeats [OF Cons.prems(1) rs(2)] by blast
  have "ok s1" using ok_step [of s j] Cons.prems(1) s1 by simp
  moreover have "list_all2 (\<lambda>i r. settled i r s1) js rs'"
    using rs(3) settled_same [OF _ s1(2)] by (rule list_all2_mono)
  ultimately obtain s2 where "pr_for js step s1 = (Inr rs', s2)" "same s1 s2" using Cons.IH by blast
  with s1 show ?case by (auto simp: rs(1) pr_bind_Inr intro: same_trans)
qed

text \<open>A pass that succeeded can be repeated with the same results, and changes nothing.\<close>

lemma pass_repeats:
  "ok s \<Longrightarrow> pr_for is step s = (Inr rs, s') \<Longrightarrow> \<exists>s''. pr_for is step s' = (Inr rs, s'') \<and> same s' s''"
  using pass_repeats_settled [of s' "is" rs] pass_settles [of "is" s rs s'] pass_keeps [of "is" s] by (simp add: list_all_iff)

end

section \<open>The tables\<close>

text \<open>Everything but the identity sequences, which every call advances.\<close>

definition same_tables :: "meta_db \<Rightarrow> meta_db \<Rightarrow> bool" where
  "same_tables db db' \<longleftrightarrow> db\<lparr>md_seq := (\<lambda>_. 0)\<rparr> = db'\<lparr>md_seq := (\<lambda>_. 0)\<rparr>"

lemma same_tables_fields:
  assumes "same_tables db db'"
  shows "md_config_versions db' = md_config_versions db" "md_datasets db' = md_datasets db"
    "md_files db' = md_files db" "md_batches db' = md_batches db" "md_batch_files db' = md_batch_files db"
    "md_runs db' = md_runs db"
  using assms by (cases db; cases db'; simp add: same_tables_def)+

lemma same_tables_intro [simp]:
  "same_tables db db" "same_tables db (draw_id q db)"
  "same_tables db (db\<lparr>md_files := md_files db\<rparr>)"
  by (simp_all add: same_tables_def draw_id_def)

lemma same_tables_trans: "same_tables a b \<Longrightarrow> same_tables b c \<Longrightarrow> same_tables a c"
  by (simp add: same_tables_def)

definition same_state :: "discovery_state \<Rightarrow> discovery_state \<Rightarrow> bool" where
  "same_state s s' \<longleftrightarrow> same_tables (dy_meta s) (dy_meta s') \<and>
     ct_schemas (dy_catalog s') = ct_schemas (dy_catalog s) \<and> ct_configs (dy_catalog s') = ct_configs (dy_catalog s)"

lemma dy_meta_simps [simp]:
  "dy_meta (set_meta db s) = db" "ct_schemas (dy_catalog (set_meta db s)) = ct_schemas (dy_catalog s)"
  "ct_configs (dy_catalog (set_meta db s)) = ct_configs (dy_catalog s)"
  "dy_meta (s\<lparr>dy_documents := d\<rparr>) = dy_meta s" "set_meta db' (set_meta db s) = set_meta db' s"
  by (simp_all add: dy_meta_def set_meta_def)

text \<open>What every call of a pass needs of the database.\<close>

definition discovery_ok :: "discovery_args \<Rightarrow> discovery_state \<Rightarrow> bool" where
  "discovery_ok a s \<longleftrightarrow> meta_inv (dy_meta s) \<and> dataset_known (dy_meta s) (da_dataset_id a) \<and>
     da_config_version_id a \<in> set (md_config_versions (dy_meta s))"

section \<open>Registering a file again\<close>

definition put_file :: "string \<Rightarrow> int option \<Rightarrow> int \<times> string \<times> string \<Rightarrow> file_row list \<Rightarrow> file_row list" where
  "put_file name dup k files =
     map (\<lambda>x. if file_key x = k then x\<lparr>fl_filename := name, fl_duplicate_of := dup\<rparr> else x) files"

definition find_file :: "int \<times> string \<times> string \<Rightarrow> meta_db \<Rightarrow> file_row option" where
  "find_file k db = find (\<lambda>r. file_key r = k) (md_files db)"

lemma create_file_known:
  assumes "find_file (file_key g) db = Some f" and "dataset_known db (fl_dataset_id g)"
    and "fk_ok (file_known db) (fl_duplicate_of g)"
  shows "create_file g db =
    Inr ((draw_id SeqFiles db)\<lparr>md_files := put_file (fl_filename g) (fl_duplicate_of g) (file_key g) (md_files db)\<rparr>, fl_id f)"
proof -
  have k: "file_key (g\<lparr>fl_id := n\<rparr>) = file_key g" for n by (simp add: file_key_def)
  show ?thesis using assms by (simp add: create_file_def insert_or_update_def k find_file_def put_file_def)
qed

lemma create_file_fresh:
  assumes "find_file (file_key g) db = None" and "dataset_known db (fl_dataset_id g)"
    and "fk_ok (file_known db) (fl_duplicate_of g)"
  shows "create_file g db =
    Inr ((draw_id SeqFiles db)\<lparr>md_files := md_files db @ [g\<lparr>fl_id := next_id SeqFiles db\<rparr>]\<rparr>, next_id SeqFiles db)"
proof -
  have k: "file_key (g\<lparr>fl_id := n\<rparr>) = file_key g" for n by (simp add: file_key_def)
  show ?thesis using assms by (simp add: create_file_def insert_or_update_def k find_file_def)
qed

lemma put_file_simps:
  "put_file name dup k (put_file name' dup' k files) = put_file name dup k files"
  "map fl_id (filter (\<lambda>f. fl_dataset_id f = d \<and> fl_content_sha256 f = h) (put_file name dup k files)) =
   map fl_id (filter (\<lambda>f. fl_dataset_id f = d \<and> fl_content_sha256 f = h) files)"
  by (induction files) (auto simp: put_file_def file_key_def)

lemma find_file_put:
  assumes "md_files db' = put_file name dup k (md_files db)"
  shows "find_file k' db' =
    map_option (\<lambda>f. if k' = k then f\<lparr>fl_filename := name, fl_duplicate_of := dup\<rparr> else f) (find_file k' db)"
proof -
  have "find (\<lambda>r. file_key r = k') (put_file name dup k files) =
      map_option (\<lambda>f. if k' = k then f\<lparr>fl_filename := name, fl_duplicate_of := dup\<rparr> else f)
        (find (\<lambda>r. file_key r = k') files)" for files
    by (induction files) (auto simp: put_file_def file_key_def)
  then show ?thesis by (simp add: find_file_def assms)
qed

lemma find_file_append:
  assumes "md_files db' = md_files db @ [g]"
  shows "find_file k db' = (case find_file k db of None \<Rightarrow> if file_key g = k then Some g else None | Some f \<Rightarrow> Some f)"
  by (simp add: find_file_def assms find_append split: option.split)

lemma put_file_same:
  assumes "meta_inv db" and "find_file k db = Some f" and "fl_filename f = name" and "fl_duplicate_of f = dup"
  shows "put_file name dup k (md_files db) = md_files db"
proof -
  have "x = f" if x: "x \<in> set (md_files db)" "file_key x = k" for x
    using find_distinct [of file_key "md_files db" x] assms(1,2) x
    by (simp add: meta_inv_def keyed_def find_file_def)
  then show ?thesis unfolding put_file_def using assms(3,4) by (intro map_idI) (metis file_row.surjective file_row.update_convs(7,9))
qed

lemma find_hash_put:
  "md_files db' = put_file name dup k (md_files db) \<Longrightarrow>
   find_file_by_content_hash d h db' = find_file_by_content_hash d h db"
  by (simp add: find_file_by_content_hash_def put_file_simps)

lemma min_id_append: "min_id (is @ [i]) = (case min_id is of None \<Rightarrow> Some i | Some m \<Rightarrow> Some (min m i))"
proof (cases "is")
  case (Cons j js)
  have "Min (insert i (set is)) = min i (Min (set is))" using Cons by (intro Min_insert) simp_all
  moreover have "set (is @ [i]) = insert i (set is)" by simp
  ultimately show ?thesis by (simp add: min_id_def Cons min.commute del: Min_insert)
qed (simp add: min_id_def)

lemma find_hash_append:
  "md_files db' = md_files db @ [g] \<Longrightarrow> find_file_by_content_hash d h db' =
   (if fl_dataset_id g = d \<and> fl_content_sha256 g = h
    then (case find_file_by_content_hash d h db of None \<Rightarrow> Some (fl_id g) | Some m \<Rightarrow> Some (min m (fl_id g)))
    else find_file_by_content_hash d h db)"
  by (simp add: find_file_by_content_hash_def min_id_append)

lemma find_hash_Some:
  "find_file_by_content_hash d h db = Some m \<Longrightarrow> \<exists>f \<in> set (md_files db). fl_id f = m \<and> fl_dataset_id f = d \<and> fl_content_sha256 f = h"
proof -
  let ?is = "map fl_id (filter (\<lambda>f. fl_dataset_id f = d \<and> fl_content_sha256 f = h) (md_files db))"
  assume m: "find_file_by_content_hash d h db = Some m"
  then have "?is \<noteq> []" "m = Min (set ?is)" by (cases ?is; simp add: find_file_by_content_hash_def min_id_def)+
  then have "m \<in> set ?is" using Min_in [of "set ?is"] by (metis List.finite_set set_empty)
  then show ?thesis by auto
qed

lemma find_hash_None:
  "find_file_by_content_hash d h db = None \<longleftrightarrow> (\<forall>f \<in> set (md_files db). \<not> (fl_dataset_id f = d \<and> fl_content_sha256 f = h))"
  by (auto simp: find_file_by_content_hash_def min_id_def filter_empty_conv split: list.splits)
    (metis (mono_tags, lifting) filter_empty_conv list.discI map_is_Nil_conv)+

definition object_file_key :: "discovery_args \<Rightarrow> object_summary \<Rightarrow> string \<Rightarrow> int \<times> string \<times> string" where
  "object_file_key a obj sha = (da_dataset_id a, object_uri a (os_key obj), sha)"

lemma file_row_of_simps [simp]:
  "file_key (file_row_of a obj sha dup) = object_file_key a obj sha"
  "fl_dataset_id (file_row_of a obj sha dup) = da_dataset_id a"
  "fl_duplicate_of (file_row_of a obj sha dup) = dup"
  "fl_filename (file_row_of a obj sha dup) = base_name (os_key obj)"
  "fl_content_sha256 (file_row_of a obj sha dup) = sha"
  by (simp_all add: file_row_of_def file_key_def object_file_key_def)

lemma find_file_SomeD:
  "find_file (object_file_key a obj sha) db = Some f \<Longrightarrow>
     f \<in> set (md_files db) \<and> fl_dataset_id f = da_dataset_id a \<and> fl_content_sha256 f = sha"
  by (auto simp: find_file_def object_file_key_def file_key_def dest!: find_SomeD)

lemma fk_existing: "find_file_by_content_hash d h db = Some m \<Longrightarrow> fk_ok (file_known db) (Some m)"
  by (auto simp: fk_ok_def file_known_def dest!: find_hash_Some)

lemma fk_None [simp]: "fk_ok p None"
  by (simp add: fk_ok_def)

text \<open>The effect of registering an object that can be read.\<close>

definition registered_as :: "discovery_args \<Rightarrow> object_summary \<Rightarrow> string \<Rightarrow> int \<times> bool \<Rightarrow> meta_db \<Rightarrow> meta_db \<Rightarrow> bool" where
  "registered_as a obj sha r db db' \<longleftrightarrow>
     (let (fid, dup) = r;
          k = object_file_key a obj sha;
          existing = find_file_by_content_hash (da_dataset_id a) sha db;
          dup_of = (if dup then existing else None)
      in same_tables db (db'\<lparr>md_files := md_files db\<rparr>) \<and>
         (case find_file k db of
            Some f \<Rightarrow> fid = fl_id f \<and> dup = (skips_duplicates a \<and> existing \<noteq> Some fid) \<and>
              md_files db' = put_file (base_name (os_key obj)) dup_of k (md_files db)
          | None \<Rightarrow> fid = next_id SeqFiles db \<and> dup = (skips_duplicates a \<and> existing \<noteq> None) \<and>
              md_files db' = md_files db @ [(file_row_of a obj sha dup_of)\<lparr>fl_id := fid\<rparr>]))"

lemma pr_bind_step: "m s = (Inr x, s') \<Longrightarrow> pr_bind m f s = f x s'"
  by (simp add: pr_bind_def)

lemma meta_call_step: "f (dy_meta s) = Inr (db, x) \<Longrightarrow> meta_call f s = (Inr x, set_meta db s)"
  by (simp add: meta_call_def pr_call_def)

lemma bind_meta_call: "f (dy_meta s) = Inr (db, x) \<Longrightarrow> pr_bind (meta_call f) g s = g x (set_meta db s)"
  by (simp add: pr_bind_step [OF meta_call_step])

lemma meta_query_step [simp]: "meta_query q s = (Inr (q (dy_meta s)), s)"
  by (simp add: meta_query_def pr_query_def)

lemma hash_and_register_file_effect:
  assumes ok: "discovery_ok a s" and body: "dw_read w (os_key obj) = Inr body"
  shows "\<exists>fid dup db'. hash_and_register_file w a obj s = (Inr (fid, dw_sha256 w body, dup), set_meta db' s) \<and>
    registered_as a obj (dw_sha256 w body) (fid, dup) (dy_meta s) db'"
proof -
  define sha where "sha = dw_sha256 w body"
  define k where "k = object_file_key a obj sha"
  define existing where "existing = find_file_by_content_hash (da_dataset_id a) sha (dy_meta s)"
  define dup_of where "dup_of = duplicate_of a existing"
  have known: "dataset_known (dy_meta s) (da_dataset_id a)" using ok by (simp add: discovery_ok_def)
  have fk: "fk_ok (file_known (dy_meta s)) dup_of"
    using fk_existing [of "da_dataset_id a" sha "dy_meta s"] by (cases existing) (auto simp: dup_of_def duplicate_of_def existing_def)
  have start: "hash_and_register_file w a obj s =
      pr_bind (meta_call (create_file (file_row_of a obj sha dup_of))) (\<lambda>file_id.
        if dup_of \<noteq> None \<and> Some file_id = existing
        then pr_bind (meta_call (create_file (file_row_of a obj sha None))) (\<lambda>file_id'. pr_return (file_id', sha, False))
        else pr_return (file_id, sha, dup_of \<noteq> None)) s"
    unfolding hash_and_register_file_def
    by (subst pr_bind_step [where x = body and s' = s])
      (simp_all add: pr_lift_def body Let_def pr_bind_step [OF meta_query_step] del: not_None_eq cong: if_cong
        flip: sha_def existing_def dup_of_def)
  show ?thesis
  proof (cases "find_file k (dy_meta s)")
    case None
    define row where "row = (file_row_of a obj sha dup_of)\<lparr>fl_id := next_id SeqFiles (dy_meta s)\<rparr>"
    define db1 where "db1 = (draw_id SeqFiles (dy_meta s))\<lparr>md_files := md_files (dy_meta s) @ [row]\<rparr>"
    have call: "create_file (file_row_of a obj sha dup_of) (dy_meta s) = Inr (db1, next_id SeqFiles (dy_meta s))"
      using create_file_fresh [of "file_row_of a obj sha dup_of" "dy_meta s"] None known fk
      by (simp add: k_def db1_def row_def)
    have "Some (next_id SeqFiles (dy_meta s)) \<noteq> existing"
    proof
      assume "Some (next_id SeqFiles (dy_meta s)) = existing"
      then obtain f where "f \<in> set (md_files (dy_meta s))" "fl_id f = next_id SeqFiles (dy_meta s)"
        using find_hash_Some by (metis existing_def)
      then show False using ok by (auto simp: discovery_ok_def meta_inv_def keyed_def next_id_def)
    qed
    then have "hash_and_register_file w a obj s = (Inr (next_id SeqFiles (dy_meta s), sha, dup_of \<noteq> None), set_meta db1 s)"
      by (simp add: start bind_meta_call [where f = "create_file (file_row_of a obj sha dup_of)" and s = s, OF call] pr_return_def)
    moreover have "registered_as a obj sha (next_id SeqFiles (dy_meta s), dup_of \<noteq> None) (dy_meta s) db1"
      using None by (simp add: registered_as_def Let_def db1_def row_def k_def [symmetric] existing_def [symmetric])
        (auto simp: dup_of_def duplicate_of_def same_tables_def draw_id_def)
    ultimately show ?thesis by (auto simp flip: sha_def)
  next
    case (Some f)
    define db1 where "db1 = (draw_id SeqFiles (dy_meta s))\<lparr>md_files := put_file (base_name (os_key obj)) dup_of k (md_files (dy_meta s))\<rparr>"
    have call: "create_file (file_row_of a obj sha dup_of) (dy_meta s) = Inr (db1, fl_id f)"
      using create_file_known [of "file_row_of a obj sha dup_of" "dy_meta s"] Some known fk
      by (simp add: k_def db1_def)
    have f: "existing \<noteq> None"
      using find_file_SomeD [OF Some [unfolded k_def]] unfolding existing_def find_hash_None by blast
    show ?thesis
    proof (cases "dup_of \<noteq> None \<and> Some (fl_id f) = existing")
      case True
      define db2 where "db2 = (draw_id SeqFiles db1)\<lparr>md_files := put_file (base_name (os_key obj)) None k (md_files db1)\<rparr>"
      have "find_file k db1 = Some (f\<lparr>fl_filename := base_name (os_key obj), fl_duplicate_of := dup_of\<rparr>)"
        using find_file_put [of db1 "base_name (os_key obj)" dup_of k "dy_meta s" k] Some by (simp add: db1_def)
      then have call2: "create_file (file_row_of a obj sha None) db1 = Inr (db2, fl_id f)"
        using create_file_known [of "file_row_of a obj sha None" db1] known
        by (simp add: k_def db2_def db1_def dataset_known_def draw_id_def)
      have "hash_and_register_file w a obj s = (Inr (fl_id f, sha, False), set_meta db2 s)"
        using True by (simp add: start bind_meta_call [where f = "create_file (file_row_of a obj sha dup_of)" and s = s, OF call] pr_return_def bind_meta_call [where f = "create_file (file_row_of a obj sha None)" and s = "set_meta db1 s"] call2)
      moreover have "registered_as a obj sha (fl_id f, False) (dy_meta s) db2"
        using True Some by (simp add: registered_as_def Let_def db2_def db1_def k_def [symmetric] existing_def [symmetric] put_file_simps)
          (auto simp: same_tables_def draw_id_def)
      ultimately show ?thesis by (auto simp flip: sha_def)
    next
      case False
      then have "hash_and_register_file w a obj s = (Inr (fl_id f, sha, dup_of \<noteq> None), set_meta db1 s)"
        by (auto simp: start bind_meta_call [where f = "create_file (file_row_of a obj sha dup_of)" and s = s, OF call] pr_return_def)
      moreover have "registered_as a obj sha (fl_id f, dup_of \<noteq> None) (dy_meta s) db1"
        using False Some f by (simp add: registered_as_def Let_def db1_def k_def [symmetric] existing_def [symmetric])
          (auto simp: same_tables_def draw_id_def dup_of_def duplicate_of_def)
      ultimately show ?thesis by (auto simp flip: sha_def)
    qed
  qed
qed

definition settled_file :: "discovery_world \<Rightarrow> discovery_args \<Rightarrow> object_summary \<Rightarrow> int \<times> string \<times> bool \<Rightarrow> meta_db \<Rightarrow> bool" where
  "settled_file w a obj r db \<longleftrightarrow>
     (case r of (fid, sha, dup) \<Rightarrow>
       (\<exists>body. dw_read w (os_key obj) = Inr body \<and> sha = dw_sha256 w body) \<and>
       (\<exists>f m. find_file (object_file_key a obj sha) db = Some f \<and> fl_id f = fid \<and>
          fl_filename f = base_name (os_key obj) \<and>
          find_file_by_content_hash (da_dataset_id a) sha db = Some m \<and>
          dup = (skips_duplicates a \<and> m \<noteq> fid) \<and>
          fl_duplicate_of f = (if dup then Some m else None)))"

lemma find_hash_bound: "meta_inv db \<Longrightarrow> find_file_by_content_hash d h db = Some m \<Longrightarrow> m < next_id SeqFiles db"
  by (fastforce simp: meta_inv_def keyed_def next_id_def dest!: find_hash_Some)

lemma object_uri_inj: "object_uri a k = object_uri a k' \<longleftrightarrow> k = k'"
  by (simp add: object_uri_def)

lemma registered_settles:
  assumes "meta_inv db" and "registered_as a obj sha (fid, dup) db db'"
    and "dw_read w (os_key obj) = Inr body" and "sha = dw_sha256 w body"
  shows "settled_file w a obj (fid, sha, dup) db'"
proof -
  let ?k = "object_file_key a obj sha"
  define existing where "existing = find_file_by_content_hash (da_dataset_id a) sha db"
  have "\<exists>f m. find_file ?k db' = Some f \<and> fl_id f = fid \<and> fl_filename f = base_name (os_key obj) \<and>
      find_file_by_content_hash (da_dataset_id a) sha db' = Some m \<and> dup = (skips_duplicates a \<and> m \<noteq> fid) \<and>
      fl_duplicate_of f = (if dup then Some m else None)"
  proof (cases "find_file ?k db")
    case (Some f)
    then have e: "fid = fl_id f" "dup = (skips_duplicates a \<and> existing \<noteq> Some fid)"
      "md_files db' = put_file (base_name (os_key obj)) (if dup then existing else None) ?k (md_files db)"
      using assms(2) by (simp_all add: registered_as_def Let_def existing_def)
    have "existing \<noteq> None" using find_file_SomeD [OF Some] unfolding existing_def find_hash_None by blast
    then obtain m where "existing = Some m" by blast
    then show ?thesis using e Some find_file_put [OF e(3), of ?k] find_hash_put [OF e(3), of "da_dataset_id a" sha]
      by (auto simp: existing_def)
  next
    case None
    then have e: "fid = next_id SeqFiles db" "dup = (skips_duplicates a \<and> existing \<noteq> None)"
      "md_files db' = md_files db @ [(file_row_of a obj sha (if dup then existing else None))\<lparr>fl_id := fid\<rparr>]"
      using assms(2) by (simp_all add: registered_as_def Let_def existing_def)
    have k: "file_key ((file_row_of a obj sha d)\<lparr>fl_id := fid\<rparr>) = ?k" for d
      by (simp add: file_row_of_def file_key_def object_file_key_def)
    have m: "m < fid" if "existing = Some m" for m
      using find_hash_bound [OF assms(1)] that e(1) by (simp add: existing_def)
    show ?thesis
      using None e(2) find_file_append [OF e(3), of ?k] find_hash_append [OF e(3), of "da_dataset_id a" sha] m
      by (cases existing) (auto simp: k existing_def [symmetric] min_absorb1)
  qed
  then show ?thesis using assms(3,4) by (simp add: settled_file_def)
qed

lemma registered_keeps:
  assumes inv: "meta_inv db" and settled: "settled_file w a obj r db" and reg: "registered_as a obj' sha' r' db db'"
    and read: "dw_read w (os_key obj') = Inr body'" "sha' = dw_sha256 w body'"
  shows "settled_file w a obj r db'"
proof -
  obtain fid sha dup where r: "r = (fid, sha, dup)" by (cases r)
  obtain fid' dup' where r': "r' = (fid', dup')" by (cases r')
  let ?k = "object_file_key a obj sha" and ?k' = "object_file_key a obj' sha'"
  from settled obtain f m where f: "find_file ?k db = Some f" "fl_id f = fid" "fl_filename f = base_name (os_key obj)"
    "find_file_by_content_hash (da_dataset_id a) sha db = Some m" "dup = (skips_duplicates a \<and> m \<noteq> fid)"
    "fl_duplicate_of f = (if dup then Some m else None)"
    by (auto simp: settled_file_def r)
  have "\<exists>f. find_file ?k db' = Some f \<and> fl_id f = fid \<and> fl_filename f = base_name (os_key obj) \<and>
      find_file_by_content_hash (da_dataset_id a) sha db' = Some m \<and> fl_duplicate_of f = (if dup then Some m else None)"
  proof (cases "find_file ?k' db")
    case (Some g)
    define dup_of where "dup_of = (if dup' then find_file_by_content_hash (da_dataset_id a) sha' db else None)"
    have e: "fid' = fl_id g" "dup' = (skips_duplicates a \<and> find_file_by_content_hash (da_dataset_id a) sha' db \<noteq> Some fid')"
      "md_files db' = put_file (base_name (os_key obj')) dup_of ?k' (md_files db)"
      using reg Some by (simp_all add: registered_as_def Let_def r' dup_of_def)
    show ?thesis
    proof (cases "?k = ?k'")
      case True
      then have "os_key obj' = os_key obj" "sha' = sha" by (simp_all add: object_file_key_def object_uri_inj)
      moreover have "g = f" using Some f(1) True by simp
      ultimately have "dup' = dup" "dup_of = (if dup then Some m else None)" using e(1,2) f by (auto simp: dup_of_def)
      then show ?thesis using find_file_put [OF e(3), of ?k] find_hash_put [OF e(3)] f True \<open>os_key obj' = os_key obj\<close> by simp
    next
      case False
      then show ?thesis using find_file_put [OF e(3), of ?k] find_hash_put [OF e(3)] f by simp
    qed
  next
    case None
    then have e: "fid' = next_id SeqFiles db"
      "md_files db' = md_files db @ [(file_row_of a obj' sha' (if dup' then find_file_by_content_hash (da_dataset_id a) sha' db else None))\<lparr>fl_id := fid'\<rparr>]"
      using reg by (simp_all add: registered_as_def Let_def r')
    have "m < fid'" using find_hash_bound [OF inv f(4)] e(1) by simp
    then show ?thesis
      using find_file_append [OF e(2), of ?k] find_hash_append [OF e(2), of "da_dataset_id a" sha] f
      by (auto simp: min_absorb1)
  qed
  then show ?thesis using settled f(5) by (auto simp: settled_file_def r)
qed

lemma registered_again:
  assumes inv: "meta_inv db" and settled: "settled_file w a obj (fid, sha, dup) db" and reg: "registered_as a obj sha (fid', dup') db db'"
  shows "fid' = fid \<and> dup' = dup \<and> same_tables db db'"
proof -
  let ?k = "object_file_key a obj sha"
  from settled obtain f m where f: "find_file ?k db = Some f" "fl_id f = fid" "fl_filename f = base_name (os_key obj)"
    "find_file_by_content_hash (da_dataset_id a) sha db = Some m" "dup = (skips_duplicates a \<and> m \<noteq> fid)"
    "fl_duplicate_of f = (if dup then Some m else None)"
    by (auto simp: settled_file_def)
  have e: "fid' = fid" "dup' = dup" "md_files db' = put_file (base_name (os_key obj)) (fl_duplicate_of f) ?k (md_files db)"
    "same_tables db (db'\<lparr>md_files := md_files db\<rparr>)"
    using reg f by (auto simp: registered_as_def Let_def)
  have "md_files db' = md_files db" using e(3) put_file_same [OF inv f(1,3) refl] by simp
  then have "db'\<lparr>md_files := md_files db\<rparr> = db'" by (cases db') simp
  with e show ?thesis by simp
qed

section \<open>What every call of a pass keeps\<close>

definition extends :: "meta_db \<Rightarrow> meta_db \<Rightarrow> bool" where
  "extends db db' \<longleftrightarrow>
     (\<forall>k b. find (\<lambda>r. batch_key r = k) (md_batches db) = Some b \<longrightarrow> find (\<lambda>r. batch_key r = k) (md_batches db') = Some b) \<and>
     set (md_batch_files db) \<subseteq> set (md_batch_files db') \<and>
     (\<forall>k r. find (\<lambda>r. ir_idempotency_key r = k) (md_runs db) = Some r \<longrightarrow>
        find (\<lambda>r. ir_idempotency_key r = k) (md_runs db') = Some r)"

definition pass_rel :: "discovery_world \<Rightarrow> discovery_args \<Rightarrow> discovery_state \<Rightarrow> discovery_state \<Rightarrow> bool" where
  "pass_rel w a s s' \<longleftrightarrow> (discovery_ok a s \<longrightarrow>
     discovery_ok a s' \<and> extends (dy_meta s) (dy_meta s') \<and>
     ct_schemas (dy_catalog s') = ct_schemas (dy_catalog s) \<and> ct_configs (dy_catalog s') = ct_configs (dy_catalog s) \<and>
     (\<forall>obj r. settled_file w a obj r (dy_meta s) \<longrightarrow> settled_file w a obj r (dy_meta s')))"

lemma pass_rel_refl [simp]: "pass_rel w a s s"
  by (simp add: pass_rel_def extends_def)

lemma pass_rel_trans: "pass_rel w a s s' \<Longrightarrow> pass_rel w a s' s'' \<Longrightarrow> pass_rel w a s s''"
  by (fastforce simp: pass_rel_def extends_def)

lemma pass_rel_intro:
  assumes "discovery_ok a s \<Longrightarrow> meta_inv db'" and "md_datasets db' = md_datasets (dy_meta s)"
    and "md_config_versions db' = md_config_versions (dy_meta s)" and "discovery_ok a s \<Longrightarrow> extends (dy_meta s) db'"
    and "\<And>obj r. discovery_ok a s \<Longrightarrow> settled_file w a obj r (dy_meta s) \<Longrightarrow> settled_file w a obj r db'"
  shows "pass_rel w a s (set_meta db' s)"
  using assms by (simp add: pass_rel_def discovery_ok_def dataset_known_def)

lemma settled_file_files: "md_files db' = md_files db \<Longrightarrow> settled_file w a obj r db' = settled_file w a obj r db"
  by (simp add: settled_file_def find_file_def find_file_by_content_hash_def)

lemma insert_or_keep_find:
  assumes "insert_or_update key (\<lambda>r. r) new rows = (rows', r')"
  shows "rows' = rows \<and> find (\<lambda>r. key r = key new) rows = Some r' \<or>
    rows' = rows @ [new] \<and> r' = new \<and> find (\<lambda>r. key r = key new) rows = None"
  using assms by (auto simp: insert_or_update_def map_idI split: option.splits)

lemma pass_rel_meta_call:
  assumes "\<And>s db' x. f (dy_meta s) = Inr (db', x) \<Longrightarrow> pass_rel w a s (set_meta db' s)"
  shows "pr_keeps (pass_rel w a) (meta_call f)"
  unfolding meta_call_def
  by (rule pr_keeps_call) (auto split: sum.splits intro: assms)

lemma pass_rel_same_files:
  assumes "discovery_ok a s \<Longrightarrow> meta_inv db'" and "md_files db' = md_files (dy_meta s)"
    and "md_datasets db' = md_datasets (dy_meta s)"
    and "md_config_versions db' = md_config_versions (dy_meta s)" and "extends (dy_meta s) db'"
  shows "pass_rel w a s (set_meta db' s)"
  using assms settled_file_files [OF assms(2)] by (intro pass_rel_intro) simp_all

definition ok_rel :: "discovery_args \<Rightarrow> discovery_state \<Rightarrow> discovery_state \<Rightarrow> bool" where
  "ok_rel a s s' \<longleftrightarrow> (discovery_ok a s \<longrightarrow> discovery_ok a s')"

lemma create_file_step:
  assumes "create_file g db = Inr (db', i)"
  shows "meta_inv db \<Longrightarrow> meta_inv db'" and "md_datasets db' = md_datasets db"
    and "md_config_versions db' = md_config_versions db" and "md_batches db' = md_batches db"
    and "md_batch_files db' = md_batch_files db" and "md_runs db' = md_runs db"
  using meta_inv_step [of "OpFile g" db db'] assms
  by (auto simp: create_file_def draw_id_def split: if_splits prod.splits)

lemma register_keeps_ok: "pr_keeps (ok_rel a) (hash_and_register_file w a obj)"
proof -
  have fcall: "pr_keeps (ok_rel a) (meta_call (create_file g))" for g
    unfolding meta_call_def
    by (rule pr_keeps_call)
      (auto simp: ok_rel_def discovery_ok_def dataset_known_def split: sum.splits dest: create_file_step)
  have refl: "ok_rel a s s" for s by (simp add: ok_rel_def)
  have trans: "ok_rel a s s' \<Longrightarrow> ok_rel a s' s'' \<Longrightarrow> ok_rel a s s''" for s s' s'' by (simp add: ok_rel_def)
  show ?thesis
    unfolding hash_and_register_file_def Let_def meta_query_def
    by (intro pr_keeps_bind [OF trans] pr_keeps_pure fcall refl; simp)
      (auto intro!: pr_keeps_bind [OF trans] pr_keeps_pure fcall refl)
qed

lemma pass_rel_file_call: "pr_keeps (pass_rel w a) (hash_and_register_file w a obj)"
  unfolding pr_keeps_def
proof
  fix s
  show "pass_rel w a s (snd (hash_and_register_file w a obj s))"
  proof (cases "dw_read w (os_key obj)")
    case (Inl e)
    then show ?thesis by (simp add: hash_and_register_file_def pr_bind_def pr_lift_def)
  next
    case (Inr body)
    show ?thesis
    proof (cases "discovery_ok a s")
      case ok: True
      from hash_and_register_file_effect [OF ok Inr] obtain fid dup db' where
        run: "hash_and_register_file w a obj s = (Inr (fid, dw_sha256 w body, dup), set_meta db' s)" and
        reg: "registered_as a obj (dw_sha256 w body) (fid, dup) (dy_meta s) db'" by blast
      have inv: "meta_inv (dy_meta s)" using ok by (simp add: discovery_ok_def)
      have inv': "meta_inv db'"
        using register_keeps_ok [of a w obj] run ok by (force simp: pr_keeps_def ok_rel_def discovery_ok_def)
      have "same_tables (dy_meta s) (db'\<lparr>md_files := md_files (dy_meta s)\<rparr>)"
        using reg by (simp add: registered_as_def Let_def)
      note fields = same_tables_fields [OF this, simplified]
      have "pass_rel w a s (set_meta db' s)"
        by (rule pass_rel_intro)
          (use inv' fields registered_keeps [OF inv _ reg Inr refl] in \<open>auto simp: extends_def\<close>)
      then show ?thesis by (simp add: run)
    qed (simp add: pass_rel_def)
  qed
qed

lemma get_or_create_batch_cases:
  assumes "get_or_create_batch d k st db = Inr (db', i)"
  obtains (known) q b where "db' = db\<lparr>md_seq := q\<rparr>" "i = ba_id b" "find (\<lambda>r. batch_key r = (d, k)) (md_batches db) = Some b"
  | (fresh) q b where "db' = db\<lparr>md_seq := q, md_batches := md_batches db @ [b]\<rparr>" "i = ba_id b" "batch_key b = (d, k)"
      "find (\<lambda>r. batch_key r = (d, k)) (md_batches db) = None"
proof -
  obtain rows r where up: "insert_or_update batch_key (\<lambda>r. r) (new_batch d k st db) (md_batches db) = (rows, r)" by fastforce
  have k: "batch_key (new_batch d k st db) = (d, k)" by (simp add: new_batch_def batch_key_def)
  have db': "db' = (draw_id SeqBatches db)\<lparr>md_batches := rows\<rparr>" "i = ba_id r"
    using assms up by (auto simp: get_or_create_batch_def split: if_splits)
  from insert_or_keep_find [OF up] show thesis
  proof
    assume "rows = md_batches db \<and> find (\<lambda>r. batch_key r = batch_key (new_batch d k st db)) (md_batches db) = Some r"
    with db' k show thesis by (intro known) (simp_all add: draw_id_def)
  next
    assume "rows = md_batches db @ [new_batch d k st db] \<and> r = new_batch d k st db \<and>
      find (\<lambda>r. batch_key r = batch_key (new_batch d k st db)) (md_batches db) = None"
    with db' k show thesis by (intro fresh) (simp_all add: draw_id_def)
  qed
qed

lemma get_or_create_run_cases:
  assumes "get_or_create_ingestion_run sp db = Inr (db', x)"
  obtains (known) q r where "db' = db\<lparr>md_seq := q\<rparr>" "x = (ir_id r, ir_status r)"
      "find (\<lambda>r. ir_idempotency_key r = sp_idempotency_key sp) (md_runs db) = Some r"
  | (fresh) q r where "db' = db\<lparr>md_seq := q, md_runs := md_runs db @ [r]\<rparr>" "x = (ir_id r, ir_status r)"
      "r = new_run sp ''PENDING'' (next_id SeqRuns db)"
      "find (\<lambda>r. ir_idempotency_key r = sp_idempotency_key sp) (md_runs db) = None"
proof -
  let ?new = "new_run sp ''PENDING'' (next_id SeqRuns db)"
  obtain rows r where up: "insert_or_update ir_idempotency_key (\<lambda>r. r) ?new (md_runs db) = (rows, r)" by fastforce
  have k: "ir_idempotency_key ?new = sp_idempotency_key sp" by (simp add: new_run_def)
  have db': "db' = (draw_id SeqRuns db)\<lparr>md_runs := rows\<rparr>" "x = (ir_id r, ir_status r)"
    using assms up by (auto simp: get_or_create_ingestion_run_def split: if_splits)
  from insert_or_keep_find [OF up] show thesis
  proof
    assume "rows = md_runs db \<and> find (\<lambda>r. ir_idempotency_key r = ir_idempotency_key ?new) (md_runs db) = Some r"
    with db' k show thesis by (intro known) (simp_all add: draw_id_def)
  next
    assume "rows = md_runs db @ [?new] \<and> r = ?new \<and>
      find (\<lambda>r. ir_idempotency_key r = ir_idempotency_key ?new) (md_runs db) = None"
    with db' k show thesis by (intro fresh) (simp_all add: draw_id_def)
  qed
qed

lemma extends_simps [simp]:
  "extends db db" "extends db (db\<lparr>md_seq := q\<rparr>)" "extends db (db\<lparr>md_batch_files := md_batch_files db @ ls\<rparr>)"
  "extends db (db\<lparr>md_seq := q, md_batches := md_batches db @ bs\<rparr>)"
  "extends db (db\<lparr>md_seq := q, md_runs := md_runs db @ rs\<rparr>)"
  by (auto simp: extends_def find_append)

lemma pass_rel_batch_call: "pr_keeps (pass_rel w a) (meta_call (get_or_create_batch d k st))"
proof (rule pass_rel_meta_call)
  fix s db' i
  assume call: "get_or_create_batch d k st (dy_meta s) = Inr (db', i)"
  have "meta_inv (dy_meta s) \<Longrightarrow> meta_inv db'" using meta_inv_step [of "OpBatch d k st" "dy_meta s" db'] call by simp
  moreover from call have "md_files db' = md_files (dy_meta s)" "md_datasets db' = md_datasets (dy_meta s)"
    "md_config_versions db' = md_config_versions (dy_meta s)" "extends (dy_meta s) db'"
    by (cases rule: get_or_create_batch_cases; simp)+
  ultimately show "pass_rel w a s (set_meta db' s)"
    by (intro pass_rel_same_files) (simp_all add: discovery_ok_def)
qed

lemma link_batch_file_cases:
  assumes "link_batch_file b i n db = Inr db'"
  obtains (known) l where "db' = db" "l \<in> set (md_batch_files db)" "bf_batch_id l = b" "bf_file_id l = i"
  | (fresh) l where "db' = db\<lparr>md_batch_files := md_batch_files db @ [l]\<rparr>" "bf_batch_id l = b" "bf_file_id l = i"
  using assms by (auto simp: link_batch_file_def list_ex_iff split: if_splits)

lemma pass_rel_link_call:
  "pr_keeps (pass_rel w a) (meta_call (\<lambda>db. case link_batch_file b i n db of Inl e \<Rightarrow> Inl e | Inr db' \<Rightarrow> Inr (db', ())))"
proof (rule pass_rel_meta_call)
  fix s db' and x :: unit
  assume "(case link_batch_file b i n (dy_meta s) of Inl e \<Rightarrow> Inl e | Inr db' \<Rightarrow> Inr (db', ())) = Inr (db', x)"
  then have call: "link_batch_file b i n (dy_meta s) = Inr db'" by (simp split: sum.splits)
  have "meta_inv (dy_meta s) \<Longrightarrow> meta_inv db'" using meta_inv_step [of "OpLink b i n" "dy_meta s" db'] call by simp
  moreover from call have "md_files db' = md_files (dy_meta s)" "md_datasets db' = md_datasets (dy_meta s)"
    "md_config_versions db' = md_config_versions (dy_meta s)" "extends (dy_meta s) db'"
    by (cases rule: link_batch_file_cases; simp)+
  ultimately show "pass_rel w a s (set_meta db' s)"
    by (intro pass_rel_same_files) (simp_all add: discovery_ok_def)
qed

lemma pass_rel_run_call: "pr_keeps (pass_rel w a) (meta_call (get_or_create_ingestion_run sp))"
proof (rule pass_rel_meta_call)
  fix s db' x
  assume call: "get_or_create_ingestion_run sp (dy_meta s) = Inr (db', x)"
  have "meta_inv (dy_meta s) \<Longrightarrow> meta_inv db'" using meta_inv_step [of "OpRun sp" "dy_meta s" db'] call by simp
  moreover from call have "md_files db' = md_files (dy_meta s)" "md_datasets db' = md_datasets (dy_meta s)"
    "md_config_versions db' = md_config_versions (dy_meta s)" "extends (dy_meta s) db'"
    by (cases rule: get_or_create_run_cases; simp)+
  ultimately show "pass_rel w a s (set_meta db' s)"
    by (intro pass_rel_same_files) (simp_all add: discovery_ok_def)
qed

lemma pass_rel_put: "pr_keeps (pass_rel w a) (put_document w k doc)"
  unfolding put_document_def
  by (rule pr_keeps_call)
    (auto simp: pass_rel_def discovery_ok_def extends_def split: sum.splits)

lemmas pass_rel_binds = pr_keeps_bind [where R = "pass_rel w a", OF pass_rel_trans] for w a

lemma pass_rel_offer: "pr_keeps (pass_rel w a) (offer_run w a term manifest sha run_file parts)"
proof -
  have links: "pr_keeps (pass_rel w a) (link_parts b parts)" for b
    unfolding link_parts_def
    by (rule pr_keeps_for [OF pass_rel_refl pass_rel_trans]) (auto simp: case_prod_beta intro: pass_rel_link_call)
  show ?thesis
    unfolding offer_run_def freeze_assignment_def Let_def meta_query_def
    by (auto intro!: pass_rel_binds pass_rel_batch_call links pass_rel_run_call pass_rel_put
        pr_keeps_pure split: prod.splits)
qed

section \<open>Offering a run again\<close>

definition find_batch :: "int \<times> string \<Rightarrow> meta_db \<Rightarrow> batch_row option" where
  "find_batch k db = find (\<lambda>r. batch_key r = k) (md_batches db)"

definition find_key :: "string \<Rightarrow> meta_db \<Rightarrow> run_row option" where
  "find_key k db = find (\<lambda>r. ir_idempotency_key r = k) (md_runs db)"

definition linked_file :: "int \<Rightarrow> meta_db \<Rightarrow> int \<Rightarrow> bool" where
  "linked_file b db i \<longleftrightarrow> list_ex (\<lambda>l. bf_batch_id l = b \<and> bf_file_id l = i) (md_batch_files db)"

definition unit_of :: "discovery_args \<Rightarrow> string \<Rightarrow> run_row \<Rightarrow> discovered_unit option" where
  "unit_of a key r =
     (if ir_status r \<in> set terminal_non_reofferable_statuses then None
      else Some (unit_for a key (ir_id r)))"

text \<open>The run of these contents is in the tables with its batch and its files, and \<open>u\<close> is its answer.\<close>

definition settled_offer :: "discovery_world \<Rightarrow> discovery_args \<Rightarrow> string \<Rightarrow> string \<Rightarrow> part_registration list \<Rightarrow>
    discovered_unit option \<Rightarrow> meta_db \<Rightarrow> bool" where
  "settled_offer w a schema_term sha parts u db \<longleftrightarrow>
     (\<exists>b r. find_batch (da_dataset_id a, content_batch_key a sha) db = Some b \<and>
        list_all (\<lambda>p. linked_file (ba_id b) db (pt_file_id p)) parts \<and>
        find_key (idempotency_key w a schema_term sha) db = Some r \<and>
        u = unit_of a (idempotency_key w a schema_term sha) r \<and>
        (u \<noteq> None \<longrightarrow> dw_put w (assignment_key a (ir_id r)) = Inr ()))"

lemma extends_finds:
  assumes "extends db db'"
  shows "find_batch k db = Some b \<Longrightarrow> find_batch k db' = Some b"
    and "find_key i db = Some r \<Longrightarrow> find_key i db' = Some r"
    and "linked_file n db j \<Longrightarrow> linked_file n db' j"
  using assms unfolding extends_def find_batch_def find_key_def linked_file_def list_ex_iff by blast+

lemma extends_trans: "extends a b \<Longrightarrow> extends b c \<Longrightarrow> extends a c"
  unfolding extends_def by blast

lemma settled_offer_extends: "settled_offer w a t sha parts u db \<Longrightarrow> extends db db' \<Longrightarrow> settled_offer w a t sha parts u db'"
  unfolding settled_offer_def list_all_iff using extends_finds by blast

lemma meta_call_Inr: "meta_call f s = (Inr x, s') \<longleftrightarrow> (\<exists>db. f (dy_meta s) = Inr (db, x) \<and> s' = set_meta db s)"
  by (auto simp: meta_call_def split: sum.splits)

lemma set_meta_same [simp]: "set_meta (dy_meta s) s = s"
  by (simp add: set_meta_def dy_meta_def)

lemma link_for_done:
  "pr_for (enumerate n parts) (\<lambda>(n, p). meta_call (\<lambda>db.
       case link_batch_file b (pt_file_id p) (int n) db of Inl e \<Rightarrow> Inl e | Inr db' \<Rightarrow> Inr (db', ()))) s = (Inr us, s') \<Longrightarrow>
   extends (dy_meta s) (dy_meta s') \<and> list_all (\<lambda>p. linked_file b (dy_meta s') (pt_file_id p)) parts"
proof (induction parts arbitrary: n s us)
  case (Cons p parts)
  then obtain db us' where db: "link_batch_file b (pt_file_id p) (int n) (dy_meta s) = Inr db"
    and rest: "pr_for (enumerate (Suc n) parts) (\<lambda>(n, p). meta_call (\<lambda>db.
       case link_batch_file b (pt_file_id p) (int n) db of Inl e \<Rightarrow> Inl e | Inr db' \<Rightarrow> Inr (db', ()))) (set_meta db s) = (Inr us', s')"
    by (auto simp: pr_bind_Inr meta_call_Inr split: sum.splits)
  from db have "extends (dy_meta s) db" "linked_file b db (pt_file_id p)"
    by (cases rule: link_batch_file_cases; auto simp: linked_file_def list_ex_iff)+
  moreover from Cons.IH [OF rest] have "extends db (dy_meta s')" "list_all (\<lambda>p. linked_file b (dy_meta s') (pt_file_id p)) parts"
    by simp_all
  ultimately show ?case using extends_finds(3) [of db "dy_meta s'"] extends_trans by auto
qed simp

lemma link_for_again:
  "list_all (\<lambda>p. linked_file b (dy_meta s) (pt_file_id p)) parts \<Longrightarrow>
   \<exists>us. pr_for (enumerate n parts) (\<lambda>(n, p). meta_call (\<lambda>db.
       case link_batch_file b (pt_file_id p) (int n) db of Inl e \<Rightarrow> Inl e | Inr db' \<Rightarrow> Inr (db', ()))) s = (Inr us, s)"
proof (induction parts arbitrary: n)
  case (Cons p parts)
  from Cons.prems have "link_batch_file b (pt_file_id p) (int n) (dy_meta s) = Inr (dy_meta s)"
    by (simp add: link_batch_file_def linked_file_def)
  with Cons show ?case by (fastforce simp: pr_bind_Inr meta_call_Inr)
qed simp

lemma put_document_Inr:
  "put_document w k doc s = (Inr x, s') \<longleftrightarrow> dw_put w k = Inr () \<and> s' = s\<lparr>dy_documents := (dy_documents s)(k \<mapsto> doc)\<rparr>"
  by (cases "dw_put w k") (auto simp: put_document_def)

lemma freeze_Inr:
  assumes "freeze_assignment w a manifest key sha b parts (ir_id r, ir_status r) s = (Inr u, s')"
  shows "dy_meta s' = dy_meta s \<and> u = unit_of a key r \<and> (u \<noteq> None \<longrightarrow> dw_put w (assignment_key a (ir_id r)) = Inr ())"
  using assms by (auto simp: freeze_assignment_def unit_of_def pr_bind_Inr put_document_Inr split: if_splits)

lemma freeze_again:
  assumes "unit_of a key r \<noteq> None \<longrightarrow> dw_put w (assignment_key a (ir_id r)) = Inr ()"
  shows "\<exists>d. freeze_assignment w a manifest key sha b parts (ir_id r, ir_status r) s =
    (Inr (unit_of a key r), s\<lparr>dy_documents := d\<rparr>)"
proof (cases "ir_status r \<in> set terminal_non_reofferable_statuses")
  case True
  have "s = s\<lparr>dy_documents := dy_documents s\<rparr>" by simp
  with True show ?thesis by (metis freeze_assignment_def pr_return_def snd_conv unit_of_def)
next
  case False
  with assms show ?thesis
    by (auto simp: freeze_assignment_def unit_of_def pr_bind_Inr put_document_Inr)
qed

lemma offer_settles:
  assumes "offer_run w a t manifest sha run_file parts s = (Inr u, s')"
  shows "settled_offer w a t sha parts u (dy_meta s')"
proof -
  let ?key = "idempotency_key w a t sha"
  from assms obtain b db1 us s2 replay run db3 where
    batch: "get_or_create_batch (da_dataset_id a) (content_batch_key a sha) ''OPEN'' (dy_meta s) = Inr (db1, b)" and
    links: "link_parts b parts (set_meta db1 s) = (Inr us, s2)" and
    call: "get_or_create_ingestion_run (run_spec_of a ?key run_file b replay) (dy_meta s2) = Inr (db3, run)" and
    fin: "freeze_assignment w a manifest ?key sha b parts run (set_meta db3 s2) = (Inr u, s')"
    unfolding offer_run_def Let_def meta_query_def by (auto simp: pr_bind_Inr meta_call_Inr)
  from batch obtain br where br: "find_batch (da_dataset_id a, content_batch_key a sha) db1 = Some br" "ba_id br = b"
    by (cases rule: get_or_create_batch_cases) (auto simp: find_batch_def find_append)
  from links have l: "extends db1 (dy_meta s2)" "list_all (\<lambda>p. linked_file b (dy_meta s2) (pt_file_id p)) parts"
    unfolding link_parts_def by (auto dest!: link_for_done)
  have "\<exists>r. find_key ?key db3 = Some r \<and> run = (ir_id r, ir_status r) \<and> extends (dy_meta s2) db3"
    using call
  proof (cases rule: get_or_create_run_cases)
    case (known q r)
    then show ?thesis by (auto simp: find_key_def run_spec_of_def)
  next
    case (fresh q r)
    have "ir_idempotency_key r = ?key" by (simp add: fresh(3) new_run_def run_spec_of_def)
    with fresh(1,2,4) show ?thesis by (auto simp: find_key_def find_append run_spec_of_def)
  qed
  then obtain r where r: "find_key ?key db3 = Some r" "run = (ir_id r, ir_status r)" "extends (dy_meta s2) db3" by blast
  from freeze_Inr [OF fin [unfolded r(2)]] have "dy_meta s' = db3" "u = unit_of a ?key r"
    "u \<noteq> None \<longrightarrow> dw_put w (assignment_key a (ir_id r)) = Inr ()" by simp_all
  moreover have "find_batch (da_dataset_id a, content_batch_key a sha) db3 = Some br"
    using br extends_finds(1) [OF l(1)] extends_finds(1) [OF r(3)] by blast
  moreover have "list_all (\<lambda>p. linked_file (ba_id br) db3 (pt_file_id p)) parts"
    using l(2) extends_finds(3) [OF r(3)] br(2) by (auto simp: list_all_iff)
  ultimately show ?thesis using r(1) unfolding settled_offer_def by blast
qed

lemma offer_again:
  assumes ok: "discovery_ok a s" and settled: "settled_offer w a t sha parts u (dy_meta s)"
  shows "\<exists>s'. offer_run w a t manifest sha run_file parts s = (Inr u, s') \<and> same_state s s'"
proof -
  let ?key = "idempotency_key w a t sha"
  from settled obtain b r where b: "find_batch (da_dataset_id a, content_batch_key a sha) (dy_meta s) = Some b"
    and links: "list_all (\<lambda>p. linked_file (ba_id b) (dy_meta s) (pt_file_id p)) parts"
    and r: "find_key ?key (dy_meta s) = Some r" "u = unit_of a ?key r"
    and put: "u \<noteq> None \<longrightarrow> dw_put w (assignment_key a (ir_id r)) = Inr ()"
    by (auto simp: settled_offer_def)
  define s1 where "s1 = set_meta (draw_id SeqBatches (dy_meta s)) s"
  have known: "dataset_known (dy_meta s) (da_dataset_id a)" using ok by (simp add: discovery_ok_def)
  have "get_or_create_batch (da_dataset_id a) (content_batch_key a sha) ''OPEN'' (dy_meta s) =
      Inr (draw_id SeqBatches (dy_meta s), ba_id b)"
    using known b by (simp add: get_or_create_batch_def insert_or_update_def find_batch_def new_batch_def batch_key_def map_idI draw_id_def)
  then have batch: "meta_call (get_or_create_batch (da_dataset_id a) (content_batch_key a sha) ''OPEN'') s = (Inr (ba_id b), s1)"
    by (simp add: meta_call_Inr s1_def)
  have "list_all (\<lambda>p. linked_file (ba_id b) (dy_meta s1) (pt_file_id p)) parts"
    using links by (simp add: s1_def linked_file_def draw_id_def)
  then obtain us where links': "link_parts (ba_id b) parts s1 = (Inr us, s1)"
    using link_for_again unfolding link_parts_def by blast
  define replay where "replay = find_latest_succeeded_run_for_file (pt_file_id (hd parts)) (dy_meta s1)"
  define s2 where "s2 = set_meta (draw_id SeqRuns (dy_meta s1)) s1"
  have "?key \<in> ir_idempotency_key ` set (md_runs (dy_meta s1))"
    using r(1) by (auto simp: find_key_def s1_def draw_id_def image_iff dest!: find_SomeD intro: sym)
  then have "get_or_create_ingestion_run (run_spec_of a ?key run_file (ba_id b) replay) (dy_meta s1) =
      Inr (draw_id SeqRuns (dy_meta s1), (ir_id r, ir_status r))"
    using r(1)
    by (simp add: get_or_create_ingestion_run_def insert_or_update_def find_key_def new_run_def run_spec_of_def map_idI s1_def draw_id_def)
  then have run: "meta_call (get_or_create_ingestion_run (run_spec_of a ?key run_file (ba_id b) replay)) s1 =
      (Inr (ir_id r, ir_status r), s2)"
    by (simp add: meta_call_Inr s2_def)
  obtain d where fin: "freeze_assignment w a manifest ?key sha (ba_id b) parts (ir_id r, ir_status r) s2 =
      (Inr u, s2\<lparr>dy_documents := d\<rparr>)"
    using freeze_again [of a ?key r w] put r(2) by blast
  have "offer_run w a t manifest sha run_file parts s = (Inr u, s2\<lparr>dy_documents := d\<rparr>)"
    unfolding offer_run_def Let_def pr_bind_Inr
    using batch links' run fin by (auto simp: replay_def)
  moreover have "same_state s (s2\<lparr>dy_documents := d\<rparr>)"
    by (simp add: s2_def s1_def same_state_def same_tables_def draw_id_def)
  ultimately show ?thesis by blast
qed

section \<open>Parts, objects and groups\<close>

definition settled_part :: "discovery_world \<Rightarrow> discovery_args \<Rightarrow> (string \<Rightarrow> object_summary) \<Rightarrow> string \<Rightarrow>
    part_registration \<times> bool \<Rightarrow> discovery_state \<Rightarrow> bool" where
  "settled_part w a objs key r s \<longleftrightarrow>
     settled_file w a (objs key) (pt_file_id (fst r), pt_content_sha256 (fst r), snd r) (dy_meta s) \<and>
     pt_key (fst r) = key \<and> pt_size_bytes (fst r) = os_size_bytes (objs key)"

lemma same_state_meta:
  assumes "same_state s s'"
  shows "settled_file w a obj r (dy_meta s') = settled_file w a obj r (dy_meta s)"
    and "settled_offer w a t sha parts u (dy_meta s') = settled_offer w a t sha parts u (dy_meta s)"
    and "find_file_by_content_hash d h (dy_meta s') = find_file_by_content_hash d h (dy_meta s)"
proof -
  have "same_tables (dy_meta s) (dy_meta s')" using assms by (simp add: same_state_def)
  note fields = same_tables_fields [OF this]
  show "settled_file w a obj r (dy_meta s') = settled_file w a obj r (dy_meta s)"
    by (rule settled_file_files) (rule fields)
  show "settled_offer w a t sha parts u (dy_meta s') = settled_offer w a t sha parts u (dy_meta s)"
    by (simp add: settled_offer_def find_batch_def find_key_def linked_file_def fields)
  show "find_file_by_content_hash d h (dy_meta s') = find_file_by_content_hash d h (dy_meta s)"
    by (simp add: find_file_by_content_hash_def fields)
qed

lemma same_state_refl: "same_state s s" and same_state_trans: "same_state s s' \<Longrightarrow> same_state s' s'' \<Longrightarrow> same_state s s''"
  by (auto simp: same_state_def intro: same_tables_trans)

lemma register_settles:
  assumes "discovery_ok a s" and "hash_and_register_file w a obj s = (Inr r, s')"
  shows "settled_file w a obj r (dy_meta s')"
proof -
  obtain body where body: "dw_read w (os_key obj) = Inr body"
    using assms(2) by (auto simp: hash_and_register_file_def pr_bind_Inr)
  from hash_and_register_file_effect [OF assms(1) body] obtain fid dup db' where
    r: "r = (fid, dw_sha256 w body, dup)" "s' = set_meta db' s" and
    reg: "registered_as a obj (dw_sha256 w body) (fid, dup) (dy_meta s) db'"
    using assms(2) by auto
  have "meta_inv (dy_meta s)" using assms(1) by (simp add: discovery_ok_def)
  from registered_settles [OF this reg body refl] show ?thesis by (simp add: r)
qed

lemma register_again:
  assumes "discovery_ok a s" and "settled_file w a obj r (dy_meta s)"
  shows "\<exists>s'. hash_and_register_file w a obj s = (Inr r, s') \<and> same_state s s'"
proof -
  obtain fid sha dup where r: "r = (fid, sha, dup)" by (cases r)
  from assms(2) obtain body where body: "dw_read w (os_key obj) = Inr body" "sha = dw_sha256 w body"
    by (auto simp: settled_file_def r)
  from hash_and_register_file_effect [OF assms(1) body(1)] obtain fid' dup' db' where
    run: "hash_and_register_file w a obj s = (Inr (fid', sha, dup'), set_meta db' s)" and
    reg: "registered_as a obj sha (fid', dup') (dy_meta s) db'"
    using body(2) by blast
  from registered_again [OF _ assms(2) [unfolded r] reg] assms(1)
  have "fid' = fid" "dup' = dup" "same_tables (dy_meta s) db'" by (simp_all add: discovery_ok_def)
  with run show ?thesis by (simp add: r same_state_def)
qed

lemma pass_rel_part: "pr_keeps (pass_rel w a) (register_part w a objs key)"
  unfolding register_part_def
  by (auto intro!: pass_rel_binds pass_rel_file_call pr_keeps_pure split: prod.splits)

lemma keeps_part:
  assumes "pr_keeps (pass_rel w a) m" and "discovery_ok a s"
  shows "discovery_ok a (snd (m s))" and "settled_part w a objs key r s \<Longrightarrow> settled_part w a objs key r (snd (m s))"
  using assms by (auto simp: pr_keeps_def pass_rel_def settled_part_def)

interpretation parts: settling "register_part w a objs" "discovery_ok a" "settled_part w a objs" same_state
  for w a objs
proof
  show "same_state s s" for s by (rule same_state_refl)
  show "same_state s s' \<Longrightarrow> same_state s' s'' \<Longrightarrow> same_state s s''" for s s' s'' by (rule same_state_trans)
  show "settled_part w a objs i r s \<Longrightarrow> same_state s s' \<Longrightarrow> settled_part w a objs i r s'" for i r s s'
    by (simp add: settled_part_def same_state_meta(1))
  show "discovery_ok a s \<Longrightarrow> discovery_ok a (snd (register_part w a objs i s))" for s i
    using keeps_part(1) [OF pass_rel_part] .
  show "discovery_ok a s \<Longrightarrow> register_part w a objs i s = (Inr r, s') \<Longrightarrow> settled_part w a objs i r s'" for s i r s'
    by (auto simp: register_part_def pr_bind_Inr settled_part_def dest!: register_settles)
  show "discovery_ok a s \<Longrightarrow> settled_part w a objs i r s \<Longrightarrow> settled_part w a objs i r (snd (register_part w a objs j s))"
    for s i r j using keeps_part(2) [OF pass_rel_part] .
  show "\<exists>s'. register_part w a objs i s = (Inr r, s') \<and> same_state s s'"
    if ok: "discovery_ok a s" and settled: "settled_part w a objs i r s" for s i r
  proof -
    from register_again [OF ok] settled obtain s' where
      "hash_and_register_file w a (objs i) s = (Inr (pt_file_id (fst r), pt_content_sha256 (fst r), snd r), s')" "same_state s s'"
      unfolding settled_part_def by blast
    moreover have "r = (\<lparr>pt_key = i, pt_file_id = pt_file_id (fst r), pt_content_sha256 = pt_content_sha256 (fst r),
        pt_size_bytes = os_size_bytes (objs i)\<rparr>, snd r)"
      using settled by (cases r; cases "fst r") (simp add: settled_part_def)
    ultimately show ?thesis unfolding register_part_def pr_bind_Inr by (metis (mono_tags, lifting) case_prod_conv pr_return_Inr)
  qed
qed

datatype item = Group multipart_group | Single object_summary

definition process_item :: "discovery_world \<Rightarrow> discovery_args \<Rightarrow> string \<Rightarrow> batch_complete_manifest option \<Rightarrow>
    (string \<Rightarrow> object_summary) \<Rightarrow> item \<Rightarrow> (discovery_state, discovered_unit option) prog" where
  "process_item w a t manifest objs i =
     (case i of Group g \<Rightarrow> process_multipart_group w a t manifest objs g
      | Single obj \<Rightarrow> process_ungrouped_object w a t manifest obj)"

definition settled_item :: "discovery_world \<Rightarrow> discovery_args \<Rightarrow> string \<Rightarrow> (string \<Rightarrow> object_summary) \<Rightarrow> item \<Rightarrow>
    discovered_unit option \<Rightarrow> discovery_state \<Rightarrow> bool" where
  "settled_item w a t objs i u s \<longleftrightarrow>
     (case i of
        Group g \<Rightarrow> (\<exists>parts. list_all2 (\<lambda>k p. settled_part w a objs k p s) (mg_object_keys g) parts \<and>
          (if list_ex snd parts then u = None
           else settled_offer w a t (dw_sha256 w (join ''|'' (map (\<lambda>p. pt_content_sha256 (fst p)) parts)))
             (map fst parts) u (dy_meta s)))
      | Single obj \<Rightarrow> (\<exists>fid sha dup. settled_file w a obj (fid, sha, dup) (dy_meta s) \<and>
          (if dup then u = None else settled_offer w a t sha [single_part obj fid sha] u (dy_meta s))))"

lemma pass_rel_parts: "pr_keeps (pass_rel w a) (pr_for keys (register_part w a objs))"
  by (rule pr_keeps_for [OF pass_rel_refl pass_rel_trans]) (auto intro: pass_rel_part)

lemma pass_rel_item: "pr_keeps (pass_rel w a) (process_item w a t manifest objs i)"
  unfolding process_item_def process_multipart_group_def process_ungrouped_object_def Let_def
  by (auto intro!: pass_rel_binds pass_rel_file_call pass_rel_parts pass_rel_offer pr_keeps_pure
      split: item.split prod.splits)

lemma settled_item_rel:
  assumes "discovery_ok a s" and "pass_rel w a s s'" and "settled_item w a t objs i u s"
  shows "settled_item w a t objs i u s'"
proof -
  have x: "extends (dy_meta s) (dy_meta s')" using assms(1,2) by (simp add: pass_rel_def)
  have f: "settled_file w a obj r (dy_meta s) \<Longrightarrow> settled_file w a obj r (dy_meta s')" for obj r
    using assms(1,2) unfolding pass_rel_def by blast
  have p: "list_all2 (\<lambda>k p. settled_part w a objs k p s) ks ps \<Longrightarrow> list_all2 (\<lambda>k p. settled_part w a objs k p s') ks ps" for ks ps
    by (erule list_all2_mono) (simp add: settled_part_def f)
  show ?thesis
    using assms(3) f p settled_offer_extends [OF _ x]
    by (cases i) (simp_all add: settled_item_def, metis+)
qed

lemma settled_item_same: "settled_item w a t objs i u s \<Longrightarrow> same_state s s' \<Longrightarrow> settled_item w a t objs i u s'"
  by (simp only: settled_item_def settled_part_def same_state_meta [of s s'])

lemma item_settles:
  assumes ok: "discovery_ok a s" and run: "process_item w a t manifest objs i s = (Inr u, s')"
  shows "settled_item w a t objs i u s'"
proof (cases i)
  case (Single obj)
  from run obtain fid sha dup s1 where reg: "hash_and_register_file w a obj s = (Inr (fid, sha, dup), s1)" and
    rest: "(if dup then pr_return None else offer_run w a t manifest sha (Some fid) [single_part obj fid sha]) s1 = (Inr u, s')"
    by (auto simp: process_item_def process_ungrouped_object_def pr_bind_Inr Single)
  have ok1: "discovery_ok a s1" using keeps_part(1) [OF pass_rel_file_call [of w a obj] ok] reg by simp
  have f: "settled_file w a obj (fid, sha, dup) (dy_meta s1)" using register_settles [OF ok reg] .
  show ?thesis
  proof (cases dup)
    case True
    with rest f show ?thesis by (auto simp: settled_item_def Single)
  next
    case False
    with rest have offer: "offer_run w a t manifest sha (Some fid) [single_part obj fid sha] s1 = (Inr u, s')" by simp
    have "pass_rel w a s1 s'" by (rule pr_keeps_run [OF pass_rel_offer offer])
    then have "settled_file w a obj (fid, sha, False) (dy_meta s')" using ok1 f False by (simp add: pass_rel_def)
    with offer_settles [OF offer] show ?thesis by (auto simp: settled_item_def Single)
  qed
next
  case (Group g)
  from run obtain ps s1 where reg: "pr_for (mg_object_keys g) (register_part w a objs) s = (Inr ps, s1)" and
    rest: "(if list_ex snd ps then pr_return None
      else offer_run w a t manifest (dw_sha256 w (join ''|'' (map (\<lambda>p. pt_content_sha256 (fst p)) ps))) None (map fst ps)) s1 = (Inr u, s')"
    by (auto simp: process_item_def process_multipart_group_def pr_bind_Inr Group Let_def cong: if_cong)
  have ok1: "discovery_ok a s1" using keeps_part(1) [OF pass_rel_parts [of w a "mg_object_keys g" objs] ok] reg by simp
  have f: "list_all2 (\<lambda>k p. settled_part w a objs k p s1) (mg_object_keys g) ps" using parts.pass_settles [OF _ ok reg] by (simp add: list_all_iff)
  show ?thesis
  proof (cases "list_ex snd ps")
    case True
    with rest f show ?thesis by (auto simp: settled_item_def Group)
  next
    case False
    let ?sha = "dw_sha256 w (join ''|'' (map (\<lambda>p. pt_content_sha256 (fst p)) ps))"
    from False rest have offer: "offer_run w a t manifest ?sha None (map fst ps) s1 = (Inr u, s')" by simp
    have "pass_rel w a s1 s'" by (rule pr_keeps_run [OF pass_rel_offer offer])
    then have "list_all2 (\<lambda>k p. settled_part w a objs k p s') (mg_object_keys g) ps"
      using f ok1 by (elim list_all2_mono) (simp add: settled_part_def pass_rel_def)
    with offer_settles [OF offer] False show ?thesis by (auto simp: settled_item_def Group)
  qed
qed

lemma item_again:
  assumes ok: "discovery_ok a s" and settled: "settled_item w a t objs i u s"
  shows "\<exists>s'. process_item w a t manifest objs i s = (Inr u, s') \<and> same_state s s'"
proof (cases i)
  case (Single obj)
  from settled obtain fid sha dup where f: "settled_file w a obj (fid, sha, dup) (dy_meta s)" and
    rest: "if dup then u = None else settled_offer w a t sha [single_part obj fid sha] u (dy_meta s)"
    by (auto simp: settled_item_def Single)
  from register_again [OF ok f] obtain s1 where s1: "hash_and_register_file w a obj s = (Inr (fid, sha, dup), s1)" "same_state s s1" by blast
  have ok1: "discovery_ok a s1" using keeps_part(1) [OF pass_rel_file_call [of w a obj] ok] s1 by simp
  show ?thesis
  proof (cases dup)
    case True
    with s1 rest show ?thesis
      by (auto simp: process_item_def process_ungrouped_object_def Single pr_bind_Inr)
  next
    case False
    with rest s1(2) have "settled_offer w a t sha [single_part obj fid sha] u (dy_meta s1)" by (simp add: same_state_meta)
    from offer_again [OF ok1 this, of manifest "Some fid"] obtain s2 where
      "offer_run w a t manifest sha (Some fid) [single_part obj fid sha] s1 = (Inr u, s2)" "same_state s1 s2" by blast
    with s1 False show ?thesis
      by (auto simp: process_item_def process_ungrouped_object_def Single pr_bind_Inr intro: same_state_trans)
  qed
next
  case (Group g)
  from settled obtain ps where f: "list_all2 (\<lambda>k p. settled_part w a objs k p s) (mg_object_keys g) ps" and
    rest: "if list_ex snd ps then u = None
      else settled_offer w a t (dw_sha256 w (join ''|'' (map (\<lambda>p. pt_content_sha256 (fst p)) ps))) (map fst ps) u (dy_meta s)"
    by (auto simp: settled_item_def Group)
  from parts.pass_repeats_settled [OF ok f] obtain s1 where
    s1: "pr_for (mg_object_keys g) (register_part w a objs) s = (Inr ps, s1)" "same_state s s1" by blast
  have ok1: "discovery_ok a s1" using keeps_part(1) [OF pass_rel_parts [of w a "mg_object_keys g" objs] ok] s1 by simp
  show ?thesis
  proof (cases "list_ex snd ps")
    case True
    with s1 rest show ?thesis
      by (auto simp: process_item_def process_multipart_group_def Group pr_bind_Inr)
  next
    case False
    let ?sha = "dw_sha256 w (join ''|'' (map (\<lambda>p. pt_content_sha256 (fst p)) ps))"
    from False rest s1(2) have "settled_offer w a t ?sha (map fst ps) u (dy_meta s1)" by (simp add: same_state_meta)
    from offer_again [OF ok1 this, of manifest None] obtain s2 where
      "offer_run w a t manifest ?sha None (map fst ps) s1 = (Inr u, s2)" "same_state s1 s2" by blast
    with s1 False show ?thesis
      by (auto simp: process_item_def process_multipart_group_def Group pr_bind_Inr Let_def intro: same_state_trans)
  qed
qed

interpretation items: settling "process_item w a t manifest objs" "discovery_ok a" "settled_item w a t objs" same_state
  for w a t manifest objs
proof
  show "same_state s s" for s by (rule same_state_refl)
  show "same_state s s' \<Longrightarrow> same_state s' s'' \<Longrightarrow> same_state s s''" for s s' s'' by (rule same_state_trans)
  show "settled_item w a t objs i u s \<Longrightarrow> same_state s s' \<Longrightarrow> settled_item w a t objs i u s'" for i u s s'
    by (rule settled_item_same)
  show "discovery_ok a s \<Longrightarrow> discovery_ok a (snd (process_item w a t manifest objs i s))" for s i
    using keeps_part(1) [OF pass_rel_item] .
  show "discovery_ok a s \<Longrightarrow> process_item w a t manifest objs i s = (Inr u, s') \<Longrightarrow> settled_item w a t objs i u s'" for s i u s'
    by (rule item_settles)
  show "discovery_ok a s \<Longrightarrow> settled_item w a t objs i u s \<Longrightarrow> settled_item w a t objs i u (snd (process_item w a t manifest objs j s))"
    for s i u j
    by (rule settled_item_rel) (auto intro: pass_rel_item [unfolded pr_keeps_def, rule_format])
  show "discovery_ok a s \<Longrightarrow> settled_item w a t objs i u s \<Longrightarrow>
      \<exists>s'. process_item w a t manifest objs i s = (Inr u, s') \<and> same_state s s'" for s i u
    by (rule item_again)
qed

section \<open>A whole call\<close>

lemma pr_for_map: "pr_for (map f xs) g = pr_for xs (\<lambda>x. g (f x))"
  by (induction xs) simp_all

lemma pr_for_append:
  "pr_for (xs @ ys) g s = (Inr rs, s') \<longleftrightarrow>
     (\<exists>us vs s1. pr_for xs g s = (Inr us, s1) \<and> pr_for ys g s1 = (Inr vs, s') \<and> rs = us @ vs)"
  by (induction xs arbitrary: s rs) (fastforce simp: pr_bind_Inr)+

definition units_of :: "discovery_args \<Rightarrow> discovered_unit option list \<Rightarrow> discovered_unit list" where
  "units_of a us = cap_units (da_max_units_per_run a) (map the (filter (\<lambda>u. u \<noteq> None) us))"

text \<open>A call that is not withheld is one pass over the groups and the remaining objects.\<close>

lemma discover_files_pass:
  assumes gate: "dw_list w = Inr objs" "apply_batch_complete_marker_gate w a (sort_key os_key objs) = Inr (listed, False, manifest)"
    and split: "partition_listing w a listed = Inr (groups, remaining)"
    and is_def: "is = map Group groups @ map Single remaining" and t_def: "t = schema_version_term (da_dataset_id a) (dy_catalog s)"
  shows "discover_files w a s = (Inr units, s') \<longleftrightarrow>
    (\<exists>us. pr_for is (process_item w a t manifest (lookup_object listed)) s = (Inr us, s') \<and> units = units_of a us)"
proof -
  have g: "pr_for (map Group groups) (process_item w a t manifest (lookup_object listed)) =
      pr_for groups (process_multipart_group w a t manifest (lookup_object listed))"
    by (simp add: pr_for_map process_item_def)
  have r: "pr_for (map Single remaining) (process_item w a t manifest (lookup_object listed)) =
      pr_for remaining (process_ungrouped_object w a t manifest)"
    by (simp add: pr_for_map process_item_def)
  show ?thesis
    unfolding is_def pr_for_append g r unfolding t_def
    by (simp add: discover_files_def pr_bind_Inr gate split units_of_def) fastforce
qed

lemma discover_files_cases:
  assumes "discover_files w a s = (Inr units, s')"
  obtains (withheld) objs listed manifest where "dw_list w = Inr objs"
      "apply_batch_complete_marker_gate w a (sort_key os_key objs) = Inr (listed, True, manifest)" "units = []" "s' = s"
  | (pass) objs listed manifest groups remaining where "dw_list w = Inr objs"
      "apply_batch_complete_marker_gate w a (sort_key os_key objs) = Inr (listed, False, manifest)"
      "partition_listing w a listed = Inr (groups, remaining)"
proof -
  from assms obtain objs where objs: "dw_list w = Inr objs" by (auto simp: discover_files_def pr_bind_Inr)
  from assms objs obtain listed wh manifest where
    gate: "apply_batch_complete_marker_gate w a (sort_key os_key objs) = Inr (listed, wh, manifest)"
    by (auto simp: discover_files_def pr_bind_Inr)
  show thesis
  proof (cases wh)
    case True
    with gate have gate: "apply_batch_complete_marker_gate w a (sort_key os_key objs) = Inr (listed, True, manifest)" by simp
    with assms objs show thesis by (intro withheld [OF objs gate]) (auto simp: discover_files_def pr_bind_Inr)
  next
    case False
    with gate have gate: "apply_batch_complete_marker_gate w a (sort_key os_key objs) = Inr (listed, False, manifest)" by simp
    with assms objs obtain groups remaining where "partition_listing w a listed = Inr (groups, remaining)"
      by (auto simp: discover_files_def pr_bind_Inr)
    with pass [OF objs gate] show thesis .
  qed
qed

lemma pass_same_term:
  assumes "discovery_ok a s" and "pr_for is (process_item w a t manifest objs) s = (r, s')"
  shows "schema_version_term d (dy_catalog s') = schema_version_term d (dy_catalog s)" and "discovery_ok a s'"
proof -
  have "pr_keeps (pass_rel w a) (pr_for is (process_item w a t manifest objs))"
    by (rule pr_keeps_for [OF pass_rel_refl pass_rel_trans]) (auto intro: pass_rel_item)
  from pr_keeps_run [OF this assms(2)] assms(1)
  have "ct_schemas (dy_catalog s') = ct_schemas (dy_catalog s)" "discovery_ok a s'" by (simp_all add: pass_rel_def)
  then show "schema_version_term d (dy_catalog s') = schema_version_term d (dy_catalog s)" "discovery_ok a s'"
    by (simp_all add: schema_version_term_def schema_get_current_def)
qed

text \<open>C18: Discovery is repeatable: if a call of \<open>discover_files\<close> returns, calling it again on what it
  left, over the same listing and contents, returns the same units and changes no table - no file, batch, link
  or run is added or altered; only identity values are consumed.\<close>

theorem discovery_repeatable:
  assumes "discovery_ok a s" and "discover_files w a s = (Inr units, s')"
  shows "\<exists>s''. discover_files w a s' = (Inr units, s'') \<and> same_state s' s''"
  using assms(2)
proof (cases rule: discover_files_cases)
  case withheld
  then show ?thesis using assms(2) same_state_refl by blast
next
  case (pass objs listed manifest groups remaining)
  let ?is = "map Group groups @ map Single remaining"
  let ?t = "schema_version_term (da_dataset_id a) (dy_catalog s)"
  from assms(2) discover_files_pass [OF pass refl refl] obtain us where
    us: "pr_for ?is (process_item w a ?t manifest (lookup_object listed)) s = (Inr us, s')" "units = units_of a us" by blast
  from items.pass_repeats [OF assms(1) us(1)] obtain s'' where
    "pr_for ?is (process_item w a ?t manifest (lookup_object listed)) s' = (Inr us, s'')" "same_state s' s''" by blast
  with discover_files_pass [OF pass refl pass_same_term(1) [OF assms(1) us(1), symmetric]] us(2) show ?thesis by blast
qed

lemma demo_pass:
  "discovery_ok demo_args demo_state"
  "(case fst (discover_files demo_world demo_args demo_state) of
      Inl _ \<Rightarrow> False | Inr us \<Rightarrow> map du_run_id us = [2, 3])"
  by code_simp+

lemma demo_pass_result:
  obtains units s' where "discover_files demo_world demo_args demo_state = (Inr units, s')" and "map du_run_id units = [2, 3]"
  using demo_pass(2) by (cases "discover_files demo_world demo_args demo_state") (auto split: sum.splits)

lemma discovery_repeatable_witness:
  "\<exists>units s' s''. discover_files demo_world demo_args demo_state = (Inr units, s') \<and> map du_run_id units = [2, 3] \<and>
     discover_files demo_world demo_args s' = (Inr units, s'') \<and> same_state s' s''"
  using discovery_repeatable [OF demo_pass(1)] demo_pass_result by metis

lemma cap_units_set: "set (cap_units c xs) \<subseteq> set xs"
  by (auto simp: cap_units_def dest: in_set_takeD)

lemma cap_units_length: "0 \<le> c \<Longrightarrow> int (length (cap_units c xs)) \<le> c"
  by (auto simp: cap_units_def)

lemma settled_item_unit:
  assumes "settled_item w a t objs i (Some u) s"
  shows "\<exists>r. find_key (du_idempotency_key u) (dy_meta s) = Some r \<and> u = unit_for a (du_idempotency_key u) (ir_id r) \<and>
    ir_status r \<notin> set terminal_non_reofferable_statuses"
  using assms
  by (cases i) (auto simp: settled_item_def settled_offer_def unit_of_def unit_for_def split: if_splits)

text \<open>C19: Every unit a call of \<open>discover_files\<close> returns names the run that now holds its idempotency
  key and the document written for it, that run is neither SUCCEEDED nor QUARANTINED, and there are at most
  \<open>max_units_per_run\<close> of them.\<close>

theorem discovered_units_sound:
  assumes "discovery_ok a s" and "discover_files w a s = (Inr units, s')" and "0 \<le> da_max_units_per_run a"
  shows "int (length units) \<le> da_max_units_per_run a \<and>
    (\<forall>u \<in> set units. \<exists>r \<in> set (md_runs (dy_meta s')). ir_idempotency_key r = du_idempotency_key u \<and>
       u = unit_for a (ir_idempotency_key r) (ir_id r) \<and> ir_status r \<notin> {''SUCCEEDED'', ''QUARANTINED''})"
  using assms(2)
proof (cases rule: discover_files_cases)
  case withheld
  then show ?thesis using assms(3) by simp
next
  case (pass objs listed manifest groups remaining)
  let ?is = "map Group groups @ map Single remaining"
  let ?t = "schema_version_term (da_dataset_id a) (dy_catalog s)"
  from assms(2) discover_files_pass [OF pass refl refl] obtain us where
    us: "pr_for ?is (process_item w a ?t manifest (lookup_object listed)) s = (Inr us, s')" "units = units_of a us" by blast
  have settled: "list_all2 (\<lambda>i u. settled_item w a ?t (lookup_object listed) i u s') ?is us"
    using items.pass_settles [OF _ assms(1) us(1)] by (simp add: list_all_iff)
  have "\<exists>r \<in> set (md_runs (dy_meta s')). ir_idempotency_key r = du_idempotency_key u \<and>
      u = unit_for a (ir_idempotency_key r) (ir_id r) \<and> ir_status r \<notin> {''SUCCEEDED'', ''QUARANTINED''}"
    if u: "u \<in> set units" for u
  proof -
    have "Some u \<in> set us" using u cap_units_set unfolding us(2) units_of_def by fastforce
    then obtain i where "settled_item w a ?t (lookup_object listed) i (Some u) s'"
      using settled by (metis in_set_conv_nth list_all2_conv_all_nth)
    from settled_item_unit [OF this] show ?thesis
      by (auto simp: find_key_def terminal_non_reofferable_statuses_def dest!: find_SomeD)
  qed
  moreover have "int (length units) \<le> da_max_units_per_run a"
    using cap_units_length [OF assms(3)] by (simp add: us(2) units_of_def)
  ultimately show ?thesis by blast
qed

lemma discovered_units_sound_witness:
  "\<exists>units s'. discover_files demo_world demo_args demo_state = (Inr units, s') \<and> map du_run_id units = [2, 3] \<and>
     (\<forall>u \<in> set units. \<exists>r \<in> set (md_runs (dy_meta s')). ir_idempotency_key r = du_idempotency_key u)"
proof -
  obtain units s' where run: "discover_files demo_world demo_args demo_state = (Inr units, s')" "map du_run_id units = [2, 3]"
    by (rule demo_pass_result)
  have "0 \<le> da_max_units_per_run demo_args" by code_simp
  from discovered_units_sound [OF demo_pass(1) run(1) this]
  have "\<forall>u \<in> set units. \<exists>r \<in> set (md_runs (dy_meta s')). ir_idempotency_key r = du_idempotency_key u" by blast
  with run show ?thesis by (intro exI conjI)
qed

end
