(* ===== verification/CsvReader.thy ===== *)
theory CsvReader
  imports Records
begin

text \<open>
  What the CSV processor uses of the language's \<open>csv\<close> and \<open>io\<close> modules: the line iterator of a
  text stream opened with \<open>newline=""\<close> and the reader's state machine for the dialects the code
  builds (\<open>doublequote\<close>, \<open>QUOTE_MINIMAL\<close>, no escape character, not strict), with the limit of
  \<open>csv.field_size_limit\<close>.  The last section proves that the reader inverts the quoting rules.
\<close>

section \<open>Lines\<close>

abbreviation LF :: char where "LF \<equiv> CHR 0x0A"
abbreviation CR :: char where "CR \<equiv> CHR 0x0D"
abbreviation NUL :: char where "NUL \<equiv> CHR 0x00"

text \<open>Lines keep their ends; \<open>brk\<close> says where a line ends, given the character and what follows it.\<close>

type_synonym line_breaks = "char \<Rightarrow> string \<Rightarrow> bool"

fun split_lines :: "line_breaks \<Rightarrow> string \<Rightarrow> string list" where
  "split_lines brk [] = []"
| "split_lines brk (c # cs) =
     (if brk c cs then [c] # split_lines brk cs
      else (case split_lines brk cs of [] \<Rightarrow> [[c]] | l # ls \<Rightarrow> (c # l) # ls))"

text \<open>A text stream opened with \<open>newline=""\<close> ends lines at \<open>\n\<close>, \<open>\r\<close> or \<open>\r\n\<close>; an \<open>io.StringIO\<close> only at \<open>\n\<close>.\<close>

definition breaks_line :: line_breaks where
  "breaks_line c rest \<longleftrightarrow> c = LF \<or> c = CR \<and> (case rest of [] \<Rightarrow> True | c' # _ \<Rightarrow> c' \<noteq> LF)"

definition text_lines :: "string \<Rightarrow> string list" where
  "text_lines s = split_lines breaks_line s"

definition breaks_string_io :: line_breaks where
  "breaks_string_io c rest \<longleftrightarrow> c = LF"

definition string_io_lines :: "string \<Rightarrow> string list" where
  "string_io_lines s = split_lines breaks_string_io s"

lemma split_lines_concat: "concat (split_lines brk cs) = cs"
  by (induction cs) (auto split: list.splits)

lemma split_lines_Nil_iff [simp]: "split_lines brk cs = [] \<longleftrightarrow> cs = []"
  by (cases cs) (auto split: list.splits)

section \<open>The reader\<close>

datatype reader_state = StartRecord | StartField | InField | InQuotedField | QuoteInQuotedField | EatCrnl

record csv_chars =
  ch_delimiter :: char
  ch_quotechar :: char

text \<open>Building a reader for the dialect: both characters must be one character long.\<close>

definition reader_chars :: "string \<times> string \<Rightarrow> exn + csv_chars" where
  "reader_chars d =
     (case d of
        ([delimiter], [quotechar]) \<Rightarrow> Inr \<lparr>ch_delimiter = delimiter, ch_quotechar = quotechar\<rparr>
      | _ \<Rightarrow> Inl (Exn PyTypeError []))"

record csv_reader =
  rd_state :: reader_state
  rd_field :: string
  rd_fields :: "string list"

definition fresh_reader :: csv_reader where
  "fresh_reader = \<lparr>rd_state = StartRecord, rd_field = [], rd_fields = []\<rparr>"

definition save_field :: "reader_state \<Rightarrow> csv_reader \<Rightarrow> csv_reader" where
  "save_field st r = \<lparr>rd_state = st, rd_field = [], rd_fields = rd_fields r @ [rd_field r]\<rparr>"

definition add_char :: "nat \<Rightarrow> reader_state \<Rightarrow> char \<Rightarrow> csv_reader \<Rightarrow> exn + csv_reader" where
  "add_char limit st c r =
     (if limit \<le> length (rd_field r) then Inl (Exn CsvError [])
      else Inr (r\<lparr>rd_state := st, rd_field := rd_field r @ [c]\<rparr>))"

text \<open>One character, or the end of a line (\<open>None\<close>).\<close>

definition in_field_start :: "csv_chars \<Rightarrow> nat \<Rightarrow> char option \<Rightarrow> csv_reader \<Rightarrow> exn + csv_reader" where
  "in_field_start d limit c r =
     (case c of
        None \<Rightarrow> Inr (save_field StartRecord r)
      | Some x \<Rightarrow>
          if x = LF \<or> x = CR then Inr (save_field EatCrnl r)
          else if x = ch_quotechar d then Inr (r\<lparr>rd_state := InQuotedField\<rparr>)
          else if x = ch_delimiter d then Inr (save_field StartField r)
          else add_char limit InField x r)"

definition process_char :: "csv_chars \<Rightarrow> nat \<Rightarrow> char option \<Rightarrow> csv_reader \<Rightarrow> exn + csv_reader" where
  "process_char d limit c r =
     (case rd_state r of
        StartRecord \<Rightarrow>
          (case c of None \<Rightarrow> Inr r
           | Some x \<Rightarrow> if x = LF \<or> x = CR then Inr (r\<lparr>rd_state := EatCrnl\<rparr>)
                       else in_field_start d limit c (r\<lparr>rd_state := StartField\<rparr>))
      | StartField \<Rightarrow> in_field_start d limit c r
      | InField \<Rightarrow>
          (case c of None \<Rightarrow> Inr (save_field StartRecord r)
           | Some x \<Rightarrow> if x = LF \<or> x = CR then Inr (save_field EatCrnl r)
                       else if x = ch_delimiter d then Inr (save_field StartField r)
                       else add_char limit InField x r)
      | InQuotedField \<Rightarrow>
          (case c of None \<Rightarrow> Inr r
           | Some x \<Rightarrow> if x = ch_quotechar d then Inr (r\<lparr>rd_state := QuoteInQuotedField\<rparr>)
                       else add_char limit InQuotedField x r)
      | QuoteInQuotedField \<Rightarrow>
          (case c of None \<Rightarrow> Inr (save_field StartRecord r)
           | Some x \<Rightarrow> if x = ch_quotechar d then add_char limit InQuotedField x r
                       else if x = ch_delimiter d then Inr (save_field StartField r)
                       else if x = LF \<or> x = CR then Inr (save_field EatCrnl r)
                       else add_char limit InField x r)
      | EatCrnl \<Rightarrow>
          (case c of None \<Rightarrow> Inr (r\<lparr>rd_state := StartRecord\<rparr>)
           | Some x \<Rightarrow> if x = LF \<or> x = CR then Inr r else Inl (Exn CsvError [])))"

fun process_line :: "csv_chars \<Rightarrow> nat \<Rightarrow> string \<Rightarrow> csv_reader \<Rightarrow> exn + csv_reader" where
  "process_line d limit [] r = process_char d limit None r"
| "process_line d limit (c # cs) r =
     (case process_char d limit (Some c) r of Inl e \<Rightarrow> Inl e | Inr r' \<Rightarrow> process_line d limit cs r')"

text \<open>
  \<open>next(reader)\<close>: lines are taken until a record is complete.  \<open>None\<close> is \<open>StopIteration\<close>; a
  record that the end of the input cuts inside quotes is returned as it stands.  \<open>fin\<close> is the
  exception the line iterator raises after its last line, if it raises one.
\<close>

fun read_on :: "csv_chars \<Rightarrow> nat \<Rightarrow> exn option \<Rightarrow> csv_reader \<Rightarrow> string list \<Rightarrow> (exn + string list) option \<times> string list" where
  "read_on d limit fin r [] =
     ((case fin of
         Some e \<Rightarrow> Some (Inl e)
       | None \<Rightarrow> if rd_field r \<noteq> [] \<or> rd_state r = InQuotedField
                 then Some (Inr (rd_fields r @ [rd_field r])) else None), [])"
| "read_on d limit fin r (l # ls) =
     (case process_line d limit l r of
        Inl e \<Rightarrow> (Some (Inl e), ls)
      | Inr r' \<Rightarrow> if rd_state r' = StartRecord then (Some (Inr (rd_fields r')), ls) else read_on d limit fin r' ls)"

definition read_row :: "csv_chars \<Rightarrow> nat \<Rightarrow> exn option \<Rightarrow> string list \<Rightarrow> (exn + string list) option \<times> string list" where
  "read_row d limit fin ls = read_on d limit fin fresh_reader ls"

lemma read_on_length: "length (snd (read_on d limit fin r ls)) \<le> length ls"
  by (induction ls arbitrary: r) (auto split: sum.split intro: le_SucI)

lemma read_row_length: "read_row d limit fin ls = (Some (Inr x), ls') \<Longrightarrow> length ls' < length ls"
proof (cases ls)
  case (Cons l ls0)
  assume eq: "read_row d limit fin ls = (Some (Inr x), ls')"
  show ?thesis
  proof (cases "process_line d limit l fresh_reader")
    case (Inr r)
    from read_on_length [of d limit fin r ls0] Inr eq Cons show ?thesis
      by (auto simp: read_row_def split: if_splits)
  qed (use eq Cons in \<open>auto simp: read_row_def\<close>)
qed (auto simp: read_row_def fresh_reader_def split: option.splits)

text \<open>\<open>for row in reader\<close>: the rows up to the end or to the exception the reader raises.\<close>

function read_rows :: "csv_chars \<Rightarrow> nat \<Rightarrow> exn option \<Rightarrow> string list \<Rightarrow> string list list \<times> exn option" where
  "read_rows d limit fin ls =
     (case read_row d limit fin ls of
        (None, _) \<Rightarrow> ([], None)
      | (Some (Inl e), _) \<Rightarrow> ([], Some e)
      | (Some (Inr row), ls') \<Rightarrow> (case read_rows d limit fin ls' of (rows, raised) \<Rightarrow> (row # rows, raised)))"
  by pat_completeness auto
termination
  by (relation "measure (\<lambda>(d, limit, fin, ls). length ls)") (auto dest: read_row_length [OF sym])

declare read_rows.simps [simp del]

section \<open>Reading what was written\<close>

text \<open>
  A written field is either quoted, with its quote characters doubled, or plain; a plain field holds
  no delimiter and no line break and does not begin with the quote character.
\<close>

type_synonym written_field = "bool \<times> string"

definition quote_char :: "csv_chars \<Rightarrow> char \<Rightarrow> string" where
  "quote_char d c = (if c = ch_quotechar d then [c, c] else [c])"

definition write_field :: "csv_chars \<Rightarrow> written_field \<Rightarrow> string" where
  "write_field d f =
     (if fst f then ch_quotechar d # concat (map (quote_char d) (snd f)) @ [ch_quotechar d] else snd f)"

definition write_row :: "csv_chars \<Rightarrow> string \<Rightarrow> written_field list \<Rightarrow> string" where
  "write_row d eol fs = join [ch_delimiter d] (map (write_field d) fs) @ eol"

definition write_table :: "csv_chars \<Rightarrow> string \<Rightarrow> written_field list list \<Rightarrow> string" where
  "write_table d eol rows = concat (map (write_row d eol) rows)"

definition plain_ok :: "csv_chars \<Rightarrow> string \<Rightarrow> bool" where
  "plain_ok d s \<longleftrightarrow> ch_delimiter d \<notin> set s \<and> LF \<notin> set s \<and> CR \<notin> set s \<and>
     (case s of [] \<Rightarrow> True | c # _ \<Rightarrow> c \<noteq> ch_quotechar d)"

definition field_ok :: "csv_chars \<Rightarrow> nat \<Rightarrow> written_field \<Rightarrow> bool" where
  "field_ok d limit f \<longleftrightarrow> (fst f \<or> plain_ok d (snd f)) \<and> length (snd f) \<le> limit"

definition row_ok :: "csv_chars \<Rightarrow> nat \<Rightarrow> written_field list \<Rightarrow> bool" where
  "row_ok d limit fs \<longleftrightarrow> list_all (field_ok d limit) fs \<and> fs \<noteq> [] \<and> fs \<noteq> [(False, [])]"

definition chars_ok :: "csv_chars \<Rightarrow> bool" where
  "chars_ok d \<longleftrightarrow> ch_delimiter d \<noteq> ch_quotechar d \<and> ch_delimiter d \<notin> {LF, CR} \<and> ch_quotechar d \<notin> {LF, CR}"

definition line_ends :: "string list" where
  "line_ends = [[LF], [CR, LF]]"

text \<open>The reader in the middle of a line, before the text \<open>cs\<close>.\<close>

definition midline :: "line_breaks \<Rightarrow> csv_chars \<Rightarrow> nat \<Rightarrow> exn option \<Rightarrow> csv_reader \<Rightarrow> string \<Rightarrow> (exn + string list) option \<times> string list" where
  "midline brk d limit fin r cs = (case split_lines brk cs of [] \<Rightarrow> read_on d limit fin r [[]] | l # ls \<Rightarrow> read_on d limit fin r (l # ls))"

text \<open>What the proofs need of a way to break lines.\<close>

locale line_breaking =
  fixes brk :: line_breaks
  assumes at_lf: "brk LF cs" and only_ends: "brk c cs \<Longrightarrow> c = LF \<or> c = CR" and crlf: "\<not> brk CR (LF # cs)"
begin

lemma read_on_text: "cs \<noteq> [] \<Longrightarrow> read_on d limit fin r (split_lines brk cs) = midline brk d limit fin r cs"
  by (auto simp: midline_def split: list.split)

text \<open>A character that does not end the line moves the reader on.\<close>

lemma midline_step:
  assumes "\<not> brk c cs" and "process_char d limit (Some c) r = Inr r'"
  shows "midline brk d limit fin r (c # cs) = midline brk d limit fin r' cs"
  using assms by (auto simp: midline_def split: list.split)

text \<open>A line break inside quotes belongs to the field.\<close>

lemma midline_break:
  assumes "brk c cs" and "process_char d limit (Some c) r = Inr r'" and "rd_state r' = InQuotedField" and "cs \<noteq> []"
  shows "midline brk d limit fin r (c # cs) = midline brk d limit fin r' cs"
proof -
  have "process_line d limit [c] r = Inr r'" using assms(2,3) by (simp add: process_char_def)
  with assms show ?thesis by (simp add: midline_def read_on_text [unfolded midline_def])
qed

lemma midline_quoted:
  assumes "chars_ok d" and "length (f @ s) \<le> limit"
  shows "midline brk d limit fin \<lparr>rd_state = InQuotedField, rd_field = f, rd_fields = fs\<rparr> (concat (map (quote_char d) s) @ ch_quotechar d # cs) =
    midline brk d limit fin \<lparr>rd_state = QuoteInQuotedField, rd_field = f @ s, rd_fields = fs\<rparr> cs"
  using assms(2)
proof (induction s arbitrary: f)
  case Nil
  show ?case using assms(1)
    by (simp, intro midline_step) (auto simp: chars_ok_def process_char_def dest: only_ends)
next
  case (Cons c s)
  let ?rest = "concat (map (quote_char d) s) @ ch_quotechar d # cs"
  let ?r = "\<lambda>st g. \<lparr>rd_state = st, rd_field = g, rd_fields = fs\<rparr>"
  have IH: "midline brk d limit fin (?r InQuotedField (f @ [c])) ?rest = midline brk d limit fin (?r QuoteInQuotedField (f @ c # s)) cs"
    using Cons.IH [of "f @ [c]"] Cons.prems by simp
  have short: "length f < limit" using Cons.prems by simp
  show ?case
  proof (cases "c = ch_quotechar d")
    case True
    have "midline brk d limit fin (?r InQuotedField f) (c # c # ?rest) = midline brk d limit fin (?r QuoteInQuotedField f) (c # ?rest)"
      using assms(1) True by (intro midline_step) (auto simp: chars_ok_def process_char_def dest: only_ends)
    also have "\<dots> = midline brk d limit fin (?r InQuotedField (f @ [c])) ?rest"
      using assms(1) True short
      by (intro midline_step) (auto simp: chars_ok_def process_char_def add_char_def dest: only_ends)
    finally have "midline brk d limit fin (?r InQuotedField f) (c # c # ?rest) = midline brk d limit fin (?r InQuotedField (f @ [c])) ?rest" .
    moreover have "quote_char d c = [c, c]" using True by (simp add: quote_char_def)
    ultimately show ?thesis using IH by simp
  next
    case False
    have step: "process_char d limit (Some c) (?r InQuotedField f) = Inr (?r InQuotedField (f @ [c]))"
      using False short by (simp add: process_char_def add_char_def)
    have "midline brk d limit fin (?r InQuotedField f) (c # ?rest) = midline brk d limit fin (?r InQuotedField (f @ [c])) ?rest"
      by (cases "brk c ?rest") (use step in \<open>auto intro: midline_step midline_break\<close>)
    moreover have "quote_char d c = [c]" using False by (simp add: quote_char_def)
    ultimately show ?thesis using IH by simp
  qed
qed

lemma midline_plain:
  assumes "ch_delimiter d \<notin> set s" "LF \<notin> set s" "CR \<notin> set s" and "length (f @ s) \<le> limit"
  shows "midline brk d limit fin \<lparr>rd_state = InField, rd_field = f, rd_fields = fs\<rparr> (s @ cs) =
    midline brk d limit fin \<lparr>rd_state = InField, rd_field = f @ s, rd_fields = fs\<rparr> cs"
  using assms
proof (induction s arbitrary: f)
  case (Cons c s)
  have "midline brk d limit fin \<lparr>rd_state = InField, rd_field = f, rd_fields = fs\<rparr> (c # s @ cs) =
      midline brk d limit fin \<lparr>rd_state = InField, rd_field = f @ [c], rd_fields = fs\<rparr> (s @ cs)"
    using Cons.prems by (intro midline_step) (auto dest: only_ends simp: process_char_def add_char_def)
  with Cons.IH [of "f @ [c]"] Cons.prems show ?case by simp
qed simp

text \<open>After a field the reader is in one of three states, all of which end the field at a delimiter or a line end.\<close>

definition after_field :: "string \<Rightarrow> string list \<Rightarrow> csv_reader \<Rightarrow> bool" where
  "after_field s fs r \<longleftrightarrow> rd_state r \<in> {StartField, InField, QuoteInQuotedField} \<and> rd_field r = s \<and> rd_fields r = fs"

lemma midline_field:
  assumes "chars_ok d" and "field_ok d limit f" and "st = StartField \<or> st = StartRecord \<and> f \<noteq> (False, [])"
  shows "\<exists>r. after_field (snd f) fs r \<and>
    midline brk d limit fin \<lparr>rd_state = st, rd_field = [], rd_fields = fs\<rparr> (write_field d f @ cs) = midline brk d limit fin r cs"
proof -
  obtain q s where f: "f = (q, s)" by (cases f)
  let ?r = "\<lambda>st g. \<lparr>rd_state = st, rd_field = g, rd_fields = fs\<rparr>"
  have len: "length s \<le> limit" using assms(2) by (simp add: field_ok_def f)
  consider (quoted) q | (empty) "\<not> q" "s = []" | (plain) c s' where "\<not> q" "s = c # s'" by (cases s) auto
  then show ?thesis
  proof cases
    case quoted
    let ?rest = "concat (map (quote_char d) s) @ ch_quotechar d # cs"
    have "midline brk d limit fin (?r st []) (ch_quotechar d # ?rest) = midline brk d limit fin (?r InQuotedField []) ?rest"
      using assms(1,3) by (intro midline_step) (auto simp: chars_ok_def process_char_def in_field_start_def dest: only_ends)
    also have "\<dots> = midline brk d limit fin (?r QuoteInQuotedField s) cs"
      using midline_quoted [OF assms(1), of "[]" s] len by simp
    finally show ?thesis using quoted
      by (intro exI [of _ "?r QuoteInQuotedField s"]) (simp add: after_field_def f write_field_def)
  next
    case empty
    then show ?thesis using assms(3)
      by (intro exI [of _ "?r StartField []"]) (auto simp: after_field_def f write_field_def)
  next
    case plain
    have ok: "c \<noteq> ch_quotechar d" "c \<noteq> ch_delimiter d" "c \<noteq> LF" "c \<noteq> CR"
      "ch_delimiter d \<notin> set s'" "LF \<notin> set s'" "CR \<notin> set s'"
      using assms(2) plain by (auto simp: field_ok_def plain_ok_def f)
    have "midline brk d limit fin (?r st []) (c # s' @ cs) = midline brk d limit fin (?r InField [c]) (s' @ cs)"
      using assms(3) ok len plain
      by (intro midline_step) (auto dest: only_ends simp: process_char_def in_field_start_def add_char_def)
    also have "\<dots> = midline brk d limit fin (?r InField s) cs"
      using midline_plain [OF ok(5-7), of "[c]"] len plain by simp
    finally show ?thesis using plain
      by (intro exI [of _ "?r InField s"]) (simp add: after_field_def f write_field_def)
  qed
qed

lemma midline_delimiter:
  assumes "chars_ok d" and "after_field s fs r"
  shows "midline brk d limit fin r (ch_delimiter d # cs) =
    midline brk d limit fin \<lparr>rd_state = StartField, rd_field = [], rd_fields = fs @ [s]\<rparr> cs"
proof (intro midline_step)
  show "\<not> brk (ch_delimiter d) cs" using assms(1) by (auto simp: chars_ok_def dest: only_ends)
  show "process_char d limit (Some (ch_delimiter d)) r = Inr \<lparr>rd_state = StartField, rd_field = [], rd_fields = fs @ [s]\<rparr>"
    using assms by (auto simp: after_field_def process_char_def in_field_start_def chars_ok_def save_field_def)
qed

lemma process_eol:
  assumes "after_field s fs r" and "chars_ok d"
  shows "process_char d limit (Some LF) r = Inr \<lparr>rd_state = EatCrnl, rd_field = [], rd_fields = fs @ [s]\<rparr>"
    and "process_char d limit (Some CR) r = Inr \<lparr>rd_state = EatCrnl, rd_field = [], rd_fields = fs @ [s]\<rparr>"
  using assms by (auto simp: after_field_def process_char_def in_field_start_def chars_ok_def save_field_def)

lemma midline_eol:
  assumes "after_field s fs r" and "chars_ok d" and "eol \<in> set line_ends"
  shows "midline brk d limit fin r (eol @ cs) = (Some (Inr (fs @ [s])), split_lines brk cs)"
  using assms(3) process_eol [OF assms(1,2)]
  by (auto simp: line_ends_def midline_def at_lf crlf process_char_def)

lemma midline_row:
  assumes "chars_ok d" and "eol \<in> set line_ends" and "list_all (field_ok d limit) fs" and "fs \<noteq> []"
    and "st = StartField \<or> st = StartRecord \<and> fs \<noteq> [(False, [])]"
  shows "midline brk d limit fin \<lparr>rd_state = st, rd_field = [], rd_fields = acc\<rparr> (write_row d eol fs @ cs) =
    (Some (Inr (acc @ map snd fs)), split_lines brk cs)"
  using assms(3-5)
proof (induction fs arbitrary: st acc rule: induct_list012)
  case (2 f)
  obtain r where r: "after_field (snd f) acc r"
    "midline brk d limit fin \<lparr>rd_state = st, rd_field = [], rd_fields = acc\<rparr> (write_field d f @ eol @ cs) = midline brk d limit fin r (eol @ cs)"
    using midline_field [OF assms(1), of limit f st acc fin "eol @ cs"] 2 by auto
  then show ?case using midline_eol [OF r(1) assms(1,2)] by (simp add: write_row_def)
next
  case (3 f g fs)
  have IH: "midline brk d limit fin \<lparr>rd_state = StartField, rd_field = [], rd_fields = acc @ [snd f]\<rparr> (write_row d eol (g # fs) @ cs) =
      (Some (Inr ((acc @ [snd f]) @ map snd (g # fs))), split_lines brk cs)"
    using 3 by simp
  let ?rest = "ch_delimiter d # write_row d eol (g # fs) @ cs"
  have text_eq: "write_row d eol (f # g # fs) @ cs = write_field d f @ ?rest" by (simp add: write_row_def)
  show ?case
  proof (cases "st = StartRecord \<and> f = (False, [])")
    case False
    then obtain r where r: "after_field (snd f) acc r"
      "midline brk d limit fin \<lparr>rd_state = st, rd_field = [], rd_fields = acc\<rparr> (write_field d f @ ?rest) = midline brk d limit fin r ?rest"
      using midline_field [OF assms(1), of limit f st acc fin ?rest] 3 by auto
    show ?thesis unfolding text_eq r(2) midline_delimiter [OF assms(1) r(1)] IH by simp
  next
    case True
    have "midline brk d limit fin \<lparr>rd_state = StartRecord, rd_field = [], rd_fields = acc\<rparr> ?rest =
        midline brk d limit fin \<lparr>rd_state = StartField, rd_field = [], rd_fields = acc @ [[]]\<rparr> (write_row d eol (g # fs) @ cs)"
      using assms(1)
      by (intro midline_step) (auto simp: chars_ok_def process_char_def in_field_start_def save_field_def dest: only_ends)
    then show ?thesis using IH True unfolding text_eq by (simp add: write_field_def)
  qed
qed simp

lemma read_row_written:
  assumes "chars_ok d" and "eol \<in> set line_ends" and "row_ok d limit fs"
  shows "read_row d limit fin (split_lines brk (write_row d eol fs @ cs)) = (Some (Inr (map snd fs)), split_lines brk cs)"
proof -
  have ne: "write_row d eol fs @ cs \<noteq> []" using assms(2) by (auto simp: write_row_def line_ends_def)
  have "midline brk d limit fin \<lparr>rd_state = StartRecord, rd_field = [], rd_fields = []\<rparr> (write_row d eol fs @ cs) =
      (Some (Inr ([] @ map snd fs)), split_lines brk cs)"
    by (rule midline_row [OF assms(1,2)]) (use assms(3) in \<open>auto simp: row_ok_def\<close>)
  then show ?thesis by (simp add: read_row_def fresh_reader_def read_on_text [OF ne])
qed

lemma read_row_end [simp]: "read_row d limit None [] = (None, [])"
  by (simp add: read_row_def fresh_reader_def)

lemma read_rows_written:
  assumes "chars_ok d" and "eol \<in> set line_ends" and "list_all (row_ok d limit) rows"
  shows "read_rows d limit None (split_lines brk (write_table d eol rows)) = (map (map snd) rows, None)"
  using assms(3)
proof (induction rows)
  case Nil
  then show ?case by (simp add: write_table_def read_rows.simps)
next
  case (Cons fs rows)
  have "write_table d eol (fs # rows) = write_row d eol fs @ write_table d eol rows" by (simp add: write_table_def)
  with read_row_written [OF assms(1,2), of limit fs None "write_table d eol rows"] Cons show ?case
    by (simp add: read_rows.simps)
qed

end

interpretation universal: line_breaking breaks_line
  by unfold_locales (auto simp: breaks_line_def)

interpretation string_io: line_breaking breaks_string_io
  by unfold_locales (auto simp: breaks_string_io_def)

lemmas text_row_written = universal.read_row_written [folded text_lines_def]
lemmas text_rows_written = universal.read_rows_written [folded text_lines_def]
lemmas string_io_rows_written = string_io.read_rows_written [folded string_io_lines_def]

text \<open>The NUL-stripping generator does not touch lines without NULs.\<close>

lemma text_lines_set: "l \<in> set (text_lines cs) \<Longrightarrow> set l \<subseteq> set cs"
  unfolding text_lines_def using split_lines_concat [of breaks_line cs] by (metis UN_upper set_concat)

end
