(* ===== verification/CsvStream.thy ===== *)
theory CsvStream
  imports CsvReader
begin

text \<open>
  The record stream of one CSV object (\<open>csv_processor/source.py\<close>: \<open>_strip_nul\<close>,
  \<open>chunked_records\<close>, \<open>CsvRecordStream\<close>).  A text stream is the lines it yields and the exception it
  raises after them, if any; so is a generator of chunks.
\<close>

type_synonym text_stream = "string list \<times> exn option"

section \<open>The stream\<close>

definition strip_nul :: "string list \<Rightarrow> string list" where
  "strip_nul ls = map (filter (\<lambda>c. c \<noteq> NUL)) ls"

definition excel :: csv_chars where
  "excel = \<lparr>ch_delimiter = CHR '','', ch_quotechar = CHR 0x22\<rparr>"

definition field_size_limit :: nat where "field_size_limit = 1048576"

text \<open>\<open>for _ in range(preamble_rows): next(reader)\<close>; \<open>Inr None\<close> when the input ends there.\<close>

fun discard_rows :: "csv_chars \<Rightarrow> nat \<Rightarrow> exn option \<Rightarrow> nat \<Rightarrow> string list \<Rightarrow> exn + string list option" where
  "discard_rows d limit fin 0 ls = Inr (Some ls)"
| "discard_rows d limit fin (Suc n) ls =
     (case read_row d limit fin ls of
        (None, _) \<Rightarrow> Inr None
      | (Some (Inl e), _) \<Rightarrow> Inl e
      | (Some (Inr _), ls') \<Rightarrow> discard_rows d limit fin n ls')"

text \<open>\<open>itertools.batched\<close>: an exception of the iterator loses the batch it falls in.\<close>

function batched :: "nat \<Rightarrow> 'a list \<Rightarrow> 'a list list" where
  "batched n xs = (if n = 0 \<or> xs = [] then [] else take n xs # batched n (drop n xs))"
  by pat_completeness auto
termination by (relation "measure (\<lambda>(n, xs). length xs)") auto

declare batched.simps [simp del]

definition batches_before :: "nat \<Rightarrow> 'a list \<times> exn option \<Rightarrow> 'a list list" where
  "batches_before n out =
     (case snd out of None \<Rightarrow> batched n (fst out) | Some _ \<Rightarrow> filter (\<lambda>b. length b = n) (batched n (fst out)))"

fun number_batches :: "nat \<Rightarrow> int \<Rightarrow> string list list list \<Rightarrow> chunk list" where
  "number_batches expected n [] = []"
| "number_batches expected n (b # bs) =
     \<lparr>rc_rows = map (map CStr) b, rc_first_ordinal = n, rc_expected_field_count = expected\<rparr>
     # number_batches expected (n + int (length b)) bs"

definition chunked_records :: "csv_chars \<Rightarrow> int \<Rightarrow> int \<Rightarrow> nat \<Rightarrow> text_stream \<Rightarrow> chunk list \<times> exn option" where
  "chunked_records d chunk_size preamble_rows max_field_bytes stream =
     (case discard_rows d max_field_bytes (snd stream) (nat preamble_rows) (strip_nul (fst stream)) of
        Inl e \<Rightarrow> ([], Some e)
      | Inr None \<Rightarrow> ([], None)
      | Inr (Some ls) \<Rightarrow>
          (case read_row d max_field_bytes (snd stream) ls of
             (None, _) \<Rightarrow> ([], None)
           | (Some (Inl e), _) \<Rightarrow> ([], Some e)
           | (Some (Inr header), ls') \<Rightarrow>
               if chunk_size < 1 then ([], Some (Exn PyValueError []))
               else
                 (let out = read_rows d max_field_bytes (snd stream) ls'
                  in (number_batches (length header) 0 (batches_before (nat chunk_size) out), snd out))))"

record csv_record_stream =
  cs_text_stream :: text_stream
  cs_dialect :: "string \<times> string"
  cs_preamble_rows :: int
  cs_max_field_bytes :: nat
  cs_chunk_size :: int

definition all_chunks :: "csv_record_stream \<Rightarrow> chunk list \<times> exn option" where
  "all_chunks s =
     (case reader_chars (cs_dialect s) of
        Inl e \<Rightarrow> ([], Some e)
      | Inr d \<Rightarrow> chunked_records d (cs_chunk_size s) (cs_preamble_rows s) (cs_max_field_bytes s) (cs_text_stream s))"

definition chunks :: "int option \<Rightarrow> csv_record_stream \<Rightarrow> chunk list \<times> exn option" where
  "chunks start_ordinal s =
     (case start_ordinal of
        None \<Rightarrow> all_chunks s
      | Some k \<Rightarrow> (filter (\<lambda>c. \<not> rc_first_ordinal c + chunk_len c \<le> k) (fst (all_chunks s)), snd (all_chunks s)))"

section \<open>Batches\<close>

lemma batched_concat: "0 < n \<Longrightarrow> concat (batched n xs) = xs"
proof (induction n xs rule: batched.induct)
  case (1 n xs)
  then show ?case by (subst batched.simps) simp
qed

lemma batched_length: "b \<in> set (batched n xs) \<Longrightarrow> b \<noteq> [] \<and> length b \<le> n"
proof (induction n xs rule: batched.induct)
  case (1 n xs)
  from "1.prems" batched.simps [of n xs] have "\<not> (n = 0 \<or> xs = [])" "b = take n xs \<or> b \<in> set (batched n (drop n xs))"
    by (auto split: if_splits)
  with "1.IH" show ?case by auto
qed

text \<open>All batches but the last are full, so what an exception loses is at most the last one.\<close>

lemma batched_full: "0 < n \<Longrightarrow> filter (\<lambda>b. length b = n) (batched n xs) = batched n (take (length xs - length xs mod n) xs)"
proof (induction n xs rule: batched.induct)
  case (1 n xs)
  show ?case
  proof (cases "n \<le> length xs")
    case True
    let ?k = "length xs - length xs mod n"
    have k: "n \<le> ?k" "?k - n = length (drop n xs) - length (drop n xs) mod n"
    proof -
      have "length xs = n * (length xs div n) + length xs mod n" by simp
      moreover have "1 \<le> length xs div n" using True 1 by (simp add: Suc_leI div_greater_zero_iff)
      ultimately have "n \<le> n * (length xs div n)" by (metis mult_le_mono2 nat_mult_1_right)
      then show "n \<le> ?k" by (metis add_diff_cancel_right' mult.commute div_mult_mod_eq)
      show "?k - n = length (drop n xs) - length (drop n xs) mod n"
        using True by (simp add: le_mod_geq)
    qed
    have ne: "xs \<noteq> []" "n \<noteq> 0" using True 1 by auto
    have "batched n (take ?k xs) = take n xs # batched n (take (?k - n) (drop n xs))"
      using ne k(1) by (subst batched.simps) (auto simp: drop_take min_def)
    moreover have "batched n xs = take n xs # batched n (drop n xs)" using ne by (subst batched.simps) simp
    ultimately show ?thesis using "1.IH" ne True k(2) by simp
  next
    case False
    then have "batched n xs = (if xs = [] then [] else [xs])"
      by (subst batched.simps) (simp add: batched.simps)
    with False show ?thesis by (auto simp: batched.simps)
  qed
qed

lemma concat_batches_before:
  "0 < n \<Longrightarrow> concat (batches_before n (xs, raised)) =
     (if raised = None then xs else take (length xs - length xs mod n) xs)"
  by (auto simp: batches_before_def batched_concat batched_full split: option.split)

lemma batches_before_length: "b \<in> set (batches_before n out) \<Longrightarrow> b \<noteq> [] \<and> length b \<le> n"
  by (auto simp: batches_before_def dest: batched_length split: option.splits)

section \<open>What a record stream promises\<close>

text \<open>Ordinals start at the given number and run on without a gap; no chunk is empty.\<close>

fun contiguous :: "int \<Rightarrow> chunk list \<Rightarrow> bool" where
  "contiguous n [] = True"
| "contiguous n (c # cs) \<longleftrightarrow> rc_first_ordinal c = n \<and> rc_rows c \<noteq> [] \<and> contiguous (n + chunk_len c) cs"

definition rows_from :: "int \<Rightarrow> row list \<Rightarrow> (int \<times> row) list" where
  "rows_from n rs = zip (map (\<lambda>i. n + int i) [0..<length rs]) rs"

definition numbered_rows :: "chunk list \<Rightarrow> (int \<times> row) list" where
  "numbered_rows cs = concat (map (\<lambda>c. rows_from (rc_first_ordinal c) (rc_rows c)) cs)"

definition skips :: "int \<Rightarrow> chunk \<Rightarrow> bool" where
  "skips k c \<longleftrightarrow> rc_first_ordinal c + chunk_len c \<le> k"

lemma rows_from_append: "rows_from n (xs @ ys) = rows_from n xs @ rows_from (n + int (length xs)) ys"
proof -
  have "map (\<lambda>i. n + int i) [0..<length (xs @ ys)] =
      map (\<lambda>i. n + int i) [0..<length xs] @ map (\<lambda>i. n + int (length xs) + int i) [0..<length ys]"
    by (rule nth_equalityI) (auto simp: nth_append)
  then show ?thesis by (simp add: rows_from_def)
qed

lemma rows_from_range: "(i, r) \<in> set (rows_from n rs) \<Longrightarrow> n \<le> i \<and> i < n + int (length rs)"
  by (auto simp: rows_from_def set_zip)

locale record_stream =
  fixes stream :: "'s \<Rightarrow> chunk list \<times> exn option"
  assumes gapless: "contiguous 0 (fst (stream s))"
begin

lemma contiguous_rows: "contiguous n cs \<Longrightarrow> numbered_rows cs = rows_from n (concat (map rc_rows cs))"
  by (induction cs arbitrary: n) (simp_all add: numbered_rows_def rows_from_append, simp_all add: rows_from_def)

lemma nothing_skipped: "contiguous n cs \<Longrightarrow> k < n \<Longrightarrow> filter (\<lambda>c. \<not> skips k c) cs = cs"
proof (induction cs arbitrary: n)
  case (Cons c cs)
  from Cons.IH [of "n + chunk_len c"] Cons.prems show ?case by (simp add: skips_def)
qed simp

lemma skipped_prefix: "contiguous n cs \<Longrightarrow> filter (\<lambda>c. \<not> skips k c) cs = dropWhile (skips k) cs"
proof (induction cs arbitrary: n)
  case (Cons c cs)
  show ?case
  proof (cases "skips k c")
    case False
    then have "k < n + chunk_len c" using Cons.prems by (simp add: skips_def)
    from nothing_skipped [OF _ this] Cons.prems False show ?thesis by simp
  qed (use Cons in auto)
qed simp

text \<open>Every row is numbered by its place.\<close>

lemma numbering: "numbered_rows (fst (stream s)) = rows_from 0 (concat (map rc_rows (fst (stream s))))"
  by (rule contiguous_rows [OF gapless])

text \<open>Resuming leaves out a prefix of rows that all come before the resumption point.\<close>

lemma resuming:
  "\<exists>skipped. numbered_rows (fst (stream s)) = skipped @ numbered_rows (filter (\<lambda>c. \<not> skips k c) (fst (stream s))) \<and>
     (\<forall>(i, r) \<in> set skipped. i < k)"
proof (intro exI conjI)
  let ?cs = "fst (stream s)"
  have "?cs = takeWhile (skips k) ?cs @ filter (\<lambda>c. \<not> skips k c) ?cs"
    by (simp add: skipped_prefix [OF gapless])
  then show "numbered_rows ?cs = numbered_rows (takeWhile (skips k) ?cs) @ numbered_rows (filter (\<lambda>c. \<not> skips k c) ?cs)"
    unfolding numbered_rows_def by (metis concat_append map_append)
  have "i < k" if "(i, r) \<in> set (numbered_rows (takeWhile (skips k) ?cs))" for i r
  proof -
    from that obtain c where c: "c \<in> set (takeWhile (skips k) ?cs)" "(i, r) \<in> set (rows_from (rc_first_ordinal c) (rc_rows c))"
      by (auto simp: numbered_rows_def)
    from set_takeWhileD [OF c(1)] rows_from_range [OF c(2)] show ?thesis by (simp add: skips_def)
  qed
  then show "\<forall>(i, r) \<in> set (numbered_rows (takeWhile (skips k) ?cs)). i < k" by blast
qed

end

section \<open>The CSV stream is one\<close>

lemma number_batches_contiguous: "\<forall>b \<in> set bs. b \<noteq> [] \<Longrightarrow> contiguous n (number_batches expected n bs)"
  by (induction bs arbitrary: n) simp_all

lemma number_batches_rows: "concat (map rc_rows (number_batches expected n bs)) = map (map CStr) (concat bs)"
  by (induction bs arbitrary: n) simp_all

lemma number_batches_mem:
  "c \<in> set (number_batches expected n bs) \<Longrightarrow> rc_expected_field_count c = expected \<and> (\<exists>b \<in> set bs. length (rc_rows c) = length b)"
  by (induction bs arbitrary: n) auto

interpretation csv: record_stream "chunked_records d chunk_size preamble_rows limit" for d chunk_size preamble_rows limit
proof
  have "contiguous 0 (number_batches expected 0 (batches_before n out))" for expected n out
    by (rule number_batches_contiguous) (auto dest: batches_before_length)
  then show "contiguous 0 (fst (chunked_records d chunk_size preamble_rows limit s))" for s
    by (auto simp: chunked_records_def Let_def split: sum.split option.split prod.split)
qed

interpretation opened: record_stream all_chunks
  by unfold_locales (auto simp: all_chunks_def csv.gapless split: sum.split)

section \<open>The stream of a written file\<close>

lemma strip_nul_clean: "NUL \<notin> set cs \<Longrightarrow> strip_nul (text_lines cs) = text_lines cs"
  unfolding strip_nul_def using text_lines_set [of _ cs] by (intro map_idI filter_True) blast

lemma discard_written:
  assumes "chars_ok d" and "eol \<in> set line_ends" and "list_all (row_ok d limit) preamble"
  shows "discard_rows d limit fin (length preamble) (text_lines (write_table d eol preamble @ cs)) = Inr (Some (text_lines cs))"
  using assms(3)
proof (induction preamble)
  case Nil
  then show ?case by (simp add: write_table_def)
next
  case (Cons fs preamble)
  have "write_table d eol (fs # preamble) @ cs = write_row d eol fs @ write_table d eol preamble @ cs"
    by (simp add: write_table_def)
  with text_row_written [OF assms(1,2), of limit fs fin "write_table d eol preamble @ cs"] Cons show ?case by simp
qed

lemma written_stream:
  assumes chars: "chars_ok d" and eol: "eol \<in> set line_ends" and size: "1 \<le> chunk_size"
    and rows: "list_all (row_ok d limit) (preamble @ header # body)"
    and nul: "NUL \<notin> set (write_table d eol (preamble @ header # body))"
  defines "cs \<equiv> number_batches (length header) 0 (batches_before (nat chunk_size) (map (map snd) body, None))"
  shows "chunked_records d chunk_size (int (length preamble)) limit
      (text_lines (write_table d eol (preamble @ header # body)), None) = (cs, None)"
    and "concat (map rc_rows cs) = map (map (\<lambda>f. CStr (snd f))) body"
    and "c \<in> set cs \<Longrightarrow> rc_expected_field_count c = length header \<and> chunk_len c \<le> chunk_size"
proof -
  let ?text = "write_table d eol (preamble @ header # body)"
  have text_eq: "?text = write_table d eol preamble @ write_row d eol header @ write_table d eol body"
    by (simp add: write_table_def)
  show "chunked_records d chunk_size (int (length preamble)) limit (text_lines ?text, None) = (cs, None)"
    using size rows text_rows_written [OF chars eol, of limit body]
      text_row_written [OF chars eol, of limit header None "write_table d eol body"]
      discard_written [OF chars eol, of limit preamble None "write_row d eol header @ write_table d eol body"]
    unfolding chunked_records_def fst_conv snd_conv strip_nul_clean [OF nul] by (simp add: text_eq Let_def cs_def)
  show "concat (map rc_rows cs) = map (map (\<lambda>f. CStr (snd f))) body"
    using size by (simp add: cs_def number_batches_rows concat_batches_before comp_def)
  show "c \<in> set cs \<Longrightarrow> rc_expected_field_count c = length header \<and> chunk_len c \<le> chunk_size"
    using number_batches_mem [of c "length header" 0] batches_before_length [of _ "nat chunk_size" "(map (map snd) body, None)"] size
    unfolding cs_def by fastforce
qed

text \<open>C14: A CSV file is read back exactly: however the fields of a table were written - quoted with doubled
  quotes, or plain where that is unambiguous, with either line end, delimiters and line breaks inside quotes
  included - the stream discards the preamble, takes the header's width, and yields every row once, unchanged
  and in order, in non-empty chunks of at most \<open>chunk_size\<close> rows numbered from 0 without a gap.\<close>

theorem csv_read_back:
  assumes "chars_ok d" and "eol \<in> set line_ends" and "1 \<le> chunk_size"
    and "list_all (row_ok d limit) (preamble @ header # body)"
    and "NUL \<notin> set (write_table d eol (preamble @ header # body))"
  shows "\<exists>cs. chunked_records d chunk_size (int (length preamble)) limit
        (text_lines (write_table d eol (preamble @ header # body)), None) = (cs, None) \<and>
     concat (map rc_rows cs) = map (map (\<lambda>f. CStr (snd f))) body \<and> contiguous 0 cs \<and>
     (\<forall>c \<in> set cs. rc_expected_field_count c = length header \<and> chunk_len c \<le> chunk_size)"
  using written_stream [OF assms] csv.gapless [of d chunk_size "int (length preamble)" limit] by (metis fst_conv)

definition demo_table :: "written_field list list" where
  "demo_table = [[(False, ''a''), (False, ''b'')],
     [(True, [CHR ''x'', LF, CHR 0x22, CHR '','']), (False, [])], [(False, ''1''), (False, ''2'')]]"

lemma csv_read_back_witness:
  "\<exists>cs. chunked_records excel 1 0 99 (text_lines (write_table excel [CR, LF] demo_table), None) = (cs, None) \<and>
     concat (map rc_rows cs) = [[CStr [CHR ''x'', LF, CHR 0x22, CHR '',''], CStr []], [CStr ''1'', CStr ''2'']]"
proof -
  have split: "demo_table = [] @ hd demo_table # tl demo_table" by code_simp
  have ok: "chars_ok excel" "[CR, LF] \<in> set line_ends" "(1::int) \<le> 1"
    "list_all (row_ok excel 99) ([] @ hd demo_table # tl demo_table)"
    "NUL \<notin> set (write_table excel [CR, LF] ([] @ hd demo_table # tl demo_table))" by code_simp+
  have body: "map (map (\<lambda>f. CStr (snd f))) (tl demo_table) =
      [[CStr [CHR ''x'', LF, CHR 0x22, CHR '',''], CStr []], [CStr ''1'', CStr ''2'']]" by code_simp
  have "int (length ([] :: written_field list list)) = 0" by simp
  with csv_read_back [OF ok] show ?thesis unfolding split [symmetric] body by metis
qed


definition demo_stream :: csv_record_stream where
  "demo_stream = \<lparr>cs_text_stream = (text_lines (write_table excel [CR, LF] demo_table), None),
     cs_dialect = ('','', [CHR 0x22]), cs_preamble_rows = 0, cs_max_field_bytes = 99, cs_chunk_size = 1\<rparr>"


text \<open>A record the reader refuses ends the stream; of the rows before it only those of the open batch are lost.\<close>

lemma refused_record_ends_stream:
  assumes "discard_rows d limit fin (nat preamble) (strip_nul ls) = Inr (Some ls')"
    and "read_row d limit fin ls' = (Some (Inr header), body)" and "read_rows d limit fin body = (rows, Some e)" and "1 \<le> chunk_size"
  shows "snd (chunked_records d chunk_size preamble limit (ls, fin)) = Some e \<and>
    concat (map rc_rows (fst (chunked_records d chunk_size preamble limit (ls, fin)))) =
      map (map CStr) (take (length rows - length rows mod nat chunk_size) rows)"
  using assms by (simp add: chunked_records_def Let_def number_batches_rows concat_batches_before)

end
