(* ===== verification/HeaderDetect.thy ===== *)
theory HeaderDetect
  imports PyFloats Records
begin

text \<open>
  Header, footer and repeated-header detection on the rows of a sample
  (\<open>csv_processor/detect/header.py\<close>).  A compiled footer pattern is the test its \<open>match\<close> performs.
\<close>

section \<open>The detector\<close>

record header_detection =
  hd_header_row_index :: "int option"
  hd_raw_header :: "string list"
  hd_trimmed_header :: "string list"
  hd_preamble_row_count :: int
  hd_has_header :: bool
  hd_footer_row_indices :: "int list"
  hd_repeated_header_row_indices :: "int list"

definition looks_numeric :: "string \<Rightarrow> bool" where
  "looks_numeric value \<longleftrightarrow> py_float value \<noteq> None"

text \<open>\<open>Counter(...).most_common(1)\<close>: of the most frequent values the one seen first.\<close>

fun first_max :: "('a \<Rightarrow> nat) \<Rightarrow> 'a list \<Rightarrow> 'a option" where
  "first_max f [] = None"
| "first_max f (x # xs) = (case first_max f xs of None \<Rightarrow> Some x | Some y \<Rightarrow> if f x < f y then Some y else Some x)"

definition modal_field_count :: "string list list \<Rightarrow> nat option" where
  "modal_field_count rows = first_max (\<lambda>n. count_list (map length rows) n) (map length rows)"

definition row_is_header_shaped :: "string list \<Rightarrow> string list list \<Rightarrow> bool" where
  "row_is_header_shaped row following \<longleftrightarrow>
     row \<noteq> [] \<and> list_all (\<lambda>v. v \<noteq> []) row \<and> list_all (\<lambda>v. \<not> looks_numeric v) row \<and>
     (case modal_field_count following of None \<Rightarrow> True | Some m \<Rightarrow> length row = m)"

text \<open>
  \<open>str.casefold\<close> on the code points below 256: the Latin letters are lowered and the sharp s
  becomes two letters.  (The micro sign folds to a Greek letter no other of these characters
  folds to; it is left as it is.)
\<close>

definition casefold_char :: "char \<Rightarrow> string" where
  "casefold_char c = (let n = (of_char c :: nat) in
     if 65 \<le> n \<and> n \<le> 90 \<or> 192 \<le> n \<and> n \<le> 222 \<and> n \<noteq> 215 then [char_of (n + 32)]
     else if n = 223 then ''ss'' else [c])"

definition casefold :: "string \<Rightarrow> string" where
  "casefold s = concat (map casefold_char s)"

definition colliding_names :: "string list \<Rightarrow> string list" where
  "colliding_names names = sort (filter (\<lambda>n. 1 < length (filter (\<lambda>m. casefold m = casefold n) names)) names)"

definition reject_duplicate_header_names :: "string list \<Rightarrow> exn option" where
  "reject_duplicate_header_names raw_header =
     (if colliding_names raw_header \<noteq> []
      then Some (dp_error FileInspectionError
        [(''diagnostic_code'', VStr ''duplicate-header-names''),
         (''colliding_names'', VList (map VStr (colliding_names raw_header)))])
      else None)"

definition footer_like :: "nat \<Rightarrow> (string \<Rightarrow> bool) list \<Rightarrow> string list \<Rightarrow> bool" where
  "footer_like field_count patterns row \<longleftrightarrow>
     length row \<noteq> field_count \<or> row \<noteq> [] \<and> list_ex (\<lambda>p. p (hd row)) patterns"

definition detect_footer_rows :: "string list list \<Rightarrow> int \<Rightarrow> nat \<Rightarrow> int \<Rightarrow> (string \<Rightarrow> bool) list \<Rightarrow> int list" where
  "detect_footer_rows data_rows start field_count skip patterns =
     (let n = int (length data_rows); c = min skip n in
      if skip \<noteq> 0 then map (\<lambda>i. start + n - c + int i) [0 ..< nat c]
      else map (\<lambda>i. start + int i)
        [length data_rows - length (takeWhile (footer_like field_count patterns) (rev data_rows)) ..< length data_rows])"

definition detect_repeated_header_rows :: "string list list \<Rightarrow> int \<Rightarrow> string list \<Rightarrow> int list" where
  "detect_repeated_header_rows data_rows start raw_header =
     map (\<lambda>(i, r). start + int i) (filter (\<lambda>(i, r). r = raw_header) (enumerate 0 data_rows))"

fun find_header_row :: "nat \<Rightarrow> string list list \<Rightarrow> (nat \<times> string list) option" where
  "find_header_row i [] = None"
| "find_header_row i (row # rest) = (if row_is_header_shaped row rest then Some (i, row) else find_header_row (Suc i) rest)"

definition not_found :: header_detection where
  "not_found = \<lparr>hd_header_row_index = None, hd_raw_header = [], hd_trimmed_header = [], hd_preamble_row_count = 0,
     hd_has_header = False, hd_footer_row_indices = [], hd_repeated_header_row_indices = []\<rparr>"

text \<open>\<open>rows[i]\<close> and \<open>rows[i:]\<close>, negative positions counting from the end.\<close>

definition seq_index :: "'a list \<Rightarrow> int \<Rightarrow> 'a option" where
  "seq_index xs i =
     (let n = int (length xs); j = (if i < 0 then i + n else i)
      in if 0 \<le> j \<and> j < n then Some (xs ! nat j) else None)"

definition seq_from :: "'a list \<Rightarrow> int \<Rightarrow> 'a list" where
  "seq_from xs i = drop (nat (if i < 0 then i + int (length xs) else i)) xs"

definition header_found :: "string list list \<Rightarrow> bool \<Rightarrow> int \<Rightarrow> (string \<Rightarrow> bool) list \<Rightarrow> int \<Rightarrow> string list \<Rightarrow> header_detection" where
  "header_found rows header_trim skip patterns i raw =
     (let start = i + 1; data_rows = seq_from rows start in
      \<lparr>hd_header_row_index = Some i, hd_raw_header = raw,
       hd_trimmed_header = (if header_trim then map strip raw else raw),
       hd_preamble_row_count = i, hd_has_header = True,
       hd_footer_row_indices = detect_footer_rows data_rows start (length raw) skip patterns,
       hd_repeated_header_row_indices = detect_repeated_header_rows data_rows start raw\<rparr>)"

definition detect_header :: "string list list \<Rightarrow> int option \<Rightarrow> bool \<Rightarrow> int \<Rightarrow> (string \<Rightarrow> bool) list \<Rightarrow> exn + header_detection" where
  "detect_header rows contract_header_row header_trim skip patterns =
     (case (case contract_header_row of
              Some i \<Rightarrow> (case seq_index rows i of None \<Rightarrow> Inl (Exn PyIndexError []) | Some raw \<Rightarrow> Inr (Some (i, raw)))
            | None \<Rightarrow> Inr (map_option (\<lambda>(i, raw). (int i, raw)) (find_header_row 0 rows))) of
        Inl e \<Rightarrow> Inl e
      | Inr None \<Rightarrow> Inr not_found
      | Inr (Some (i, raw)) \<Rightarrow>
          (case reject_duplicate_header_names raw of
             Some e \<Rightarrow> Inl e
           | None \<Rightarrow> Inr (header_found rows header_trim skip patterns i raw)))"

section \<open>What is detected\<close>

lemma find_header_row_Some:
  "find_header_row n rows = Some (i, raw) \<Longrightarrow>
     \<exists>k < length rows. i = n + k \<and> rows ! k = raw \<and> row_is_header_shaped raw (drop (Suc k) rows) \<and>
       (\<forall>j < k. \<not> row_is_header_shaped (rows ! j) (drop (Suc j) rows))"
proof (induction n rows rule: find_header_row.induct)
  case (2 n row rest)
  show ?case
  proof (cases "row_is_header_shaped row rest")
    case True
    then show ?thesis using "2.prems" by (intro exI [of _ 0]) auto
  next
    case False
    with 2 obtain k where k: "k < length rest" "i = Suc n + k" "rest ! k = raw" "row_is_header_shaped raw (drop (Suc k) rest)"
      "\<forall>j < k. \<not> row_is_header_shaped (rest ! j) (drop (Suc j) rest)" by auto
    have "\<not> row_is_header_shaped ((row # rest) ! j) (drop (Suc j) (row # rest))" if "j < Suc k" for j
      using k(5) False that by (cases j) auto
    with k show ?thesis by (intro exI [of _ "Suc k"]) auto
  qed
qed simp

lemma find_header_row_None:
  "find_header_row n rows = None \<Longrightarrow> j < length rows \<Longrightarrow> \<not> row_is_header_shaped (rows ! j) (drop (Suc j) rows)"
proof (induction n rows arbitrary: j rule: find_header_row.induct)
  case (2 n row rest)
  then show ?case by (cases j) (auto split: if_splits)
qed simp

lemma no_collision_distinct:
  assumes "colliding_names names = []"
  shows "distinct (map casefold names)"
proof -
  have "length (filter (\<lambda>m. casefold m = casefold n) names) \<le> 1" if "n \<in> set names" for n
    using that arg_cong [OF assms, of set] by (auto simp: colliding_names_def not_less)
  then show ?thesis
  proof (induction names)
    case (Cons a names)
    have "casefold a \<notin> casefold ` set names"
      using Cons.prems [of a] by (auto simp: filter_empty_conv image_iff)
    moreover have "length (filter (\<lambda>m. casefold m = casefold n) names) \<le> 1" if "n \<in> set names" for n
      using Cons.prems [of n] that by (auto split: if_splits)
    ultimately show ?case using Cons.IH by simp
  qed simp
qed

lemma shift_range: "map (\<lambda>i. int a + 1 + int i) [m..<n] = map int [Suc a + m..<Suc a + n]"
  by (rule nth_equalityI) (auto simp del: upt_Suc)

text \<open>The footer is the longest run of footer-like rows at the end.\<close>

lemma footer_rows_suffix:
  fixes data_rows :: "'a list" and P :: "'a \<Rightarrow> bool"
  defines "m \<equiv> length data_rows - length (takeWhile P (rev data_rows))"
  shows "m \<le> length data_rows" and "\<forall>r \<in> set (drop m data_rows). P r" and "0 < m \<Longrightarrow> \<not> P (data_rows ! (m - 1))"
proof -
  let ?t = "takeWhile P (rev data_rows)"
  have len: "length ?t \<le> length data_rows" using length_takeWhile_le [of P "rev data_rows"] by simp
  show "m \<le> length data_rows" by (simp add: m_def)
  have "drop m data_rows = rev ?t"
    using takeWhile_eq_take [of P "rev data_rows"] unfolding m_def take_rev by (metis rev_rev_ident)
  then show "\<forall>r \<in> set (drop m data_rows). P r" by (auto dest: set_takeWhileD)
  assume "0 < m"
  then have k: "length ?t < length (rev data_rows)" by (simp add: m_def)
  then have "\<not> P (rev data_rows ! length ?t)" by (rule nth_length_takeWhile)
  moreover have "rev data_rows ! length ?t = data_rows ! (m - 1)" using k by (simp add: rev_nth m_def)
  ultimately show "\<not> P (data_rows ! (m - 1))" by simp
qed

text \<open>Header detection without a contracted row is decided by the first header-shaped row: it is found
  exactly when some row is header-shaped; the header is then the first such row, its names are pairwise different
  after case folding, the rows before it are the preamble, and the footer is the longest run of footer-like rows
  at the end of the data.\<close>

theorem detected_header_first:
  "case detect_header rows None trim 0 patterns of
     Inl e \<Rightarrow> exn_class e = FileInspectionError
   | Inr h \<Rightarrow>
       (case hd_header_row_index h of
          None \<Rightarrow> (\<forall>j < length rows. \<not> row_is_header_shaped (rows ! j) (drop (Suc j) rows))
        | Some i \<Rightarrow> \<exists>k m. i = int k \<and> k < m \<and> m \<le> length rows \<and> hd_raw_header h = rows ! k \<and>
            row_is_header_shaped (rows ! k) (drop (Suc k) rows) \<and>
            (\<forall>j < k. \<not> row_is_header_shaped (rows ! j) (drop (Suc j) rows)) \<and>
            hd_preamble_row_count h = i \<and> distinct (map casefold (hd_raw_header h)) \<and>
            hd_footer_row_indices h = map int [m..<length rows] \<and>
            (\<forall>r \<in> set (drop m rows). footer_like (length (rows ! k)) patterns r) \<and>
            (Suc k < m \<longrightarrow> \<not> footer_like (length (rows ! k)) patterns (rows ! (m - 1))))"
proof (cases "find_header_row 0 rows")
  case None
  then show ?thesis using find_header_row_None [OF None]
    by (auto simp: detect_header_def not_found_def)
next
  case (Some hit)
  obtain i raw where hit: "hit = (i, raw)" by (cases hit)
  from find_header_row_Some [of 0 rows i raw] Some hit obtain k where
    k: "i = k" "k < length rows" "rows ! k = raw" "row_is_header_shaped raw (drop (Suc k) rows)"
      "\<forall>j < k. \<not> row_is_header_shaped (rows ! j) (drop (Suc j) rows)" by auto
  show ?thesis
  proof (cases "reject_duplicate_header_names raw")
    case (Some e)
    then show ?thesis using \<open>find_header_row 0 rows = Some hit\<close> hit
      by (auto simp: detect_header_def reject_duplicate_header_names_def dp_error_def reserved_context_keys_def split: if_splits)
  next
    case None
    let ?data = "drop (Suc k) rows" and ?P = "footer_like (length raw) patterns"
    define m0 where "m0 = length ?data - length (takeWhile ?P (rev ?data))"
    have run: "detect_header rows None trim 0 patterns = Inr (header_found rows trim 0 patterns (int k) raw)"
      using \<open>find_header_row 0 rows = Some hit\<close> hit k(1) None by (simp add: detect_header_def)
    have data: "seq_from rows (int k + 1) = ?data" by (simp add: seq_from_def nat_add_distrib)
    have footers: "hd_footer_row_indices (header_found rows trim 0 patterns (int k) raw) = map int [Suc k + m0..<length rows]"
    proof -
      have "hd_footer_row_indices (header_found rows trim 0 patterns (int k) raw) =
          map (\<lambda>i. int k + 1 + int i) [m0..<length ?data]"
        by (simp add: header_found_def Let_def data detect_footer_rows_def m0_def)
      also have "\<dots> = map int [Suc k + m0..<Suc k + length ?data]" by (rule shift_range)
      also have "Suc k + length ?data = length rows" using k(2) by simp
      finally show ?thesis .
    qed
    have "distinct (map casefold raw)"
      using None no_collision_distinct by (auto simp: reject_duplicate_header_names_def split: if_splits)
    moreover have "\<forall>r \<in> set (drop (Suc k + m0) rows). ?P r"
      using footer_rows_suffix(2) [where P = ?P and data_rows = ?data] by (simp add: m0_def drop_drop add.commute)
    moreover have "Suc k < Suc k + m0 \<longrightarrow> \<not> ?P (rows ! (Suc k + m0 - 1))"
    proof
      assume "Suc k < Suc k + m0"
      then have m0: "0 < m0" by simp
      then have "\<not> ?P (?data ! (m0 - 1))"
        unfolding m0_def by (rule footer_rows_suffix(3))
      moreover have "?data ! (m0 - 1) = rows ! (Suc k + m0 - 1)" using k(2) m0 by simp
      ultimately show "\<not> ?P (rows ! (Suc k + m0 - 1))" by simp
    qed
    moreover have "Suc k + m0 \<le> length rows" using k(2) by (simp add: m0_def)
    ultimately show ?thesis unfolding run
      using k footers
      by (simp add: header_found_def Let_def) (intro exI [of _ "Suc k + m0"], simp add: data header_found_def Let_def)
  qed
qed

definition demo_rows :: "string list list" where
  "demo_rows = [[''report''], [''id'', ''name''], [''1'', ''x''], [''2'', ''y''], [''end'']]"

lemma detected_header_first_witness:
  "\<exists>m. hd_raw_header (header_found demo_rows False 0 [] 1 [''id'', ''name'']) = demo_rows ! 1 \<and>
     (\<forall>j < 1. \<not> row_is_header_shaped (demo_rows ! j) (drop (Suc j) demo_rows)) \<and>
     map int [m..<5] = [4] \<and> \<not> footer_like 2 [] (demo_rows ! (m - 1))"
proof -
  have run: "detect_header demo_rows None False 0 [] = Inr (header_found demo_rows False 0 [] 1 [''id'', ''name''])"
    "hd_header_row_index (header_found demo_rows False 0 [] 1 [''id'', ''name'']) = Some 1"
    "hd_footer_row_indices (header_found demo_rows False 0 [] 1 [''id'', ''name'']) = [4]"
    "length (demo_rows ! Suc 0) = 2" "length demo_rows = 5" by code_simp+
  from detected_header_first [of demo_rows "[]" False] obtain m where
    m: "hd_raw_header (header_found demo_rows False 0 [] 1 [''id'', ''name'']) = demo_rows ! 1"
      "\<forall>j < 1. \<not> row_is_header_shaped (demo_rows ! j) (drop (Suc j) demo_rows)" "1 < m"
      "[4] = map int [m..<5]" "Suc 1 < m \<longrightarrow> \<not> footer_like 2 [] (demo_rows ! (m - 1))"
    unfolding run by (auto simp: run)
  have "m \<noteq> Suc 1" using m(4) by (auto simp: upt_rec)
  with m show ?thesis by (intro exI [of _ m]) auto
qed

text \<open>
  A column named like a float special value is taken for a number: the header row is passed over
  and the first record becomes the header.
\<close>

lemma special_name_moves_header:
  "map_sum id hd_raw_header (detect_header [[''id'', ''inf''], [''a'', ''b''], [''c'', ''d'']] None False 0 []) =
     Inr [''a'', ''b'']"
  by code_simp

end
