(* ===== verification/Compression.thy ===== *)
theory Compression
  imports Records
begin

text \<open>
  Compressed sources and the decompression-bomb guard (\<open>csv_processor/compression.py\<close>).  Bytes are
  characters.  The decompressor below the guard is any stream that keeps the contract
  \<open>byte_source\<close>: a read returns at most what was asked for and nothing only at the end.
\<close>

section \<open>Byte streams\<close>

text \<open>
  A stream with its remaining content, the lengths its next reads are cut to (a short read never
  returns nothing while content is left), and the exception it raises at the end of the content.
\<close>

record inner_stream =
  is_content :: string
  is_short :: "nat list"
  is_fault :: "exn option"

definition read_length :: "nat \<Rightarrow> inner_stream \<Rightarrow> nat" where
  "read_length n s = (case is_short s of [] \<Rightarrow> n | k # _ \<Rightarrow> min n (max 1 k))"

definition inner_read :: "nat \<Rightarrow> inner_stream \<Rightarrow> exn + string \<times> inner_stream" where
  "inner_read n s =
     (if is_content s = [] \<and> is_fault s \<noteq> None then Inl (the (is_fault s))
      else Inr (take (read_length n s) (is_content s),
        s\<lparr>is_content := drop (read_length n s) (is_content s), is_short := tl (is_short s)\<rparr>))"

section \<open>The guard\<close>

definition bounded_read_chunk_bytes :: int where "bounded_read_chunk_bytes = 65536"

definition default_max_decompressed_bytes :: int where "default_max_decompressed_bytes = 512 * 1024 * 1024"

record 'i bomb_guard =
  bg_inner :: 'i
  bg_max_decompressed_bytes :: int
  bg_bytes_read :: int

definition new_guard :: "'i \<Rightarrow> int \<Rightarrow> 'i bomb_guard" where
  "new_guard inner limit = \<lparr>bg_inner = inner, bg_max_decompressed_bytes = limit, bg_bytes_read = 0\<rparr>"

definition bomb_error :: "int \<Rightarrow> int \<Rightarrow> exn" where
  "bomb_error limit n = dp_error FileInspectionError
     [(''diagnostic_code'', VStr ''decompression-bomb-exceeded''), (''max_decompressed_bytes'', VInt limit),
      (''bytes_read_before_trip'', VInt n)]"

definition wanted :: "int option \<Rightarrow> int" where
  "wanted requested =
     (case requested of None \<Rightarrow> bounded_read_chunk_bytes
      | Some n \<Rightarrow> if n < 0 then bounded_read_chunk_bytes else min n bounded_read_chunk_bytes)"

type_synonym 'i reader = "nat \<Rightarrow> 'i \<Rightarrow> exn + string \<times> 'i"

definition read_one_bounded_chunk :: "'i reader \<Rightarrow> int option \<Rightarrow> 'i bomb_guard \<Rightarrow> (exn + string) \<times> 'i bomb_guard" where
  "read_one_bounded_chunk rd requested g =
     (case rd (nat (wanted requested)) (bg_inner g) of
        Inl e \<Rightarrow> (Inl e, g)
      | Inr (chunk, inner) \<Rightarrow>
          (let n = bg_bytes_read g + int (length chunk); g' = g\<lparr>bg_inner := inner, bg_bytes_read := n\<rparr>
           in if bg_max_decompressed_bytes g < n then (Inl (bomb_error (bg_max_decompressed_bytes g) n), g')
              else (Inr chunk, g')))"

definition read1 :: "'i reader \<Rightarrow> int \<Rightarrow> 'i bomb_guard \<Rightarrow> (exn + string) \<times> 'i bomb_guard" where
  "read1 rd n g = read_one_bounded_chunk rd (Some n) g"

definition room :: "'i bomb_guard \<Rightarrow> nat" where
  "room g = nat (bg_max_decompressed_bytes g + 1 - bg_bytes_read g)"

lemma chunk_shrinks_room:
  assumes "read_one_bounded_chunk rd req g = (Inr chunk, g')" and "chunk \<noteq> []"
  shows "room g' < room g"
proof -
  from assms(1) have "bg_max_decompressed_bytes g' = bg_max_decompressed_bytes g"
    "bg_bytes_read g' = bg_bytes_read g + int (length chunk)" "bg_bytes_read g' \<le> bg_max_decompressed_bytes g"
    by (auto simp: read_one_bounded_chunk_def Let_def split: sum.splits if_splits)
  moreover have "0 < length chunk" using assms(2) by simp
  ultimately show ?thesis unfolding room_def by linarith
qed

text \<open>Both loops end because every chunk uses up some of the allowance.\<close>

function read_all :: "'i reader \<Rightarrow> 'i bomb_guard \<Rightarrow> (exn + string) \<times> 'i bomb_guard" where
  "read_all rd g =
     (case read_one_bounded_chunk rd None g of
        (Inl e, g') \<Rightarrow> (Inl e, g')
      | (Inr chunk, g') \<Rightarrow>
          (if chunk = [] then (Inr [], g')
           else (case read_all rd g' of
                   (Inl e, g'') \<Rightarrow> (Inl e, g'')
                 | (Inr rest, g'') \<Rightarrow> (Inr (chunk @ rest), g''))))"
  by pat_completeness auto
termination
  by (relation "measure (\<lambda>(rd, g). room g)") (auto dest: chunk_shrinks_room [OF sym])

function read_size :: "'i reader \<Rightarrow> int \<Rightarrow> 'i bomb_guard \<Rightarrow> (exn + string) \<times> 'i bomb_guard" where
  "read_size rd remaining g =
     (if remaining \<le> 0 then (Inr [], g)
      else
        (case read_one_bounded_chunk rd (Some remaining) g of
           (Inl e, g') \<Rightarrow> (Inl e, g')
         | (Inr chunk, g') \<Rightarrow>
             (if chunk = [] then (Inr [], g')
              else (case read_size rd (remaining - int (length chunk)) g' of
                      (Inl e, g'') \<Rightarrow> (Inl e, g'')
                    | (Inr rest, g'') \<Rightarrow> (Inr (chunk @ rest), g'')))))"
  by pat_completeness auto
termination
  by (relation "measure (\<lambda>(rd, remaining, g). room g)") (auto dest: chunk_shrinks_room [OF sym])

declare read_all.simps [simp del] read_size.simps [simp del]

definition guard_read :: "'i reader \<Rightarrow> int option \<Rightarrow> 'i bomb_guard \<Rightarrow> (exn + string) \<times> 'i bomb_guard" where
  "guard_read rd requested g =
     (case requested of None \<Rightarrow> read_all rd g | Some n \<Rightarrow> if 0 \<le> n then read_size rd n g else read_all rd g)"

text \<open>A caller's reads, up to the first exception.\<close>

fun guard_reads :: "'i reader \<Rightarrow> int option list \<Rightarrow> 'i bomb_guard \<Rightarrow> (exn + string) \<times> 'i bomb_guard" where
  "guard_reads rd [] g = (Inr [], g)"
| "guard_reads rd (req # reqs) g =
     (case guard_read rd req g of
        (Inl e, g') \<Rightarrow> (Inl e, g')
      | (Inr bs, g') \<Rightarrow> (case guard_reads rd reqs g' of
            (Inl e, g'') \<Rightarrow> (Inl e, g'')
          | (Inr rest, g'') \<Rightarrow> (Inr (bs @ rest), g'')))"

section \<open>The contract of a stream, and the guard under it\<close>

locale byte_source =
  fixes rd :: "'i reader" and content :: "'i \<Rightarrow> string" and fault :: "'i \<Rightarrow> exn option"
  assumes rd_data: "rd n s = Inr (bs, s') \<Longrightarrow> content s = bs @ content s' \<and> length bs \<le> n \<and> fault s' = fault s"
    and rd_progress: "rd n s = Inr ([], s') \<Longrightarrow> 0 < n \<Longrightarrow> content s = [] \<and> fault s = None"
    and rd_fault: "rd n s = Inl e \<Longrightarrow> content s = [] \<and> fault s = Some e"
begin

text \<open>What a bounded read can do.\<close>

lemma bounded_chunk_cases:
  obtains (fault) e where "read_one_bounded_chunk rd req g = (Inl e, g)" "content (bg_inner g) = []" "fault (bg_inner g) = Some e"
  | (trip) chunk g' where "read_one_bounded_chunk rd req g = (Inl (bomb_error (bg_max_decompressed_bytes g) (bg_bytes_read g')), g')"
      "content (bg_inner g) = chunk @ content (bg_inner g')" "bg_bytes_read g' = bg_bytes_read g + int (length chunk)"
      "bg_max_decompressed_bytes g < bg_bytes_read g'" "length chunk \<le> 65536"
      "bg_max_decompressed_bytes g' = bg_max_decompressed_bytes g"
  | (data) chunk g' where "read_one_bounded_chunk rd req g = (Inr chunk, g')"
      "content (bg_inner g) = chunk @ content (bg_inner g')" "bg_bytes_read g' = bg_bytes_read g + int (length chunk)"
      "bg_bytes_read g' \<le> bg_max_decompressed_bytes g" "length chunk \<le> 65536" "fault (bg_inner g') = fault (bg_inner g)"
      "bg_max_decompressed_bytes g' = bg_max_decompressed_bytes g"
      "chunk = [] \<Longrightarrow> 0 < wanted req \<Longrightarrow> content (bg_inner g) = [] \<and> fault (bg_inner g) = None"
      "length chunk \<le> nat (wanted req)"
proof (cases "rd (nat (wanted req)) (bg_inner g)")
  case (Inl e)
  with rd_fault [OF Inl] show ?thesis by (intro fault) (simp_all add: read_one_bounded_chunk_def)
next
  case (Inr out)
  obtain chunk inner where out: "out = (chunk, inner)" by fastforce
  have "nat (wanted req) \<le> 65536"
    by (auto simp: wanted_def bounded_read_chunk_bytes_def split: option.split)
  with rd_data [OF Inr [unfolded out]] have d: "content (bg_inner g) = chunk @ content inner" "length chunk \<le> 65536"
    "fault inner = fault (bg_inner g)" "length chunk \<le> nat (wanted req)" by auto
  let ?g = "g\<lparr>bg_inner := inner, bg_bytes_read := bg_bytes_read g + int (length chunk)\<rparr>"
  show ?thesis
  proof (cases "bg_max_decompressed_bytes g < bg_bytes_read g + int (length chunk)")
    case True
    with Inr out d show ?thesis by (intro trip [of ?g chunk]) (simp_all add: read_one_bounded_chunk_def Let_def)
  next
    case False
    have "content (bg_inner g) = [] \<and> fault (bg_inner g) = None" if "chunk = []" "0 < wanted req"
      using rd_progress [of "nat (wanted req)" "bg_inner g" inner] Inr out that by simp
    with Inr out d False show ?thesis by (intro data [of chunk ?g]) (simp_all add: read_one_bounded_chunk_def Let_def)
  qed
qed

text \<open>Reading everything: the whole content, the stream's own fault, or the guard's error.\<close>

definition everything :: "'i bomb_guard \<Rightarrow> (exn + string) \<Rightarrow> bool" where
  "everything g r \<longleftrightarrow>
     (if bg_max_decompressed_bytes g < bg_bytes_read g + int (length (content (bg_inner g)))
      then \<exists>n. r = Inl (bomb_error (bg_max_decompressed_bytes g) n)
      else r = (case fault (bg_inner g) of Some e \<Rightarrow> Inl e | None \<Rightarrow> Inr (content (bg_inner g))))"

lemma read_all_everything: "bg_bytes_read g \<le> bg_max_decompressed_bytes g \<Longrightarrow> everything g (fst (read_all rd g))"
proof (induction "room g" arbitrary: g rule: less_induct)
  case less
  show ?case
  proof (cases rule: bounded_chunk_cases [of None g])
    case (fault e)
    then show ?thesis using less.prems by (subst read_all.simps) (simp add: everything_def)
  next
    case (trip chunk g')
    then show ?thesis by (subst read_all.simps) (auto simp: everything_def)
  next
    case (data chunk g')
    show ?thesis
    proof (cases "chunk = []")
      case True
      with data show ?thesis
        by (subst read_all.simps) (auto simp: everything_def wanted_def bounded_read_chunk_bytes_def)
    next
      case False
      have "everything g' (fst (read_all rd g'))"
        using less.hyps chunk_shrinks_room [OF data(1) False] data(3,4,7) by simp
      with data False show ?thesis
        by (subst read_all.simps) (auto simp: everything_def split: prod.splits sum.splits option.splits if_splits)
    qed
  qed
qed

text \<open>What any read takes from the stream: at most one chunk beyond the ceiling, and nothing past it is returned.\<close>

definition contained :: "'i bomb_guard \<Rightarrow> (exn + string) \<times> 'i bomb_guard \<Rightarrow> bool" where
  "contained g out \<longleftrightarrow>
     bg_max_decompressed_bytes (snd out) = bg_max_decompressed_bytes g \<and>
     (\<exists>taken. content (bg_inner g) = taken @ content (bg_inner (snd out)) \<and>
        bg_bytes_read (snd out) = bg_bytes_read g + int (length taken) \<and>
        bg_bytes_read (snd out) \<le> bg_max_decompressed_bytes g + 65536 \<and>
        (\<forall>bs. fst out = Inr bs \<longrightarrow> bs = taken \<and> bg_bytes_read (snd out) \<le> bg_max_decompressed_bytes g))"

lemma contained_chunk:
  "bg_bytes_read g \<le> bg_max_decompressed_bytes g \<Longrightarrow> contained g (read_one_bounded_chunk rd req g)"
  by (cases rule: bounded_chunk_cases [of req g]) (auto simp: contained_def)

lemma contained_trans:
  assumes "contained g (Inr a, g')"
  shows "contained g' (Inl e, g'') \<Longrightarrow> contained g (Inl e, g'')"
    and "contained g' (Inr b, g'') \<Longrightarrow> contained g (Inr (a @ b), g'')"
  using assms by (fastforce simp: contained_def)+

lemma contained_chunk_small:
  assumes "bg_bytes_read g \<le> bg_max_decompressed_bytes g" and "read_one_bounded_chunk rd req g = (Inr chunk, g')"
  shows "contained g (Inr chunk, g')" and "bg_bytes_read g' \<le> bg_max_decompressed_bytes g'"
  using contained_chunk [OF assms(1), of req] assms(2) by (auto simp: contained_def)

lemma contained_read_all: "bg_bytes_read g \<le> bg_max_decompressed_bytes g \<Longrightarrow> contained g (read_all rd g)"
proof (induction "room g" arbitrary: g rule: less_induct)
  case less
  obtain r g' where step: "read_one_bounded_chunk rd None g = (r, g')" by fastforce
  show ?case
  proof (cases r)
    case (Inl e)
    with contained_chunk [OF less.prems, of None] step show ?thesis by (subst read_all.simps) simp
  next
    case (Inr chunk)
    have w: "contained g (Inr chunk, g')" "bg_bytes_read g' \<le> bg_max_decompressed_bytes g'"
      using contained_chunk_small [OF less.prems] step Inr by auto
    show ?thesis
    proof (cases "chunk = []")
      case False
      have "contained g' (read_all rd g')"
        using less.hyps [OF chunk_shrinks_room [OF step [unfolded Inr] False] w(2)] .
      with step Inr False show ?thesis
        by (subst read_all.simps) (auto split: prod.split sum.split intro: contained_trans [OF w(1)])
    qed (use w step Inr in \<open>subst read_all.simps, simp\<close>)
  qed
qed

lemma contained_read_size: "bg_bytes_read g \<le> bg_max_decompressed_bytes g \<Longrightarrow> contained g (read_size rd n g)"
proof (induction "room g" arbitrary: g n rule: less_induct)
  case less
  obtain r g' where step: "read_one_bounded_chunk rd (Some n) g = (r, g')" by fastforce
  show ?case
  proof (cases "n \<le> 0")
    case True
    then show ?thesis using less.prems by (subst read_size.simps) (simp add: contained_def)
  next
    case pos: False
    show ?thesis
    proof (cases r)
      case (Inl e)
      with contained_chunk [OF less.prems, of "Some n"] step pos show ?thesis by (subst read_size.simps) simp
    next
      case (Inr chunk)
      have w: "contained g (Inr chunk, g')" "bg_bytes_read g' \<le> bg_max_decompressed_bytes g'"
        using contained_chunk_small [OF less.prems] step Inr by auto
      show ?thesis
      proof (cases "chunk = []")
        case False
        have "contained g' (read_size rd (n - int (length chunk)) g')"
          using less.hyps [OF chunk_shrinks_room [OF step [unfolded Inr] False] w(2)] .
        with step Inr False pos show ?thesis
          by (subst read_size.simps) (auto split: prod.split sum.split intro: contained_trans [OF w(1)])
      qed (use w step Inr pos in \<open>subst read_size.simps, simp\<close>)
    qed
  qed
qed

lemma contained_guard_read: "bg_bytes_read g \<le> bg_max_decompressed_bytes g \<Longrightarrow> contained g (guard_read rd req g)"
  by (auto simp: guard_read_def contained_read_all contained_read_size split: option.split)

lemma contained_guard_reads: "bg_bytes_read g \<le> bg_max_decompressed_bytes g \<Longrightarrow> contained g (guard_reads rd reqs g)"
proof (induction reqs arbitrary: g)
  case Nil
  then show ?case by (simp add: contained_def)
next
  case (Cons req reqs)
  obtain r g' where step: "guard_read rd req g = (r, g')" by fastforce
  have w: "contained g (r, g')" using contained_guard_read [OF Cons.prems, of req] by (simp add: step)
  show ?case
  proof (cases r)
    case (Inr bs)
    then have "bg_bytes_read g' \<le> bg_max_decompressed_bytes g'" using w by (auto simp: contained_def)
    from Cons.IH [OF this] step Inr show ?thesis
      by (auto split: prod.split sum.split intro: contained_trans [OF w [unfolded Inr]])
  qed (use w step in simp)
qed

lemma reads_taken:
  assumes "bg_bytes_read g \<le> bg_max_decompressed_bytes g"
  shows "\<exists>taken. content (bg_inner g) = taken @ content (bg_inner (snd (guard_reads rd reqs g))) \<and>
    bg_bytes_read g + int (length taken) \<le> bg_max_decompressed_bytes g + 65536"
  using contained_guard_reads [OF assms, of reqs] by (auto simp: contained_def)

text \<open>Reading a number of bytes returns that many, fewer only at the end.\<close>

lemma read_size_exact:
  "bg_bytes_read g \<le> bg_max_decompressed_bytes g \<Longrightarrow> 0 \<le> n \<Longrightarrow> read_size rd n g = (Inr bs, g') \<Longrightarrow>
     int (length bs) \<le> n \<and> (int (length bs) < n \<longrightarrow> content (bg_inner g') = [] \<and> fault (bg_inner g') = None)"
proof (induction "room g" arbitrary: g n bs g' rule: less_induct)
  case less
  show ?case
  proof (cases "n = 0")
    case True
    with less.prems(3) show ?thesis by (subst (asm) read_size.simps) simp
  next
    case False
    with less.prems(2) have pos: "0 < n" by simp
    show ?thesis
    proof (cases rule: bounded_chunk_cases [of "Some n" g])
      case (fault e)
      with less.prems(3) pos show ?thesis by (subst (asm) read_size.simps) simp
    next
      case (trip chunk h)
      with less.prems(3) pos show ?thesis by (subst (asm) read_size.simps) simp
    next
      case (data chunk h)
      have want: "0 < wanted (Some n)" using pos by (simp add: wanted_def bounded_read_chunk_bytes_def)
      show ?thesis
      proof (cases "chunk = []")
        case True
        with data want less.prems(3) pos show ?thesis by (subst (asm) read_size.simps) auto
      next
        case False
        have small: "int (length chunk) \<le> n" using data(9) pos by (auto simp: wanted_def split: if_splits)
        from less.prems(3) pos data(1) False obtain rest where rest: "read_size rd (n - int (length chunk)) h = (Inr rest, g')" "bs = chunk @ rest"
          by (subst (asm) read_size.simps) (auto split: prod.splits sum.splits)
        from less.hyps [OF chunk_shrinks_room [OF data(1) False] _ _ rest(1)] small data(4,7) rest(2) show ?thesis by simp
      qed
    qed
  qed
qed

end

interpretation inner: byte_source inner_read is_content is_fault
  by unfold_locales (auto simp: inner_read_def read_length_def split: if_splits list.splits)

text \<open>C17: A guarded stream never hands out more than its ceiling: reading everything returns the whole
  decompressed content when it fits, with the decompressor's own exception when it ends in one, and raises
  \<open>decompression-bomb-exceeded\<close> exactly when the content is longer - and whatever is read, in one call
  or in many up to the first exception, no more than 65,536 bytes beyond the ceiling are ever taken from the decompressor.\<close>

theorem bomb_guard_exact:
  assumes "0 \<le> limit"
  shows "(case fst (guard_read inner_read None (new_guard s limit)) of
      Inl e \<Rightarrow> if limit < int (length (is_content s)) then \<exists>n. e = bomb_error limit n else is_fault s = Some e
    | Inr bs \<Rightarrow> bs = is_content s \<and> int (length bs) \<le> limit \<and> is_fault s = None) \<and>
    (\<forall>reqs. int (length (is_content s)) - int (length (is_content (bg_inner (snd (guard_reads inner_read reqs (new_guard s limit)))))) \<le> limit + 65536)"
proof
  show "case fst (guard_read inner_read None (new_guard s limit)) of
      Inl e \<Rightarrow> if limit < int (length (is_content s)) then \<exists>n. e = bomb_error limit n else is_fault s = Some e
    | Inr bs \<Rightarrow> bs = is_content s \<and> int (length bs) \<le> limit \<and> is_fault s = None"
    using inner.read_all_everything [of "new_guard s limit"] assms
    by (auto simp: new_guard_def guard_read_def inner.everything_def split: sum.splits option.splits if_splits)
next
  show "\<forall>reqs. int (length (is_content s)) - int (length (is_content (bg_inner (snd (guard_reads inner_read reqs (new_guard s limit)))))) \<le> limit + 65536"
  proof
    fix reqs
    from inner.reads_taken [of "new_guard s limit" reqs] assms
    obtain taken where "is_content s = taken @ is_content (bg_inner (snd (guard_reads inner_read reqs (new_guard s limit))))"
      "int (length taken) \<le> limit + 65536" by (auto simp: new_guard_def)
    then show "int (length (is_content s)) - int (length (is_content (bg_inner (snd (guard_reads inner_read reqs (new_guard s limit)))))) \<le> limit + 65536"
      by (metis add.commute add_diff_cancel_right' length_append of_nat_add)
  qed
qed

lemma bomb_guard_exact_witness:
  "fst (guard_read inner_read None (new_guard \<lparr>is_content = ''abcd'', is_short = [1, 2], is_fault = None\<rparr> 4)) = Inr ''abcd'' \<and>
   (\<exists>n. fst (guard_read inner_read None (new_guard \<lparr>is_content = ''abcd'', is_short = [1, 2], is_fault = None\<rparr> 3)) = Inl (bomb_error 3 n))"
proof -
  have "(0::int) \<le> 4" "(0::int) \<le> 3" by simp_all
  from this [THEN bomb_guard_exact, THEN conjunct1, of "\<lparr>is_content = ''abcd'', is_short = [1, 2], is_fault = None\<rparr>"]
  show ?thesis by (auto split: sum.splits)
qed

end
