(* ===== verification/DigitTexts.thy ===== *)
theory DigitTexts
  imports PyNumbers
begin

text \<open>Texts of decimal digits: their value, its size, and that it prints back.\<close>

lemma digit_val_less: "is_digit c \<Longrightarrow> digit_val c < 10"
  unfolding is_digit_def digit_val_def Let_def by linarith

lemma digit_char_val: "is_digit c \<Longrightarrow> digit_char (digit_val c) = c"
  by (auto simp: is_digit_def digit_val_def digit_char_def Let_def)

lemma digit_not_space: "is_digit c \<Longrightarrow> \<not> is_space c"
  by (auto simp: is_digit_def is_space_def Let_def)

lemma digits_bound: "list_all is_digit s \<Longrightarrow> nat_of_digits s < 10 ^ length s"
proof (induction s rule: rev_induct)
  case (snoc c s)
  then have "digit_val c < 10" by (simp add: digit_val_less)
  with snoc show ?case by simp
qed simp

lemma remove_underscores_digits: "list_all is_digit s \<Longrightarrow> p \<noteq> Some CHR ''_'' \<Longrightarrow> remove_underscores p s = Some s"
proof (induction s arbitrary: p)
  case (Cons c s)
  have "c \<noteq> CHR ''_''" using Cons.prems(1) by (auto simp: is_digit_def)
  with Cons show ?case by simp
qed simp

lemma signed_digits:
  assumes "list_all is_digit ds" and "ds \<noteq> []" and "v = ds \<or> v = CHR ''-'' # ds"
  shows "py_int v = (if int_max_str_digits < length ds then None
    else Some (if v = ds then int (nat_of_digits ds) else - int (nat_of_digits ds)))"
proof -
  have "\<not> is_space CHR ''-''" by code_simp
  with assms(1,3) digit_not_space have "\<forall>c \<in> set v. \<not> is_space c" by (auto simp: list_all_iff)
  then have s: "strip v = v" by (rule strip_no_space)
  have "take_sign v = (v \<noteq> ds, ds)"
    using assms by (cases ds) (auto simp: take_sign_def is_digit_def)
  then show ?thesis using assms(1,2) by (simp add: py_int_def s remove_underscores_digits)
qed

lemma py_int_digits:
  assumes "list_all is_digit s" and "py_int s = Some i"
  shows "0 \<le> i \<and> i < 10 ^ length s"
proof (cases "s = []")
  case True
  have "py_int [] = None" by code_simp
  with assms(2) True show ?thesis by simp
next
  case False
  with signed_digits [of s s] assms have "i = int (nat_of_digits s)" by (auto split: if_splits)
  moreover have "int (nat_of_digits s) < 10 ^ length s"
    using digits_bound [OF assms(1)] by (metis of_nat_less_iff of_nat_numeral of_nat_power)
  ultimately show ?thesis by simp
qed

lemma show_nat_of_digits:
  "list_all is_digit ds \<Longrightarrow> ds \<noteq> [] \<Longrightarrow> length ds = 1 \<or> hd ds \<noteq> CHR ''0'' \<Longrightarrow> show_nat (nat_of_digits ds) = ds"
proof (induction ds rule: rev_induct)
  case (snoc c ds)
  then have "is_digit c" by simp
  note c = digit_val_less [OF this] digit_char_val [OF this]
  show ?case
  proof (cases "ds = []")
    case True
    with c show ?thesis by (subst show_nat.simps) (simp add: nat_of_digits_def)
  next
    case False
    with snoc.prems have hd: "hd ds \<noteq> CHR ''0''" by auto
    have IH: "show_nat (nat_of_digits ds) = ds" using snoc False hd by simp
    have "nat_of_digits ds \<noteq> 0"
    proof
      assume "nat_of_digits ds = 0"
      with IH have "ds = show_nat 0" by simp
      with hd show False by (simp add: show_nat.simps digit_char_eq_0)
    qed
    with IH c show ?thesis by (subst show_nat.simps) simp
  qed
qed simp

end
