(* ===== verification/FilenameMask.thy ===== *)
theory FilenameMask
  imports PyDates DigitTexts CsvReader
begin

text \<open>
  Filename masks (\<open>csv_processor/detect/filename.py\<close>): the scan of a mask, the regular expression it
  is compiled to, and what a match of it yields.  The compiled expression is kept as its parts; \<open>match_parts\<close>
  lists the ways the language's matcher goes through them, in its order, and \<open>spells\<close> is the set of
  names a mask stands for.
\<close>

section \<open>Scanning a mask\<close>

datatype mask_token = TOpen | TClose | TField string "string option" | TText string

text \<open>\<open>\w\<close>: the letters, digits and numerals below 256, and the underscore.\<close>

definition is_word :: "char \<Rightarrow> bool" where
  "is_word c = (let n = (of_char c :: nat) in
     48 \<le> n \<and> n \<le> 57 \<or> 65 \<le> n \<and> n \<le> 90 \<or> n = 95 \<or> 97 \<le> n \<and> n \<le> 122 \<or>
     n \<in> {170, 178, 179, 181, 185, 186, 188, 189, 190} \<or> 192 \<le> n \<and> n \<noteq> 215 \<and> n \<noteq> 247)"

text \<open>\<open>\{(\w+)(?::([^}]+))?\}\<close> after its opening brace: the name, the spec and what follows.\<close>

definition scan_field :: "string \<Rightarrow> (string \<times> string option \<times> string) option" where
  "scan_field s =
     (let name = takeWhile is_word s; rest = dropWhile is_word s in
      if name = [] then None
      else (case rest of
          [] \<Rightarrow> None
        | c # rest' \<Rightarrow>
            if c = CHR ''}'' then Some (name, None, rest')
            else if c = CHR '':'' then
              (let spec = takeWhile (\<lambda>x. x \<noteq> CHR ''}'') rest' in
               case dropWhile (\<lambda>x. x \<noteq> CHR ''}'') rest' of
                 [] \<Rightarrow> None
               | _ # rest'' \<Rightarrow> if spec = [] then None else Some (name, Some spec, rest''))
            else None))"

definition is_bracket :: "char \<Rightarrow> bool" where
  "is_bracket c \<longleftrightarrow> c \<in> {CHR ''{'', CHR ''}'', CHR ''['', CHR '']''}"

text \<open>\<open>_SCAN_RE.finditer\<close>: a brace that opens or closes no token is passed over.\<close>

lemma scan_field_length: "scan_field s = Some (name, spec, rest) \<Longrightarrow> length rest < length s"
proof -
  assume s: "scan_field s = Some (name, spec, rest)"
  obtain c rest' where c: "dropWhile is_word s = c # rest'"
    and "rest = rest' \<or> (\<exists>x. dropWhile (\<lambda>x. x \<noteq> CHR ''}'') rest' = x # rest)"
    using s by (auto simp: scan_field_def Let_def split: list.splits if_splits)
  then have "length rest \<le> length rest'"
    using length_dropWhile_le [of "\<lambda>x. x \<noteq> CHR ''}''" rest'] by auto
  moreover have "length rest' < length s" using length_dropWhile_le [of is_word s] c by simp
  ultimately show ?thesis by simp
qed

function scan_mask :: "string \<Rightarrow> mask_token list" where
  "scan_mask [] = []"
| "scan_mask (c # cs) =
     (if c = CHR ''['' then TOpen # scan_mask cs
      else if c = CHR '']'' then TClose # scan_mask cs
      else if c = CHR ''}'' then scan_mask cs
      else if c = CHR ''{'' then
        (case scan_field cs of
           Some (name, spec, rest) \<Rightarrow> TField name spec # scan_mask rest
         | None \<Rightarrow> scan_mask cs)
      else TText (c # takeWhile (\<lambda>x. \<not> is_bracket x) cs) # scan_mask (dropWhile (\<lambda>x. \<not> is_bracket x) cs))"
  by pat_completeness auto
termination
  by (relation "measure length") (auto dest!: scan_field_length intro: le_imp_less_Suc length_dropWhile_le less_SucI)

section \<open>Compiling\<close>

datatype field_class = FreeForm | Digits nat

datatype mask_atom = ALit string | AField string field_class

datatype mask_part = PAtom mask_atom | POptional "mask_atom list"

record compiled_mask =
  cm_parts :: "mask_part list"
  cm_formats :: "(string \<times> string) list"
  cm_int_facets :: "string list"

record compile_state =
  cq_body_parts :: "mask_part list"
  cq_optional_buffer :: "mask_atom list option"
  cq_formats :: "(string \<times> string) list"
  cq_int_facets :: "string list"

abbreviation value_error :: exn where "value_error \<equiv> Exn PyValueError []"

definition strptime_char_class :: "string \<Rightarrow> nat option" where
  "strptime_char_class d =
     (if d = ''%Y'' then Some 4
      else if d \<in> set [''%m'', ''%d'', ''%H'', ''%M'', ''%S''] then Some 2 else None)"

text \<open>Two characters at a time; the width of the whole expansion.\<close>

fun directives :: "string \<Rightarrow> string list" where
  "directives [] = []"
| "directives [c] = [[c]]"
| "directives (c # c' # cs) = [c, c'] # directives cs"

definition expand_strptime_format :: "string \<Rightarrow> exn + nat" where
  "expand_strptime_format fmt =
     (if list_all (\<lambda>d. strptime_char_class d \<noteq> None) (directives fmt)
      then Inr (sum_list (map (\<lambda>d. the (strptime_char_class d)) (directives fmt)))
      else Inl value_error)"

definition zero_padded_int_width :: "string \<Rightarrow> nat option" where
  "zero_padded_int_width spec =
     (if spec \<noteq> [] \<and> last spec = CHR ''d'' \<and> butlast spec \<noteq> [] \<and> list_all is_digit (butlast spec)
      then Some (nat_of_digits (butlast spec)) else None)"

definition expand_field :: "string \<Rightarrow> string option \<Rightarrow> compile_state \<Rightarrow> exn + mask_atom \<times> compile_state" where
  "expand_field name spec st =
     (case spec of
        None \<Rightarrow> Inr (AField name FreeForm, st)
      | Some sp \<Rightarrow>
          if starts_with sp ''%'' then
            (case expand_strptime_format sp of
               Inl e \<Rightarrow> Inl e
             | Inr w \<Rightarrow> Inr (AField name (Digits w), st\<lparr>cq_formats := (name, sp) # cq_formats st\<rparr>))
          else
            (case zero_padded_int_width sp of
               Some w \<Rightarrow> Inr (AField name (Digits w), st\<lparr>cq_int_facets := name # cq_int_facets st\<rparr>)
             | None \<Rightarrow> Inl value_error))"

definition append_atom :: "mask_atom \<Rightarrow> compile_state \<Rightarrow> compile_state" where
  "append_atom x st =
     (case cq_optional_buffer st of
        None \<Rightarrow> st\<lparr>cq_body_parts := cq_body_parts st @ [PAtom x]\<rparr>
      | Some buf \<Rightarrow> st\<lparr>cq_optional_buffer := Some (buf @ [x])\<rparr>)"

definition compile_token :: "mask_token \<Rightarrow> compile_state \<Rightarrow> exn + compile_state" where
  "compile_token tok st =
     (case tok of
        TOpen \<Rightarrow> if cq_optional_buffer st \<noteq> None then Inl value_error else Inr (st\<lparr>cq_optional_buffer := Some []\<rparr>)
      | TClose \<Rightarrow>
          (case cq_optional_buffer st of
             None \<Rightarrow> Inl value_error
           | Some buf \<Rightarrow> Inr (st\<lparr>cq_body_parts := cq_body_parts st @ [POptional buf], cq_optional_buffer := None\<rparr>))
      | TField name spec \<Rightarrow>
          (case expand_field name spec st of Inl e \<Rightarrow> Inl e | Inr (x, st') \<Rightarrow> Inr (append_atom x st'))
      | TText s \<Rightarrow> Inr (append_atom (ALit s) st))"

fun compile_tokens :: "mask_token list \<Rightarrow> compile_state \<Rightarrow> exn + compile_state" where
  "compile_tokens [] st = Inr st"
| "compile_tokens (t # ts) st = (case compile_token t st of Inl e \<Rightarrow> Inl e | Inr st' \<Rightarrow> compile_tokens ts st')"

fun part_atoms :: "mask_part \<Rightarrow> mask_atom list" where
  "part_atoms (PAtom x) = [x]"
| "part_atoms (POptional xs) = xs"

fun atom_names :: "mask_atom \<Rightarrow> string list" where
  "atom_names (ALit s) = []"
| "atom_names (AField name cls) = [name]"

definition group_names :: "mask_part list \<Rightarrow> string list" where
  "group_names ps = concat (map atom_names (concat (map part_atoms ps)))"

text \<open>A group's name is an identifier, and no two groups share one; otherwise the expression is invalid.\<close>

definition is_identifier :: "string \<Rightarrow> bool" where
  "is_identifier s \<longleftrightarrow> s \<noteq> [] \<and> \<not> is_digit (hd s) \<and>
     list_all (\<lambda>c. (of_char c :: nat) \<notin> {178, 179, 185, 188, 189, 190}) s"

definition compile_mask :: "string \<Rightarrow> exn + compiled_mask" where
  "compile_mask msk =
     (case compile_tokens (scan_mask msk)
         \<lparr>cq_body_parts = [], cq_optional_buffer = None, cq_formats = [], cq_int_facets = []\<rparr> of
        Inl e \<Rightarrow> Inl e
      | Inr st \<Rightarrow>
          if cq_optional_buffer st \<noteq> None then Inl value_error
          else if \<not> (distinct (group_names (cq_body_parts st)) \<and> list_all is_identifier (group_names (cq_body_parts st)))
            then Inl value_error
          else Inr \<lparr>cm_parts = cq_body_parts st, cm_formats = cq_formats st, cm_int_facets = cq_int_facets st\<rparr>)"

section \<open>Matching\<close>

definition free_char :: "char \<Rightarrow> bool" where
  "free_char c \<longleftrightarrow> c \<notin> {CHR ''_'', CHR ''.'', CHR ''/''}"

definition capture_lengths :: "field_class \<Rightarrow> string \<Rightarrow> nat list" where
  "capture_lengths cls s =
     (case cls of
        FreeForm \<Rightarrow> rev [1..<Suc (length (takeWhile free_char s))]
      | Digits w \<Rightarrow> if w \<le> length s \<and> list_all is_digit (take w s) then [w] else [])"

fun part_weight :: "mask_part \<Rightarrow> nat" where
  "part_weight (PAtom x) = 1"
| "part_weight (POptional xs) = Suc (length xs)"

lemma part_weight_atoms [simp]: "sum_list (map part_weight (map PAtom xs @ ps)) = length xs + sum_list (map part_weight ps)"
  by (induction xs) simp_all

text \<open>\<open>$\<close> accepts the end of the name and a line feed before it.\<close>

function match_parts :: "mask_part list \<Rightarrow> string \<Rightarrow> (string \<times> string) list list" where
  "match_parts [] s = (if s = [] \<or> s = [LF] then [[]] else [])"
| "match_parts (PAtom (ALit t) # ps) s = (if starts_with s t then match_parts ps (drop (length t) s) else [])"
| "match_parts (PAtom (AField n cls) # ps) s =
     concat (map (\<lambda>k. map (\<lambda>cs. (n, take k s) # cs) (match_parts ps (drop k s))) (capture_lengths cls s))"
| "match_parts (POptional xs # ps) s = match_parts (map PAtom xs @ ps) s @ match_parts ps s"
  by pat_completeness auto
termination
  by (relation "measure (\<lambda>(ps, s). sum_list (map part_weight ps))") (simp_all del: map_append)

text \<open>\<open>datetime.strptime(captured, fmt).date()\<close> for the directives the masks allow.\<close>

primrec read_directives :: "string list \<Rightarrow> string \<Rightarrow> (string \<times> int) list" where
  "read_directives [] = (\<lambda>s. [])"
| "read_directives (d # ds) = (\<lambda>s.
     let w = the (strptime_char_class d) in (d, int (nat_of_digits (take w s))) # read_directives ds (drop w s))"

definition field_or :: "int \<Rightarrow> (string \<times> int) list \<Rightarrow> string \<Rightarrow> int" where
  "field_or dflt xs d = (case map_of xs d of None \<Rightarrow> dflt | Some v \<Rightarrow> v)"

definition strptime_date :: "string \<Rightarrow> string \<Rightarrow> exn + civil" where
  "strptime_date fmt s =
     (let xs = read_directives (directives fmt) s;
          day = \<lparr>cv_year = field_or 1900 xs ''%Y'', cv_month = field_or 1 xs ''%m'', cv_day = field_or 1 xs ''%d''\<rparr>
      in if \<not> distinct (directives fmt) then Inl (Exn ReError [])
         else if valid_civil day \<and> field_or 0 xs ''%H'' \<le> 23 \<and> field_or 0 xs ''%M'' \<le> 59 \<and> field_or 0 xs ''%S'' \<le> 59
           then Inr day else Inl value_error)"

datatype facet = FStr string | FInt int | FDate civil

definition facet_of :: "compiled_mask \<Rightarrow> string \<times> string \<Rightarrow> exn + string \<times> facet" where
  "facet_of cm c =
     (let (name, captured) = c in
      case map_of (cm_formats cm) name of
        Some fmt \<Rightarrow> (case strptime_date fmt captured of Inl e \<Rightarrow> Inl e | Inr d \<Rightarrow> Inr (name, FDate d))
      | None \<Rightarrow>
          if name \<in> set (cm_int_facets cm)
          then (case py_int captured of None \<Rightarrow> Inl value_error | Some i \<Rightarrow> Inr (name, FInt i))
          else Inr (name, FStr captured))"

definition match_filename :: "compiled_mask \<Rightarrow> string \<Rightarrow> exn + (string \<times> facet) list option" where
  "match_filename cm filename =
     (case match_parts (cm_parts cm) filename of
        [] \<Rightarrow> Inr None
      | captures # _ \<Rightarrow> (case traverse (facet_of cm) captures of Inl e \<Rightarrow> Inl e | Inr fs \<Rightarrow> Inr (Some fs)))"

definition parse_filename :: "string \<Rightarrow> string \<Rightarrow> exn + (string \<times> facet) list" where
  "parse_filename msk filename =
     (case compile_mask msk of
        Inl e \<Rightarrow> Inl e
      | Inr cm \<Rightarrow>
          (case match_filename cm filename of
             Inl e \<Rightarrow> Inl e
           | Inr None \<Rightarrow> Inl (dp_error FilenameParsingError
               [(''diagnostic_code'', VStr ''filename-does-not-match-mask''), (''filename'', VStr filename), (''mask'', VStr msk)])
           | Inr (Some fs) \<Rightarrow> Inr fs))"

section \<open>The names a mask stands for\<close>

definition in_class :: "field_class \<Rightarrow> string \<Rightarrow> bool" where
  "in_class cls v \<longleftrightarrow>
     (case cls of FreeForm \<Rightarrow> v \<noteq> [] \<and> list_all free_char v | Digits w \<Rightarrow> length v = w \<and> list_all is_digit v)"

inductive spells :: "mask_part list \<Rightarrow> (string \<times> string) list \<Rightarrow> string \<Rightarrow> bool" where
  finished: "spells [] [] []"
| literal: "spells ps cs s \<Longrightarrow> spells (PAtom (ALit t) # ps) cs (t @ s)"
| captured: "in_class cls v \<Longrightarrow> spells ps cs s \<Longrightarrow> spells (PAtom (AField n cls) # ps) ((n, v) # cs) (v @ s)"
| skipped: "spells ps cs s \<Longrightarrow> spells (POptional xs # ps) cs s"
| taken: "spells (map PAtom xs @ ps) cs s \<Longrightarrow> spells (POptional xs # ps) cs s"

inductive_simps spells_simps:
  "spells [] cs s" "spells (PAtom (ALit t) # ps) cs s" "spells (PAtom (AField n cls) # ps) cs s" "spells (POptional xs # ps) cs s"

lemma capture_lengths_iff:
  "k \<in> set (capture_lengths cls s) \<longleftrightarrow> k \<le> length s \<and> in_class cls (take k s)"
proof (cases cls)
  case FreeForm
  have "k \<le> length (takeWhile free_char s) \<longleftrightarrow> k \<le> length s \<and> list_all free_char (take k s)" for k
  proof (induction s arbitrary: k)
    case (Cons c s)
    then show ?case by (cases k) auto
  qed simp
  moreover have "k \<in> set (capture_lengths cls s) \<longleftrightarrow> 0 < k \<and> k \<le> length (takeWhile free_char s)"
    unfolding capture_lengths_def FreeForm by (simp add: less_Suc_eq_le Suc_le_eq del: upt_Suc)
  moreover have "in_class cls (take k s) \<longleftrightarrow> k \<noteq> 0 \<and> s \<noteq> [] \<and> list_all free_char (take k s)"
    by (simp add: in_class_def FreeForm)
  ultimately show ?thesis by (cases s) auto
next
  case (Digits w)
  then show ?thesis by (auto simp: capture_lengths_def in_class_def)
qed

definition at_end :: "string \<Rightarrow> string \<Rightarrow> bool" where
  "at_end t s \<longleftrightarrow> s = t \<or> s = t @ [LF]"

lemma match_parts_iff: "cs \<in> set (match_parts ps s) \<longleftrightarrow> (\<exists>t. spells ps cs t \<and> at_end t s)"
proof (induction ps s arbitrary: cs rule: match_parts.induct)
  case (1 s)
  then show ?case by (auto simp: spells_simps at_end_def)
next
  case (2 t ps s)
  show ?case
  proof (cases "starts_with s t")
    case True
    then obtain s' where s': "s = t @ s'" by (auto simp: starts_with_iff)
    have "(\<exists>u. spells ps cs u \<and> at_end u s') \<longleftrightarrow> (\<exists>u. spells (PAtom (ALit t) # ps) cs u \<and> at_end u s)"
      by (auto simp: spells_simps at_end_def s')
    with 2 [OF True] True s' show ?thesis by simp
  next
    case False
    then show ?thesis by (auto simp: spells_simps at_end_def starts_with_iff)
  qed
next
  case (3 n cls ps s)
  have "(\<exists>u. spells (PAtom (AField n cls) # ps) cs u \<and> at_end u s) \<longleftrightarrow>
      (\<exists>k cs'. k \<le> length s \<and> in_class cls (take k s) \<and> cs = (n, take k s) # cs' \<and> (\<exists>u. spells ps cs' u \<and> at_end u (drop k s)))"
  proof
    assume "\<exists>u. spells (PAtom (AField n cls) # ps) cs u \<and> at_end u s"
    then obtain v cs' u where v: "in_class cls v" "cs = (n, v) # cs'" "spells ps cs' u" "at_end (v @ u) s"
      by (auto simp: spells_simps)
    then obtain s' where s': "s = v @ s'" "at_end u s'" by (auto simp: at_end_def)
    have "length v \<le> length s \<and> in_class cls (take (length v) s) \<and> cs = (n, take (length v) s) # cs' \<and>
        (\<exists>u. spells ps cs' u \<and> at_end u (drop (length v) s))" using v s' by auto
    then show "\<exists>k cs'. k \<le> length s \<and> in_class cls (take k s) \<and> cs = (n, take k s) # cs' \<and> (\<exists>u. spells ps cs' u \<and> at_end u (drop k s))"
      by blast
  next
    assume "\<exists>k cs'. k \<le> length s \<and> in_class cls (take k s) \<and> cs = (n, take k s) # cs' \<and> (\<exists>u. spells ps cs' u \<and> at_end u (drop k s))"
    then obtain k cs' u where k: "in_class cls (take k s)" "cs = (n, take k s) # cs'" "spells ps cs' u" "at_end u (drop k s)" by blast
    then have "at_end (take k s @ u) s" unfolding at_end_def by (metis append.assoc append_take_drop_id)
    with k show "\<exists>u. spells (PAtom (AField n cls) # ps) cs u \<and> at_end u s" by (auto simp: spells_simps)
  qed
  moreover have "cs \<in> set (match_parts (PAtom (AField n cls) # ps) s) \<longleftrightarrow>
      (\<exists>k cs'. k \<in> set (capture_lengths cls s) \<and> cs = (n, take k s) # cs' \<and> cs' \<in> set (match_parts ps (drop k s)))"
    by auto
  ultimately show ?case using 3 by (auto simp: capture_lengths_iff)
next
  case (4 xs ps s)
  then show ?case by (auto simp: spells_simps)
qed

section \<open>What the tokens declare\<close>

fun declared_fields :: "mask_token list \<Rightarrow> (string \<times> string option) list" where
  "declared_fields [] = []"
| "declared_fields (TField n spec # ts) = (n, spec) # declared_fields ts"
| "declared_fields (_ # ts) = declared_fields ts"

definition is_date_spec :: "string \<Rightarrow> bool" where
  "is_date_spec sp = starts_with sp ''%''"

fun spec_class :: "string option \<Rightarrow> field_class" where
  "spec_class None = FreeForm"
| "spec_class (Some sp) =
     (if is_date_spec sp then Digits (projr (expand_strptime_format sp)) else Digits (the (zero_padded_int_width sp)))"

definition date_specs :: "(string \<times> string option) list \<Rightarrow> (string \<times> string) list" where
  "date_specs ds = map (\<lambda>(n, sp). (n, the sp)) (filter (\<lambda>(n, sp). sp \<noteq> None \<and> is_date_spec (the sp)) ds)"

definition int_specs :: "(string \<times> string option) list \<Rightarrow> string list" where
  "int_specs ds = map fst (filter (\<lambda>(n, sp). sp \<noteq> None \<and> \<not> is_date_spec (the sp)) ds)"

definition valid_spec :: "string option \<Rightarrow> bool" where
  "valid_spec sp \<longleftrightarrow> (case sp of None \<Rightarrow> True
     | Some f \<Rightarrow> if is_date_spec f then \<not> isl (expand_strptime_format f) else zero_padded_int_width f \<noteq> None)"

definition is_field :: "mask_atom \<Rightarrow> bool" where
  "is_field x \<longleftrightarrow> (case x of ALit _ \<Rightarrow> False | AField _ _ \<Rightarrow> True)"

definition state_fields :: "compile_state \<Rightarrow> mask_atom list" where
  "state_fields st = filter is_field (concat (map part_atoms (cq_body_parts st)) @
     (case cq_optional_buffer st of None \<Rightarrow> [] | Some buf \<Rightarrow> buf))"

definition field_atom :: "string \<times> string option \<Rightarrow> mask_atom" where
  "field_atom d = AField (fst d) (spec_class (snd d))"

lemma state_fields_append: "state_fields (append_atom x st) = state_fields st @ filter is_field [x]"
  by (cases "cq_optional_buffer st") (simp_all add: state_fields_def append_atom_def)

lemma append_atom_frame [simp]:
  "cq_formats (append_atom x st) = cq_formats st" "cq_int_facets (append_atom x st) = cq_int_facets st"
  by (simp_all add: append_atom_def split: option.split)

lemma compile_token_effect:
  assumes "compile_token t st = Inr st'"
  shows "state_fields st' = state_fields st @ map field_atom (declared_fields [t]) \<and>
    cq_formats st' = rev (date_specs (declared_fields [t])) @ cq_formats st \<and>
    cq_int_facets st' = rev (int_specs (declared_fields [t])) @ cq_int_facets st \<and>
    list_all (\<lambda>d. valid_spec (snd d)) (declared_fields [t])"
proof (cases t)
  case (TField n spec)
  with assms obtain x st1 where x: "expand_field n spec st = Inr (x, st1)" "st' = append_atom x st1"
    by (auto simp: compile_token_def split: sum.splits)
  show ?thesis
  proof (cases spec)
    case None
    with x have "x = AField n FreeForm" "st1 = st" by (simp_all add: expand_field_def)
    with x(2) TField None show ?thesis
      by (simp add: state_fields_append is_field_def field_atom_def date_specs_def int_specs_def valid_spec_def)
  next
    case (Some sp)
    have frame: "state_fields (st\<lparr>cq_formats := fs\<rparr>) = state_fields st" "state_fields (st\<lparr>cq_int_facets := ns\<rparr>) = state_fields st" for fs ns
      by (simp_all add: state_fields_def)
    note defs = frame state_fields_append is_field_def field_atom_def date_specs_def int_specs_def valid_spec_def
    show ?thesis
    proof (cases "is_date_spec sp")
      case True
      with x Some obtain w where "expand_strptime_format sp = Inr w" "x = AField n (Digits w)"
        "st1 = st\<lparr>cq_formats := (n, sp) # cq_formats st\<rparr>"
        by (auto simp: expand_field_def is_date_spec_def split: sum.splits)
      with True x(2) TField Some show ?thesis by (simp add: defs)
    next
      case False
      with x Some obtain w where "zero_padded_int_width sp = Some w" "x = AField n (Digits w)"
        "st1 = st\<lparr>cq_int_facets := n # cq_int_facets st\<rparr>"
        by (auto simp: expand_field_def is_date_spec_def split: option.splits)
      with False x(2) TField Some show ?thesis by (simp add: defs)
    qed
  qed
next
  case TOpen
  with assms have "cq_optional_buffer st = None" "st' = st\<lparr>cq_optional_buffer := Some []\<rparr>"
    by (auto simp: compile_token_def split: if_splits)
  then show ?thesis by (simp add: TOpen state_fields_def date_specs_def int_specs_def)
next
  case TClose
  with assms obtain buf where "cq_optional_buffer st = Some buf"
    "st' = st\<lparr>cq_body_parts := cq_body_parts st @ [POptional buf], cq_optional_buffer := None\<rparr>"
    by (auto simp: compile_token_def split: option.splits)
  then show ?thesis by (simp add: TClose state_fields_def date_specs_def int_specs_def)
next
  case (TText t')
  with assms have "st' = append_atom (ALit t') st" by (simp add: compile_token_def)
  then show ?thesis by (simp add: TText state_fields_append is_field_def date_specs_def int_specs_def)
qed

lemma specs_append:
  "declared_fields (ts @ us) = declared_fields ts @ declared_fields us"
  "date_specs (ds @ es) = date_specs ds @ date_specs es" "int_specs (ds @ es) = int_specs ds @ int_specs es"
  by (induction ts rule: declared_fields.induct) (simp_all add: date_specs_def int_specs_def)

lemma compile_tokens_effect:
  "compile_tokens ts st = Inr st' \<Longrightarrow>
    state_fields st' = state_fields st @ map field_atom (declared_fields ts) \<and>
    cq_formats st' = rev (date_specs (declared_fields ts)) @ cq_formats st \<and>
    cq_int_facets st' = rev (int_specs (declared_fields ts)) @ cq_int_facets st \<and>
    list_all (\<lambda>d. valid_spec (snd d)) (declared_fields ts)"
proof (induction ts arbitrary: st)
  case Nil
  then show ?case by (simp add: date_specs_def int_specs_def)
next
  case (Cons t ts)
  then obtain st1 where st1: "compile_token t st = Inr st1" "compile_tokens ts st1 = Inr st'" by (auto split: sum.splits)
  have split: "declared_fields (t # ts) = declared_fields [t] @ declared_fields ts" using specs_append(1) [of "[t]" ts] by simp
  from compile_token_effect [OF st1(1)] Cons.IH [OF st1(2)] show ?case
    unfolding split specs_append by simp
qed

text \<open>What a compiled mask knows of its fields.\<close>

lemma compile_mask_fields:
  assumes "compile_mask msk = Inr cm"
  defines "ds \<equiv> declared_fields (scan_mask msk)"
  shows "filter is_field (concat (map part_atoms (cm_parts cm))) = map field_atom ds"
    and "cm_formats cm = rev (date_specs ds)" and "cm_int_facets cm = rev (int_specs ds)"
    and "list_all (\<lambda>d. valid_spec (snd d)) ds" and "distinct (map fst ds)"
proof -
  from assms(1) obtain st where st: "compile_tokens (scan_mask msk)
       \<lparr>cq_body_parts = [], cq_optional_buffer = None, cq_formats = [], cq_int_facets = []\<rparr> = Inr st"
    "cq_optional_buffer st = None" "distinct (group_names (cq_body_parts st))"
    "cm = \<lparr>cm_parts = cq_body_parts st, cm_formats = cq_formats st, cm_int_facets = cq_int_facets st\<rparr>"
    by (auto simp: compile_mask_def split: sum.splits if_splits)
  from compile_tokens_effect [OF st(1)]
  show fs: "filter is_field (concat (map part_atoms (cm_parts cm))) = map field_atom ds"
    and "cm_formats cm = rev (date_specs ds)" "cm_int_facets cm = rev (int_specs ds)"
    "list_all (\<lambda>d. valid_spec (snd d)) ds"
    by (simp_all add: st(2,4) state_fields_def ds_def)
  have "concat (map atom_names xs) = concat (map atom_names (filter is_field xs))" for xs
    by (induction xs) (auto simp: is_field_def split: mask_atom.splits)
  then have "group_names (cq_body_parts st) = concat (map atom_names (filter is_field (concat (map part_atoms (cq_body_parts st)))))"
    unfolding group_names_def .
  also have "filter is_field (concat (map part_atoms (cq_body_parts st))) = map field_atom ds" using fs by (simp add: st(4))
  also have "concat (map atom_names (map field_atom ds)) = map fst ds" by (induction ds) (simp_all add: field_atom_def)
  finally show "distinct (map fst ds)" using st(3) by simp
qed

section \<open>What a match yields\<close>

lemma spells_captures: "spells ps cs s \<Longrightarrow> (n, v) \<in> set cs \<Longrightarrow>
    \<exists>cls. AField n cls \<in> set (concat (map part_atoms ps)) \<and> in_class cls v"
  by (induction rule: spells.induct) (auto simp: image_iff)

lemma part_atoms_map [simp]: "concat (map part_atoms (map PAtom xs)) = xs"
  by (induction xs) simp_all

lemma group_names_Cons: "group_names (p # ps) = concat (map atom_names (part_atoms p)) @ group_names ps"
  by (simp add: group_names_def)

lemma group_names_append: "group_names (map PAtom xs @ ps) = concat (map atom_names xs) @ group_names ps"
  by (simp add: group_names_def del: map_map)

lemma spells_names: "spells ps cs s \<Longrightarrow> distinct (group_names ps) \<Longrightarrow>
    distinct (map fst cs) \<and> fst ` set cs \<subseteq> set (group_names ps)"
  by (induction rule: spells.induct) (auto simp: group_names_Cons group_names_append)

fun typed :: "string option \<Rightarrow> facet \<Rightarrow> bool" where
  "typed None (FStr v) \<longleftrightarrow> v \<noteq> [] \<and> list_all free_char v"
| "typed (Some sp) (FDate d) \<longleftrightarrow> is_date_spec sp \<and> valid_civil d"
| "typed (Some sp) (FInt i) \<longleftrightarrow> \<not> is_date_spec sp \<and>
     (case zero_padded_int_width sp of None \<Rightarrow> False | Some w \<Rightarrow> 0 \<le> i \<and> i < 10 ^ w)"
| "typed _ _ \<longleftrightarrow> False"

lemma keys_filter: "n \<in> set (map fst (filter P xs)) \<longleftrightarrow> (\<exists>v. (n, v) \<in> set xs \<and> P (n, v))"
  by (induction xs) auto

lemma map_of_date_specs:
  assumes "distinct (map fst ds)" and "(n, spec) \<in> set ds"
  shows "map_of (rev (date_specs ds)) n = (case spec of None \<Rightarrow> None | Some sp \<Rightarrow> if is_date_spec sp then Some sp else None)"
    and "n \<in> set (int_specs ds) \<longleftrightarrow> (case spec of None \<Rightarrow> False | Some sp \<Rightarrow> \<not> is_date_spec sp)"
proof -
  have uniq: "(n, sp) \<in> set ds \<longleftrightarrow> sp = spec" for sp
    using assms by (auto dest: eq_key_imp_eq_value)
  have keys: "distinct (map fst (rev (date_specs ds)))"
  proof -
    have "map fst (date_specs ds) = map fst (filter (\<lambda>(n, sp). sp \<noteq> None \<and> is_date_spec (the sp)) ds)"
      by (simp add: date_specs_def split_def comp_def)
    with assms(1) show ?thesis by (simp add: distinct_map_filter rev_map [symmetric])
  qed
  have mem: "(n, f) \<in> set (rev (date_specs ds)) \<longleftrightarrow> spec = Some f \<and> is_date_spec f" for f
  proof -
    have "(n, f) \<in> set (rev (date_specs ds)) \<longleftrightarrow> (\<exists>sp. (n, sp) \<in> set ds \<and> sp \<noteq> None \<and> is_date_spec (the sp) \<and> f = the sp)"
      by (auto simp: date_specs_def)
    then show ?thesis unfolding uniq by auto
  qed
  show "map_of (rev (date_specs ds)) n = (case spec of None \<Rightarrow> None | Some sp \<Rightarrow> if is_date_spec sp then Some sp else None)"
  proof (cases "map_of (rev (date_specs ds)) n")
    case None
    then have "\<forall>f. (n, f) \<notin> set (rev (date_specs ds))" unfolding map_of_eq_None_iff by force
    with mem None show ?thesis by (auto split: option.splits)
  next
    case (Some f)
    then have "(n, f) \<in> set (rev (date_specs ds))" by (rule map_of_SomeD)
    with mem Some show ?thesis by simp
  qed
  show "n \<in> set (int_specs ds) \<longleftrightarrow> (case spec of None \<Rightarrow> False | Some sp \<Rightarrow> \<not> is_date_spec sp)"
  proof -
    have "n \<in> set (int_specs ds) \<longleftrightarrow> (\<exists>sp. (n, sp) \<in> set ds \<and> sp \<noteq> None \<and> \<not> is_date_spec (the sp))"
      unfolding int_specs_def keys_filter by simp
    then show ?thesis unfolding uniq by (auto split: option.split)
  qed
qed

lemma facet_typed:
  assumes mask: "compile_mask msk = Inr cm" and cs: "spells (cm_parts cm) cs t" "(n, v) \<in> set cs"
    and f: "facet_of cm (n, v) = Inr (n', fct)"
  shows "n' = n \<and> (\<exists>spec. (n, spec) \<in> set (declared_fields (scan_mask msk)) \<and> typed spec fct)"
proof -
  let ?ds = "declared_fields (scan_mask msk)"
  note fields = compile_mask_fields [OF mask]
  obtain cls where cls: "AField n cls \<in> set (concat (map part_atoms (cm_parts cm)))" "in_class cls v"
    using spells_captures [OF cs] by blast
  have "AField n cls \<in> set (filter is_field (concat (map part_atoms (cm_parts cm))))"
    using cls(1) by (simp add: is_field_def)
  then obtain spec where spec: "(n, spec) \<in> set ?ds" "cls = spec_class spec"
    unfolding fields(1) by (auto simp: field_atom_def)
  have valid: "valid_spec spec" using fields(4) spec(1) by (auto simp: list_all_iff)
  note lookup = map_of_date_specs [OF fields(5) spec(1)]
  show ?thesis
  proof (cases spec)
    case None
    with f lookup cls(2) spec show ?thesis by (auto simp: facet_of_def fields(2,3) in_class_def)
  next
    case (Some sp)
    show ?thesis
    proof (cases "is_date_spec sp")
      case True
      with lookup Some have "map_of (cm_formats cm) n = Some sp" by (simp add: fields(2))
      with f obtain day where day: "strptime_date sp v = Inr day" "n' = n" "fct = FDate day"
        by (auto simp: facet_of_def split: sum.splits)
      have "valid_civil day" using day(1) unfolding strptime_date_def Let_def by (auto split: if_splits)
      with day True Some spec(1) show ?thesis by (intro conjI exI [of _ spec]) simp_all
    next
      case False
      with valid Some obtain w where w: "zero_padded_int_width sp = Some w" by (auto simp: valid_spec_def)
      with False Some cls(2) spec(2) have v: "list_all is_digit v" "length v = w" by (auto simp: in_class_def)
      from False f lookup Some obtain i where i: "py_int v = Some i" "n' = n" "fct = FInt i"
        by (auto simp: facet_of_def fields(2,3) split: option.splits)
      from py_int_digits [OF v(1) i(1)] v(2) w False Some spec(1) i(2,3) show ?thesis by (intro conjI exI [of _ spec]) simp_all
    qed
  qed
qed

text \<open>C40: What a filename yields has the types its mask declares: the facets have different names, each is
  declared by a token of the mask, a token without a format gives a non-empty text free of the separators, a date
  format a date of the calendar, and a zero-padded width of w digits a number from 0 to below 10 to the w.\<close>

theorem filename_facets_typed:
  assumes "parse_filename msk filename = Inr fs"
  shows "distinct (map fst fs) \<and>
    (\<forall>(n, f) \<in> set fs. \<exists>spec. TField n spec \<in> set (scan_mask msk) \<and> typed spec f)"
proof -
  obtain cm cs css where cm: "compile_mask msk = Inr cm" and m: "match_parts (cm_parts cm) filename = cs # css"
    and fs: "traverse (facet_of cm) cs = Inr fs"
    using assms by (auto simp: parse_filename_def match_filename_def split: sum.splits option.splits list.splits)
  have "cs \<in> set (match_parts (cm_parts cm) filename)" using m by simp
  then obtain t where t: "spells (cm_parts cm) cs t" unfolding match_parts_iff by blast
  have names: "distinct (group_names (cm_parts cm))" using cm by (auto simp: compile_mask_def split: sum.splits if_splits)
  have each: "fst (fs ! i) = fst (cs ! i) \<and>
      (\<exists>spec. (fst (cs ! i), spec) \<in> set (declared_fields (scan_mask msk)) \<and> typed spec (snd (fs ! i)))" if "i < length cs" for i
  proof -
    have "(fst (cs ! i), snd (cs ! i)) \<in> set cs" using that by simp
    from facet_typed [OF cm t this, of "fst (fs ! i)" "snd (fs ! i)"] traverse_nth [OF fs that] show ?thesis by simp
  qed
  have len: "length fs = length cs" using traverse_length [OF fs] .
  have "map fst fs = map fst cs" by (rule nth_equalityI) (use len each in simp_all)
  moreover have "distinct (map fst cs)" using spells_names [OF t names] by simp
  moreover have "(n, spec) \<in> set (declared_fields ts) \<Longrightarrow> TField n spec \<in> set ts" for n spec ts
    by (induction ts rule: declared_fields.induct) auto
  ultimately show ?thesis using each len by (fastforce simp: in_set_conv_nth)
qed

definition demo_mask :: string where
  "demo_mask = ''{dataset}_{day:%Y%m%d}[_{seq:03d}].csv''"

lemma filename_facets_typed_witness:
  "parse_filename demo_mask ''orders_20240229_007.csv'' =
     Inr [(''dataset'', FStr ''orders''), (''day'', FDate \<lparr>cv_year = 2024, cv_month = 2, cv_day = 29\<rparr>), (''seq'', FInt 7)] \<and>
   (\<exists>spec. TField ''seq'' spec \<in> set (scan_mask demo_mask) \<and> typed spec (FInt 7))"
proof -
  have eq: "parse_filename demo_mask ''orders_20240229_007.csv'' =
     Inr [(''dataset'', FStr ''orders''), (''day'', FDate \<lparr>cv_year = 2024, cv_month = 2, cv_day = 29\<rparr>), (''seq'', FInt 7)]"
    by code_simp
  from filename_facets_typed [OF eq] eq show ?thesis by simp
qed

text \<open>A mask matches exactly the names it spells: a compiled mask matches a filename if and only if the
  filename, up to one final line feed, is the mask with every token replaced by a text of its class and every
  bracket written out or left out.\<close>

theorem mask_matches_exactly:
  "match_filename cm filename = Inr None \<longleftrightarrow> (\<nexists>cs t. spells (cm_parts cm) cs t \<and> (filename = t \<or> filename = t @ [LF]))"
proof -
  have "match_filename cm filename = Inr None \<longleftrightarrow> match_parts (cm_parts cm) filename = []"
    by (auto simp: match_filename_def split: list.splits sum.splits)
  also have "\<dots> \<longleftrightarrow> (\<forall>cs. cs \<notin> set (match_parts (cm_parts cm) filename))" by (cases "match_parts (cm_parts cm) filename") auto
  finally show ?thesis by (simp add: match_parts_iff at_end_def)
qed

text \<open>A name that ends in a line feed is accepted; a well-shaped impossible date raises a \<open>ValueError\<close>; a token
  that is not well formed loses its braces and becomes literal text.\<close>

lemma mask_surprises:
  "parse_filename ''{a}.csv'' (''x.csv'' @ [LF]) = Inr [(''a'', FStr ''x'')]"
  "parse_filename ''{day:%Y%m%d}'' ''20241301'' = Inl value_error"
  "parse_filename ''{run-id}'' ''run-id'' = Inr []"
  by code_simp+

end
