(* ===== verification/Detect.thy ===== *)
theory Detect
  imports PyFloats CsvReader
begin

text \<open>
  The remaining detectors of the CSV processor: encoding (\<open>detect/encoding.py\<close>), dialect
  (\<open>detect/dialect.py\<close>) and column types (\<open>detect/schema.py\<close>).  What charset-normalizer, chardet,
  clevercsv and the codec registry answer are parameters.
\<close>

section \<open>Encoding\<close>

definition bom_table :: "(string \<times> string) list" where
  "bom_table =
     [([CHR 0xEF, CHR 0xBB, CHR 0xBF], ''utf-8-sig''),
      ([CHR 0xFF, CHR 0xFE, CHR 0x00, CHR 0x00], ''utf-32''),
      ([CHR 0x00, CHR 0x00, CHR 0xFE, CHR 0xFF], ''utf-32''),
      ([CHR 0xFF, CHR 0xFE], ''utf-16''),
      ([CHR 0xFE, CHR 0xFF], ''utf-16'')]"

definition near_tie_chaos_epsilon :: rat where "near_tie_chaos_epsilon = round_double (1 / 100)"
definition wide_char_nul_ratio_threshold :: rat where "wide_char_nul_ratio_threshold = round_double (30 / 100)"
definition no_bom_confidence_ceiling :: rat where "no_bom_confidence_ceiling = round_double (99 / 100)"
definition default_min_confidence :: rat where "default_min_confidence = 1 / 2"

record encoding_detection =
  en_encoding :: string
  en_confidence :: rat
  en_source :: string

record charset_match =
  cm_encoding :: string
  cm_chaos :: rat

text \<open>The libraries: \<open>from_bytes\<close> (the matches, best first), \<open>chardet.detect\<close> and \<open>codecs.lookup(...).name\<close>.\<close>

record codec_world =
  co_from_bytes :: "string \<Rightarrow> charset_match list"
  co_chardet :: "string \<Rightarrow> string option"
  co_lookup :: "string \<Rightarrow> string option"

definition codec_name :: "codec_world \<Rightarrow> string \<Rightarrow> exn + string" where
  "codec_name w name = (case co_lookup w name of None \<Rightarrow> Inl (Exn PyLookupError []) | Some n \<Rightarrow> Inr n)"

definition undetermined :: encoding_detection where
  "undetermined = \<lparr>en_encoding = ''undetermined'', en_confidence = 0, en_source = ''undetermined''\<rparr>"

fun near_tie :: "codec_world \<Rightarrow> rat \<Rightarrow> string \<Rightarrow> charset_match list \<Rightarrow> exn + charset_match option" where
  "near_tie w best cd_name [] = Inr None"
| "near_tie w best cd_name (m # ms) =
     (if near_tie_chaos_epsilon < round_double (cm_chaos m - best) then Inr None
      else (case codec_name w (cm_encoding m) of
              Inl e \<Rightarrow> Inl e
            | Inr n \<Rightarrow> if n = cd_name then Inr (Some m) else near_tie w best cd_name ms))"

definition best_corroborating_match :: "codec_world \<Rightarrow> charset_match list \<Rightarrow> charset_match \<Rightarrow> string \<Rightarrow> exn + charset_match option" where
  "best_corroborating_match w candidates cn_best cd_name =
     (case codec_name w (cm_encoding cn_best) of
        Inl e \<Rightarrow> Inl e
      | Inr n \<Rightarrow> if n = cd_name then Inr (Some cn_best) else near_tie w (cm_chaos cn_best) cd_name candidates)"

definition looks_like_unmarked_wide_encoding :: "string \<Rightarrow> bool" where
  "looks_like_unmarked_wide_encoding sample \<longleftrightarrow>
     sample \<noteq> [] \<and> wide_char_nul_ratio_threshold < float_div (int (length (filter (\<lambda>c. c = NUL) sample))) (int (length sample))"

definition round4 :: "rat \<Rightarrow> rat" where
  "round4 x = round_double (of_int (round_half_even (x * 10000)) / 10000)"

definition classify_match :: "codec_world \<Rightarrow> charset_match \<Rightarrow> string \<Rightarrow> rat \<Rightarrow> exn + encoding_detection" where
  "classify_match w m sample min_confidence =
     (case codec_name w (cm_encoding m) of
        Inl e \<Rightarrow> Inl e
      | Inr name \<Rightarrow>
          (let c = round4 (round_double (1 - cm_chaos m));
               confidence = (if looks_like_unmarked_wide_encoding sample then min c no_bom_confidence_ceiling else c)
           in Inr \<lparr>en_encoding = name, en_confidence = confidence,
                en_source = (if confidence < min_confidence then ''undetermined'' else ''detected'')\<rparr>))"

definition detect_encoding :: "codec_world \<Rightarrow> string \<Rightarrow> string option \<Rightarrow> rat \<Rightarrow> exn + encoding_detection" where
  "detect_encoding w sample contract_encoding min_confidence =
     (case contract_encoding of
        Some e \<Rightarrow> Inr \<lparr>en_encoding = e, en_confidence = 1, en_source = ''contract''\<rparr>
      | None \<Rightarrow>
          (case find (\<lambda>(bom, name). starts_with sample bom) bom_table of
             Some (bom, name) \<Rightarrow> Inr \<lparr>en_encoding = name, en_confidence = 1, en_source = ''bom''\<rparr>
           | None \<Rightarrow>
               (case (co_from_bytes w sample, co_chardet w sample) of
                  (cn_best # ms, Some cd) \<Rightarrow>
                    (case codec_name w cd of
                       Inl e \<Rightarrow> Inl e
                     | Inr cd_name \<Rightarrow>
                         (case best_corroborating_match w (cn_best # ms) cn_best cd_name of
                            Inl e \<Rightarrow> Inl e
                          | Inr None \<Rightarrow> Inr undetermined
                          | Inr (Some m) \<Rightarrow> classify_match w m sample min_confidence))
                | _ \<Rightarrow> Inr undetermined)))"

text \<open>\<open>bytes.decode(encoding, errors="strict")\<close>: the text, a decoding error, or an unknown encoding.\<close>

datatype decoding = Decoded string | Undecodable | UnknownEncoding

definition decode_strict :: "(string \<Rightarrow> string \<Rightarrow> decoding) \<Rightarrow> string \<Rightarrow> encoding_detection \<Rightarrow> exn + string" where
  "decode_strict decode sample detection =
     (case decode (en_encoding detection) sample of
        Decoded s \<Rightarrow> Inr s
      | Undecodable \<Rightarrow> Inl (dp_error EncodingDetectionError
          [(''diagnostic_code'', VStr ''undecodable-bytes''), (''encoding'', VStr (en_encoding detection))])
      | UnknownEncoding \<Rightarrow> Inl (Exn PyLookupError []))"

lemma near_tie_names:
  "near_tie w best cd ms = Inr (Some m) \<Longrightarrow> m \<in> set ms \<and> co_lookup w (cm_encoding m) = Some cd"
  by (induction ms) (auto simp: codec_name_def split: option.splits if_splits)

lemma corroborating_names:
  assumes "best_corroborating_match w (b # ms) b cd = Inr (Some m)"
  shows "m \<in> set (b # ms) \<and> co_lookup w (cm_encoding m) = Some cd"
proof (cases "co_lookup w (cm_encoding b) = Some cd")
  case True
  with assms show ?thesis by (simp add: best_corroborating_match_def codec_name_def)
next
  case False
  with assms have "near_tie w (cm_chaos b) cd (b # ms) = Inr (Some m)"
    unfolding best_corroborating_match_def codec_name_def by (auto simp del: near_tie.simps split: option.splits if_splits)
  then show ?thesis by (rule near_tie_names)
qed

text \<open>An encoding is only reported as detected when both libraries agree on it: without a contract and a
  byte-order mark the result is either undetermined or the codec that chardet's answer names and one of
  charset-normalizer's matches names too, with a confidence of at least the minimum - and at most 0.99 when NUL
  bytes make up more than 30 percent of the sample.\<close>

theorem detected_encoding_corroborated:
  assumes "detect_encoding w sample None min_confidence = Inr d" and "en_source d = ''detected''"
  shows "(\<exists>cd. co_chardet w sample = Some cd \<and> co_lookup w cd = Some (en_encoding d)) \<and>
    (\<exists>m \<in> set (co_from_bytes w sample). co_lookup w (cm_encoding m) = Some (en_encoding d)) \<and>
    min_confidence \<le> en_confidence d \<and>
    (looks_like_unmarked_wide_encoding sample \<longrightarrow> en_confidence d \<le> no_bom_confidence_ceiling)"
proof -
  have "find (\<lambda>(bom, name). starts_with sample bom) bom_table = None"
  proof (cases "find (\<lambda>(bom, name). starts_with sample bom) bom_table")
    case (Some p)
    obtain bom name where "p = (bom, name)" by (cases p)
    with Some assms show ?thesis by (auto simp: detect_encoding_def)
  qed
  with assms obtain b ms cd cd_name m where answers: "co_from_bytes w sample = b # ms" "co_chardet w sample = Some cd"
    and names: "co_lookup w cd = Some cd_name" "best_corroborating_match w (b # ms) b cd_name = Inr (Some m)"
    and m: "classify_match w m sample min_confidence = Inr d"
    by (auto simp: detect_encoding_def undetermined_def codec_name_def split: option.splits list.splits sum.splits)
  from corroborating_names [OF names(2)] have n: "m \<in> set (b # ms)" "co_lookup w (cm_encoding m) = Some cd_name" by auto
  with m assms(2) have "en_encoding d = cd_name" "min_confidence \<le> en_confidence d"
    "looks_like_unmarked_wide_encoding sample \<longrightarrow> en_confidence d \<le> no_bom_confidence_ceiling"
    by (auto simp: classify_match_def codec_name_def Let_def split: if_splits)
  with answers names(1) n show ?thesis by auto
qed

definition demo_codecs :: codec_world where
  "demo_codecs =
     \<lparr>co_from_bytes = (\<lambda>_. [\<lparr>cm_encoding = ''latin_2'', cm_chaos = 88 / 1000\<rparr>, \<lparr>cm_encoding = ''cp1250'', cm_chaos = 90 / 1000\<rparr>]),
      co_chardet = (\<lambda>_. Some ''Windows-1250''),
      co_lookup = (\<lambda>n. if n \<in> {''cp1250'', ''Windows-1250''} then Some ''cp1250'' else Some ''iso8859-2'')\<rparr>"

lemma detected_encoding_corroborated_witness:
  "\<exists>d. detect_encoding demo_codecs ''id;x'' None default_min_confidence = Inr d \<and> en_encoding d = ''cp1250'' \<and>
     default_min_confidence \<le> en_confidence d"
proof -
  have run: "(case detect_encoding demo_codecs ''id;x'' None default_min_confidence of
      Inl _ \<Rightarrow> False | Inr d \<Rightarrow> en_source d = ''detected'' \<and> en_encoding d = ''cp1250'')" by code_simp
  then obtain d where d: "detect_encoding demo_codecs ''id;x'' None default_min_confidence = Inr d"
    "en_source d = ''detected''" "en_encoding d = ''cp1250''" by (auto split: sum.splits)
  from detected_encoding_corroborated [OF d(1,2)] d show ?thesis by blast
qed

text \<open>A byte-order mark decides; the longer mark of UTF-32 is tried before the UTF-16 mark it begins with.\<close>

lemma bom_decides:
  "map (\<lambda>(bom, name). map_sum id en_encoding (detect_encoding demo_codecs (bom @ ''id'') None default_min_confidence)) bom_table =
     map (Inr \<circ> snd) bom_table"
  by code_simp

text \<open>An undetermined encoding has a name no codec has, so decoding with it is not an \<open>EncodingDetectionError\<close>.\<close>

lemma undetermined_is_not_decodable:
  assumes "decode ''undetermined'' sample = UnknownEncoding"
  shows "decode_strict decode sample undetermined = Inl (Exn PyLookupError [])"
  using assms by (simp add: decode_strict_def undetermined_def)

section \<open>Dialect\<close>

text \<open>\<open>clevercsv.Detector().detect\<close> answers with a delimiter and the quote character of its dialect, or not at all.\<close>

record dialect_detection =
  di_delimiter :: "string option"
  di_quotechar :: string
  di_declined :: bool

definition default_quotechar :: string where "default_quotechar = [CHR 0x22]"

definition detect_dialect :: "(string \<Rightarrow> (string \<times> string option) option) \<Rightarrow> string \<Rightarrow> string option \<Rightarrow> dialect_detection" where
  "detect_dialect clever sample contract_delimiter =
     (case contract_delimiter of
        Some d \<Rightarrow> \<lparr>di_delimiter = Some d, di_quotechar = default_quotechar, di_declined = False\<rparr>
      | None \<Rightarrow>
          (case clever sample of
             None \<Rightarrow> \<lparr>di_delimiter = None, di_quotechar = default_quotechar, di_declined = True\<rparr>
           | Some (delimiter, quotechar) \<Rightarrow>
               if delimiter = [] then \<lparr>di_delimiter = None, di_quotechar = default_quotechar, di_declined = True\<rparr>
               else \<lparr>di_delimiter = Some delimiter,
                 di_quotechar = (case quotechar of None \<Rightarrow> default_quotechar | Some q \<Rightarrow> q), di_declined = False\<rparr>))"

definition to_stdlib_dialect :: "dialect_detection \<Rightarrow> exn + string \<times> string" where
  "to_stdlib_dialect d =
     (case di_delimiter d of
        Some delimiter \<Rightarrow>
          if di_declined d then Inl (dp_error CsvDialectDetectionError [(''diagnostic_code'', VStr ''dialect-detection-declined'')])
          else Inr (delimiter, di_quotechar d)
      | None \<Rightarrow> Inl (dp_error CsvDialectDetectionError [(''diagnostic_code'', VStr ''dialect-detection-declined'')]))"

end
