(* ===== verification/CsvSource.thy ===== *)
theory CsvSource
  imports CsvStream HeaderDetect Compression FilenameMask Detect Discovery
begin

text \<open>
  The CSV source (\<open>CsvSource\<close> in \<open>csv_processor/source.py\<close>, \<open>open_compressed_stream\<close> in
  \<open>compression.py\<close>): inspecting a sample of the object, and opening the record stream the profile
  describes.  The object store, the decompressors and the codecs are parameters (\<open>csv_world\<close>); the
  repository calls of the schema resolution change the catalog.
\<close>

section \<open>Opening streams\<close>

record csv_world =
  cw_get_object :: "string \<Rightarrow> exn + inner_stream"
  cw_gunzip :: "inner_stream \<Rightarrow> inner_stream"
  cw_unzip :: "string \<Rightarrow> (string \<times> inner_stream option) list option"
  cw_decode :: "string \<Rightarrow> string \<Rightarrow> decoding"
  cw_text :: "string \<Rightarrow> string list \<Rightarrow> string \<times> exn option"
  cw_codecs :: codec_world
  cw_clever :: "string \<Rightarrow> (string \<times> string option) option"

definition detect_compression :: "string \<Rightarrow> string option" where
  "detect_compression key =
     (if ends_with key ''.gz'' then Some ''gzip'' else if ends_with key ''.zip'' then Some ''zip'' else None)"

datatype byte_stream = PlainBytes inner_stream | GuardedBytes "inner_stream bomb_guard"

definition corrupted_archive :: "(string \<times> pyval) list \<Rightarrow> exn" where
  "corrupted_archive ctx = dp_error FileInspectionError ((''diagnostic_code'', VStr ''corrupted-archive'') # ctx)"

definition open_zip_stream :: "csv_world \<Rightarrow> inner_stream \<Rightarrow> int \<Rightarrow> exn + byte_stream" where
  "open_zip_stream w body limit =
     (case is_fault body of
        Some e \<Rightarrow> Inl e
      | None \<Rightarrow>
          (case cw_unzip w (is_content body) of
             None \<Rightarrow> Inl (corrupted_archive [])
           | Some members \<Rightarrow>
               (case members of
                  [(name, member)] \<Rightarrow>
                    (case member of
                       None \<Rightarrow> Inl (corrupted_archive [])
                     | Some m \<Rightarrow> Inr (GuardedBytes (new_guard m limit)))
                | _ \<Rightarrow> Inl (corrupted_archive [(''member_count'', VInt (int (length members)))]))))"

definition open_compressed_stream :: "csv_world \<Rightarrow> inner_stream \<Rightarrow> string option \<Rightarrow> int \<Rightarrow> exn + byte_stream" where
  "open_compressed_stream w body compression limit =
     (case compression of
        None \<Rightarrow> Inr (PlainBytes body)
      | Some kind \<Rightarrow>
          if kind = ''gzip'' then Inr (GuardedBytes (new_guard (cw_gunzip w body) limit))
          else if kind = ''zip'' then open_zip_stream w body limit
          else Inl (corrupted_archive []))"

text \<open>\<open>.buffer.read(n)\<close> of the stream's bytes.\<close>

definition read_bytes :: "nat \<Rightarrow> byte_stream \<Rightarrow> exn + string" where
  "read_bytes n s =
     (case s of
        PlainBytes b \<Rightarrow>
          (if length (is_content b) < n \<and> is_fault b \<noteq> None then Inl (the (is_fault b)) else Inr (take n (is_content b)))
      | GuardedBytes g \<Rightarrow> fst (guard_read inner_read (Some (int n)) g))"

text \<open>The text layer reads chunk by chunk until the end or an exception.\<close>

definition text_chunk_size :: nat where "text_chunk_size = 8192"

lemma inner_read_shrinks:
  "inner_read n s = Inr (chunk, s') \<Longrightarrow> chunk \<noteq> [] \<Longrightarrow> length (is_content s') < length (is_content s)"
  using inner.rd_data [of n s chunk s'] by auto

function drain :: "inner_stream \<Rightarrow> string list \<times> exn option" where
  "drain s =
     (case inner_read text_chunk_size s of
        Inl e \<Rightarrow> ([], Some e)
      | Inr (chunk, s') \<Rightarrow> (if chunk = [] then ([], None) else (case drain s' of (cs, e) \<Rightarrow> (chunk # cs, e))))"
  by pat_completeness auto
termination
  by (relation "measure (\<lambda>s. length (is_content s))") (auto simp: inner_read_shrinks)

function drain_guarded :: "inner_stream bomb_guard \<Rightarrow> string list \<times> exn option" where
  "drain_guarded g =
     (case read1 inner_read (int text_chunk_size) g of
        (Inl e, g') \<Rightarrow> ([], Some e)
      | (Inr chunk, g') \<Rightarrow> (if chunk = [] then ([], None) else (case drain_guarded g' of (cs, e) \<Rightarrow> (chunk # cs, e))))"
  by pat_completeness auto
termination
  by (relation "measure room") (auto simp: read1_def dest: chunk_shrinks_room [OF sym])

declare drain.simps [simp del] drain_guarded.simps [simp del]

definition stream_chunks :: "byte_stream \<Rightarrow> string list \<times> exn option" where
  "stream_chunks s = (case s of PlainBytes b \<Rightarrow> drain b | GuardedBytes g \<Rightarrow> drain_guarded g)"

text \<open>An exception takes the line it falls in with it.\<close>

definition complete_lines :: "string list \<Rightarrow> string list" where
  "complete_lines ls = (if ls \<noteq> [] \<and> last (last ls) \<noteq> LF then butlast ls else ls)"

definition stream_text :: "csv_world \<Rightarrow> string \<Rightarrow> byte_stream \<Rightarrow> text_stream" where
  "stream_text w encoding s =
     (case stream_chunks s of (parts, fault) \<Rightarrow>
       (case cw_text w encoding parts of (tx, failed) \<Rightarrow>
          (case (failed, fault) of
             (Some e, _) \<Rightarrow> (complete_lines (text_lines tx), Some e)
           | (None, Some e) \<Rightarrow> (complete_lines (text_lines tx), Some e)
           | (None, None) \<Rightarrow> (text_lines tx, None))))"

text \<open>\<open>open_multipart_stream\<close>: the streams one after the other, up to the first exception.\<close>

fun concat_streams :: "text_stream list \<Rightarrow> text_stream" where
  "concat_streams [] = ([], None)"
| "concat_streams ((ls, raised) # ss) =
     (case raised of Some e \<Rightarrow> (ls, Some e) | None \<Rightarrow> (case concat_streams ss of (ls', e) \<Rightarrow> (ls @ ls', e)))"

section \<open>The source\<close>

definition inspect_sample_bytes :: nat where "inspect_sample_bytes = 65536"

definition max_multipart_parts :: int where "max_multipart_parts = 50"

record csv_source =
  cv_key :: string
  cv_dataset_id :: "int option"
  cv_additional_keys :: "string list"
  cv_chunk_size :: int

definition csv_source_init :: "string \<Rightarrow> int option \<Rightarrow> string list \<Rightarrow> int \<Rightarrow> exn + csv_source" where
  "csv_source_init key dataset_id additional_keys chunk_size =
     (let total_parts = 1 + int (length additional_keys) in
      if total_parts > max_multipart_parts
      then Inl (dp_error FileInspectionError
        [(''diagnostic_code'', VStr ''multipart-group-too-large''), (''part_count'', VInt total_parts), (''max_parts'', VInt max_multipart_parts)])
      else Inr \<lparr>cv_key = key, cv_dataset_id = dataset_id, cv_additional_keys = additional_keys, cv_chunk_size = chunk_size\<rparr>)"

record csv_profile =
  pf_encoding :: string
  pf_encoding_confidence :: rat
  pf_encoding_source :: string
  pf_delimiter :: "string option"
  pf_quotechar :: string
  pf_dialect_declined :: bool
  pf_header_row_index :: "int option"
  pf_header :: "string list"
  pf_preamble_row_count :: int
  pf_footer_row_count :: int
  pf_max_field_bytes :: nat
  pf_compression :: "string option"
  pf_filename_facets :: "(string \<times> facet) list"
  pf_schema_version_id :: "int option"
  pf_compatibility :: "string option"

text \<open>
  The context of a call: the world, the hash and the clock of the repository, the process-wide field
  limit the sample's reader runs under, the dataset's configuration and its filename mask.
\<close>

record csv_context =
  cx_world :: csv_world
  cx_sha256 :: "string \<Rightarrow> string"
  cx_now :: int
  cx_field_limit :: nat
  cx_config :: dataset_config
  cx_filename_mask :: "string option"

definition candidate_rows :: "nat \<Rightarrow> string \<times> string \<Rightarrow> string \<Rightarrow> exn + string list list" where
  "candidate_rows limit dialect sample =
     (case reader_chars dialect of
        Inl e \<Rightarrow> Inl e
      | Inr d \<Rightarrow>
          (case read_rows d limit None (string_io_lines sample) of
             (rows, None) \<Rightarrow> Inr rows
           | (rows, Some e) \<Rightarrow> Inl e))"

definition sample_rows :: "nat \<Rightarrow> dialect_detection \<Rightarrow> string \<Rightarrow> exn + string list list" where
  "sample_rows limit dialect sample =
     (if di_delimiter dialect = None then Inr []
      else (case to_stdlib_dialect dialect of Inl e \<Rightarrow> Inl e | Inr d \<Rightarrow> candidate_rows limit d sample))"

definition resolve_header :: "csv_context \<Rightarrow> csv_source \<Rightarrow> string list \<Rightarrow> (catalog, int option \<times> string option) prog" where
  "resolve_header x src header =
     (case cv_dataset_id src of
        None \<Rightarrow> pr_return (None, None)
      | Some ds \<Rightarrow> pr_call (\<lambda>c.
          case resolve_schema (cx_sha256 x) (cx_now x) ds (ds_columns (cx_config x)) header (schema_get_current ds c) c c of
            Inl e \<Rightarrow> Inl e
          | Inr (c', (v, cb)) \<Rightarrow> Inr (c', (Some v, Some cb))))"

definition sample_bytes :: "csv_context \<Rightarrow> csv_source \<Rightarrow> exn + string" where
  "sample_bytes x src =
     (case cw_get_object (cx_world x) (cv_key src) of
        Inl e \<Rightarrow> Inl e
      | Inr body \<Rightarrow>
          (case open_compressed_stream (cx_world x) body (detect_compression (cv_key src)) default_max_decompressed_bytes of
             Inl e \<Rightarrow> Inl e
           | Inr s \<Rightarrow> read_bytes inspect_sample_bytes s))"

definition csv_inspect :: "csv_context \<Rightarrow> csv_source \<Rightarrow> (catalog, csv_profile) prog" where
  "csv_inspect x src =
     (let w = cx_world x; csv = ds_csv (cx_config x) in
      pr_bind (pr_lift (sample_bytes x src)) (\<lambda>sample.
      pr_bind (pr_lift (detect_encoding (cw_codecs w) sample (cp_encoding csv) default_min_confidence)) (\<lambda>en.
      pr_bind (pr_lift (decode_strict (cw_decode w) sample en)) (\<lambda>decoded.
      let di = detect_dialect (cw_clever w) decoded (cp_delimiter csv) in
      pr_bind (pr_lift (sample_rows (cx_field_limit x) di decoded)) (\<lambda>rows.
      pr_bind (pr_lift (detect_header rows (cp_header_row csv) (cp_header_trim csv) 0 [])) (\<lambda>h.
      pr_bind (resolve_header x src (hd_trimmed_header h)) (\<lambda>(version, cb).
      pr_bind (pr_lift (case cx_filename_mask x of None \<Rightarrow> Inr [] | Some m \<Rightarrow> parse_filename m (base_name (cv_key src)))) (\<lambda>facets.
        pr_return
          \<lparr>pf_encoding = en_encoding en, pf_encoding_confidence = en_confidence en, pf_encoding_source = en_source en,
           pf_delimiter = di_delimiter di, pf_quotechar = di_quotechar di, pf_dialect_declined = di_declined di,
           pf_header_row_index = hd_header_row_index h, pf_header = hd_trimmed_header h,
           pf_preamble_row_count = hd_preamble_row_count h,
           pf_footer_row_count = int (length (hd_footer_row_indices h)), pf_max_field_bytes = cp_max_field_bytes csv,
           pf_compression = detect_compression (cv_key src), pf_filename_facets = facets,
           pf_schema_version_id = version, pf_compatibility = cb\<rparr>))))))))"

definition open_part :: "csv_world \<Rightarrow> csv_profile \<Rightarrow> string \<Rightarrow> exn + text_stream" where
  "open_part w profile key =
     (case cw_get_object w key of
        Inl e \<Rightarrow> Inl e
      | Inr body \<Rightarrow>
          (case open_compressed_stream w body (pf_compression profile) default_max_decompressed_bytes of
             Inl e \<Rightarrow> Inl e
           | Inr s \<Rightarrow> Inr (stream_text w (pf_encoding profile) s)))"

definition profile_dialect :: "csv_profile \<Rightarrow> dialect_detection" where
  "profile_dialect p = \<lparr>di_delimiter = pf_delimiter p, di_quotechar = pf_quotechar p, di_declined = pf_dialect_declined p\<rparr>"

definition csv_open :: "csv_context \<Rightarrow> csv_source \<Rightarrow> (catalog, csv_profile \<times> csv_record_stream) prog" where
  "csv_open x src =
     pr_bind (csv_inspect x src) (\<lambda>profile.
     pr_bind (pr_lift (to_stdlib_dialect (profile_dialect profile))) (\<lambda>dialect.
     pr_bind (pr_lift (traverse (open_part (cx_world x) profile) (cv_key src # cv_additional_keys src))) (\<lambda>streams.
       pr_return (profile,
         \<lparr>cs_text_stream = concat_streams streams, cs_dialect = dialect,
          cs_preamble_rows = (case pf_header_row_index profile of None \<Rightarrow> 0 | Some i \<Rightarrow> i),
          cs_max_field_bytes = pf_max_field_bytes profile, cs_chunk_size = cv_chunk_size src\<rparr>))))"

section \<open>What is opened is what was inspected\<close>

lemma drain_plain: "is_fault s = None \<Longrightarrow> \<exists>cs. drain s = (cs, None) \<and> concat cs = is_content s"
proof (induction s rule: drain.induct)
  case (1 s)
  show ?case
  proof (cases "inner_read text_chunk_size s")
    case (Inl e)
    from inner.rd_fault [OF this] "1.prems" show ?thesis by simp
  next
    case (Inr out)
    obtain chunk s' where out: "out = (chunk, s')" by fastforce
    note data = inner.rd_data [OF Inr [unfolded out]]
    show ?thesis
    proof (cases "chunk = []")
      case True
      with inner.rd_progress [of text_chunk_size s s'] Inr out show ?thesis
        by (subst drain.simps) (simp add: text_chunk_size_def)
    next
      case False
      with "1.IH" [OF Inr out [symmetric]] data "1.prems" obtain cs where "drain s' = (cs, None)" "concat cs = is_content s'" by auto
      with Inr out False data show ?thesis by (subst drain.simps) simp
    qed
  qed
qed

text \<open>What the codecs document: decoding chunk by chunk gives what decoding the whole gives.\<close>

definition decodes :: "csv_world \<Rightarrow> string \<Rightarrow> string \<Rightarrow> string \<Rightarrow> bool" where
  "decodes w encoding content tx \<longleftrightarrow>
     cw_decode w encoding content = Decoded tx \<and> (\<forall>cs. concat cs = content \<longrightarrow> cw_text w encoding cs = (tx, None))"

lemma stream_text_plain:
  assumes "is_fault b = None" and "decodes w encoding (is_content b) tx"
  shows "stream_text w encoding (PlainBytes b) = (text_lines tx, None)"
proof -
  obtain cs where "drain b = (cs, None)" "concat cs = is_content b" using drain_plain [OF assms(1)] by blast
  with assms(2) show ?thesis by (simp add: stream_text_def stream_chunks_def decodes_def)
qed

text \<open>The profile of an inspection records the row the header was found in.\<close>

lemma csv_inspect_Inr:
  assumes "csv_inspect x src c = (Inr p, c')"
  obtains sample en tx rows h where "sample_bytes x src = Inr sample"
    "detect_encoding (cw_codecs (cx_world x)) sample (cp_encoding (ds_csv (cx_config x))) default_min_confidence = Inr en"
    "decode_strict (cw_decode (cx_world x)) sample en = Inr tx"
    "sample_rows (cx_field_limit x) (detect_dialect (cw_clever (cx_world x)) tx (cp_delimiter (ds_csv (cx_config x)))) tx = Inr rows"
    "detect_header rows (cp_header_row (ds_csv (cx_config x))) (cp_header_trim (ds_csv (cx_config x))) 0 [] = Inr h"
    "pf_encoding p = en_encoding en" "profile_dialect p = detect_dialect (cw_clever (cx_world x)) tx (cp_delimiter (ds_csv (cx_config x)))"
    "pf_header_row_index p = hd_header_row_index h" "pf_header p = hd_trimmed_header h"
    "pf_max_field_bytes p = cp_max_field_bytes (ds_csv (cx_config x))" "pf_compression p = detect_compression (cv_key src)"
  using assms by (auto simp: csv_inspect_def Let_def pr_bind_Inr profile_dialect_def split: prod.splits intro!: that)

lemma detected_row:
  assumes "detect_header rows contract trim skip patterns = Inr h" and "hd_header_row_index h = Some (int k)" and "k < length rows"
  shows "hd_trimmed_header h = (if trim then map strip (rows ! k) else rows ! k)"
proof (cases contract)
  case None
  with assms(1,2) obtain i raw where "find_header_row 0 rows = Some (i, raw)" "h = header_found rows trim skip patterns (int i) raw"
    by (auto simp: detect_header_def not_found_def split: option.splits)
  with find_header_row_Some [of 0 rows i raw] assms(2) show ?thesis by (auto simp: header_found_def Let_def)
next
  case (Some i)
  with assms(1) obtain raw where "seq_index rows i = Some raw" "h = header_found rows trim skip patterns i raw"
    by (auto simp: detect_header_def split: option.splits)
  with assms(2,3) show ?thesis by (auto simp: header_found_def Let_def seq_index_def)
qed

lemma field_ok_mono: "field_ok d l f \<Longrightarrow> l \<le> l' \<Longrightarrow> field_ok d l' f"
  by (auto simp: field_ok_def)

lemma row_ok_mono: "list_all (row_ok d l) rows \<Longrightarrow> l \<le> l' \<Longrightarrow> list_all (row_ok d l') rows"
  by (fastforce simp: list_all_iff row_ok_def intro: field_ok_mono)

text \<open>Opening and reading an uncompressed file whose contents fit into the sample.\<close>

lemma opened_file_read:
  assumes opened: "csv_open x src c = (Inr (p, s), c')" and single: "cv_additional_keys src = []"
    and plain: "detect_compression (cv_key src) = None" "cw_get_object (cx_world x) (cv_key src) = Inr b" "is_fault b = None"
    and small: "length (is_content b) \<le> inspect_sample_bytes"
    and whole: "decodes (cx_world x) (pf_encoding p) (is_content b) (write_table d eol rows)"
    and dialect: "pf_delimiter p = Some [ch_delimiter d]" "pf_quotechar p = [ch_quotechar d]" "chars_ok d" "eol \<in> set line_ends"
    and rows: "list_all (row_ok d l) rows" "l \<le> cx_field_limit x" "l \<le> pf_max_field_bytes p" "NUL \<notin> set (write_table d eol rows)"
    and header: "pf_header_row_index p = Some (int k)" "k < length rows" and size: "1 \<le> cv_chunk_size src"
  shows "\<exists>cs. chunks None s = (cs, None) \<and> concat (map rc_rows cs) = map (map (\<lambda>f. CStr (snd f))) (drop (Suc k) rows) \<and>
    (\<forall>c \<in> set cs. rc_expected_field_count c = length (rows ! k)) \<and>
    pf_header p = (if cp_header_trim (ds_csv (cx_config x)) then map (\<lambda>f. strip (snd f)) (rows ! k) else map snd (rows ! k))"
proof -
  let ?w = "cx_world x" and ?csv = "ds_csv (cx_config x)"
  from opened obtain c1 chosen streams where inspected: "csv_inspect x src c = (Inr p, c1)"
    and chosen: "to_stdlib_dialect (profile_dialect p) = Inr chosen"
    and streams: "traverse (open_part ?w p) (cv_key src # cv_additional_keys src) = Inr streams"
    and s: "s = \<lparr>cs_text_stream = concat_streams streams, cs_dialect = chosen,
      cs_preamble_rows = (case pf_header_row_index p of None \<Rightarrow> 0 | Some i \<Rightarrow> i),
      cs_max_field_bytes = pf_max_field_bytes p, cs_chunk_size = cv_chunk_size src\<rparr>"
    unfolding csv_open_def pr_bind_Inr by auto
  from inspected obtain sample en tx table h where steps: "sample_bytes x src = Inr sample"
    "decode_strict (cw_decode ?w) sample en = Inr tx"
    "sample_rows (cx_field_limit x) (detect_dialect (cw_clever ?w) tx (cp_delimiter ?csv)) tx = Inr table"
    "detect_header table (cp_header_row ?csv) (cp_header_trim ?csv) 0 [] = Inr h"
    "pf_encoding p = en_encoding en" "profile_dialect p = detect_dialect (cw_clever ?w) tx (cp_delimiter ?csv)"
    "pf_header_row_index p = hd_header_row_index h" "pf_header p = hd_trimmed_header h"
    "pf_compression p = detect_compression (cv_key src)"
    by (rule csv_inspect_Inr)
  have "sample = is_content b"
    using steps(1) plain small by (simp add: sample_bytes_def open_compressed_stream_def read_bytes_def)
  then have tx: "tx = write_table d eol rows"
    using steps(2) whole by (simp add: decode_strict_def decodes_def steps(5))
  have chosen_eq: "chosen = ([ch_delimiter d], [ch_quotechar d])"
    using chosen dialect by (simp add: to_stdlib_dialect_def profile_dialect_def split: if_splits)
  then have chars: "reader_chars chosen = Inr d" by (simp add: reader_chars_def)
  have "sample_rows (cx_field_limit x) (profile_dialect p) tx = Inr (map (map snd) rows)"
    using string_io_rows_written [OF dialect(3,4) row_ok_mono [OF rows(1,2)]] chosen dialect(1)
    by (simp add: sample_rows_def candidate_rows_def chars tx profile_dialect_def)
  then have table: "table = map (map snd) rows" using steps(3) by (simp add: steps(6))
  have head: "pf_header p = (if cp_header_trim ?csv then map (\<lambda>f. strip (snd f)) (rows ! k) else map snd (rows ! k))"
    using detected_row [OF steps(4)] header steps(7,8) by (simp add: table comp_def)
  have lines: "concat_streams streams = (text_lines (write_table d eol rows), None)"
    using streams single plain steps(9) stream_text_plain [OF plain(3) whole]
    by (auto simp: open_part_def open_compressed_stream_def)
  have split: "rows = take k rows @ rows ! k # drop (Suc k) rows" using header(2) by (rule id_take_nth_drop)
  have len: "int (length (take k rows)) = int k" using header(2) by simp
  have ok: "list_all (row_ok d (pf_max_field_bytes p)) (take k rows @ rows ! k # drop (Suc k) rows)"
    using row_ok_mono [OF rows(1,3)] by (simp flip: split)
  have nul: "NUL \<notin> set (write_table d eol (take k rows @ rows ! k # drop (Suc k) rows))"
    using rows(4) by (simp flip: split)
  note written = written_stream [OF dialect(3,4) size ok nul]
  have "chunks None s = (number_batches (length (rows ! k)) 0 (batches_before (nat (cv_chunk_size src)) (map (map snd) (drop (Suc k) rows), None)), None)"
    using written(1) lines header(1) unfolding split [symmetric] len by (simp add: chunks_def all_chunks_def s chars)
  with written(2,3) head show ?thesis by blast
qed


text \<open>An uncompressed object in an encoding the world decodes byte by byte.\<close>

definition demo_bytes :: "string \<Rightarrow> csv_world" where
  "demo_bytes content =
     \<lparr>cw_get_object = (\<lambda>_. Inr \<lparr>is_content = content, is_short = [5], is_fault = None\<rparr>), cw_gunzip = (\<lambda>s. s), cw_unzip = (\<lambda>_. None),
      cw_decode = (\<lambda>_ s. Decoded s), cw_text = (\<lambda>_ cs. (concat cs, None)), cw_codecs = demo_codecs, cw_clever = (\<lambda>_. None)\<rparr>"

definition demo_context :: "string \<Rightarrow> string option \<Rightarrow> csv_context" where
  "demo_context content m =
     \<lparr>cx_world = demo_bytes content, cx_sha256 = (\<lambda>s. s), cx_now = 9, cx_field_limit = 131072,
      cx_config = (da_config demo_args)\<lparr>ds_csv := default_csv_parsing\<lparr>cp_encoding := Some ''utf-8'', cp_delimiter := Some '',''\<rparr>,
        ds_columns := demo_contract\<rparr>,
      cx_filename_mask = m\<rparr>"

definition demo_source :: "int option \<Rightarrow> csv_source" where
  "demo_source ds = \<lparr>cv_key = ''in/a.csv'', cv_dataset_id = ds, cv_additional_keys = [], cv_chunk_size = 2\<rparr>"


section \<open>Where inspection and reading part\<close>

text \<open>
  The sample's reader ends lines at line feeds only, so a file whose lines end in carriage returns cannot
  be inspected, although the record stream reads it.
\<close>

lemma carriage_return_file_not_inspected:
  "candidate_rows 99 ('','', [CHR 0x22]) (''a,b'' @ [CR] @ ''1,2'' @ [CR]) = Inl (Exn CsvError [])"
  "read_rows excel 99 None (text_lines (''a,b'' @ [CR] @ ''1,2'' @ [CR])) = ([[''a'', ''b''], [''1'', ''2'']], None)"
  by code_simp+

text \<open>A sample that ends inside a character is undecodable, whatever the whole object is.\<close>

lemma cut_character_refused:
  assumes "cv_additional_keys src = []" and "detect_compression (cv_key src) = None"
    and "cw_get_object (cx_world x) (cv_key src) = Inr b" and "is_fault b = None"
    and "cp_encoding (ds_csv (cx_config x)) = Some e"
    and "cw_decode (cx_world x) e (take inspect_sample_bytes (is_content b)) = Undecodable"
  shows "\<exists>err. csv_inspect x src c = (Inl err, c) \<and> exn_class err = EncodingDetectionError"
  using assms
  by (simp add: csv_inspect_def sample_bytes_def open_compressed_stream_def read_bytes_def detect_encoding_def decode_strict_def
      pr_bind_def pr_lift_def dp_error_def reserved_context_keys_def)

text \<open>The header of a file is recorded as a schema version before the file is rejected for its name.\<close>

lemma rejected_file_recorded:
  "(case csv_inspect (demo_context (''id,country,extra'' @ [LF]) (Some ''b.csv'')) (demo_source (Some 1)) demo_catalog of
      (r, c') \<Rightarrow> map_sum exn_class pf_header r = Inl FilenameParsingError \<and>
        length (vt_rows (ct_schemas demo_catalog)) = 1 \<and> length (vt_rows (ct_schemas c')) = 2)"
  by code_simp

end
