(* ===== verification/Commands.thy ===== *)
theory Commands
  imports Pods StageRun PublishRun DiscoverySettled CsvSource
begin

text \<open>
  The three commands of a pod, \<open>discover\<close>, \<open>stage\<close> and \<open>publish\<close> (\<open>csv_processor/cli.py\<close>), and the
  exit code of \<open>dataplat.cli.main\<close>.  A command builds its connections, runs one operation of the library
  on the platform and writes one document for XCom.  The platform is everything that outlives the pod, with
  the pod's own process beside it.
\<close>

section \<open>The platform\<close>

datatype xcom =
    XUnits "discovered_unit list"
  | XReceipt receipt
  | XOutcome publish_outcome
  | XFailed err_class

record platform =
  pl_process :: process
  pl_data :: discovery_state
  pl_bronze :: "staged_row list"
  pl_reports :: "(string \<times> report) list"
  pl_silver :: "merge_row list"
  pl_gold :: gold_map
  pl_scd :: warehouse
  pl_xcom :: "xcom option"

text \<open>The parts the library's operations work on.\<close>

definition lake_of :: "platform \<Rightarrow> lake" where
  "lake_of p = \<lparr>lk_meta = dy_meta (pl_data p), lk_bronze = pl_bronze p, lk_reports = pl_reports p\<rparr>"

definition put_lake :: "lake \<Rightarrow> platform \<Rightarrow> platform" where
  "put_lake l p = p\<lparr>pl_data := set_meta (lk_meta l) (pl_data p), pl_bronze := lk_bronze l, pl_reports := lk_reports l\<rparr>"

definition gold_db_of :: "platform \<Rightarrow> gold_db" where
  "gold_db_of p = \<lparr>gb_meta = dy_meta (pl_data p), gb_silver = pl_silver p, gb_gold = pl_gold p, gb_scd = pl_scd p\<rparr>"

definition put_gold :: "gold_db \<Rightarrow> platform \<Rightarrow> platform" where
  "put_gold g p = p\<lparr>pl_data := set_meta (gb_meta g) (pl_data p), pl_silver := gb_silver g, pl_gold := gb_gold g, pl_scd := gb_scd g\<rparr>"

definition in_process :: "(process, 'a) prog \<Rightarrow> (platform, 'a) prog" where
  "in_process m = (\<lambda>p. case m (pl_process p) of (r, s) \<Rightarrow> (r, p\<lparr>pl_process := s\<rparr>))"

definition on_data :: "(discovery_state, 'a) prog \<Rightarrow> (platform, 'a) prog" where
  "on_data m = (\<lambda>p. case m (pl_data p) of (r, s) \<Rightarrow> (r, p\<lparr>pl_data := s\<rparr>))"

text \<open>
  What the commands call: the object store, pydantic's validation of a document and of a stored
  configuration, the libraries behind the CSV source, and the parameters of the library's operations.
\<close>

record 'v command_world =
  cm_pod :: pod
  cm_get_text :: "string \<Rightarrow> string \<Rightarrow> exn + string"
  cm_validate :: "string \<Rightarrow> assignment_document option"
  cm_model_validate :: "json \<Rightarrow> exn + dataset_config"
  cm_model_dump :: "dataset_config \<Rightarrow> json"
  cm_config :: "'v config_world"
  cm_discovery :: "dataset_config \<Rightarrow> discovery_world"
  cm_max_units :: "dataset_config \<Rightarrow> int"
  cm_filename_mask :: "dataset_config \<Rightarrow> string option"
  cm_csv :: "string \<Rightarrow> csv_world"
  cm_field_limit :: nat
  cm_stage :: stage_world
  cm_publish :: publish_world
  cm_sha256 :: "string \<Rightarrow> string"
  cm_now :: int
  cm_start :: int
  cm_polls :: "nat \<Rightarrow> poll"
  cm_trace :: "string option \<times> string option"
  cm_version :: string
  cm_write :: "string \<Rightarrow> exn + unit"

section \<open>The XCom document\<close>

definition default_xcom_path :: string where
  "default_xcom_path = ''/airflow/xcom/return.json''"

definition write_xcom :: "'v command_world \<Rightarrow> xcom \<Rightarrow> (platform, unit) prog" where
  "write_xcom w x = pr_call (\<lambda>p.
     case cm_write w (environ_get (cm_pod w) ''DATAPLAT_XCOM_PATH'' default_xcom_path) of
       Inl e \<Rightarrow> Inl e
     | Inr _ \<Rightarrow> Inr (p\<lparr>pl_xcom := Some x\<rparr>, ()))"

text \<open>\<open>except ...: _write_xcom(...); raise\<close>, and \<open>finally: pool.close()\<close> once \<open>_build_common\<close> returned.\<close>

definition on_failure :: "'v command_world \<Rightarrow> (exn \<Rightarrow> bool) \<Rightarrow> (exn \<Rightarrow> xcom) \<Rightarrow> (exn + unit) \<times> platform \<Rightarrow> (exn + unit) \<times> platform" where
  "on_failure w caught document outcome =
     (case outcome of
        (Inl e, p) \<Rightarrow> if caught e then pr_bind (write_xcom w (document e)) (\<lambda>_. pr_raise e) p else (Inl e, p)
      | (Inr u, p) \<Rightarrow> (Inr u, p))"

definition closing :: "(exn + unit) \<times> platform \<Rightarrow> (exn + unit) \<times> platform" where
  "closing outcome = (fst outcome, (snd outcome)\<lparr>pl_process := (pl_process (snd outcome))\<lparr>pc_pool := None\<rparr>\<rparr>)"

definition platform_error :: "exn \<Rightarrow> bool" where
  "platform_error e \<longleftrightarrow> is_subclass (exn_class e) DataPlatformError"

definition failed_payload :: "exn \<Rightarrow> xcom" where
  "failed_payload e = XFailed (exn_class e)"

definition failure_receipt :: "assignment_document option \<Rightarrow> receipt" where
  "failure_receipt doc =
     \<lparr>rp_run_id = (case doc of None \<Rightarrow> -1 | Some d \<Rightarrow> as_run_id d), rp_status = ''FAILED'', rp_rows_read = 0, rp_rows_loaded = 0,
      rp_rows_invalid = 0, rp_rows_deduplicated = 0, rp_duration_ms = 0, rp_rows_quarantined = 0, rp_report_uri = None\<rparr>"

section \<open>discover\<close>

definition config_path :: "string \<Rightarrow> string" where
  "config_path dataset = ''configs/datasets/'' @ dataset @ ''.yaml''"

definition defaults_path :: string where "defaults_path = ''configs/defaults.yaml''"

text \<open>\<open>ConfigRegistry(pool).sync\<close> and \<open>get_or_create_dataset\<close>.\<close>

definition sync_config :: "'v command_world \<Rightarrow> string \<Rightarrow> dataset_config \<Rightarrow> (platform, config_version_record) prog" where
  "sync_config w dataset cfg = on_data (pr_call (\<lambda>s.
     case config_sync (cm_sha256 w) (cm_now w) dataset (cm_model_dump w cfg) (dy_catalog s) of
       Inl e \<Rightarrow> Inl e
     | Inr (c, r) \<Rightarrow> Inr (s\<lparr>dy_catalog := c\<rparr>, r)))"

definition resolve_dataset :: "string \<Rightarrow> (platform, int) prog" where
  "resolve_dataset name = on_data (meta_call (\<lambda>db. Inr (get_or_create_dataset name db)))"

definition discovery_args_of :: "'v command_world \<Rightarrow> string \<Rightarrow> dataset_config \<Rightarrow> int \<Rightarrow> config_version_record \<Rightarrow> discovery_args" where
  "discovery_args_of w dataset cfg dataset_id version =
     \<lparr>da_dataset_id = dataset_id, da_dataset_name = dataset, da_config = cfg, da_max_units_per_run = cm_max_units w cfg,
      da_config_version_id = cv_config_version_id version, da_config_hash = cv_config_hash version,
      da_processor_image = environ_get (cm_pod w) ''DATAPLAT_PROCESSOR_IMAGE'' ''unknown'', da_processor_version = cm_version w\<rparr>"

definition discover_body :: "'v command_world \<Rightarrow> string \<Rightarrow> (platform, unit) prog" where
  "discover_body w dataset =
     pr_bind (pr_lift (load_dataset_config (cm_config w) (config_path dataset) defaults_path)) (\<lambda>cfg.
     pr_bind (sync_config w dataset cfg) (\<lambda>version.
     pr_bind (resolve_dataset dataset) (\<lambda>dataset_id.
     pr_bind (on_data (discover_files (cm_discovery w cfg) (discovery_args_of w dataset cfg dataset_id version))) (\<lambda>units.
     write_xcom w (XUnits units)))))"

definition discover_command :: "'v command_world \<Rightarrow> string \<Rightarrow> platform \<Rightarrow> (exn + unit) \<times> platform" where
  "discover_command w dataset p =
     (case in_process (build_common (cm_pod w)) p of
        (Inl e, p1) \<Rightarrow> on_failure w platform_error failed_payload (Inl e, p1)
      | (Inr _, p1) \<Rightarrow> closing (on_failure w platform_error failed_payload (discover_body w dataset p1)))"

section \<open>stage\<close>

definition read_assignment :: "'v command_world \<Rightarrow> string \<Rightarrow> (platform, assignment_document) prog" where
  "read_assignment w assignment =
     pr_bind (pr_lift (parse_s3_uri (pd_netloc_ok (cm_pod w)) assignment)) (\<lambda>(bucket, key).
     pr_bind (pr_lift (cm_get_text w bucket key)) (\<lambda>raw_text.
     pr_lift (case cm_validate w raw_text of
                None \<Rightarrow> Inl (dp_error ConfigurationError [(''assignment'', VStr assignment)])
              | Some doc \<Rightarrow> Inr doc)))"

record stage_plan =
  sp_config :: dataset_config
  sp_run :: run_context
  sp_bucket :: string
  sp_source :: csv_source
  sp_wait_us :: int

definition optional_int :: "string option \<Rightarrow> exn + int option" where
  "optional_int raw =
     (case raw of
        None \<Rightarrow> Inr None
      | Some t \<Rightarrow> (case py_int t of None \<Rightarrow> Inl (Exn PyValueError []) | Some i \<Rightarrow> Inr (Some i)))"

text \<open>\<open>float(...)\<close> of a number of seconds; an infinite or NaN text is not modelled.\<close>

definition seconds :: "string \<Rightarrow> exn + rat" where
  "seconds t = (case py_float t of Some (FFin q) \<Rightarrow> Inr q | _ \<Rightarrow> Inl (Exn PyValueError []))"

definition run_context_of :: "'v command_world \<Rightarrow> assignment_document \<Rightarrow> exn + run_context" where
  "run_context_of w doc =
     (let env = pd_environ (cm_pod w) in
      case py_int (environ_get (cm_pod w) ''AIRFLOW_TASK_TRY_NUMBER'' ''1'') of
        None \<Rightarrow> Inl (Exn PyValueError [])
      | Some attempt \<Rightarrow>
          (case optional_int (env ''AIRFLOW_CTX_MAP_INDEX'') of
             Inl e \<Rightarrow> Inl e
           | Inr map_index \<Rightarrow> Inr
               \<lparr>cx_run_id = as_run_id doc, cx_idempotency_key = as_idempotency_key doc,
                cx_claim = \<lparr>ca_try_number = attempt, ca_pod_name = environ_get (cm_pod w) ''HOSTNAME'' ''unknown'',
                  ca_trace_id = fst (cm_trace w), ca_span_id = snd (cm_trace w), ca_dag_id = env ''AIRFLOW_CTX_DAG_ID'',
                  ca_dag_run_id = env ''AIRFLOW_CTX_DAG_RUN_ID'', ca_task_id = env ''AIRFLOW_CTX_TASK_ID'',
                  ca_map_index = map_index, ca_k8s_namespace = env ''AIRFLOW_CTX_K8S_NAMESPACE''\<rparr>,
                cx_file_id = Some (fa_file_id (as_file doc)), cx_batch_id = Some (as_batch_id doc),
                cx_batch_expected_row_count = map_option bm_expected_row_count (as_manifest doc)\<rparr>))"

text \<open>\<open>CsvSource\<close> reads 1000 records per chunk when it is not told otherwise.\<close>

definition default_chunk_size :: int where "default_chunk_size = 1000"

definition plan_stage :: "'v command_world \<Rightarrow> assignment_document \<Rightarrow> (platform, stage_plan) prog" where
  "plan_stage w doc =
     (let parse = (\<lambda>f. parse_s3_uri (pd_netloc_ok (cm_pod w)) (fa_object_uri f)) in
      pr_bind (pr_query (\<lambda>p. config_get_by_id (as_config_version_id doc) (dy_catalog (pl_data p)))) (\<lambda>stored.
      pr_bind (pr_lift stored) (\<lambda>document.
      pr_bind (pr_lift (cm_model_validate w document)) (\<lambda>cfg.
      pr_bind (pr_lift (parse (as_file doc))) (\<lambda>(bucket, key).
      pr_bind (pr_lift (traverse (\<lambda>part. map_sum id snd (parse part)) (as_additional_parts doc))) (\<lambda>additional_keys.
      pr_bind (resolve_dataset (as_dataset doc)) (\<lambda>dataset_id.
      pr_bind (pr_lift (run_context_of w doc)) (\<lambda>cx.
      pr_bind (pr_lift (csv_source_init key (Some dataset_id) additional_keys default_chunk_size)) (\<lambda>source.
      pr_bind (pr_lift (seconds (environ_get (cm_pod w) ''DATAPLAT_HEARTBEAT_INTERVAL_SECONDS'' ''60.0''))) (\<lambda>_.
      pr_bind (pr_lift (seconds (environ_get (cm_pod w) ''DATAPLAT_STAGE_CONCURRENT_WAIT_SECONDS'' ''420.0''))) (\<lambda>wait.
        pr_return \<lparr>sp_config = cfg, sp_run = cx, sp_bucket = bucket, sp_source = source, sp_wait_us = \<lfloor>wait * 1000000\<rfloor>\<rparr>)))))))))))"

text \<open>
  What opening the planned source gives: the catalog as the command found it is the one the header is
  resolved against.  The schema version it registers is that of \<open>csv_open\<close>; the platform keeps the rest.
\<close>

definition planned_context :: "'v command_world \<Rightarrow> stage_plan \<Rightarrow> csv_context" where
  "planned_context w plan =
     \<lparr>cx_world = cm_csv w (sp_bucket plan), cx_sha256 = cm_sha256 w, cx_now = cm_now w, cx_field_limit = cm_field_limit w,
      cx_config = sp_config plan, cx_filename_mask = cm_filename_mask w (sp_config plan)\<rparr>"

definition planned_world :: "'v command_world \<Rightarrow> stage_plan \<Rightarrow> catalog \<Rightarrow> stage_world" where
  "planned_world w plan c =
     (case csv_open (planned_context w plan) (sp_source plan) c of
        (Inl e, _) \<Rightarrow> (cm_stage w)\<lparr>sw_source := Inl e, sw_schema_version := None\<rparr>
      | (Inr (profile, stream), _) \<Rightarrow>
          (cm_stage w)\<lparr>sw_source := Inr (chunks None stream), sw_schema_version := pf_schema_version_id profile\<rparr>)"

definition run_stage :: "'v command_world \<Rightarrow> stage_plan \<Rightarrow> platform \<Rightarrow> ((exn + receipt) \<times> platform) option" where
  "run_stage w plan p =
     map_option (\<lambda>(r, l). (r, put_lake l p))
       (stage_ingest (planned_world w plan (dy_catalog (pl_data p))) (sp_config plan) (sp_run plan)
          (cm_now w) (cm_start w) (sp_wait_us plan) (cm_polls w) (lake_of p))"

text \<open>Every exception writes the failure receipt of the document read so far; \<open>None\<close>: the wait never ends.\<close>

definition stage_failed_with :: "'v command_world \<Rightarrow> assignment_document option \<Rightarrow> (exn + unit) \<times> platform \<Rightarrow> (exn + unit) \<times> platform" where
  "stage_failed_with w doc = on_failure w (\<lambda>_. True) (\<lambda>_. XReceipt (failure_receipt doc))"

definition stage_command :: "'v command_world \<Rightarrow> string \<Rightarrow> platform \<Rightarrow> ((exn + unit) \<times> platform) option" where
  "stage_command w assignment p =
     (case in_process (build_common (cm_pod w)) p of
        (Inl e, p1) \<Rightarrow> Some (stage_failed_with w None (Inl e, p1))
      | (Inr _, p1) \<Rightarrow>
          (case read_assignment w assignment p1 of
             (Inl e, p2) \<Rightarrow> Some (closing (stage_failed_with w None (Inl e, p2)))
           | (Inr doc, p2) \<Rightarrow>
               (case plan_stage w doc p2 of
                  (Inl e, p3) \<Rightarrow> Some (closing (stage_failed_with w (Some doc) (Inl e, p3)))
                | (Inr plan, p3) \<Rightarrow>
                    (case run_stage w plan p3 of
                       None \<Rightarrow> None
                     | Some (Inl e, p4) \<Rightarrow> Some (closing (stage_failed_with w (Some doc) (Inl e, p4)))
                     | Some (Inr receipt, p4) \<Rightarrow>
                         Some (closing (stage_failed_with w (Some doc) (write_xcom w (XReceipt receipt) p4)))))))"

section \<open>publish\<close>

definition publish_body :: "'v command_world \<Rightarrow> string \<Rightarrow> (platform, unit) prog" where
  "publish_body w dataset =
     pr_bind (pr_lift (load_dataset_config (cm_config w) (config_path dataset) defaults_path)) (\<lambda>cfg.
     pr_bind (sync_config w dataset cfg) (\<lambda>_.
     pr_bind (pr_lift (optional_int (Some (environ_get (cm_pod w) ''AIRFLOW_TASK_TRY_NUMBER'' ''1'')))) (\<lambda>_.
     pr_bind (pr_lift (optional_int (pd_environ (cm_pod w) ''AIRFLOW_CTX_MAP_INDEX''))) (\<lambda>_.
     pr_bind (\<lambda>p. case publish_ingest (cm_publish w) cfg (gold_db_of p) of (r, g) \<Rightarrow> (r, put_gold g p)) (\<lambda>result.
     write_xcom w (XOutcome result))))))"

definition publish_command :: "'v command_world \<Rightarrow> string \<Rightarrow> platform \<Rightarrow> (exn + unit) \<times> platform" where
  "publish_command w dataset p =
     (case in_process (build_common (cm_pod w)) p of
        (Inl e, p1) \<Rightarrow> on_failure w (\<lambda>_. True) failed_payload (Inl e, p1)
      | (Inr _, p1) \<Rightarrow> closing (on_failure w (\<lambda>_. True) failed_payload (publish_body w dataset p1)))"

section \<open>The exit code\<close>

text \<open>
  What \<open>click\<close> makes of the arguments: a command ran, or one of its own exceptions.  \<open>Inl\<close> is an
  exception that leaves \<open>main\<close>.
\<close>

datatype dispatch = Ran "exn + unit" | ClickExit int | ClickException int | ClickAbort

definition main_exit :: "dispatch \<Rightarrow> exn + int" where
  "main_exit d =
     (case d of
        Ran (Inr _) \<Rightarrow> Inr 0
      | Ran (Inl e) \<Rightarrow> if platform_error e then Inr 1 else Inl e
      | ClickExit code \<Rightarrow> Inr code
      | ClickException code \<Rightarrow> Inr code
      | ClickAbort \<Rightarrow> Inr 1)"

section \<open>A command always answers\<close>

definition xcom_writable :: "'v command_world \<Rightarrow> bool" where
  "xcom_writable w \<longleftrightarrow> cm_write w (environ_get (cm_pod w) ''DATAPLAT_XCOM_PATH'' default_xcom_path) = Inr ()"

lemma write_xcom_writable: "xcom_writable w \<Longrightarrow> write_xcom w x p = (Inr (), p\<lparr>pl_xcom := Some x\<rparr>)"
  by (simp add: write_xcom_def xcom_writable_def pr_defs)

lemma on_failure_writable:
  "xcom_writable w \<Longrightarrow> on_failure w caught document (Inl e, p) =
     (Inl e, if caught e then p\<lparr>pl_xcom := Some (document e)\<rparr> else p)"
  "on_failure w caught document (Inr u, p) = (Inr u, p)"
  by (simp_all add: on_failure_def pr_bind_def write_xcom_writable pr_raise_def)

lemma closing_simps [simp]: "fst (closing out) = fst out" "pl_xcom (snd (closing out)) = pl_xcom (snd out)"
  by (simp_all add: closing_def)

text \<open>What a skipped or a staged attempt answers.\<close>

definition receipt_statuses :: "string set" where
  "receipt_statuses = {''STAGED'', ''SKIPPED_DUPLICATE'', ''SKIPPED_CONCURRENT''}"

lemma skipped_receipt_status: "skipped_receipt cx db = Inr rc \<Longrightarrow> rp_status rc \<in> receipt_statuses"
  by (auto simp: skipped_receipt_def Let_def receipt_statuses_def split: if_splits)

lemma stage_claimed_status:
  assumes "stage_claimed w cfg cx run_id l = (Inr rc, l')"
  shows "rp_status rc = ''STAGED''"
  using assms by (auto simp: stage_claimed_def Let_def staged_receipt_def split: option.splits sum.splits prod.splits)

text \<open>Whenever the wait returns, some poll of it gave the answer.\<close>

lemma await_answer:
  assumes "await_concurrent_claim cx wait deadline polls k = Some r"
  shows "\<exists>j. stops_with cx deadline (polls j) r"
proof (rule await_concurrent_claim.raw_induct [OF _ assms])
  fix f :: "run_context \<Rightarrow> int \<Rightarrow> int \<Rightarrow> (nat \<Rightarrow> poll) \<Rightarrow> nat \<Rightarrow> (exn + claim_outcome) option"
  fix cx wait deadline polls k r
  assume IH: "\<And>cx wait deadline polls k r. f cx wait deadline polls k = Some r \<Longrightarrow> \<exists>j. stops_with cx deadline (polls j) r"
    and body: "(let p = polls k; status = get_ingestion_run_status (cx_run_id cx) (pl_status_db p) in
      if status \<in> {Some ''SUCCEEDED'', Some ''STAGED''}
      then Some (map_sum id Skipped (skipped_receipt cx (pl_receipt_db p)))
      else
        (case claim_ingestion_run (pl_claim_now p) (cx_idempotency_key cx) (cx_claim cx) (pl_claim_db p) of
           (db', Some (run_id, st)) \<Rightarrow> Some (Inr (Claimed db' run_id))
         | (db', None) \<Rightarrow>
             if deadline - pl_clock p \<le> 0
             then Some (Inl (dp_error DataPlatformError
               [(''run_id'', VInt (cx_run_id cx)), (''idempotency_key'', VStr (cx_idempotency_key cx)),
                (''wait_seconds'', VFloat (of_int wait / 1000000)), (''last_observed_status'', status_val status)]))
             else f cx wait deadline polls (Suc k))) = Some r"
  show "\<exists>j. stops_with cx deadline (polls j) r"
  proof (cases "seen_done cx (polls k)")
    case True
    with body have "stops_with cx deadline (polls k) r" by (auto simp: seen_done_def stops_with_def Let_def)
    then show ?thesis ..
  next
    case False
    obtain db' c where c: "poll_claim cx (polls k) = (db', c)" by fastforce
    show ?thesis
    proof (cases "c = None \<and> pl_clock (polls k) < deadline")
      case True
      with body False c have "f cx wait deadline polls (Suc k) = Some r"
        by (simp add: seen_done_def poll_claim_def Let_def)
      then show ?thesis by (rule IH)
    next
      case stop: False
      have "stops_with cx deadline (polls k) r"
        using body False c stop
        by (cases c) (auto simp: seen_done_def poll_claim_def stops_with_def Let_def dp_error_def reserved_context_keys_def)
      then show ?thesis ..
    qed
  qed
qed

text \<open>What a claim that was won is: a row of the tables it left.\<close>

lemma claim_known:
  assumes "claim_ingestion_run now key a db = (db', Some (i, st))"
  shows "run_known db' i"
proof -
  let ?P = "\<lambda>r. ir_idempotency_key r = key \<and> claimable now r"
  obtain r where r: "find ?P (md_runs db) = Some r" "i = ir_id r" and db': "db' = update_runs ?P (claimed_row now a) db"
    using assms by (auto simp: claim_ingestion_run_def Let_def)
  have "map ir_id (md_runs db') = map ir_id (md_runs db)" by (simp add: db' update_runs_def claimed_row_def)
  then have "ir_id ` set (md_runs db') = ir_id ` set (md_runs db)" by (metis list.set_map)
  moreover have "i \<in> ir_id ` set (md_runs db)" using find_SomeD [OF r(1)] r(2) by blast
  ultimately show ?thesis by (auto simp: run_known_def image_iff)
qed

lemma claim_or_await_answer:
  assumes "claim_or_await cx now db start wait polls = Some (Inr out)"
  obtains (skipped) rc c where "out = Skipped rc" "skipped_receipt cx c = Inr rc"
    | (claimed) db' i where "out = Claimed db' i" "run_known db' i"
proof (cases "claim_ingestion_run now (cx_idempotency_key cx) (cx_claim cx) db")
  case (Pair db' c)
  show thesis
  proof (cases c)
    case None
    with Pair assms have "await_concurrent_claim cx wait (start + wait) polls 0 = Some (Inr out)"
      by (simp add: claim_or_await_def)
    from await_answer [OF this] obtain j where "stops_with cx (start + wait) (polls j) (Inr out)" ..
    then show thesis using skipped claimed claim_known
      by (cases "seen_done cx (polls j)"; cases "skipped_receipt cx (pl_receipt_db (polls j))")
        (auto simp: stops_with_def poll_claim_def split: option.splits prod.splits)
  next
    case (Some x)
    obtain i st where "x = (i, st)" by (cases x)
    with Some Pair assms claim_known show thesis by (intro claimed [of db' i]) (auto simp: claim_or_await_def)
  qed
qed

lemma stage_ingest_Inr:
  assumes "stage_ingest w cfg cx now start wait polls l = Some (Inr rc, l')"
  obtains (skipped) "rp_status rc \<in> receipt_statuses" "rp_status rc \<noteq> ''STAGED''" "l' = l"
    | (claimed) db run_id where "run_known db run_id" "stage_claimed w cfg cx run_id (l\<lparr>lk_meta := db\<rparr>) = (Inr rc, l')"
        "rp_status rc = ''STAGED''"
proof -
  from assms obtain out where out: "claim_or_await cx now (lk_meta l) start wait polls = Some (Inr out)"
    by (auto simp: stage_ingest_def split: option.splits sum.splits)
  then show thesis
  proof (cases rule: claim_or_await_answer)
    case (skipped rc' c)
    with assms out have "rc = rc'" "l' = l" by (simp_all add: stage_ingest_def)
    moreover have "rp_status rc' \<noteq> ''STAGED''" using skipped(2) by (auto simp: skipped_receipt_def Let_def split: if_splits)
    ultimately show thesis using skipped_receipt_status [OF skipped(2)] that(1) by simp
  next
    case (claimed db' i)
    with assms out have "stage_claimed w cfg cx i (l\<lparr>lk_meta := db'\<rparr>) = (Inr rc, l')" by (simp add: stage_ingest_def)
    with claimed stage_claimed_status that(2) show thesis by blast
  qed
qed

lemma run_stage_Inr:
  assumes "run_stage w plan p = Some (Inr rc, p')"
  shows "rp_status rc \<in> receipt_statuses"
proof -
  from assms obtain l where "stage_ingest (planned_world w plan (dy_catalog (pl_data p))) (sp_config plan) (sp_run plan)
      (cm_now w) (cm_start w) (sp_wait_us plan) (cm_polls w) (lake_of p) = Some (Inr rc, l)"
    by (auto simp: run_stage_def)
  then show ?thesis by (cases rule: stage_ingest_Inr) (auto simp: receipt_statuses_def)
qed

text \<open>How a stage command ended, with the document it wrote.\<close>

definition stage_reported :: "(exn + unit) \<times> platform \<Rightarrow> bool" where
  "stage_reported out \<longleftrightarrow> (\<exists>rc. pl_xcom (snd out) = Some (XReceipt rc) \<and>
     (case fst out of Inl _ \<Rightarrow> rp_status rc = ''FAILED'' | Inr _ \<Rightarrow> rp_status rc \<in> receipt_statuses))"

lemma stage_reported_failed: "xcom_writable w \<Longrightarrow> stage_reported (stage_failed_with w doc (Inl e, p))"
  by (simp add: stage_failed_with_def on_failure_writable stage_reported_def failure_receipt_def)

lemma stage_reported_closing [simp]: "stage_reported (closing out) = stage_reported out"
  by (simp add: stage_reported_def)

lemma stage_reported_written:
  "xcom_writable w \<Longrightarrow> rp_status rc \<in> receipt_statuses \<Longrightarrow>
   stage_reported (stage_failed_with w doc (write_xcom w (XReceipt rc) p))"
  by (simp add: stage_failed_with_def on_failure_writable write_xcom_writable stage_reported_def)

lemma stage_command_reported:
  assumes "stage_command w assignment p = Some out" and "xcom_writable w"
  shows "stage_reported out"
proof -
  obtain r1 p1 where b: "in_process (build_common (cm_pod w)) p = (r1, p1)" by fastforce
  show ?thesis
  proof (cases r1)
    case (Inl e)
    with assms b show ?thesis by (auto simp: stage_command_def stage_reported_failed)
  next
    case built: (Inr u)
    obtain r2 p2 where a: "read_assignment w assignment p1 = (r2, p2)" by fastforce
    show ?thesis
    proof (cases r2)
      case (Inl e)
      with assms b built a show ?thesis by (auto simp: stage_command_def stage_reported_failed)
    next
      case read: (Inr doc)
      obtain r3 p3 where c: "plan_stage w doc p2 = (r3, p3)" by fastforce
      show ?thesis
      proof (cases r3)
        case (Inl e)
        with assms b built a read c show ?thesis by (auto simp: stage_command_def stage_reported_failed)
      next
        case (Inr plan)
        with assms b built a read c obtain r4 p4 where d: "run_stage w plan p3 = Some (r4, p4)"
          by (auto simp: stage_command_def split: option.splits)
        with assms b built a read c Inr run_stage_Inr [of w plan p3] show ?thesis
          by (cases r4) (auto simp: stage_command_def stage_reported_failed stage_reported_written)
      qed
    qed
  qed
qed

text \<open>The two commands whose failure payload is a dictionary.\<close>

lemma publish_reported:
  assumes "publish_command w dataset p = (r, p')" and "xcom_writable w"
  shows "case r of Inl e \<Rightarrow> pl_xcom p' = Some (XFailed (exn_class e)) | Inr _ \<Rightarrow> \<exists>o'. pl_xcom p' = Some (XOutcome o')"
proof -
  obtain r1 p1 where b: "in_process (build_common (cm_pod w)) p = (r1, p1)" by fastforce
  show ?thesis
  proof (cases r1)
    case (Inl e)
    with assms b show ?thesis by (auto simp: publish_command_def on_failure_writable failed_payload_def)
  next
    case (Inr u)
    obtain r2 p2 where body: "publish_body w dataset p1 = (r2, p2)" by fastforce
    with assms b Inr have out: "(r, p') = closing (on_failure w (\<lambda>_. True) failed_payload (r2, p2))"
      by (simp add: publish_command_def)
    then have r: "r = fst (on_failure w (\<lambda>_. True) failed_payload (r2, p2))"
      "pl_xcom p' = pl_xcom (snd (on_failure w (\<lambda>_. True) failed_payload (r2, p2)))"
      by (metis closing_simps fst_conv snd_conv)+
    show ?thesis
    proof (cases r2)
      case (Inl e)
      then show ?thesis using assms(2) by (simp add: r on_failure_writable failed_payload_def)
    next
      case (Inr v)
      with body obtain o' q where "write_xcom w (XOutcome o') q = (Inr v, p2)"
        by (auto simp: publish_body_def pr_bind_Inr)
      then have "pl_xcom p2 = Some (XOutcome o')" using assms(2) by (auto simp: write_xcom_writable)
      with Inr show ?thesis by (simp add: r on_failure_writable)
    qed
  qed
qed

text \<open>C10: Every run of \<open>stage\<close> that ends answers.  As long as the XCom file can be written, the command leaves
  a receipt however it ends - with a failure of the platform, of a library or of the interpreter, before or
  after the assignment was read.  The receipt says FAILED exactly when the command raises, and otherwise that the
  run is staged or was staged or running elsewhere.\<close>

theorem stage_always_reports:
  assumes "stage_command w assignment p = Some (r, p')" and "xcom_writable w"
  shows "\<exists>rc. pl_xcom p' = Some (XReceipt rc) \<and> (rp_status rc = ''FAILED'' \<longleftrightarrow> (\<exists>e. r = Inl e)) \<and>
    (r = Inr () \<longrightarrow> rp_status rc \<in> {''STAGED'', ''SKIPPED_DUPLICATE'', ''SKIPPED_CONCURRENT''})"
  using stage_command_reported [OF assms]
  by (cases r) (auto simp: stage_reported_def receipt_statuses_def)

text \<open>
  \<open>discover\<close> has no such clause: what is not a \<open>DataPlatformError\<close> - a missing configuration file, a lost
  database - leaves the XCom document as it was.
\<close>

definition same_xcom :: "platform \<Rightarrow> platform \<Rightarrow> bool" where
  "same_xcom p p' \<longleftrightarrow> pl_xcom p' = pl_xcom p"

definition silent_failure :: "(platform, 'a) prog \<Rightarrow> bool" where
  "silent_failure m \<longleftrightarrow> (\<forall>p e p'. m p = (Inl e, p') \<longrightarrow> same_xcom p p')"

lemma silent_failure_bind: "pr_keeps same_xcom m \<Longrightarrow> (\<And>x. silent_failure (f x)) \<Longrightarrow> silent_failure (pr_bind m f)"
  unfolding silent_failure_def pr_keeps_def same_xcom_def
  by (auto simp: pr_bind_def split: prod.splits sum.splits) (metis snd_conv)+

lemma same_xcom_parts:
  "pr_keeps same_xcom (in_process m)" "pr_keeps same_xcom (on_data n)" "pr_keeps same_xcom (pr_lift r)"
  by (simp_all add: pr_keeps_def same_xcom_def in_process_def on_data_def pr_lift_def split: prod.splits)

lemma silent_discover: "silent_failure (discover_body w dataset)"
proof -
  have "silent_failure (write_xcom w x)" for x
    by (auto simp: silent_failure_def same_xcom_def write_xcom_def pr_call_def split: sum.splits)
  then show ?thesis
    unfolding discover_body_def sync_config_def resolve_dataset_def
    by (intro silent_failure_bind same_xcom_parts)
qed

lemma discover_silent_failure:
  assumes "discover_command w dataset p = (Inl e, p')" and "\<not> platform_error e"
  shows "pl_xcom p' = pl_xcom p"
proof -
  have out: "pl_xcom p' = pl_xcom q" if "on_failure w platform_error failed_payload (Inl e', q) = (Inl e, p')" for e' q
    using that assms(2)
    by (auto simp: on_failure_def pr_bind_def pr_raise_def write_xcom_def pr_call_def split: sum.splits if_splits)
  obtain r1 p1 where b: "in_process (build_common (cm_pod w)) p = (r1, p1)" by fastforce
  have p1: "pl_xcom p1 = pl_xcom p" using same_xcom_parts(1) b unfolding pr_keeps_def same_xcom_def by (metis snd_conv)
  show ?thesis
  proof (cases r1)
    case (Inl e')
    with assms b p1 out [of e' p1] show ?thesis by (simp add: discover_command_def)
  next
    case (Inr u)
    obtain r2 p2 where body: "discover_body w dataset p1 = (r2, p2)" by fastforce
    obtain r3 p3 where f: "on_failure w platform_error failed_payload (r2, p2) = (r3, p3)" by fastforce
    have c: "(Inl e, p') = closing (r3, p3)" using assms(1) b Inr body f by (simp add: discover_command_def)
    then have r3: "r3 = Inl e" "pl_xcom p' = pl_xcom p3" by (auto simp: closing_def)
    then obtain e' where r2: "r2 = Inl e'" using f by (cases r2) (auto simp: on_failure_def)
    have "pl_xcom p3 = pl_xcom p2"
      using f assms(2) unfolding r2 r3(1)
      by (auto simp: on_failure_def pr_bind_def pr_raise_def write_xcom_def pr_call_def split: sum.splits if_splits)
    moreover have "pl_xcom p2 = pl_xcom p1"
      using silent_discover body unfolding r2 silent_failure_def same_xcom_def by blast
    ultimately show ?thesis using p1 r3(2) by simp
  qed
qed

section \<open>A sample platform\<close>

text \<open>Orders 1 to 3, the last record cut short, as the pod of the samples stages them.\<close>

definition order_file :: "written_field list list" where
  "order_file = map (map (Pair False))
     [[''order_id'', ''customer_id'', ''order_date'', ''amount''], [''1'', ''7'', '''', ''5''], [''2'', ''8'', '''', ''6''], [''3'']]"

definition order_config :: dataset_config where
  "order_config = sample_orders_config\<lparr>ds_csv := default_csv_parsing\<lparr>cp_encoding := Some ''utf-8'', cp_delimiter := Some '',''\<rparr>\<rparr>"

definition order_document :: assignment_document where
  "order_document =
     \<lparr>as_version = 1, as_run_id = 1, as_idempotency_key = ''k'', as_dataset = ''orders'', as_config_version_id = 1, as_config_hash = ''c'',
      as_file = \<lparr>fa_file_id = 1, fa_object_uri = ''s3://raw/in/a.csv'', fa_content_sha256 = ''h'', fa_size_bytes = 9\<rparr>,
      as_additional_parts = [], as_batch_key = ''b'', as_batch_id = 1, as_manifest = None\<rparr>"

definition order_world :: "string option \<Rightarrow> unit command_world" where
  "order_world document =
     \<lparr>cm_pod = demo_pod, cm_get_text = (\<lambda>_ _. case document of None \<Rightarrow> Inl (dp_error StorageError []) | Some t \<Rightarrow> Inr t),
      cm_validate = (\<lambda>_. Some order_document), cm_model_validate = (\<lambda>_. Inr order_config), cm_model_dump = (\<lambda>_. JNull),
      cm_config = \<lparr>cf_read_text = (\<lambda>_. Inl (Exn PyOSError [])), cf_safe_load = (\<lambda>_. Inr Falsy),
        cf_validate_fields = (\<lambda>_. Inr order_config), cf_errors = (\<lambda>_. VNone)\<rparr>,
      cm_discovery = (\<lambda>_. demo_world), cm_max_units = (\<lambda>_. 5), cm_filename_mask = (\<lambda>_. None),
      cm_csv = (\<lambda>_. demo_bytes (write_table excel [LF] order_file)), cm_field_limit = 131072,
      cm_stage = sample_world [], cm_publish = sample_publish_world, cm_sha256 = (\<lambda>s. s), cm_now = 10, cm_start = 0,
      cm_polls = sample_polls, cm_trace = (None, None), cm_version = ''v'', cm_write = (\<lambda>_. Inr ())\<rparr>"

definition order_platform :: platform where
  "order_platform =
     \<lparr>pl_process = new_process,
      pl_data = \<lparr>dy_catalog = demo_catalog\<lparr>ct_meta := sample_meta,
        ct_configs := \<lparr>vt_last_id = 1, vt_rows = [new_config_row 5 1 (''c'', 1) JNull 1 1]\<rparr>\<rparr>, dy_documents = (\<lambda>_. None)\<rparr>,
      pl_bronze = [], pl_reports = [], pl_silver = [], pl_gold = (\<lambda>_. None), pl_scd = vanishing_warehouse, pl_xcom = None\<rparr>"

lemma stage_always_reports_witness:
  "\<exists>e p' rc. stage_command (order_world None) ''s3://metadata/assignments/orders/1.json'' order_platform = Some (Inl e, p') \<and>
     pl_xcom p' = Some (XReceipt rc) \<and> rp_status rc = ''FAILED''"
proof -
  let ?run = "stage_command (order_world None) ''s3://metadata/assignments/orders/1.json'' order_platform"
  have "(case ?run of Some (Inl e, _) \<Rightarrow> exn_class e = StorageError | _ \<Rightarrow> False)" by code_simp
  then obtain e p' where run: "?run = Some (Inl e, p')" by (auto split: option.splits prod.splits sum.splits)
  have "xcom_writable (order_world None)" by (simp add: xcom_writable_def order_world_def)
  from stage_always_reports [OF run this] run show ?thesis by blast
qed

end
