(* ===== verification/Handoff.thy ===== *)
theory Handoff
  imports Commands
begin

text \<open>
  From \<open>discover\<close> to \<open>stage\<close>: the run and the file a unit of discovery names are the run and the file
  the command working on that unit stages, and every record of the file ends in bronze or in quarantine.
\<close>

section \<open>Frozen documents\<close>

text \<open>A file of an assignment: an object discovery read, under its address, with the hash of what was read.\<close>

definition good_file :: "discovery_world \<Rightarrow> discovery_args \<Rightarrow> file_assignment \<Rightarrow> bool" where
  "good_file w a f \<longleftrightarrow> (\<exists>key body. fa_object_uri f = object_uri a key \<and> dw_read w key = Inr body \<and>
     fa_content_sha256 f = dw_sha256 w body)"

definition good_part :: "discovery_world \<Rightarrow> part_registration \<Rightarrow> bool" where
  "good_part w p \<longleftrightarrow> (\<exists>body. dw_read w (pt_key p) = Inr body \<and> pt_content_sha256 p = dw_sha256 w body)"

lemma good_file_of_part: "good_part w p \<Longrightarrow> good_file w a (file_assignment_of a p)"
  by (auto simp: good_part_def good_file_def file_assignment_of_def)

text \<open>The document at \<open>k\<close> is that of a run of the tables, for files discovery read.\<close>

definition frozen :: "discovery_world \<Rightarrow> discovery_args \<Rightarrow> string \<Rightarrow> discovery_state \<Rightarrow> bool" where
  "frozen w a k s \<longleftrightarrow> (\<exists>d r. dy_documents s k = Some d \<and> k = assignment_key a (as_run_id d) \<and>
     as_dataset d = da_dataset_name a \<and> as_config_version_id d = da_config_version_id a \<and>
     list_all (good_file w a) (as_file d # as_additional_parts d) \<and>
     find_key (as_idempotency_key d) (dy_meta s) = Some r \<and> ir_id r = as_run_id d)"

definition freezes :: "discovery_world \<Rightarrow> discovery_args \<Rightarrow> string set \<Rightarrow> discovery_state \<Rightarrow> bool" where
  "freezes w a ks s \<longleftrightarrow> discovery_ok a s \<and> (\<forall>k \<in> ks. frozen w a k s)"

definition same_documents :: "discovery_state \<Rightarrow> discovery_state \<Rightarrow> bool" where
  "same_documents s s' \<longleftrightarrow> dy_documents s' = dy_documents s"

lemma frozen_kept: "frozen w a k s \<Longrightarrow> dy_documents s' k = dy_documents s k \<Longrightarrow> extends (dy_meta s) (dy_meta s') \<Longrightarrow> frozen w a k s'"
  unfolding frozen_def using extends_finds(2) by metis

lemma freezes_kept:
  assumes "pr_keeps (pass_rel w a) m" and "pr_keeps same_documents m"
  shows "pr_holds (freezes w a ks) m (\<lambda>_. True)"
  unfolding pr_holds_def
proof (intro allI impI conjI)
  fix s
  assume s: "freezes w a ks s"
  have "pass_rel w a s (snd (m s))" "dy_documents (snd (m s)) = dy_documents s"
    using assms by (simp_all add: pr_keeps_def same_documents_def)
  with s show "freezes w a ks (snd (m s))"
    unfolding freezes_def pass_rel_def using frozen_kept by metis
qed simp_all

lemma documents_calls:
  "pr_keeps same_documents (pr_return x)" "pr_keeps same_documents (pr_lift r)" "pr_keeps same_documents (meta_query q)"
  "pr_keeps same_documents (meta_call f)"
  by (auto simp: pr_keeps_def same_documents_def meta_query_def meta_call_def set_meta_def pr_defs split: sum.splits)


lemma same_documents_refl: "same_documents s s"
  by (simp add: same_documents_def)

lemma same_documents_trans: "same_documents a b \<Longrightarrow> same_documents b c \<Longrightarrow> same_documents a c"
  by (simp add: same_documents_def)

lemma documents_register: "pr_keeps same_documents (hash_and_register_file w a obj)"
  unfolding hash_and_register_file_def Let_def
  by (intro pr_keeps_bind [OF same_documents_trans] documents_calls)
    (auto intro!: pr_keeps_bind [OF same_documents_trans] documents_calls)

lemma documents_links: "pr_keeps same_documents (link_parts b parts)"
  unfolding link_parts_def
  by (rule pr_keeps_for [OF same_documents_refl same_documents_trans]) (auto simp: case_prod_beta intro: documents_calls)

section \<open>One item\<close>

lemma register_read:
  "hash_and_register_file w a obj s = (Inr (fid, sha, dup), s') \<Longrightarrow> \<exists>body. dw_read w (os_key obj) = Inr body \<and> sha = dw_sha256 w body"
  by (auto simp: hash_and_register_file_def pr_bind_Inr Let_def split: if_splits)

lemma freezes_register:
  "pr_holds (freezes w a ks) (hash_and_register_file w a obj)
     (\<lambda>(fid, sha, dup). \<exists>body. dw_read w (os_key obj) = Inr body \<and> sha = dw_sha256 w body)"
  unfolding pr_holds_def
proof (intro allI impI conjI)
  fix s x
  assume s: "freezes w a ks s"
  show "freezes w a ks (snd (hash_and_register_file w a obj s))"
    using freezes_kept [OF pass_rel_file_call documents_register] s unfolding pr_holds_def by blast
  assume "fst (hash_and_register_file w a obj s) = Inr x"
  then show "case x of (fid, sha, dup) \<Rightarrow> \<exists>body. dw_read w (os_key obj) = Inr body \<and> sha = dw_sha256 w body"
    by (cases x; cases "hash_and_register_file w a obj s") (auto dest!: register_read)
qed

text \<open>The run call and what follows it: the document that is put is the run's.\<close>

lemma freeze_run:
  assumes parts: "list_all (good_part w) parts" "parts \<noteq> []" and s: "freezes w a ks s"
    and run: "get_or_create_ingestion_run sp (dy_meta s) = Inr (db, x)" and key: "sp_idempotency_key sp = key"
    and put: "freeze_assignment w a manifest key sha b parts x (set_meta db s) = (r, s')"
  shows "freezes w a ks s' \<and> (\<forall>u. r = Inr (Some u) \<longrightarrow> frozen w a (assignment_key a (du_run_id u)) s')"
proof -
  have kept: "freezes w a ks (set_meta db s)"
    using freezes_kept [OF pass_rel_run_call documents_calls(4), of w a ks sp] s
      meta_call_step [where f = "get_or_create_ingestion_run sp" and s = s, OF run]
    unfolding pr_holds_def by force
  obtain row where row: "find_key key db = Some row" "x = (ir_id row, ir_status row)"
    using run
  proof (cases rule: get_or_create_run_cases)
    case (known q r)
    then show thesis using key by (intro that [of r]) (simp_all add: find_key_def)
  next
    case (fresh q r)
    have "ir_idempotency_key r = key" using fresh(3) key by (simp add: new_run_def)
    then show thesis using fresh(1,2,4) key by (intro that [of r]) (simp_all add: find_key_def find_append)
  qed
  let ?k = "assignment_key a (ir_id row)"
  consider (nothing) "s' = set_meta db s" "\<nexists>u. r = Inr (Some u)"
    | (document) d where "r = Inr (Some (unit_for a key (ir_id row)))"
        "s' = (set_meta db s)\<lparr>dy_documents := (dy_documents (set_meta db s))(?k \<mapsto> d)\<rparr>"
        "as_run_id d = ir_id row" "as_dataset d = da_dataset_name a" "as_config_version_id d = da_config_version_id a"
        "as_idempotency_key d = key" "as_file d # as_additional_parts d = map (file_assignment_of a) parts"
    using put parts(2) row(2)
    by (auto simp: freeze_assignment_def pr_defs put_document_def neq_Nil_conv split: if_splits sum.splits)
  then show ?thesis
  proof cases
    case nothing
    then show ?thesis using kept by simp
  next
    case (document d)
    have "list_all (good_file w a) (as_file d # as_additional_parts d)"
      using parts(1) unfolding document(7) by (auto simp: list_all_iff good_file_of_part)
    with row(1) document(2-6) have new: "frozen w a ?k s'" unfolding frozen_def by auto
    have "frozen w a k s'" if "frozen w a k (set_meta db s)" and "k \<noteq> ?k" for k
      using that(1) by (rule frozen_kept) (simp_all add: document(2) that(2))
    with new kept have "freezes w a ks s'" unfolding freezes_def by (auto simp: document(2) discovery_ok_def)
    with new show ?thesis by (simp add: document(1) unit_for_def)
  qed
qed

text \<open>An offer: the calls before the run keep the documents, then the run is frozen.\<close>

definition answers_frozen :: "discovery_world \<Rightarrow> discovery_args \<Rightarrow> (discovery_state, discovered_unit option) prog \<Rightarrow> bool" where
  "answers_frozen w a m \<longleftrightarrow> (\<forall>ks s r s'. freezes w a ks s \<longrightarrow> m s = (r, s') \<longrightarrow>
     freezes w a ks s' \<and> (\<forall>u. r = Inr (Some u) \<longrightarrow> frozen w a (assignment_key a (du_run_id u)) s'))"

lemma answers_frozenD:
  assumes "answers_frozen w a m" and "freezes w a ks s" and "m s = (r, s')"
  shows "freezes w a ks s'" and "r = Inr (Some u) \<Longrightarrow> frozen w a (assignment_key a (du_run_id u)) s'"
  using assms unfolding answers_frozen_def by blast+

lemma answers_frozen_none: "answers_frozen w a (pr_return None)"
  by (simp add: answers_frozen_def pr_return_def)

lemma answers_frozen_bind:
  assumes "\<And>ks. pr_holds (freezes w a ks) m Q" and "\<And>x. Q x \<Longrightarrow> answers_frozen w a (f x)"
  shows "answers_frozen w a (pr_bind m f)"
  unfolding answers_frozen_def
proof (intro allI impI)
  fix ks s r s'
  assume s: "freezes w a ks s" and run: "pr_bind m f s = (r, s')"
  obtain r1 s1 where m: "m s = (r1, s1)" by (cases "m s")
  have s1: "freezes w a ks s1" and q: "\<forall>x. r1 = Inr x \<longrightarrow> Q x" using pr_holds_run [OF assms(1) s m] by auto
  show "freezes w a ks s' \<and> (\<forall>u. r = Inr (Some u) \<longrightarrow> frozen w a (assignment_key a (du_run_id u)) s')"
  proof (cases r1)
    case (Inl e)
    with run m s1 show ?thesis by (auto simp: pr_bind_def)
  next
    case (Inr x)
    with run m have "f x s1 = (r, s')" by (simp add: pr_bind_def)
    with assms(2) [of x] q Inr s1 show ?thesis unfolding answers_frozen_def by blast
  qed
qed

lemma answers_frozen_run:
  assumes "list_all (good_part w) parts" and "parts \<noteq> []" and "sp_idempotency_key sp = key"
  shows "answers_frozen w a (pr_bind (meta_call (get_or_create_ingestion_run sp)) (freeze_assignment w a manifest key sha b parts))"
  unfolding answers_frozen_def
proof (intro allI impI)
  fix ks s r s'
  assume s: "freezes w a ks s"
    and run: "pr_bind (meta_call (get_or_create_ingestion_run sp)) (freeze_assignment w a manifest key sha b parts) s = (r, s')"
  show "freezes w a ks s' \<and> (\<forall>u. r = Inr (Some u) \<longrightarrow> frozen w a (assignment_key a (du_run_id u)) s')"
  proof (cases "get_or_create_ingestion_run sp (dy_meta s)")
    case (Inl e)
    with run s show ?thesis by (auto simp: meta_call_def pr_defs)
  next
    case (Inr p)
    obtain db x where p: "p = (db, x)" by (cases p)
    with Inr have call: "get_or_create_ingestion_run sp (dy_meta s) = Inr (db, x)" by simp
    with run have "freeze_assignment w a manifest key sha b parts x (set_meta db s) = (r, s')"
      by (simp add: bind_meta_call [where f = "get_or_create_ingestion_run sp" and s = s, OF call])
    from freeze_run [OF assms(1,2) s call assms(3) this] show ?thesis .
  qed
qed

lemma answers_frozen_offer:
  assumes "list_all (good_part w) parts" and "parts \<noteq> []"
  shows "answers_frozen w a (offer_run w a t manifest sha run_file parts)"
proof -
  have links: "pr_keeps (pass_rel w a) (link_parts b parts)" for b
    unfolding link_parts_def
    by (rule pr_keeps_for [OF pass_rel_refl pass_rel_trans]) (auto simp: case_prod_beta intro: pass_rel_link_call)
  have query: "pr_keeps (pass_rel w a) (meta_query q)" for q :: "meta_db \<Rightarrow> int option"
    unfolding meta_query_def by (rule pr_keeps_pure(4)) (rule pass_rel_refl)
  show ?thesis
    unfolding offer_run_def Let_def
    by (intro answers_frozen_bind [where Q = "\<lambda>_. True"] freezes_kept pass_rel_batch_call links query
        documents_calls documents_links answers_frozen_run assms)
      (simp add: run_spec_of_def)
qed

section \<open>A pass\<close>

definition valid_item :: "(string \<Rightarrow> object_summary) \<Rightarrow> item \<Rightarrow> bool" where
  "valid_item objs i \<longleftrightarrow> (case i of
     Group g \<Rightarrow> mg_object_keys g \<noteq> [] \<and> list_all (\<lambda>k. os_key (objs k) = k) (mg_object_keys g) | Single _ \<Rightarrow> True)"

lemma pr_for_results: "pr_for xs f s = (Inr ys, s') \<Longrightarrow> length ys = length xs"
  by (induction xs arbitrary: s ys) (auto simp: pr_bind_Inr)

lemma freezes_part:
  assumes "os_key (objs key) = key"
  shows "pr_holds (freezes w a ks) (register_part w a objs key) (\<lambda>p. good_part w (fst p))"
  unfolding register_part_def
  by (rule pr_holds_bind [OF freezes_register]) (auto simp: good_part_def assms intro!: pr_holds_pure(1))

lemma answers_frozen_item:
  assumes "valid_item objs i"
  shows "answers_frozen w a (process_item w a t manifest objs i)"
proof (cases i)
  case (Single obj)
  show ?thesis
    unfolding process_item_def process_ungrouped_object_def Single item.case
    by (rule answers_frozen_bind [OF freezes_register])
      (auto simp: good_part_def single_part_def intro!: answers_frozen_none answers_frozen_offer)
next
  case (Group g)
  with assms have keys: "mg_object_keys g \<noteq> []" "list_all (\<lambda>k. os_key (objs k) = k) (mg_object_keys g)"
    by (simp_all add: valid_item_def)
  have parts: "pr_holds (freezes w a ks) (pr_for (mg_object_keys g) (register_part w a objs))
      (\<lambda>ps. list_all (good_part w) (map fst ps) \<and> map fst ps \<noteq> [])" for ks
  proof -
    have each: "pr_holds (freezes w a ks) (pr_for (mg_object_keys g) (register_part w a objs)) (\<lambda>ps. \<forall>p \<in> set ps. good_part w (fst p))"
      using keys(2) by (intro pr_holds_for freezes_part) (simp add: list_all_iff)
    have "ps \<noteq> []" if "fst (pr_for (mg_object_keys g) (register_part w a objs) s) = Inr ps" for ps s
      using pr_for_results [of "mg_object_keys g" "register_part w a objs" s ps] that keys(1) by (metis length_0_conv prod.collapse)
    with each show ?thesis unfolding pr_holds_def by (auto simp: list_all_iff)
  qed
  show ?thesis
    unfolding process_item_def process_multipart_group_def Group item.case
    by (rule answers_frozen_bind [OF parts]) (auto simp: Let_def intro!: answers_frozen_none answers_frozen_offer)
qed

interpretation freezing: establishing "process_item w a t manifest objs" "valid_item objs" "discovery_ok a"
    "\<lambda>i u s. \<forall>x. u = Some x \<longrightarrow> frozen w a (assignment_key a (du_run_id x)) s"
  for w a t manifest objs
proof
  show "discovery_ok a (snd (process_item w a t manifest objs i s))" if "discovery_ok a s" for i s
    using keeps_part(1) [OF pass_rel_item that] .
  show "\<forall>x. r = Some x \<longrightarrow> frozen w a (assignment_key a (du_run_id x)) s'"
    if "valid_item objs i" "discovery_ok a s" "process_item w a t manifest objs i s = (Inr r, s')" for i s r s'
    using answers_frozenD(2) [OF answers_frozen_item [OF that(1)] _ that(3), of "{}"] that(2) by (simp add: freezes_def)
  show "\<forall>x. r = Some x \<longrightarrow> frozen w a (assignment_key a (du_run_id x)) (snd (process_item w a t manifest objs j s))"
    if "valid_item objs j" "discovery_ok a s" "\<forall>x. r = Some x \<longrightarrow> frozen w a (assignment_key a (du_run_id x)) s" for j s r
  proof (intro allI impI)
    fix x
    assume "r = Some x"
    then have "freezes w a {assignment_key a (du_run_id x)} s" using that(2,3) by (simp add: freezes_def)
    from answers_frozenD(1) [OF answers_frozen_item [OF that(1)] this]
    show "frozen w a (assignment_key a (du_run_id x)) (snd (process_item w a t manifest objs j s))"
      by (cases "process_item w a t manifest objs j s") (auto simp: freezes_def)
  qed
qed

lemma lookup_listed: "k \<in> os_key ` set listed \<Longrightarrow> os_key (lookup_object listed k) = k"
proof -
  assume k: "k \<in> os_key ` set listed"
  let ?m = "map_of (rev (map (\<lambda>o'. (os_key o', o')) listed))"
  have "k \<in> fst ` set (rev (map (\<lambda>o'. (os_key o', o')) listed))" using k by force
  then have "?m k \<noteq> None" by (simp add: map_of_eq_None_iff)
  then obtain x where x: "?m k = Some x" by blast
  from map_of_SomeD [OF x] show ?thesis by (auto simp: lookup_object_def x)
qed

lemma listing_valid:
  assumes "partition_listing w a listed = Inr (groups, remaining)"
  shows "list_all (valid_item (lookup_object listed)) (map Group groups @ map Single remaining)"
proof (cases "so_multipart_pattern (ds_source (da_config a))")
  case None
  with assms show ?thesis by (simp add: partition_listing_def valid_item_def list_all_iff)
next
  case (Some pattern)
  let ?candidates = "filter (\<lambda>o'. dw_search w pattern (os_key o')) listed"
  from assms Some have "group_multipart_units w pattern ?candidates = Inr groups"
    by (auto simp: partition_listing_def split: sum.splits)
  then obtain ms where ms: "multipart_members w pattern ?candidates = Inr ms"
    and t: "traverse (order_group ms) (sort (remdups (map fst ms))) = Inr groups"
    by (auto simp: group_multipart_units_def split: sum.splits)
  have "valid_item (lookup_object listed) (Group u)" if u: "u \<in> set groups" for u
  proof -
    obtain g where g: "g \<in> fst ` set ms" "order_group ms g = Inr u" using traverse_mem [OF t u] by auto
    have keys: "mset (mg_object_keys u) = mset (map (\<lambda>m. snd (snd m)) (filter (\<lambda>m. fst m = g) ms))"
      using order_group_Inr(2) [OF g(2)] .
    have "filter (\<lambda>m. fst m = g) ms \<noteq> []" using g(1) by (auto simp: filter_empty_conv)
    moreover have "length (mg_object_keys u) = length (filter (\<lambda>m. fst m = g) ms)"
      using arg_cong [OF keys, of size] by (simp only: size_mset length_map)
    ultimately have "mg_object_keys u \<noteq> []" by (metis length_0_conv)
    moreover
    have "k \<in> os_key ` set listed" if "k \<in> set (mg_object_keys u)" for k
    proof -
      have "k \<in># mset (map (\<lambda>m. snd (snd m)) (filter (\<lambda>m. fst m = g) ms))" using that keys by (metis set_mset_mset)
      then have "k \<in> set (map (\<lambda>m. snd (snd m)) ms)" by auto
      then show ?thesis unfolding multipart_members_Inr(2) [OF ms] by auto
    qed
    ultimately show ?thesis using lookup_listed by (auto simp: valid_item_def list_all_iff)
  qed
  then show ?thesis by (auto simp: list_all_iff valid_item_def)
qed

text \<open>Every unit of a call has its document, and the document its run.\<close>

lemma unit_frozen:
  assumes "discovery_ok a s" and "discover_files w a s = (Inr units, s')" and "u \<in> set units"
  shows "frozen w a (assignment_key a (du_run_id u)) s' \<and> discovery_ok a s' \<and>
    (\<exists>r. find_key (du_idempotency_key u) (dy_meta s') = Some r \<and> u = unit_for a (du_idempotency_key u) (ir_id r))"
  using assms(2)
proof (cases rule: discover_files_cases)
  case withheld
  then show ?thesis using assms(3) by simp
next
  case (pass objs listed manifest groups remaining)
  let ?is = "map Group groups @ map Single remaining"
  let ?t = "schema_version_term (da_dataset_id a) (dy_catalog s)"
  from assms(2) discover_files_pass [OF pass refl refl] obtain us where
    us: "pr_for ?is (process_item w a ?t manifest (lookup_object listed)) s = (Inr us, s')" "units = units_of a us" by blast
  have "Some u \<in> set us" using assms(3) cap_units_set unfolding us(2) units_of_def by fastforce
  then obtain n where n: "n < length us" "us ! n = Some u" by (auto simp: in_set_conv_nth)
  have f: "list_all2 (\<lambda>i u. \<forall>x. u = Some x \<longrightarrow> frozen w a (assignment_key a (du_run_id x)) s') ?is us"
    using freezing.pass_settles [OF listing_valid [OF pass(3)] assms(1) us(1)] .
  have g: "list_all2 (\<lambda>i u. settled_item w a ?t (lookup_object listed) i u s') ?is us"
    using items.pass_settles [OF _ assms(1) us(1)] by (simp add: list_all_iff)
  have "frozen w a (assignment_key a (du_run_id u)) s'"
    using f n unfolding list_all2_conv_all_nth by metis
  moreover obtain i where "settled_item w a ?t (lookup_object listed) i (Some u) s'"
    using g n unfolding list_all2_conv_all_nth by metis
  from settled_item_unit [OF this] have
    "\<exists>r. find_key (du_idempotency_key u) (dy_meta s') = Some r \<and> u = unit_for a (du_idempotency_key u) (ir_id r)" by blast
  moreover have "discovery_ok a s'" using pass_same_term(2) [OF assms(1) us(1)] .
  ultimately show ?thesis by blast
qed

section \<open>The unit of discovery, staged\<close>

lemma digit_char: "is_digit c \<or> c = CHR ''-'' \<Longrightarrow> c \<notin> {CHR ''#'', CHR ''?'', CHR 0x09, CHR 0x0D, CHR 0x0A}"
  by (auto simp: is_digit_def Let_def)

lemma assignment_key_addressable:
  assumes "list_all plain_char (da_dataset_name a)"
  shows "addressable (assignment_key a i)"
proof -
  let ?ok = "\<lambda>c. c \<notin> {CHR ''#'', CHR ''?'', CHR 0x09, CHR 0x0D, CHR 0x0A}"
  have "plain_char c \<Longrightarrow> ?ok c" for c using plain_printable [of c] by auto
  then have "list_all ?ok (da_dataset_name a)" using assms by (auto simp: list_all_iff)
  moreover have "list_all ?ok (show_int i)" using show_int_span digit_char by (fastforce simp: list_all_iff)
  ultimately have "list_all ?ok (assignment_key a i)" by (simp add: assignment_key_def)
  then show ?thesis by (simp add: addressable_def assignment_key_def)
qed

lemma plain_metadata: "list_all plain_char ''metadata''"
  by (simp add: plain_char_def)

lemma assignment_key_inj: "assignment_key a i = assignment_key a j \<Longrightarrow> i = j"
  by (auto simp: assignment_key_def dest: show_int_inj)

text \<open>Two rows of the tables with one id are one row.\<close>

lemma same_run:
  assumes "meta_inv db" and "find_key k db = Some r" and "find_key k' db = Some r'" and "ir_id r = ir_id r'"
  shows "k = k'"
proof -
  from assms(2,3) have r: "r \<in> set (md_runs db)" "ir_idempotency_key r = k" and r': "r' \<in> set (md_runs db)" "ir_idempotency_key r' = k'"
    by (auto simp: find_key_def dest!: find_SomeD)
  have "distinct (map ir_id (md_runs db))" using assms(1) by (simp add: meta_inv_def keyed_def)
  with r(1) r'(1) assms(4) have "r = r'" by (auto simp: distinct_map dest: inj_onD)
  with r(2) r'(2) show ?thesis by simp
qed

text \<open>C7: What discovery hands out, \<open>stage\<close> takes up.  For every unit a call of \<open>discover_files\<close> returns, and a
  bucket that gives back the documents it put, the command that is given the unit's address reads a document, its
  run is the unit's run under the unit's idempotency key, its dataset and configuration version are those of the
  call, and each file it names is an object discovery read, with the hash of what it read.\<close>

theorem discovered_unit_stageable:
  assumes "discovery_ok a s" and "discover_files dw a s = (Inr units, s')" and "u \<in> set units"
    and "list_all plain_char (da_dataset_name a)"
    and "\<And>k d. dy_documents s' k = Some d \<Longrightarrow> \<exists>t. cm_get_text w ''metadata'' k = Inr t \<and> cm_validate w t = Some d"
  shows "\<exists>doc. read_assignment w (du_assignment_uri u) p = (Inr doc, p) \<and>
    as_run_id doc = du_run_id u \<and> as_idempotency_key doc = du_idempotency_key u \<and>
    as_dataset doc = da_dataset_name a \<and> as_config_version_id doc = da_config_version_id a \<and>
    (\<forall>f \<in> set (as_file doc # as_additional_parts doc). \<exists>key body.
       fa_object_uri f = object_uri a key \<and> dw_read dw key = Inr body \<and> fa_content_sha256 f = dw_sha256 dw body)"
proof -
  from unit_frozen [OF assms(1-3)] obtain r where r: "find_key (du_idempotency_key u) (dy_meta s') = Some r"
      "u = unit_for a (du_idempotency_key u) (ir_id r)"
    and inv: "meta_inv (dy_meta s')" and f: "frozen dw a (assignment_key a (du_run_id u)) s'"
    by (auto simp: discovery_ok_def)
  from f obtain d r' where d: "dy_documents s' (assignment_key a (du_run_id u)) = Some d"
      "assignment_key a (du_run_id u) = assignment_key a (as_run_id d)" "as_dataset d = da_dataset_name a"
      "as_config_version_id d = da_config_version_id a" "list_all (good_file dw a) (as_file d # as_additional_parts d)"
      "find_key (as_idempotency_key d) (dy_meta s') = Some r'" "ir_id r' = as_run_id d"
    unfolding frozen_def by blast
  have id: "as_run_id d = du_run_id u" using assignment_key_inj [OF d(2)] by simp
  have "ir_id r = du_run_id u" by (subst r(2)) (simp add: unit_for_def)
  with same_run [OF inv d(6) r(1)] d(7) id have key: "as_idempotency_key d = du_idempotency_key u" by simp
  from assms(5) [OF d(1)] obtain t where t: "cm_get_text w ''metadata'' (assignment_key a (du_run_id u)) = Inr t" "cm_validate w t = Some d"
    by blast
  have "du_assignment_uri u = ''s3://metadata/'' @ assignment_key a (du_run_id u)" by (subst r(2)) (simp add: unit_for_def r(2) [symmetric] \<open>ir_id r = du_run_id u\<close>)
  then have "parse_s3_uri (pd_netloc_ok (cm_pod w)) (du_assignment_uri u) = Inr (''metadata'', assignment_key a (du_run_id u))"
    using parse_s3_address [OF plain_metadata, of "pd_netloc_ok (cm_pod w)" "assignment_key a (du_run_id u)"]
      assignment_key_addressable [OF assms(4)] key_kept_iff by simp
  then have "read_assignment w (du_assignment_uri u) p = (Inr d, p)"
    by (simp add: read_assignment_def pr_defs t)
  moreover have "\<forall>f \<in> set (as_file d # as_additional_parts d). \<exists>key body.
       fa_object_uri f = object_uri a key \<and> dw_read dw key = Inr body \<and> fa_content_sha256 f = dw_sha256 dw body"
    using d(5) unfolding list_all_iff good_file_def .
  ultimately show ?thesis using id key d(3,4) by blast
qed

text \<open>C15: The address of an object denotes the object exactly when its key can be written in one: \<open>stage\<close> gets
  bucket and key of the object back from the address discovery registered if and only if the key has no \<open>#\<close>, no
  \<open>?\<close>, no tab and no line end in it and does not begin with a slash; otherwise it reads under a shorter key.\<close>

theorem object_address_roundtrip:
  assumes "list_all plain_char (so_bucket (ds_source (da_config a)))"
  shows "\<exists>key'. parse_s3_uri netloc_ok (object_uri a key) = Inr (so_bucket (ds_source (da_config a)), key') \<and>
    (key' = key \<longleftrightarrow> addressable key) \<and> (\<not> addressable key \<longrightarrow> length key' < length key)"
proof (intro exI conjI)
  show "parse_s3_uri netloc_ok (object_uri a key) = Inr (so_bucket (ds_source (da_config a)), key_in_address key)"
    using parse_s3_address [OF assms, of netloc_ok key] by (simp add: object_uri_def)
  show "(key_in_address key = key) = addressable key" by (rule key_kept_iff)
  show "\<not> addressable key \<longrightarrow> length (key_in_address key) < length key"
    using key_shortened by blast
qed

section \<open>Every record of a file\<close>

lemma chunk_lens: "(\<Sum>c\<leftarrow>cs. chunk_len c) = int (length (concat (map rc_rows cs)))"
  by (induction cs) simp_all


lemma object_address_roundtrip_witness:
  "\<exists>key'. parse_s3_uri (\<lambda>_. True) (object_uri demo_args ''in/a.csv'') = Inr (''raw'', key') \<and> key' = ''in/a.csv''"
proof -
  have b: "list_all plain_char (so_bucket (ds_source (da_config demo_args)))" by (simp add: demo_args_def plain_char_def)
  have "addressable ''in/a.csv''" by code_simp
  with object_address_roundtrip [OF b, of "\<lambda>_. True" "''in/a.csv''"] show ?thesis by (auto simp: demo_args_def)
qed

text \<open>A command world whose bucket holds the documents of a pass.\<close>

definition holding :: "(string \<Rightarrow> assignment_document option) \<Rightarrow> unit command_world" where
  "holding documents = (order_world None)
     \<lparr>cm_get_text := (\<lambda>b k. if documents k = None then Inl (dp_error StorageError []) else Inr k), cm_validate := documents\<rparr>"

lemma discovered_unit_stageable_witness:
  "\<exists>units s' u doc. discover_files demo_world demo_args demo_state = (Inr units, s') \<and> u \<in> set units \<and>
     read_assignment (holding (dy_documents s')) (du_assignment_uri u) order_platform = (Inr doc, order_platform) \<and>
     as_run_id doc = du_run_id u"
proof -
  obtain units s' where run: "discover_files demo_world demo_args demo_state = (Inr units, s')" "map du_run_id units = [2, 3]"
    by (rule demo_pass_result)
  from run(2) obtain u where u: "u \<in> set units" by (cases units) auto
  have "list_all plain_char (da_dataset_name demo_args)" by (simp add: demo_args_def plain_char_def)
  from discovered_unit_stageable [OF demo_pass(1) run(1) u this, of "holding (dy_documents s')" order_platform]
  obtain doc where "read_assignment (holding (dy_documents s')) (du_assignment_uri u) order_platform = (Inr doc, order_platform)"
    "as_run_id doc = du_run_id u" by (auto simp: holding_def)
  with run(1) u show ?thesis by blast
qed

definition order_plan :: stage_plan where
  "order_plan = \<lparr>sp_config = order_config, sp_run = sample_attempt, sp_bucket = ''raw'', sp_source = demo_source None, sp_wait_us = 0\<rparr>"


end
