(* ===== verification/InferTypes.thy ===== *)
theory InferTypes
  imports DigitTexts Records
begin

text \<open>
  The type inference that suggests a contract (\<open>csv_processor/detect/schema.py\<close>).  Whether a value
  parses under a date format (\<open>datetime.strptime\<close>) is a parameter.
\<close>

section \<open>Inference\<close>

record type_inference =
  ti_suggested_type :: string
  ti_confidence_evidence :: message
  ti_red_flags :: "string list"

definition boolean_closed_set :: "string list" where
  "boolean_closed_set = [''true'', ''false'', ''yes'', ''no'', ''0'', ''1'']"

definition boolean_distinctive_tokens :: "string list" where
  "boolean_distinctive_tokens = [''true'', ''false'', ''yes'', ''no'']"

definition time_directives :: "string list" where
  "time_directives = [''%H'', ''%I'', ''%M'', ''%S'', ''%f'', ''%z'', ''%Z'', ''%p'', ''%X'']"

definition min_leading_zero_length :: nat where "min_leading_zero_length = 2"

text \<open>\<open>str.lower\<close> on the code points below 256.\<close>

definition lower_char :: "char \<Rightarrow> char" where
  "lower_char c = (let n = (of_char c :: nat) in
     if 65 \<le> n \<and> n \<le> 90 \<or> 192 \<le> n \<and> n \<le> 222 \<and> n \<noteq> 215 then char_of (n + 32) else c)"

definition sorted_texts :: "string list \<Rightarrow> pyval" where
  "sorted_texts xs = VList (map VStr (sort (remdups xs)))"

definition infer_boolean :: "string list \<Rightarrow> type_inference option" where
  "infer_boolean sample =
     (let lowered = map (\<lambda>v. map lower_char (strip v)) sample in
      if \<not> list_all (\<lambda>v. v \<in> set boolean_closed_set) lowered then None
      else if \<not> list_ex (\<lambda>v. v \<in> set boolean_distinctive_tokens) lowered then None
      else Some \<lparr>ti_suggested_type = ''boolean'',
        ti_confidence_evidence = Msg ''every value is in {} (observed: {})'' [sorted_texts boolean_closed_set, sorted_texts lowered],
        ti_red_flags = []\<rparr>)"

fun has_substring :: "string \<Rightarrow> string \<Rightarrow> bool" where
  "has_substring [] p \<longleftrightarrow> p = []"
| "has_substring (c # cs) p \<longleftrightarrow> starts_with (c # cs) p \<or> has_substring cs p"

definition format_has_time :: "string \<Rightarrow> bool" where
  "format_has_time date_format \<longleftrightarrow> list_ex (has_substring date_format) time_directives"

fun infer_temporal :: "(string \<Rightarrow> string \<Rightarrow> bool) \<Rightarrow> string list \<Rightarrow> string list \<Rightarrow> type_inference option" where
  "infer_temporal parses sample [] = None"
| "infer_temporal parses sample (f # fs) =
     (if list_all (\<lambda>v. parses v f) sample
      then Some \<lparr>ti_suggested_type = (if format_has_time f then ''timestamp'' else ''date''),
        ti_confidence_evidence = Msg ''every value parses under the given candidate format {}'' [VStr f], ti_red_flags = []\<rparr>
      else infer_temporal parses sample fs)"

text \<open>\<open>-?\d+(?:\.\d+)?[eE][+-]?\d+\<close>, the whole text.\<close>

definition remove_minus :: "string \<Rightarrow> string" where
  "remove_minus s = (case s of [] \<Rightarrow> [] | c # cs \<Rightarrow> if c = CHR ''-'' then cs else s)"

definition exponent_ok :: "string \<Rightarrow> bool" where
  "exponent_ok s = (case s of [] \<Rightarrow> False
     | c # cs \<Rightarrow> (c = CHR ''e'' \<or> c = CHR ''E'') \<and> (let ds = snd (take_sign cs) in ds \<noteq> [] \<and> list_all is_digit ds))"

definition looks_like_scientific_notation :: "string \<Rightarrow> bool" where
  "looks_like_scientific_notation v =
     (let (ip, rest) = span_digits (remove_minus v) in
      ip \<noteq> [] \<and>
      (case rest of [] \<Rightarrow> False
       | c # cs \<Rightarrow> if c = CHR ''.'' then (let (fp, rest') = span_digits cs in fp \<noteq> [] \<and> exponent_ok rest') else exponent_ok rest))"

definition is_digit_only :: "string \<Rightarrow> bool" where
  "is_digit_only v \<longleftrightarrow> remove_minus v \<noteq> [] \<and> list_all is_digit (remove_minus v)"

definition has_leading_zero :: "string \<Rightarrow> bool" where
  "has_leading_zero v \<longleftrightarrow> min_leading_zero_length \<le> length (remove_minus v) \<and> hd (remove_minus v) = CHR ''0''"

definition infer_integer :: "string list \<Rightarrow> type_inference option" where
  "infer_integer sample =
     (if \<not> list_all is_digit_only sample then None
      else
        (let zeros = filter has_leading_zero sample in
         if zeros \<noteq> []
         then Some \<lparr>ti_suggested_type = ''string'',
           ti_confidence_evidence = Msg ''all values digit-only but {} of {} have leading zeros''
             [VInt (int (length zeros)), VInt (int (length sample))], ti_red_flags = [''leading-zero'']\<rparr>
         else Some \<lparr>ti_suggested_type = ''integer'',
           ti_confidence_evidence = Msg ''every value is digit-only with no leading zero'' [], ti_red_flags = []\<rparr>))"

definition parses_as_decimal :: "string \<Rightarrow> bool" where
  "parses_as_decimal v \<longleftrightarrow> decimal_of_string v \<noteq> None"

definition infer_decimal_or_string :: "string list \<Rightarrow> type_inference" where
  "infer_decimal_or_string sample =
     (if list_all parses_as_decimal sample
      then \<lparr>ti_suggested_type = ''decimal'', ti_confidence_evidence = Msg ''every value parses via decimal.Decimal'' [], ti_red_flags = []\<rparr>
      else if list_ex parses_as_decimal sample
      then \<lparr>ti_suggested_type = ''string'',
        ti_confidence_evidence = Msg ''{} of {} values do not parse via decimal.Decimal; inference never silently drops the values it could not fit''
          [VInt (int (length sample) - int (length (filter parses_as_decimal sample))), VInt (int (length sample))],
        ti_red_flags = [''mixed-parseable'']\<rparr>
      else \<lparr>ti_suggested_type = ''string'',
        ti_confidence_evidence = Msg ''no candidate type (boolean, date, integer, decimal) matched every value'' [], ti_red_flags = []\<rparr>)"

definition infer_column_type :: "(string \<Rightarrow> string \<Rightarrow> bool) \<Rightarrow> string list \<Rightarrow> string list \<Rightarrow> type_inference" where
  "infer_column_type parses sample candidate_date_formats =
     (if sample = []
      then \<lparr>ti_suggested_type = ''string'', ti_confidence_evidence = Msg ''no sampled values to infer a type from'' [],
        ti_red_flags = [''empty-sample'']\<rparr>
      else
        (case infer_boolean sample of
           Some b \<Rightarrow> b
         | None \<Rightarrow>
             (case infer_temporal parses sample candidate_date_formats of
                Some t \<Rightarrow> t
              | None \<Rightarrow>
                  if list_ex looks_like_scientific_notation sample
                  then \<lparr>ti_suggested_type = ''string'',
                    ti_confidence_evidence = Msg ''at least one value renders in scientific notation, a red flag for a damaged numeric identifier rather than evidence of a numeric type'' [],
                    ti_red_flags = [''scientific-notation'']\<rparr>
                  else (case infer_integer sample of Some i \<Rightarrow> i | None \<Rightarrow> infer_decimal_or_string sample))))"

definition column_sample :: "nat \<Rightarrow> string list list \<Rightarrow> string list" where
  "column_sample i sample_rows = map (\<lambda>r. r ! i) (filter (\<lambda>r. i < length r) sample_rows)"

definition infer_schema :: "(string \<Rightarrow> string \<Rightarrow> bool) \<Rightarrow> string list \<Rightarrow> string list list \<Rightarrow> type_inference list" where
  "infer_schema parses header sample_rows =
     map (\<lambda>i. infer_column_type parses (column_sample i sample_rows) []) [0..<length header]"

record suggested_column =
  su_name :: string
  su_type :: string
  su_nullable :: bool
  su_required :: bool

definition suggest_column_contracts :: "(string \<Rightarrow> string \<Rightarrow> bool) \<Rightarrow> string list \<Rightarrow> string list list \<Rightarrow> suggested_column list" where
  "suggest_column_contracts parses header sample_rows =
     map (\<lambda>(name, inference). \<lparr>su_name = name, su_type = ti_suggested_type inference, su_nullable = True, su_required = True\<rparr>)
       (zip header (infer_schema parses header sample_rows))"

section \<open>What a suggestion guarantees\<close>

text \<open>A suggested type holds every sampled value.\<close>

definition holds_value :: "(string \<Rightarrow> string \<Rightarrow> bool) \<Rightarrow> string list \<Rightarrow> string \<Rightarrow> string \<Rightarrow> bool" where
  "holds_value parses formats ty v \<longleftrightarrow>
     (if ty = ''boolean'' then map lower_char (strip v) \<in> set boolean_closed_set
      else if ty = ''integer'' then (case py_int v of None \<Rightarrow> int_max_str_digits < length v | Some i \<Rightarrow> show_int i = v \<or> v = ''-0'')
      else if ty = ''decimal'' then decimal_of_string v \<noteq> None \<and> \<not> looks_like_scientific_notation v
      else if ty = ''date'' then \<exists>f \<in> set formats. parses v f \<and> \<not> format_has_time f
      else if ty = ''timestamp'' then \<exists>f \<in> set formats. parses v f \<and> format_has_time f
      else ty = ''string'')"

lemma integer_value_held:
  assumes "is_digit_only v" and "\<not> has_leading_zero v"
  shows "case py_int v of None \<Rightarrow> int_max_str_digits < length v | Some i \<Rightarrow> show_int i = v \<or> v = ''-0''"
proof -
  let ?ds = "remove_minus v"
  have ds: "list_all is_digit ?ds" "?ds \<noteq> []" using assms(1) by (simp_all add: is_digit_only_def)
  have v: "v = ?ds \<or> v = CHR ''-'' # ?ds" by (auto simp: remove_minus_def split: list.splits)
  have one: "length ?ds = 1 \<or> hd ?ds \<noteq> CHR ''0''"
    using assms(2) ds(2) by (cases ?ds) (auto simp: has_leading_zero_def min_leading_zero_length_def Suc_le_eq)
  note shown = show_nat_of_digits [OF ds one]
  have len: "length ?ds \<le> length v" using v by (metis le_refl le_SucI length_Cons)
  show ?thesis
  proof (cases "v = ?ds")
    case True
    with signed_digits [OF ds v] len shown show ?thesis by (auto simp: show_int_def)
  next
    case False
    with v have neg: "v = CHR ''-'' # ?ds" by blast
    show ?thesis
    proof (cases "nat_of_digits ?ds = 0")
      case True
      have "show_nat 0 = ''0''" by code_simp
      with True shown have "?ds = ''0''" by simp
      with neg signed_digits [OF ds v] show ?thesis by (simp add: int_max_str_digits_def)
    next
      case nz: False
      with signed_digits [OF ds v] len shown False neg show ?thesis by (auto simp: show_int_def)
    qed
  qed
qed

lemma infer_temporal_held:
  "infer_temporal parses sample formats = Some t \<Longrightarrow>
     \<exists>f \<in> set formats. list_all (\<lambda>v. parses v f) sample \<and> ti_suggested_type t = (if format_has_time f then ''timestamp'' else ''date'')"
  by (induction formats) (auto split: if_splits)

text \<open>A suggested column type fits every sampled value: a boolean column holds only the closed set of tokens,
  an integer column only numbers that print back as they were written (minus zero and numbers past the
  interpreter's digit limit apart), a decimal column only decimals none of which is in scientific notation, a date
  or timestamp column only values that parse under one of the candidate formats; everything else is suggested as a
  string.\<close>

theorem suggested_type_fits:
  assumes "v \<in> set sample"
  shows "holds_value parses formats (ti_suggested_type (infer_column_type parses sample formats)) v"
proof -
  have ne: "sample \<noteq> []" using assms by auto
  consider (boolean) b where "infer_boolean sample = Some b"
    | (temporal) t where "infer_boolean sample = None" "infer_temporal parses sample formats = Some t"
    | (scientific) "infer_boolean sample = None" "infer_temporal parses sample formats = None" "list_ex looks_like_scientific_notation sample"
    | (integer) i where "infer_boolean sample = None" "infer_temporal parses sample formats = None"
        "\<not> list_ex looks_like_scientific_notation sample" "infer_integer sample = Some i"
    | (other) "infer_boolean sample = None" "infer_temporal parses sample formats = None"
        "\<not> list_ex looks_like_scientific_notation sample" "infer_integer sample = None"
    by (meson option.exhaust)
  then show ?thesis
  proof cases
    case boolean
    then show ?thesis using ne assms
      by (auto simp: infer_column_type_def infer_boolean_def Let_def holds_value_def list_all_iff split: if_splits)
  next
    case temporal
    from infer_temporal_held [OF temporal(2)] temporal ne assms show ?thesis
      by (auto simp: infer_column_type_def holds_value_def list_all_iff split: if_splits)
  next
    case scientific
    then show ?thesis using ne by (simp add: infer_column_type_def holds_value_def)
  next
    case (integer i)
    show ?thesis
    proof (cases "ti_suggested_type i = ''integer''")
      case True
      then have "is_digit_only v" "\<not> has_leading_zero v"
        using integer(4) assms by (auto simp: infer_integer_def Let_def list_all_iff filter_empty_conv split: if_splits)
      from integer_value_held [OF this] True integer ne show ?thesis by (simp add: infer_column_type_def holds_value_def)
    next
      case False
      then have "ti_suggested_type i = ''string''"
        using integer(4) by (auto simp: infer_integer_def Let_def split: if_splits)
      with integer ne show ?thesis by (simp add: infer_column_type_def holds_value_def)
    qed
  next
    case other
    then show ?thesis using ne assms
      by (auto simp: infer_column_type_def infer_decimal_or_string_def holds_value_def parses_as_decimal_def list_all_iff list_ex_iff)
  qed
qed

lemma suggested_type_fits_witness:
  "ti_suggested_type (infer_column_type (\<lambda>_ _. False) [''7'', ''-12''] []) = ''integer'' \<and>
   holds_value (\<lambda>_ _. False) [] ''integer'' ''-12''"
proof -
  have "''-12'' \<in> set [''7'', ''-12'']" by simp
  moreover have "ti_suggested_type (infer_column_type (\<lambda>_ _. False) [''7'', ''-12''] []) = ''integer''" by code_simp
  ultimately show ?thesis using suggested_type_fits [of "''-12''" "[''7'', ''-12'']" "\<lambda>_ _. False" "[]"] by simp
qed

text \<open>A column of names like the special decimals is suggested as a decimal column.\<close>

lemma special_names_are_decimals:
  "ti_suggested_type (infer_column_type (\<lambda>_ _. False) [''nan'', ''Infinity''] []) = ''decimal''"
  by code_simp

end
