(* ===== verification/Rebuild.thy ===== *)
theory Rebuild
  imports ScdPublish Json "HOL-Library.Word"
begin

text \<open>
  The whole-table figures: the aggregates of the silver-to-gold reconciliation
  (\<open>_table_checksum\<close> and \<open>_compute_silver_gold_reconciliation\<close> of \<open>pipeline/run.py\<close>) and the
  snapshots a rebuild is compared by (\<open>pipeline/rebuild_reconciliation.py\<close>). A table is its column
  names with its rows as the text of their cells, \<open>None\<close> for NULL. What PostgreSQL computes and the
  code does not (md5, the text of a composite row and of a timestamp, the casts) is a parameter,
  the record \<open>pg\<close>.
\<close>

unbundle bit_operations_syntax

section \<open>Tables and aggregates\<close>

record pg =
  pg_md5 :: "string \<Rightarrow> string"
  pg_record_out :: "string option list \<Rightarrow> string"
  pg_timestamptz_out :: "int \<Rightarrow> string"
  pg_timestamptz :: "string \<Rightarrow> int option"
  pg_numeric :: "string \<Rightarrow> rat option"

record sql_table =
  tb_columns :: "string list"
  tb_rows :: "string option list list"

type_synonym sql_db = "string \<Rightarrow> sql_table option"

definition select_column :: "sql_table \<Rightarrow> string \<Rightarrow> exn + string option list" where
  "select_column t c =
     (case index_of c (tb_columns t) of
        None \<Rightarrow> Inl (Exn DatabaseError [])
      | Some i \<Rightarrow> Inr (map (\<lambda>r. r ! i) (tb_rows t)))"

definition select_rows :: "sql_table \<Rightarrow> string list option \<Rightarrow> exn + string option list list" where
  "select_rows t cs =
     (case cs of
        None \<Rightarrow> Inr (tb_rows t)
      | Some cols \<Rightarrow>
          (case traverse (\<lambda>c. case index_of c (tb_columns t) of None \<Rightarrow> Inl (Exn DatabaseError []) | Some i \<Rightarrow> Inr i) cols of
             Inl e \<Rightarrow> Inl e
           | Inr idx \<Rightarrow> Inr (map (\<lambda>r. map ((!) r) idx) (tb_rows t))))"

definition from_table :: "sql_db \<Rightarrow> string \<Rightarrow> (sql_table \<Rightarrow> exn + 'a) \<Rightarrow> exn + 'a" where
  "from_table db name q = (case db name of None \<Rightarrow> Inl (Exn DatabaseError []) | Some t \<Rightarrow> q t)"

definition count_rows :: "sql_db \<Rightarrow> string \<Rightarrow> exn + int" where
  "count_rows db name = from_table db name (\<lambda>t. Inr (int (length (tb_rows t))))"

definition count_distinct :: "sql_db \<Rightarrow> string \<Rightarrow> string \<Rightarrow> exn + int" where
  "count_distinct db name c =
     from_table db name (\<lambda>t. case select_column t c of Inl e \<Rightarrow> Inl e
       | Inr xs \<Rightarrow> Inr (int (card (set (List.map_filter id xs)))))"

text \<open>An aggregate of the cells that are not NULL, each cast first; NULL if there is none.\<close>

definition cast_aggregate :: "(string \<Rightarrow> 'a option) \<Rightarrow> ('a list \<Rightarrow> 'a) \<Rightarrow> sql_db \<Rightarrow> string \<Rightarrow> string \<Rightarrow> exn + 'a option" where
  "cast_aggregate cast agg db name c =
     from_table db name (\<lambda>t. case select_column t c of Inl e \<Rightarrow> Inl e
       | Inr xs \<Rightarrow>
          (case traverse (\<lambda>x. case cast x of None \<Rightarrow> Inl (Exn DatabaseError []) | Some y \<Rightarrow> Inr y) (List.map_filter id xs) of
             Inl e \<Rightarrow> Inl e
           | Inr ys \<Rightarrow> Inr (if ys = [] then None else Some (agg ys))))"

section \<open>The checksum\<close>

text \<open>\<open>('x' || substr(md5(t::text), 1, 16))::bit(64)::bigint\<close>\<close>

definition row_bits :: "pg \<Rightarrow> string option list \<Rightarrow> 64 word" where
  "row_bits pg r = foldl (\<lambda>w c. push_bit 4 w + of_nat (hex_value c)) 0 (take 16 (pg_md5 pg (pg_record_out pg r)))"

definition bit_xor :: "64 word list \<Rightarrow> 64 word option" where
  "bit_xor ws = (if ws = [] then None else Some (List.fold (XOR) ws 0))"

fun hex_of_nat :: "nat \<Rightarrow> string" where
  "hex_of_nat n = (if n < 16 then [hex_digit n] else hex_of_nat (n div 16) @ [hex_digit (n mod 16)])"

declare hex_of_nat.simps [simp del]

definition to_hex :: "64 word \<Rightarrow> string" where
  "to_hex w = hex_of_nat (unat w)"

definition table_checksum :: "pg \<Rightarrow> sql_db \<Rightarrow> string \<Rightarrow> string list option \<Rightarrow> exn + string option" where
  "table_checksum pg db name cols =
     from_table db name (\<lambda>t. case select_rows t cols of Inl e \<Rightarrow> Inl e
       | Inr rows \<Rightarrow> Inr (map_option to_hex (bit_xor (map (row_bits pg) rows))))"

section \<open>The silver-to-gold reconciliation\<close>

record reconciliation_aggregates =
  ag_input_count :: int
  ag_output_count :: int
  ag_sum_column :: "string option"
  ag_sum_input :: "rat option"
  ag_sum_output :: "rat option"
  ag_checksum_input :: "string option"
  ag_checksum_output :: "string option"
  ag_min_input :: "int option"
  ag_max_input :: "int option"
  ag_min_output :: "int option"
  ag_max_output :: "int option"
  ag_key_count_input :: "int option"
  ag_key_count_output :: "int option"

definition sum_over :: "pg \<Rightarrow> sql_db \<Rightarrow> string option \<Rightarrow> string \<Rightarrow> exn + rat option" where
  "sum_over pg db sum_column name =
     (case sum_column of None \<Rightarrow> Inr None | Some c \<Rightarrow> cast_aggregate (pg_numeric pg) sum_list db name c)"

definition key_count_over :: "sql_db \<Rightarrow> column_contract option \<Rightarrow> string \<Rightarrow> exn + int option" where
  "key_count_over db key name =
     (case key of None \<Rightarrow> Inr None
      | Some c \<Rightarrow> (case count_distinct db name (cc_name c) of Inl e \<Rightarrow> Inl e | Inr n \<Rightarrow> Inr (Some n)))"

text \<open>\<open>sum_columns\<close> is \<open>config.reconciliation.sum_columns\<close>: an empty list is an \<open>IndexError\<close>.\<close>

definition compute_silver_gold_reconciliation :: "pg \<Rightarrow> sql_db \<Rightarrow> dataset_config \<Rightarrow> string list option \<Rightarrow> string \<Rightarrow>
    string \<Rightarrow> exn + reconciliation_aggregates" where
  "compute_silver_gold_reconciliation pg db cfg sum_columns source_table watermark_column =
     (let target = lo_target (ds_load cfg); key = first_business_key cfg;
          tmin = (\<lambda>name. cast_aggregate (pg_timestamptz pg) (\<lambda>ys. Min (set ys)) db name watermark_column);
          tmax = (\<lambda>name. cast_aggregate (pg_timestamptz pg) (\<lambda>ys. Max (set ys)) db name watermark_column) in
      if sum_columns = Some [] then Inl (Exn PyIndexError []) else
      let sum_column = map_option hd sum_columns in
      (case count_rows db source_table of Inl e \<Rightarrow> Inl e | Inr n_in \<Rightarrow>
      (case count_rows db target of Inl e \<Rightarrow> Inl e | Inr n_out \<Rightarrow>
      (case sum_over pg db sum_column source_table of Inl e \<Rightarrow> Inl e | Inr s_in \<Rightarrow>
      (case sum_over pg db sum_column target of Inl e \<Rightarrow> Inl e | Inr s_out \<Rightarrow>
      (case tmin source_table of Inl e \<Rightarrow> Inl e | Inr lo_in \<Rightarrow>
      (case tmax source_table of Inl e \<Rightarrow> Inl e | Inr hi_in \<Rightarrow>
      (case tmin target of Inl e \<Rightarrow> Inl e | Inr lo_out \<Rightarrow>
      (case tmax target of Inl e \<Rightarrow> Inl e | Inr hi_out \<Rightarrow>
      (case key_count_over db key source_table of Inl e \<Rightarrow> Inl e | Inr k_in \<Rightarrow>
      (case key_count_over db key target of Inl e \<Rightarrow> Inl e | Inr k_out \<Rightarrow>
      (case table_checksum pg db source_table None of Inl e \<Rightarrow> Inl e | Inr c_in \<Rightarrow>
      (case table_checksum pg db target None of Inl e \<Rightarrow> Inl e | Inr c_out \<Rightarrow>
         Inr \<lparr>ag_input_count = n_in, ag_output_count = n_out, ag_sum_column = sum_column,
           ag_sum_input = s_in, ag_sum_output = s_out, ag_checksum_input = c_in, ag_checksum_output = c_out,
           ag_min_input = lo_in, ag_max_input = hi_in, ag_min_output = lo_out, ag_max_output = hi_out,
           ag_key_count_input = k_in, ag_key_count_output = k_out\<rparr>)))))))))))))"

section \<open>Snapshots\<close>

record table_snapshot =
  sp_table :: string
  sp_row_count :: int
  sp_checksum :: "string option"
  sp_key_count :: "int option"

record scd_key_snapshot =
  sk_business_key :: string
  sk_version_count :: int
  sk_current_valid_from :: "int option"
  sk_current_valid_to :: "int option"
  sk_current_is_current :: bool

record customers_scd2_snapshot =
  cs2_table_snapshot :: table_snapshot
  cs2_keys :: "scd_key_snapshot list"

definition snapshot_table_state :: "pg \<Rightarrow> sql_db \<Rightarrow> string \<Rightarrow> string list \<Rightarrow> string option \<Rightarrow> exn + table_snapshot" where
  "snapshot_table_state pg db name business_columns key =
     (case count_rows db name of Inl e \<Rightarrow> Inl e | Inr n \<Rightarrow>
     (case table_checksum pg db name (Some business_columns) of Inl e \<Rightarrow> Inl e | Inr c \<Rightarrow>
     (case key of
        None \<Rightarrow> Inr \<lparr>sp_table = name, sp_row_count = n, sp_checksum = c, sp_key_count = None\<rparr>
      | Some k \<Rightarrow>
          (case count_distinct db name k of Inl e \<Rightarrow> Inl e
           | Inr m \<Rightarrow> Inr \<lparr>sp_table = name, sp_row_count = n, sp_checksum = c, sp_key_count = Some m\<rparr>))))"

text \<open>The columns of the versioned customers table the model keeps, as PostgreSQL prints them.\<close>

definition gold_columns :: "string list" where
  "gold_columns = [''customer_id'', ''name'', ''country'', ''birth_date'', ''signup_country'', ''event_ts'',
     ''valid_to'', ''is_current'', ''_run_id'', ''_file_id'', ''_batch_id'', ''_source_row_number'',
     ''_record_hash'', ''_record_hash_version'']"

definition gold_cells :: "pg \<Rightarrow> gold_row \<Rightarrow> string option list" where
  "gold_cells pg g =
     [Some (show_int (vw_customer_id g)), vw_name g, vw_country g, vw_birth_date g, vw_signup_country g,
      Some (pg_timestamptz_out pg (vw_valid_from g)), Some (pg_timestamptz_out pg (vw_valid_to g)),
      Some (if vw_is_current g then ''t'' else ''f''), Some (show_int (gd_run_id g)), Some (show_int (gd_file_id g)),
      Some (show_int (gd_batch_id g)), Some (show_int (gd_source_row_number g)), Some (gd_record_hash g),
      Some (show_int (gd_record_hash_version g))]"

definition gold_table :: "pg \<Rightarrow> gold_row list \<Rightarrow> sql_table" where
  "gold_table pg gold = \<lparr>tb_columns = gold_columns, tb_rows = map (gold_cells pg) gold\<rparr>"

definition group_max :: "('a \<Rightarrow> int) \<Rightarrow> 'a list \<Rightarrow> int option" where
  "group_max f rows = (if rows = [] then None else Some (Max (f ` set rows)))"

text \<open>One row of the grouped query.\<close>

definition key_snapshot :: "'a version_row_scheme list \<Rightarrow> int \<Rightarrow> scd_key_snapshot" where
  "key_snapshot gold i =
     (let rows = filter (\<lambda>g. vw_customer_id g = i) gold; current = filter vw_is_current rows in
      \<lparr>sk_business_key = show_int i, sk_version_count = int (length rows),
       sk_current_valid_from = group_max vw_valid_from current,
       sk_current_valid_to = group_max vw_valid_to current,
       sk_current_is_current = (0 < length current)\<rparr>)"

definition customer_ids :: "gold_row list \<Rightarrow> int list" where
  "customer_ids gold = sort (remdups (map vw_customer_id gold))"

definition normalized_customers_table :: string where
  "normalized_customers_table = ''normalized.customers''"

definition snapshot_customers_scd2_state :: "pg \<Rightarrow> gold_row list \<Rightarrow> string list \<Rightarrow> exn + customers_scd2_snapshot" where
  "snapshot_customers_scd2_state pg gold business_columns =
     (case snapshot_table_state pg [normalized_customers_table \<mapsto> gold_table pg gold] normalized_customers_table
         business_columns (Some ''customer_id'') of
        Inl e \<Rightarrow> Inl e
      | Inr t \<Rightarrow> Inr \<lparr>cs2_table_snapshot = t, cs2_keys = map (key_snapshot gold) (customer_ids gold)\<rparr>)"

section \<open>Comparing two snapshots\<close>

record rebuild_comparison_result =
  rc_matches :: bool
  rc_mismatches :: "string list"

datatype any_snapshot = OfTable table_snapshot | OfCustomers customers_scd2_snapshot

definition table_snapshot_mismatches :: "table_snapshot \<Rightarrow> table_snapshot \<Rightarrow> string list" where
  "table_snapshot_mismatches b a =
     (if sp_row_count b \<noteq> sp_row_count a then [''row_count''] else []) @
     (if sp_checksum b \<noteq> sp_checksum a then [''checksum''] else []) @
     (if sp_key_count b \<noteq> sp_key_count a then [''key_count''] else [])"

definition by_key :: "scd_key_snapshot list \<Rightarrow> string \<Rightarrow> scd_key_snapshot option" where
  "by_key snaps = map_of (rev (map (\<lambda>s. (sk_business_key s, s)) snaps))"

definition one_key_mismatches :: "string \<Rightarrow> scd_key_snapshot option \<Rightarrow> scd_key_snapshot option \<Rightarrow> string list" where
  "one_key_mismatches key before after =
     (let name = ''scd2_key:'' @ key in
      case (before, after) of
        (Some b, Some a) \<Rightarrow>
          (if sk_version_count b \<noteq> sk_version_count a then [name @ ''.version_count''] else []) @
          (if sk_current_valid_from b \<noteq> sk_current_valid_from a then [name @ ''.current_valid_from''] else []) @
          (if sk_current_valid_to b \<noteq> sk_current_valid_to a then [name @ ''.current_valid_to''] else []) @
          (if sk_current_is_current b \<noteq> sk_current_is_current a then [name @ ''.current_is_current''] else [])
      | _ \<Rightarrow> [name])"

definition scd2_key_mismatches :: "scd_key_snapshot list \<Rightarrow> scd_key_snapshot list \<Rightarrow> string list" where
  "scd2_key_mismatches before after =
     concat (map (\<lambda>key. one_key_mismatches key (by_key before key) (by_key after key))
       (sort (remdups (map sk_business_key before @ map sk_business_key after))))"

definition comparison :: "string list \<Rightarrow> rebuild_comparison_result" where
  "comparison mismatches = \<lparr>rc_matches = (mismatches = []), rc_mismatches = mismatches\<rparr>"

definition compare_snapshots :: "any_snapshot \<Rightarrow> any_snapshot \<Rightarrow> exn + rebuild_comparison_result" where
  "compare_snapshots before after =
     (case (before, after) of
        (OfCustomers b, OfCustomers a) \<Rightarrow>
          Inr (comparison (table_snapshot_mismatches (cs2_table_snapshot b) (cs2_table_snapshot a) @
            scd2_key_mismatches (cs2_keys b) (cs2_keys a)))
      | (OfTable b, OfTable a) \<Rightarrow> Inr (comparison (table_snapshot_mismatches b a))
      | _ \<Rightarrow> Inl (Exn PyTypeError []))"

section \<open>Hexadecimal\<close>

definition nat_of_hex :: "string \<Rightarrow> nat" where
  "nat_of_hex s = foldl (\<lambda>n c. 16 * n + hex_value c) 0 s"

lemma nat_of_hex_of_nat: "nat_of_hex (hex_of_nat n) = n"
proof (induction n rule: hex_of_nat.induct)
  case (1 n)
  then show ?case
    by (simp add: hex_of_nat.simps [of n] nat_of_hex_def hex_value_digit)
qed

lemma to_hex_injective: "to_hex v = to_hex w \<longleftrightarrow> v = w"
proof
  assume "to_hex v = to_hex w"
  then have "nat_of_hex (to_hex v) = nat_of_hex (to_hex w)" by simp
  then show "v = w" by (simp add: to_hex_def nat_of_hex_of_nat word_unat_eq_iff)
qed simp

section \<open>The checksum and the rows\<close>

lemma bit_xor_mset: "mset vs = mset ws \<Longrightarrow> bit_xor vs = bit_xor ws"
  unfolding bit_xor_def
  by (auto simp: xor.left_commute intro!: fun_cong [OF fold_multiset_equiv])

text \<open>Two equal rows cancel.\<close>

lemma bit_xor_cancel: "ws \<noteq> [] \<Longrightarrow> bit_xor (w # w # ws) = bit_xor ws"
  by (simp add: bit_xor_def)

lemma table_checksum_mset:
  assumes "db n = Some t" "db' n = Some t'" and "select_rows t cols = Inr rs" "select_rows t' cols = Inr rs'"
    and "mset rs = mset rs'"
  shows "table_checksum pg db n cols = table_checksum pg db' n cols"
  using assms bit_xor_mset [of "map (row_bits pg) rs" "map (row_bits pg) rs'"]
  by (simp add: table_checksum_def from_table_def)

section \<open>What a match means\<close>

lemma one_key_mismatches_Nil:
  "one_key_mismatches key before after = [] \<longleftrightarrow>
     (\<exists>b a. before = Some b \<and> after = Some a \<and>
        sk_version_count b = sk_version_count a \<and> sk_current_valid_from b = sk_current_valid_from a \<and>
        sk_current_valid_to b = sk_current_valid_to a \<and> sk_current_is_current b = sk_current_is_current a)"
  by (auto simp: one_key_mismatches_def Let_def split: option.splits)

lemma by_key_snapshot: "by_key (map (key_snapshot gold) (customer_ids gold)) (show_int i) =
    (if i \<in> vw_customer_id ` set gold then Some (key_snapshot gold i) else None)"
proof -
  let ?ps = "map (\<lambda>i. (show_int i, key_snapshot gold i)) (customer_ids gold)"
  have "distinct (map fst ?ps)"
    by (simp add: comp_def distinct_map customer_ids_def inj_on_def) (auto dest: show_int_inj)
  then have "map_of (rev ?ps) = map_of ?ps" by (rule map_of_rev_distinct)
  moreover have "map_of (map (\<lambda>i. (show_int i, key_snapshot gold i)) js) (show_int i) =
      (if i \<in> set js then Some (key_snapshot gold i) else None)" for js
    by (induction js) (auto dest: show_int_inj)
  ultimately show ?thesis
    by (simp add: by_key_def key_snapshot_def Let_def comp_def customer_ids_def)
qed

lemma group_max_cong: "set xs = set ys \<Longrightarrow> group_max f xs = group_max f ys"
  by (cases "xs = []") (auto simp: group_max_def)

lemma key_snapshot_fields [simp]:
  "sk_business_key (key_snapshot gold i) = show_int i"
  "sk_version_count (key_snapshot gold i) = int (count (mset (map vw_customer_id gold)) i)"
  by (simp_all add: key_snapshot_def Let_def) (induction gold; simp)

lemma same_counts_same_ids:
  assumes "\<And>i. sk_version_count (key_snapshot b i) = sk_version_count (key_snapshot a i)"
  shows "length b = length a \<and> vw_customer_id ` set b = vw_customer_id ` set a"
proof -
  have "mset (map vw_customer_id b) = mset (map vw_customer_id a)"
    using assms by (intro multiset_eqI) simp
  then show ?thesis
    by (metis length_map set_map set_mset_mset size_mset)
qed

lemma scd2_key_mismatches_Nil:
  "scd2_key_mismatches (map (key_snapshot b) (customer_ids b)) (map (key_snapshot a) (customer_ids a)) = [] \<longleftrightarrow>
     (\<forall>i. key_snapshot b i = key_snapshot a i)" (is "?none \<longleftrightarrow> ?same")
proof
  assume ?none
  show ?same
  proof
    fix i
    show "key_snapshot b i = key_snapshot a i"
    proof (cases "i \<in> vw_customer_id ` set b \<union> vw_customer_id ` set a")
      case True
      with \<open>?none\<close> have "one_key_mismatches (show_int i) (by_key (map (key_snapshot b) (customer_ids b)) (show_int i))
          (by_key (map (key_snapshot a) (customer_ids a)) (show_int i)) = []"
        by (auto simp: scd2_key_mismatches_def customer_ids_def)
      then show ?thesis
        unfolding one_key_mismatches_Nil by_key_snapshot by (auto split: if_splits)
    next
      case False
      then have "filter (\<lambda>g. vw_customer_id g = i) b = []" "filter (\<lambda>g. vw_customer_id g = i) a = []"
        by (auto simp: filter_empty_conv)
      then show ?thesis by (simp add: key_snapshot_def)
    qed
  qed
next
  assume same: ?same
  then have "vw_customer_id ` set b = vw_customer_id ` set a"
    using same_counts_same_ids [of b a] by simp
  moreover from this have "customer_ids b = customer_ids a"
    by (auto simp: customer_ids_def intro!: sorted_distinct_set_unique)
  moreover have "set (customer_ids a) = vw_customer_id ` set a" by (simp add: customer_ids_def)
  moreover have "key_snapshot b = key_snapshot a" using same by auto
  ultimately show ?none
    by (auto simp: scd2_key_mismatches_def one_key_mismatches_Nil by_key_snapshot)
qed

lemma gold_figures:
  "count_rows [n \<mapsto> gold_table pg gold] n = Inr (int (length gold))"
  "count_distinct [n \<mapsto> gold_table pg gold] n ''customer_id'' = Inr (int (card (vw_customer_id ` set gold)))"
proof -
  have "card (show_int ` vw_customer_id ` set gold) = card (vw_customer_id ` set gold)"
    by (rule card_image) (auto simp: inj_on_def dest: show_int_inj)
  moreover have "set (List.map_filter id (map (\<lambda>r. r ! 0) (map (gold_cells pg) gold))) = show_int ` vw_customer_id ` set gold"
    by (induction gold) (simp_all add: gold_cells_def List.map_filter_simps)
  ultimately show "count_distinct [n \<mapsto> gold_table pg gold] n ''customer_id'' = Inr (int (card (vw_customer_id ` set gold)))"
    by (simp add: count_distinct_def from_table_def select_column_def gold_table_def gold_columns_def del: map_map)
qed (simp add: count_rows_def from_table_def gold_table_def)

lemma snapshot_table_state_gold:
  assumes "snapshot_customers_scd2_state pg gold cols = Inr s"
  shows "cs2_keys s = map (key_snapshot gold) (customer_ids gold) \<and>
    sp_row_count (cs2_table_snapshot s) = int (length gold) \<and>
    sp_key_count (cs2_table_snapshot s) = Some (int (card (vw_customer_id ` set gold)))"
  using assms
  by (cases "table_checksum pg [normalized_customers_table \<mapsto> gold_table pg gold] normalized_customers_table (Some cols)")
    (auto simp: snapshot_customers_scd2_state_def snapshot_table_state_def gold_figures)

lemma customers_match_iff:
  assumes "snapshot_customers_scd2_state pg b cols = Inr sb" and "snapshot_customers_scd2_state pg a cols = Inr sa"
  shows "\<exists>r. compare_snapshots (OfCustomers sb) (OfCustomers sa) = Inr r \<and>
    (rc_matches r \<longleftrightarrow> sp_checksum (cs2_table_snapshot sb) = sp_checksum (cs2_table_snapshot sa) \<and>
       (\<forall>i. key_snapshot b i = key_snapshot a i))"
proof -
  have "length b = length a \<and> vw_customer_id ` set b = vw_customer_id ` set a" if "\<forall>i. key_snapshot b i = key_snapshot a i"
    using same_counts_same_ids [of b a] that by simp
  then show ?thesis
    using snapshot_table_state_gold [OF assms(1)] snapshot_table_state_gold [OF assms(2)] scd2_key_mismatches_Nil [of b a]
    by (auto simp: compare_snapshots_def comparison_def table_snapshot_mismatches_def)
qed


section \<open>A rebuild of the same rows\<close>

lemma key_snapshot_mset:
  assumes "mset xs = mset ys"
  shows "key_snapshot xs i = key_snapshot ys i"
proof -
  have sets: "mset (filter P xs) = mset (filter P ys)" for P using assms by simp
  have "group_max f (filter P xs) = group_max f (filter P ys)" for f :: "'a version_row_scheme \<Rightarrow> int" and P
    using sets [of P] by (intro group_max_cong) (metis set_mset_mset)
  moreover have "length (filter P xs) = length (filter P ys)" for P
    using sets [of P] by (metis size_mset)
  ultimately show ?thesis by (simp only: key_snapshot_def Let_def filter_filter)
qed

lemma truncate_fields [simp]:
  "vw_customer_id (version_row.truncate g) = vw_customer_id g" "vw_valid_from (version_row.truncate g) = vw_valid_from g"
  "vw_valid_to (version_row.truncate g) = vw_valid_to g" "vw_is_current (version_row.truncate g) = vw_is_current g"
  by (simp_all add: version_row.truncate_def)

lemma group_max_map: "group_max f (map h xs) = group_max (f \<circ> h) xs"
  by (simp add: group_max_def image_comp)

lemma key_snapshot_truncate: "key_snapshot (map version_row.truncate gold) i = key_snapshot gold i"
  by (simp add: key_snapshot_def Let_def filter_map comp_def group_max_map)

lemma same_rows_same_keys:
  "mset (map version_row.truncate b) = mset (map version_row.truncate a) \<Longrightarrow> key_snapshot b i = key_snapshot a i"
  by (metis key_snapshot_truncate key_snapshot_mset)

definition business_columns :: "string list" where
  "business_columns = take 8 gold_columns"

definition business_cells :: "pg \<Rightarrow> version_row \<Rightarrow> string option list" where
  "business_cells pg v =
     [Some (show_int (vw_customer_id v)), vw_name v, vw_country v, vw_birth_date v, vw_signup_country v,
      Some (pg_timestamptz_out pg (vw_valid_from v)), Some (pg_timestamptz_out pg (vw_valid_to v)),
      Some (if vw_is_current v then ''t'' else ''f'')]"

lemma business_cells_prefix: "gold_cells pg g = business_cells pg (version_row.truncate g) @ drop 8 (gold_cells pg g)"
  by (simp add: gold_cells_def business_cells_def version_row.truncate_def)

lemma business_cells_length: "length (business_cells pg v) = 8"
  by (simp add: business_cells_def)

lemma gold_cells_nth: "i < 8 \<Longrightarrow> gold_cells pg g ! i = business_cells pg (version_row.truncate g) ! i"
  by (subst business_cells_prefix) (simp only: nth_append business_cells_length if_True)

lemma index_of_business: "c \<in> set business_columns \<Longrightarrow> \<exists>i < 8. index_of c gold_columns = Some i"
proof -
  have "list_all (\<lambda>c. case index_of c gold_columns of Some i \<Rightarrow> i < 8 | None \<Rightarrow> False) business_columns" by code_simp
  then show "c \<in> set business_columns \<Longrightarrow> \<exists>i < 8. index_of c gold_columns = Some i"
    by (fastforce simp: list_all_iff split: option.splits)
qed

lemma select_business_rows:
  assumes "set cols \<subseteq> set business_columns"
  shows "\<exists>idx. \<forall>gold. select_rows (gold_table pg gold) (Some cols) =
    Inr (map (\<lambda>v. map ((!) (business_cells pg v)) idx) (map version_row.truncate gold))"
proof -
  let ?find = "\<lambda>c. case index_of c gold_columns of None \<Rightarrow> Inl (Exn DatabaseError []) | Some i \<Rightarrow> Inr i"
  have "\<forall>c \<in> set cols. \<exists>i. ?find c = Inr i" using assms index_of_business by fastforce
  then obtain idx where idx: "traverse ?find cols = Inr idx" using traverse_Inr_iff [of ?find cols] by auto
  have "i < 8" if "i \<in> set idx" for i
  proof -
    from traverse_mem [OF idx that] obtain c where "c \<in> set cols" "?find c = Inr i" by auto
    then show ?thesis using assms index_of_business by (fastforce split: option.splits)
  qed
  then have "map ((!) (gold_cells pg g)) idx = map ((!) (business_cells pg (version_row.truncate g))) idx" for g
    by (simp add: gold_cells_nth)
  with idx show ?thesis by (intro exI [of _ idx]) (simp add: select_rows_def gold_table_def)
qed

lemma snapshot_succeeds:
  assumes "set cols \<subseteq> set business_columns"
  shows "\<exists>s. snapshot_customers_scd2_state pg gold cols = Inr s"
proof -
  obtain idx where sel: "\<And>gold. select_rows (gold_table pg gold) (Some cols) =
      Inr (map (\<lambda>v. map ((!) (business_cells pg v)) idx) (map version_row.truncate gold))"
    using select_business_rows [OF assms] by metis
  show ?thesis
    by (simp add: snapshot_customers_scd2_state_def snapshot_table_state_def gold_figures
        table_checksum_def from_table_def sel)
qed

text \<open>A rebuild that reproduces the rows of the versioned customers table, in whatever order and with
  whatever lineage columns, compares as matching over any selection of the business columns.\<close>

theorem rebuild_of_same_rows_matches:
  assumes "mset (map version_row.truncate b) = mset (map version_row.truncate a)" and "set cols \<subseteq> set business_columns"
  shows "\<exists>sb sa. snapshot_customers_scd2_state pg b cols = Inr sb \<and> snapshot_customers_scd2_state pg a cols = Inr sa \<and>
    compare_snapshots (OfCustomers sb) (OfCustomers sa) = Inr \<lparr>rc_matches = True, rc_mismatches = []\<rparr>"
proof -
  obtain idx where sel: "\<And>gold. select_rows (gold_table pg gold) (Some cols) =
      Inr (map (\<lambda>v. map ((!) (business_cells pg v)) idx) (map version_row.truncate gold))"
    using select_business_rows [OF assms(2)] by metis
  have "table_checksum pg [n \<mapsto> gold_table pg b] n (Some cols) = table_checksum pg [n \<mapsto> gold_table pg a] n (Some cols)" for n
    by (rule table_checksum_mset [where t = "gold_table pg b" and t' = "gold_table pg a", OF _ _ sel sel])
      (use assms(1) in \<open>simp_all del: map_map mset_map add: mset_map [of "\<lambda>v. map ((!) (business_cells pg v)) idx"]\<close>)
  moreover obtain c where "\<And>n. table_checksum pg [n \<mapsto> gold_table pg a] n (Some cols) = Inr c"
    by (simp add: table_checksum_def from_table_def sel)
  ultimately have c: "table_checksum pg [n \<mapsto> gold_table pg b] n (Some cols) = Inr c"
    "table_checksum pg [n \<mapsto> gold_table pg a] n (Some cols) = Inr c" for n by simp_all
  obtain sb sa where snaps: "snapshot_customers_scd2_state pg b cols = Inr sb" "snapshot_customers_scd2_state pg a cols = Inr sa"
    and sums: "sp_checksum (cs2_table_snapshot sb) = c" "sp_checksum (cs2_table_snapshot sa) = c"
    by (simp add: snapshot_customers_scd2_state_def snapshot_table_state_def c gold_figures)
  from customers_match_iff [OF snaps] same_rows_same_keys [OF assms(1)] sums obtain r where
    "compare_snapshots (OfCustomers sb) (OfCustomers sa) = Inr r" "rc_matches r" by auto
  moreover from this have "r = \<lparr>rc_matches = True, rc_mismatches = []\<rparr>"
    by (auto simp: compare_snapshots_def comparison_def)
  ultimately show ?thesis using snaps by blast
qed

definition demo_pg :: pg where
  "demo_pg = \<lparr>pg_md5 = (\<lambda>s. take 32 (map (\<lambda>c. hex_digit (of_char c mod 16)) s @ replicate 32 CHR ''0'')),
     pg_record_out = (\<lambda>cells. join '','' (map (\<lambda>c. case c of None \<Rightarrow> [] | Some t \<Rightarrow> t) cells)),
     pg_timestamptz_out = show_int, pg_timestamptz = (\<lambda>_. None), pg_numeric = (\<lambda>_. None)\<rparr>"

definition demo_gold :: "int \<Rightarrow> gold_row list" where
  "demo_gold run = map (\<lambda>(name, start, end, current).
     \<lparr>vw_customer_id = 7, vw_name = Some name, vw_country = None, vw_birth_date = None, vw_signup_country = None,
      vw_valid_from = start, vw_valid_to = end, vw_is_current = current, gd_run_id = run, gd_file_id = run,
      gd_batch_id = run, gd_source_row_number = 2, gd_record_hash = ''h'', gd_record_hash_version = 1\<rparr>)
     [(''Ann'', 10, 20, False), (''Anne'', 20, 99, True)]"

lemma rebuild_of_same_rows_matches_witness:
  "\<exists>sb sa. snapshot_customers_scd2_state demo_pg (demo_gold 1) [''customer_id'', ''name''] = Inr sb \<and>
     snapshot_customers_scd2_state demo_pg (rev (demo_gold 5)) [''customer_id'', ''name''] = Inr sa \<and>
     compare_snapshots (OfCustomers sb) (OfCustomers sa) = Inr \<lparr>rc_matches = True, rc_mismatches = []\<rparr>"
  by (rule rebuild_of_same_rows_matches)
    (simp add: demo_gold_def version_row.truncate_def, code_simp)


section \<open>What the figures do not see\<close>

text \<open>Rows that occur twice cancel in the checksum, so a table of one row twice and a table of another row
  twice have the same number of rows and the same checksum.\<close>

lemma doubled_rows_invisible:
  "table_checksum pg [n \<mapsto> \<lparr>tb_columns = cs, tb_rows = [r, r]\<rparr>] n None =
     table_checksum pg [n \<mapsto> \<lparr>tb_columns = cs, tb_rows = [s, s]\<rparr>] n None"
  by (simp add: table_checksum_def from_table_def select_rows_def bit_xor_def)

text \<open>An empty selection of columns still has a checksum.\<close>

lemma no_columns_have_checksum:
  "table_checksum pg [n \<mapsto> \<lparr>tb_columns = cs, tb_rows = [r]\<rparr>] n (Some []) = Inr (Some (to_hex (row_bits pg [])))"
  by (simp add: table_checksum_def from_table_def select_rows_def bit_xor_def)

text \<open>A customer with two current rows is reported as current.\<close>

lemma two_current_rows_are_current:
  "sk_current_is_current (key_snapshot (map (\<lambda>g. g\<lparr>vw_is_current := True\<rparr>) (demo_gold 1)) 7)"
  by code_simp

end
