(* ===== verification/Retention.thy ===== *)
theory Retention
  imports Calls DigitTexts PyDates
begin

text \<open>
  Retention: the windows of a dataset and their evaluation (\<open>retention/policy.py\<close>), and the
  maintenance pass that queries the candidates, evaluates them and, where the dataset enforces its
  policy, deletes them (\<open>_common/retention_query.py\<close>). The objects of a bucket are listed in the order of
  their keys, at most \<open>page_size\<close> of them. How the database answers a \<open>DELETE\<close> it does not execute (a missing
  privilege, a foreign key) and the number of days \<open>pendulum\<close> reads off an interval are parameters,
  the fields \<open>rw_refuses\<close> and \<open>rw_interval_days\<close> of the world.
\<close>

section \<open>The policy\<close>

record retention_config =
  rt_raw_days :: "int option"
  rt_processed_days :: "int option"
  rt_quarantine_days :: "int option"
  rt_validation_reports_days :: "int option"
  rt_ingestion_metadata_days :: "int option"
  rt_logs_days :: "int option"
  rt_enforce :: bool

record retention_candidate =
  cd_layer :: string
  cd_identifier :: string
  cd_age_days :: int
  cd_size_bytes :: "int option"

record layer_report =
  lr_layer :: string
  lr_candidate_count :: int
  lr_would_delete_count :: int
  lr_deleted_count :: int
  lr_window_days :: "int option"
  lr_total_size_bytes :: "int option"
  lr_oldest_age_days :: "int option"
  lr_newest_age_days :: "int option"

record retention_report =
  rp_enforce :: bool
  rp_layers :: "(string \<times> layer_report) list"

definition layer_window_fields :: "(string \<times> (retention_config \<Rightarrow> int option)) list" where
  "layer_window_fields =
     [(''raw'', rt_raw_days), (''processed'', rt_processed_days), (''quarantine'', rt_quarantine_days),
      (''validation_reports'', rt_validation_reports_days), (''ingestion_metadata'', rt_ingestion_metadata_days),
      (''logs'', rt_logs_days)]"

definition over_window :: "int option \<Rightarrow> retention_candidate \<Rightarrow> bool" where
  "over_window window c = (case window of None \<Rightarrow> False | Some days \<Rightarrow> days < cd_age_days c)"

definition evaluate_layer :: "string \<Rightarrow> int option \<Rightarrow> retention_candidate list \<Rightarrow> layer_report" where
  "evaluate_layer layer window candidates =
     (let would_delete = filter (over_window window) candidates;
          sizes = List.map_filter cd_size_bytes would_delete; ages = map cd_age_days would_delete in
      \<lparr>lr_layer = layer, lr_candidate_count = int (length candidates),
       lr_would_delete_count = int (length would_delete), lr_deleted_count = 0, lr_window_days = window,
       lr_total_size_bytes = (if sizes = [] then None else Some (sum_list sizes)),
       lr_oldest_age_days = (if ages = [] then None else Some (Max (set ages))),
       lr_newest_age_days = (if ages = [] then None else Some (Min (set ages)))\<rparr>)"

definition evaluate_retention :: "retention_config \<Rightarrow> retention_candidate list \<Rightarrow> retention_report" where
  "evaluate_retention config candidates =
     \<lparr>rp_enforce = rt_enforce config,
      rp_layers = map (\<lambda>(layer, window). (layer, evaluate_layer layer (window config)
        (filter (\<lambda>c. cd_layer c = layer) candidates))) layer_window_fields\<rparr>"

section \<open>The stores\<close>

record minio_object =
  mo_key :: string
  mo_last_modified :: int
  mo_size :: int

record file_age_row =
  fg_file_id :: int
  fg_dataset_id :: int
  fg_discovered_at :: "int option"

record run_age_row =
  ra_run_id :: int
  ra_dataset_id :: int
  ra_started_at :: "int option"
  ra_finished_at :: "int option"

record validation_age_row =
  va_validation_result_id :: int
  va_run_id :: int
  va_created_at :: int

record retention_db =
  rd_files :: "file_age_row list"
  rd_runs :: "run_age_row list"
  rd_validation :: "validation_age_row list"

datatype deletion = ObjectsDeleted string "string list" | RowsDeleted string "int list"

record retention_state =
  ro_objects :: "string \<Rightarrow> minio_object list"
  ro_db :: retention_db
  ro_deletions :: "deletion list"

record retention_world =
  rw_now :: int
  rw_interval_days :: "int \<Rightarrow> int"
  rw_refuses :: "string \<Rightarrow> int list \<Rightarrow> retention_db \<Rightarrow> exn option"

record retention_dataset =
  rs_dataset_id :: int
  rs_dataset_name :: string
  rs_path :: string
  rs_retention :: "retention_config option"

section \<open>The candidates\<close>

definition minio_layers :: "string list" where
  "minio_layers = [''raw'', ''processed'', ''quarantine'']"

definition page_size :: nat where
  "page_size = 1000"

definition list_objects_v2 :: "string \<Rightarrow> string \<Rightarrow> retention_state \<Rightarrow> minio_object list" where
  "list_objects_v2 bucket prefix s = take page_size (filter (\<lambda>ob. starts_with (mo_key ob) prefix) (ro_objects s bucket))"

definition minio_candidates :: "retention_world \<Rightarrow> string \<Rightarrow> string \<Rightarrow> retention_state \<Rightarrow> retention_candidate list" where
  "minio_candidates w layer prefix s =
     map (\<lambda>ob. \<lparr>cd_layer = layer, cd_identifier = mo_key ob,
         cd_age_days = rw_interval_days w (rw_now w - mo_last_modified ob), cd_size_bytes = Some (mo_size ob)\<rparr>)
       (list_objects_v2 layer prefix s)"

text \<open>\<open>EXTRACT(DAY FROM now() - t)::int\<close>: the days of the interval, towards zero.\<close>

definition extract_days :: "int \<Rightarrow> int" where
  "extract_days d = (if 0 \<le> d then d div day_us else - (- d div day_us))"

definition sql_age_candidates :: "string \<Rightarrow> string \<Rightarrow> (int \<times> int) list \<Rightarrow> retention_candidate list" where
  "sql_age_candidates layer id_prefix rows =
     map (\<lambda>(row_id, age_days). \<lparr>cd_layer = layer, cd_identifier = id_prefix @ show_int row_id,
       cd_age_days = age_days, cd_size_bytes = None\<rparr>) rows"

definition validation_reports_rows :: "retention_world \<Rightarrow> int \<Rightarrow> retention_db \<Rightarrow> (int \<times> int) list" where
  "validation_reports_rows w dataset_id db =
     map (\<lambda>v. (va_validation_result_id v, extract_days (rw_now w - va_created_at v)))
       (filter (\<lambda>v. \<exists>r \<in> set (rd_runs db). ra_run_id r = va_run_id v \<and> ra_dataset_id r = dataset_id) (rd_validation db))"

definition files_rows :: "retention_world \<Rightarrow> int \<Rightarrow> retention_db \<Rightarrow> (int \<times> int) list" where
  "files_rows w dataset_id db =
     List.map_filter (\<lambda>f. case fg_discovered_at f of
         Some t \<Rightarrow> if fg_dataset_id f = dataset_id then Some (fg_file_id f, extract_days (rw_now w - t)) else None
       | None \<Rightarrow> None) (rd_files db)"

definition coalesce_times :: "'a option \<Rightarrow> 'a option \<Rightarrow> 'a option" where
  "coalesce_times x y = (case x of None \<Rightarrow> y | Some _ \<Rightarrow> x)"

definition ingestion_runs_rows :: "retention_world \<Rightarrow> int \<Rightarrow> retention_db \<Rightarrow> (int \<times> int) list" where
  "ingestion_runs_rows w dataset_id db =
     List.map_filter (\<lambda>r. case coalesce_times (ra_finished_at r) (ra_started_at r) of
         Some t \<Rightarrow> if ra_dataset_id r = dataset_id then Some (ra_run_id r, extract_days (rw_now w - t)) else None
       | None \<Rightarrow> None) (rd_runs db)"

definition candidates_by_layer :: "retention_world \<Rightarrow> retention_dataset \<Rightarrow> retention_state \<Rightarrow>
    (string \<times> retention_candidate list) list" where
  "candidates_by_layer w d s =
     map (\<lambda>layer. (layer, minio_candidates w layer (rs_path d) s)) minio_layers @
     [(''validation_reports'', sql_age_candidates ''validation_reports'' [] (validation_reports_rows w (rs_dataset_id d) (ro_db s))),
      (''ingestion_metadata'',
        sql_age_candidates ''ingestion_metadata'' ''file:'' (files_rows w (rs_dataset_id d) (ro_db s)) @
        sql_age_candidates ''ingestion_metadata'' ''run:'' (ingestion_runs_rows w (rs_dataset_id d) (ro_db s))),
      (''logs'', [])]"

section \<open>The deletes\<close>

definition delete_objects :: "string \<Rightarrow> string list \<Rightarrow> (retention_state, unit) prog" where
  "delete_objects bucket keys = pr_call (\<lambda>s. Inr
     (s\<lparr>ro_objects := (ro_objects s)(bucket := filter (\<lambda>ob. mo_key ob \<notin> set keys) (ro_objects s bucket)),
        ro_deletions := ro_deletions s @ [ObjectsDeleted bucket keys]\<rparr>, ()))"

definition remove_rows :: "string \<Rightarrow> int list \<Rightarrow> retention_db \<Rightarrow> retention_db" where
  "remove_rows table ids db =
     (if table = ''meta.validation_results''
      then db\<lparr>rd_validation := filter (\<lambda>v. va_validation_result_id v \<notin> set ids) (rd_validation db)\<rparr>
      else if table = ''meta.files'' then db\<lparr>rd_files := filter (\<lambda>f. fg_file_id f \<notin> set ids) (rd_files db)\<rparr>
      else db\<lparr>rd_runs := filter (\<lambda>r. ra_run_id r \<notin> set ids) (rd_runs db)\<rparr>)"

definition delete_rows :: "retention_world \<Rightarrow> string \<Rightarrow> int list \<Rightarrow> (retention_state, unit) prog" where
  "delete_rows w table ids = pr_call (\<lambda>s.
     case rw_refuses w table ids (ro_db s) of
       Some e \<Rightarrow> Inl e
     | None \<Rightarrow> Inr (s\<lparr>ro_db := remove_rows table ids (ro_db s),
         ro_deletions := ro_deletions s @ [RowsDeleted table ids]\<rparr>, ()))"

text \<open>\<open>int(c.identifier[n:])\<close> of each candidate.\<close>

definition parse_ids :: "nat \<Rightarrow> retention_candidate list \<Rightarrow> exn + int list" where
  "parse_ids n = traverse (\<lambda>c. case py_int (drop n (cd_identifier c)) of None \<Rightarrow> Inl (Exn PyValueError []) | Some i \<Rightarrow> Inr i)"

definition with_prefix :: "string \<Rightarrow> retention_candidate list \<Rightarrow> retention_candidate list" where
  "with_prefix p = filter (\<lambda>c. starts_with (cd_identifier c) p)"

definition delete_layer :: "retention_world \<Rightarrow> string \<Rightarrow> retention_candidate list \<Rightarrow> (retention_state, unit) prog" where
  "delete_layer w layer to_delete =
     (if layer \<in> set minio_layers then delete_objects layer (map cd_identifier to_delete)
      else if layer = ''validation_reports''
      then pr_bind (pr_lift (parse_ids 0 to_delete)) (\<lambda>ids. delete_rows w ''meta.validation_results'' ids)
      else if layer = ''ingestion_metadata''
      then pr_bind (pr_lift (parse_ids 5 (with_prefix ''file:'' to_delete))) (\<lambda>file_ids.
           pr_bind (pr_lift (parse_ids 4 (with_prefix ''run:'' to_delete))) (\<lambda>run_ids.
           pr_bind (if file_ids = [] then pr_return () else delete_rows w ''meta.files'' file_ids) (\<lambda>_.
           if run_ids = [] then pr_return () else delete_rows w ''meta.ingestion_runs'' run_ids)))
      else pr_return ())"

text \<open>A layer of the report without candidates of its own would be a \<open>KeyError\<close>.\<close>

definition perform_deletes :: "retention_world \<Rightarrow> retention_report \<Rightarrow> (string \<times> retention_candidate list) list \<Rightarrow>
    (retention_state, unit) prog" where
  "perform_deletes w report by_layer =
     (if \<not> rp_enforce report then pr_return ()
      else pr_bind (pr_for (rp_layers report) (\<lambda>(layer, lr).
        if lr_would_delete_count lr = 0 then pr_return ()
        else (case map_of by_layer layer of
           None \<Rightarrow> pr_raise (Exn PyKeyError [])
         | Some candidates \<Rightarrow> delete_layer w layer (filter (over_window (lr_window_days lr)) candidates))))
       (\<lambda>_. pr_return ()))"

record retention_summary =
  rm_dataset :: string
  rm_enforce :: bool
  rm_would_delete_total :: int

definition retain_dataset :: "retention_world \<Rightarrow> retention_dataset \<Rightarrow> (retention_state, retention_summary list) prog" where
  "retain_dataset w d =
     (case rs_retention d of
        None \<Rightarrow> pr_return []
      | Some config \<Rightarrow>
          pr_bind (pr_query (candidates_by_layer w d)) (\<lambda>by_layer.
          let report = evaluate_retention config (concat (map snd by_layer)) in
          pr_bind (perform_deletes w report by_layer) (\<lambda>_.
          pr_return [\<lparr>rm_dataset = rs_dataset_name d, rm_enforce = rp_enforce report,
            rm_would_delete_total = sum_list (map (lr_would_delete_count \<circ> snd) (rp_layers report))\<rparr>])))"

text \<open>
  The pass runs in one transaction: an exception rolls the rows back, not the objects. The current configurations, validated, are
  the argument.
\<close>

definition run_retention :: "retention_world \<Rightarrow> retention_dataset list \<Rightarrow> (retention_state, retention_summary list) prog" where
  "run_retention w ds s =
     (case pr_for ds (retain_dataset w) s of
        (Inr summaries, s') \<Rightarrow> (Inr (concat summaries), s')
      | (Inl e, s') \<Rightarrow> (Inl e, s'\<lparr>ro_db := ro_db s\<rparr>))"

section \<open>What a pass deletes\<close>

definition row_expired :: "retention_world \<Rightarrow> retention_dataset \<Rightarrow> retention_config \<Rightarrow> retention_db \<Rightarrow> string \<Rightarrow> int \<Rightarrow> bool" where
  "row_expired w d c db table i \<longleftrightarrow>
     (let rows = (\<lambda>f. f w (rs_dataset_id d) db); old = (\<lambda>window f. case window of None \<Rightarrow> False
           | Some days \<Rightarrow> list_ex (\<lambda>(k, age). k = i \<and> days < age) (rows f)) in
      (table = ''meta.validation_results'' \<and> old (rt_validation_reports_days c) validation_reports_rows) \<or>
      (table = ''meta.files'' \<and> old (rt_ingestion_metadata_days c) files_rows) \<or>
      (table = ''meta.ingestion_runs'' \<and> old (rt_ingestion_metadata_days c) ingestion_runs_rows))"

definition object_expired :: "retention_world \<Rightarrow> retention_dataset \<Rightarrow> retention_config \<Rightarrow> retention_state \<Rightarrow> string \<Rightarrow> string \<Rightarrow> bool" where
  "object_expired w d c s bucket key \<longleftrightarrow>
     (case map_of layer_window_fields bucket of
        None \<Rightarrow> False
      | Some window \<Rightarrow> (case window c of
          None \<Rightarrow> False
        | Some days \<Rightarrow> list_ex (\<lambda>ob. mo_key ob = key \<and> starts_with key (rs_path d) \<and>
            days < rw_interval_days w (rw_now w - mo_last_modified ob)) (ro_objects s bucket)))"

text \<open>A deletion concerns one dataset that enforces its policy, and only what is over the window of its layer.\<close>

definition expired_for :: "retention_world \<Rightarrow> retention_dataset \<Rightarrow> retention_config \<Rightarrow> retention_state \<Rightarrow> deletion \<Rightarrow> bool" where
  "expired_for w d c s del =
     (case del of
        ObjectsDeleted bucket keys \<Rightarrow> list_all (object_expired w d c s bucket) keys
      | RowsDeleted table ids \<Rightarrow> list_all (row_expired w d c (ro_db s) table) ids)"

definition expired :: "retention_world \<Rightarrow> retention_dataset list \<Rightarrow> retention_state \<Rightarrow> deletion \<Rightarrow> bool" where
  "expired w ds s del = list_ex (\<lambda>d. case rs_retention d of
     None \<Rightarrow> False | Some c \<Rightarrow> rt_enforce c \<and> expired_for w d c s del) ds"

definition deleted_keys :: "deletion list \<Rightarrow> string \<Rightarrow> string list" where
  "deleted_keys dels bucket = concat (map (\<lambda>d. case d of
     ObjectsDeleted b keys \<Rightarrow> if b = bucket then keys else [] | RowsDeleted _ _ \<Rightarrow> []) dels)"

definition remaining :: "deletion list \<Rightarrow> (string \<Rightarrow> minio_object list) \<Rightarrow> string \<Rightarrow> minio_object list" where
  "remaining dels objects bucket = filter (\<lambda>ob. mo_key ob \<notin> set (deleted_keys dels bucket)) (objects bucket)"

definition fewer_rows :: "retention_db \<Rightarrow> retention_db \<Rightarrow> bool" where
  "fewer_rows db db' \<longleftrightarrow> set (rd_files db') \<subseteq> set (rd_files db) \<and> set (rd_runs db') \<subseteq> set (rd_runs db) \<and>
     set (rd_validation db') \<subseteq> set (rd_validation db)"

definition pass_inv :: "retention_world \<Rightarrow> retention_dataset list \<Rightarrow> retention_state \<Rightarrow> retention_state \<Rightarrow> bool" where
  "pass_inv w ds s0 s \<longleftrightarrow> list_all (expired w ds s0) (ro_deletions s) \<and>
     ro_objects s = remaining (ro_deletions s) (ro_objects s0) \<and> fewer_rows (ro_db s0) (ro_db s)"

lemma deleted_keys_snoc [simp]:
  "deleted_keys (dels @ [ObjectsDeleted b keys]) bucket = deleted_keys dels bucket @ (if b = bucket then keys else [])"
  "deleted_keys (dels @ [RowsDeleted table ids]) bucket = deleted_keys dels bucket"
  by (simp_all add: deleted_keys_def)

lemma fewer_remove: "fewer_rows db0 db \<Longrightarrow> fewer_rows db0 (remove_rows table ids db)"
  by (auto simp: fewer_rows_def remove_rows_def)

lemma py_int_show_int: "py_int (show_int i) = Some j \<Longrightarrow> j = i"
proof -
  assume parsed: "py_int (show_int i) = Some j"
  let ?ds = "show_nat (nat \<bar>i\<bar>)"
  have ds: "list_all is_digit ?ds" "?ds \<noteq> []" "nat_of_digits ?ds = nat \<bar>i\<bar>"
    by (simp_all add: list_all_show_nat show_nat_ne nat_of_show_nat)
  have "show_int i = ?ds \<or> show_int i = CHR ''-'' # ?ds" by (simp add: show_int_def)
  from signed_digits [OF ds(1,2) this] parsed ds(3) show "j = i"
    by (auto simp: show_int_def split: if_splits)
qed

lemma delete_objects_holds:
  assumes "expired w ds s0 (ObjectsDeleted b keys)"
  shows "pr_holds (pass_inv w ds s0) (delete_objects b keys) (\<lambda>_. True)"
  unfolding delete_objects_def using assms
  by (intro pr_holds_call) (auto simp: pass_inv_def remaining_def fun_eq_iff intro!: filter_cong)

lemma delete_rows_holds:
  assumes "expired w ds s0 (RowsDeleted table ids)"
  shows "pr_holds (pass_inv w ds s0) (delete_rows w table ids) (\<lambda>_. True)"
  unfolding delete_rows_def using assms
  by (intro pr_holds_call) (auto simp: pass_inv_def remaining_def fun_eq_iff fewer_remove split: option.splits)

lemma fewer_rows_rows:
  assumes "fewer_rows db0 db"
  shows "set (validation_reports_rows w i db) \<subseteq> set (validation_reports_rows w i db0)"
    and "set (files_rows w i db) \<subseteq> set (files_rows w i db0)"
    and "set (ingestion_runs_rows w i db) \<subseteq> set (ingestion_runs_rows w i db0)"
proof -
  have sub: "set (rd_files db) \<subseteq> set (rd_files db0)" "set (rd_runs db) \<subseteq> set (rd_runs db0)"
    "set (rd_validation db) \<subseteq> set (rd_validation db0)" using assms by (simp_all add: fewer_rows_def)
  have mf: "set xs \<subseteq> set ys \<Longrightarrow> set (List.map_filter f xs) \<subseteq> set (List.map_filter f ys)" for f and xs ys :: "'a list"
    by (auto simp: List.map_filter_def)
  show "set (files_rows w i db) \<subseteq> set (files_rows w i db0)"
    unfolding files_rows_def using sub(1) by (rule mf)
  show "set (ingestion_runs_rows w i db) \<subseteq> set (ingestion_runs_rows w i db0)"
    unfolding ingestion_runs_rows_def using sub(2) by (auto simp: List.map_filter_def)
  show "set (validation_reports_rows w i db) \<subseteq> set (validation_reports_rows w i db0)"
    unfolding validation_reports_rows_def using sub(2,3) by fastforce
qed

lemma parse_ids_mem: "parse_ids n cs = Inr ids \<Longrightarrow> i \<in> set ids \<Longrightarrow> \<exists>c \<in> set cs. py_int (drop n (cd_identifier c)) = Some i"
  unfolding parse_ids_def by (drule (1) traverse_mem) (auto split: option.splits)

text \<open>The identifiers that come back from the candidates of a query are the rows' own.\<close>

lemma parsed_rows:
  assumes "parse_ids (length p) (filter (over_window window) (sql_age_candidates layer p rows)) = Inr ids" and "i \<in> set ids"
  shows "case window of None \<Rightarrow> False | Some days \<Rightarrow> list_ex (\<lambda>(k, age). k = i \<and> days < age) rows"
proof -
  obtain k age where "(k, age) \<in> set rows" "over_window window
      \<lparr>cd_layer = layer, cd_identifier = p @ show_int k, cd_age_days = age, cd_size_bytes = None\<rparr>" "py_int (show_int k) = Some i"
    using parse_ids_mem [OF assms] by (auto simp: sql_age_candidates_def)
  then show ?thesis
    by (auto simp: over_window_def list_ex_iff dest!: py_int_show_int split: option.splits)
qed

lemma list_ex_mono: "list_ex P xs \<Longrightarrow> set xs \<subseteq> set ys \<Longrightarrow> list_ex P ys"
  by (auto simp: list_ex_iff)

lemma with_prefix_split:
  "with_prefix ''file:'' (filter P (sql_age_candidates l ''file:'' xs @ sql_age_candidates l ''run:'' ys)) =
     filter P (sql_age_candidates l ''file:'' xs)"
  "with_prefix ''run:'' (filter P (sql_age_candidates l ''file:'' xs @ sql_age_candidates l ''run:'' ys)) =
     filter P (sql_age_candidates l ''run:'' ys)"
proof -
  have swap: "with_prefix p (filter P cs) = filter P (with_prefix p cs)" for p cs
    by (simp add: with_prefix_def conj_commute)
  have own: "with_prefix ''file:'' (sql_age_candidates l ''file:'' xs) = sql_age_candidates l ''file:'' xs"
    "with_prefix ''run:'' (sql_age_candidates l ''run:'' xs) = sql_age_candidates l ''run:'' xs"
    "with_prefix ''run:'' (sql_age_candidates l ''file:'' xs) = []"
    "with_prefix ''file:'' (sql_age_candidates l ''run:'' xs) = []" for xs
    by (auto simp: with_prefix_def sql_age_candidates_def filter_id_conv filter_empty_conv)
  have app: "with_prefix p (cs @ cs') = with_prefix p cs @ with_prefix p cs'" for p cs cs'
    by (simp add: with_prefix_def)
  show "with_prefix ''file:'' (filter P (sql_age_candidates l ''file:'' xs @ sql_age_candidates l ''run:'' ys)) =
     filter P (sql_age_candidates l ''file:'' xs)"
    and "with_prefix ''run:'' (filter P (sql_age_candidates l ''file:'' xs @ sql_age_candidates l ''run:'' ys)) =
     filter P (sql_age_candidates l ''run:'' ys)"
    by (simp_all only: swap app own append_Nil2 append_Nil)
qed

lemma expired_intro:
  "d \<in> set ds \<Longrightarrow> rs_retention d = Some c \<Longrightarrow> rt_enforce c \<Longrightarrow> expired_for w d c s del \<Longrightarrow> expired w ds s del"
  by (force simp: expired_def list_ex_iff)

lemma minio_expired:
  assumes "pass_inv w ds s0 s" and "map_of layer_window_fields layer = Some window"
  shows "expired_for w d c s0 (ObjectsDeleted layer
    (map cd_identifier (filter (over_window (window c)) (minio_candidates w layer (rs_path d) s))))"
proof -
  have "object_expired w d c s0 layer (mo_key ob)"
    if "ob \<in> set (list_objects_v2 layer (rs_path d) s)" "over_window (window c) \<lparr>cd_layer = layer, cd_identifier = mo_key ob,
         cd_age_days = rw_interval_days w (rw_now w - mo_last_modified ob), cd_size_bytes = Some (mo_size ob)\<rparr>" for ob
  proof -
    have "ob \<in> set (ro_objects s layer) \<and> starts_with (mo_key ob) (rs_path d)"
      using that(1) by (auto simp: list_objects_v2_def dest: in_set_takeD)
    then show ?thesis using assms that(2)
      by (auto simp: object_expired_def over_window_def pass_inv_def remaining_def list_ex_iff split: option.splits)
  qed
  then show ?thesis
    by (auto simp: expired_for_def list_all_iff minio_candidates_def)
qed

lemma rows_expired:
  assumes "parse_ids (length p) (filter (over_window (window c)) (sql_age_candidates layer p (rows w (rs_dataset_id d) db))) = Inr ids"
    and "set (rows w (rs_dataset_id d) db) \<subseteq> set (rows w (rs_dataset_id d) (ro_db s0))"
    and "(table, window, rows) \<in> {(''meta.validation_results'', rt_validation_reports_days, validation_reports_rows),
      (''meta.files'', rt_ingestion_metadata_days, files_rows),
      (''meta.ingestion_runs'', rt_ingestion_metadata_days, ingestion_runs_rows)}"
  shows "expired_for w d c s0 (RowsDeleted table ids)"
proof -
  have "row_expired w d c (ro_db s0) table i" if "i \<in> set ids" for i
  proof -
    have "case window c of None \<Rightarrow> False | Some days \<Rightarrow> list_ex (\<lambda>(k, age). k = i \<and> days < age) (rows w (rs_dataset_id d) (ro_db s0))"
      using parsed_rows [OF assms(1) that] list_ex_mono [OF _ assms(2)] by (simp split: option.splits)
    then show ?thesis using assms(3) unfolding row_expired_def Let_def by blast
  qed
  then show ?thesis by (simp add: expired_for_def list_all_iff)
qed

lemma delete_layer_holds:
  assumes "d \<in> set ds" "rs_retention d = Some c" "rt_enforce c" and "pass_inv w ds s0 s"
    and "(layer, window) \<in> set layer_window_fields" and "map_of (candidates_by_layer w d s) layer = Some candidates"
  shows "pr_holds (pass_inv w ds s0) (delete_layer w layer (filter (over_window (window c)) candidates)) (\<lambda>_. True)"
proof -
  note rows = delete_rows_holds [OF expired_intro [OF assms(1-3)]]
  have sub: "fewer_rows (ro_db s0) (ro_db s)" using assms(4) by (simp add: pass_inv_def)
  note sub = fewer_rows_rows [OF sub, of w "rs_dataset_id d"]
  consider "layer \<in> set minio_layers" | "layer = ''validation_reports''" | "layer = ''ingestion_metadata''" | "layer = ''logs''"
    using assms(5) unfolding layer_window_fields_def minio_layers_def by force
  then show ?thesis
  proof cases
    case 1
    then have "candidates = minio_candidates w layer (rs_path d) s" "map_of layer_window_fields layer = Some window"
      using assms(5,6) by (auto simp: candidates_by_layer_def minio_layers_def layer_window_fields_def)
    then show ?thesis using 1 minio_expired [OF assms(4)]
      by (auto simp: delete_layer_def intro!: delete_objects_holds expired_intro [OF assms(1-3)])
  next
    case 2
    then have c: "candidates = sql_age_candidates ''validation_reports'' [] (validation_reports_rows w (rs_dataset_id d) (ro_db s))"
      "window = rt_validation_reports_days"
      using assms(5,6) by (auto simp: candidates_by_layer_def minio_layers_def layer_window_fields_def)
    have "pr_holds (pass_inv w ds s0) (delete_rows w ''meta.validation_results'' ids) (\<lambda>_. True)"
      if "parse_ids 0 (filter (over_window (window c)) candidates) = Inr ids" for ids
      by (rule rows, rule rows_expired [where p = "[]"]) (use that c sub(1) in \<open>simp_all\<close>)
    then show ?thesis
      by (auto simp: delete_layer_def 2 minio_layers_def intro!: pr_holds_pure(3)
          pr_holds_bind [where Q = "\<lambda>ids. parse_ids 0 (filter (over_window (window c)) candidates) = Inr ids"])
  next
    case 3
    let ?over = "filter (over_window (window c))"
    let ?files = "sql_age_candidates ''ingestion_metadata'' ''file:'' (files_rows w (rs_dataset_id d) (ro_db s))"
    let ?runs = "sql_age_candidates ''ingestion_metadata'' ''run:'' (ingestion_runs_rows w (rs_dataset_id d) (ro_db s))"
    from 3 have c: "candidates = ?files @ ?runs" "window = rt_ingestion_metadata_days"
      using assms(5,6) by (auto simp: candidates_by_layer_def minio_layers_def layer_window_fields_def)
    have "pr_holds (pass_inv w ds s0) (delete_rows w ''meta.files'' ids) (\<lambda>_. True)"
      if "parse_ids 5 (?over ?files) = Inr ids" for ids
      by (rule rows, rule rows_expired [where p = "''file:''" and layer = "''ingestion_metadata''"])
        (use that c sub(2) in \<open>simp_all add: eval_nat_numeral\<close>)
    moreover have "pr_holds (pass_inv w ds s0) (delete_rows w ''meta.ingestion_runs'' ids) (\<lambda>_. True)"
      if "parse_ids 4 (?over ?runs) = Inr ids" for ids
      by (rule rows, rule rows_expired [where p = "''run:''" and layer = "''ingestion_metadata''"])
        (use that c sub(3) in \<open>simp_all add: eval_nat_numeral\<close>)
    ultimately have "pr_holds (pass_inv w ds s0) (pr_bind (if file_ids = [] then pr_return () else delete_rows w ''meta.files'' file_ids)
        (\<lambda>_. if run_ids = [] then pr_return () else delete_rows w ''meta.ingestion_runs'' run_ids)) (\<lambda>_. True)"
      if "parse_ids 5 (?over ?files) = Inr file_ids" "parse_ids 4 (?over ?runs) = Inr run_ids" for file_ids run_ids
      using that by (intro pr_holds_bind [where Q = "\<lambda>_. True"]) (auto intro: pr_holds_pure)
    then have "pr_holds (pass_inv w ds s0) (pr_bind (pr_lift (parse_ids 5 (?over ?files))) (\<lambda>file_ids.
        pr_bind (pr_lift (parse_ids 4 (?over ?runs))) (\<lambda>run_ids.
        pr_bind (if file_ids = [] then pr_return () else delete_rows w ''meta.files'' file_ids)
          (\<lambda>_. if run_ids = [] then pr_return () else delete_rows w ''meta.ingestion_runs'' run_ids)))) (\<lambda>_. True)"
      by (intro pr_holds_bind [where Q = "\<lambda>ids. parse_ids 5 (?over ?files) = Inr ids"]
          pr_holds_bind [where Q = "\<lambda>ids. parse_ids 4 (?over ?runs) = Inr ids"] pr_holds_pure(3)) auto
    then show ?thesis
      by (simp add: delete_layer_def 3 minio_layers_def c(1) with_prefix_split del: filter_append)
  next
    case 4
    then show ?thesis by (simp add: delete_layer_def minio_layers_def pr_holds_pure)
  qed
qed

lemma layers_of_report:
  "(layer, lr) \<in> set (rp_layers (evaluate_retention c candidates)) \<Longrightarrow>
     \<exists>window. (layer, window) \<in> set layer_window_fields \<and> lr_window_days lr = window c"
  by (auto simp: evaluate_retention_def evaluate_layer_def Let_def)

lemma retain_dataset_holds:
  assumes "d \<in> set ds"
  shows "pr_holds (pass_inv w ds s0) (retain_dataset w d) (\<lambda>_. True)"
proof (cases "rs_retention d")
  case None
  then show ?thesis by (simp add: retain_dataset_def pr_holds_pure)
next
  case (Some c)
  let ?report = "\<lambda>by_layer. evaluate_retention c (concat (map snd by_layer))"
  have "pr_holds (pass_inv w ds s0) (perform_deletes w (?report by_layer) by_layer) (\<lambda>_. True)"
    if "\<exists>s. pass_inv w ds s0 s \<and> by_layer = candidates_by_layer w d s" for by_layer
  proof -
    from that obtain s where s: "pass_inv w ds s0 s" "by_layer = candidates_by_layer w d s" by auto
    have "pr_holds (pass_inv w ds s0) (delete_layer w layer (filter (over_window (lr_window_days lr)) candidates)) (\<lambda>_. True)"
      if "(layer, lr) \<in> set (rp_layers (?report by_layer))" "map_of by_layer layer = Some candidates" "rt_enforce c"
      for layer lr candidates
      using layers_of_report [OF that(1)] delete_layer_holds [OF assms Some that(3) s(1)] that(2) s(2) by auto
    moreover have "rp_enforce (?report by_layer) = rt_enforce c" by (simp add: evaluate_retention_def)
    ultimately show ?thesis
      by (auto simp: perform_deletes_def pr_holds_pure intro!: pr_holds_bind [where Q = "\<lambda>_. True"]
          pr_holds_for [where Q = "\<lambda>_. True", simplified] split: option.split)
  qed
  then show ?thesis
    unfolding retain_dataset_def Some option.case Let_def
    by (intro pr_holds_bind [where Q = "\<lambda>by_layer. \<exists>s. pass_inv w ds s0 s \<and> by_layer = candidates_by_layer w d s"]
        pr_holds_bind [where Q = "\<lambda>_. True"] pr_holds_pure) auto
qed


section \<open>Passes\<close>

definition demo_policy :: retention_config where
  "demo_policy = \<lparr>rt_raw_days = None, rt_processed_days = Some 60, rt_quarantine_days = Some 180,
     rt_validation_reports_days = Some 730, rt_ingestion_metadata_days = Some 730, rt_logs_days = Some 30, rt_enforce = True\<rparr>"

definition demo_datasets :: "retention_dataset list" where
  "demo_datasets =
     [\<lparr>rs_dataset_id = 1, rs_dataset_name = ''customers'', rs_path = ''customers/'', rs_retention = Some demo_policy\<rparr>,
      \<lparr>rs_dataset_id = 2, rs_dataset_name = ''orders'', rs_path = ''orders/'', rs_retention = Some demo_policy\<rparr>]"

definition demo_bucket :: "minio_object list" where
  "demo_bucket =
     [\<lparr>mo_key = ''customers/a'', mo_last_modified = 900 * day_us, mo_size = 5\<rparr>,
      \<lparr>mo_key = ''customers/b'', mo_last_modified = 940 * day_us, mo_size = 5\<rparr>,
      \<lparr>mo_key = ''orders/a'', mo_last_modified = 900 * day_us, mo_size = 5\<rparr>]"

definition demo_pass :: "file_age_row list \<Rightarrow> (exn + retention_summary list) \<times> retention_state" where
  "demo_pass files = run_retention
     \<lparr>rw_now = 1000 * day_us, rw_interval_days = (\<lambda>d. d div day_us), rw_refuses = (\<lambda>_ _ _. Some (Exn DatabaseError []))\<rparr>
     demo_datasets
     \<lparr>ro_objects = (\<lambda>b. if b = ''processed'' then demo_bucket else []),
      ro_db = \<lparr>rd_files = files, rd_runs = [], rd_validation = []\<rparr>, ro_deletions = []\<rparr>"


text \<open>
  The database of the platform refuses every \<open>DELETE\<close> on these tables. One over-age row of an enforcing dataset then ends the
  pass with its objects already gone, and the datasets after it are not visited.
\<close>

lemma refused_delete_ends_pass:
  "let (r, s') = demo_pass [\<lparr>fg_file_id = 1, fg_dataset_id = 1, fg_discovered_at = Some 0\<rparr>] in
     isl r \<and> ro_deletions s' = [ObjectsDeleted ''processed'' [''customers/a'']] \<and>
     map mo_key (ro_objects s' ''processed'') = [''customers/b'', ''orders/a'']"
  by code_simp

end
