(* ===== verification/Orchestration.thy ===== *)
theory Orchestration
  imports Discovery
begin

text \<open>
  The tasks of the ingestion DAGs that write the metadata tables themselves: the integrity gate a file
  passes before a pod is launched (\<open>_common/integrity_gate.py\<close>), the record of a backfill that matched nothing
  (\<open>_common/gap_recorder.py\<close>), and the tracking of the \<open>DBT_BUILD\<close> stage (\<open>_common/run_stage_recorder.py\<close>). What the
  object store answers and sha256 are parameters; an \<open>AirflowFailException\<close> is the outcome \<open>GateFailed\<close>.
\<close>

section \<open>The integrity gate\<close>

text \<open>Both answers to \<open>HEAD\<close> (length and entity tag) and what reading the object gives: its bytes, or the text of the exception.\<close>

record gate_world =
  gw_sha256 :: "string \<Rightarrow> string"
  gw_first :: "exn + int \<times> string"
  gw_second :: "exn + int \<times> string"
  gw_read :: "string + string"

datatype gate_outcome = GatePassed int string string | GateFailed string

definition expected_extensions :: "string list" where
  "expected_extensions = [''.csv'', ''.csv.gz'', ''.csv.zip'']"

definition quoted :: "string \<Rightarrow> string" where
  "quoted s = CHR 0x27 # s @ [CHR 0x27]"

definition rejection_sentinel_prefix :: string where
  "rejection_sentinel_prefix = ''INTEGRITY_GATE_REJECTED:''"

definition s3_uri :: "string \<Rightarrow> string \<Rightarrow> string" where
  "s3_uri bucket key = ''s3://'' @ bucket @ ''/'' @ key"

definition resolved_hash :: "gate_world \<Rightarrow> string \<Rightarrow> string \<Rightarrow> string \<Rightarrow> string option \<Rightarrow> string" where
  "resolved_hash w bucket key reason known =
     (case known of
        Some sha \<Rightarrow> sha
      | None \<Rightarrow> gw_sha256 w (rejection_sentinel_prefix @ bucket @ ''/'' @ key @ '':'' @ reason))"

definition rejected_file_row :: "gate_world \<Rightarrow> string \<Rightarrow> string \<Rightarrow> string \<Rightarrow> string option \<Rightarrow> int option \<Rightarrow> int \<Rightarrow> file_row" where
  "rejected_file_row w bucket key reason known size_bytes dataset_id =
     \<lparr>fl_id = 0, fl_dataset_id = dataset_id, fl_object_uri = s3_uri bucket key,
      fl_content_sha256 = resolved_hash w bucket key reason known, fl_hash_version = 1,
      fl_size_bytes = (case size_bytes of None \<Rightarrow> 0 | Some n \<Rightarrow> n), fl_filename = base_name key,
      fl_status = ''REJECTED: '' @ reason, fl_duplicate_of = None\<rparr>"

text \<open>The file row is inserted, or its status overwritten.\<close>

definition upsert_rejected :: "file_row \<Rightarrow> meta_db \<Rightarrow> meta_db \<times> int" where
  "upsert_rejected f db =
     (let (rows, r) = insert_or_update file_key (\<lambda>r. r\<lparr>fl_status := fl_status f\<rparr>)
            (f\<lparr>fl_id := next_id SeqFiles db\<rparr>) (md_files db)
      in ((draw_id SeqFiles db)\<lparr>md_files := rows\<rparr>, fl_id r))"

definition reject_file :: "gate_world \<Rightarrow> string \<Rightarrow> string \<Rightarrow> string \<Rightarrow> string \<Rightarrow> string option \<Rightarrow> int option \<Rightarrow> meta_db \<Rightarrow> meta_db" where
  "reject_file w bucket key dataset_name reason known size_bytes db =
     (let (db1, dataset_id) = get_or_create_dataset dataset_name db
      in fst (upsert_rejected (rejected_file_row w bucket key reason known size_bytes dataset_id) db1))"

text \<open>The check that refuses a file, with the hash and the size its row gets.\<close>

definition gate_check :: "gate_world \<Rightarrow> string \<Rightarrow> exn + (string \<times> string option \<times> int option) + (int \<times> string \<times> string)" where
  "gate_check w key =
     (if \<not> list_ex (ends_with key) expected_extensions
      then Inr (Inl (key @ '': extension not in ('' @ join '', '' (map quoted expected_extensions) @ '')'', None, None))
      else (case gw_first w of
        Inl e \<Rightarrow> Inl e
      | Inr (len, tag) \<Rightarrow>
          if len = 0 then Inr (Inl (key @ '': empty file (0 bytes)'', Some (gw_sha256 w []), Some 0))
          else (case gw_second w of
            Inl e \<Rightarrow> Inl e
          | Inr (len', tag') \<Rightarrow>
              if (len, tag) \<noteq> (len', tag')
              then Inr (Inl (key @ '': object not stable between HEAD checks'', None, Some len))
              else (case gw_read w of
                Inl text \<Rightarrow> Inr (Inl (key @ '': object could not be read/hashed: '' @ text, None, Some len'))
              | Inr bytes \<Rightarrow> Inr (Inr (len', tag', gw_sha256 w bytes))))))"

definition integrity_gate :: "gate_world \<Rightarrow> string \<Rightarrow> string \<Rightarrow> string \<Rightarrow> (meta_db, gate_outcome) prog" where
  "integrity_gate w bucket key dataset_name =
     (case gate_check w key of
        Inl e \<Rightarrow> pr_raise e
      | Inr (Inl (reason, known, size_bytes)) \<Rightarrow>
          pr_call (\<lambda>db. Inr (reject_file w bucket key dataset_name reason known size_bytes db, GateFailed reason))
      | Inr (Inr (len, tag, sha)) \<Rightarrow> pr_return (GatePassed len tag sha))"

section \<open>Backfills that match nothing\<close>

record dag_run =
  dr_dag_id :: string
  dr_run_id :: string
  dr_backfill_id :: "int option"

record gap_row =
  gp_dataset_id :: int
  gp_dag_id :: string
  gp_dag_run_id :: string
  gp_backfill_id :: "int option"

definition gap_key :: "gap_row \<Rightarrow> int \<times> string" where
  "gap_key g = (gp_dataset_id g, gp_dag_run_id g)"

definition insert_gap :: "gap_row \<Rightarrow> gap_row list \<Rightarrow> gap_row list" where
  "insert_gap g gaps = (if gap_key g \<in> gap_key ` set gaps then gaps else gaps @ [g])"

definition record_processing_gap_if_empty :: "string list \<Rightarrow> string \<Rightarrow> dag_run option \<Rightarrow> meta_db \<Rightarrow> gap_row list \<Rightarrow> gap_row list" where
  "record_processing_gap_if_empty matched_keys dataset_name run db gaps =
     (case run of
        None \<Rightarrow> gaps
      | Some r \<Rightarrow>
          if matched_keys \<noteq> [] \<or> dr_backfill_id r = None then gaps
          else List.fold insert_gap
            (map (\<lambda>d. \<lparr>gp_dataset_id = dt_id d, gp_dag_id = dr_dag_id r, gp_dag_run_id = dr_run_id r,
                gp_backfill_id = dr_backfill_id r\<rparr>)
              (filter (\<lambda>d. dt_name d = dataset_name) (md_datasets db))) gaps)"

section \<open>Tracking the dbt build\<close>

definition stage_name :: string where
  "stage_name = ''DBT_BUILD''"

text \<open>The joins: a run of the dataset, its finished \<open>STAGE_LOAD\<close>, and its \<open>DBT_BUILD\<close> row, if any.\<close>

definition pending_dbt_build :: "string \<Rightarrow> meta_db \<Rightarrow> run_row \<Rightarrow> bool" where
  "pending_dbt_build dataset_name db r \<longleftrightarrow>
     list_ex (\<lambda>d. dt_id d = ir_dataset_id r \<and> dt_name d = dataset_name) (md_datasets db) \<and>
     list_ex (\<lambda>s. stage_key s = (ir_id r, ''STAGE_LOAD'') \<and> rs_status s = ''SUCCEEDED'') (md_stages db) \<and>
     (case find (\<lambda>s. stage_key s = (ir_id r, stage_name)) (md_stages db) of
        None \<Rightarrow> True
      | Some s \<Rightarrow> rs_status s \<in> {''FAILED'', ''RUNNING''})"

definition list_run_ids_pending_dbt_build :: "string \<Rightarrow> meta_db \<Rightarrow> int list" where
  "list_run_ids_pending_dbt_build dataset_name db = sort (map ir_id (filter (pending_dbt_build dataset_name db) (md_runs db)))"

definition dbt_stage_row :: "int \<Rightarrow> string \<Rightarrow> int \<Rightarrow> meta_db \<Rightarrow> run_stage_row" where
  "dbt_stage_row now status run_id db =
     \<lparr>rs_id = next_id SeqStages db, rs_run_id = run_id, rs_stage_name = stage_name, rs_status = status,
      rs_lease_expires_at = None, rs_pod_name = None, rs_try_number = None, rs_started_at = now,
      rs_finished_at = (if status \<noteq> ''RUNNING'' then Some now else None)\<rparr>"

definition record_one :: "int \<Rightarrow> string \<Rightarrow> int \<Rightarrow> meta_db \<Rightarrow> exn + meta_db" where
  "record_one now status run_id db =
     (if \<not> run_known db run_id then Inl (Exn DatabaseError [])
      else Inr ((draw_id SeqStages db)\<lparr>md_stages := fst (insert_or_update stage_key
        (\<lambda>r. r\<lparr>rs_status := status, rs_finished_at := (if status \<noteq> ''RUNNING'' then Some now else rs_finished_at r)\<rparr>)
        (dbt_stage_row now status run_id db) (md_stages db))\<rparr>))"

text \<open>One transaction for all runs.\<close>

fun record_dbt_build_stage :: "int \<Rightarrow> int list \<Rightarrow> string \<Rightarrow> meta_db \<Rightarrow> exn + meta_db" where
  "record_dbt_build_stage now [] status db = Inr db"
| "record_dbt_build_stage now (run_id # run_ids) status db =
     (case record_one now status run_id db of
        Inl e \<Rightarrow> Inl e
      | Inr db' \<Rightarrow> record_dbt_build_stage now run_ids status db')"

text \<open>\<open>states\<close> is what \<open>get_task_states\<close> answers for the run.\<close>

definition resolve_dbt_build_status :: "(string \<Rightarrow> string option) \<Rightarrow> string" where
  "resolve_dbt_build_status states = (if states ''dbt_build'' = Some ''success'' then ''SUCCEEDED'' else ''FAILED'')"

text \<open>The chain \<open>mark_running >> dbt_build >> status >> mark_done\<close>; the build itself does not touch the stages.\<close>

definition track_dbt_build :: "string \<Rightarrow> int \<Rightarrow> int \<Rightarrow> (string \<Rightarrow> string option) \<Rightarrow> meta_db \<Rightarrow> exn + meta_db" where
  "track_dbt_build dataset_name started finished states db =
     (let pending = list_run_ids_pending_dbt_build dataset_name db in
      case record_dbt_build_stage started pending ''RUNNING'' db of
        Inl e \<Rightarrow> Inl e
      | Inr db' \<Rightarrow> record_dbt_build_stage finished pending (resolve_dbt_build_status states) db')"

section \<open>What the gate lets through\<close>

lemma insert_or_update_mem: "insert_or_update key upd new rows = (rows', r) \<Longrightarrow> r \<in> set rows'"
  by (auto simp: insert_or_update_def dest!: find_SomeD split: option.splits)

text \<open>Writing the same columns again changes no row.\<close>

lemma insert_or_update_again:
  assumes "\<And>x. key (upd x) = key x" and "\<And>x. upd (upd x) = upd x" and "upd new = new" and "key new' = key new"
  shows "fst (insert_or_update key upd new' (fst (insert_or_update key upd new rows))) = fst (insert_or_update key upd new rows)"
proof (cases "find (\<lambda>r. key r = key new) rows")
  case None
  then have "\<forall>x \<in> set rows. key x \<noteq> key new" by (auto simp: find_None_iff)
  then show ?thesis using assms(3,4)
    by (simp add: insert_or_update_def None find_append) (auto intro!: map_idI)
next
  case (Some r)
  then show ?thesis using assms
    by (auto simp: insert_or_update_def find_map_same comp_def)
qed

lemma registered_dataset_again:
  assumes "get_or_create_dataset name db = (db1, i)" and "md_datasets db2 = md_datasets db1"
  shows "snd (get_or_create_dataset name db2) = i"
proof (cases "find (\<lambda>r. dt_name r = name) (md_datasets db)")
  case None
  then show ?thesis using assms
    by (auto simp: get_or_create_dataset_def insert_or_update_def find_append Let_def)
next
  case (Some r)
  then show ?thesis using assms
    by (auto simp: get_or_create_dataset_def insert_or_update_def find_map_same Let_def)
qed

lemma gate_check_passes:
  "gate_check w key = Inr (Inr (n, tag, sha)) \<longleftrightarrow>
     list_ex (ends_with key) expected_extensions \<and> n \<noteq> 0 \<and> gw_first w = Inr (n, tag) \<and> gw_second w = Inr (n, tag) \<and>
     (\<exists>bytes. gw_read w = Inr bytes \<and> sha = gw_sha256 w bytes)"
  by (auto simp: gate_check_def split: sum.splits prod.splits if_splits)

lemma reject_file_tables:
  assumes "get_or_create_dataset name db = (db1, i)"
  shows "md_files (reject_file w bucket key name reason known n db) =
      fst (insert_or_update file_key (\<lambda>r. r\<lparr>fl_status := ''REJECTED: '' @ reason\<rparr>)
        ((rejected_file_row w bucket key reason known n i)\<lparr>fl_id := next_id SeqFiles db1\<rparr>) (md_files db1))"
    and "md_datasets (reject_file w bucket key name reason known n db) = md_datasets db1"
  using assms by (simp_all add: reject_file_def upsert_rejected_def Let_def split_beta draw_id_def rejected_file_row_def)

lemma reject_file_records:
  "\<exists>f \<in> set (md_files (reject_file w bucket key name reason known n db)).
     fl_object_uri f = s3_uri bucket key \<and> fl_status f = ''REJECTED: '' @ reason"
proof -
  obtain db1 i where ds: "get_or_create_dataset name db = (db1, i)" by (cases "get_or_create_dataset name db")
  let ?new = "(rejected_file_row w bucket key reason known n i)\<lparr>fl_id := next_id SeqFiles db1\<rparr>"
  let ?upd = "\<lambda>r. r\<lparr>fl_status := ''REJECTED: '' @ reason\<rparr>"
  obtain rows r where rows: "insert_or_update file_key ?upd ?new (md_files db1) = (rows, r)"
    by (cases "insert_or_update file_key ?upd ?new (md_files db1)")
  have "fl_status ?new = ''REJECTED: '' @ reason" by (simp add: rejected_file_row_def)
  then have "file_key r = file_key ?new \<and> fl_status r = ''REJECTED: '' @ reason"
    using rows by (auto simp: insert_or_update_def file_key_def dest!: find_SomeD split: option.splits simp del: append.simps)
  then have "fl_object_uri r = s3_uri bucket key \<and> fl_status r = ''REJECTED: '' @ reason"
    by (simp add: file_key_def rejected_file_row_def)
  then show ?thesis
    using insert_or_update_mem [OF rows] unfolding reject_file_tables(1) [OF ds] rows fst_conv by blast
qed

lemma reject_file_again:
  "md_files (reject_file w bucket key name reason known n (reject_file w bucket key name reason known n db)) =
     md_files (reject_file w bucket key name reason known n db)"
proof -
  obtain db1 i where ds: "get_or_create_dataset name db = (db1, i)" by (cases "get_or_create_dataset name db")
  define db2 where "db2 = reject_file w bucket key name reason known n db"
  note tables = reject_file_tables [OF ds, of w bucket key reason known n, folded db2_def]
  obtain db3 where ds2: "get_or_create_dataset name db2 = (db3, i)"
    using registered_dataset_again [OF ds tables(2)] by (metis prod.collapse)
  then have db3: "md_files db3 = md_files db2"
    by (auto simp: get_or_create_dataset_def Let_def draw_id_def split: prod.splits)
  show ?thesis unfolding db2_def [symmetric] reject_file_tables(1) [OF ds2] db3 tables(1)
    by (rule insert_or_update_again) (simp_all add: file_key_def rejected_file_row_def)
qed


definition demo_gate :: "int \<Rightarrow> gate_world" where
  "demo_gate n = \<lparr>gw_sha256 = id, gw_first = Inr (n, ''t''), gw_second = Inr (n, ''t''), gw_read = Inr ''a,b''\<rparr>"


text \<open>
  The hash of a refused file that was not read is the hash of a text; a file with that text as its content has the
  same one.
\<close>

lemma sentinel_hash_not_reserved:
  "gate_check w key = Inr (Inr (n, tag, sha)) \<Longrightarrow>
     gw_read w = Inr (rejection_sentinel_prefix @ bucket @ ''/'' @ key @ '':'' @ reason) \<Longrightarrow>
     sha = resolved_hash w bucket key reason None"
  by (auto simp: gate_check_passes resolved_hash_def)

section \<open>The gaps\<close>

lemma insert_gap_distinct: "distinct (map gap_key gaps) \<Longrightarrow> distinct (map gap_key (insert_gap g gaps))"
  by (simp add: insert_gap_def)

lemma gap_recorded_once:
  "distinct (map gap_key gaps) \<Longrightarrow> distinct (map gap_key (record_processing_gap_if_empty keys name run db gaps))"
proof -
  have "distinct (map gap_key xs) \<Longrightarrow> distinct (map gap_key (List.fold insert_gap gs xs))" for gs xs
    by (induction gs arbitrary: xs) (simp_all add: insert_gap_distinct)
  then show "distinct (map gap_key gaps) \<Longrightarrow> distinct (map gap_key (record_processing_gap_if_empty keys name run db gaps))"
    by (simp add: record_processing_gap_if_empty_def split: option.split)
qed

text \<open>An empty backfill of a dataset that no file or rejection has registered yet records nothing.\<close>

lemma unregistered_dataset_gap_lost:
  "name \<notin> dt_name ` set (md_datasets db) \<Longrightarrow> record_processing_gap_if_empty keys name run db gaps = gaps"
proof -
  assume "name \<notin> dt_name ` set (md_datasets db)"
  then have none: "filter (\<lambda>d. dt_name d = name) (md_datasets db) = []" by (auto simp: filter_empty_conv)
  show ?thesis by (simp add: record_processing_gap_if_empty_def none split: option.split)
qed

section \<open>What the tracking records\<close>

definition stages_at :: "meta_db \<Rightarrow> int \<times> string \<Rightarrow> run_stage_row list" where
  "stages_at db k = filter (\<lambda>s. stage_key s = k) (md_stages db)"

definition same_runs :: "meta_db \<Rightarrow> meta_db \<Rightarrow> bool" where
  "same_runs db db' \<longleftrightarrow> md_runs db' = md_runs db \<and> md_datasets db' = md_datasets db"

definition all_have :: "string \<Rightarrow> run_stage_row list \<Rightarrow> bool" where
  "all_have status rows \<longleftrightarrow> rows \<noteq> [] \<and> list_all (\<lambda>s. rs_status s = status) rows"

lemma find_stages_at: "find (\<lambda>s. stage_key s = k) (md_stages db) = (case stages_at db k of [] \<Rightarrow> None | s # _ \<Rightarrow> Some s)"
proof -
  have "find P xs = (case filter P xs of [] \<Rightarrow> None | x # _ \<Rightarrow> Some x)" for P and xs :: "'a list"
    by (induction xs) auto
  then show ?thesis by (simp add: stages_at_def)
qed

lemma record_one_effect:
  assumes "record_one now status i db = Inr db'"
  shows "same_runs db db'" and "k \<noteq> (i, stage_name) \<Longrightarrow> stages_at db' k = stages_at db k"
    and "all_have status (stages_at db' (i, stage_name))"
proof -
  let ?upd = "\<lambda>r. r\<lparr>rs_status := status, rs_finished_at := (if status \<noteq> ''RUNNING'' then Some now else rs_finished_at r)\<rparr>"
  let ?new = "dbt_stage_row now status i db"
  have db': "db' = (draw_id SeqStages db)\<lparr>md_stages := fst (insert_or_update stage_key ?upd ?new (md_stages db))\<rparr>"
    using assms by (simp add: record_one_def split: if_splits)
  have new: "stage_key ?new = (i, stage_name)" "rs_status ?new = status" "\<And>r. stage_key (?upd r) = stage_key r"
    by (simp_all add: dbt_stage_row_def stage_key_def)
  show "same_runs db db'" by (simp add: db' same_runs_def draw_id_def)
  have mapped: "filter (\<lambda>s. stage_key s = k) (map (\<lambda>x. if stage_key x = (i, stage_name) then ?upd x else x) rows) =
      (if k = (i, stage_name) then map ?upd (filter (\<lambda>s. stage_key s = k) rows) else filter (\<lambda>s. stage_key s = k) rows)" for k rows
    using new(3) by (induction rows) auto
  show "stages_at db' k = stages_at db k" if "k \<noteq> (i, stage_name)"
    using that new(1) by (simp add: db' stages_at_def insert_or_update_def mapped split: option.split)
  show "all_have status (stages_at db' (i, stage_name))"
  proof (cases "find (\<lambda>r. stage_key r = (i, stage_name)) (md_stages db)")
    case None
    then have "filter (\<lambda>s. stage_key s = (i, stage_name)) (md_stages db) = []" by (simp add: find_None_iff filter_empty_conv)
    then show ?thesis using None new(1,2) by (simp add: db' stages_at_def all_have_def insert_or_update_def)
  next
    case (Some r)
    then have "filter (\<lambda>s. stage_key s = (i, stage_name)) (md_stages db) \<noteq> []"
      by (auto simp: filter_empty_conv dest!: find_SomeD)
    moreover have "list_all (\<lambda>s. rs_status s = status) (map ?upd rows)" for rows by (simp add: list_all_iff)
    ultimately show ?thesis using Some new(1)
      by (simp only: db' stages_at_def all_have_def insert_or_update_def) (simp add: mapped)
  qed
qed

lemma record_dbt_build_stage_effect:
  assumes "record_dbt_build_stage now ids status db = Inr db'"
  shows "same_runs db db' \<and> (\<forall>j n. j \<in> set ids \<and> n = stage_name \<or> stages_at db' (j, n) = stages_at db (j, n)) \<and>
    (\<forall>i \<in> set ids. all_have status (stages_at db' (i, stage_name)))"
  using assms
proof (induction ids arbitrary: db)
  case Nil
  then show ?case by (simp add: same_runs_def)
next
  case (Cons i ids)
  then obtain db1 where one: "record_one now status i db = Inr db1" and rest: "record_dbt_build_stage now ids status db1 = Inr db'"
    by (auto split: sum.splits)
  note one = record_one_effect [OF one] and rest = Cons.IH [OF rest]
  have "all_have status (stages_at db' (i, stage_name))"
    using one(3) rest by (cases "i \<in> set ids") (auto, metis)
  moreover have "j \<in> set (i # ids) \<and> n = stage_name \<or> stages_at db' (j, n) = stages_at db (j, n)" for j n
    using one(2) [of "(j, n)"] rest by (metis (no_types, lifting) Pair_inject list.set_intros)
  ultimately show ?case using one(1) rest by (simp add: same_runs_def)
qed

lemma record_dbt_build_stage_total:
  "\<forall>i \<in> set ids. run_known db i \<Longrightarrow> \<exists>db'. record_dbt_build_stage now ids status db = Inr db'"
proof (induction ids arbitrary: db)
  case (Cons i ids)
  then obtain db1 where one: "record_one now status i db = Inr db1" by (simp add: record_one_def)
  have "\<forall>j \<in> set ids. run_known db1 j" using Cons.prems record_one_effect(1) [OF one] by (simp add: same_runs_def run_known_def)
  with Cons.IH one show ?case by simp
qed simp

text \<open>C33: Tracking a dbt build never fails; it leaves every pending run with the outcome of the build as the status of
  its \<open>DBT_BUILD\<close> stage, touches no other stage, and after a successful build nothing is pending, after any other the same runs are.\<close>

theorem dbt_tracking_recorded:
  "\<exists>db'. track_dbt_build name started finished states db = Inr db' \<and>
     list_all (\<lambda>i. get_run_stage_status i stage_name db' = Some (resolve_dbt_build_status states))
       (list_run_ids_pending_dbt_build name db) \<and>
     (\<forall>j n. j \<in> set (list_run_ids_pending_dbt_build name db) \<and> n = stage_name \<or> stages_at db' (j, n) = stages_at db (j, n)) \<and>
     list_run_ids_pending_dbt_build name db' =
       (if states ''dbt_build'' = Some ''success'' then [] else list_run_ids_pending_dbt_build name db)"
proof -
  let ?ids = "list_run_ids_pending_dbt_build name db" and ?status = "resolve_dbt_build_status states"
  have known: "\<forall>i \<in> set ?ids. run_known db i"
    by (auto simp: list_run_ids_pending_dbt_build_def run_known_def)
  then obtain db1 where first: "record_dbt_build_stage started ?ids ''RUNNING'' db = Inr db1"
    using record_dbt_build_stage_total by blast
  note one = record_dbt_build_stage_effect [OF first]
  have "\<forall>i \<in> set ?ids. run_known db1 i" using known one by (simp add: same_runs_def run_known_def)
  then obtain db' where second: "record_dbt_build_stage finished ?ids ?status db1 = Inr db'"
    using record_dbt_build_stage_total by blast
  note two = record_dbt_build_stage_effect [OF second]
  have frame: "stages_at db' (j, n) = stages_at db (j, n)" if "\<not> (j \<in> set ?ids \<and> n = stage_name)" for j n
    using one two that by metis
  have status: "get_run_stage_status i stage_name db' = Some ?status" if "i \<in> set ?ids" for i
    using two that by (auto simp: get_run_stage_status_def find_stages_at all_have_def split: list.splits)
  have same: "md_runs db' = md_runs db" "md_datasets db' = md_datasets db" using one two by (simp_all add: same_runs_def)
  have loaded: "list_ex (\<lambda>s. stage_key s = (i, ''STAGE_LOAD'') \<and> rs_status s = ''SUCCEEDED'') (md_stages db') \<longleftrightarrow>
      list_ex (\<lambda>s. stage_key s = (i, ''STAGE_LOAD'') \<and> rs_status s = ''SUCCEEDED'') (md_stages db)" for i
  proof -
    have "stages_at db' (i, ''STAGE_LOAD'') = stages_at db (i, ''STAGE_LOAD'')"
      by (rule frame) (auto simp: stage_name_def)
    then have "set (stages_at db' (i, ''STAGE_LOAD'')) = set (stages_at db (i, ''STAGE_LOAD''))" by simp
    then show ?thesis by (auto simp: stages_at_def list_ex_iff)
  qed
  have undone: "?status \<in> {''FAILED'', ''RUNNING''} \<longleftrightarrow> states ''dbt_build'' \<noteq> Some ''success''"
    by (simp add: resolve_dbt_build_status_def)
  have pending: "pending_dbt_build name db' r \<longleftrightarrow> pending_dbt_build name db r \<and> states ''dbt_build'' \<noteq> Some ''success''"
    if "r \<in> set (md_runs db)" for r
  proof (cases "pending_dbt_build name db r")
    case True
    with that have "ir_id r \<in> set ?ids" by (auto simp: list_run_ids_pending_dbt_build_def)
    from status [OF this] have "\<exists>s. find (\<lambda>s. stage_key s = (ir_id r, stage_name)) (md_stages db') = Some s \<and> rs_status s = ?status"
      by (auto simp: get_run_stage_status_def)
    then show ?thesis using True undone by (auto simp: pending_dbt_build_def loaded same)
  next
    case False
    show ?thesis
    proof (cases "ir_id r \<in> set ?ids")
      case True
      then obtain r' where "ir_id r' = ir_id r" "pending_dbt_build name db r'"
        by (auto simp: list_run_ids_pending_dbt_build_def)
      with False show ?thesis by (auto simp: pending_dbt_build_def loaded same)
    next
      case False
      then have "stages_at db' (ir_id r, stage_name) = stages_at db (ir_id r, stage_name)" by (simp add: frame)
      with \<open>\<not> pending_dbt_build name db r\<close> show ?thesis
        by (simp add: pending_dbt_build_def loaded same find_stages_at) blast
    qed
  qed
  have "filter (pending_dbt_build name db') (md_runs db') =
      (if states ''dbt_build'' = Some ''success'' then [] else filter (pending_dbt_build name db) (md_runs db))"
    using pending by (auto simp: same(1) filter_empty_conv intro: filter_cong)
  then have "list_run_ids_pending_dbt_build name db' =
      (if states ''dbt_build'' = Some ''success'' then [] else list_run_ids_pending_dbt_build name db)"
    by (simp add: list_run_ids_pending_dbt_build_def)
  moreover have "track_dbt_build name started finished states db = Inr db'"
    by (simp add: track_dbt_build_def Let_def first second)
  ultimately show ?thesis using status frame by (auto simp: list_all_iff)
qed

end
