(* ===== verification/Operations.thy ===== *)
theory Operations
  imports Orchestration PyFloats
begin

text \<open>
  The operator's scripts that decide something about the data: the repair of duplicate files
  (\<open>scripts/repair-duplicate-file-lineage.py\<close>), the window of a rebuild's backfills (\<open>scripts/rebuild-from-raw.py\<close>) and
  the polling of an ingestion (\<open>scripts/ingest-demo.py\<close>), and the small tasks of the DAGs (\<open>csv_ingest_customers.py\<close>,
  \<open>csv_ingest_orders.py\<close>). Connections, tunnels and printing are left out.
\<close>

section \<open>Duplicate files\<close>

text \<open>The common table expression: the rows of one content, grouped if there are two or more, with their least identity.\<close>

definition same_content :: "file_row \<Rightarrow> file_row \<Rightarrow> bool" where
  "same_content f g \<longleftrightarrow> fl_dataset_id g = fl_dataset_id f \<and> fl_content_sha256 g = fl_content_sha256 f"

definition original_of :: "meta_db \<Rightarrow> file_row \<Rightarrow> int option" where
  "original_of db f =
     (let members = filter (same_content f) (md_files db)
      in if 1 < length members then min_id (map fl_id members) else None)"

definition orphan_original :: "meta_db \<Rightarrow> file_row \<Rightarrow> int option" where
  "orphan_original db f =
     (case original_of db f of
        Some g \<Rightarrow> if fl_id f \<noteq> g \<and> fl_duplicate_of f = None then Some g else None
      | None \<Rightarrow> None)"

definition find_orphans :: "meta_db \<Rightarrow> (int \<times> string \<times> string \<times> int) list" where
  "find_orphans db = List.map_filter (\<lambda>f. map_option (\<lambda>g. (fl_id f, fl_object_uri f, fl_status f, g)) (orphan_original db f))
     (sort_key fl_id (md_files db))"

definition repair_row :: "meta_db \<Rightarrow> file_row \<Rightarrow> file_row" where
  "repair_row db f = (case orphan_original db f of None \<Rightarrow> f | Some g \<Rightarrow> f\<lparr>fl_duplicate_of := Some g\<rparr>)"

definition repair_orphans :: "meta_db \<Rightarrow> meta_db" where
  "repair_orphans db = db\<lparr>md_files := map (repair_row db) (md_files db)\<rparr>"

text \<open>The exit code.\<close>

definition repair_main :: "bool \<Rightarrow> meta_db \<Rightarrow> int \<times> meta_db" where
  "repair_main dry_run db =
     (if find_orphans db = [] then (0, db)
      else if dry_run then (0, db)
      else if find_orphans (repair_orphans db) \<noteq> [] then (1, repair_orphans db)
      else (0, repair_orphans db))"

section \<open>The window of a backfill\<close>

definition backfill_max_ticks :: int where
  "backfill_max_ticks = 20"

text \<open>The minutes of the window; a cap of 0 is a division by zero.\<close>

definition backfill_ticks :: "int \<Rightarrow> int \<Rightarrow> int option" where
  "backfill_ticks file_count max_units_per_run =
     (if max_units_per_run = 0 then None
      else Some (min backfill_max_ticks (max 1 (\<lceil>float_div file_count max_units_per_run\<rceil> + 1))))"

section \<open>Polling for the receipt\<close>

record poll_outcome =
  pl_run_id :: int
  pl_status :: string
  pl_rows_loaded :: sql_value
  pl_report_uri :: sql_value

definition terminal_statuses :: "string list" where
  "terminal_statuses = [''SUCCEEDED'', ''FAILED'']"

definition dataset_named :: "meta_db \<Rightarrow> string \<Rightarrow> int \<Rightarrow> bool" where
  "dataset_named db name i \<longleftrightarrow> list_ex (\<lambda>d. dt_id d = i \<and> dt_name d = name) (md_datasets db)"

text \<open>The latest run of a file with this content.\<close>

definition latest_run :: "string \<Rightarrow> string \<Rightarrow> meta_db \<Rightarrow> run_row option" where
  "latest_run name sha db =
     (case max_id (map ir_id (filter (\<lambda>r. list_ex (\<lambda>f. ir_file_id r = Some (fl_id f) \<and> fl_content_sha256 f = sha \<and>
          dataset_named db name (fl_dataset_id f)) (md_files db)) (md_runs db))) of
        None \<Rightarrow> None
      | Some i \<Rightarrow> find (\<lambda>r. ir_id r = i) (md_runs db))"

definition poll_once :: "string \<Rightarrow> meta_db \<Rightarrow> poll_outcome option" where
  "poll_once sha db =
     (case latest_run ''customers'' sha db of
        None \<Rightarrow> None
      | Some r \<Rightarrow>
          if ir_status r \<in> set terminal_statuses
          then Some \<lparr>pl_run_id = ir_id r, pl_status = ir_status r, pl_rows_loaded = ir_columns r ''rows_loaded'',
                     pl_report_uri = ir_columns r ''report_uri''\<rparr>
          else None)"

text \<open>The polls the deadline leaves time for: the tables each finds, \<open>None\<close> for a poll that failed. \<open>None\<close> is the time-out.\<close>

fun poll_for_receipt :: "string \<Rightarrow> meta_db option list \<Rightarrow> poll_outcome option" where
  "poll_for_receipt sha [] = None"
| "poll_for_receipt sha (None # polls) = poll_for_receipt sha polls"
| "poll_for_receipt sha (Some db # polls) =
     (case poll_once sha db of Some outcome \<Rightarrow> Some outcome | None \<Rightarrow> poll_for_receipt sha polls)"

definition ingest_demo_exit :: "poll_outcome option \<Rightarrow> int" where
  "ingest_demo_exit outcome =
     (case outcome of None \<Rightarrow> 1 | Some p \<Rightarrow> if pl_status p = ''SUCCEEDED'' then 0 else 1)"

section \<open>Tasks of the DAGs\<close>

definition build_stage_args :: "string list \<Rightarrow> string list list" where
  "build_stage_args assignment_uris = map (\<lambda>uri. [''stage'', ''--assignment'', uri]) assignment_uris"

definition aggregate_receipts :: "int list \<Rightarrow> int \<times> int" where
  "aggregate_receipts rows_loaded = (int (length rows_loaded), sum_list rows_loaded)"

section \<open>The repair\<close>

lemma original_of_repair [simp]: "original_of (repair_orphans db) (repair_row db f) = original_of db f"
proof -
  have same: "same_content (repair_row db f) (repair_row db g) = same_content f g" "fl_id (repair_row db g) = fl_id g" for f g
    by (simp_all add: repair_row_def same_content_def split: option.split)
  have "filter (same_content (repair_row db f)) (md_files (repair_orphans db)) = map (repair_row db) (filter (same_content f) (md_files db))"
    by (simp add: repair_orphans_def filter_map comp_def same)
  then show ?thesis by (simp add: original_of_def Let_def comp_def same)
qed

lemma no_orphan_left: "f \<in> set (md_files (repair_orphans db)) \<Longrightarrow> orphan_original (repair_orphans db) f = None"
proof -
  assume "f \<in> set (md_files (repair_orphans db))"
  then obtain g where f: "f = repair_row db g" by (auto simp: repair_orphans_def)
  show ?thesis
  proof (cases "orphan_original db g")
    case None
    then have "f = g" using f by (simp add: repair_row_def)
    then show ?thesis using None original_of_repair [of db g] f
      by (auto simp: orphan_original_def split: option.splits if_splits)
  next
    case (Some i)
    then have "fl_duplicate_of f = Some i" using f by (simp add: repair_row_def)
    then show ?thesis by (simp add: orphan_original_def split: option.split)
  qed
qed

lemma find_orphans_Nil: "find_orphans db = [] \<longleftrightarrow> (\<forall>f \<in> set (md_files db). orphan_original db f = None)"
  by (auto simp: find_orphans_def List.map_filter_def filter_empty_conv)

lemma repair_row_eq:
  "repair_row db f = f\<lparr>fl_duplicate_of := (case fl_duplicate_of f of
     Some i \<Rightarrow> Some i
   | None \<Rightarrow> (let members = filter (same_content f) (md_files db); first = Min (fl_id ` set members)
             in if 1 < length members \<and> fl_id f \<noteq> first then Some first else None))\<rparr>"
proof -
  let ?members = "filter (same_content f) (md_files db)"
  have "original_of db f = (if 1 < length ?members then Some (Min (fl_id ` set ?members)) else None)"
    by (cases ?members) (simp_all add: original_of_def min_id_def)
  moreover have "f\<lparr>fl_duplicate_of := fl_duplicate_of f\<rparr> = f" by simp
  ultimately show ?thesis
    by (cases "fl_duplicate_of f") (simp_all add: repair_row_def orphan_original_def Let_def)
qed

lemma find_orphans_repaired: "find_orphans (repair_orphans db) = []"
  using no_orphan_left by (simp add: find_orphans_Nil)

lemma repair_nothing: "find_orphans db = [] \<Longrightarrow> map (repair_row db) (md_files db) = md_files db"
  by (auto simp: find_orphans_Nil repair_row_def intro!: map_idI)

text \<open>The repair ends with exit code 0 and no orphan: every file that shares its content with an earlier one of its
  dataset names a file it duplicates, the earliest one where it named none; no other column and no other row changes,
  and a second run changes nothing.\<close>

theorem repair_leaves_no_orphan:
  "case repair_main False db of (code, db') \<Rightarrow>
     code = 0 \<and> find_orphans db' = [] \<and> repair_main False db' = (0, db') \<and>
     md_files db' = map (\<lambda>f. f\<lparr>fl_duplicate_of := (case fl_duplicate_of f of
         Some i \<Rightarrow> Some i
       | None \<Rightarrow> (let members = filter (same_content f) (md_files db); first = Min (fl_id ` set members)
                 in if 1 < length members \<and> fl_id f \<noteq> first then Some first else None))\<rparr>) (md_files db)"
proof (cases "find_orphans db = []")
  case True
  then show ?thesis using repair_nothing [OF True, symmetric] by (simp add: repair_main_def repair_row_eq [symmetric])
next
  case False
  then show ?thesis by (simp add: repair_main_def find_orphans_repaired) (simp add: repair_orphans_def repair_row_eq)
qed

text \<open>The repair does not ask for the dataset's policy: a file discovery left without an original, because the dataset
  reprocesses repeated content, is made a duplicate.\<close>

definition repeated_file :: "int \<Rightarrow> string \<Rightarrow> file_row" where
  "repeated_file i key = \<lparr>fl_id = i, fl_dataset_id = 1, fl_object_uri = key, fl_content_sha256 = ''h'', fl_hash_version = 1,
     fl_size_bytes = 1, fl_filename = key, fl_status = ''DISCOVERED'', fl_duplicate_of = None\<rparr>"

lemma repair_overrules_policy:
  "\<not> skips_duplicates a \<Longrightarrow> duplicate_of a existing = None"
  "map fl_duplicate_of (md_files (snd (repair_main False (empty_meta\<lparr>md_files := [repeated_file 1 ''a'', repeated_file 2 ''b'']\<rparr>)))) =
     [None, Some 1]"
  by (simp add: duplicate_of_def, code_simp)

section \<open>The backfill drains what it can\<close>

lemma small_doubles: "list_all (\<lambda>t. is_double (of_int t)) [1..20]"
  by code_simp

text \<open>A backfill window has at least one tick and at most twenty; below the limit, its ticks are enough for every file at
  the dataset's cap of units per run.\<close>

theorem backfill_window_drains:
  assumes "0 < max_units" and "0 \<le> files"
  shows "\<exists>t. backfill_ticks files max_units = Some t \<and> 1 \<le> t \<and> t \<le> backfill_max_ticks \<and>
    (t < backfill_max_ticks \<longrightarrow> files \<le> t * max_units)"
proof -
  define t where "t = min backfill_max_ticks (max 1 (\<lceil>float_div files max_units\<rceil> + 1))"
  have range: "1 \<le> t \<and> t \<le> 20" by (simp add: t_def backfill_max_ticks_def)
  have "files \<le> t * max_units" if below: "t < 20"
  proof (rule ccontr)
    assume "\<not> files \<le> t * max_units"
    then have "of_int (t * max_units) \<le> (of_int files :: rat)" unfolding of_int_le_iff by simp
    then have "(of_int t :: rat) \<le> of_int files / of_int max_units"
      using assms(1) by (simp add: pos_le_divide_eq)
    moreover have "is_double (of_int t)" using small_doubles range by (auto simp: list_all_iff)
    ultimately have "of_int t \<le> float_div files max_units"
      using range round_double_mono [of "of_int t" "of_int files / of_int max_units"] by (simp add: float_div_def is_double_def)
    then have "t \<le> \<lceil>float_div files max_units\<rceil>" by linarith
    with below range show False by (simp add: t_def backfill_max_ticks_def)
  qed
  then show ?thesis using assms(1) range
    by (auto simp: backfill_ticks_def t_def backfill_max_ticks_def)
qed

lemma backfill_window_drains_witness:
  "\<exists>t. backfill_ticks 25 10 = Some t \<and> t = 4 \<and> 25 \<le> t * 10"
proof -
  have "backfill_ticks 25 10 = Some 4" by code_simp
  with backfill_window_drains [of 10 25] show ?thesis by (auto simp: backfill_max_ticks_def)
qed

section \<open>What the demo waits for\<close>

text \<open>A quarantined run is never reported: the demo waits for its time-out.\<close>

lemma quarantined_run_times_out:
  assumes "\<forall>db. Some db \<in> set polls \<longrightarrow> (\<exists>r. latest_run ''customers'' sha db = Some r \<and> ir_status r = ''QUARANTINED'')"
  shows "poll_for_receipt sha polls = None"
  using assms
proof (induction sha polls rule: poll_for_receipt.induct)
  case (3 sha db polls)
  then have "poll_once sha db = None" by (auto simp: poll_once_def terminal_statuses_def)
  with 3 show ?case by simp
qed simp_all

text \<open>The gate's extensions include two the DAGs never list: their pattern is \<open>*.csv\<close>.\<close>

lemma compressed_files_unmatched:
  "\<not> ends_with (stem @ ''.csv.gz'') ''.csv'' \<and> \<not> ends_with (stem @ ''.csv.zip'') ''.csv''"
  by (simp add: ends_with_iff)

end
