(* ===== verification/CorpusManifest.thy ===== *)
theory CorpusManifest
  imports PyFloats Records
begin

text \<open>
  The manifest of the fixture corpus (\<open>tools/corpus/manifest.py\<close>): the values a YAML document holds, the
  checks that turn them into frozen fixtures, and what an accepted manifest is known to satisfy.  The YAML
  loader, the codec registry and the names of Unicode characters are parameters (\<open>corpus_codecs\<close>); the
  texts of the messages are left out, so every rejection is the same \<open>ManifestError\<close>.
\<close>

section \<open>Documents\<close>

text \<open>What \<open>yaml.safe_load\<close> returns; \<open>YOther\<close> is a value no field of the schema accepts (a float, a date).\<close>

datatype yaml_value =
    YNull
  | YBool bool
  | YInt int
  | YStr string
  | YOther string
  | YList "yaml_value list"
  | YMap "(yaml_value \<times> yaml_value) list"

type_synonym yaml_dict = "(string \<times> yaml_value) list"

text \<open>
  The codec registry: the canonical name of an encoding, the strict encoder and decoder, and the
  incremental encoder, whose state is the list of texts it was fed.
\<close>

record corpus_codecs =
  cc_lookup :: "string \<Rightarrow> exn + string"
  cc_encode :: "string \<Rightarrow> string \<Rightarrow> exn + string"
  cc_decode :: "string \<Rightarrow> string \<Rightarrow> exn + string"
  cc_incremental :: "string \<Rightarrow> exn + unit"
  cc_feed :: "string \<Rightarrow> string list \<Rightarrow> string \<Rightarrow> exn + string"
  cc_finish :: "string \<Rightarrow> string list \<Rightarrow> exn + string"
  cc_unicode_name :: "string \<Rightarrow> nat option"
  cc_yaml :: "string \<Rightarrow> exn + yaml_value"

definition manifest_error :: exn where
  "manifest_error = Exn ManifestError []"

definition demand :: "bool \<Rightarrow> exn + unit" where
  "demand b = (if b then Inr () else Inl manifest_error)"

definition and_then :: "exn + 'a \<Rightarrow> ('a \<Rightarrow> exn + 'b) \<Rightarrow> exn + 'b" where
  "and_then r f = (case r of Inl e \<Rightarrow> Inl e | Inr x \<Rightarrow> f x)"

lemma and_then_Inr [simp]: "and_then r f = Inr y \<longleftrightarrow> (\<exists>x. r = Inr x \<and> f x = Inr y)"
  by (cases r) (auto simp: and_then_def)

lemma demand_Inr [simp]: "demand b = Inr u \<longleftrightarrow> b"
  by (auto simp: demand_def)

section \<open>The fields of a mapping\<close>

fun require_mapping :: "yaml_value \<Rightarrow> exn + yaml_dict" where
  "require_mapping (YMap kvs) =
     traverse (\<lambda>(k, v). case k of YStr s \<Rightarrow> Inr (s, v) | _ \<Rightarrow> Inl manifest_error) kvs"
| "require_mapping _ = Inl manifest_error"

definition reject_extra_keys :: "yaml_dict \<Rightarrow> string list \<Rightarrow> exn + unit" where
  "reject_extra_keys data allowed = demand (list_all (\<lambda>(k, _). k \<in> set allowed) data)"

text \<open>\<open>data.get(key)\<close>\<close>

definition get :: "yaml_dict \<Rightarrow> string \<Rightarrow> yaml_value" where
  "get data key = (case map_of data key of None \<Rightarrow> YNull | Some v \<Rightarrow> v)"

definition require_str :: "yaml_dict \<Rightarrow> string \<Rightarrow> exn + string" where
  "require_str data key = (case get data key of YStr s \<Rightarrow> Inr s | _ \<Rightarrow> Inl manifest_error)"

definition optional_str :: "yaml_dict \<Rightarrow> string \<Rightarrow> string \<Rightarrow> exn + string" where
  "optional_str data key default_text =
     (case get data key of YNull \<Rightarrow> Inr default_text | YStr s \<Rightarrow> Inr s | _ \<Rightarrow> Inl manifest_error)"

definition require_int :: "yaml_dict \<Rightarrow> string \<Rightarrow> exn + int" where
  "require_int data key = (case get data key of YInt i \<Rightarrow> Inr i | _ \<Rightarrow> Inl manifest_error)"

definition optional_int_field :: "yaml_dict \<Rightarrow> string \<Rightarrow> int \<Rightarrow> exn + int" where
  "optional_int_field data key default_value =
     (case get data key of YNull \<Rightarrow> Inr default_value | YInt i \<Rightarrow> Inr i | _ \<Rightarrow> Inl manifest_error)"

definition optional_bool :: "yaml_dict \<Rightarrow> string \<Rightarrow> bool \<Rightarrow> exn + bool" where
  "optional_bool data key default_value =
     (case get data key of YNull \<Rightarrow> Inr default_value | YBool b \<Rightarrow> Inr b | _ \<Rightarrow> Inl manifest_error)"

definition optional_str_tuple :: "yaml_dict \<Rightarrow> string \<Rightarrow> exn + string list" where
  "optional_str_tuple data key =
     (case get data key of
        YNull \<Rightarrow> Inr []
      | YList items \<Rightarrow> traverse (\<lambda>v. case v of YStr s \<Rightarrow> Inr s | _ \<Rightarrow> Inl manifest_error) items
      | _ \<Rightarrow> Inl manifest_error)"

text \<open>\<open>Decimal(str(value))\<close> of a string or an integer; a literal of too many digits has no \<open>str\<close>.\<close>

definition decimal_field :: "string \<Rightarrow> exn + decimal" where
  "decimal_field text = (case decimal_of_string text of Some d \<Rightarrow> Inr d | None \<Rightarrow> Inl manifest_error)"

definition require_decimal :: "yaml_dict \<Rightarrow> string \<Rightarrow> exn + decimal" where
  "require_decimal data key =
     (case get data key of
        YStr s \<Rightarrow> decimal_field s
      | YInt i \<Rightarrow> (if int_max_str_digits < length (show_nat (nat \<bar>i\<bar>)) then Inl (Exn PyValueError [])
                   else decimal_field (show_int i))
      | _ \<Rightarrow> Inl manifest_error)"

section \<open>Escaped literals\<close>

text \<open>\<open>bytes.decode("unicode_escape")\<close>: the code points of the text, \<open>None\<close> a \<open>UnicodeDecodeError\<close>.\<close>

definition hex_digit_value :: "char \<Rightarrow> nat option" where
  "hex_digit_value c = (let n = (of_char c :: nat) in
     if 48 \<le> n \<and> n \<le> 57 then Some (n - 48) else if 97 \<le> n \<and> n \<le> 102 then Some (n - 87)
     else if 65 \<le> n \<and> n \<le> 70 then Some (n - 55) else None)"

fun hex_escape :: "nat \<Rightarrow> nat \<Rightarrow> string \<Rightarrow> (nat \<times> string) option" where
  "hex_escape 0 n cs = Some (n, cs)"
| "hex_escape (Suc k) n cs =
     (case cs of
        [] \<Rightarrow> None
      | c # rest \<Rightarrow> (case hex_digit_value c of None \<Rightarrow> None | Some d \<Rightarrow> hex_escape k (16 * n + d) rest))"

definition is_octal :: "char \<Rightarrow> bool" where
  "is_octal c \<longleftrightarrow> 48 \<le> (of_char c :: nat) \<and> (of_char c :: nat) \<le> 55"

definition octal_escape :: "string \<Rightarrow> nat \<times> string" where
  "octal_escape cs = (let ds = takeWhile is_octal (take 3 cs) in
     (foldl (\<lambda>n c. 8 * n + (of_char c - 48)) 0 ds, drop (length ds) cs))"

definition simple_escapes :: "(char \<times> nat list) list" where
  "simple_escapes =
     [(CHR 0x0A, []), (CHR 0x5C, [0x5C]), (CHR 0x27, [0x27]), (CHR 0x22, [0x22]), (CHR ''b'', [8]), (CHR ''f'', [12]),
      (CHR ''t'', [9]), (CHR ''n'', [10]), (CHR ''r'', [13]), (CHR ''v'', [11]), (CHR ''a'', [7])]"

text \<open>What follows a backslash: the code points it stands for, and the rest.\<close>

definition coded :: "(nat \<times> string) option \<Rightarrow> (nat list \<times> string) option" where
  "coded r = (case r of Some (n, rest) \<Rightarrow> if n \<le> 0x10FFFF then Some ([n], rest) else None | None \<Rightarrow> None)"

definition named_escape :: "(string \<Rightarrow> nat option) \<Rightarrow> string \<Rightarrow> (nat list \<times> string) option" where
  "named_escape names cs =
     (case cs of
        [] \<Rightarrow> None
      | b # rest \<Rightarrow>
          (let name = takeWhile (\<lambda>c. c \<noteq> CHR 0x7D) rest in
           if b \<noteq> CHR 0x7B \<or> name = [] \<or> CHR 0x7D \<notin> set rest then None
           else map_option (\<lambda>n. ([n], drop (length name + 1) rest)) (names name)))"

definition escape_at :: "(string \<Rightarrow> nat option) \<Rightarrow> string \<Rightarrow> (nat list \<times> string) option" where
  "escape_at names cs =
     (case cs of
        [] \<Rightarrow> None
      | c # rest \<Rightarrow>
          (case map_of simple_escapes c of
             Some ns \<Rightarrow> Some (ns, rest)
           | None \<Rightarrow>
               if is_octal c then coded (Some (octal_escape cs))
               else if c = CHR ''x'' then coded (hex_escape 2 0 rest)
               else if c = CHR ''u'' then coded (hex_escape 4 0 rest)
               else if c = CHR ''U'' then coded (hex_escape 8 0 rest)
               else if c = CHR ''N'' then named_escape names rest
               else Some ([0x5C, of_char c], rest)))"

lemma hex_escape_length: "hex_escape k n cs = Some (m, rest) \<Longrightarrow> length rest \<le> length cs"
proof (induction k arbitrary: n cs)
  case (Suc k)
  then show ?case by (fastforce split: option.splits list.splits)
qed simp

lemma coded_Some: "coded r = Some (ns, rest) \<Longrightarrow> \<exists>n. r = Some (n, rest)"
  by (auto simp: coded_def split: option.splits if_splits)

lemma escape_at_length: "escape_at names cs = Some (ns, rest) \<Longrightarrow> length rest \<le> length cs"
  by (cases cs)
    (auto simp: escape_at_def octal_escape_def named_escape_def Let_def split: option.splits if_splits list.splits
      dest!: coded_Some dest: hex_escape_length)

function unicode_escape :: "(string \<Rightarrow> nat option) \<Rightarrow> string \<Rightarrow> nat list option" where
  "unicode_escape names [] = Some []"
| "unicode_escape names (c # cs) =
     (if c \<noteq> CHR 0x5C then map_option (Cons (of_char c)) (unicode_escape names cs)
      else (case escape_at names cs of
              None \<Rightarrow> None
            | Some (ns, rest) \<Rightarrow> map_option (append ns) (unicode_escape names rest)))"
  by pat_completeness auto
termination
  by (relation "measure (\<lambda>(names, cs). length cs)") (auto dest: escape_at_length)

text \<open>\<open>raw.encode("utf-8").decode("unicode_escape").encode("latin-1")\<close>\<close>

definition resolve_escapes :: "'z corpus_codecs_scheme \<Rightarrow> string \<Rightarrow> exn + string" where
  "resolve_escapes w raw =
     and_then (cc_encode w ''utf-8'' raw) (\<lambda>bs.
       case unicode_escape (cc_unicode_name w) bs of
         None \<Rightarrow> Inl (Exn PyUnicodeDecodeError [])
       | Some ns \<Rightarrow> if list_all (\<lambda>n. n < 256) ns then Inr (map char_of ns) else Inl (Exn PyUnicodeEncodeError []))"

definition escapes_rejected :: "exn + 'a \<Rightarrow> exn + 'a" where
  "escapes_rejected r =
     (case r of
        Inl e \<Rightarrow> Inl (if exn_class e \<in> {PyUnicodeDecodeError, PyUnicodeEncodeError} then manifest_error else e)
      | Inr x \<Rightarrow> Inr x)"

definition decode_raw_bytes :: "'z corpus_codecs_scheme \<Rightarrow> string \<Rightarrow> exn + string" where
  "decode_raw_bytes w raw = escapes_rejected (resolve_escapes w raw)"

definition decode_content :: "'z corpus_codecs_scheme \<Rightarrow> yaml_value \<Rightarrow> exn + string option" where
  "decode_content w raw =
     (case raw of
        YNull \<Rightarrow> Inr None
      | YStr s \<Rightarrow> escapes_rejected (and_then (resolve_escapes w s) (\<lambda>bs. and_then (cc_decode w ''utf-8'' bs) (\<lambda>t. Inr (Some t))))
      | _ \<Rightarrow> Inl manifest_error)"


section \<open>Columns, rows and splices\<close>

datatype column_spec =
    ZeroPaddedIntColumn int int
  | PickColumn "string list"
  | DecimalColumn decimal decimal int string
  | RepeatColumn string int

text \<open>\<open>minimum > maximum\<close> of two decimals: comparing a NaN signals \<open>InvalidOperation\<close>.\<close>

fun decimal_greater :: "decimal \<Rightarrow> decimal \<Rightarrow> exn + bool" where
  "decimal_greater (DNaN _ _ _) _ = Inl (Exn InvalidOperation [])"
| "decimal_greater _ (DNaN _ _ _) = Inl (Exn InvalidOperation [])"
| "decimal_greater (DInf a) (DInf b) = Inr (\<not> a \<and> b)"
| "decimal_greater (DInf a) (DFin _ _ _) = Inr (\<not> a)"
| "decimal_greater (DFin _ _ _) (DInf b) = Inr b"
| "decimal_greater (DFin a c e) (DFin b d f) =
     Inr ((if b then -1 else 1) * of_nat d * pow10 f < (if a then -1 else 1) * of_nat c * pow10 e)"

definition zero_padded_keys :: "string list" where
  "zero_padded_keys = [''kind'', ''width'', ''start'']"

definition pick_keys :: "string list" where
  "pick_keys = [''kind'', ''values'']"

definition decimal_keys :: "string list" where
  "decimal_keys = [''kind'', ''min'', ''max'', ''scale'', ''decimal_separator'']"

definition repeat_keys :: "string list" where
  "repeat_keys = [''kind'', ''char'', ''length'']"

definition column_key_order :: "(string \<times> string list) list" where
  "column_key_order =
     [(''zero_padded_int'', zero_padded_keys), (''pick'', pick_keys), (''decimal'', decimal_keys), (''repeat'', repeat_keys)]"

definition parse_zero_padded :: "yaml_dict \<Rightarrow> exn + column_spec" where
  "parse_zero_padded data =
     and_then (require_int data ''width'') (\<lambda>width.
     and_then (optional_int_field data ''start'' 1) (\<lambda>start. Inr (ZeroPaddedIntColumn width start)))"

definition parse_pick :: "yaml_dict \<Rightarrow> exn + column_spec" where
  "parse_pick data =
     and_then (optional_str_tuple data ''values'') (\<lambda>vs.
     and_then (demand (vs \<noteq> [])) (\<lambda>_. Inr (PickColumn vs)))"

definition parse_repeat :: "yaml_dict \<Rightarrow> exn + column_spec" where
  "parse_repeat data =
     and_then (require_str data ''char'') (\<lambda>character.
     and_then (demand (length character = 1)) (\<lambda>_.
     and_then (require_int data ''length'') (\<lambda>len.
     and_then (demand (1 \<le> len)) (\<lambda>_. Inr (RepeatColumn character len)))))"

definition parse_decimal_column :: "yaml_dict \<Rightarrow> exn + column_spec" where
  "parse_decimal_column data =
     and_then (require_decimal data ''min'') (\<lambda>minimum.
     and_then (require_decimal data ''max'') (\<lambda>maximum.
     and_then (decimal_greater minimum maximum) (\<lambda>greater.
     and_then (demand (\<not> greater)) (\<lambda>_.
     and_then (require_int data ''scale'') (\<lambda>scale.
     and_then (optional_str data ''decimal_separator'' ''.'') (\<lambda>separator.
       Inr (DecimalColumn minimum maximum scale separator)))))))"

definition parse_column :: "yaml_value \<Rightarrow> exn + column_spec" where
  "parse_column raw =
     and_then (require_mapping raw) (\<lambda>data.
     and_then (require_str data ''kind'') (\<lambda>kind.
       case map_of column_key_order kind of
         None \<Rightarrow> Inl manifest_error
       | Some allowed \<Rightarrow>
           and_then (reject_extra_keys data allowed) (\<lambda>_.
             if kind = ''zero_padded_int'' then parse_zero_padded data
             else if kind = ''pick'' then parse_pick data
             else if kind = ''repeat'' then parse_repeat data
             else parse_decimal_column data)))"

definition parse_row_spec :: "yaml_value \<Rightarrow> exn + (string \<times> column_spec) list" where
  "parse_row_spec raw =
     (case raw of
        YNull \<Rightarrow> Inr []
      | _ \<Rightarrow> and_then (require_mapping raw)
          (traverse (\<lambda>(column, v). and_then (parse_column v) (\<lambda>spec. Inr (column, spec)))))"

text \<open>A field of a \<open>literal_unicode\<close> row: a text, or a text with the normalisation form to apply.\<close>

datatype unicode_field = PlainField string | UnicodeField string string

definition normalisation_forms :: "string list" where
  "normalisation_forms = [''NFC'', ''NFD'', ''NFKC'', ''NFKD'']"

definition parse_unicode_field :: "yaml_value \<Rightarrow> exn + unicode_field" where
  "parse_unicode_field raw =
     (case raw of
        YStr s \<Rightarrow> Inr (PlainField s)
      | YMap _ \<Rightarrow>
          and_then (require_mapping raw) (\<lambda>data.
          and_then (reject_extra_keys data [''text'', ''form'']) (\<lambda>_.
          and_then (require_str data ''form'') (\<lambda>form.
          and_then (demand (form \<in> set normalisation_forms)) (\<lambda>_.
          and_then (require_str data ''text'') (\<lambda>t. Inr (UnicodeField t form))))))
      | _ \<Rightarrow> Inl manifest_error)"

definition parse_rows_spec :: "yaml_value \<Rightarrow> exn + (string \<times> unicode_field) list list" where
  "parse_rows_spec raw =
     (case raw of
        YNull \<Rightarrow> Inr []
      | YList entries \<Rightarrow>
          traverse (\<lambda>entry. and_then (require_mapping entry)
            (traverse (\<lambda>(key, v). and_then (parse_unicode_field v) (\<lambda>field. Inr (key, field))))) entries
      | _ \<Rightarrow> Inl manifest_error)"

record splice =
  sp_raw :: string
  sp_offset :: "int option"
  sp_after_record :: "int option"

definition splice_keys :: "string list" where
  "splice_keys = [''bytes'', ''offset'', ''after_record'']"

definition declared_int :: "yaml_dict \<Rightarrow> string \<Rightarrow> exn + int option" where
  "declared_int data key =
     (if get data key = YNull then Inr None else and_then (require_int data key) (\<lambda>i. Inr (Some i)))"

definition parse_splice :: "'z corpus_codecs_scheme \<Rightarrow> yaml_value \<Rightarrow> exn + splice" where
  "parse_splice w entry =
     and_then (require_mapping entry) (\<lambda>data.
     and_then (reject_extra_keys data splice_keys) (\<lambda>_.
     and_then (demand (length (filter (\<lambda>key. get data key \<noteq> YNull) [''offset'', ''after_record'']) = 1)) (\<lambda>_.
     and_then (require_str data ''bytes'') (\<lambda>text_bytes.
     and_then (decode_raw_bytes w text_bytes) (\<lambda>payload.
     and_then (demand (payload \<noteq> [])) (\<lambda>_.
     and_then (declared_int data ''offset'') (\<lambda>offset.
     and_then (declared_int data ''after_record'') (\<lambda>after.
     and_then (demand (\<not> ((case offset of Some i \<Rightarrow> i < 0 | None \<Rightarrow> False) \<or> (case after of Some i \<Rightarrow> i < 1 | None \<Rightarrow> False)))) (\<lambda>_.
       Inr \<lparr>sp_raw = payload, sp_offset = offset, sp_after_record = after\<rparr>)))))))))"

definition parse_splices :: "'z corpus_codecs_scheme \<Rightarrow> yaml_value \<Rightarrow> exn + splice list" where
  "parse_splices w raw =
     (case raw of
        YNull \<Rightarrow> Inr []
      | YList (entry # entries) \<Rightarrow> traverse (parse_splice w) (entry # entries)
      | _ \<Rightarrow> Inl manifest_error)"


section \<open>Fixtures\<close>

datatype generator_kind = Tabular | Literal | LiteralUnicode | Wrapper | Multipart

definition generator_kinds :: "(string \<times> generator_kind) list" where
  "generator_kinds =
     [(''tabular'', Tabular), (''literal'', Literal), (''literal_unicode'', LiteralUnicode), (''wrapper'', Wrapper),
      (''multipart'', Multipart)]"

definition profiles :: "string list" where
  "profiles = [''default'', ''large'']"

definition compressions :: "string list" where
  "compressions = [''gzip'', ''zip'']"

definition line_terminator_texts :: "string list" where
  "line_terminator_texts = [[CHR 0x0A], [CHR 0x0D, CHR 0x0A], [CHR 0x0D]]"

definition root_key_order :: "string list" where
  "root_key_order = [''version'', ''master_seed'', ''fixtures'']"

definition fixture_key_order :: "string list" where
  "fixture_key_order =
     [''name'', ''covers'', ''generator'', ''encoding'', ''bom'', ''bom_after_record'', ''delimiter'', ''quotechar'',
      ''line_terminator'', ''line_terminators'', ''header'', ''rows'', ''row_spec'', ''rows_spec'', ''content'', ''splices'',
      ''wraps'', ''compression'', ''gzip_mtime'', ''gzip_filename'', ''parts'', ''profile'', ''expect'']"

definition record_structured_kinds :: "generator_kind list" where
  "record_structured_kinds = [Tabular, LiteralUnicode]"

record fixture =
  fx_name :: string
  fx_generator :: generator_kind
  fx_covers :: "string list"
  fx_encoding :: string
  fx_bom :: bool
  fx_bom_after_record :: int
  fx_delimiter :: string
  fx_quotechar :: string
  fx_line_terminator :: string
  fx_line_terminators :: "string list"
  fx_header :: "string list"
  fx_rows :: int
  fx_row_spec :: "(string \<times> column_spec) list"
  fx_rows_spec :: "(string \<times> unicode_field) list list"
  fx_content :: "string option"
  fx_splices :: "splice list"
  fx_wraps :: "string option"
  fx_compression :: "string option"
  fx_gzip_mtime :: int
  fx_gzip_filename :: string
  fx_parts :: int
  fx_profile :: string
  fx_expect :: yaml_dict

record manifest =
  mf_version :: int
  mf_master_seed :: string
  mf_fixtures :: "fixture list"

definition terminator_for :: "fixture \<Rightarrow> nat \<Rightarrow> string" where
  "terminator_for fx record_index =
     (if fx_line_terminators fx = [] then fx_line_terminator fx
      else fx_line_terminators fx ! (record_index mod length (fx_line_terminators fx)))"

section \<open>The checks of one fixture\<close>

definition parse_line_terminators :: "yaml_dict \<Rightarrow> exn + string list" where
  "parse_line_terminators data =
     (if get data ''line_terminators'' = YNull then Inr []
      else
        and_then (demand (get data ''line_terminator'' = YNull)) (\<lambda>_.
        and_then (optional_str_tuple data ''line_terminators'') (\<lambda>terminators.
        and_then (demand (2 \<le> length terminators)) (\<lambda>_.
        and_then (demand (list_all (\<lambda>t. t \<in> set line_terminator_texts) terminators)) (\<lambda>_. Inr terminators)))))"

definition validate_tabular :: "fixture \<Rightarrow> exn + unit" where
  "validate_tabular fx =
     and_then (demand (fx_header fx \<noteq> [])) (\<lambda>_.
     and_then (demand (0 < fx_rows fx)) (\<lambda>_.
     and_then (demand (list_all (\<lambda>column. column \<in> fst ` set (fx_row_spec fx)) (fx_header fx))) (\<lambda>_.
       demand (list_all (\<lambda>(column, _). column \<in> set (fx_header fx)) (fx_row_spec fx)))))"

definition validate_literal :: "fixture \<Rightarrow> exn + unit" where
  "validate_literal fx = demand (fx_content fx \<noteq> None)"

definition validate_literal_unicode :: "fixture \<Rightarrow> exn + unit" where
  "validate_literal_unicode fx =
     (case fx_rows_spec fx of
        [] \<Rightarrow> Inl manifest_error
      | first # _ \<Rightarrow> demand (list_all (\<lambda>row. map fst row = map fst first) (fx_rows_spec fx)))"

definition validate_wrapper :: "fixture \<Rightarrow> exn + unit" where
  "validate_wrapper fx =
     and_then (demand (fx_wraps fx \<noteq> None)) (\<lambda>_. demand (fx_compression fx \<noteq> None))"

definition min_multipart_parts :: int where
  "min_multipart_parts = 2"

definition validate_multipart :: "fixture \<Rightarrow> exn + unit" where
  "validate_multipart fx =
     and_then (demand (fx_wraps fx \<noteq> None)) (\<lambda>_.
     and_then (demand (fx_compression fx = None)) (\<lambda>_. demand (min_multipart_parts \<le> fx_parts fx)))"

definition validate_kind :: "fixture \<Rightarrow> exn + unit" where
  "validate_kind fx =
     (case fx_generator fx of
        Tabular \<Rightarrow> validate_tabular fx
      | Literal \<Rightarrow> validate_literal fx
      | LiteralUnicode \<Rightarrow> validate_literal_unicode fx
      | Wrapper \<Rightarrow> validate_wrapper fx
      | Multipart \<Rightarrow> validate_multipart fx)"

fun collides :: "string \<Rightarrow> column_spec \<Rightarrow> bool" where
  "collides delimiter (DecimalColumn _ _ _ separator) = (separator = delimiter)"
| "collides delimiter _ = False"

definition validate_delimiter_does_not_collide :: "fixture \<Rightarrow> exn + unit" where
  "validate_delimiter_does_not_collide fx =
     demand (list_all (\<lambda>(_, spec). \<not> collides (fx_delimiter fx) spec) (fx_row_spec fx))"

definition validate_large_profile :: "fixture \<Rightarrow> exn + unit" where
  "validate_large_profile fx =
     (if fx_profile fx \<noteq> ''large'' then Inr ()
      else (case get (fx_expect fx) ''approx_bytes'' of
              YInt approx \<Rightarrow>
                (case get (fx_expect fx) ''rlimit_as_bytes'' of
                   YInt limit \<Rightarrow> demand (2 * limit < approx)
                 | _ \<Rightarrow> Inl manifest_error)
            | _ \<Rightarrow> Inl manifest_error))"

definition declared_record_count :: "fixture \<Rightarrow> exn + int" where
  "declared_record_count fx =
     (case fx_generator fx of
        Tabular \<Rightarrow> Inr (1 + fx_rows fx)
      | LiteralUnicode \<Rightarrow> Inr (1 + int (length (fx_rows_spec fx)))
      | _ \<Rightarrow> Inl manifest_error)"

text \<open>The offsets after each character, as the incremental encoder produces the bytes.\<close>

fun boundary_offsets :: "'z corpus_codecs_scheme \<Rightarrow> string \<Rightarrow> string list \<Rightarrow> nat \<Rightarrow> string \<Rightarrow> exn + nat list" where
  "boundary_offsets w encoding fed written [] =
     and_then (cc_finish w encoding fed) (\<lambda>rest. Inr (if rest = [] then [] else [written + length rest]))"
| "boundary_offsets w encoding fed written (c # cs) =
     and_then (cc_feed w encoding fed [c]) (\<lambda>bs.
     and_then (boundary_offsets w encoding (fed @ [[c]]) (written + length bs) cs) (\<lambda>offsets.
       Inr ((written + length bs) # offsets)))"

definition character_boundaries :: "'z corpus_codecs_scheme \<Rightarrow> string \<Rightarrow> string \<Rightarrow> exn + nat list" where
  "character_boundaries w t encoding =
     and_then (cc_incremental w encoding) (\<lambda>_.
     and_then (boundary_offsets w encoding [] 0 t) (\<lambda>offsets. Inr (0 # offsets)))"

text \<open>\<open>payload.find(part)\<close>\<close>

fun find_bytes :: "string \<Rightarrow> string \<Rightarrow> nat option" where
  "find_bytes part [] = (if part = [] then Some 0 else None)"
| "find_bytes part (c # cs) =
     (if starts_with (c # cs) part then Some 0 else map_option Suc (find_bytes part cs))"

fun after_records :: "string \<Rightarrow> nat \<Rightarrow> nat \<Rightarrow> string \<Rightarrow> exn + nat" where
  "after_records terminator 0 cursor encoded = Inr cursor"
| "after_records terminator (Suc n) cursor encoded =
     (case find_bytes terminator (drop cursor encoded) of
        None \<Rightarrow> Inl manifest_error
      | Some i \<Rightarrow> after_records terminator n (cursor + i + length terminator) encoded)"

definition content_text :: "fixture \<Rightarrow> string" where
  "content_text fx = (case fx_content fx of Some t \<Rightarrow> t | None \<Rightarrow> ''None'')"

definition resolve_splice_offset :: "'z corpus_codecs_scheme \<Rightarrow> fixture \<Rightarrow> splice \<Rightarrow> exn + int" where
  "resolve_splice_offset w fx sp =
     (case sp_offset sp of
        Some i \<Rightarrow> Inr i
      | None \<Rightarrow>
          and_then (cc_encode w (fx_encoding fx) (content_text fx)) (\<lambda>encoded.
          and_then (cc_encode w (fx_encoding fx) (fx_line_terminator fx)) (\<lambda>terminator.
          and_then (after_records terminator (nat (case sp_after_record sp of Some n \<Rightarrow> n | None \<Rightarrow> 0)) 0 encoded) (\<lambda>n.
            Inr (int n)))))"

definition validate_byte_order_mark :: "fixture \<Rightarrow> exn + unit" where
  "validate_byte_order_mark fx =
     (if fx_bom_after_record fx = 0 then Inr ()
      else
        and_then (demand (fx_bom fx)) (\<lambda>_.
        and_then (demand (fx_generator fx \<in> set record_structured_kinds)) (\<lambda>_.
        and_then (demand (0 \<le> fx_bom_after_record fx)) (\<lambda>_.
        and_then (declared_record_count fx) (\<lambda>records. demand (fx_bom_after_record fx < records))))))"

definition validate_line_terminator_cycle :: "fixture \<Rightarrow> exn + unit" where
  "validate_line_terminator_cycle fx =
     demand (fx_line_terminators fx = [] \<or> fx_generator fx \<in> set record_structured_kinds)"

fun splices_in_order :: "'z corpus_codecs_scheme \<Rightarrow> fixture \<Rightarrow> nat list \<Rightarrow> int \<Rightarrow> splice list \<Rightarrow> exn + unit" where
  "splices_in_order w fx legal previous [] = Inr ()"
| "splices_in_order w fx legal previous (sp # sps) =
     and_then (resolve_splice_offset w fx sp) (\<lambda>offset.
     and_then (demand (offset \<le> int (foldl max 0 legal))) (\<lambda>_.
     and_then (demand (offset \<in> int ` set legal)) (\<lambda>_.
     and_then (demand (previous < offset)) (\<lambda>_. splices_in_order w fx legal offset sps))))"

definition validate_splices :: "'z corpus_codecs_scheme \<Rightarrow> fixture \<Rightarrow> exn + unit" where
  "validate_splices w fx =
     (if fx_splices fx = [] then Inr ()
      else
        and_then (demand (fx_generator fx = Literal)) (\<lambda>_.
        and_then (demand (\<not> fx_bom fx)) (\<lambda>_.
        and_then (character_boundaries w (content_text fx) (fx_encoding fx)) (\<lambda>legal.
          splices_in_order w fx legal (-1) (fx_splices fx)))))"

definition validate_parts_scope :: "fixture \<Rightarrow> exn + unit" where
  "validate_parts_scope fx = demand (fx_parts fx = 0 \<or> fx_generator fx = Multipart)"

definition validate_fixture :: "'z corpus_codecs_scheme \<Rightarrow> fixture \<Rightarrow> exn + unit" where
  "validate_fixture w fx =
     and_then (validate_kind fx) (\<lambda>_.
     and_then (validate_delimiter_does_not_collide fx) (\<lambda>_.
     and_then (validate_large_profile fx) (\<lambda>_.
     and_then (validate_byte_order_mark fx) (\<lambda>_.
     and_then (validate_line_terminator_cycle fx) (\<lambda>_.
     and_then (validate_splices w fx) (\<lambda>_. validate_parts_scope fx))))))"


section \<open>The manifest\<close>

definition parse_compression :: "yaml_dict \<Rightarrow> exn + string option" where
  "parse_compression data =
     (if get data ''compression'' = YNull then Inr None
      else
        and_then (require_str data ''compression'') (\<lambda>compression.
        and_then (demand (compression \<in> set compressions)) (\<lambda>_. Inr (Some compression))))"

text \<open>\<open>codecs.lookup\<close>: an encoding it does not know is rejected.\<close>

definition known_encoding :: "'z corpus_codecs_scheme \<Rightarrow> string \<Rightarrow> exn + unit" where
  "known_encoding w encoding =
     (case cc_lookup w encoding of
        Inl e \<Rightarrow> Inl (if is_subclass (exn_class e) PyLookupError then manifest_error else e)
      | Inr _ \<Rightarrow> Inr ())"

definition parse_expect :: "yaml_value \<Rightarrow> exn + yaml_dict" where
  "parse_expect raw = (case raw of YNull \<Rightarrow> Inr [] | _ \<Rightarrow> require_mapping raw)"

definition parse_wraps :: "yaml_dict \<Rightarrow> exn + string option" where
  "parse_wraps data =
     (if get data ''wraps'' = YNull then Inr None
      else and_then (require_str data ''wraps'') (\<lambda>s. Inr (Some s)))"

text \<open>The fields of the frozen fixture, in the order in which they are read.\<close>

definition build_fixture :: "'z corpus_codecs_scheme \<Rightarrow> yaml_dict \<Rightarrow> string \<Rightarrow> generator_kind \<Rightarrow> string \<Rightarrow> string \<Rightarrow> string \<Rightarrow>
    string option \<Rightarrow> string list \<Rightarrow> exn + fixture" where
  "build_fixture w data name generator encoding line_terminator profile compression line_terminators =
     and_then (optional_str_tuple data ''covers'') (\<lambda>covers.
     and_then (optional_bool data ''bom'' False) (\<lambda>bom.
     and_then (optional_int_field data ''bom_after_record'' 0) (\<lambda>bom_after_record.
     and_then (optional_str data ''delimiter'' '','') (\<lambda>delimiter.
     and_then (optional_str data ''quotechar'' [CHR 0x22]) (\<lambda>quotechar.
     and_then (optional_str_tuple data ''header'') (\<lambda>header.
     and_then (optional_int_field data ''rows'' 0) (\<lambda>rows.
     and_then (parse_row_spec (get data ''row_spec'')) (\<lambda>row_spec.
     and_then (parse_rows_spec (get data ''rows_spec'')) (\<lambda>rows_spec.
     and_then (decode_content w (get data ''content'')) (\<lambda>content.
     and_then (parse_splices w (get data ''splices'')) (\<lambda>splices.
     and_then (parse_wraps data) (\<lambda>wraps.
     and_then (optional_int_field data ''gzip_mtime'' 0) (\<lambda>gzip_mtime.
     and_then (optional_str data ''gzip_filename'' '''') (\<lambda>gzip_filename.
     and_then (optional_int_field data ''parts'' 0) (\<lambda>parts.
     and_then (parse_expect (get data ''expect'')) (\<lambda>expect.
       Inr \<lparr>fx_name = name, fx_generator = generator, fx_covers = covers, fx_encoding = encoding, fx_bom = bom,
         fx_bom_after_record = bom_after_record, fx_delimiter = delimiter, fx_quotechar = quotechar,
         fx_line_terminator = line_terminator, fx_line_terminators = line_terminators, fx_header = header,
         fx_rows = rows, fx_row_spec = row_spec, fx_rows_spec = rows_spec, fx_content = content,
         fx_splices = splices, fx_wraps = wraps, fx_compression = compression, fx_gzip_mtime = gzip_mtime,
         fx_gzip_filename = gzip_filename, fx_parts = parts, fx_profile = profile, fx_expect = expect\<rparr>))))))))))))))))"

definition parse_fixture :: "'z corpus_codecs_scheme \<Rightarrow> yaml_value \<Rightarrow> exn + fixture" where
  "parse_fixture w entry =
     and_then (require_mapping entry) (\<lambda>data.
     and_then (require_str data ''name'') (\<lambda>name.
     and_then (demand (name \<noteq> [])) (\<lambda>_.
     and_then (reject_extra_keys data fixture_key_order) (\<lambda>_.
     and_then (require_str data ''generator'') (\<lambda>kind.
       case map_of generator_kinds kind of
         None \<Rightarrow> Inl manifest_error
       | Some generator \<Rightarrow>
     and_then (optional_str data ''encoding'' ''utf-8'') (\<lambda>encoding.
     and_then (known_encoding w encoding) (\<lambda>_.
     and_then (optional_str data ''line_terminator'' [CHR 0x0A]) (\<lambda>line_terminator.
     and_then (demand (line_terminator \<in> set line_terminator_texts)) (\<lambda>_.
     and_then (optional_str data ''profile'' ''default'') (\<lambda>profile.
     and_then (demand (profile \<in> set profiles)) (\<lambda>_.
     and_then (parse_compression data) (\<lambda>compression.
     and_then (parse_line_terminators data) (\<lambda>line_terminators.
     and_then (build_fixture w data name generator encoding line_terminator profile compression line_terminators) (\<lambda>fx.
     and_then (validate_fixture w fx) (\<lambda>_. Inr fx)))))))))))))))"

text \<open>The fixture an earlier entry declared under a name.\<close>

definition declared :: "fixture list \<Rightarrow> string \<Rightarrow> fixture option" where
  "declared seen name = find (\<lambda>fx. fx_name fx = name) seen"

definition check_wrapper_target :: "fixture \<Rightarrow> fixture list \<Rightarrow> exn + unit" where
  "check_wrapper_target fx seen =
     (case fx_wraps fx of None \<Rightarrow> Inr () | Some target \<Rightarrow> demand (declared seen target \<noteq> None))"

definition check_multipart_target :: "fixture \<Rightarrow> fixture list \<Rightarrow> exn + unit" where
  "check_multipart_target fx seen =
     (case declared seen (case fx_wraps fx of Some n \<Rightarrow> n | None \<Rightarrow> ''None'') of
        None \<Rightarrow> Inl (Exn PyKeyError [])
      | Some target \<Rightarrow>
          and_then (demand (fx_generator target \<in> set record_structured_kinds)) (\<lambda>_.
          and_then (demand (fx_profile target \<noteq> ''large'')) (\<lambda>_.
          and_then (demand (fx_line_terminators target = [])) (\<lambda>_.
          and_then (demand (fx_encoding target = fx_encoding fx \<and> fx_line_terminator target = fx_line_terminator fx)) (\<lambda>_.
          and_then (declared_record_count target) (\<lambda>records. demand (fx_parts fx \<le> records - 1)))))))"

fun parse_fixtures :: "'z corpus_codecs_scheme \<Rightarrow> fixture list \<Rightarrow> yaml_value list \<Rightarrow> exn + fixture list" where
  "parse_fixtures w seen [] = Inr seen"
| "parse_fixtures w seen (entry # entries) =
     and_then (parse_fixture w entry) (\<lambda>fx.
     and_then (demand (declared seen (fx_name fx) = None)) (\<lambda>_.
     and_then (if fx_generator fx \<in> {Wrapper, Multipart} then check_wrapper_target fx seen else Inr ()) (\<lambda>_.
     and_then (if fx_generator fx = Multipart then check_multipart_target fx seen else Inr ()) (\<lambda>_.
       parse_fixtures w (seen @ [fx]) entries))))"

definition supported_version :: int where
  "supported_version = 1"

definition parse_manifest :: "'z corpus_codecs_scheme \<Rightarrow> string \<Rightarrow> exn + manifest" where
  "parse_manifest w t =
     and_then (case cc_yaml w t of
         Inl e \<Rightarrow> Inl (if exn_class e = YamlError then manifest_error else e) | Inr raw \<Rightarrow> Inr raw) (\<lambda>raw.
     and_then (require_mapping raw) (\<lambda>root.
     and_then (reject_extra_keys root root_key_order) (\<lambda>_.
     and_then (require_int root ''version'') (\<lambda>version.
     and_then (demand (version = supported_version)) (\<lambda>_.
     and_then (require_str root ''master_seed'') (\<lambda>master_seed.
     and_then (demand (master_seed \<noteq> [])) (\<lambda>_.
       case get root ''fixtures'' of
         YList (entry # entries) \<Rightarrow>
           and_then (parse_fixtures w [] (entry # entries)) (\<lambda>fixtures.
             Inr \<lparr>mf_version = version, mf_master_seed = master_seed, mf_fixtures = fixtures\<rparr>)
       | _ \<Rightarrow> Inl manifest_error)))))))"

text \<open>\<open>path.read_text(encoding="utf-8")\<close> and the parse of what it returns.\<close>

definition load_manifest :: "'z corpus_codecs_scheme \<Rightarrow> (string \<Rightarrow> exn + string) \<Rightarrow> string \<Rightarrow> exn + manifest" where
  "load_manifest w read_text path =
     (case read_text path of
        Inl e \<Rightarrow> Inl (if exn_class e = PyOSError then manifest_error else e)
      | Inr t \<Rightarrow> parse_manifest w t)"

end
