(* ===== verification/Corpus.thy ===== *)
theory Corpus
  imports CorpusManifest CsvStream Calls
begin

text \<open>
  The generator of the fixture corpus (\<open>tools/corpus/generators.py\<close>), its oracle of digests
  (\<open>tools/corpus/digests.py\<close>) and the two commands (\<open>tools/corpus/__main__.py\<close>).  A directory is known by what
  reading, writing and creating in it answer (\<open>disk\<close>); SHA-256, the sequence of \<open>Random.random()\<close> for a
  seed, Unicode normalisation, gzip and zip are parameters (\<open>corpus_world\<close>).  Messages are left out.
\<close>

section \<open>What the generator is given\<close>

record corpus_world = corpus_codecs +
  cw_normalize :: "string \<Rightarrow> string \<Rightarrow> string"
  cw_sha256 :: "string \<Rightarrow> string"
  cw_random :: "string \<Rightarrow> nat \<Rightarrow> rat"
  cw_gzip :: "int \<Rightarrow> string \<Rightarrow> string list \<Rightarrow> exn + string"
  cw_zip :: "string \<Rightarrow> string \<Rightarrow> exn + string"

text \<open>A directory, addressed by paths relative to it, and the file operations the code uses there.\<close>

record 's disk =
  dk_mkdir :: "string \<Rightarrow> 's \<Rightarrow> exn + 's"
  dk_write :: "string \<Rightarrow> string \<Rightarrow> 's \<Rightarrow> exn + 's"
  dk_read :: "string \<Rightarrow> 's \<Rightarrow> exn + string"
  dk_is_file :: "string \<Rightarrow> 's \<Rightarrow> bool"

definition generator_error :: exn where
  "generator_error = Exn GeneratorError []"

definition disk_result :: "exn + 's \<Rightarrow> exn + 's \<times> unit" where
  "disk_result r = (case r of Inl e \<Rightarrow> Inl e | Inr s \<Rightarrow> Inr (s, ()))"

definition write_bytes :: "'s disk \<Rightarrow> string \<Rightarrow> string \<Rightarrow> ('s, unit) prog" where
  "write_bytes d path bs = pr_call (\<lambda>s. disk_result (dk_write d path bs s))"

definition make_directory :: "'s disk \<Rightarrow> string \<Rightarrow> ('s, unit) prog" where
  "make_directory d path = pr_call (\<lambda>s. disk_result (dk_mkdir d path s))"

definition file_bytes :: "'s disk \<Rightarrow> string \<Rightarrow> ('s, string) prog" where
  "file_bytes d path = (\<lambda>s. (dk_read d path s, s))"

text \<open>\<open>with path.open("wb")\<close>: what was written before an exception stays in the file.\<close>

definition write_stream :: "'s disk \<Rightarrow> string \<Rightarrow> string \<times> exn option \<Rightarrow> ('s, unit) prog" where
  "write_stream d path out =
     pr_bind (write_bytes d path (fst out)) (\<lambda>_. case snd out of None \<Rightarrow> pr_return () | Some e \<Rightarrow> pr_raise e)"

text \<open>A character the encoding cannot represent is reported with the name of the fixture.\<close>

definition encoding_failed :: "exn + 'a \<Rightarrow> exn + 'a" where
  "encoding_failed r =
     (case r of Inl e \<Rightarrow> Inl (if exn_class e = PyUnicodeEncodeError then generator_error else e) | Inr x \<Rightarrow> Inr x)"

definition encode_text :: "'z corpus_codecs_scheme \<Rightarrow> string \<Rightarrow> fixture \<Rightarrow> exn + string" where
  "encode_text w t fx = encoding_failed (cc_encode w (fx_encoding fx) t)"

definition boms :: "(string \<times> string) list" where
  "boms =
     [(''utf-8'', map char_of [0xEF, 0xBB, 0xBF :: nat]), (''utf-16-le'', map char_of [0xFF, 0xFE :: nat]),
      (''utf-16-be'', map char_of [0xFE, 0xFF :: nat]), (''utf-32-le'', map char_of [0xFF, 0xFE, 0, 0 :: nat]),
      (''utf-32-be'', map char_of [0, 0, 0xFE, 0xFF :: nat])]"

definition bom_for :: "'z corpus_codecs_scheme \<Rightarrow> string \<Rightarrow> exn + string" where
  "bom_for w encoding =
     and_then (cc_lookup w encoding) (\<lambda>name.
       case map_of boms name of None \<Rightarrow> Inl generator_error | Some bom \<Rightarrow> Inr bom)"

definition mark_of :: "'z corpus_codecs_scheme \<Rightarrow> fixture \<Rightarrow> exn + string" where
  "mark_of w fx = (if fx_bom fx then bom_for w (fx_encoding fx) else Inr [])"

section \<open>Columns\<close>

datatype renderer =
    RenderPadded int int
  | RenderPick "string list"
  | RenderConst string
  | RenderIntegral int int
  | RenderUnits int int int string

text \<open>\<open>f"{n:0{width}d}"\<close>, where a negative width is no format, and an integer of too many digits has no text.\<close>

definition zero_padded :: "int \<Rightarrow> int \<Rightarrow> exn + string" where
  "zero_padded width n =
     (let sign = (if n < 0 then ''-'' else ''''); digits = show_nat (nat \<bar>n\<bar>) in
      if width < 0 \<or> int_max_str_digits < length digits then Inl (Exn PyValueError [])
      else Inr (sign @ replicate (nat width - length sign - length digits) CHR ''0'' @ digits))"

text \<open>\<open>decimal.scaleb(scale)\<close> in the default context, and the integer at its floor or ceiling.\<close>

fun decimal_scaleb :: "decimal \<Rightarrow> int \<Rightarrow> exn + decimal" where
  "decimal_scaleb (DFin neg c e) scale =
     (if 2 * (ctx_emax + int ctx_prec) < \<bar>scale\<bar> then Inl (Exn InvalidOperation [])
      else (case decimal_fix neg c (e + scale) of DInf _ \<Rightarrow> Inl (Exn DecimalOverflow []) | r \<Rightarrow> Inr r))"
| "decimal_scaleb (DInf neg) scale =
     (if 2 * (ctx_emax + int ctx_prec) < \<bar>scale\<bar> then Inl (Exn InvalidOperation []) else Inr (DInf neg))"
| "decimal_scaleb (DNaN neg signal payload) scale =
     (if signal then Inl (Exn InvalidOperation []) else Inr (DNaN neg signal payload))"

definition integer_of :: "(rat \<Rightarrow> int) \<Rightarrow> decimal \<Rightarrow> exn + int" where
  "integer_of rounding r =
     (case r of
        DInf _ \<Rightarrow> Inl (Exn PyOverflowError [])
      | DNaN _ signal _ \<Rightarrow> Inl (Exn (if signal then InvalidOperation else PyValueError) [])
      | DFin _ _ _ \<Rightarrow> (case decimal_value r of Some v \<Rightarrow> Inr (rounding v) | None \<Rightarrow> Inl (Exn PyValueError [])))"

definition decimal_renderer :: "decimal \<Rightarrow> decimal \<Rightarrow> int \<Rightarrow> string \<Rightarrow> exn + renderer" where
  "decimal_renderer minimum maximum scale separator =
     and_then (decimal_scaleb minimum scale) (\<lambda>lowest.
     and_then (integer_of ceiling lowest) (\<lambda>low.
     and_then (decimal_scaleb maximum scale) (\<lambda>highest.
     and_then (integer_of floor highest) (\<lambda>high.
       Inr (if scale = 0 then RenderIntegral low (high - low + 1) else RenderUnits low (high - low + 1) scale separator)))))"

fun renderer_for :: "column_spec \<Rightarrow> exn + renderer" where
  "renderer_for (ZeroPaddedIntColumn width start) = Inr (RenderPadded width start)"
| "renderer_for (PickColumn vs) = Inr (RenderPick vs)"
| "renderer_for (RepeatColumn character len) = Inr (RenderConst (concat (replicate (nat len) character)))"
| "renderer_for (DecimalColumn minimum maximum scale separator) = decimal_renderer minimum maximum scale separator"

text \<open>\<open>int(random * n)\<close>: the integer as a double, the product rounded, then cut towards zero.\<close>

definition scaled_draw :: "rat \<Rightarrow> int \<Rightarrow> exn + int" where
  "scaled_draw r n =
     (case double_of_rat (of_int n) of
        FFin x \<Rightarrow> (let y = round_double (r * x) in Inr (if 0 \<le> y then \<lfloor>y\<rfloor> else \<lceil>y\<rceil>))
      | _ \<Rightarrow> Inl (Exn PyOverflowError []))"

definition drawn_below :: "rat \<Rightarrow> int \<Rightarrow> exn + int" where
  "drawn_below r n = and_then (scaled_draw r n) (\<lambda>i. Inr (min i (n - 1)))"

text \<open>
  The text of an amount of units of \<open>10 ** -scale\<close>.  For a negative scale the power is a \<open>float\<close>, by which the
  units are divided before the negative width is refused as a format.
\<close>

definition units_text :: "int \<Rightarrow> int \<Rightarrow> string \<Rightarrow> exn + string" where
  "units_text units scale separator =
     (if scale < 0
      then Inl (Exn (case double_of_rat (of_int units) of
                       FFin _ \<Rightarrow> (if scale < -323 then PyZeroDivisionError else PyValueError)
                     | _ \<Rightarrow> PyOverflowError) [])
      else
        (let power = 10 ^ nat scale in
         and_then (zero_padded 0 (units div power)) (\<lambda>whole.
         and_then (zero_padded scale (units mod power)) (\<lambda>fraction. Inr (whole @ separator @ fraction)))))"


section \<open>Tabular fixtures\<close>

text \<open>
  The writer of a tabular fixture: the parts not yet encoded, the texts the encoder was fed, the bytes
  written to the file, and the values drawn from the fixture's own random stream.
\<close>

record table_writer =
  tw_parts :: "string list"
  tw_fed :: "string list"
  tw_out :: string
  tw_drawn :: nat

definition new_writer :: table_writer where
  "new_writer = \<lparr>tw_parts = [], tw_fed = [], tw_out = [], tw_drawn = 0\<rparr>"

definition flush_parts_limit :: nat where
  "flush_parts_limit = 200000"

definition put_parts :: "string list \<Rightarrow> (table_writer, unit) prog" where
  "put_parts ps = pr_call (\<lambda>t. Inr (t\<lparr>tw_parts := tw_parts t @ ps\<rparr>, ()))"

definition put_bytes :: "string \<Rightarrow> (table_writer, unit) prog" where
  "put_bytes bs = pr_call (\<lambda>t. Inr (t\<lparr>tw_out := tw_out t @ bs\<rparr>, ()))"

definition flush :: "'z corpus_codecs_scheme \<Rightarrow> fixture \<Rightarrow> (table_writer, unit) prog" where
  "flush w fx = pr_call (\<lambda>t.
     if tw_parts t = [] then Inr (t, ())
     else and_then (encoding_failed (cc_feed w (fx_encoding fx) (tw_fed t) (concat (tw_parts t)))) (\<lambda>bs.
       Inr (t\<lparr>tw_parts := [], tw_fed := tw_fed t @ [concat (tw_parts t)], tw_out := tw_out t @ bs\<rparr>, ())))"

definition draw :: "(nat \<Rightarrow> rat) \<Rightarrow> (table_writer, rat) prog" where
  "draw random = pr_call (\<lambda>t. Inr (t\<lparr>tw_drawn := tw_drawn t + 1\<rparr>, random (tw_drawn t)))"

definition render :: "(nat \<Rightarrow> rat) \<Rightarrow> renderer \<Rightarrow> nat \<Rightarrow> (table_writer, string) prog" where
  "render random r row_index =
     (case r of
        RenderPadded width start \<Rightarrow> pr_lift (zero_padded width (start + int row_index))
      | RenderPick vs \<Rightarrow>
          pr_bind (draw random) (\<lambda>x.
          pr_bind (pr_lift (drawn_below x (int (length vs)))) (\<lambda>i. pr_return (vs ! nat i)))
      | RenderConst v \<Rightarrow> pr_return v
      | RenderIntegral low extent \<Rightarrow>
          pr_bind (draw random) (\<lambda>x.
          pr_bind (pr_lift (drawn_below x extent)) (\<lambda>i. pr_lift (zero_padded 0 (low + i))))
      | RenderUnits low extent scale separator \<Rightarrow>
          pr_bind (draw random) (\<lambda>x.
          pr_bind (pr_lift (drawn_below x extent)) (\<lambda>i. pr_lift (units_text (low + i) scale separator))))"

definition tabular_row :: "'z corpus_codecs_scheme \<Rightarrow> fixture \<Rightarrow> string \<Rightarrow> (nat \<Rightarrow> rat) \<Rightarrow> renderer list \<Rightarrow> nat \<Rightarrow> (table_writer, unit) prog" where
  "tabular_row w fx mark random renderers row_index =
     pr_bind (pr_for (enumerate 0 renderers) (\<lambda>(position, r).
       pr_bind (if position = 0 then pr_return () else put_parts [fx_delimiter fx]) (\<lambda>_.
       pr_bind (render random r row_index) (\<lambda>t. put_parts [t])))) (\<lambda>_.
     pr_bind (put_parts [terminator_for fx (row_index + 1)]) (\<lambda>_.
       if fx_bom_after_record fx = int row_index + 2 then pr_bind (flush w fx) (\<lambda>_. put_bytes mark)
       else (\<lambda>t. if flush_parts_limit \<le> length (tw_parts t) then flush w fx t else pr_return () t)))"

definition tabular_stream :: "'z corpus_codecs_scheme \<Rightarrow> fixture \<Rightarrow> string \<Rightarrow> (nat \<Rightarrow> rat) \<Rightarrow> renderer list \<Rightarrow> (table_writer, unit) prog" where
  "tabular_stream w fx mark random renderers =
     pr_bind (if mark \<noteq> [] \<and> fx_bom_after_record fx = 0 then put_bytes mark else pr_return ()) (\<lambda>_.
     pr_bind (put_parts [join (fx_delimiter fx) (fx_header fx)]) (\<lambda>_.
     pr_bind (put_parts [terminator_for fx 0]) (\<lambda>_.
     pr_bind (if fx_bom_after_record fx = 1 then pr_bind (flush w fx) (\<lambda>_. put_bytes mark) else pr_return ()) (\<lambda>_.
     pr_bind (pr_for [0..<nat (fx_rows fx)] (tabular_row w fx mark random renderers)) (\<lambda>_.
     pr_bind (flush w fx) (\<lambda>_.
     pr_bind (\<lambda>t. (cc_finish w (fx_encoding fx) (tw_fed t), t)) put_bytes))))))"

text \<open>R1: the stream of a fixture is seeded by the digest of the master seed and the fixture's name.\<close>

definition stream_for :: "'z corpus_world_scheme \<Rightarrow> string \<Rightarrow> string \<Rightarrow> exn + (nat \<Rightarrow> rat)" where
  "stream_for w master_seed name =
     and_then (cc_encode w ''utf-8'' (master_seed @ ''|'' @ name)) (\<lambda>bs. Inr (cw_random w (cw_sha256 w bs)))"

definition column_of :: "fixture \<Rightarrow> string \<Rightarrow> exn + column_spec" where
  "column_of fx column = (case map_of (fx_row_spec fx) column of None \<Rightarrow> Inl (Exn PyKeyError []) | Some spec \<Rightarrow> Inr spec)"

definition tabular_file :: "'z corpus_world_scheme \<Rightarrow> fixture \<Rightarrow> string \<Rightarrow> exn + string \<times> exn option" where
  "tabular_file w fx master_seed =
     and_then (stream_for w master_seed (fx_name fx)) (\<lambda>random.
     and_then (traverse (\<lambda>column. and_then (column_of fx column) renderer_for) (fx_header fx)) (\<lambda>renderers.
     and_then (cc_incremental w (fx_encoding fx)) (\<lambda>_.
     and_then (mark_of w fx) (\<lambda>mark.
       case tabular_stream w fx mark random renderers new_writer of
         (Inl e, t) \<Rightarrow> Inr (tw_out t, Some e)
       | (Inr _, t) \<Rightarrow> Inr (tw_out t, None)))))"

definition write_tabular :: "'z corpus_world_scheme \<Rightarrow> 's disk \<Rightarrow> fixture \<Rightarrow> string \<Rightarrow> ('s, unit) prog" where
  "write_tabular w d fx master_seed =
     pr_bind (pr_lift (tabular_file w fx master_seed)) (write_stream d (fx_name fx))"

section \<open>Literal fixtures\<close>

text \<open>\<open>encoded[cursor:offset]\<close>\<close>

definition slice :: "nat \<Rightarrow> nat \<Rightarrow> string \<Rightarrow> string" where
  "slice a b bs = take (b - a) (drop a bs)"

fun spliced :: "'z corpus_codecs_scheme \<Rightarrow> fixture \<Rightarrow> string \<Rightarrow> nat \<Rightarrow> splice list \<Rightarrow> exn + string" where
  "spliced w fx encoded cursor [] = Inr (drop cursor encoded)"
| "spliced w fx encoded cursor (sp # sps) =
     and_then (resolve_splice_offset w fx sp) (\<lambda>offset.
     and_then (spliced w fx encoded (nat offset) sps) (\<lambda>rest.
       Inr (slice cursor (nat offset) encoded @ sp_raw sp @ rest)))"

definition literal_bytes :: "'z corpus_codecs_scheme \<Rightarrow> fixture \<Rightarrow> exn + string" where
  "literal_bytes w fx =
     (case fx_content fx of
        None \<Rightarrow> Inl generator_error
      | Some content \<Rightarrow>
          and_then (encode_text w content fx) (\<lambda>encoded.
            if fx_splices fx = [] then Inr encoded else spliced w fx encoded 0 (fx_splices fx)))"

definition write_literal :: "'z corpus_codecs_scheme \<Rightarrow> 's disk \<Rightarrow> fixture \<Rightarrow> ('s, unit) prog" where
  "write_literal w d fx =
     pr_bind (pr_lift (literal_bytes w fx)) (\<lambda>encoded.
       write_stream d (fx_name fx)
         (case mark_of w fx of Inl e \<Rightarrow> ([], Some e) | Inr mark \<Rightarrow> (mark @ encoded, None)))"

fun render_unicode :: "'z corpus_world_scheme \<Rightarrow> unicode_field \<Rightarrow> string" where
  "render_unicode w (PlainField t) = t"
| "render_unicode w (UnicodeField t form) = cw_normalize w form t"

definition unicode_record :: "'z corpus_world_scheme \<Rightarrow> fixture \<Rightarrow> string list \<Rightarrow> (string \<times> unicode_field) list \<Rightarrow> exn + string" where
  "unicode_record w fx header row =
     and_then (traverse (\<lambda>column. case map_of row column of None \<Rightarrow> Inl (Exn PyKeyError []) | Some f \<Rightarrow> Inr (render_unicode w f)) header)
       (\<lambda>fields. Inr (join (fx_delimiter fx) fields))"

definition encoded_record :: "'z corpus_codecs_scheme \<Rightarrow> fixture \<Rightarrow> string \<Rightarrow> nat \<times> string \<Rightarrow> exn + string" where
  "encoded_record w fx mark = (\<lambda>(index, record).
     and_then (encode_text w (record @ terminator_for fx index) fx) (\<lambda>bs.
       Inr (if fx_bom_after_record fx = int index + 1 then bs @ mark else bs)))"

definition records_bytes :: "'z corpus_codecs_scheme \<Rightarrow> fixture \<Rightarrow> string list \<Rightarrow> exn + string" where
  "records_bytes w fx records =
     and_then (mark_of w fx) (\<lambda>mark.
     and_then (traverse (encoded_record w fx mark) (enumerate 0 records)) (\<lambda>chunks.
       Inr ((if fx_bom_after_record fx = 0 then mark else []) @ concat chunks)))"

definition literal_unicode_bytes :: "'z corpus_world_scheme \<Rightarrow> fixture \<Rightarrow> exn + string" where
  "literal_unicode_bytes w fx =
     (case fx_rows_spec fx of
        [] \<Rightarrow> Inl (Exn PyIndexError [])
      | first # _ \<Rightarrow>
          (let header = map fst first in
           and_then (traverse (unicode_record w fx header) (fx_rows_spec fx)) (\<lambda>records.
             records_bytes w fx (join (fx_delimiter fx) header # records))))"

definition write_literal_unicode :: "'z corpus_world_scheme \<Rightarrow> 's disk \<Rightarrow> fixture \<Rightarrow> ('s, unit) prog" where
  "write_literal_unicode w d fx =
     pr_bind (pr_lift (literal_unicode_bytes w fx)) (write_bytes d (fx_name fx))"


section \<open>Fixtures made of other fixtures\<close>

text \<open>
  Records with their terminators attached.  No codec encodes a terminator as no bytes; for such a one
  the code's loop would not end.
\<close>

function split_records :: "string \<Rightarrow> string \<Rightarrow> string list" where
  "split_records terminator payload =
     (case find_bytes terminator payload of
        None \<Rightarrow> (if payload = [] then [] else [payload])
      | Some found \<Rightarrow>
          (let n = found + length terminator in
           if n = 0 \<or> payload = [] then [] else take n payload # split_records terminator (drop n payload)))"
  by pat_completeness auto
termination by (relation "measure (\<lambda>(terminator, payload). length payload)") auto

declare split_records.simps [simp del]

text \<open>Earlier parts take the remainder.\<close>

fun deal :: "nat \<Rightarrow> nat \<Rightarrow> nat \<Rightarrow> nat \<Rightarrow> 'a list \<Rightarrow> 'a list list" where
  "deal base extra index 0 records = []"
| "deal base extra index (Suc left) records =
     (let n = base + (if index < extra then 1 else 0) in
      take n records # deal base extra (index + 1) left (drop n records))"

definition distribute :: "'a list \<Rightarrow> nat \<Rightarrow> 'a list list" where
  "distribute records parts = deal (length records div parts) (length records mod parts) 0 parts records"

text \<open>\<open>f"part-{index:05d}"\<close>\<close>

definition part_name :: "string \<Rightarrow> nat \<Rightarrow> string" where
  "part_name name index = name @ ''/part-'' @ replicate (5 - length (show_nat index)) CHR ''0'' @ show_nat index"

definition output_names :: "fixture \<Rightarrow> string list" where
  "output_names fx =
     (if fx_generator fx = Multipart then map (part_name (fx_name fx)) [0..<nat (fx_parts fx)] else [fx_name fx])"

text \<open>The target of a wrapper or a part set must have been generated.\<close>

definition generated_target :: "'s disk \<Rightarrow> fixture \<Rightarrow> ('s, string) prog" where
  "generated_target d fx =
     (\<lambda>s. case fx_wraps fx of
            None \<Rightarrow> (Inl generator_error, s)
          | Some target \<Rightarrow> (if dk_is_file d target s then Inr target else Inl generator_error, s))"

definition part_bytes :: "string \<Rightarrow> nat \<times> string list \<Rightarrow> string" where
  "part_bytes header part = (if fst part = 0 then header @ concat (snd part) else concat (snd part))"

definition write_parts :: "'s disk \<Rightarrow> fixture \<Rightarrow> string \<Rightarrow> string list \<Rightarrow> ('s, unit) prog" where
  "write_parts d fx header records =
     pr_bind (make_directory d (fx_name fx)) (\<lambda>_.
     pr_bind (pr_for (enumerate 0 (distribute records (nat (fx_parts fx)))) (\<lambda>part.
       write_bytes d (part_name (fx_name fx) (fst part)) (part_bytes header part))) (\<lambda>_. pr_return ()))"

definition write_multipart :: "'z corpus_codecs_scheme \<Rightarrow> 's disk \<Rightarrow> fixture \<Rightarrow> ('s, unit) prog" where
  "write_multipart w d fx =
     pr_bind (generated_target d fx) (\<lambda>target.
     pr_bind (pr_lift (cc_encode w (fx_encoding fx) (fx_line_terminator fx))) (\<lambda>terminator.
     pr_bind (file_bytes d target) (\<lambda>payload.
       case split_records terminator payload of
         [] \<Rightarrow> pr_raise (Exn PyIndexError [])
       | header # records \<Rightarrow> write_parts d fx header records)))"

definition read_chunk :: nat where
  "read_chunk = 1048576"

definition write_wrapper :: "'z corpus_world_scheme \<Rightarrow> 's disk \<Rightarrow> fixture \<Rightarrow> ('s, unit) prog" where
  "write_wrapper w d fx =
     pr_bind (generated_target d fx) (\<lambda>target.
       if fx_compression fx = Some ''gzip'' then
         pr_bind (write_bytes d (fx_name fx) []) (\<lambda>_.
         pr_bind (file_bytes d target) (\<lambda>payload.
         pr_bind (pr_lift (cw_gzip w (fx_gzip_mtime fx) (fx_gzip_filename fx) (batched read_chunk payload))) (write_bytes d (fx_name fx))))
       else if fx_compression fx = Some ''zip'' then
         pr_bind (write_bytes d (fx_name fx) []) (\<lambda>_.
         pr_bind (file_bytes d target) (\<lambda>payload.
         pr_bind (pr_lift (cw_zip w target payload)) (write_bytes d (fx_name fx))))
       else pr_raise generator_error)"

section \<open>The corpus\<close>

definition write_fixture :: "'z corpus_world_scheme \<Rightarrow> 's disk \<Rightarrow> string \<Rightarrow> fixture \<Rightarrow> ('s, unit) prog" where
  "write_fixture w d master_seed fx =
     (case fx_generator fx of
        Tabular \<Rightarrow> write_tabular w d fx master_seed
      | Literal \<Rightarrow> write_literal w d fx
      | LiteralUnicode \<Rightarrow> write_literal_unicode w d fx
      | Wrapper \<Rightarrow> write_wrapper w d fx
      | Multipart \<Rightarrow> write_multipart w d fx)"

type_synonym digests = "(string \<times> string) list"

text \<open>\<open>digests[name] = digest\<close> keeps the place of a name that is already there.\<close>

definition put_digest :: "string \<Rightarrow> string \<Rightarrow> digests \<Rightarrow> digests" where
  "put_digest name digest ds =
     (if name \<in> fst ` set ds then map (\<lambda>(n, x). (n, if n = name then digest else x)) ds else ds @ [(name, digest)])"

definition sha256_file :: "'z corpus_world_scheme \<Rightarrow> 's disk \<Rightarrow> string \<Rightarrow> ('s, string) prog" where
  "sha256_file w d path = pr_bind (file_bytes d path) (\<lambda>bs. pr_return (cw_sha256 w bs))"

definition hash_outputs :: "'z corpus_world_scheme \<Rightarrow> 's disk \<Rightarrow> fixture \<Rightarrow> ('s, digests) prog" where
  "hash_outputs w d fx =
     pr_for (output_names fx) (\<lambda>relative. pr_bind (sha256_file w d relative) (\<lambda>digest. pr_return (relative, digest)))"

definition skipped :: "bool \<Rightarrow> fixture \<Rightarrow> bool" where
  "skipped fast fx \<longleftrightarrow> fast \<and> fx_profile fx = ''large''"

fun generate_fixtures :: "'z corpus_world_scheme \<Rightarrow> 's disk \<Rightarrow> bool \<Rightarrow> string \<Rightarrow> fixture list \<Rightarrow> digests \<Rightarrow> ('s, digests) prog" where
  "generate_fixtures w d fast master_seed [] ds = pr_return ds"
| "generate_fixtures w d fast master_seed (fx # fxs) ds =
     (if skipped fast fx then generate_fixtures w d fast master_seed fxs ds
      else
        pr_bind (write_fixture w d master_seed fx) (\<lambda>_.
        pr_bind (hash_outputs w d fx) (\<lambda>hashed.
          generate_fixtures w d fast master_seed fxs (foldl (\<lambda>ds (n, x). put_digest n x ds) ds hashed))))"

definition generate_corpus :: "'z corpus_world_scheme \<Rightarrow> 's disk \<Rightarrow> manifest \<Rightarrow> bool \<Rightarrow> ('s, digests) prog" where
  "generate_corpus w d mf fast =
     pr_bind (make_directory d []) (\<lambda>_. generate_fixtures w d fast (mf_master_seed mf) (mf_fixtures mf) [])"

section \<open>The oracle\<close>

definition rstrip_slash :: "string \<Rightarrow> string" where
  "rstrip_slash s = rev (dropWhile (\<lambda>c. c = CHR ''/'') (rev s))"

definition qualify :: "digests \<Rightarrow> string \<Rightarrow> digests" where
  "qualify ds prefix =
     (if prefix = [] then ds else map (\<lambda>(name, digest). (rstrip_slash prefix @ ''/'' @ name, digest)) ds)"

definition format_digests :: "digests \<Rightarrow> string" where
  "format_digests ds = concat (map (\<lambda>(name, digest). digest @ ''  '' @ name @ [LF]) ds)"

text \<open>\<open>str.splitlines\<close> among the code points below 256: the lines without their ends.\<close>

definition breaks_splitlines :: line_breaks where
  "breaks_splitlines c rest \<longleftrightarrow>
     (of_char c :: nat) \<in> {10, 11, 12, 28, 29, 30, 133} \<or> c = CR \<and> (case rest of [] \<Rightarrow> True | c' # _ \<Rightarrow> c' \<noteq> LF)"

definition without_end :: "string \<Rightarrow> string" where
  "without_end l =
     (if l = [] then []
      else if ends_with l [CR, LF] then take (length l - 2) l
      else if last l = CR \<or> breaks_splitlines (last l) [] then butlast l else l)"

definition splitlines :: "string \<Rightarrow> string list" where
  "splitlines t = map without_end (split_lines breaks_splitlines t)"

definition digest_error :: exn where
  "digest_error = Exn DigestFormatError []"

definition parse_digest_line :: "string \<Rightarrow> exn + string \<times> string" where
  "parse_digest_line line =
     (let digest = takeWhile (\<lambda>c. c \<noteq> CHR '' '') line; name = drop (length digest + 1) line in
      if CHR '' '' \<notin> set line \<or> name = [] then Inl digest_error
      else if length digest \<noteq> 64 then Inl digest_error
      else Inr (dropWhile (\<lambda>c. c = CHR '' '' \<or> c = CHR ''*'') name, digest))"

definition parse_digests :: "string \<Rightarrow> exn + digests" where
  "parse_digests t =
     and_then (traverse parse_digest_line (filter (\<lambda>l. strip l \<noteq> []) (splitlines t))) (\<lambda>entries.
       Inr (foldl (\<lambda>ds (n, x). put_digest n x ds) [] entries))"

text \<open>\<open>path.read_text(encoding="utf-8")\<close> translates line ends; \<open>write_text\<close> does not, where lines end in \<open>\n\<close>.\<close>

fun universal_newlines :: "string \<Rightarrow> string" where
  "universal_newlines [] = []"
| "universal_newlines (c # cs) =
     (if c = CR then (case cs of [] \<Rightarrow> [LF] | c' # _ \<Rightarrow> if c' = LF then universal_newlines cs else LF # universal_newlines cs)
      else c # universal_newlines cs)"

definition read_text :: "'z corpus_codecs_scheme \<Rightarrow> 's disk \<Rightarrow> 's \<Rightarrow> string \<Rightarrow> exn + string" where
  "read_text w d s path =
     and_then (dk_read d path s) (\<lambda>bs. and_then (cc_decode w ''utf-8'' bs) (\<lambda>t. Inr (universal_newlines t)))"

definition read_digests :: "'z corpus_codecs_scheme \<Rightarrow> 's disk \<Rightarrow> 's \<Rightarrow> string \<Rightarrow> exn + digests" where
  "read_digests w d s path =
     (case read_text w d s path of
        Inl e \<Rightarrow> Inl (if exn_class e = PyOSError then digest_error else e)
      | Inr t \<Rightarrow> parse_digests t)"

text \<open>The directory of a file, for \<open>path.parent.mkdir\<close>.\<close>

definition parent :: "string \<Rightarrow> string" where
  "parent path = rev (drop 1 (dropWhile (\<lambda>c. c \<noteq> CHR ''/'') (rev path)))"

definition write_digests :: "'z corpus_codecs_scheme \<Rightarrow> 's disk \<Rightarrow> string \<Rightarrow> digests \<Rightarrow> ('s, unit) prog" where
  "write_digests w d path ds =
     pr_bind (make_directory d (parent path)) (\<lambda>_.
     write_stream d path (case cc_encode w ''utf-8'' (format_digests ds) of Inl e \<Rightarrow> ([], Some e) | Inr bs \<Rightarrow> (bs, None)))"


section \<open>The commands\<close>

text \<open>
  A command works on two directories: the one the corpus is written into, and the repository, which holds
  the manifest and the oracle.
\<close>

record corpus_args =
  ca_manifest :: string
  ca_fast :: bool
  ca_digest_prefix :: string

definition in_out :: "('s, 'a) prog \<Rightarrow> ('s \<times> 's, 'a) prog" where
  "in_out m = (\<lambda>(s, r). case m s of (x, s') \<Rightarrow> (x, (s', r)))"

definition in_repository :: "('s, 'a) prog \<Rightarrow> ('s \<times> 's, 'a) prog" where
  "in_repository m = (\<lambda>(s, r). case m r of (x, r') \<Rightarrow> (x, (s, r')))"

definition command_generate :: "'z corpus_world_scheme \<Rightarrow> 's disk \<Rightarrow> corpus_args \<Rightarrow> string option \<Rightarrow> ('s \<times> 's, int) prog" where
  "command_generate w d args listing =
     (if ca_fast args \<and> listing \<noteq> None then pr_return 2
      else
        pr_bind (in_repository (\<lambda>r. (load_manifest w (read_text w d r) (ca_manifest args), r))) (\<lambda>mf.
        pr_bind (in_out (generate_corpus w d mf (ca_fast args))) (\<lambda>ds.
          case listing of
            None \<Rightarrow> pr_return 0
          | Some path \<Rightarrow>
              pr_bind (in_repository (write_digests w d path (qualify ds (ca_digest_prefix args)))) (\<lambda>_. pr_return 0))))"

text \<open>The names \<open>verify\<close> complains about.\<close>

definition problems :: "digests \<Rightarrow> digests \<Rightarrow> bool \<Rightarrow> string list" where
  "problems expected actual fast =
     map fst (filter (\<lambda>(name, digest). map_of expected name \<noteq> Some digest) actual) @
     (if fast then [] else map fst (filter (\<lambda>(name, _). name \<notin> fst ` set actual) expected))"

text \<open>\<open>verify\<close> regenerates into a new temporary directory \<open>tmp\<close>.\<close>

definition command_verify :: "'z corpus_world_scheme \<Rightarrow> 's disk \<Rightarrow> 's \<Rightarrow> corpus_args \<Rightarrow> string \<Rightarrow> 's \<Rightarrow> exn + int" where
  "command_verify w d tmp args listing r =
     and_then (load_manifest w (read_text w d r) (ca_manifest args)) (\<lambda>mf.
     and_then (read_digests w d r listing) (\<lambda>expected.
     and_then (fst (generate_corpus w d mf (ca_fast args) tmp)) (\<lambda>ds.
       Inr (if problems expected (qualify ds (ca_digest_prefix args)) (ca_fast args) = [] then 0 else 1))))"

end
