(* ===== verification/CorpusFacts.thy ===== *)
theory CorpusFacts
  imports Corpus
begin

text \<open>
  What the fixture corpus promises: a part set is its target, raw bytes are spliced between characters, and what
  \<open>generate\<close> wrote \<open>verify\<close> accepts, and nothing else.  The proofs compare two generations on directories that agree
  on the files written so far, and read the listing of digests back line by line.
\<close>

section \<open>Splitting and dealing records\<close>

lemma find_bytes_Some: "find_bytes part xs = Some i \<Longrightarrow> starts_with (drop i xs) part \<and> i + length part \<le> length xs"
proof (induction part xs arbitrary: i rule: find_bytes.induct)
  case (1 part)
  then show ?case by (auto split: if_splits)
next
  case (2 part c cs)
  show ?case
  proof (cases "starts_with (c # cs) part")
    case True
    then have "length part \<le> length (c # cs)" using starts_with_iff by (metis length_append le_add1)
    then show ?thesis using 2 True by auto
  next
    case False
    with 2 show ?thesis by auto
  qed
qed

lemma split_records_concat: "terminator \<noteq> [] \<Longrightarrow> concat (split_records terminator payload) = payload"
proof (induction terminator payload rule: split_records.induct)
  case (1 terminator payload)
  then show ?case
    by (subst split_records.simps) (auto simp: Let_def dest: find_bytes_Some split: option.splits)
qed

lemma deal_length: "length (deal base extra index k xs) = k"
  by (induction k arbitrary: index xs) (simp_all add: Let_def)

text \<open>How many records the next \<open>k\<close> parts take.\<close>

definition dealt :: "nat \<Rightarrow> nat \<Rightarrow> nat \<Rightarrow> nat \<Rightarrow> nat" where
  "dealt base extra index k = k * base + (min extra (index + k) - min extra index)"

lemma dealt_Suc: "dealt base extra index (Suc k) = base + (if index < extra then 1 else 0) + dealt base extra (Suc index) k"
  by (auto simp: dealt_def min_def)

lemma deal_concat: "concat (deal base extra index k xs) = take (dealt base extra index k) xs"
  by (induction k arbitrary: index xs) (simp_all add: dealt_def [of _ _ _ 0] dealt_Suc Let_def take_add)

lemma deal_sizes:
  "j < k \<Longrightarrow> dealt base extra index k \<le> length xs \<Longrightarrow>
     length (deal base extra index k xs ! j) = base + (if index + j < extra then 1 else 0)"
proof (induction k arbitrary: index xs j)
  case 0
  then show ?case by simp
next
  case (Suc k)
  define n where "n = base + (if index < extra then 1 else 0)"
  have "n + dealt base extra (Suc index) k \<le> length xs" using Suc.prems(2) by (simp add: dealt_Suc n_def)
  then show ?case
    using Suc.IH [of _ "Suc index" "drop n xs"] Suc.prems(1) by (cases j; cases "index < extra") (auto simp: n_def)
qed

lemma distribute_concat: "0 < parts \<Longrightarrow> concat (distribute xs parts) = xs"
  by (simp add: distribute_def deal_concat dealt_def min_absorb1 less_imp_le)

lemma distribute_length: "length (distribute xs parts) = parts"
  by (simp add: distribute_def deal_length)

lemma distribute_sizes:
  assumes "i < parts"
  shows "length (distribute xs parts ! i) = length xs div parts + (if i < length xs mod parts then 1 else 0)"
proof -
  have "dealt (length xs div parts) (length xs mod parts) 0 parts \<le> length xs"
    using assms by (simp add: dealt_def min_absorb1 less_imp_le)
  with deal_sizes [OF assms this] show ?thesis by (simp add: distribute_def)
qed


section \<open>Directories that keep what is written\<close>

definition contents :: "'s disk \<Rightarrow> 's \<Rightarrow> string \<Rightarrow> string option" where
  "contents d s path = (case dk_read d path s of Inl _ \<Rightarrow> None | Inr bs \<Rightarrow> Some bs)"

text \<open>
  A successful write sets the file the path names and no other; \<open>same\<close> says which paths name the same file.
\<close>

definition reliable :: "'s disk \<Rightarrow> (string \<Rightarrow> string \<Rightarrow> bool) \<Rightarrow> bool" where
  "reliable d same \<longleftrightarrow>
     (\<forall>q. same q q) \<and>
     (\<forall>p bs s s' q. dk_write d p bs s = Inr s' \<longrightarrow>
        contents d s' q = (if same p q then Some bs else contents d s q) \<and>
        (dk_is_file d q s' \<longleftrightarrow> same p q \<or> dk_is_file d q s)) \<and>
     (\<forall>p s s' q. dk_mkdir d p s = Inr s' \<longrightarrow>
        contents d s' q = contents d s q \<and> dk_is_file d q s' = dk_is_file d q s)"

lemma disk_result_Inr [simp]: "disk_result r = Inr (s, u) \<longleftrightarrow> r = Inr s"
  by (cases r) (auto simp: disk_result_def)

lemma read_bytes_Inr [simp]: "file_bytes d path s = (Inr bs, s') \<longleftrightarrow> contents d s path = Some bs \<and> s' = s"
  by (auto simp: file_bytes_def contents_def split: sum.splits)

lemma write_bytes_Inr [simp]: "write_bytes d path bs s = (Inr u, s') \<longleftrightarrow> dk_write d path bs s = Inr s'"
  by (auto simp: write_bytes_def)

lemma make_directory_Inr [simp]: "make_directory d path s = (Inr u, s') \<longleftrightarrow> dk_mkdir d path s = Inr s'"
  by (auto simp: make_directory_def)

lemma write_stream_Inr [simp]:
  "write_stream d path out s = (Inr u, s') \<longleftrightarrow> snd out = None \<and> dk_write d path (fst out) s = Inr s'"
  by (auto simp: write_stream_def pr_bind_Inr split: option.splits)

lemma generated_target_Inr [simp]:
  "generated_target d fx s = (Inr target, s') \<longleftrightarrow> fx_wraps fx = Some target \<and> dk_is_file d target s \<and> s' = s"
  by (auto simp: generated_target_def split: option.splits if_splits)

text \<open>Two directories that agree on the files of \<open>W\<close>; the second has no other file.\<close>

definition agree :: "'s disk \<Rightarrow> (string \<Rightarrow> string \<Rightarrow> bool) \<Rightarrow> string set \<Rightarrow> 's \<Rightarrow> 's \<Rightarrow> bool" where
  "agree d same W s1 s2 \<longleftrightarrow>
     (\<forall>q. (\<exists>p \<in> W. same p q) \<longrightarrow> contents d s1 q = contents d s2 q) \<and>
     (\<forall>q. dk_is_file d q s2 \<longrightarrow> (\<exists>p \<in> W. same p q))"

lemma agree_contents: "reliable d same \<Longrightarrow> agree d same W s1 s2 \<Longrightarrow> p \<in> W \<Longrightarrow> contents d s1 p = contents d s2 p"
  unfolding reliable_def agree_def by blast

lemma agree_write:
  assumes "reliable d same" and "agree d same W s1 s2" and "dk_write d p bs s1 = Inr s1'" and "dk_write d p bs s2 = Inr s2'"
  shows "agree d same (insert p W) s1' s2'"
  using assms unfolding reliable_def agree_def by (metis insert_iff)

lemma agree_mkdir:
  assumes "reliable d same" and "agree d same W s1 s2" and "dk_mkdir d p s1 = Inr s1'" and "dk_mkdir d p s2 = Inr s2'"
  shows "agree d same W s1' s2'"
  using assms unfolding reliable_def agree_def by metis

lemma agree_writes:
  assumes "reliable d same" and "agree d same W s1 s2"
    and "pr_for xs (\<lambda>x. write_bytes d (f x) (g x)) s1 = (Inr us1, s1')"
    and "pr_for xs (\<lambda>x. write_bytes d (f x) (g x)) s2 = (Inr us2, s2')"
  shows "agree d same (W \<union> f ` set xs) s1' s2'"
  using assms(2-)
proof (induction xs arbitrary: W s1 s2 us1 us2)
  case Nil
  then show ?case by simp
next
  case (Cons x xs)
  then obtain t1 t2 vs1 vs2 where "dk_write d (f x) (g x) s1 = Inr t1" "dk_write d (f x) (g x) s2 = Inr t2"
    and rest: "pr_for xs (\<lambda>x. write_bytes d (f x) (g x)) t1 = (Inr vs1, s1')"
      "pr_for xs (\<lambda>x. write_bytes d (f x) (g x)) t2 = (Inr vs2, s2')"
    by (auto simp: pr_bind_Inr)
  with agree_write [OF assms(1) Cons.prems(1)] have "agree d same (insert (f x) W) t1 t2" by blast
  from Cons.IH [OF this rest] show ?case by simp
qed

lemma agree_target:
  assumes "reliable d same" and "agree d same W s1 s2" and "dk_is_file d q s2"
  shows "contents d s1 q = contents d s2 q"
  using assms unfolding agree_def by blast

lemma agree_wrapper:
  assumes ok: "reliable d same" and agree: "agree d same W s1 s2"
    and "write_wrapper w d fx s1 = (Inr u1, s1')" and "write_wrapper w d fx s2 = (Inr u2, s2')"
  shows "agree d same (insert (fx_name fx) W) s1' s2'"
proof -
  have step: "agree d same (insert (fx_name fx) W) s1' s2'"
    if "dk_write d (fx_name fx) [] s1 = Inr t1" "dk_write d (fx_name fx) [] s2 = Inr t2"
      and "dk_is_file d target s2" "contents d t1 target = Some p1" "contents d t2 target = Some p2"
      and "f p1 = Inr b1" "f p2 = Inr b2" "dk_write d (fx_name fx) b1 t1 = Inr s1'" "dk_write d (fx_name fx) b2 t2 = Inr s2'"
    for t1 t2 target p1 p2 f b1 b2
  proof -
    note t = agree_write [OF ok agree that(1,2)]
    have "dk_is_file d target t2" using ok that(2,3) unfolding reliable_def by blast
    from agree_target [OF ok t this] that have "b1 = b2" by simp
    with agree_write [OF ok t that(8)] that(9) show ?thesis by simp
  qed
  show ?thesis
    using assms(3,4) by (auto simp: write_wrapper_def pr_bind_Inr split: if_splits intro: step)
qed

lemma write_multipart_Inr:
  assumes "write_multipart w d fx s = (Inr u, s')"
  obtains target terminator payload header records s1 us where
    "fx_wraps fx = Some target" "dk_is_file d target s" "cc_encode w (fx_encoding fx) (fx_line_terminator fx) = Inr terminator"
    "contents d s target = Some payload" "split_records terminator payload = header # records" "dk_mkdir d (fx_name fx) s = Inr s1"
    "pr_for (enumerate 0 (distribute records (nat (fx_parts fx))))
       (\<lambda>x. write_bytes d (part_name (fx_name fx) (fst x)) (part_bytes header x)) s1 = (Inr us, s')"
proof -
  obtain target terminator payload where "fx_wraps fx = Some target" "dk_is_file d target s"
    "cc_encode w (fx_encoding fx) (fx_line_terminator fx) = Inr terminator" "contents d s target = Some payload"
    and rest: "(case split_records terminator payload of [] \<Rightarrow> pr_raise (Exn PyIndexError [])
       | header # records \<Rightarrow> write_parts d fx header records) s = (Inr u, s')"
    using assms by (auto simp: write_multipart_def pr_bind_Inr)
  then show thesis
    by (cases "split_records terminator payload") (auto simp: write_parts_def pr_bind_Inr intro: that)
qed

lemma enumerate_indices: "fst ` set (enumerate 0 (distribute xs n)) = {..<n}"
proof -
  have "fst ` set (enumerate 0 (distribute xs n)) = set (map fst (enumerate 0 (distribute xs n)))"
    by (simp only: set_map)
  also have "\<dots> = {..<n}" by (simp only: map_fst_enumerate set_upt add_0 distribute_length atLeast0LessThan)
  finally show ?thesis .
qed

lemma agree_multipart:
  assumes ok: "reliable d same" and agree: "agree d same W s1 s2"
    and runs: "write_multipart w d fx s1 = (Inr u1, s1')" "write_multipart w d fx s2 = (Inr u2, s2')"
  shows "agree d same (W \<union> part_name (fx_name fx) ` {..<nat (fx_parts fx)}) s1' s2'"
  using runs(1)
proof (rule write_multipart_Inr)
  fix target terminator p1 h1 r1 t1 us
  assume 1: "fx_wraps fx = Some target" "cc_encode w (fx_encoding fx) (fx_line_terminator fx) = Inr terminator"
    "contents d s1 target = Some p1" "split_records terminator p1 = h1 # r1" "dk_mkdir d (fx_name fx) s1 = Inr t1"
    "pr_for (enumerate 0 (distribute r1 (nat (fx_parts fx))))
       (\<lambda>x. write_bytes d (part_name (fx_name fx) (fst x)) (part_bytes h1 x)) t1 = (Inr us, s1')"
  show ?thesis
    using runs(2)
  proof (rule write_multipart_Inr)
    fix target2 terminator2 p2 h2 r2 t2 us2
    assume 2: "fx_wraps fx = Some target2" "dk_is_file d target2 s2"
      "cc_encode w (fx_encoding fx) (fx_line_terminator fx) = Inr terminator2" "contents d s2 target2 = Some p2"
      "split_records terminator2 p2 = h2 # r2" "dk_mkdir d (fx_name fx) s2 = Inr t2"
      "pr_for (enumerate 0 (distribute r2 (nat (fx_parts fx))))
         (\<lambda>x. write_bytes d (part_name (fx_name fx) (fst x)) (part_bytes h2 x)) t2 = (Inr us2, s2')"
    from agree_target [OF ok agree 2(2)] 1 2 have "h2 = h1" "r2 = r1" by auto
    with agree_writes [OF ok agree_mkdir [OF ok agree 1(5) 2(6)] 1(6)] 2(7) show ?thesis
      by (simp add: image_image [symmetric] enumerate_indices)
  qed
qed

lemma agree_fixture:
  assumes "reliable d same" and "agree d same W s1 s2"
    and "write_fixture w d master_seed fx s1 = (Inr u1, s1')" and "write_fixture w d master_seed fx s2 = (Inr u2, s2')"
  shows "agree d same (W \<union> set (output_names fx)) s1' s2'"
proof (cases "fx_generator fx = Wrapper \<or> fx_generator fx = Multipart")
  case True
  then show ?thesis
    using agree_wrapper [OF assms(1,2)] agree_multipart [OF assms(1,2)] assms(3,4)
    by (auto simp: write_fixture_def output_names_def atLeast0LessThan)
next
  case False
  then have "\<exists>bs. dk_write d (fx_name fx) bs s1 = Inr s1' \<and> dk_write d (fx_name fx) bs s2 = Inr s2'"
    using assms(3,4)
    by (auto simp: write_fixture_def write_tabular_def write_literal_def write_literal_unicode_def pr_bind_Inr
        split: generator_kind.splits sum.splits)
  moreover have "output_names fx = [fx_name fx]" using False by (simp add: output_names_def)
  ultimately show ?thesis using agree_write [OF assms(1,2)] by auto
qed


section \<open>The digests of two generations\<close>

lemma hash_outputs_Inr:
  assumes "pr_for paths (\<lambda>p. pr_bind (sha256_file w d p) (\<lambda>digest. pr_return (p, digest))) s = (Inr ds, s')"
  shows "s' = s \<and> map fst ds = paths \<and> (\<forall>(p, digest) \<in> set ds. \<exists>bs. contents d s p = Some bs \<and> digest = cw_sha256 w bs)"
  using assms by (induction paths arbitrary: ds) (auto simp: pr_bind_Inr sha256_file_def)

lemma hash_outputs_same:
  assumes "pr_for paths (\<lambda>p. pr_bind (sha256_file w d p) (\<lambda>digest. pr_return (p, digest))) s1 = (Inr ds1, s1')"
    and "pr_for paths (\<lambda>p. pr_bind (sha256_file w d p) (\<lambda>digest. pr_return (p, digest))) s2 = (Inr ds2, s2')"
    and "\<forall>p \<in> set paths. contents d s1 p = contents d s2 p"
  shows "ds1 = ds2"
  using assms by (induction paths arbitrary: ds1 ds2) (auto simp: pr_bind_Inr sha256_file_def)

lemma generate_step:
  assumes "generate_fixtures w d fast seed (fx # fxs) ds s = (Inr r, s')" and "\<not> skipped fast fx"
  obtains t hs where "write_fixture w d seed fx s = (Inr (), t)" "hash_outputs w d fx t = (Inr hs, t)"
    "generate_fixtures w d fast seed fxs (foldl (\<lambda>ds (n, x). put_digest n x ds) ds hs) t = (Inr r, s')"
proof -
  let ?rest = "\<lambda>hs. generate_fixtures w d fast seed fxs (foldl (\<lambda>ds (n, x). put_digest n x ds) ds hs)"
  have "pr_bind (write_fixture w d seed fx) (\<lambda>_. pr_bind (hash_outputs w d fx) ?rest) s = (Inr r, s')"
    using assms by simp
  then obtain u t where 1: "write_fixture w d seed fx s = (Inr u, t)" and "pr_bind (hash_outputs w d fx) ?rest t = (Inr r, s')"
    unfolding pr_bind_Inr by blast
  from this(2) obtain hs t' where 2: "hash_outputs w d fx t = (Inr hs, t')" and 3: "?rest hs t' = (Inr r, s')"
    unfolding pr_bind_Inr by blast
  have "t' = t" using hash_outputs_Inr [OF 2 [unfolded hash_outputs_def]] by simp
  with 1 2 3 show thesis by (intro that) simp_all
qed

lemma generate_fixtures_same:
  assumes ok: "reliable d same" and "agree d same W s1 s2"
    and "generate_fixtures w d fast seed fxs ds s1 = (Inr r1, s1')" and "generate_fixtures w d fast seed fxs ds s2 = (Inr r2, s2')"
  shows "r1 = r2"
  using assms(2-)
proof (induction fxs arbitrary: W s1 s2 ds)
  case Nil
  then show ?case by simp
next
  case (Cons fx fxs)
  show ?case
  proof (cases "skipped fast fx")
    case True
    with Cons show ?thesis by simp
  next
    case False
    obtain t1 h1 where 1: "write_fixture w d seed fx s1 = (Inr (), t1)" "hash_outputs w d fx t1 = (Inr h1, t1)"
      "generate_fixtures w d fast seed fxs (foldl (\<lambda>ds (n, x). put_digest n x ds) ds h1) t1 = (Inr r1, s1')"
      by (rule generate_step [OF Cons.prems(2) False])
    obtain t2 h2 where 2: "write_fixture w d seed fx s2 = (Inr (), t2)" "hash_outputs w d fx t2 = (Inr h2, t2)"
      "generate_fixtures w d fast seed fxs (foldl (\<lambda>ds (n, x). put_digest n x ds) ds h2) t2 = (Inr r2, s2')"
      by (rule generate_step [OF Cons.prems(3) False])
    note t = agree_fixture [OF ok Cons.prems(1) 1(1) 2(1)]
    then have "\<forall>p \<in> set (output_names fx). contents d t1 p = contents d t2 p"
      using agree_contents [OF ok] by blast
    from hash_outputs_same [OF 1(2) [unfolded hash_outputs_def] 2(2) [unfolded hash_outputs_def] this] have "h1 = h2" .
    with Cons.IH [OF t 1(3)] 2(3) show ?thesis by simp
  qed
qed

lemma generate_corpus_same:
  assumes "reliable d same" and "\<forall>q. \<not> dk_is_file d q tmp"
    and "generate_corpus w d mf fast s = (Inr r1, s')" and "generate_corpus w d mf fast tmp = (Inr r2, tmp')"
  shows "r1 = r2"
proof -
  obtain t1 t2 where dirs: "dk_mkdir d [] s = Inr t1" "dk_mkdir d [] tmp = Inr t2"
    and runs: "generate_fixtures w d fast (mf_master_seed mf) (mf_fixtures mf) [] t1 = (Inr r1, s')"
      "generate_fixtures w d fast (mf_master_seed mf) (mf_fixtures mf) [] t2 = (Inr r2, tmp')"
    using assms(3,4) by (auto simp: generate_corpus_def pr_bind_Inr)
  have "agree d same {} s tmp" using assms(2) by (simp add: agree_def)
  from generate_fixtures_same [OF assms(1) agree_mkdir [OF assms(1) this dirs] runs] show ?thesis .
qed

section \<open>The listing reads back\<close>

lemma put_digest_fst: "map fst (put_digest n x ds) = (if n \<in> fst ` set ds then map fst ds else map fst ds @ [n])"
  by (auto simp: put_digest_def)

lemma put_digest_names: "fst ` set (put_digest n x ds) = insert n (fst ` set ds)"
proof -
  have "fst ` set (put_digest n x ds) = set (map fst (put_digest n x ds))" by (simp only: set_map)
  then show ?thesis by (auto simp: put_digest_fst)
qed

lemma put_digest_distinct: "distinct (map fst ds) \<Longrightarrow> distinct (map fst (put_digest n x ds))"
  by (simp add: put_digest_fst)

lemma put_digests_distinct:
  "distinct (map fst ds) \<Longrightarrow> distinct (map fst (foldl (\<lambda>ds (n, x). put_digest n x ds) ds hs))"
  by (induction hs arbitrary: ds) (auto simp: put_digest_distinct split_beta)

lemma put_digests_new:
  "distinct (map fst (ds @ hs)) \<Longrightarrow> foldl (\<lambda>ds (n, x). put_digest n x ds) ds hs = ds @ hs"
proof (induction hs arbitrary: ds)
  case Nil
  then show ?case by simp
next
  case (Cons h hs)
  obtain n x where h: "h = (n, x)" by (cases h)
  with Cons.prems have "put_digest n x ds = ds @ [(n, x)]" by (auto simp: put_digest_def)
  with Cons.IH [of "ds @ [(n, x)]"] Cons.prems show ?case by (simp add: h)
qed

lemma generate_fixtures_names:
  assumes "generate_fixtures w d fast seed fxs ds s = (Inr r, s')" and "distinct (map fst ds)"
  shows "distinct (map fst r) \<and> fst ` set r \<subseteq> fst ` set ds \<union> (\<Union>fx \<in> set fxs. set (output_names fx)) \<and>
    (\<forall>x \<in> snd ` set r. x \<in> snd ` set ds \<or> x \<in> range (cw_sha256 w))"
  using assms
proof (induction fxs arbitrary: ds s)
  case Nil
  then show ?case by simp
next
  case (Cons fx fxs)
  show ?case
  proof (cases "skipped fast fx")
    case True
    with Cons show ?thesis by auto
  next
    case False
    let ?put = "foldl (\<lambda>ds (n, x). put_digest n x ds)"
    obtain t hs where "hash_outputs w d fx t = (Inr hs, t)"
      and rest: "generate_fixtures w d fast seed fxs (?put ds hs) t = (Inr r, s')"
      by (rule generate_step [OF Cons.prems(1) False])
    then have hs: "map fst hs = output_names fx" "\<forall>x \<in> snd ` set hs. x \<in> range (cw_sha256 w)"
      using hash_outputs_Inr [of "output_names fx" w d t hs t] by (fastforce simp: hash_outputs_def)+
    have names: "fst ` set (?put ds hs) = fst ` set ds \<union> fst ` set hs" for hs
      by (induction hs arbitrary: ds) (simp_all add: put_digest_names split_beta)
    have digests: "snd ` set (?put ds hs) \<subseteq> snd ` set ds \<union> snd ` set hs" for hs
    proof (induction hs arbitrary: ds)
      case (Cons h hs)
      have "snd ` set (put_digest (fst h) (snd h) ds) \<subseteq> insert (snd h) (snd ` set ds)"
        by (auto simp: put_digest_def image_iff split: if_splits)
      with Cons [of "put_digest (fst h) (snd h) ds"] show ?case by (auto simp: split_beta)
    qed simp
    have "fst ` set hs = set (output_names fx)" using hs(1) by (metis set_map)
    with Cons.IH [OF rest put_digests_distinct [OF Cons.prems(2)]] names [of hs]
    have "distinct (map fst r)" "fst ` set r \<subseteq> fst ` set ds \<union> (\<Union>fx' \<in> set (fx # fxs). set (output_names fx'))"
      and "\<forall>x \<in> snd ` set r. x \<in> snd ` set (?put ds hs) \<or> x \<in> range (cw_sha256 w)"
      by auto
    with digests [of hs] hs(2) show ?thesis by (meson UnE subsetD)
  qed
qed


definition one_line :: "string \<Rightarrow> bool" where
  "one_line t \<longleftrightarrow> list_all (\<lambda>c. (of_char c :: nat) \<notin> {10, 11, 12, 13, 28, 29, 30, 133}) t"

definition hex64 :: "string \<Rightarrow> bool" where
  "hex64 x \<longleftrightarrow> length x = 64 \<and> list_all (\<lambda>c. hex_digit_value c \<noteq> None) x"

lemma hex_digit_codes: "hex_digit_value c \<noteq> None \<Longrightarrow> 48 \<le> (of_char c :: nat) \<and> (of_char c :: nat) \<le> 102"
  by (auto simp: hex_digit_value_def Let_def split: if_splits)

lemma hex_one_line: "hex64 x \<Longrightarrow> one_line x"
  unfolding hex64_def one_line_def by (elim conjE, erule list.pred_mono_strong) (drule hex_digit_codes, auto)

lemma break_codes: "LF = char_of (10 :: nat)" "CR = char_of (13 :: nat)"
  by code_simp+

lemma one_line_breaks: "one_line [c] \<Longrightarrow> \<not> breaks_splitlines c rest \<and> c \<noteq> CR \<and> c \<noteq> LF"
  by (auto simp: one_line_def breaks_splitlines_def)

lemma one_line_Cons: "one_line (c # cs) \<longleftrightarrow> one_line [c] \<and> one_line cs"
  by (simp add: one_line_def)

lemma one_line_append [simp]: "one_line (a @ b) \<longleftrightarrow> one_line a \<and> one_line b"
  by (simp add: one_line_def)

lemma split_line:
  "one_line l \<Longrightarrow> split_lines breaks_splitlines (l @ LF # rest) = (l @ [LF]) # split_lines breaks_splitlines rest"
proof (induction l)
  case Nil
  have "breaks_splitlines LF rest" by (simp add: breaks_splitlines_def)
  then show ?case by simp
next
  case (Cons c l)
  then have "one_line [c]" "one_line l" using one_line_Cons by blast+
  with Cons.IH one_line_breaks [of c "l @ LF # rest"] show ?case by simp
qed

lemma without_line_end: "one_line l \<Longrightarrow> without_end (l @ [LF]) = l"
proof -
  assume l: "one_line l"
  have "\<not> ends_with (l @ [LF]) [CR, LF]"
  proof
    assume "ends_with (l @ [LF]) [CR, LF]"
    then obtain ys where "l @ [LF] = (ys @ [CR]) @ [LF]" by (auto simp: ends_with_iff)
    then have "l = ys @ [CR]" by (simp only: append_same_eq)
    with l have "one_line [CR]" by simp
    then show False by (simp add: one_line_def)
  qed
  moreover have "breaks_splitlines LF []" by (simp add: breaks_splitlines_def)
  ultimately show "without_end (l @ [LF]) = l" by (simp add: without_end_def)
qed

lemma splitlines_listing:
  "\<forall>(name, digest) \<in> set ds. one_line name \<and> one_line digest \<Longrightarrow>
     splitlines (format_digests ds) = map (\<lambda>(name, digest). digest @ ''  '' @ name) ds"
proof (induction ds)
  case Nil
  then show ?case by (simp add: splitlines_def format_digests_def)
next
  case (Cons h ds)
  obtain name digest where h: "h = (name, digest)" by (cases h)
  let ?l = "digest @ ''  '' @ name"
  have l: "one_line ?l" using Cons.prems by (simp add: h one_line_def)
  have "splitlines (format_digests (h # ds)) =
      map without_end (split_lines breaks_splitlines (?l @ LF # format_digests ds))"
    by (simp add: splitlines_def format_digests_def h)
  also have "\<dots> = ?l # splitlines (format_digests ds)"
    by (simp only: split_line [OF l] list.map without_line_end [OF l] splitlines_def)
  finally show ?case using Cons by (simp add: h)
qed

text \<open>A name as the listing can carry it: on one line, and not beginning with what the parser strips.\<close>

definition listed_name :: "string \<Rightarrow> bool" where
  "listed_name name \<longleftrightarrow> name \<noteq> [] \<and> one_line name \<and> hd name \<notin> {CHR '' '', CHR ''*''}"

lemma parse_listed_line:
  assumes "hex64 digest" and "listed_name name"
  shows "parse_digest_line (digest @ ''  '' @ name) = Inr (name, digest)"
proof -
  have "\<forall>c \<in> set digest. c \<noteq> CHR '' ''" using assms(1) hex_digit_codes by (fastforce simp: hex64_def list_all_iff)
  then have "takeWhile (\<lambda>c. c \<noteq> CHR '' '') (digest @ ''  '' @ name) = digest" by simp
  moreover have "dropWhile (\<lambda>c. c = CHR '' '' \<or> c = CHR ''*'') ('' '' @ name) = name"
    using assms(2) by (cases name) (auto simp: listed_name_def)
  ultimately show ?thesis using assms(1) by (simp add: parse_digest_line_def Let_def hex64_def)
qed

lemma listed_line_not_blank:
  assumes "hex64 digest"
  shows "strip (digest @ t) \<noteq> []"
proof -
  obtain c cs where c: "digest = c # cs" using assms by (cases digest) (auto simp: hex64_def)
  then have "hex_digit_value c \<noteq> None" using assms by (simp add: hex64_def)
  then have "\<not> is_space c" using hex_digit_codes by (fastforce simp: is_space_def Let_def)
  then have "c \<in> set (strip (digest @ t))"
    using c by (auto simp: strip_def lstrip_def rstrip_def) (metis append_Cons in_set_conv_decomp rev.simps(2) set_dropWhileD set_rev dropWhile_append3 list.set_intros(1) set_append UnI2)
  then show ?thesis by auto
qed


lemma listing_reads_back:
  assumes "\<forall>(name, digest) \<in> set ds. listed_name name \<and> hex64 digest" and "distinct (map fst ds)"
  shows "parse_digests (format_digests ds) = Inr ds"
proof -
  have "filter (\<lambda>l. strip l \<noteq> []) (map (\<lambda>(name, digest). digest @ ''  '' @ name) ds) = map (\<lambda>(name, digest). digest @ ''  '' @ name) ds"
    using assms(1) by (auto simp: filter_id_conv listed_line_not_blank)
  moreover have "traverse parse_digest_line (map (\<lambda>(name, digest). digest @ ''  '' @ name) ds) = Inr ds"
    using assms(1) by (induction ds) (auto simp: parse_listed_line [simplified])
  moreover have "splitlines (format_digests ds) = map (\<lambda>(name, digest). digest @ ''  '' @ name) ds"
    by (rule splitlines_listing) (use assms(1) in \<open>auto simp: listed_name_def hex_one_line\<close>)
  ultimately show ?thesis
    using put_digests_new [of "[]" ds] assms(2) by (simp add: parse_digests_def and_then_def)
qed

lemma universal_newlines_id: "CR \<notin> set t \<Longrightarrow> universal_newlines t = t"
  by (induction t) auto

lemma one_line_no_CR: "one_line t \<Longrightarrow> CR \<notin> set t"
  by (induction t) (auto simp: one_line_def)

lemma listing_no_CR:
  "\<forall>(name, digest) \<in> set ds. one_line name \<and> one_line digest \<Longrightarrow> CR \<notin> set (format_digests ds)"
  by (fastforce simp: format_digests_def dest: one_line_no_CR)

section \<open>What \<open>verify\<close> compares\<close>

lemma problems_none:
  assumes "distinct (map fst actual)" and "distinct (map fst expected)"
  shows "problems expected actual False = [] \<longleftrightarrow> map_of expected = map_of actual"
proof
  assume none: "problems expected actual False = []"
  show "map_of expected = map_of actual"
  proof
    fix n
    show "map_of expected n = map_of actual n"
    proof (cases "map_of actual n")
      case (Some x)
      then have "(n, x) \<in> set actual" by (rule map_of_SomeD)
      with none Some show ?thesis by (auto simp: problems_def filter_empty_conv)
    next
      case None
      then have "n \<notin> fst ` set actual" by (simp add: map_of_eq_None_iff)
      with none have "n \<notin> fst ` set expected" by (auto simp: problems_def filter_empty_conv)
      then have "map_of expected n = None" by (simp only: map_of_eq_None_iff simp_thms)
      with None show ?thesis by simp
    qed
  qed
next
  assume same: "map_of expected = map_of actual"
  then have "map_of expected n = Some x" if "(n, x) \<in> set actual" for n x
    using that assms(1) by simp
  moreover have "n \<in> fst ` set actual" if "(n, x) \<in> set expected" for n x
    using that assms(2) same by (metis map_of_eq_None_iff map_of_is_SomeI option.distinct(1))
  ultimately show "problems expected actual False = []" by (auto simp: problems_def filter_empty_conv)
qed

lemma qualify_names:
  "prefix \<noteq> [] \<Longrightarrow> map fst (qualify ds prefix) = map (\<lambda>n. rstrip_slash prefix @ ''/'' @ n) (map fst ds)"
  by (auto simp: qualify_def)

lemma qualify_distinct: "distinct (map fst ds) \<Longrightarrow> distinct (map fst (qualify ds prefix))"
proof (cases "prefix = []")
  case False
  assume "distinct (map fst ds)"
  then have "distinct (map (\<lambda>n. rstrip_slash prefix @ ''/'' @ n) (map fst ds))"
    by (subst distinct_map) (auto simp: inj_on_def)
  then show ?thesis by (subst qualify_names [OF False])
qed (simp add: qualify_def)

lemma qualify_empty: "qualify ds [] = ds"
  by (simp add: qualify_def)

lemma qualify_listed:
  assumes "\<forall>name \<in> fst ` set ds. listed_name name" and "listed_name (rstrip_slash prefix)"
  shows "\<forall>name \<in> fst ` set (qualify ds prefix). listed_name name"
proof -
  have "listed_name (rstrip_slash prefix @ ''/'' @ n)" if "listed_name n" for n
    using that assms(2) by (cases "rstrip_slash prefix") (auto simp: listed_name_def one_line_def)
  then show ?thesis using assms(1) by (auto simp: qualify_def)
qed

lemma listed_name_append: "listed_name name \<Longrightarrow> one_line t \<Longrightarrow> listed_name (name @ t)"
  by (simp add: listed_name_def)

lemma part_name_listed: "listed_name name \<Longrightarrow> listed_name (part_name name i)"
proof -
  have digits: "one_line (show_nat i)"
    unfolding one_line_def list_all_iff
  proof
    fix c assume "c \<in> set (show_nat i)"
    then have "is_digit c" by (rule show_nat_digits)
    then show "(of_char c :: nat) \<notin> {10, 11, 12, 13, 28, 29, 30, 133}" by (auto simp: is_digit_def Let_def)
  qed
  have "one_line (replicate k CHR ''0'')" for k by (induction k) (simp_all add: one_line_def)
  moreover have "one_line ''/part-''" by (simp add: one_line_def)
  ultimately have "one_line (''/part-'' @ replicate (5 - length (show_nat i)) CHR ''0'' @ show_nat i)"
    using digits by (simp only: one_line_append)
  then show "listed_name name \<Longrightarrow> listed_name (part_name name i)"
    unfolding part_name_def by (rule listed_name_append [rotated])
qed

lemma output_names_listed: "listed_name (fx_name fx) \<Longrightarrow> \<forall>name \<in> set (output_names fx). listed_name name"
  by (auto simp: output_names_def part_name_listed)


section \<open>Generate, then verify\<close>

lemma contents_Some: "contents d s path = Some bs \<longleftrightarrow> dk_read d path s = Inr bs"
  by (auto simp: contents_def split: sum.splits)

lemma load_manifest_cong:
  assumes "load_manifest w (read_text w d r) path = Inr mf" and "contents d r' path = contents d r path"
  shows "load_manifest w (read_text w d r') path = Inr mf"
proof -
  obtain t where "read_text w d r path = Inr t"
    using assms(1) by (auto simp: load_manifest_def split: sum.splits)
  then obtain bs where "contents d r path = Some bs" by (auto simp: read_text_def contents_Some)
  with assms(2) have "read_text w d r' path = read_text w d r path" by (simp add: read_text_def contents_Some)
  with assms(1) show ?thesis by (simp add: load_manifest_def)
qed

lemma read_digests_distinct: "read_digests w d s path = Inr ds \<Longrightarrow> distinct (map fst ds)"
  by (auto simp: read_digests_def parse_digests_def put_digests_distinct split: sum.splits)

text \<open>What \<open>generate --write-digests\<close> leaves, and what \<open>verify\<close> decides.\<close>

lemma in_out_Inr [simp]: "in_out m (s, r) = (Inr x, p) \<longleftrightarrow> m s = (Inr x, fst p) \<and> snd p = r"
  by (cases p) (auto simp: in_out_def split: prod.splits)

lemma in_repository_Inr [simp]: "in_repository m (s, r) = (Inr x, p) \<longleftrightarrow> m r = (Inr x, snd p) \<and> fst p = s"
  by (cases p) (auto simp: in_repository_def split: prod.splits)

lemma write_digests_Inr [simp]:
  "write_digests w d path ds r = (Inr u, r') \<longleftrightarrow>
    (\<exists>r1 bs. dk_mkdir d (parent path) r = Inr r1 \<and> cc_encode w ''utf-8'' (format_digests ds) = Inr bs \<and> dk_write d path bs r1 = Inr r')"
  by (auto simp: write_digests_def pr_bind_Inr split: sum.splits)

lemma command_generate_Inr:
  assumes "command_generate w d args (Some listing) (s, r) = (Inr 0, (s', r'))"
  obtains mf ds r1 bs where "\<not> ca_fast args" "load_manifest w (read_text w d r) (ca_manifest args) = Inr mf"
    "generate_corpus w d mf False s = (Inr ds, s')" "dk_mkdir d (parent listing) r = Inr r1"
    "cc_encode w ''utf-8'' (format_digests (qualify ds (ca_digest_prefix args))) = Inr bs" "dk_write d listing bs r1 = Inr r'"
  using assms by (auto simp: command_generate_def pr_bind_Inr split: if_splits)

lemma command_verify_Inr:
  assumes "load_manifest w (read_text w d r) (ca_manifest args) = Inr mf" and "\<not> ca_fast args"
    and "generate_corpus w d mf False tmp = (Inr ds, tmp')" and "distinct (map fst ds)"
    and "command_verify w d tmp args listing r = Inr code"
  shows "code = 0 \<longleftrightarrow> (\<exists>expected. read_digests w d r listing = Inr expected \<and> map_of expected = map_of (qualify ds (ca_digest_prefix args)))"
proof -
  obtain expected where read: "read_digests w d r listing = Inr expected"
    and code: "code = (if problems expected (qualify ds (ca_digest_prefix args)) False = [] then 0 else 1)"
    using assms by (auto simp: command_verify_def)
  from problems_none [OF qualify_distinct [OF assms(4)] read_digests_distinct [OF read]]
  show ?thesis by (simp add: code read)
qed

lemma listing_file_reads_back:
  assumes ok: "reliable d same" and "dk_write d listing bs r1 = Inr r'" and "cc_encode w ''utf-8'' (format_digests ds) = Inr bs"
    and "cc_decode w ''utf-8'' bs = Inr (format_digests ds)"
    and listed: "\<forall>(name, digest) \<in> set ds. listed_name name \<and> hex64 digest" and "distinct (map fst ds)"
  shows "read_digests w d r' listing = Inr ds"
proof -
  have "contents d r' listing = Some bs" using ok assms(2) unfolding reliable_def by metis
  moreover have "CR \<notin> set (format_digests ds)"
    by (rule listing_no_CR) (use listed in \<open>auto simp: listed_name_def hex_one_line\<close>)
  ultimately show ?thesis
    using listing_reads_back [OF listed assms(6)] assms(4)
    by (simp add: read_digests_def read_text_def contents_Some and_then_def universal_newlines_id)
qed

lemma qualified_listed:
  assumes "generate_corpus w d mf False s = (Inr ds, s')" and "\<forall>fx \<in> set (mf_fixtures mf). listed_name (fx_name fx)"
    and "prefix = [] \<or> listed_name (rstrip_slash prefix)" and "\<forall>bs. hex64 (cw_sha256 w bs)"
  shows "\<forall>(name, digest) \<in> set (qualify ds prefix). listed_name name \<and> hex64 digest" and "distinct (map fst ds)"
proof -
  obtain t where run: "generate_fixtures w d False (mf_master_seed mf) (mf_fixtures mf) [] t = (Inr ds, s')"
    using assms(1) by (auto simp: generate_corpus_def pr_bind_Inr)
  from generate_fixtures_names [OF run] show "distinct (map fst ds)" by simp
  from generate_fixtures_names [OF run] have names: "fst ` set ds \<subseteq> (\<Union>fx \<in> set (mf_fixtures mf). set (output_names fx))"
    and digests: "snd ` set ds \<subseteq> range (cw_sha256 w)"
    by auto
  have "\<forall>name \<in> fst ` set ds. listed_name name"
  proof
    fix name assume "name \<in> fst ` set ds"
    with names obtain fx where "fx \<in> set (mf_fixtures mf)" "name \<in> set (output_names fx)" by blast
    with assms(2) output_names_listed show "listed_name name" by blast
  qed
  then have "\<forall>name \<in> fst ` set (qualify ds prefix). listed_name name"
    using assms(3) qualify_listed [of ds prefix] qualify_empty by metis
  moreover have "snd ` set (qualify ds prefix) = snd ` set ds" by (force simp: qualify_def)
  then have "\<forall>digest \<in> snd ` set (qualify ds prefix). hex64 digest" using digests assms(4) by auto
  ultimately show "\<forall>(name, digest) \<in> set (qualify ds prefix). listed_name name \<and> hex64 digest" by force
qed

text \<open>C16: What was generated verifies, and nothing else does.  After \<open>generate --write-digests\<close> into a directory that
  may hold anything, a \<open>verify\<close> that can regenerate the corpus in an empty directory exits with 0; and from any
  repository with this manifest, \<open>verify\<close> exits with 0 exactly if the oracle there gives every name the digest
  this oracle gives it, no name more and no name less.  Assumed are files that keep what is written to them, an
  oracle that is not the manifest, digests of 64 hexadecimal characters, and names that fit on a line of the listing.\<close>

theorem generated_corpus_verifies:
  assumes "reliable d same" and "\<forall>q. \<not> dk_is_file d q tmp" and "\<not> same listing (ca_manifest args)"
    and "load_manifest w (read_text w d r) (ca_manifest args) = Inr mf"
    and "\<forall>fx \<in> set (mf_fixtures mf). listed_name (fx_name fx)"
    and "ca_digest_prefix args = [] \<or> listed_name (rstrip_slash (ca_digest_prefix args))"
    and "\<forall>bs. hex64 (cw_sha256 w bs)" and "\<forall>t bs. cc_encode w ''utf-8'' t = Inr bs \<longrightarrow> cc_decode w ''utf-8'' bs = Inr t"
    and "command_generate w d args (Some listing) (s, r) = (Inr 0, (s', r'))"
  shows "(\<forall>code. command_verify w d tmp args listing r' = Inr code \<longrightarrow> code = 0) \<and>
    (\<forall>r2 code. load_manifest w (read_text w d r2) (ca_manifest args) = Inr mf \<longrightarrow> command_verify w d tmp args listing r2 = Inr code \<longrightarrow>
      (code = 0 \<longleftrightarrow> (\<exists>ds expected. read_digests w d r' listing = Inr ds \<and> read_digests w d r2 listing = Inr expected \<and>
        map_of expected = map_of ds)))"
proof -
  obtain ds r1 bs where full: "\<not> ca_fast args" and run: "generate_corpus w d mf False s = (Inr ds, s')"
    and dir: "dk_mkdir d (parent listing) r = Inr r1"
    and listing: "cc_encode w ''utf-8'' (format_digests (qualify ds (ca_digest_prefix args))) = Inr bs"
    and written: "dk_write d listing bs r1 = Inr r'"
    using assms(4) by (rule_tac command_generate_Inr [OF assms(9)]) auto
  note listed = qualified_listed [OF run assms(5,6,7)]
  have committed: "read_digests w d r' listing = Inr (qualify ds (ca_digest_prefix args))"
    using listing_file_reads_back [OF assms(1) written listing] assms(8) listing listed qualify_distinct by blast
  have exact: "code = 0 \<longleftrightarrow> (\<exists>expected. read_digests w d r2 listing = Inr expected \<and> map_of expected = map_of (qualify ds (ca_digest_prefix args)))"
    if mf: "load_manifest w (read_text w d r2) (ca_manifest args) = Inr mf" and verify: "command_verify w d tmp args listing r2 = Inr code" for r2 code
  proof -
    obtain ds' tmp' where again: "generate_corpus w d mf False tmp = (Inr ds', tmp')"
      using mf verify full by (auto simp: command_verify_def) (metis prod.collapse)
    from generate_corpus_same [OF assms(1,2) run again] have "ds' = ds" ..
    with command_verify_Inr [OF mf full again _ verify] listed(2) show ?thesis by simp
  qed
  have "contents d r' (ca_manifest args) = contents d r (ca_manifest args)"
    using assms(1,3) dir written unfolding reliable_def by metis
  note kept = load_manifest_cong [OF assms(4) this]
  show ?thesis using exact exact [OF kept] committed by simp
qed


section \<open>Part sets\<close>

lemma writes_frame:
  assumes "reliable d same" and "pr_for xs (\<lambda>x. write_bytes d (f x) (g x)) s = (Inr us, s')" and "\<forall>x \<in> set xs. \<not> same (f x) q"
  shows "contents d s' q = contents d s q"
  using assms(2,3)
proof (induction xs arbitrary: s us)
  case (Cons x xs)
  then obtain t vs where "dk_write d (f x) (g x) s = Inr t" and "pr_for xs (\<lambda>x. write_bytes d (f x) (g x)) t = (Inr vs, s')"
    by (auto simp: pr_bind_Inr)
  from Cons.IH [OF this(2)] Cons.prems(2) have "contents d s' q = contents d t q" by simp
  also have "\<dots> = contents d s q" using assms(1) \<open>dk_write d (f x) (g x) s = Inr t\<close> Cons.prems(2) unfolding reliable_def by force
  finally show ?case .
qed simp

lemma writes_kept:
  assumes ok: "reliable d same" and "pr_for xs (\<lambda>x. write_bytes d (f x) (g x)) s = (Inr us, s')"
    and "distinct (map f xs)" and "\<forall>x \<in> set xs. \<forall>y \<in> set xs. same (f x) (f y) \<longrightarrow> f x = f y"
  shows "\<forall>x \<in> set xs. contents d s' (f x) = Some (g x)"
  using assms(2-)
proof (induction xs arbitrary: s us)
  case (Cons x xs)
  from Cons.prems(1) obtain t vs where x: "dk_write d (f x) (g x) s = Inr t" and rest: "pr_for xs (\<lambda>x. write_bytes d (f x) (g x)) t = (Inr vs, s')"
    by (auto simp: pr_bind_Inr)
  have "f y \<noteq> f x" if "y \<in> set xs" for y using Cons.prems(2) that by (metis distinct.simps(2) image_eqI list.simps(9) set_map)
  then have "\<forall>y \<in> set xs. \<not> same (f y) (f x)" using Cons.prems(3) by (meson list.set_intros)
  from writes_frame [OF ok rest this] have "contents d s' (f x) = contents d t (f x)" .
  also have "\<dots> = Some (g x)" using ok x unfolding reliable_def by metis
  finally show ?case using Cons.IH [OF rest] Cons.prems(2,3) by simp
qed simp

lemma part_bytes_concat:
  assumes "pieces \<noteq> []"
  shows "concat (map (part_bytes header) (enumerate 0 pieces)) = header @ concat (concat pieces)"
proof -
  have later: "concat (map (part_bytes header) (enumerate (Suc n) cs)) = concat (concat cs)" for n cs
    by (induction cs arbitrary: n) (simp_all add: part_bytes_def)
  obtain c cs where "pieces = c # cs" using assms by (cases pieces) auto
  with later [of 0 cs] show ?thesis by (simp add: part_bytes_def)
qed

text \<open>C35: The parts of a part set are the target, cut between records.  When \<open>_write_multipart\<close> returns, the
  numbered files hold byte strings that put together in order are exactly the bytes of the target; the first begins
  with the first record, the header, and each later one consists of data records only; the records are dealt so that
  no part has fewer than a later one, nor two more.  Assumed are files that keep what is written to them, part names
  that denote different files, and a codec that encodes the terminator as some bytes.\<close>

theorem multipart_parts_exact:
  assumes "reliable d same" and "\<forall>i j. same (part_name (fx_name fx) i) (part_name (fx_name fx) j) \<longrightarrow> i = j"
    and "0 < fx_parts fx" and "cc_encode w (fx_encoding fx) (fx_line_terminator fx) \<noteq> Inr []"
    and "write_multipart w d fx s = (Inr u, s')"
  shows "\<exists>target payload terminator header pieces. fx_wraps fx = Some target \<and> contents d s target = Some payload \<and>
    cc_encode w (fx_encoding fx) (fx_line_terminator fx) = Inr terminator \<and>
    split_records terminator payload = header # concat pieces \<and> length pieces = nat (fx_parts fx) \<and>
    (\<forall>i < nat (fx_parts fx). contents d s' (part_name (fx_name fx) i) =
       Some ((if i = 0 then header else []) @ concat (pieces ! i))) \<and>
    concat (map (\<lambda>i. the (contents d s' (part_name (fx_name fx) i))) [0..<nat (fx_parts fx)]) = payload \<and>
    (\<forall>i j. i < j \<longrightarrow> j < nat (fx_parts fx) \<longrightarrow>
       length (pieces ! j) \<le> length (pieces ! i) \<and> length (pieces ! i) \<le> length (pieces ! j) + 1)"
  using assms(5)
proof (rule write_multipart_Inr)
  fix target terminator payload header records s1 us
  assume run: "fx_wraps fx = Some target" "dk_is_file d target s" "cc_encode w (fx_encoding fx) (fx_line_terminator fx) = Inr terminator"
    "contents d s target = Some payload" "split_records terminator payload = header # records" "dk_mkdir d (fx_name fx) s = Inr s1"
    and writes: "pr_for (enumerate 0 (distribute records (nat (fx_parts fx))))
       (\<lambda>x. write_bytes d (part_name (fx_name fx) (fst x)) (part_bytes header x)) s1 = (Inr us, s')"
  let ?n = "nat (fx_parts fx)" and ?pieces = "distribute records (nat (fx_parts fx))" and ?part = "part_name (fx_name fx)"
  have pos: "0 < ?n" using assms(3) by simp
  have self: "same q q" for q using assms(1) by (simp add: reliable_def)
  have inj: "?part i = ?part j \<Longrightarrow> i = j" for i j using assms(2) self by metis
  have "distinct (map (\<lambda>x. ?part (fst x)) (enumerate 0 ?pieces))"
    by (auto simp: distinct_map inj_on_def in_set_enumerate_eq dest!: inj)
  moreover have "\<forall>x \<in> set (enumerate 0 ?pieces). \<forall>y \<in> set (enumerate 0 ?pieces). same (?part (fst x)) (?part (fst y)) \<longrightarrow> ?part (fst x) = ?part (fst y)"
    using assms(2) by metis
  ultimately have kept: "contents d s' (?part (fst x)) = Some (part_bytes header x)" if "x \<in> set (enumerate 0 ?pieces)" for x
    using writes_kept [OF assms(1) writes] that by blast
  have part: "contents d s' (?part i) = Some (part_bytes header (i, ?pieces ! i))" if "i < ?n" for i
    using kept [of "(i, ?pieces ! i)"] that by (simp add: in_set_enumerate_eq distribute_length)
  have "map (\<lambda>i. the (contents d s' (?part i))) [0..<?n] = map (part_bytes header) (enumerate 0 ?pieces)"
    by (rule nth_equalityI) (simp_all add: distribute_length part nth_enumerate_eq)
  moreover have "?pieces \<noteq> []" using pos distribute_length [of records ?n] by force
  moreover have "terminator \<noteq> []" using assms(4) run(3) by auto
  ultimately have "concat (map (\<lambda>i. the (contents d s' (?part i))) [0..<?n]) = payload"
    using split_records_concat [of terminator payload] run(5) part_bytes_concat [of ?pieces header] distribute_concat [OF pos, of records]
    by simp
  moreover have "length (?pieces ! j) \<le> length (?pieces ! i) \<and> length (?pieces ! i) \<le> length (?pieces ! j) + 1"
    if "i < j" "j < ?n" for i j
    using distribute_sizes [of i ?n records] distribute_sizes [of j ?n records] that by simp
  ultimately show ?thesis
    using run part distribute_length [of records ?n] distribute_concat [OF pos, of records]
    by (intro exI [of _ target] exI [of _ payload] exI [of _ terminator] exI [of _ header] exI [of _ ?pieces])
      (simp add: part_bytes_def)
qed


section \<open>Spliced bytes\<close>

text \<open>An encoding without state, such as UTF-8: a text is encoded character by character.\<close>

definition stateless :: "'z corpus_codecs_scheme \<Rightarrow> string \<Rightarrow> bool" where
  "stateless w encoding \<longleftrightarrow>
     (\<forall>fed t. cc_feed w encoding fed t = cc_encode w encoding t) \<and> (\<forall>fed. cc_finish w encoding fed = Inr []) \<and>
     cc_encode w encoding [] = Inr [] \<and>
     (\<forall>a b. cc_encode w encoding (a @ b) =
        and_then (cc_encode w encoding a) (\<lambda>x. and_then (cc_encode w encoding b) (\<lambda>y. Inr (x @ y))))"

lemma stateless_append:
  "stateless w e \<Longrightarrow> cc_encode w e (a @ b) = Inr z \<longleftrightarrow> (\<exists>x y. cc_encode w e a = Inr x \<and> cc_encode w e b = Inr y \<and> z = x @ y)"
  unfolding stateless_def by auto

lemma boundary_offsets_prefixes:
  assumes "stateless w e" and "boundary_offsets w e fed n cs = Inr offsets" and "offset \<in> set offsets"
  shows "\<exists>k x. k \<le> length cs \<and> cc_encode w e (take k cs) = Inr x \<and> offset = n + length x"
  using assms(2,3)
proof (induction cs arbitrary: fed n offsets)
  case Nil
  then show ?case using assms(1) by (auto simp: stateless_def and_then_def)
next
  case (Cons c cs)
  obtain bs rest where bs: "cc_encode w e [c] = Inr bs" and rest: "boundary_offsets w e (fed @ [[c]]) (n + length bs) cs = Inr rest"
    and offsets: "offsets = (n + length bs) # rest"
    using Cons.prems(1) assms(1) by (auto simp: stateless_def)
  show ?case
  proof (cases "offset = n + length bs")
    case True
    then show ?thesis using bs by (intro exI [of _ 1] exI [of _ bs]) simp
  next
    case False
    then obtain k x where "k \<le> length cs" "cc_encode w e (take k cs) = Inr x" "offset = n + length bs + length x"
      using Cons.IH [OF rest] Cons.prems(2) offsets by auto
    then show ?thesis
      using bs stateless_append [OF assms(1), of "[c]" "take k cs"] by (intro exI [of _ "Suc k"] exI [of _ "bs @ x"]) simp
  qed
qed

lemma boundaries_prefixes:
  assumes "stateless w e" and "character_boundaries w t e = Inr legal" and "offset \<in> set legal"
  shows "\<exists>k x. k \<le> length t \<and> cc_encode w e (take k t) = Inr x \<and> offset = length x"
proof (cases "offset = 0")
  case True
  then show ?thesis using assms(1) by (intro exI [of _ 0] exI [of _ "[]"]) (simp add: stateless_def)
next
  case False
  then show ?thesis
    using assms(2,3) boundary_offsets_prefixes [OF assms(1), of "[]" 0 t] by (fastforce simp: character_boundaries_def)
qed

text \<open>Texts in the encoding of the file, with the spliced bytes between them.\<close>

fun woven :: "'z corpus_codecs_scheme \<Rightarrow> string \<Rightarrow> string list \<Rightarrow> string list \<Rightarrow> exn + string" where
  "woven w e (t # ts) (raw # raws) =
     and_then (cc_encode w e t) (\<lambda>bs. and_then (woven w e ts raws) (\<lambda>rest. Inr (bs @ raw @ rest)))"
| "woven w e (t # ts) [] = cc_encode w e t"
| "woven w e [] raws = Inr []"

text \<open>A legal offset that is not before the cursor cuts the rest of the text.\<close>

lemma legal_cut:
  assumes "stateless w e" and "cc_encode w e t = Inr encoded" and "cc_encode w e (take k0 t) = Inr x0"
    and "character_boundaries w t e = Inr legal" and "offset \<in> set legal" and "length x0 \<le> offset"
  shows "\<exists>k x m. k0 \<le> k \<and> cc_encode w e (take k t) = Inr x \<and> length x = offset \<and>
    cc_encode w e (take (k - k0) (drop k0 t)) = Inr m \<and> slice (length x0) offset encoded = m"
proof -
  obtain k1 x1 where k1: "k1 \<le> length t" "cc_encode w e (take k1 t) = Inr x1" "offset = length x1"
    using boundaries_prefixes [OF assms(1,4,5)] by blast
  obtain k x where k: "k0 \<le> k" "cc_encode w e (take k t) = Inr x" "offset = length x"
  proof (cases "k0 \<le> k1")
    case True
    then show ?thesis using k1 that by blast
  next
    case False
    then have "take k0 t = take k1 t @ take (k0 - k1) (drop k1 t)" by (simp add: take_add [symmetric])
    then have "length x1 \<le> length x0" using assms(3) k1(2) stateless_append [OF assms(1)] by force
    then show ?thesis using that [of k0 x0] assms(3,6) k1(3) by simp
  qed
  have "take k t = take k0 t @ take (k - k0) (drop k0 t)" using k(1) by (simp add: take_add [symmetric])
  then obtain m where m: "cc_encode w e (take (k - k0) (drop k0 t)) = Inr m" "x = x0 @ m"
    using k(2) assms(3) stateless_append [OF assms(1), of "take k0 t" "take (k - k0) (drop k0 t)" x] by auto
  obtain z where "encoded = x @ z"
    using assms(2) k(2) stateless_append [OF assms(1), of "take k t" "drop k t" encoded] by auto
  then have "slice (length x0) offset encoded = m" using m(2) k(3) by (simp add: slice_def)
  with k m(1) show ?thesis by auto
qed

lemma spliced_woven:
  assumes "stateless w (fx_encoding fx)" and "cc_encode w (fx_encoding fx) t = Inr encoded"
    and "character_boundaries w t (fx_encoding fx) = Inr legal"
    and "splices_in_order w fx legal previous sps = Inr ()" and "spliced w fx encoded cursor sps = Inr bs"
    and "cc_encode w (fx_encoding fx) (take k t) = Inr x" and "cursor = length x" and "int cursor - 1 \<le> previous"
  shows "\<exists>ts. concat ts = drop k t \<and> length ts = length sps + 1 \<and> woven w (fx_encoding fx) ts (map sp_raw sps) = Inr bs"
  using assms(4-)
proof (induction sps arbitrary: previous cursor bs k x)
  case Nil
  obtain y where "cc_encode w (fx_encoding fx) (drop k t) = Inr y" "encoded = x @ y"
    using assms(2) Nil.prems(3) stateless_append [OF assms(1), of "take k t" "drop k t" encoded] by auto
  then show ?case using Nil.prems by (intro exI [of _ "[drop k t]"]) simp
next
  case (Cons sp sps)
  obtain offset rest where at: "resolve_splice_offset w fx sp = Inr offset" and legal: "offset \<in> int ` set legal" and "previous < offset"
    and order: "splices_in_order w fx legal offset sps = Inr ()" and rest: "spliced w fx encoded (nat offset) sps = Inr rest"
    and bs: "bs = slice cursor (nat offset) encoded @ sp_raw sp @ rest"
    using Cons.prems(1,2) by auto
  then have "nat offset \<in> set legal" "length x \<le> nat offset" using Cons.prems(4,5) by auto
  from legal_cut [OF assms(1,2) Cons.prems(3) assms(3) this] obtain k' x' m where
    cut: "k \<le> k'" "cc_encode w (fx_encoding fx) (take k' t) = Inr x'" "length x' = nat offset"
      "cc_encode w (fx_encoding fx) (take (k' - k) (drop k t)) = Inr m" "slice (length x) (nat offset) encoded = m"
    by blast
  obtain ts where ts: "concat ts = drop k' t" "length ts = length sps + 1" "woven w (fx_encoding fx) ts (map sp_raw sps) = Inr rest"
    using Cons.IH [OF order rest cut(2)] cut(3) legal by auto
  have "take (k' - k) (drop k t) @ drop k' t = drop k t"
    using cut(1) append_take_drop_id [of "k' - k" "drop k t"] by (simp add: drop_drop)
  then show ?case
    using ts cut Cons.prems(4) bs by (intro exI [of _ "take (k' - k) (drop k t) # ts"]) (simp add: and_then_def)
qed


lemma parse_fixture_validated: "parse_fixture w entry = Inr fx \<Longrightarrow> validate_fixture w fx = Inr ()"
  by (auto simp: parse_fixture_def split: option.splits)

text \<open>C36: Raw bytes are spliced between characters, never into one.  For a literal fixture the manifest
  accepted, in an encoding without state, the file that \<open>_write_literal\<close> leaves is the declared content cut into
  texts, each of them in that encoding, with the raw bytes of the splices between them in declared order, and
  nothing else: no byte of the content is lost or repeated, and no character is cut in two.\<close>

theorem spliced_between_characters:
  assumes "parse_fixture w entry = Inr fx" and "fx_generator fx = Literal" and "fx_splices fx \<noteq> []"
    and "stateless w (fx_encoding fx)" and "reliable d same" and "write_literal w d fx s = (Inr u, s')"
  shows "\<exists>content ts bs. fx_content fx = Some content \<and> concat ts = content \<and> length ts = length (fx_splices fx) + 1 \<and>
    woven w (fx_encoding fx) ts (map sp_raw (fx_splices fx)) = Inr bs \<and> contents d s' (fx_name fx) = Some bs"
proof -
  note valid = parse_fixture_validated [OF assms(1)]
  obtain content where content: "fx_content fx = Some content"
    using valid assms(2) by (auto simp: validate_fixture_def validate_kind_def validate_literal_def)
  obtain legal where plain: "\<not> fx_bom fx" and legal: "character_boundaries w content (fx_encoding fx) = Inr legal"
    and order: "splices_in_order w fx legal (-1) (fx_splices fx) = Inr ()"
    using valid assms(3) content by (auto simp: validate_fixture_def validate_splices_def content_text_def)
  obtain encoded bs where encoded: "cc_encode w (fx_encoding fx) content = Inr encoded"
    and bs: "spliced w fx encoded 0 (fx_splices fx) = Inr bs" and "dk_write d (fx_name fx) bs s = Inr s'"
    using assms(3,6) content plain
    by (auto simp: write_literal_def pr_bind_Inr literal_bytes_def mark_of_def encode_text_def encoding_failed_def split: sum.splits)
  then have "contents d s' (fx_name fx) = Some bs" using assms(5) unfolding reliable_def by metis
  moreover have "cc_encode w (fx_encoding fx) (take 0 content) = Inr []" using assms(4) by (simp add: stateless_def)
  from spliced_woven [OF assms(4) encoded legal order bs this]
  obtain ts where "concat ts = content" "length ts = length (fx_splices fx) + 1"
    "woven w (fx_encoding fx) ts (map sp_raw (fx_splices fx)) = Inr bs" by auto
  ultimately show ?thesis using content by blast
qed

section \<open>A small corpus\<close>

text \<open>A file system as a list of what was written, the last write first, and codecs of one byte for each character.\<close>

definition demo_disk :: "(string \<times> string) list disk" where
  "demo_disk =
     \<lparr>dk_mkdir = (\<lambda>_ s. Inr s), dk_write = (\<lambda>p bs s. Inr ((p, bs) # s)),
      dk_read = (\<lambda>p s. case map_of s p of None \<Rightarrow> Inl (Exn PyOSError []) | Some bs \<Rightarrow> Inr bs),
      dk_is_file = (\<lambda>p s. p \<in> fst ` set s)\<rparr>"

lemma demo_disk_reliable: "reliable demo_disk (=)"
  by (auto simp: reliable_def demo_disk_def contents_def)

definition corpus_demo_columns :: yaml_value where
  "corpus_demo_columns = YList [YMap [(YStr ''id'', YStr ''1'')], YMap [(YStr ''id'', YStr ''2'')], YMap [(YStr ''id'', YStr ''3'')]]"

definition demo_document :: yaml_value where
  "demo_document = YMap
     [(YStr ''version'', YInt 1), (YStr ''master_seed'', YStr ''seed''),
      (YStr ''fixtures'', YList
         [YMap [(YStr ''name'', YStr ''rows.csv''), (YStr ''generator'', YStr ''literal_unicode''), (YStr ''rows_spec'', corpus_demo_columns)],
          YMap [(YStr ''name'', YStr ''parts''), (YStr ''generator'', YStr ''multipart''), (YStr ''wraps'', YStr ''rows.csv''), (YStr ''parts'', YInt 2)],
          YMap [(YStr ''name'', YStr ''rows.zip''), (YStr ''generator'', YStr ''wrapper''), (YStr ''wraps'', YStr ''rows.csv''),
                (YStr ''compression'', YStr ''zip'')]])]"

definition demo_splices :: yaml_value where
  "demo_splices = YMap
     [(YStr ''name'', YStr ''cut.csv''), (YStr ''generator'', YStr ''literal''), (YStr ''content'', YStr ''id,name''),
      (YStr ''splices'', YList [YMap [(YStr ''bytes'', YStr ''(''), (YStr ''offset'', YInt 3)]])]"

definition demo_corpus :: corpus_world where
  "demo_corpus =
     \<lparr>cc_lookup = (\<lambda>e. Inr e), cc_encode = (\<lambda>_ t. Inr t), cc_decode = (\<lambda>_ bs. Inr bs), cc_incremental = (\<lambda>_. Inr ()),
      cc_feed = (\<lambda>_ _ t. Inr t), cc_finish = (\<lambda>_ _. Inr []), cc_unicode_name = (\<lambda>_. None),
      cc_yaml = (\<lambda>t. if t = ''corpus'' then Inr demo_document else Inl (Exn YamlError [])),
      cw_normalize = (\<lambda>_ t. t), cw_sha256 = (\<lambda>bs. replicate 64 (if even (length bs) then CHR ''a'' else CHR ''b'')),
      cw_random = (\<lambda>_ _. 1 / 2), cw_gzip = (\<lambda>_ _ blocks. Inr (concat blocks)), cw_zip = (\<lambda>n bs. Inr (n @ bs))\<rparr>"

definition corpus_demo_args :: corpus_args where
  "corpus_demo_args = \<lparr>ca_manifest = ''corpus.yaml'', ca_fast = False, ca_digest_prefix = ''csv''\<rparr>"

definition demo_repository :: "(string \<times> string) list" where
  "demo_repository = [(''corpus.yaml'', ''corpus'')]"

definition demo_manifest :: "exn + manifest" where
  "demo_manifest = load_manifest demo_corpus (read_text demo_corpus demo_disk demo_repository) ''corpus.yaml''"

definition demo_generated :: "(exn + int) \<times> (string \<times> string) list \<times> (string \<times> string) list" where
  "demo_generated = command_generate demo_corpus demo_disk corpus_demo_args (Some ''sums'') ([], demo_repository)"

definition demo_verified :: "exn + int" where
  "demo_verified = command_verify demo_corpus demo_disk [] corpus_demo_args ''sums'' (snd (snd demo_generated))"

lemma demo_corpus_hex64: "\<forall>bs. hex64 (cw_sha256 demo_corpus bs)"
proof
  fix bs :: string
  have "hex64 (replicate 64 CHR ''a'')" "hex64 (replicate 64 CHR ''b'')" by code_simp+
  then show "hex64 (cw_sha256 demo_corpus bs)" by (simp add: demo_corpus_def)
qed

lemma generated_corpus_verifies_witness:
  "fst demo_generated = Inr 0 \<and> demo_verified = Inr 0"
proof -
  have run: "fst demo_generated = Inr 0" by code_simp
  then obtain s' r' where generated: "command_generate demo_corpus demo_disk corpus_demo_args (Some ''sums'') ([], demo_repository) = (Inr 0, (s', r'))"
    unfolding demo_generated_def by (metis prod.collapse)
  have "case demo_manifest of Inl _ \<Rightarrow> False | Inr mf \<Rightarrow> list_all (\<lambda>fx. listed_name (fx_name fx)) (mf_fixtures mf)" by code_simp
  then obtain mf where mf: "demo_manifest = Inr mf" and names: "\<forall>fx \<in> set (mf_fixtures mf). listed_name (fx_name fx)"
    by (auto simp: list_all_iff split: sum.splits)
  have "case demo_verified of Inl _ \<Rightarrow> False | Inr _ \<Rightarrow> True" by code_simp
  then obtain code where code: "demo_verified = Inr code" by (auto split: sum.splits)
  have "listed_name (rstrip_slash ''csv'')" by code_simp
  then have "code = 0"
    using generated_corpus_verifies [OF demo_disk_reliable _ _ _ names _ demo_corpus_hex64 _ generated, of "[]"] mf code generated
    by (simp add: demo_manifest_def corpus_demo_args_def demo_verified_def demo_generated_def) (simp add: demo_disk_def demo_corpus_def)
  with run code show ?thesis by simp
qed


lemma part_name_inj: "part_name name i = part_name name j \<Longrightarrow> i = j"
proof -
  assume "part_name name i = part_name name j"
  then have "nat_of_digits (replicate (5 - length (show_nat i)) CHR ''0'' @ show_nat i) =
      nat_of_digits (replicate (5 - length (show_nat j)) CHR ''0'' @ show_nat j)"
    by (simp add: part_name_def)
  then show "i = j" by (simp add: nat_of_digits_append nat_of_digits_zeros nat_of_show_nat del: show_nat.simps)
qed

definition demo_part_set :: fixture where
  "demo_part_set =
     (case demo_manifest of Inr mf \<Rightarrow> mf_fixtures mf ! 1 | Inl _ \<Rightarrow> undefined)"

definition corpus_demo_rows :: string where
  "corpus_demo_rows = ''id'' @ [LF] @ ''1'' @ [LF] @ ''2'' @ [LF] @ ''3'' @ [LF]"

definition demo_parts :: "(exn + unit) \<times> (string \<times> string) list" where
  "demo_parts = write_multipart demo_corpus demo_disk demo_part_set [(''rows.csv'', corpus_demo_rows)]"

lemma multipart_parts_exact_witness:
  "fst demo_parts = Inr () \<and>
   concat (map (\<lambda>i. the (contents demo_disk (snd demo_parts) (part_name ''parts'' i))) [0..<2]) = corpus_demo_rows"
proof -
  have run: "fst demo_parts = Inr ()" by code_simp
  then obtain s' where written: "write_multipart demo_corpus demo_disk demo_part_set [(''rows.csv'', corpus_demo_rows)] = (Inr (), s')"
    unfolding demo_parts_def by (metis prod.collapse)
  have fx: "fx_name demo_part_set = ''parts'' \<and> fx_parts demo_part_set = 2 \<and> fx_wraps demo_part_set = Some ''rows.csv'' \<and>
    fx_line_terminator demo_part_set \<noteq> []" by code_simp
  then have "cc_encode demo_corpus (fx_encoding demo_part_set) (fx_line_terminator demo_part_set) \<noteq> Inr []"
    by (simp add: demo_corpus_def)
  moreover have "contents demo_disk [(''rows.csv'', corpus_demo_rows)] ''rows.csv'' = Some corpus_demo_rows"
    by (simp add: contents_def demo_disk_def)
  ultimately show ?thesis
    using multipart_parts_exact [OF demo_disk_reliable _ _ _ written] part_name_inj fx run written
    by (auto simp: demo_parts_def)
qed

definition demo_literal :: "exn + fixture" where
  "demo_literal = parse_fixture demo_corpus demo_splices"

definition demo_cut :: "(exn + unit) \<times> (string \<times> string) list" where
  "demo_cut = (case demo_literal of Inl e \<Rightarrow> (Inl e, []) | Inr fx \<Rightarrow> write_literal demo_corpus demo_disk fx [])"

lemma demo_corpus_stateless: "stateless demo_corpus e"
  by (simp add: stateless_def demo_corpus_def and_then_def)

lemma spliced_between_characters_witness:
  "\<exists>ts. concat ts = ''id,name'' \<and> length ts = 2 \<and> woven demo_corpus ''utf-8'' ts [''(''] = Inr ''id,(name'' \<and>
    contents demo_disk (snd demo_cut) ''cut.csv'' = Some ''id,(name''"
proof -
  have "case demo_literal of Inl _ \<Rightarrow> False | Inr fx \<Rightarrow> fx_generator fx = Literal \<and> fx_encoding fx = ''utf-8'' \<and>
      fx_content fx = Some ''id,name'' \<and> map sp_raw (fx_splices fx) = [''(''] \<and> fx_name fx = ''cut.csv''" by code_simp
  then obtain fx where fx: "demo_literal = Inr fx" "fx_generator fx = Literal" "fx_encoding fx = ''utf-8''"
    "fx_content fx = Some ''id,name''" "map sp_raw (fx_splices fx) = [''('']" "fx_name fx = ''cut.csv''"
    by (auto split: sum.splits)
  have "fst demo_cut = Inr ()" by code_simp
  then obtain s' where cut: "write_literal demo_corpus demo_disk fx [] = (Inr (), s')"
    unfolding demo_cut_def fx(1) by (simp add: prod_eq_iff)
  have left: "contents demo_disk (snd demo_cut) ''cut.csv'' = Some ''id,(name''" by code_simp
  have "fx_splices fx \<noteq> []" "length (fx_splices fx) = 1" using fx(5) by auto
  with spliced_between_characters [OF fx(1) [unfolded demo_literal_def] fx(2) _ demo_corpus_stateless demo_disk_reliable cut] fx
  obtain ts bs where "concat ts = ''id,name''" "length ts = 2" "woven demo_corpus ''utf-8'' ts [''(''] = Inr bs"
    "contents demo_disk s' ''cut.csv'' = Some bs"
    by auto
  moreover have "snd demo_cut = s'" unfolding demo_cut_def fx(1) using cut by simp
  ultimately show ?thesis using left by auto
qed


section \<open>Manifests that promise more than is generated\<close>

text \<open>
  The message that refuses to compress a part set says to declare a wrapper over it instead: such a wrapper is
  accepted, and its target, a directory, is never found.  A name with a line break is accepted and listed, and
  the listing is then refused.  A digest is not checked to be hexadecimal.
\<close>

definition corpus_of :: "yaml_value list \<Rightarrow> corpus_world" where
  "corpus_of fixtures = demo_corpus
     \<lparr>cc_yaml := (\<lambda>_. Inr (YMap [(YStr ''version'', YInt 1), (YStr ''master_seed'', YStr ''seed''), (YStr ''fixtures'', YList fixtures)]))\<rparr>"

definition wrapped_parts :: corpus_world where
  "wrapped_parts = corpus_of
     [YMap [(YStr ''name'', YStr ''rows.csv''), (YStr ''generator'', YStr ''literal_unicode''), (YStr ''rows_spec'', corpus_demo_columns)],
      YMap [(YStr ''name'', YStr ''parts''), (YStr ''generator'', YStr ''multipart''), (YStr ''wraps'', YStr ''rows.csv''), (YStr ''parts'', YInt 2)],
      YMap [(YStr ''name'', YStr ''parts.zip''), (YStr ''generator'', YStr ''wrapper''), (YStr ''wraps'', YStr ''parts''),
            (YStr ''compression'', YStr ''zip'')]]"

definition broken_name :: corpus_world where
  "broken_name = corpus_of
     [YMap [(YStr ''name'', YStr (''a'' @ [LF] @ ''b'')), (YStr ''generator'', YStr ''literal''), (YStr ''content'', YStr ''x'')]]"

lemma wrapped_parts_never_generated:
  "case parse_manifest wrapped_parts [] of Inl _ \<Rightarrow> False
   | Inr mf \<Rightarrow> fst (generate_corpus wrapped_parts demo_disk mf False []) = Inl generator_error"
  by code_simp

definition broken_listing :: "(exn + int) \<times> (exn + int)" where
  "broken_listing =
     (case command_generate broken_name demo_disk corpus_demo_args (Some ''sums'') ([], demo_repository) of (r, (_, repository)) \<Rightarrow>
       (r, command_verify broken_name demo_disk [] corpus_demo_args ''sums'' repository))"

lemma broken_name_never_verifies: "broken_listing = (Inr 0, Inl digest_error)"
  by code_simp

lemma digests_need_not_be_hexadecimal:
  "parse_digests (replicate 64 CHR ''z'' @ ''  rows.csv'') = Inr [(''rows.csv'', replicate 64 CHR ''z'')]"
  by code_simp

end
