(* ===== verification/CorpusColumns.thy ===== *)
theory CorpusColumns
  imports Corpus DigitTexts
begin

text \<open>
  What the columns of a generated table hold: the amounts of a \<open>decimal\<close> column read back as exact decimals
  within its bounds, and the declarations for which the renderer of \<open>tools/corpus/generators.py\<close> does something
  its documentation does not say.
\<close>

section \<open>Amounts\<close>

lemma zero_padded_nat:
  assumes "zero_padded width n = Inr t" and "0 \<le> n"
  shows "t = replicate (nat width - length (show_nat (nat n))) CHR ''0'' @ show_nat (nat n) \<and> length (show_nat (nat n)) \<le> int_max_str_digits"
  using assms by (auto simp: zero_padded_def Let_def split: if_splits)

lemma zero_padded_digits:
  assumes "zero_padded width n = Inr t" and "0 \<le> n"
  shows "list_all is_digit t \<and> nat_of_digits t = nat n \<and> t \<noteq> []"
proof -
  have "list_all is_digit (replicate k CHR ''0'')" for k by (induction k) (simp_all add: is_digit_def)
  moreover have "list_all is_digit (show_nat m)" for m by (simp add: list_all_iff show_nat_digits)
  ultimately show ?thesis using zero_padded_nat [OF assms] by (simp add: nat_of_digits_append)
qed

lemma zero_padded_length:
  assumes "zero_padded width n = Inr t" and "0 \<le> n" and "n < 10 ^ nat width" and "0 < width"
  shows "length t = nat width"
proof -
  have "length (show_nat (nat n)) \<le> nat width"
  proof (cases "nat n = 0")
    case True
    have "length (show_nat 0) = 1" by code_simp
    with True assms(4) show ?thesis by simp
  next
    case False
    then have "10 ^ (length (show_nat (nat n)) - 1) \<le> nat n" using show_nat_bounds [of "nat n"] by linarith
    also have "nat n < 10 ^ nat width" using assms(2,3) by (simp add: nat_less_iff)
    finally have "length (show_nat (nat n)) - 1 < nat width" by (simp add: power_strict_increasing_iff)
    then show ?thesis by simp
  qed
  then show ?thesis using zero_padded_nat [OF assms(1,2)] by simp
qed

text \<open>An amount that is not negative prints as the decimal it stands for.\<close>

lemma units_text_reads_back:
  assumes "units_text units scale ''.'' = Inr t" and "0 \<le> units" and "0 < scale" and "scale \<le> 1000"
  shows "decimal_of_string t = Some (DFin False (nat units) (- scale))"
proof -
  let ?power = "10 ^ nat scale :: int"
  obtain whole fraction where whole: "zero_padded 0 (units div ?power) = Inr whole"
    and fraction: "zero_padded scale (units mod ?power) = Inr fraction" and t: "t = whole @ ''.'' @ fraction"
    using assms(1,3) by (auto simp: units_text_def Let_def)
  have pos: "0 \<le> units div ?power" "0 \<le> units mod ?power" "units mod ?power < ?power"
    using assms(2) by (simp_all add: pos_imp_zdiv_nonneg_iff)
  note w = zero_padded_digits [OF whole pos(1)] and f = zero_padded_digits [OF fraction pos(2)]
  have len: "length fraction = nat scale" using zero_padded_length [OF fraction pos(2,3) assms(3)] .
  have sum: "nat_of_digits (whole @ fraction) = nat (units div ?power) * 10 ^ nat scale + nat (units mod ?power)"
    using w f len by (simp add: nat_of_digits_append)
  have "int (nat_of_digits (whole @ fraction)) = units div ?power * ?power + units mod ?power" using pos by (simp add: sum)
  also have "\<dots> = units" by (rule div_mult_mod_eq)
  finally have digits: "nat_of_digits (whole @ fraction) = nat units" by simp
  have "length whole \<le> int_max_str_digits" using zero_padded_nat [OF whole pos(1)] by simp
  then have "length (whole @ fraction) \<le> 5300" using len assms(4) by (simp add: int_max_str_digits_def)
  moreover have "nat units < 10 ^ length (whole @ fraction)"
    using digits_bound [of "whole @ fraction"] w f digits by simp
  ultimately have "length (show_nat (nat units)) \<le> 5301"
  proof (cases "nat units = 0")
    case True
    have "length (show_nat 0) = 1" by code_simp
    with True show ?thesis by simp
  next
    case False
    then have "(10 :: nat) ^ (length (show_nat (nat units)) - 1) \<le> nat units" using show_nat_bounds [of "nat units"] by linarith
    also note \<open>nat units < 10 ^ length (whole @ fraction)\<close>
    finally have "length (show_nat (nat units)) - 1 < length (whole @ fraction)" by (simp add: power_strict_increasing_iff)
    with \<open>length (whole @ fraction) \<le> 5300\<close> show ?thesis by simp
  qed
  then have range: "exponent_in_range (nat units) (- scale)"
    using assms(3,4) by (auto simp: exponent_in_range_def min_etiny_def max_emax_def)
  have plain: "c \<noteq> CHR ''_'' \<and> \<not> is_space c" if "c \<in> set t" for c
  proof (cases "c = CHR ''.''")
    case True
    have "\<not> is_space CHR ''.''" by code_simp
    with True show ?thesis by simp
  next
    case False
    then have "is_digit c" using that w f by (auto simp: t list_all_iff)
    then show ?thesis using digit_not_special by blast
  qed
  then have "filter (\<lambda>c. c \<noteq> CHR ''_'') (strip t) = t"
    by (simp add: strip_no_space filter_id_conv)
  moreover have "take_sign t = (False, t)"
    using w digit_not_special [of "hd whole"] by (cases whole) (auto simp: t take_sign_def)
  moreover have "parse_unsigned t = Some (nat units, - scale)"
    using parse_unsigned_fractional [of whole fraction 0] w f len digits assms(3) by (simp add: t exponent_text_def)
  ultimately show ?thesis using range by (simp add: decimal_of_string_def)
qed

lemma drawn_below_range:
  assumes "drawn_below r n = Inr i" and "0 \<le> r" and "0 < n"
  shows "0 \<le> i \<and> i < n"
proof -
  obtain x where x: "double_of_rat (of_int n) = FFin x" and i: "i = min (let y = round_double (r * x) in if 0 \<le> y then \<lfloor>y\<rfloor> else \<lceil>y\<rceil>) (n - 1)"
    using assms(1) by (auto simp: drawn_below_def scaled_draw_def Let_def split: pyfloat.splits)
  have "0 \<le> x" using x round_double_nonneg [of "of_int n"] assms(3) by (auto simp: double_of_rat_def Let_def split: if_splits)
  then have "0 \<le> round_double (r * x)" using assms(2) by (simp add: round_double_nonneg)
  then show ?thesis using i assms(3) by (simp add: Let_def)
qed

text \<open>A bound whose digits the context keeps, in a range where its exponent is no matter.\<close>

definition short_decimal :: "decimal \<Rightarrow> bool" where
  "short_decimal r \<longleftrightarrow> (case r of DFin _ c e \<Rightarrow> length (show_nat c) \<le> ctx_prec \<and> \<bar>e\<bar> \<le> 1000 | _ \<Rightarrow> False)"

lemma scaleb_exact:
  assumes "short_decimal m" and "decimal_value m = Some v" and "0 < scale" and "scale \<le> 1000"
    and "decimal_scaleb m scale = Inr m'" and "integer_of rounding m' = Inr n"
  shows "n = rounding (v * 10 ^ nat scale)"
proof -
  obtain neg c e where m: "m = DFin neg c e" "length (show_nat c) \<le> ctx_prec" "\<bar>e\<bar> \<le> 1000"
    using assms(1) by (auto simp: short_decimal_def split: decimal.splits)
  have pow: "pow10 (e + scale) = pow10 e * 10 ^ nat scale" using pow10_add [of e "nat scale"] assms(3) by simp
  have v: "v = (if neg then -1 else 1) * of_nat c * pow10 e" using assms(2) m(1) by simp
  have "decimal_value m' = Some (v * 10 ^ nat scale)"
  proof (cases "c = 0")
    case True
    then show ?thesis using assms(5) m v by (auto simp: decimal_fix_def split: if_splits)
  next
    case False
    then have "decimal_fix neg c (e + scale) = DFin neg c (e + scale)"
      using m assms(3,4) by (intro decimal_fix_id) (simp_all add: ctx_prec_def ctx_etiny_def)
    then have "m' = DFin neg c (e + scale)" using assms(5) m(1) by (simp split: if_splits)
    then show ?thesis by (simp add: v pow)
  qed
  then show ?thesis using assms(6) by (auto simp: integer_of_def split: decimal.splits)
qed

text \<open>C37: The amounts of a decimal column are exact and within its bounds.  For bounds of at most 28 digits, the lower
  one not negative, and a scale from 1 to 1000 at which some amount lies between them, every value the renderer produces is the
  text of a decimal with exactly that scale, which reads back as an amount from the declared minimum to the declared
  maximum, both included, whatever the random stream returns and however its doubles round.\<close>

theorem decimal_cells_in_bounds:
  assumes "renderer_for (DecimalColumn minimum maximum scale ''.'') = Inr r" and "render random r row t = (Inr cell, t')"
    and "short_decimal minimum" and "short_decimal maximum" and "0 < scale" and "scale \<le> 1000"
    and "decimal_value minimum = Some a" and "decimal_value maximum = Some b" and "0 \<le> a"
    and "\<exists>k :: int. a \<le> of_int k / 10 ^ nat scale \<and> of_int k / 10 ^ nat scale \<le> b" and "\<forall>n. 0 \<le> random n"
  shows "\<exists>c v. decimal_of_string cell = Some (DFin False c (- scale)) \<and> decimal_value (DFin False c (- scale)) = Some v \<and> a \<le> v \<and> v \<le> b"
proof -
  let ?p = "10 ^ nat scale :: rat"
  have pos: "0 < ?p" by simp
  obtain lowest low highest high where "decimal_scaleb minimum scale = Inr lowest" "integer_of ceiling lowest = Inr low"
    "decimal_scaleb maximum scale = Inr highest" "integer_of floor highest = Inr high"
    and r: "r = RenderUnits low (high - low + 1) scale ''.''"
    using assms(1,5) by (auto simp: decimal_renderer_def)
  then have low: "low = \<lceil>a * ?p\<rceil>" and high: "high = \<lfloor>b * ?p\<rfloor>"
    using scaleb_exact [OF assms(3,7,5,6)] scaleb_exact [OF assms(4,8,5,6)] by blast+
  obtain k :: int where "a * ?p \<le> of_int k" "of_int k \<le> b * ?p"
    using assms(10) pos by (auto simp: field_simps)
  then have "low \<le> k" "k \<le> high" by (simp_all add: low high ceiling_le le_floor_iff)
  obtain i where i: "drawn_below (random (tw_drawn t)) (high - low + 1) = Inr i" and cell: "units_text (low + i) scale ''.'' = Inr cell"
    using assms(2) by (auto simp: render_def r pr_bind_Inr draw_def)
  have "0 \<le> i" "i \<le> high - low"
    using drawn_below_range [OF i] assms(11) \<open>low \<le> k\<close> \<open>k \<le> high\<close> by auto
  moreover have "0 \<le> a * ?p" using assms(9) by simp
  then have "0 \<le> low" using ceiling_mono [of 0 "a * ?p"] by (simp add: low)
  ultimately have units: "0 \<le> low + i" "low \<le> low + i" "low + i \<le> high" by simp_all
  have "pow10 (- scale) = 1 / ?p" using assms(5) by (simp add: pow10_def)
  then have v: "decimal_value (DFin False (nat (low + i)) (- scale)) = Some (of_int (low + i) / ?p)"
    using units(1) by simp
  have "a * ?p \<le> of_int low" "of_int high \<le> b * ?p" by (simp_all add: low high)
  moreover have "(of_int low :: rat) \<le> of_int (low + i)" "(of_int (low + i) :: rat) \<le> of_int high" using units(2,3) by (simp_all only: of_int_le_iff)
  ultimately have "a * ?p \<le> of_int (low + i)" "of_int (low + i) \<le> b * ?p" using order_trans by blast+
  then have "a \<le> of_int (low + i) / ?p" "of_int (low + i) / ?p \<le> b" using pos by (simp_all only: pos_le_divide_eq pos_divide_le_eq)
  with v units_text_reads_back [OF cell units(1) assms(5,6)] show ?thesis by blast
qed


text \<open>A small number of units, drawn with one half.\<close>

lemma drawn_below_half:
  assumes "is_double (of_int n)" and "\<bar>n\<bar> < 1000000" and "round_double (1 / 2 * of_int n) = y"
  shows "drawn_below (1 / 2) n = Inr (min (if 0 \<le> y then \<lfloor>y\<rfloor> else \<lceil>y\<rceil>) (n - 1))"
proof -
  have "\<bar>of_int n :: rat\<bar> < 1000000" using assms(2) by (metis of_int_abs of_int_less_iff of_int_numeral)
  from double_of_rat_small [OF assms(1) this] show ?thesis
    using assms(3) by (simp add: drawn_below_def scaled_draw_def and_then_def Let_def)
qed

lemma render_units:
  "render random (RenderUnits low extent scale separator) row t =
     (and_then (drawn_below (random (tw_drawn t)) extent) (\<lambda>i. units_text (low + i) scale separator), t\<lparr>tw_drawn := tw_drawn t + 1\<rparr>)"
  by (simp add: render_def pr_defs draw_def and_then_def split: sum.split)

text \<open>Prices from 1.00 to 1.50.\<close>

definition price_minimum :: decimal where
  "price_minimum = DFin False 100 (-2)"

definition price_maximum :: decimal where
  "price_maximum = DFin False 150 (-2)"

definition price_writer :: table_writer where
  "price_writer = new_writer\<lparr>tw_drawn := 1\<rparr>"

lemma decimal_cells_in_bounds_witness:
  "\<exists>r. renderer_for (DecimalColumn price_minimum price_maximum 2 ''.'') = Inr r \<and>
     render (\<lambda>_. 1 / 2) r 0 new_writer = (Inr ''1.25'', price_writer) \<and>
     (\<exists>c v. decimal_of_string ''1.25'' = Some (DFin False c (-2)) \<and> decimal_value (DFin False c (-2)) = Some v \<and> 1 \<le> v \<and> v \<le> 3 / 2)"
proof -
  have r: "renderer_for (DecimalColumn price_minimum price_maximum 2 ''.'') = Inr (RenderUnits 100 51 2 ''.'')" by code_simp
  have "is_double (of_int 51)" by code_simp
  moreover have "round_double (1 / 2 * of_int 51) = 51 / 2" by code_simp
  moreover have "\<lfloor>51 / 2 :: rat\<rfloor> = 25" by code_simp
  ultimately have "drawn_below (1 / 2) 51 = Inr 25" using drawn_below_half [of 51 "51 / 2"] by simp
  moreover have "units_text 125 2 ''.'' = Inr ''1.25''" by code_simp
  ultimately have run: "render (\<lambda>_. 1 / 2) (RenderUnits 100 51 2 ''.'') 0 new_writer = (Inr ''1.25'', price_writer)"
    by (simp add: render_units and_then_def price_writer_def new_writer_def)
  have "short_decimal price_minimum" "short_decimal price_maximum" by code_simp+
  moreover have "decimal_value price_minimum = Some 1" "decimal_value price_maximum = Some (3 / 2)" by code_simp+
  moreover have "\<exists>k :: int. (1 :: rat) \<le> of_int k / 10 ^ nat 2 \<and> of_int k / 10 ^ nat 2 \<le> (3 / 2 :: rat)"
    by (rule exI [of _ 125]) simp
  ultimately show ?thesis
    using decimal_cells_in_bounds [OF r run, of 1 "3 / 2"] r run by simp
qed

section \<open>Declarations the renderer takes otherwise\<close>

text \<open>
  A negative amount is divided towards minus infinity, so its text is another amount; without an amount of the
  declared scale between the bounds, the text lies outside them.
\<close>

definition rendered_amount :: "decimal \<Rightarrow> decimal \<Rightarrow> exn + string" where
  "rendered_amount minimum maximum =
     and_then (renderer_for (DecimalColumn minimum maximum 2 ''.'')) (\<lambda>r. fst (render (\<lambda>_. 1 / 2) r 0 new_writer))"

lemma negative_amount_misprinted: "rendered_amount (DFin True 150 (-2)) (DFin True 150 (-2)) = Inr ''-2.50''"
proof -
  have "renderer_for (DecimalColumn (DFin True 150 (-2)) (DFin True 150 (-2)) 2 ''.'') = Inr (RenderUnits (-150) 1 2 ''.'')" by code_simp
  moreover have "is_double (of_int 1)" by code_simp
  moreover have "round_double (1 / 2 * of_int 1) = 1 / 2" by code_simp
  moreover have "\<lfloor>1 / 2 :: rat\<rfloor> = 0" by code_simp
  moreover have "units_text (-150) 2 ''.'' = Inr ''-2.50''" by code_simp
  ultimately show ?thesis
    using drawn_below_half [of 1 "1 / 2"] by (simp add: rendered_amount_def render_units and_then_def)
qed

lemma empty_interval_rendered: "rendered_amount (DFin False 1 (-3)) (DFin False 9 (-3)) = Inr ''0.00''"
proof -
  have "renderer_for (DecimalColumn (DFin False 1 (-3)) (DFin False 9 (-3)) 2 ''.'') = Inr (RenderUnits 1 0 2 ''.'')" by code_simp
  moreover have "is_double (of_int 0)" by code_simp
  moreover have "round_double (1 / 2 * of_int 0) = 0" by code_simp
  moreover have "units_text 0 2 ''.'' = Inr ''0.00''" by code_simp
  ultimately show ?thesis
    using drawn_below_half [of 0 0] by (simp add: rendered_amount_def render_units and_then_def)
qed

text \<open>A bound that is no number is not a \<open>ManifestError\<close> but the signal of the comparison.\<close>

definition unordered_column :: yaml_value where
  "unordered_column = YMap
     [(YStr ''kind'', YStr ''decimal''), (YStr ''min'', YStr ''NaN''), (YStr ''max'', YStr ''1''), (YStr ''scale'', YInt 2)]"

lemma unordered_bound_escapes: "parse_column unordered_column = Inl (Exn InvalidOperation [])"
  by code_simp

end
