(* ===== verification/DatedSeries.thy ===== *)
theory DatedSeries
  imports Corpus PyDates
begin

text \<open>
  The dated backfill corpus (\<open>tools/corpus/dated_series.py\<close>): one file for each day, a gap, a change of header, a late
  row, and for customers the roster that every day sends in full, with the anomalies the versioned dimension is
  tested on.  A date is its proleptic ordinal; a stream of random numbers is a function of the draws made so far.
\<close>

section \<open>Datasets and draws\<close>

definition dataset_columns :: "(string \<times> string list) list" where
  "dataset_columns =
     [(''customers'', [''customer_id'', ''name'', ''country'', ''birth_date'', ''event_ts'', ''signup_country'']),
      (''orders'', [''order_id'', ''customer_id'', ''order_date'', ''amount''])]"

definition schema_change_column :: "string \<Rightarrow> string" where
  "schema_change_column dataset = (if dataset = ''customers'' then ''loyalty_tier'' else ''discount_code'')"

definition schema_change_values :: "string \<Rightarrow> string list" where
  "schema_change_values dataset =
     (if dataset = ''customers'' then [''bronze'', ''silver'', ''gold''] else [''NONE'', ''SAVE10'', ''SAVE20''])"

definition countries :: "string list" where
  "countries =
     [''PL'', ''US'', ''GB'', ''DE'', ''FR'', ''ES'', ''IT'', ''NL'', ''SE'', ''NO'',
      ''DK'', ''FI'', ''JP'', ''CN'', ''BR'', ''IN'', ''CA'', ''AU'']"

definition names_pool :: "string list" where
  "names_pool =
     [''Anna Kowalski'', ''Piotr Nowak'', ''Maria Wisniewska'', ''Jan Wojcik'',
      ''Emily Johnson'', ''James Smith'', ''Sophie Muller'', ''Lukas Schmidt'',
      ''Chiara Rossi'', ''Marco Bianchi'', ''Fatima Al-Sayed'', ''Ahmed Hassan'',
      ''Yuki Tanaka'', ''Haruto Sato'', ''Wei Zhang'', ''Li Chen'',
      ''Olga Ivanova'', ''Dmitri Petrov'', ''Lucas Silva'', ''Ana Santos'']"

definition birth_dates :: "string list" where
  "birth_dates =
     [''1950-03-14'', ''1958-09-18'', ''1964-06-11'', ''1970-05-06'',
      ''1976-07-08'', ''1982-04-30'', ''1988-12-01'', ''1994-10-19'']"

definition customer_id_base :: int where
  "customer_id_base = 2100100000"

definition order_id_base :: int where
  "order_id_base = 2110000000"

definition id_day_multiplier :: int where
  "id_day_multiplier = 10000"

definition order_customer_ids :: "string list" where
  "order_customer_ids = map (\<lambda>n. show_int (customer_id_base + int n)) [0..<30]"

definition amount_min :: decimal where
  "amount_min = DFin False 100 (-2)"

definition amount_max :: decimal where
  "amount_max = DFin False 999999 (-2)"

definition amount_scale :: int where
  "amount_scale = 2"

definition next_draw :: "(nat \<Rightarrow> rat) \<Rightarrow> (nat, rat) prog" where
  "next_draw random = pr_call (\<lambda>n. Inr (n + 1, random n))"

definition drawn_index :: "(nat \<Rightarrow> rat) \<Rightarrow> string list \<Rightarrow> (nat, int) prog" where
  "drawn_index random vs = pr_bind (next_draw random) (\<lambda>x. pr_lift (drawn_below x (int (length vs))))"

definition pick :: "(nat \<Rightarrow> rat) \<Rightarrow> string list \<Rightarrow> (nat, string) prog" where
  "pick random vs = pr_bind (drawn_index random vs) (\<lambda>i. pr_return (vs ! nat i))"

definition pick_excluding :: "(nat \<Rightarrow> rat) \<Rightarrow> string list \<Rightarrow> string \<Rightarrow> (nat, string) prog" where
  "pick_excluding random vs exclude =
     pr_bind (drawn_index random vs) (\<lambda>i.
       pr_return (if vs ! nat i = exclude then vs ! (nat (i + 1) mod length vs) else vs ! nat i))"

definition decimal_cell :: "(nat \<Rightarrow> rat) \<Rightarrow> decimal \<Rightarrow> decimal \<Rightarrow> int \<Rightarrow> (nat, string) prog" where
  "decimal_cell random minimum maximum scale =
     pr_bind (pr_lift (and_then (decimal_scaleb minimum scale) (integer_of ceiling))) (\<lambda>low.
     pr_bind (pr_lift (and_then (decimal_scaleb maximum scale) (integer_of floor))) (\<lambda>high.
     pr_bind (next_draw random) (\<lambda>x.
     pr_bind (pr_lift (drawn_below x (high - low + 1))) (\<lambda>i. pr_lift (units_text (low + i) scale ''.'')))))"

section \<open>Dates\<close>

text \<open>\<open>day + timedelta(days=n)\<close>; \<open>strftime\<close> does not pad the year.\<close>

definition add_to_day :: "int \<Rightarrow> int \<Rightarrow> exn + int" where
  "add_to_day day n = (if 1 \<le> day + n \<and> day + n \<le> max_ordinal then Inr (day + n) else Inl (Exn PyOverflowError []))"

definition compact_date :: "int \<Rightarrow> string" where
  "compact_date day = (let d = from_ordinal day in show_int (cv_year d) @ pad 2 (cv_month d) @ pad 2 (cv_day d))"

definition dashed_date :: "int \<Rightarrow> string" where
  "dashed_date day = (let d = from_ordinal day in show_int (cv_year d) @ ''-'' @ pad 2 (cv_month d) @ ''-'' @ pad 2 (cv_day d))"

definition event_ts_of :: "int \<Rightarrow> string" where
  "event_ts_of day = dashed_date day @ ''T08:15:00Z''"

section \<open>The request\<close>

record series_args =
  sa_dataset :: string
  sa_master_seed :: string
  sa_start_date :: int
  sa_num_days :: int
  sa_gap_day_index :: int
  sa_schema_change_day_index :: int
  sa_late_event_day_index :: int
  sa_late_event_offset_days :: int
  sa_rows_per_day :: int
  sa_attribute_change_day_index :: "int option"
  sa_attribute_change_member_index :: "int option"
  sa_late_correction_arrival_day_index :: "int option"
  sa_late_correction_member_index :: "int option"
  sa_late_correction_offset_days :: int
  sa_missing_customer_day_index :: "int option"
  sa_missing_customer_member_index :: "int option"
  sa_mass_delete_day_index :: "int option"
  sa_mass_delete_member_indices :: "int list option"

definition series_error :: exn where
  "series_error = Exn PyValueError []"

definition require_that :: "bool \<Rightarrow> exn + unit" where
  "require_that b = (if b then Inr () else Inl series_error)"

definition validate_customers_only_params :: "series_args \<Rightarrow> exn + unit" where
  "validate_customers_only_params a =
     require_that (sa_dataset a = ''customers'' \<or>
       list_all (\<lambda>v. v = None)
         [sa_attribute_change_day_index a, sa_attribute_change_member_index a, sa_late_correction_arrival_day_index a,
          sa_late_correction_member_index a, sa_missing_customer_day_index a, sa_missing_customer_member_index a,
          sa_mass_delete_day_index a] \<and> sa_mass_delete_member_indices a = None)"

definition validate_paired_params :: "series_args \<Rightarrow> exn + unit" where
  "validate_paired_params a =
     require_that
       ((sa_attribute_change_day_index a = None) = (sa_attribute_change_member_index a = None) \<and>
        (sa_late_correction_arrival_day_index a = None) = (sa_late_correction_member_index a = None) \<and>
        (sa_missing_customer_day_index a = None) = (sa_missing_customer_member_index a = None) \<and>
        (sa_mass_delete_day_index a = None) = (sa_mass_delete_member_indices a = None))"

text \<open>The (day, member) pairs the anomalies target, each with its label.\<close>

definition targeted :: "int option \<Rightarrow> int option \<Rightarrow> string \<Rightarrow> ((int \<times> int) \<times> string) list" where
  "targeted day member label = (case (day, member) of (Some i, Some m) \<Rightarrow> [((i, m), label)] | _ \<Rightarrow> [])"

definition anomaly_pairs :: "series_args \<Rightarrow> ((int \<times> int) \<times> string) list" where
  "anomaly_pairs a =
     targeted (sa_attribute_change_day_index a) (sa_attribute_change_member_index a) ''attribute_change'' @
     targeted (sa_late_correction_arrival_day_index a) (sa_late_correction_member_index a) ''late_correction'' @
     targeted (sa_missing_customer_day_index a) (sa_missing_customer_member_index a) ''missing_customer'' @
     (case (sa_mass_delete_day_index a, sa_mass_delete_member_indices a) of
        (Some i, Some ms) \<Rightarrow> map (\<lambda>m. ((i, m), ''mass_delete'')) ms | _ \<Rightarrow> [])"

fun no_collision_from :: "((int \<times> int) \<Rightarrow> string option) \<Rightarrow> ((int \<times> int) \<times> string) list \<Rightarrow> bool" where
  "no_collision_from seen [] = True"
| "no_collision_from seen ((key, label) # pairs) =
     ((seen key = None \<or> seen key = Some label) \<and> no_collision_from (seen(key \<mapsto> label)) pairs)"

definition check_no_anomaly_collisions :: "series_args \<Rightarrow> exn + unit" where
  "check_no_anomaly_collisions a = require_that (no_collision_from (\<lambda>_. None) (anomaly_pairs a))"


section \<open>The roster\<close>

record customer_baseline =
  cb_name :: string
  cb_country :: string
  cb_birth_date :: string
  cb_signup_country :: string

text \<open>\<open>values[i]\<close> of a tuple: a negative index counts from the end.\<close>

definition tuple_at :: "'a list \<Rightarrow> int \<Rightarrow> exn + 'a" where
  "tuple_at xs i =
     (if 0 \<le> i \<and> i < int (length xs) then Inr (xs ! nat i)
      else if i < 0 \<and> - int (length xs) \<le> i then Inr (xs ! nat (int (length xs) + i))
      else Inl (Exn PyIndexError []))"

definition baseline_of :: "'z corpus_world_scheme \<Rightarrow> string \<Rightarrow> int \<Rightarrow> exn + customer_baseline" where
  "baseline_of w master_seed customer_id =
     and_then (stream_for w master_seed (''customer-baseline:'' @ show_int customer_id)) (\<lambda>random.
       fst (pr_bind (pick random names_pool) (\<lambda>name.
            pr_bind (pick random countries) (\<lambda>country.
            pr_bind (pick random birth_dates) (\<lambda>birth_date.
            pr_bind (pick random countries) (\<lambda>signup_country.
              pr_return \<lparr>cb_name = name, cb_country = country, cb_birth_date = birth_date, cb_signup_country = signup_country\<rparr>)))) 0))"

definition derive_override_values :: "'z corpus_world_scheme \<Rightarrow> string \<Rightarrow> string \<Rightarrow> int list \<Rightarrow> customer_baseline list \<Rightarrow>
    int option \<Rightarrow> exn + (string \<times> string) option" where
  "derive_override_values w master_seed stream_label roster_ids baselines member =
     (case member of
        None \<Rightarrow> Inr None
      | Some m \<Rightarrow>
          and_then (tuple_at roster_ids m) (\<lambda>customer_id.
          and_then (tuple_at baselines m) (\<lambda>b.
          and_then (stream_for w master_seed (stream_label @ '':'' @ show_int customer_id)) (\<lambda>random.
            fst (pr_bind (pick_excluding random names_pool (cb_name b)) (\<lambda>name.
                 pr_bind (pick_excluding random countries (cb_country b)) (\<lambda>country. pr_return (Some (name, country)))) 0)))))"

record roster =
  ro_ids :: "int list"
  ro_baselines :: "customer_baseline list"
  ro_attribute_change :: "(string \<times> string) option"
  ro_late_correction :: "(string \<times> string) option"

definition customer_roster :: "'z corpus_world_scheme \<Rightarrow> series_args \<Rightarrow> exn + roster" where
  "customer_roster w a =
     (let ids = map (\<lambda>m. customer_id_base + int m) [0..<nat (sa_rows_per_day a)] in
      and_then (traverse (baseline_of w (sa_master_seed a)) ids) (\<lambda>baselines.
      and_then (derive_override_values w (sa_master_seed a) ''customer-attribute-change'' ids baselines (sa_attribute_change_member_index a)) (\<lambda>change.
      and_then (derive_override_values w (sa_master_seed a) ''customer-late-correction'' ids baselines (sa_late_correction_member_index a)) (\<lambda>correction.
        Inr \<lparr>ro_ids = ids, ro_baselines = baselines, ro_attribute_change = change, ro_late_correction = correction\<rparr>))))"

section \<open>One day of customers\<close>

definition omitted :: "series_args \<Rightarrow> int \<Rightarrow> nat \<Rightarrow> bool" where
  "omitted a day_index member \<longleftrightarrow>
     sa_missing_customer_member_index a = Some (int member) \<and> sa_missing_customer_day_index a = Some day_index \<or>
     sa_mass_delete_day_index a = Some day_index \<and>
       (case sa_mass_delete_member_indices a of None \<Rightarrow> False | Some ms \<Rightarrow> int member \<in> set ms)"

definition member_identity :: "series_args \<Rightarrow> roster \<Rightarrow> int \<Rightarrow> nat \<Rightarrow> string \<times> string" where
  "member_identity a ro day_index member =
     (let b = ro_baselines ro ! member in
      case (ro_attribute_change ro, sa_attribute_change_day_index a) of
        (Some changed, Some first_day) \<Rightarrow>
          if sa_attribute_change_member_index a = Some (int member) \<and> first_day \<le> day_index then changed else (cb_name b, cb_country b)
      | _ \<Rightarrow> (cb_name b, cb_country b))"

definition late_event_row_index :: "series_args \<Rightarrow> int" where
  "late_event_row_index a = sa_rows_per_day a div 2"

definition member_event_ts :: "series_args \<Rightarrow> int \<Rightarrow> int \<Rightarrow> nat \<Rightarrow> exn + string" where
  "member_event_ts a day day_index member =
     (if day_index = sa_late_event_day_index a \<and> int member = late_event_row_index a
      then and_then (add_to_day day (- sa_late_event_offset_days a)) (\<lambda>late. Inr (event_ts_of late))
      else Inr (event_ts_of day))"

text \<open>The value of the additional column, from the stream of the day's file.\<close>

definition extra_field :: "'z corpus_world_scheme \<Rightarrow> series_args \<Rightarrow> string \<Rightarrow> bool \<Rightarrow> exn + (nat, string list) prog" where
  "extra_field w a filename include_extra =
     (if include_extra
      then and_then (stream_for w (sa_master_seed a) filename) (\<lambda>random.
        Inr (pr_bind (pick random (schema_change_values (sa_dataset a))) (\<lambda>v. pr_return [v])))
      else Inr (pr_return []))"

definition customer_fields :: "int \<Rightarrow> customer_baseline \<Rightarrow> string \<times> string \<Rightarrow> string \<Rightarrow> string list" where
  "customer_fields customer_id b who event_ts =
     [show_int customer_id, fst who, snd who, cb_birth_date b, event_ts, cb_signup_country b]"

definition member_rows :: "series_args \<Rightarrow> roster \<Rightarrow> int \<Rightarrow> int \<Rightarrow> (nat, string list) prog \<Rightarrow> nat \<Rightarrow> (nat, string list list) prog" where
  "member_rows a ro day day_index extra member =
     (if omitted a day_index member then pr_return []
      else
        pr_bind (pr_lift (member_event_ts a day day_index member)) (\<lambda>event_ts.
        pr_bind extra (\<lambda>extras.
          pr_return [customer_fields (ro_ids ro ! member) (ro_baselines ro ! member) (member_identity a ro day_index member) event_ts @ extras])))"

text \<open>The late correction is one more row, after the roster.\<close>

definition correction_row :: "series_args \<Rightarrow> roster \<Rightarrow> int \<Rightarrow> (nat, string list) prog \<Rightarrow> string \<times> string \<Rightarrow> int \<Rightarrow> (nat, string list list) prog" where
  "correction_row a ro day extra corrected m =
     pr_bind (pr_lift (tuple_at (ro_baselines ro) m)) (\<lambda>b.
     pr_bind (pr_lift (add_to_day day (- sa_late_correction_offset_days a))) (\<lambda>late.
     pr_bind (pr_lift (tuple_at (ro_ids ro) m)) (\<lambda>customer_id.
     pr_bind extra (\<lambda>extras. pr_return [customer_fields customer_id b corrected (event_ts_of late) @ extras]))))"

definition correction_rows :: "series_args \<Rightarrow> roster \<Rightarrow> int \<Rightarrow> int \<Rightarrow> (nat, string list) prog \<Rightarrow> (nat, string list list) prog" where
  "correction_rows a ro day day_index extra =
     (case (ro_late_correction ro, sa_late_correction_member_index a) of
        (Some corrected, Some m) \<Rightarrow>
          if sa_late_correction_arrival_day_index a = Some day_index then correction_row a ro day extra corrected m
          else pr_return []
      | _ \<Rightarrow> pr_return [])"

definition customer_day :: "'z corpus_world_scheme \<Rightarrow> series_args \<Rightarrow> roster \<Rightarrow> string \<Rightarrow> int \<Rightarrow> int \<Rightarrow> bool \<Rightarrow> exn + string list list" where
  "customer_day w a ro filename day day_index include_extra =
     and_then (extra_field w a filename include_extra) (\<lambda>extra.
       fst (pr_bind (pr_for [0..<length (ro_ids ro)] (member_rows a ro day day_index extra)) (\<lambda>rows.
            pr_bind (correction_rows a ro day day_index extra) (\<lambda>late. pr_return (concat rows @ late))) 0))"

section \<open>One day of orders\<close>

definition series_order_row :: "series_args \<Rightarrow> (nat \<Rightarrow> rat) \<Rightarrow> int \<Rightarrow> int \<Rightarrow> bool \<Rightarrow> nat \<Rightarrow> (nat, string list) prog" where
  "series_order_row a random day day_index include_extra row_index =
     pr_bind (pr_lift (if day_index = sa_late_event_day_index a \<and> int row_index = late_event_row_index a
                       then add_to_day day (- sa_late_event_offset_days a) else Inr day)) (\<lambda>date_value.
     pr_bind (pick random order_customer_ids) (\<lambda>customer_id.
     pr_bind (decimal_cell random amount_min amount_max amount_scale) (\<lambda>amount.
     pr_bind (if include_extra then pr_bind (pick random (schema_change_values (sa_dataset a))) (\<lambda>v. pr_return [v]) else pr_return []) (\<lambda>extras.
       pr_return ([show_int (order_id_base + day_index * id_day_multiplier + int row_index), customer_id, dashed_date date_value, amount] @ extras)))))"

definition order_day :: "'z corpus_world_scheme \<Rightarrow> series_args \<Rightarrow> string \<Rightarrow> int \<Rightarrow> int \<Rightarrow> bool \<Rightarrow> exn + string list list" where
  "order_day w a filename day day_index include_extra =
     and_then (stream_for w (sa_master_seed a) filename) (\<lambda>random.
       fst (pr_for [0..<nat (sa_rows_per_day a)] (series_order_row a random day day_index include_extra) 0))"

section \<open>The series\<close>

definition series_filename :: "series_args \<Rightarrow> int \<Rightarrow> string" where
  "series_filename a day = sa_dataset a @ ''_'' @ compact_date day @ ''.csv''"

definition includes_extra :: "series_args \<Rightarrow> int \<Rightarrow> bool" where
  "includes_extra a day_index \<longleftrightarrow> sa_schema_change_day_index a \<le> day_index"

definition series_header :: "series_args \<Rightarrow> int \<Rightarrow> string list" where
  "series_header a day_index =
     (case map_of dataset_columns (sa_dataset a) of None \<Rightarrow> [] | Some columns \<Rightarrow> columns) @
     (if includes_extra a day_index then [schema_change_column (sa_dataset a)] else [])"

definition day_rows :: "'z corpus_world_scheme \<Rightarrow> series_args \<Rightarrow> roster option \<Rightarrow> int \<Rightarrow> int \<Rightarrow> exn + string list list" where
  "day_rows w a ro day day_index =
     (case ro of
        Some r \<Rightarrow> customer_day w a r (series_filename a day) day day_index (includes_extra a day_index)
      | None \<Rightarrow> order_day w a (series_filename a day) day day_index (includes_extra a day_index))"

definition day_body :: "string list list \<Rightarrow> string" where
  "day_body rows = join [CR, LF] (map (join '','') rows) @ [CR, LF]"

text \<open>The file of one day, none for the gap.\<close>

definition day_file :: "'z corpus_world_scheme \<Rightarrow> series_args \<Rightarrow> roster option \<Rightarrow> int \<Rightarrow> exn + (string \<times> string) option" where
  "day_file w a ro day_index =
     and_then (add_to_day (sa_start_date a) day_index) (\<lambda>day.
       if day_index = sa_gap_day_index a then Inr None
       else
         and_then (day_rows w a ro day day_index) (\<lambda>rows.
         and_then (cc_encode w ''utf-8'' (day_body (series_header a day_index # rows))) (\<lambda>bs.
           Inr (Some (series_filename a day, bs)))))"

definition series_roster :: "'z corpus_world_scheme \<Rightarrow> series_args \<Rightarrow> exn + roster option" where
  "series_roster w a =
     (if sa_dataset a = ''customers'' then and_then (customer_roster w a) (\<lambda>ro. Inr (Some ro)) else Inr None)"

record backfill_corpus_manifest =
  bc_args :: series_args
  bc_late_event_row_index :: int
  bc_filenames :: "string list"

definition generate_dated_series :: "'z corpus_world_scheme \<Rightarrow> series_args \<Rightarrow> exn + (string \<times> string) list \<times> backfill_corpus_manifest" where
  "generate_dated_series w a =
     and_then (require_that (sa_dataset a \<in> fst ` set dataset_columns)) (\<lambda>_.
     and_then (validate_customers_only_params a) (\<lambda>_.
     and_then (validate_paired_params a) (\<lambda>_.
     and_then (check_no_anomaly_collisions a) (\<lambda>_.
     and_then (series_roster w a) (\<lambda>ro.
     and_then (traverse (day_file w a ro) (map int [0..<nat (sa_num_days a)])) (\<lambda>days.
       (let files = concat (map (\<lambda>f. case f of None \<Rightarrow> [] | Some x \<Rightarrow> [x]) days) in
        Inr (foldl (\<lambda>ds (n, x). put_digest n x ds) [] files,
             \<lparr>bc_args = a, bc_late_event_row_index = late_event_row_index a, bc_filenames = map fst files\<rparr>))))))))"


section \<open>Every day sends the roster\<close>

lemma pr_for_blocks:
  assumes "pr_for xs f s = (Inr blocks, s')" and "\<And>x s b s'. x \<in> set xs \<Longrightarrow> f x s = (Inr b, s') \<Longrightarrow> P x b"
  shows "list_all2 P xs blocks"
  using assms by (induction xs arbitrary: s blocks) (fastforce simp: pr_bind_Inr)+

lemma concat_optional_blocks:
  assumes "list_all2 (\<lambda>x b. if Q x then b = [] else \<exists>y. b = [y] \<and> R x y) xs blocks"
  shows "list_all2 R (filter (\<lambda>x. \<not> Q x) xs) (concat blocks)"
  using assms by (induction xs blocks rule: list_all2_induct) (auto split: if_splits)

lemma extra_field_length:
  assumes "extra_field w a filename b = Inr extra" and "extra s = (Inr extras, s')"
  shows "length extras = (if b then 1 else 0)"
  using assms by (auto simp: extra_field_def pr_bind_Inr split: if_splits)

text \<open>What a customer's row of one day holds, apart from its time.\<close>

definition roster_row :: "series_args \<Rightarrow> roster \<Rightarrow> int \<Rightarrow> bool \<Rightarrow> nat \<Rightarrow> string list \<Rightarrow> bool" where
  "roster_row a ro day_index include_extra member row \<longleftrightarrow>
     (\<exists>ts extras. row = customer_fields (ro_ids ro ! member) (ro_baselines ro ! member) (member_identity a ro day_index member) ts @ extras \<and>
        length extras = (if include_extra then 1 else 0))"

lemma roster_rowI:
  assumes "extra_field w a filename b = Inr extra" and "extra s = (Inr extras, s')"
  shows "roster_row a ro day_index b member
    (customer_fields (ro_ids ro ! member) (ro_baselines ro ! member) (member_identity a ro day_index member) ts @ extras)"
  using extra_field_length [OF assms] unfolding roster_row_def by blast

text \<open>Each day sends every customer of the roster once, in the order of the roster, except those the request
  removes on that very day: the rows of a day are, for the members that are not omitted, one row with the member's own
  identifier and birth date, its name and country as of that day, and as many fields as the header; a late correction
  adds one row after them and takes none away.\<close>

theorem roster_resent:
  assumes "customer_day w a ro filename day day_index include_extra = Inr rows"
  shows "\<exists>sent late. rows = sent @ late \<and> length late \<le> 1 \<and>
    (sa_late_correction_arrival_day_index a \<noteq> Some day_index \<longrightarrow> late = []) \<and>
    list_all2 (roster_row a ro day_index include_extra) (filter (\<lambda>m. \<not> omitted a day_index m) [0..<length (ro_ids ro)]) sent"
proof -
  obtain extra where extra: "extra_field w a filename include_extra = Inr extra"
    using assms by (auto simp: customer_day_def)
  let ?rows = "pr_for [0..<length (ro_ids ro)] (member_rows a ro day day_index extra)"
  obtain blocks s late s' where members: "?rows 0 = (Inr blocks, s)" and late: "correction_rows a ro day day_index extra s = (Inr late, s')"
    and rows: "rows = concat blocks @ late"
  proof -
    have "fst (pr_bind ?rows (\<lambda>rows. pr_bind (correction_rows a ro day day_index extra) (\<lambda>late. pr_return (concat rows @ late))) 0) = Inr rows"
      using assms extra by (simp add: customer_day_def and_then_def)
    then obtain t where "pr_bind ?rows (\<lambda>rows. pr_bind (correction_rows a ro day day_index extra) (\<lambda>late. pr_return (concat rows @ late))) 0 = (Inr rows, t)"
      by (metis prod.collapse)
    with that show thesis by (auto simp: pr_bind_Inr)
  qed
  have "list_all2 (\<lambda>m b. if omitted a day_index m then b = [] else \<exists>row. b = [row] \<and> roster_row a ro day_index include_extra m row)
      [0..<length (ro_ids ro)] blocks"
    by (rule pr_for_blocks [OF members]) (auto simp: member_rows_def pr_bind_Inr, erule roster_rowI [OF extra])
  then have "list_all2 (roster_row a ro day_index include_extra) (filter (\<lambda>m. \<not> omitted a day_index m) [0..<length (ro_ids ro)]) (concat blocks)"
    by (rule concat_optional_blocks)
  moreover have "length late \<le> 1 \<and> (sa_late_correction_arrival_day_index a \<noteq> Some day_index \<longrightarrow> late = [])"
    using late by (auto simp: correction_rows_def correction_row_def pr_bind_Inr split: option.splits if_splits)
  ultimately show ?thesis using rows by blast
qed


text \<open>
  A member index outside the roster is recorded in the manifest of the series, and changes no row: counted from the
  end it still finds the values of a member, whose rows it then does not match.
\<close>

lemma negative_member_unchanged:
  assumes "sa_attribute_change_member_index a = Some (-1)"
  shows "member_identity a ro day_index member = (cb_name (ro_baselines ro ! member), cb_country (ro_baselines ro ! member))"
  using assms by (simp add: member_identity_def Let_def split: option.split)

lemma absent_member_not_omitted:
  assumes "sa_missing_customer_member_index a = Some (-1)" and "sa_mass_delete_day_index a = None"
  shows "\<not> omitted a day_index member"
  using assms by (simp add: omitted_def)

end
